(* ===== verification/Errors.thy ===== *)
theory Errors
  imports Main
begin

text \<open>
  The error values of the model.

  Every fallible operation of the Rust sources returns \<open>Result<T, ErrorTrace>\<close>, where an
  \<open>ErrorTrace\<close> (\<open>keramics-core/src/errors.rs\<close>) is a list of message strings.  No caller of the
  modelled code inspects the text of a message, so the model keeps one constructor per message
  and drops the formatted arguments.  A panic of the program (an arithmetic overflow in an
  unchecked operator, an index out of range, an \<open>unwrap\<close> of a failure) is a value as well,
  so that its absence can be stated and proved.  Arithmetic follows the checked build profile:
  an unchecked operator that overflows panics.
\<close>

section \<open>Panics\<close>

datatype (plugins only: code size) panic =
    Arithmetic_overflow
  | Index_out_of_bounds
  | Unwrap_failed
  | Divide_by_zero
  | Explicit_panic  \<comment> \<open>\<open>panic!\<close>\<close>

section \<open>Messages of the data sources (keramics-drivers/src/source)\<close>

datatype (plugins only: code size) source_error =
    Data_source_offset_overflow
  | Unable_to_read_exact_amount
  | Data_source_too_large
  | Cursor_position_overflow
  | Cursor_invalid_seek_position
  | Slice_offset_overflow
  | Segment_zero_sized
  | Segment_not_contiguous
  | Segment_size_overflow
  | Segment_missing
  | Segment_offset_overflow
  | Segment_read_offset_overflow
  | Extent_zero_sized
  | Extent_not_contiguous
  | Extent_size_overflow
  | Extent_missing
  | Extent_physical_offset_overflow
  | Extent_read_offset_overflow
  | Probe_cache_offset_overflow
  | Backend_error nat  \<comment> \<open>a failure of a backend outside the sources, by number\<close>

section \<open>Messages of the volume systems (keramics-drivers/src/volume)\<close>

datatype (plugins only: code size) volume_error =
    Mbr_entry_size
  | Mbr_boot_signature
  | Mbr_bytes_per_sector
  | Mbr_undetermined_bytes_per_sector
  | Mbr_two_extended_entries
  | Mbr_offset_overflow
  | Mbr_partition_size_overflow
  | Mbr_chain_cycle
  | Mbr_two_extended_links
  | Mbr_extended_offset_overflow
  | Mbr_two_logical_entries
  | Mbr_no_logical_entry
  | Mbr_logical_offset_overflow
  | Mbr_too_many_logical
  | Mbr_overlap
  | Mbr_end_offset_overflow
  | Mbr_out_of_bounds
  | Mbr_no_partition nat
  | Apm_signature
  | Apm_no_entries
  | Apm_number_of_entries_mismatch
  | Apm_map_type
  | Apm_partition_offset_overflow
  | Apm_partition_size_overflow
  | Apm_partition_end_overflow
  | Apm_overlap
  | Apm_out_of_bounds
  | Apm_map_offset_overflow
  | Apm_no_partition nat

datatype (plugins only: code size) gpt_error =
    Gpt_signature
  | Gpt_format_version
  | Gpt_header_size
  | Gpt_header_checksum
  | Gpt_entry_size
  | Gpt_undetermined_bytes_per_sector
  | Gpt_bytes_per_sector
  | Gpt_primary_block_number
  | Gpt_area_range
  | Gpt_no_entries
  | Gpt_entry_data_size
  | Gpt_backup_offset_overflow
  | Gpt_source_too_small
  | Gpt_table_size_overflow
  | Gpt_entries_start_overflow
  | Gpt_first_usable_overflow
  | Gpt_entries_in_usable_area
  | Gpt_table_overlaps_usable_area
  | Gpt_entry_offset_overflow
  | Gpt_entry_out_of_bounds
  | Gpt_entry_end_before_start
  | Gpt_overlap
  | Gpt_partition_offset_overflow
  | Gpt_partition_size_overflow
  | Gpt_partition_byte_size_overflow
  | Gpt_entries_checksum
  | Gpt_no_partition nat

section \<open>Messages of the image formats (keramics-drivers/src/image)\<close>

datatype (plugins only: code size) image_error =
    Sparseimage_signature
  | Sparseimage_sectors_per_band
  | Sparseimage_band_size_overflow
  | Sparseimage_media_size_overflow
  | Sparseimage_number_of_bands
  | Sparseimage_band_number
  | Sparseimage_duplicate_band
  | Sparseimage_logical_offset_overflow
  | Sparseimage_physical_offset_overflow
  | Sparseimage_physical_end_overflow
  | Sparseimage_band_exceeds_source
  | Sparseimage_extent_end_overflow
  | Sparsebundle_missing_file
  | Sparsebundle_unreadable_plist
  | Sparsebundle_plist_size
  | Sparsebundle_plist_utf8
  | Sparsebundle_no_dictionary_version
  | Sparsebundle_dictionary_version
  | Sparsebundle_no_bundle_type
  | Sparsebundle_bundle_type
  | Sparsebundle_no_band_size
  | Sparsebundle_parse_band_size
  | Sparsebundle_zero_band_size
  | Sparsebundle_no_size
  | Sparsebundle_parse_size
  | Sparsebundle_zero_size
  | Sparsebundle_zero_sized_band
  | Sparsebundle_band_exceeds_size
  | Splitraw_file_name
  | Splitraw_naming_schema
  | Splitraw_first_segment_number
  | Splitraw_segment_count
  | Splitraw_parse_segment_count
  | Splitraw_segment_number_zero
  | Splitraw_suffix_exceeds_size
  | Splitraw_missing_segment
  | Splitraw_segment_size_mismatch
  | Splitraw_zero_sized_segment
  | Splitraw_media_size_overflow
  | Splitraw_segment_number_overflow
  | Splitraw_no_segments

datatype (plugins only: code size) disk_error =
    Qcow_signature
  | Qcow_format_version
  | Qcow_incompatible_features
  | Qcow_compatible_features
  | Qcow_cluster_block_bits
  | Qcow_header_size
  | Qcow_compression_method
  | Qcow_encryption_method
  | Qcow_backing_file
  | Qcow_snapshots
  | Qcow_level1_index
  | Qcow_level1_offset_overflow
  | Qcow_level2_offset_overflow
  | Qcow_compressed_cluster
  | Qcow_block_end_overflow
  | Qcow_block_exceeds_file
  | Vhd_file_too_small
  | Vhd_footer_signature
  | Vhd_footer_version
  | Vhd_fixed_next_offset
  | Vhd_dynamic_next_offset
  | Vhd_header_signature
  | Vhd_header_next_offset
  | Vhd_header_version
  | Vhd_block_size
  | Vhd_parent_required
  | Vhd_parent_identifier_missing
  | Vhd_parent_identifier_mismatch
  | Vhd_unexpected_parent
  | Vhd_disk_type
  | Vhd_too_few_blocks
  | Vhd_block_media_offset_overflow
  | Vhd_bat_offset_overflow
  | Vhd_bitmap_offset_overflow
  | Vhd_block_data_overflow
  | Vhd_block_data_end_overflow
  | Vhd_block_exceeds_file
  | Vhd_range_media_overflow
  | Vhd_range_data_overflow

datatype (plugins only: code size) vhdx_item =
    File_parameters
  | Virtual_disk_size
  | Logical_sector_size
  | Physical_sector_size
  | Virtual_disk_identifier
  | Parent_locator

datatype (plugins only: code size) vhdx_error =
    Vhdx_file_signature
  | Vhdx_image_header_signature
  | Vhdx_image_header_checksum
  | Vhdx_region_table_signature
  | Vhdx_region_table_count
  | Vhdx_region_table_checksum
  | Vhdx_region_table_size
  | Vhdx_missing_metadata_region
  | Vhdx_missing_bat_region
  | Vhdx_parent_required
  | Vhdx_parent_identifier_missing
  | Vhdx_parent_identifier_mismatch
  | Vhdx_metadata_region_size
  | Vhdx_missing_item vhdx_item
  | Vhdx_item_size vhdx_item
  | Vhdx_item_offset_overflow vhdx_item
  | Vhdx_block_size
  | Vhdx_disk_type_flags
  | Vhdx_sector_size vhdx_item
  | Vhdx_metadata_table_signature
  | Vhdx_metadata_table_size
  | Vhdx_metadata_item_offset
  | Vhdx_locator_size
  | Vhdx_locator_type
  | Vhdx_locator_table_size
  | Vhdx_locator_value_overflow
  | Vhdx_locator_value_bounds
  | Vhdx_locator_value_size
  | Vhdx_locator_encoding
  | Vhdx_parent_identifier
  | Vhdx_too_few_blocks
  | Vhdx_block_media_offset_overflow
  | Vhdx_parent_source_required
  | Vhdx_sector_bitmap_state
  | Vhdx_sector_bitmap_overflow
  | Vhdx_bat_index
  | Vhdx_bat_offset_overflow

datatype (plugins only: code size) ewf_error =
    Ewf_file_name
  | Ewf_file_stem
  | Ewf_missing_segment
  | Ewf_segment_number
  | Ewf_segment_number_overflow
  | Ewf_segment_number_zero
  | Ewf_extension_limit
  | Ewf_extension_encoding
  | Ewf_missing_extension
  | Ewf_unsupported_extension
  | Ewf_section_checksum
  | Ewf_missing_volume
  | Ewf_number_of_chunks
  | Ewf_media_size_mismatch
  | Ewf_volume_segment
  | Ewf_multiple_volumes
  | Ewf_geometry
  | Ewf_chunk_size_overflow
  | Ewf_media_size_overflow
  | Ewf_table_before_volume
  | Ewf_no_table_entries
  | Ewf_chunk_offset_overflow
  | Ewf_next_chunk_offset_overflow
  | Ewf_table_entry
  | Ewf_chunk_data_size
  | Ewf_media_offset_overflow
  | Ewf_too_many_chunks
  | Ewf_chunk_segment_missing
  | Ewf_chunk_too_small
  | Ewf_chunk_index
  | Ewf_chunk_missing
  | Ewf_data_offset_overflow
  | Ewf_read_offset_overflow
  | Ewf_file_signature
  | Ewf_start_of_fields
  | Ewf_end_of_fields
  | Ewf_segment_size
  | Ewf_done_size
  | Ewf_done_next_offset
  | Ewf_section_next_offset
  | Ewf_section_size
  | Ewf_section_size_too_small
  | Ewf_section_offset_overflow
  | Ewf_trailing_data
  | Ewf_volume_data_size
  | Ewf_volume_checksum
  | Ewf_s01_volume_checksum
  | Ewf_table_data_size
  | Ewf_table_header_checksum
  | Ewf_table_array_overflow
  | Ewf_table_size_overflow
  | Ewf_table_entries_size
  | Ewf_table_checksum
  | Ewf_hash_size
  | Ewf_hash_checksum
  | Ewf_digest_size
  | Ewf_digest_checksum
  | Ewf_section_data_size

section \<open>Messages of the VMDK driver (keramics-drivers/src/image/vmdk)\<close>

datatype (plugins only: code size) vmdk_error =
    Vmdk_compressed_grains
  | Vmdk_grain_table_entries_zero
  | Vmdk_grain_size_overflow
  | Vmdk_grain_table_size_overflow
  | Vmdk_primary_directory_zero
  | Vmdk_primary_directory_overflow
  | Vmdk_secondary_directory_zero
  | Vmdk_secondary_directory_overflow
  | Vmdk_directory_entry_overflow
  | Vmdk_sparse_extent_offset_overflow
  | Vmdk_sparse_extent_size_overflow
  | Vmdk_grain_table_overflow
  | Vmdk_grain_index_overflow
  | Vmdk_grain_extent_overflow
  | Vmdk_grain_table_entry_overflow
  | Vmdk_grain_data_overflow
  | Vmdk_grain_data_end_overflow
  | Vmdk_grain_exceeds_file
  | Vmdk_descriptor_start_zero
  | Vmdk_descriptor_size_zero
  | Vmdk_descriptor_offset_overflow
  | Vmdk_descriptor_size_overflow
  | Vmdk_disk_type
  | Vmdk_number_of_extents
  | Vmdk_extent_type
  | Vmdk_extent_file_name
  | Vmdk_media_size_overflow
  | Vmdk_maximum_media_size_overflow
  | Vmdk_media_exceeds_capacity
  | Vmdk_cowd_media_size_overflow
  | Vmdk_cowd_signature
  | Vmdk_cowd_version
  | Vmdk_cowd_sectors_per_grain
  | Vmdk_cowd_directory_zero
  | Vmdk_cowd_number_of_entries
  | Vmdk_cowd_grain_size_overflow
  | Vmdk_cowd_directory_overflow
  | Vmdk_cowd_directory_index
  | Vmdk_cowd_directory_entry_overflow
  | Vmdk_cowd_logical_overflow
  | Vmdk_cowd_table_overflow
  | Vmdk_cowd_table_entry_overflow
  | Vmdk_cowd_data_overflow
  | Vmdk_cowd_data_end_overflow
  | Vmdk_cowd_grain_exceeds_file
  | Vmdk_signature
  | Vmdk_characters
  | Vmdk_version
  | Vmdk_sectors_per_grain
  | Vmdk_flags
  | Vmdk_descriptor_size
  | Vmdk_descriptor_utf8
  | Vmdk_missing_descriptor_signature
  | Vmdk_descriptor_signature
  | Vmdk_key_value
  | Vmdk_content_identifier
  | Vmdk_parent_content_identifier
  | Vmdk_create_type
  | Vmdk_extent_value
  | Vmdk_access_mode
  | Vmdk_missing_number_of_sectors
  | Vmdk_extent_number_of_sectors

section \<open>Messages of the file systems (keramics-drivers/src/filesystem)\<close>

datatype (plugins only: code size) fat_error =
    Fat_allocation_table_offset_overflow
  | Fat_allocation_table_size_overflow
  | Fat_cluster_block_size_overflow
  | Fat_root_directory_size_overflow
  | Fat_boot_record_size
  | Fat_boot_signature
  | Fat_bytes_per_sector
  | Fat_sectors_per_cluster_block
  | Fat32_root_directory_entries
  | Fat32_number_of_sectors
  | Fat32_allocation_table_size
  | Fat32_root_directory_cluster
  | Fat_entry_index
  | Fat_cluster_already_read
  | Fat_chain_too_short
  | Fat_missing_directory_entry
  | Fat_directory_size
  | Fat_long_name_entry_size
  | Fat_short_name_entry_size
  | Fat_long_name_sequence
  | Fat_long_name_encoding

section \<open>Messages of the shared types (keramics-types)\<close>

datatype (plugins only: code size) type_error =
    Uuid_string_length
  | Uuid_string
  | Uuid_part nat  \<comment> \<open>\<open>Unable to parse part1\<close> to \<open>part5\<close>\<close>
  | Utf16_missing_low_surrogate
  | Utf16_low_surrogate_out_of_bounds

section \<open>Messages of the decompressors (keramics-compression)\<close>

datatype (plugins only: code size) compression_error =
    Compressed_data_too_small
  | Uncompressed_data_too_small
  | Literal_exceeds_compressed_data
  | Literal_exceeds_uncompressed_data
  | Uncompressed_offset_out_of_bounds
  | Distance_exceeds_uncompressed_offset
  | Match_exceeds_uncompressed_data
  | Lznt1_block_header_size
  | Lznt1_tuple_shift_out_of_bounds
  | Huffman_number_of_code_sizes
  | Huffman_code_size
  | Huffman_no_codes
  | Huffman_over_subscribed
  | Huffman_code_offset
  | Huffman_invalid_code
  | Deflate_number_of_literal_codes
  | Deflate_number_of_distance_codes
  | Deflate_code_size_index
  | Deflate_code_size_symbol
  | Deflate_times_to_repeat
  | Deflate_end_of_block_missing
  | Deflate_block_size_mismatch
  | Deflate_block_type
  | Deflate_compression_offset
  | Deflate_compression_size
  | Deflate_symbol
  | Zlib_data_size
  | Zlib_compression_method
  | Zlib_window_size
  | Zlib_checksum

section \<open>Messages of the tools (keramics-tools)\<close>

datatype (plugins only: code size) tool_error =
    Unsupported_date_time

section \<open>The error type\<close>

datatype (plugins only: code size) error =
    Source_error source_error
  | Volume_error volume_error
  | Gpt_error gpt_error
  | Image_error image_error
  | Disk_error disk_error
  | Vhdx_error vhdx_error
  | Ewf_error ewf_error
  | Vmdk_error vmdk_error
  | Fat_error fat_error
  | Type_error type_error
  | Compression_error compression_error
  | Tool_error tool_error
  | Panic panic

text \<open>\<open>Result<T, ErrorTrace>\<close>, with the Rust names of its two constructors.\<close>

type_synonym 'a result = "error + 'a"

abbreviation Ok :: "'a \<Rightarrow> 'a result" where
  "Ok \<equiv> Inr"

abbreviation Err :: "error \<Rightarrow> 'a result" where
  "Err \<equiv> Inl"

end
