(* ===== verification/Prelude.thy ===== *)
theory Prelude
  imports Errors "HOL-Library.Word"
begin

text \<open>
  The prelude of the development: bytes and machine integers, the sequencing of fallible
  operations, the checked arithmetic of Rust on \<open>u64\<close>, byte slices, byte-order conversions and
  the few standard-library functions the sources call, with the lemmas the components share.

  Offsets, sizes and counts of type \<open>u16\<close>, \<open>u32\<close>, \<open>u64\<close> and \<open>usize\<close> are natural numbers; every
  operation that can leave its range is written with its check (\<open>checked_add\<close>, \<open>add_u64\<close>, \<open>\<dots>\<close>).
  Bytes and checksums, on which the code works bitwise, are words.  \<open>usize\<close> has 64 bits.
\<close>

unbundle bit_operations_syntax

named_theorems result_simps \<open>sequencing of results, success of a composed operation\<close>
named_theorems slice_simps \<open>byte slices\<close>

type_synonym byte = "8 word"
type_synonym u16 = "16 word"
type_synonym u32 = "32 word"

section \<open>Sequencing of fallible operations\<close>

text \<open>\<open>and_then m f\<close> is the \<open>?\<close> operator: an error of \<open>m\<close> is returned, a value is passed on.\<close>

definition and_then :: "'a result \<Rightarrow> ('a \<Rightarrow> 'b result) \<Rightarrow> 'b result" where
  "and_then m f = (case m of Inl e \<Rightarrow> Inl e | Inr x \<Rightarrow> f x)"

lemma and_then_Err [simp]: "and_then (Err e) f = Err e"
  by (simp add: and_then_def)

lemma and_then_Ok [simp]: "and_then (Ok x) f = f x"
  by (simp add: and_then_def)

lemma and_then_eq_Ok [result_simps]:
  "and_then m f = Ok y \<longleftrightarrow> (\<exists>x. m = Ok x \<and> f x = Ok y)"
  by (cases m) auto

lemma and_then_eq_Err:
  "and_then m f = Err e \<longleftrightarrow> m = Err e \<or> (\<exists>x. m = Ok x \<and> f x = Err e)"
  by (cases m) auto

lemma and_then_cong [fundef_cong]:
  "m = m' \<Longrightarrow> (\<And>x. m' = Ok x \<Longrightarrow> f x = g x) \<Longrightarrow> and_then m f = and_then m' g"
  by (cases m') auto

text \<open>\<open>Option::ok_or\<close>.\<close>

definition ok_or :: "error \<Rightarrow> 'a option \<Rightarrow> 'a result" where
  "ok_or e x = (case x of None \<Rightarrow> Err e | Some v \<Rightarrow> Ok v)"

lemma ok_or_simps [simp]: "ok_or e None = Err e" "ok_or e (Some v) = Ok v"
  by (simp_all add: ok_or_def)

lemma ok_or_eq_Ok [result_simps]: "ok_or e x = Ok v \<longleftrightarrow> x = Some v"
  by (cases x) auto

lemma if_Err_eq_Ok [result_simps]: "(if b then Err e else r) = Ok v \<longleftrightarrow> \<not> b \<and> r = Ok v"
  by simp

text \<open>A loop that maps a list and stops at the first error.\<close>

fun try_map :: "('a \<Rightarrow> 'b result) \<Rightarrow> 'a list \<Rightarrow> 'b list result" where
  "try_map f [] = Ok []"
| "try_map f (x # xs) = and_then (f x) (\<lambda>y. and_then (try_map f xs) (\<lambda>ys. Ok (y # ys)))"

lemma try_map_Ok: "try_map f xs = Ok ys \<longleftrightarrow> list_all2 (\<lambda>x y. f x = Ok y) xs ys"
  by (induction xs arbitrary: ys) (auto simp: result_simps list_all2_Cons1)

section \<open>Trying one candidate after the other\<close>

text \<open>
  The loop with which several drivers open a source: the first candidate that works is returned,
  otherwise the error of the last one.  A panic is no error value: it ends the loop.
\<close>

fun open_first :: "('a \<Rightarrow> 'b result) \<Rightarrow> error \<Rightarrow> 'a list \<Rightarrow> 'b result" where
  "open_first try last_error [] = Err last_error"
| "open_first try last_error (c # cs) =
     (case try c of
        Inr v \<Rightarrow> Ok v
      | Inl (Panic p) \<Rightarrow> Err (Panic p)
      | Inl e \<Rightarrow> open_first try e cs)"

lemma open_first_Ok: "open_first try e cs = Ok v \<Longrightarrow> \<exists>c \<in> set cs. try c = Ok v"
  by (induction cs arbitrary: e) (auto split: sum.splits error.splits)

text \<open>The candidate that is taken is the first one that works.\<close>

lemma open_first_least:
  "open_first try e cs = Ok v \<Longrightarrow>
     \<exists>i < length cs. try (cs ! i) = Ok v \<and> (\<forall>j < i. \<exists>e'. try (cs ! j) = Err e')"
proof (induction cs arbitrary: e)
  case (Cons c cs)
  show ?case
  proof (cases "try c")
    case (Inr v')
    with Cons.prems show ?thesis by (intro exI [of _ 0]) simp
  next
    case (Inl e')
    with Cons.prems have "open_first try e' cs = Ok v" by (auto split: error.splits)
    from Cons.IH [OF this] obtain i where "i < length cs" "try (cs ! i) = Ok v"
      "\<forall>j < i. \<exists>e'. try (cs ! j) = Err e'" by auto
    then show ?thesis
      using Inl by (intro exI [of _ "Suc i"]) (auto simp: less_Suc_eq_0_disj)
  qed
qed simp

section \<open>Checked arithmetic\<close>

definition u64_limit :: nat where
  "u64_limit = 2 ^ 64"

definition u32_limit :: nat where
  "u32_limit = 2 ^ 32"

definition u16_limit :: nat where
  "u16_limit = 2 ^ 16"

text \<open>\<open>u64::checked_add\<close>, \<open>checked_mul\<close>, \<open>checked_sub\<close>, \<open>saturating_add\<close>, \<open>saturating_sub\<close>.\<close>

definition checked_add :: "nat \<Rightarrow> nat \<Rightarrow> nat option" where
  "checked_add a b = (if a + b < u64_limit then Some (a + b) else None)"

definition checked_mul :: "nat \<Rightarrow> nat \<Rightarrow> nat option" where
  "checked_mul a b = (if a * b < u64_limit then Some (a * b) else None)"

definition checked_sub :: "nat \<Rightarrow> nat \<Rightarrow> nat option" where
  "checked_sub a b = (if b \<le> a then Some (a - b) else None)"

definition saturating_add :: "nat \<Rightarrow> nat \<Rightarrow> nat" where
  "saturating_add a b = min (a + b) (u64_limit - 1)"

definition saturating_sub :: "nat \<Rightarrow> nat \<Rightarrow> nat" where
  "saturating_sub a b = a - b"

text \<open>The unchecked operators on \<open>u64\<close>, which panic when they overflow.\<close>

definition add_u64 :: "nat \<Rightarrow> nat \<Rightarrow> nat result" where
  "add_u64 a b = (if a + b < u64_limit then Ok (a + b) else Err (Panic Arithmetic_overflow))"

definition sub_u64 :: "nat \<Rightarrow> nat \<Rightarrow> nat result" where
  "sub_u64 a b = (if b \<le> a then Ok (a - b) else Err (Panic Arithmetic_overflow))"

definition mul_u64 :: "nat \<Rightarrow> nat \<Rightarrow> nat result" where
  "mul_u64 a b = (if a * b < u64_limit then Ok (a * b) else Err (Panic Arithmetic_overflow))"

text \<open>\<open>u32::checked_mul\<close>, and the unchecked addition on \<open>u32\<close>.\<close>

definition checked_mul_u32 :: "nat \<Rightarrow> nat \<Rightarrow> nat option" where
  "checked_mul_u32 a b = (if a * b < u32_limit then Some (a * b) else None)"

definition add_u32 :: "nat \<Rightarrow> nat \<Rightarrow> nat result" where
  "add_u32 a b = (if a + b < u32_limit then Ok (a + b) else Err (Panic Arithmetic_overflow))"

text \<open>\<open>u64::div_ceil\<close>, and the conversion \<open>usize::try_from\<close> of a \<open>u64\<close>.\<close>

definition div_ceil :: "nat \<Rightarrow> nat \<Rightarrow> nat" where
  "div_ceil a b = (if a mod b = 0 then a div b else a div b + 1)"

definition usize_try_from :: "nat \<Rightarrow> nat option" where
  "usize_try_from n = (if n < u64_limit then Some n else None)"

lemma checked_add_eq_Some [result_simps]:
  "checked_add a b = Some c \<longleftrightarrow> a + b < u64_limit \<and> c = a + b"
  by (auto simp: checked_add_def)

lemma checked_mul_eq_Some [result_simps]:
  "checked_mul a b = Some c \<longleftrightarrow> a * b < u64_limit \<and> c = a * b"
  by (auto simp: checked_mul_def)

lemma checked_mul_u32_eq_Some [result_simps]:
  "checked_mul_u32 a b = Some c \<longleftrightarrow> a * b < u32_limit \<and> c = a * b"
  by (auto simp: checked_mul_u32_def)

lemma checked_sub_eq_Some [result_simps]:
  "checked_sub a b = Some c \<longleftrightarrow> b \<le> a \<and> c = a - b"
  by (auto simp: checked_sub_def)

lemma add_u64_eq_Ok [result_simps]: "add_u64 a b = Ok c \<longleftrightarrow> a + b < u64_limit \<and> c = a + b"
  by (auto simp: add_u64_def)

lemma sub_u64_eq_Ok [result_simps]: "sub_u64 a b = Ok c \<longleftrightarrow> b \<le> a \<and> c = a - b"
  by (auto simp: sub_u64_def)

lemma mul_u64_eq_Ok [result_simps]: "mul_u64 a b = Ok c \<longleftrightarrow> a * b < u64_limit \<and> c = a * b"
  by (auto simp: mul_u64_def)

lemma add_u32_eq_Ok [result_simps]: "add_u32 a b = Ok c \<longleftrightarrow> a + b < u32_limit \<and> c = a + b"
  by (auto simp: add_u32_def)

lemma usize_try_from_id: "n < u64_limit \<Longrightarrow> usize_try_from n = Some n"
  by (simp add: usize_try_from_def)

lemma div_ceil_bounds:
  assumes "0 < b"
  shows "a \<le> div_ceil a b * b" "0 < a \<Longrightarrow> (div_ceil a b - 1) * b < a"
proof -
  have eq: "a div b * b + a mod b = a" by simp
  have lt: "a mod b < b" using assms by simp
  have "a \<le> a div b * b + b" using eq lt by linarith
  then show "a \<le> div_ceil a b * b"
    using eq by (cases "a mod b = 0") (auto simp: div_ceil_def)
  show "(div_ceil a b - 1) * b < a" if "0 < a"
  proof (cases "a mod b = 0")
    case True
    then obtain k where k: "a = b * k" by auto
    with that assms have "0 < k" by simp
    with k assms show ?thesis by (simp add: div_ceil_def mult.commute)
  next
    case False
    then have "a div b * b < a" using eq by linarith
    with False show ?thesis by (simp add: div_ceil_def)
  qed
qed

lemma u32_lt_u64: "n < u32_limit \<Longrightarrow> n < u64_limit"
  by (simp add: u32_limit_def u64_limit_def)

lemma u32_mul_lt_u64: "a < u32_limit \<Longrightarrow> b < u32_limit \<Longrightarrow> a * b < u64_limit"
proof -
  assume ab: "a < u32_limit" "b < u32_limit"
  then have "a * b < u32_limit * u32_limit"
    by (intro mult_strict_mono) (auto simp: u32_limit_def)
  then show ?thesis by (simp add: u32_limit_def u64_limit_def)
qed

section \<open>Byte slices\<close>

text \<open>\<open>subslice off n xs\<close> is the part \<open>&xs[off..off + n]\<close>, cut off where \<open>xs\<close> ends.\<close>

definition subslice :: "nat \<Rightarrow> nat \<Rightarrow> 'a list \<Rightarrow> 'a list" where
  "subslice off n xs = take n (drop off xs)"

lemma length_slice [slice_simps]: "length (subslice off n xs) = min n (length xs - off)"
  by (simp add: subslice_def)

lemma length_slice_exact [slice_simps]: "off + n \<le> length xs \<Longrightarrow> length (subslice off n xs) = n"
  by (simp add: subslice_def)

lemma slice_0 [simp]: "subslice off 0 xs = []"
  by (simp add: subslice_def)

lemma slice_beyond [simp]: "length xs \<le> off \<Longrightarrow> subslice off n xs = []"
  by (simp add: subslice_def)

lemma slice_append: "subslice off m xs @ subslice (off + m) n xs = subslice off (m + n) xs"
  by (simp add: subslice_def take_add add.commute)

lemma slice_slice: "subslice a n (subslice b m xs) = subslice (b + a) (min n (m - a)) xs"
  by (simp add: subslice_def drop_take add.commute min.commute)

lemma slice_all: "length xs \<le> n \<Longrightarrow> subslice 0 n xs = xs"
  by (simp add: subslice_def)

lemma slice_eq_Nil_iff: "subslice off n xs = [] \<longleftrightarrow> n = 0 \<or> length xs \<le> off"
  by (auto simp: subslice_def)

lemma slice_min: "subslice off (min n (length xs - off)) xs = subslice off n xs"
  by (simp add: subslice_def min_def)

lemma nth_slice [slice_simps]: "i < n \<Longrightarrow> off + i < length xs \<Longrightarrow> subslice off n xs ! i = xs ! (off + i)"
  by (simp add: subslice_def)

lemma slice_append_left: "off + n \<le> length xs \<Longrightarrow> subslice off n (xs @ ys) = subslice off n xs"
  by (simp add: subslice_def)

lemma slice_append_right: "length xs \<le> off \<Longrightarrow> subslice off n (xs @ ys) = subslice (off - length xs) n ys"
  by (simp add: subslice_def)

lemma length_le_concat: "c \<in> set cs \<Longrightarrow> length c \<le> length (concat cs)"
  by (induction cs) auto

lemma slice_map_nth: "off + n \<le> length xs \<Longrightarrow> subslice off n xs = map (\<lambda>x. xs ! (off + (x - lo))) [lo..<lo + n]"
  by (intro nth_equalityI) (simp_all add: slice_simps)

lemma replicate_map: "b - a = n \<Longrightarrow> replicate n c = map (\<lambda>_. c) [a..<b]"
  by (simp add: map_replicate_const)

section \<open>Byte order\<close>

text \<open>\<open>from_be_bytes\<close> and \<open>from_le_bytes\<close> of \<open>u16\<close>, \<open>u32\<close> and \<open>u64\<close>, as natural numbers.\<close>

definition from_be_bytes :: "byte list \<Rightarrow> nat" where
  "from_be_bytes bs = foldl (\<lambda>acc b. acc * 256 + unat b) 0 bs"

definition from_le_bytes :: "byte list \<Rightarrow> nat" where
  "from_le_bytes bs = from_be_bytes (rev bs)"

lemma unat_byte_lt: "unat (b :: byte) < 256"
  using unsigned_less [of b, where 'a = nat] by simp

lemma foldl_be_bound:
  "foldl (\<lambda>acc b. acc * 256 + unat (b :: byte)) a bs < (a + 1) * 256 ^ length bs"
proof (induction bs arbitrary: a)
  case Nil
  then show ?case by simp
next
  case (Cons b bs)
  have "foldl (\<lambda>acc b. acc * 256 + unat b) (a * 256 + unat b) bs
      < (a * 256 + unat b + 1) * 256 ^ length bs"
    by (rule Cons.IH)
  also have "\<dots> \<le> ((a + 1) * 256) * 256 ^ length bs"
    using unat_byte_lt [of b] by (intro mult_le_mono1) simp
  finally show ?case by (simp add: algebra_simps)
qed

lemma from_be_bytes_bound: "from_be_bytes bs < 256 ^ length bs"
  using foldl_be_bound [of 0 bs] by (simp add: from_be_bytes_def)

lemma from_le_bytes_bound: "from_le_bytes bs < 256 ^ length bs"
  using from_be_bytes_bound [of "rev bs"] by (simp add: from_le_bytes_def)

lemma from_bytes_zero [simp]: "from_be_bytes (replicate n 0) = 0" "from_le_bytes (replicate n 0) = 0"
proof -
  have "foldl (\<lambda>acc b. acc * 256 + unat (b :: byte)) 0 (replicate n 0) = 0" for n by (induction n) simp_all
  then show "from_be_bytes (replicate n 0) = 0" "from_le_bytes (replicate n 0) = 0"
    by (simp_all add: from_le_bytes_def from_be_bytes_def)
qed

definition u16_be :: "nat \<Rightarrow> byte list \<Rightarrow> nat" where
  "u16_be off data = from_be_bytes (subslice off 2 data)"

definition u16_le :: "nat \<Rightarrow> byte list \<Rightarrow> nat" where
  "u16_le off data = from_le_bytes (subslice off 2 data)"

definition u32_be :: "nat \<Rightarrow> byte list \<Rightarrow> nat" where
  "u32_be off data = from_be_bytes (subslice off 4 data)"

definition u32_le :: "nat \<Rightarrow> byte list \<Rightarrow> nat" where
  "u32_le off data = from_le_bytes (subslice off 4 data)"

definition u64_be :: "nat \<Rightarrow> byte list \<Rightarrow> nat" where
  "u64_be off data = from_be_bytes (subslice off 8 data)"

definition u64_le :: "nat \<Rightarrow> byte list \<Rightarrow> nat" where
  "u64_le off data = from_le_bytes (subslice off 8 data)"

text \<open>A field of a header that was read is the field of the contents.\<close>

lemma field_of_slice:
  "off + 2 \<le> n \<Longrightarrow> u16_be off (subslice 0 n c) = u16_be off c" "off + 2 \<le> n \<Longrightarrow> u16_le off (subslice 0 n c) = u16_le off c"
  "off + 4 \<le> n \<Longrightarrow> u32_be off (subslice 0 n c) = u32_be off c" "off + 4 \<le> n \<Longrightarrow> u32_le off (subslice 0 n c) = u32_le off c"
  "off + 8 \<le> n \<Longrightarrow> u64_be off (subslice 0 n c) = u64_be off c" "off + 8 \<le> n \<Longrightarrow> u64_le off (subslice 0 n c) = u64_le off c"
  by (simp_all add: u16_be_def u16_le_def u32_be_def u32_le_def u64_be_def u64_le_def slice_slice min_def)

lemma bytes_bound_le:
  assumes "length bs \<le> k"
  shows "from_be_bytes bs < 256 ^ k" "from_le_bytes bs < 256 ^ k"
  using assms order_less_le_trans [OF from_be_bytes_bound] order_less_le_trans [OF from_le_bytes_bound]
  by (meson power_increasing zero_less_numeral one_le_numeral)+

lemma u16_bounds: "u16_be off data < u16_limit" "u16_le off data < u16_limit"
  using bytes_bound_le [of "subslice off 2 data" 2]
  by (simp_all add: u16_be_def u16_le_def u16_limit_def slice_simps)

lemma u32_bounds: "u32_be off data < u32_limit" "u32_le off data < u32_limit"
  using bytes_bound_le [of "subslice off 4 data" 4]
  by (simp_all add: u32_be_def u32_le_def u32_limit_def slice_simps)

lemma u64_bounds: "u64_be off data < u64_limit" "u64_le off data < u64_limit"
  using bytes_bound_le [of "subslice off 8 data" 8]
  by (simp_all add: u64_be_def u64_le_def u64_limit_def slice_simps)

lemmas field_bounds = u16_bounds u32_bounds u64_bounds

section \<open>Standard-library functions on slices\<close>

text \<open>
  \<open>slice::partition_point\<close>: the number of leading elements that satisfy the predicate, which is
  what the binary search returns on a slice partitioned by it.
\<close>

definition partition_point :: "('a \<Rightarrow> bool) \<Rightarrow> 'a list \<Rightarrow> nat" where
  "partition_point p xs = length (takeWhile p xs)"

text \<open>\<open>slice::get\<close>.\<close>

definition get_index :: "'a list \<Rightarrow> nat \<Rightarrow> 'a option" where
  "get_index xs i = (if i < length xs then Some (xs ! i) else None)"

lemma partition_point_le_length: "partition_point p xs \<le> length xs"
  by (simp add: partition_point_def length_takeWhile_le)

section \<open>The bits of bytes\<close>

text \<open>The bits of bytes, of every byte the lowest bit first.\<close>

definition bitmap_bits :: "byte list \<Rightarrow> bool list" where
  "bitmap_bits data = concat (map (\<lambda>b. map (bit b) [0, 1, 2, 3, 4, 5, 6, 7]) data)"

lemma length_bitmap_bits: "length (bitmap_bits data) = 8 * length data"
  by (induction data) (simp_all add: bitmap_bits_def)

lemma nth_bitmap_bits: "j < 8 * length data \<Longrightarrow> bitmap_bits data ! j = bit (data ! (j div 8)) (j mod 8)"
proof (induction data arbitrary: j)
  case (Cons b data)
  have split: "bitmap_bits (b # data) = map (bit b) [0, 1, 2, 3, 4, 5, 6, 7] @ bitmap_bits data"
    by (simp add: bitmap_bits_def)
  show ?case
  proof (cases "j < 8")
    case True
    have "[0, 1, 2, 3, 4, 5, 6, 7] = [0..<8 :: nat]" by (simp add: upt_conv_Cons)
    then have "map (bit b) [0, 1, 2, 3, 4, 5, 6, 7] ! j = map (bit b) [0..<8] ! j" by (simp only:)
    also have "\<dots> = bit b j" using True nth_upt [of 0 j 8] by (subst nth_map) (simp_all only: length_upt add_0 diff_zero)
    finally have "map (bit b) [0, 1, 2, 3, 4, 5, 6, 7] ! j = bit b j" .
    moreover have "bitmap_bits (b # data) ! j = map (bit b) [0, 1, 2, 3, 4, 5, 6, 7] ! j"
      unfolding split by (rule nth_append_left) (use True in simp)
    moreover have "(b # data) ! (j div 8) = b" "j mod 8 = j" using True by simp_all
    ultimately show ?thesis by (simp only:)
  next
    case False
    then have "bitmap_bits (b # data) ! j = bitmap_bits data ! (j - length (map (bit b) [0, 1, 2, 3, 4, 5, 6, 7]))"
      unfolding split by (intro nth_append_right) simp
    then have "bitmap_bits (b # data) ! j = bitmap_bits data ! (j - 8)"
      by (simp only: length_map list.size add_Suc_right add_0_right eval_nat_numeral BitM.simps)
    moreover have "bitmap_bits data ! (j - 8) = bit (data ! ((j - 8) div 8)) ((j - 8) mod 8)"
      using Cons.prems False by (intro Cons.IH) simp
    moreover have "j div 8 = Suc ((j - 8) div 8)" "j mod 8 = (j - 8) mod 8"
      using False by (simp_all add: le_div_geq le_mod_geq)
    ultimately show ?thesis by simp
  qed
qed simp

section \<open>Absence of panics\<close>

definition no_panic :: "'a result \<Rightarrow> bool" where
  "no_panic r \<longleftrightarrow> (\<forall>p. r \<noteq> Err (Panic p))"

lemma no_panic_Ok [simp]: "no_panic (Ok x)"
  by (simp add: no_panic_def)

lemma no_panic_Err [simp]: "no_panic (Err e) \<longleftrightarrow> (\<forall>p. e \<noteq> Panic p)"
  by (simp add: no_panic_def)

lemma no_panic_and_then: "no_panic m \<Longrightarrow> (\<And>x. m = Ok x \<Longrightarrow> no_panic (f x)) \<Longrightarrow> no_panic (and_then m f)"
  by (cases m) auto

lemma no_panic_ok_or: "(\<And>p. e \<noteq> Panic p) \<Longrightarrow> no_panic (ok_or e x)"
  by (cases x) auto

lemma no_panic_arith:
  "a + b < u64_limit \<Longrightarrow> no_panic (add_u64 a b)" "a * b < u64_limit \<Longrightarrow> no_panic (mul_u64 a b)"
  "b \<le> a \<Longrightarrow> no_panic (sub_u64 a b)"
  by (simp_all add: add_u64_def mul_u64_def sub_u64_def)

lemmas no_panic_intros = no_panic_and_then no_panic_ok_or no_panic_arith

end
