(* ===== verification/Capabilities.thy ===== *)
theory Capabilities
  imports Prelude
begin

text \<open>
  The capabilities a data source reports (\<open>source/capabilities.rs\<close>) and their combination over
  the parts of a composed source (\<open>combine_data_source_capabilities\<close> of \<open>source/util.rs\<close>).
\<close>

section \<open>Capabilities of a data source\<close>

datatype DataSourceReadConcurrency = UnknownConcurrency | Serialized | Concurrent

datatype DataSourceSeekCost = UnknownCost | Cheap | Expensive

record DataSourceCapabilities =
  read_concurrency :: DataSourceReadConcurrency
  seek_cost :: DataSourceSeekCost
  preferred_chunk_size :: "nat option"

definition capabilities_new ::
    "DataSourceReadConcurrency \<Rightarrow> DataSourceSeekCost \<Rightarrow> DataSourceCapabilities" where
  "capabilities_new c s =
     \<lparr>read_concurrency = c, seek_cost = s, preferred_chunk_size = None\<rparr>"

definition capabilities_serialized :: "DataSourceSeekCost \<Rightarrow> DataSourceCapabilities" where
  "capabilities_serialized s = capabilities_new Serialized s"

definition capabilities_concurrent :: "DataSourceSeekCost \<Rightarrow> DataSourceCapabilities" where
  "capabilities_concurrent s = capabilities_new Concurrent s"

definition with_preferred_chunk_size ::
    "DataSourceCapabilities \<Rightarrow> nat \<Rightarrow> DataSourceCapabilities" where
  "with_preferred_chunk_size c n = c\<lparr>preferred_chunk_size := Some n\<rparr>"

definition capabilities_default :: DataSourceCapabilities where
  "capabilities_default = capabilities_new UnknownConcurrency UnknownCost"

section \<open>Combination\<close>

fun combine_concurrency ::
    "DataSourceReadConcurrency \<Rightarrow> DataSourceReadConcurrency \<Rightarrow> DataSourceReadConcurrency" where
  "combine_concurrency Serialized _ = Serialized"
| "combine_concurrency _ Serialized = Serialized"
| "combine_concurrency UnknownConcurrency _ = UnknownConcurrency"
| "combine_concurrency _ UnknownConcurrency = UnknownConcurrency"
| "combine_concurrency Concurrent Concurrent = Concurrent"

fun combine_seek_cost :: "DataSourceSeekCost \<Rightarrow> DataSourceSeekCost \<Rightarrow> DataSourceSeekCost" where
  "combine_seek_cost Expensive _ = Expensive"
| "combine_seek_cost _ Expensive = Expensive"
| "combine_seek_cost UnknownCost _ = UnknownCost"
| "combine_seek_cost _ UnknownCost = UnknownCost"
| "combine_seek_cost Cheap Cheap = Cheap"

fun combine_chunk_size :: "nat option \<Rightarrow> nat option \<Rightarrow> nat option" where
  "combine_chunk_size (Some a) (Some b) = (if a = b then Some a else None)"
| "combine_chunk_size None b = b"
| "combine_chunk_size a None = a"

definition combine_step ::
    "DataSourceCapabilities \<Rightarrow> DataSourceCapabilities \<Rightarrow> DataSourceCapabilities" where
  "combine_step c n =
     \<lparr>read_concurrency = combine_concurrency (read_concurrency c) (read_concurrency n),
      seek_cost = combine_seek_cost (seek_cost c) (seek_cost n),
      preferred_chunk_size = combine_chunk_size (preferred_chunk_size c) (preferred_chunk_size n)\<rparr>"

fun combine_data_source_capabilities ::
    "DataSourceCapabilities list \<Rightarrow> DataSourceCapabilities" where
  "combine_data_source_capabilities [] = capabilities_default"
| "combine_data_source_capabilities (c # cs) = foldl combine_step c cs"

section \<open>The combination is the worst of the parts\<close>

text \<open>
  The two capabilities are ordered from the best to the worst; a combination keeps the worst of
  its parts.
\<close>

fun concurrency_rank :: "DataSourceReadConcurrency \<Rightarrow> nat" where
  "concurrency_rank Concurrent = 0"
| "concurrency_rank UnknownConcurrency = 1"
| "concurrency_rank Serialized = 2"

fun seek_cost_rank :: "DataSourceSeekCost \<Rightarrow> nat" where
  "seek_cost_rank Cheap = 0"
| "seek_cost_rank UnknownCost = 1"
| "seek_cost_rank Expensive = 2"

lemma concurrency_rank_inj: "concurrency_rank a = concurrency_rank b \<Longrightarrow> a = b"
  by (cases a; cases b) simp_all

lemma seek_cost_rank_inj: "seek_cost_rank a = seek_cost_rank b \<Longrightarrow> a = b"
  by (cases a; cases b) simp_all

instantiation DataSourceReadConcurrency :: linorder
begin

definition less_eq_DataSourceReadConcurrency ::
    "DataSourceReadConcurrency \<Rightarrow> DataSourceReadConcurrency \<Rightarrow> bool" where
  "less_eq_DataSourceReadConcurrency a b \<longleftrightarrow> concurrency_rank a \<le> concurrency_rank b"

definition less_DataSourceReadConcurrency ::
    "DataSourceReadConcurrency \<Rightarrow> DataSourceReadConcurrency \<Rightarrow> bool" where
  "less_DataSourceReadConcurrency a b \<longleftrightarrow> concurrency_rank a < concurrency_rank b"

instance
  by standard
    (auto simp: less_eq_DataSourceReadConcurrency_def less_DataSourceReadConcurrency_def
      intro: concurrency_rank_inj)

end

instantiation DataSourceSeekCost :: linorder
begin

definition less_eq_DataSourceSeekCost :: "DataSourceSeekCost \<Rightarrow> DataSourceSeekCost \<Rightarrow> bool" where
  "less_eq_DataSourceSeekCost a b \<longleftrightarrow> seek_cost_rank a \<le> seek_cost_rank b"

definition less_DataSourceSeekCost :: "DataSourceSeekCost \<Rightarrow> DataSourceSeekCost \<Rightarrow> bool" where
  "less_DataSourceSeekCost a b \<longleftrightarrow> seek_cost_rank a < seek_cost_rank b"

instance
  by standard
    (auto simp: less_eq_DataSourceSeekCost_def less_DataSourceSeekCost_def intro: seek_cost_rank_inj)

end

lemma combine_concurrency_max: "combine_concurrency a b = max a b"
  by (cases a; cases b) (simp_all add: max_def less_eq_DataSourceReadConcurrency_def)

lemma combine_seek_cost_max: "combine_seek_cost a b = max a b"
  by (cases a; cases b) (simp_all add: max_def less_eq_DataSourceSeekCost_def)

lemma foldl_combine_max:
  "read_concurrency (foldl combine_step c cs) = foldl max (read_concurrency c) (map read_concurrency cs)"
  "seek_cost (foldl combine_step c cs) = foldl max (seek_cost c) (map seek_cost cs)"
  by (induction cs arbitrary: c)
     (simp_all add: combine_step_def combine_concurrency_max combine_seek_cost_max)

lemma foldl_max_image: "foldl max (f c) (map f cs) = Max (f ` set (c # cs))" for f :: "'a \<Rightarrow> 'b :: linorder"
proof (induction cs rule: rev_induct)
  case (snoc c' cs)
  have "f ` set (c # cs @ [c']) = insert (f c') (f ` set (c # cs))" by auto
  with snoc show ?case by (simp add: max.commute)
qed simp

text \<open>A chunk size all the parts that have a preference agree on is kept.\<close>

lemma foldl_combine_chunk_size:
  assumes "\<forall>c' \<in> set cs. preferred_chunk_size c' = None \<or> preferred_chunk_size c' = Some n"
    and "preferred_chunk_size c = Some n"
  shows "preferred_chunk_size (foldl combine_step c cs) = Some n"
  using assms
proof (induction cs arbitrary: c)
  case (Cons c' cs)
  then have "preferred_chunk_size (combine_step c c') = Some n"
    by (auto simp: combine_step_def)
  with Cons show ?case by simp
qed simp

text \<open>
  The capabilities of a source composed of parts are, in both respects, those of its worst
  part: it supports concurrent reads only when all parts do, and its seeks are cheap only when
  they are cheap in all parts.
\<close>

theorem combine_is_worst:
  "read_concurrency (combine_data_source_capabilities (c # cs)) = Max (read_concurrency ` set (c # cs))
   \<and> seek_cost (combine_data_source_capabilities (c # cs)) = Max (seek_cost ` set (c # cs))"
  by (simp only: combine_data_source_capabilities.simps foldl_combine_max foldl_max_image)

end
