(* ===== verification/Gather.thy ===== *)
theory Gather
  imports Prelude
begin

text \<open>
  The read loop of the data sources.  The provided methods \<open>read_exact_at\<close> and \<open>read_all\<close>, the
  helpers \<open>read_from_segment\<close> and \<open>read_from_source\<close> and the \<open>read_at\<close> of the segmented and extent
  map sources all run the same loop: ask for the rest of the buffer, stop when nothing comes
  back, advance by what came back.  \<open>gather step stop len buf\<close> is that loop: \<open>step pos n\<close> is the
  loop body's read of at most \<open>n\<close> bytes at position \<open>pos\<close> of the buffer and \<open>stop\<close> is what the
  loop returns on an empty read; \<open>buf\<close> holds the bytes read so far.
\<close>

function gather :: "(nat \<Rightarrow> nat \<Rightarrow> byte list result) \<Rightarrow> (byte list \<Rightarrow> byte list result) \<Rightarrow> nat
    \<Rightarrow> byte list \<Rightarrow> byte list result" where
  "gather step stop len buf =
     (if length buf < len then
        and_then (step (length buf) (len - length buf)) (\<lambda>bytes.
          if length bytes = 0 then stop buf
          else gather step stop len (buf @ bytes))
      else Ok buf)"
  by pat_completeness auto
termination
  by (relation "measure (\<lambda>(step, stop, len, buf). len - length buf)")
     (auto intro!: diff_less_mono2)

declare gather.simps [simp del]

lemma gather_done: "len \<le> length buf \<Longrightarrow> gather step stop len buf = Ok buf"
  by (simp add: gather.simps [of step stop len buf])

lemma gather_more:
  "length buf < len \<Longrightarrow> step (length buf) (len - length buf) = Ok bytes \<Longrightarrow> bytes \<noteq> [] \<Longrightarrow>
     gather step stop len buf = gather step stop len (buf @ bytes)"
  by (simp add: gather.simps [of step stop len buf])

lemma gather_stop:
  "length buf < len \<Longrightarrow> step (length buf) (len - length buf) = Ok [] \<Longrightarrow>
     gather step stop len buf = stop buf"
  by (simp add: gather.simps [of step stop len buf])

lemma gather_fail:
  "length buf < len \<Longrightarrow> step (length buf) (len - length buf) = Err e \<Longrightarrow>
     gather step stop len buf = Err e"
  by (simp add: gather.simps [of step stop len buf])

text \<open>
  The loop's contract: the steps read a prefix of the contents from \<open>base\<close> on and make progress
  while there is something left.
\<close>

locale gather_reader =
  fixes step :: "nat \<Rightarrow> nat \<Rightarrow> byte list result"
    and content :: "byte list"
    and base :: nat
  assumes step_prefix: "step pos n = Ok bs \<Longrightarrow> length bs \<le> n \<and> bs = subslice (base + pos) (length bs) content"
    and step_progress: "step pos n = Ok bs \<Longrightarrow> 0 < n \<Longrightarrow> base + pos < length content \<Longrightarrow> bs \<noteq> []"
begin

lemma gather_append:
  assumes "step (length buf) (len - length buf) = Ok bytes" "buf = subslice base (length buf) content"
    and "length buf < len"
  shows "buf @ bytes = subslice base (length (buf @ bytes)) content" "length (buf @ bytes) \<le> len"
proof -
  from assms(1) have bytes: "bytes = subslice (base + length buf) (length bytes) content"
    and le: "length bytes \<le> len - length buf"
    using step_prefix by blast+
  show "buf @ bytes = subslice base (length (buf @ bytes)) content"
    using assms(2) bytes slice_append [of base "length buf" content "length bytes"]
    by (metis length_append)
  show "length (buf @ bytes) \<le> len" using le assms(3) by simp
qed

lemma gather_at_end:
  assumes "step (length buf) (len - length buf) = Ok []" "buf = subslice base (length buf) content"
    and "length buf < len"
  shows "buf = subslice base len content"
proof -
  from assms(1,3) have "length content \<le> base + length buf"
    using step_progress by (metis not_le zero_less_diff)
  then show ?thesis
    using assms(2,3) by (simp add: subslice_def)
qed

text \<open>Whatever the loop returns, it has read all there is, up to the length of the buffer.\<close>

lemma gather_sound:
  assumes "gather step stop len buf = Ok bs" "buf = subslice base (length buf) content" "length buf \<le> len"
  shows "(bs = subslice base len content \<and> length bs = len)
       \<or> (stop (subslice base len content) = Ok bs \<and> length (subslice base len content) < len)"
  using assms
proof (induction "len - length buf" arbitrary: buf rule: less_induct)
  case less
  show ?case
  proof (cases "length buf < len")
    case False
    with less.prems show ?thesis by (simp add: gather_done)
  next
    case True
    show ?thesis
    proof (cases "step (length buf) (len - length buf)")
      case (Inl e)
      with True less.prems(1) show ?thesis by (simp add: gather_fail)
    next
      case (Inr bytes)
      show ?thesis
      proof (cases "bytes = []")
        case False
        with True have "len - length (buf @ bytes) < len - length buf"
          by (auto intro!: diff_less_mono2)
        then show ?thesis
          using less.hyps [of "buf @ bytes"] gather_append [OF Inr less.prems(2) True]
            less.prems(1) gather_more [of buf len step bytes stop, OF True Inr False]
          by simp
      next
        case True': True
        then have "buf = subslice base len content"
          using gather_at_end Inr less.prems(2) True by blast
        with True less.prems(1) Inr True' show ?thesis by (metis gather_stop)
      qed
    qed
  qed
qed

end

text \<open>When the steps cannot fail, neither can the loop, and its result is known.\<close>

locale total_gather = gather_reader +
  assumes step_total: "pos = 0 \<or> base + pos \<le> length content \<Longrightarrow> \<exists>bs. step pos n = Ok bs"
begin

lemma step_total_prefix:
  assumes "buf = subslice base (length buf) content"
  shows "\<exists>bs. step (length buf) n = Ok bs"
proof (rule step_total)
  from assms have "length buf = min (length buf) (length content - base)"
    by (metis length_slice)
  then show "length buf = 0 \<or> base + length buf \<le> length content"
    by linarith
qed

lemma gather_total:
  assumes "buf = subslice base (length buf) content" "length buf \<le> len"
  shows "gather step stop len buf =
    (if length (subslice base len content) = len then Ok (subslice base len content)
     else stop (subslice base len content))"
  using assms
proof (induction "len - length buf" arbitrary: buf rule: less_induct)
  case less
  show ?case
  proof (cases "length buf < len")
    case False
    with less.prems have "subslice base len content = buf" "length buf = len" by simp_all
    then show ?thesis by (simp add: gather_done)
  next
    case True
    obtain bytes where rd: "step (length buf) (len - length buf) = Ok bytes"
      using step_total_prefix less.prems(1) by blast
    show ?thesis
    proof (cases "bytes = []")
      case False
      with True have "len - length (buf @ bytes) < len - length buf"
        by (auto intro!: diff_less_mono2)
      then show ?thesis
        using less.hyps [of "buf @ bytes"] gather_append [OF rd less.prems(1) True]
          gather_more [of buf len step bytes stop, OF True rd False]
        by simp
    next
      case True': True
      then have "buf = subslice base len content"
        using gather_at_end rd less.prems(1) True by blast
      moreover have "gather step stop len buf = stop buf"
        using True rd True' by (simp add: gather_stop)
      ultimately show ?thesis using True by simp
    qed
  qed
qed

lemma gather_from_start:
  "gather step stop len [] =
    (if length (subslice base len content) = len then Ok (subslice base len content)
     else stop (subslice base len content))"
  using gather_total [of "[]" len stop] by simp

end

end
