(* ===== verification/Data_Source.thy ===== *)
theory Data_Source
  imports Capabilities Gather
begin

text \<open>
  The \<open>DataSource\<close> trait of \<open>source/data_source.rs\<close>: an immutable byte source with positioned
  reads.  A trait object is a record of its methods.  \<open>read_at offset buf\<close> returns a count and
  fills that many bytes of \<open>buf\<close>; the model's \<open>ds_read_at ds offset n\<close> takes the length of the
  buffer and returns the bytes written to its front, so the count is their number.

  The contract callers rely on is the locale \<open>byte_source\<close>: a source has some contents, a read
  returns a prefix of what the contents hold at the offset, and a read inside the contents makes
  progress.  Short reads and errors are allowed.  \<open>total_source\<close> adds that reads do not fail, and
  \<open>exact_source\<close> that they are never short.
\<close>

section \<open>The trait\<close>

record data_source =
  ds_read_at :: "nat \<Rightarrow> nat \<Rightarrow> byte list result"
  ds_size :: "nat result"
  ds_capabilities :: DataSourceCapabilities
  ds_telemetry_name :: string
  ds_origin_path :: "string option"

section \<open>Provided methods\<close>

text \<open>
  One iteration of a positioned read: the offset is recomputed with an overflow check, whose
  message differs between the callers.
\<close>

definition positioned_step :: "error \<Rightarrow> data_source \<Rightarrow> nat \<Rightarrow> nat \<Rightarrow> nat \<Rightarrow> byte list result" where
  "positioned_step overflow ds offset read_offset n =
     and_then (ok_or overflow (checked_add offset read_offset))
       (\<lambda>current_offset. ds_read_at ds current_offset n)"

text \<open>\<open>read_exact_at\<close>: an empty read is an error.\<close>

definition read_exact_at :: "data_source \<Rightarrow> nat \<Rightarrow> nat \<Rightarrow> byte list result" where
  "read_exact_at ds offset len =
     gather (positioned_step (Source_error Data_source_offset_overflow) ds offset)
       (\<lambda>_. Err (Source_error Unable_to_read_exact_amount)) len []"

text \<open>\<open>read_all\<close>: the loop stops at the first empty read and keeps what it has.\<close>

definition read_all :: "data_source \<Rightarrow> byte list result" where
  "read_all ds =
     and_then (ds_size ds) (\<lambda>size.
     and_then (ok_or (Source_error Data_source_too_large) (usize_try_from size)) (\<lambda>capacity.
       gather (ds_read_at ds) Ok capacity []))"

section \<open>The contract of a data source\<close>

locale byte_source =
  fixes ds :: data_source
    and content :: "byte list"
  assumes size_content: "ds_size ds = Ok (length content)"
    and content_u64: "length content < u64_limit"
    and read_prefix: "ds_read_at ds off n = Ok bs
      \<Longrightarrow> length bs \<le> n \<and> bs = subslice off (length bs) content"
    and read_progress: "ds_read_at ds off n = Ok bs \<Longrightarrow> 0 < n \<Longrightarrow> off < length content \<Longrightarrow> bs \<noteq> []"
begin

lemma read_length: "ds_read_at ds off n = Ok bs \<Longrightarrow> length bs \<le> n"
  using read_prefix by blast

lemma read_slice: "ds_read_at ds off n = Ok bs \<Longrightarrow> bs = subslice off (length bs) content"
  using read_prefix by blast

lemma read_beyond: "ds_read_at ds off n = Ok bs \<Longrightarrow> length content \<le> off \<Longrightarrow> bs = []"
  using read_slice by (metis slice_beyond)

lemma read_inside:
  assumes "ds_read_at ds off n = Ok bs" "bs \<noteq> []"
  shows "off + length bs \<le> length content"
proof -
  from assms(1) have "length bs = length (subslice off (length bs) content)"
    using read_slice by simp
  then have "length bs = min (length bs) (length content - off)"
    by (simp only: length_slice)
  with assms(2) show ?thesis by (cases bs) (auto simp: min_def split: if_splits)
qed

end

sublocale byte_source \<subseteq> whole: gather_reader "ds_read_at ds" content 0
  by unfold_locales (use read_prefix read_progress in simp_all)

sublocale byte_source \<subseteq> positioned: gather_reader "positioned_step overflow ds offset" content offset
  for overflow offset
proof unfold_locales
  fix pos n bs
  assume "positioned_step overflow ds offset pos n = Ok bs"
  then have rd: "ds_read_at ds (offset + pos) n = Ok bs"
    by (auto simp: positioned_step_def result_simps)
  show "length bs \<le> n \<and> bs = subslice (offset + pos) (length bs) content"
    using read_prefix [OF rd] .
  show "bs \<noteq> []" if "0 < n" "offset + pos < length content"
    using read_progress [OF rd that] .
qed

context byte_source
begin

text \<open>What \<open>read_exact_at\<close> returns is the wanted part of the contents, in full.\<close>

lemma read_exact_at_sound:
  assumes "read_exact_at ds off len = Ok bs"
  shows "bs = subslice off len content \<and> length bs = len"
  using positioned.gather_sound [of "Source_error Data_source_offset_overflow" off
      "\<lambda>_. Err (Source_error Unable_to_read_exact_amount)" len "[]" bs] assms
  by (auto simp: read_exact_at_def)

lemma read_exact_at_inside:
  assumes "read_exact_at ds off len = Ok bs" "0 < len"
  shows "off + len \<le> length content"
  using read_exact_at_sound [OF assms(1)] assms(2)
  by (auto simp: length_slice)

lemma read_all_sound:
  assumes "read_all ds = Ok bs"
  shows "bs = content"
proof -
  from assms have "gather (ds_read_at ds) Ok (length content) [] = Ok bs"
    by (auto simp: read_all_def size_content usize_try_from_id content_u64)
  then show ?thesis
    using whole.gather_sound [of Ok "length content" "[]" bs] by (auto simp: slice_all)
qed

end

text \<open>
  A loop that keeps what it has on an empty read returns all of a range inside the contents.
\<close>

context byte_source
begin

lemma fill_sound:
  assumes "gather (positioned_step overflow ds off) Ok len [] = Ok bs"
  shows "bs = subslice off len content"
  using positioned.gather_sound [of overflow off Ok len "[]" bs] assms by auto

end

section \<open>Sources that do not fail\<close>

locale total_source = byte_source +
  assumes read_total: "\<exists>bs. ds_read_at ds off n = Ok bs"

sublocale total_source \<subseteq> whole: total_gather "ds_read_at ds" content 0
  by unfold_locales (rule read_total)

context total_source
begin

lemma positioned_total:
  assumes "off < u64_limit"
  shows "total_gather (positioned_step overflow ds off) content off"
proof unfold_locales
  fix pos n
  assume "pos = 0 \<or> off + pos \<le> length content"
  then have "off + pos < u64_limit" using assms content_u64 by linarith
  then show "\<exists>bs. positioned_step overflow ds off pos n = Ok bs"
    using read_total by (simp add: positioned_step_def checked_add_def)
qed

text \<open>\<open>read_exact_at\<close> succeeds exactly on the ranges inside the contents.\<close>

lemma read_exact_at_total:
  assumes "off < u64_limit"
  shows "read_exact_at ds off len =
    (if off + len \<le> length content \<or> len = 0 then Ok (subslice off len content)
     else Err (Source_error Unable_to_read_exact_amount))"
proof -
  have "length (subslice off len content) = len \<longleftrightarrow> off + len \<le> length content \<or> len = 0"
    by (auto simp: length_slice)
  then show ?thesis
    using total_gather.gather_from_start [OF positioned_total [OF assms]]
    by (simp add: read_exact_at_def)
qed

lemma fill_total:
  "off < u64_limit \<Longrightarrow>
     gather (positioned_step overflow ds off) Ok len [] = Ok (subslice off len content)"
  using total_gather.gather_from_start [OF positioned_total] by simp

lemma read_all_total: "read_all ds = Ok content"
  using whole.gather_from_start [of Ok "length content"]
  by (simp add: read_all_def size_content usize_try_from_id content_u64 slice_all)

end

section \<open>Sources without short reads\<close>

locale exact_source =
  fixes ds :: data_source
    and content :: "byte list"
  assumes exact_size: "ds_size ds = Ok (length content)"
    and exact_u64: "length content < u64_limit"
    and exact_read: "ds_read_at ds off n = Ok (subslice off n content)"

sublocale exact_source \<subseteq> total_source
proof unfold_locales
  show "ds_size ds = Ok (length content)" by (rule exact_size)
  show "length content < u64_limit" by (rule exact_u64)
next
  fix off n bs
  assume "ds_read_at ds off n = Ok bs"
  then have bs: "bs = subslice off n content" by (simp add: exact_read)
  then show "length bs \<le> n \<and> bs = subslice off (length bs) content"
    by (simp add: length_slice slice_min)
  show "bs \<noteq> []" if "0 < n" "off < length content"
    using that bs by (simp add: slice_eq_Nil_iff)
qed (simp add: exact_read)

context exact_source
begin

lemma is_total_source: "total_source ds content"
  by unfold_locales

end

end
