(* ===== verification/Memory_Source.thy ===== *)
theory Memory_Source
  imports Data_Source
begin

text \<open>
  The in-memory data source (\<open>source/memory.rs\<close>) and the contiguous view on a parent source
  (\<open>source/slice.rs\<close>).
\<close>

section \<open>MemoryDataSource\<close>

record MemoryDataSource =
  mem_data :: "byte list"

definition memory_new :: "byte list \<Rightarrow> MemoryDataSource" where
  "memory_new data = \<lparr>mem_data = data\<rparr>"

definition memory_read_at :: "MemoryDataSource \<Rightarrow> nat \<Rightarrow> nat \<Rightarrow> byte list result" where
  "memory_read_at m offset n =
     (case usize_try_from offset of
        None \<Rightarrow> Ok []
      | Some offset \<Rightarrow>
          if length (mem_data m) \<le> offset \<or> n = 0 then Ok []
          else let read_count = min n (length (mem_data m) - offset)
               in Ok (subslice offset read_count (mem_data m)))"

definition memory_source :: "MemoryDataSource \<Rightarrow> data_source" where
  "memory_source m =
     \<lparr>ds_read_at = memory_read_at m,
      ds_size = Ok (length (mem_data m)),
      ds_capabilities = capabilities_concurrent Cheap,
      ds_telemetry_name = ''keramics_drivers::source::memory::MemoryDataSource'',
      ds_origin_path = None\<rparr>"

text \<open>A byte vector of the program fits the address space: its length is a \<open>usize\<close>.\<close>

locale memory_data =
  fixes data :: "byte list"
  assumes memory_size: "length data < u64_limit"

sublocale memory_data \<subseteq> mem: exact_source "memory_source (memory_new data)" data
proof unfold_locales
  show "ds_size (memory_source (memory_new data)) = Ok (length data)"
    by (simp add: memory_source_def memory_new_def)
  show "length data < u64_limit" by (rule memory_size)
next
  fix off n
  show "ds_read_at (memory_source (memory_new data)) off n = Ok (subslice off n data)"
    using memory_size
    by (auto simp: memory_source_def memory_new_def memory_read_at_def usize_try_from_def
        slice_min Let_def)
qed

context memory_data
begin

lemma memory_exact_source: "exact_source (memory_source (memory_new data)) data"
  by unfold_locales

end

section \<open>SliceDataSource\<close>

record SliceDataSource =
  slice_inner :: data_source
  slice_base_offset :: nat
  slice_size :: nat

definition slice_new :: "data_source \<Rightarrow> nat \<Rightarrow> nat \<Rightarrow> SliceDataSource" where
  "slice_new inner base_offset view_size =
     \<lparr>slice_inner = inner, slice_base_offset = base_offset, slice_size = view_size\<rparr>"

definition slice_read_at :: "SliceDataSource \<Rightarrow> nat \<Rightarrow> nat \<Rightarrow> byte list result" where
  "slice_read_at s offset n =
     (if slice_size s \<le> offset \<or> n = 0 then Ok []
      else
        let available = min n (case usize_try_from (slice_size s - offset) of
                                 Some m \<Rightarrow> m | None \<Rightarrow> u64_limit - 1)
        in and_then (ok_or (Source_error Slice_offset_overflow)
                       (checked_add (slice_base_offset s) offset))
             (\<lambda>absolute_offset. ds_read_at (slice_inner s) absolute_offset available))"

definition slice_source :: "SliceDataSource \<Rightarrow> data_source" where
  "slice_source s =
     \<lparr>ds_read_at = slice_read_at s,
      ds_size = Ok (slice_size s),
      ds_capabilities = ds_capabilities (slice_inner s),
      ds_telemetry_name = ds_telemetry_name (slice_inner s),
      ds_origin_path = ds_origin_path (slice_inner s)\<rparr>"

lemma slice_read_at_inside:
  assumes "offset < slice_size s" "0 < n" "slice_base_offset s + slice_size s < u64_limit"
  shows "slice_read_at s offset n =
    ds_read_at (slice_inner s) (slice_base_offset s + offset) (min n (slice_size s - offset))"
  using assms
  by (simp add: slice_read_at_def usize_try_from_def checked_add_def Let_def)

text \<open>A slice inside its parent has the parent's bytes, as well-behaved as the parent.\<close>

locale slice_view = byte_source +
  fixes base_offset view_size :: nat
  assumes slice_inside: "base_offset + view_size \<le> length content"
begin

lemma view_u64: "base_offset + view_size < u64_limit"
  using slice_inside content_u64 by linarith

lemma view_read:
  assumes "slice_read_at (slice_new ds base_offset view_size) off n = Ok bs" "off < view_size" "0 < n"
  shows "ds_read_at ds (base_offset + off) (min n (view_size - off)) = Ok bs"
  using assms view_u64 by (simp add: slice_read_at_inside slice_new_def)

lemma view_outside:
  "view_size \<le> off \<or> n = 0 \<Longrightarrow> slice_read_at (slice_new ds base_offset view_size) off n = Ok []"
  by (auto simp: slice_read_at_def slice_new_def)

lemma view_slice:
  "off + k \<le> view_size \<Longrightarrow>
     subslice off k (subslice base_offset view_size content) = subslice (base_offset + off) k content"
  by (simp add: slice_slice)

end

sublocale slice_view \<subseteq> view: byte_source "slice_source (slice_new ds base_offset view_size)"
  "subslice base_offset view_size content"
proof unfold_locales
  show "ds_size (slice_source (slice_new ds base_offset view_size))
      = Ok (length (subslice base_offset view_size content))"
    using slice_inside by (simp add: slice_source_def slice_new_def length_slice)
  show "length (subslice base_offset view_size content) < u64_limit"
    using view_u64 by (simp add: length_slice)
next
  fix off n bs
  assume "ds_read_at (slice_source (slice_new ds base_offset view_size)) off n = Ok bs"
  then have rd: "slice_read_at (slice_new ds base_offset view_size) off n = Ok bs"
    by (simp add: slice_source_def)
  show "length bs \<le> n \<and> bs = subslice off (length bs) (subslice base_offset view_size content)"
  proof (cases "off < view_size \<and> 0 < n")
    case True
    with rd have rd': "ds_read_at ds (base_offset + off) (min n (view_size - off)) = Ok bs"
      using view_read by blast
    have len: "length bs \<le> min n (view_size - off)" using read_length [OF rd'] .
    with True have "off + length bs \<le> view_size" by linarith
    then show ?thesis
      using len read_slice [OF rd'] by (simp add: view_slice)
  next
    case False
    with rd have "bs = []" using view_outside [of off n] by auto
    then show ?thesis by simp
  qed
  show "bs \<noteq> []" if "0 < n" "off < length (subslice base_offset view_size content)"
  proof -
    have "off < view_size" using that(2) by (simp add: length_slice)
    then show ?thesis
      using read_progress [OF view_read [OF rd _ that(1)]] that(1) slice_inside by simp
  qed
qed

context slice_view
begin

lemma view_byte_source:
  "byte_source (slice_source (slice_new ds base_offset view_size)) (subslice base_offset view_size content)"
  by unfold_locales

end

locale total_slice_view = slice_view + total_source

sublocale total_slice_view \<subseteq> view: total_source "slice_source (slice_new ds base_offset view_size)"
  "subslice base_offset view_size content"
proof unfold_locales
  fix off n
  show "\<exists>bs. ds_read_at (slice_source (slice_new ds base_offset view_size)) off n = Ok bs"
  proof (cases "off < view_size \<and> 0 < n")
    case True
    then show ?thesis
      using read_total view_u64 by (simp add: slice_source_def slice_new_def slice_read_at_inside)
  next
    case False
    then show ?thesis
      using view_outside [of off n] by (auto simp: slice_source_def)
  qed
qed

context total_slice_view
begin

lemma view_total_source:
  "total_source (slice_source (slice_new ds base_offset view_size)) (subslice base_offset view_size content)"
  by unfold_locales

end

text \<open>
  The interface is met by the model's own sources: any byte vector the program can hold, and any
  view inside it.
\<close>

interpretation boot_sector: memory_data "replicate 510 0 @ [0x55, 0xaa]"
  by unfold_locales (simp add: u64_limit_def)

interpretation boot_signature: total_slice_view
  "memory_source (memory_new (replicate 510 0 @ [0x55, 0xaa]))" "replicate 510 0 @ [0x55, 0xaa]" 510 2
  by unfold_locales simp

lemma memory_exact: "length data < u64_limit \<Longrightarrow> exact_source (memory_source (memory_new data)) data"
  using memory_data.intro [of data] memory_data.memory_exact_source by blast

lemma memory_total: "length data < u64_limit \<Longrightarrow> total_source (memory_source (memory_new data)) data"
  using memory_exact exact_source.is_total_source by blast

lemma memory_byte: "length data < u64_limit \<Longrightarrow> byte_source (memory_source (memory_new data)) data"
  using memory_total total_source.axioms(1) by blast

lemmas memory_sources = memory_exact memory_total memory_byte

lemma memory_read_exact:
  "length data < u64_limit \<Longrightarrow> off + n \<le> length data \<Longrightarrow>
     read_exact_at (memory_source (memory_new data)) off n = Ok (subslice off n data)"
  using total_source.read_exact_at_total [OF memory_total [of data], of off n] by simp

lemma memory_size: "ds_size (memory_source (memory_new data)) = Ok (length data)"
  by (simp add: memory_source_def memory_new_def)

section \<open>Properties\<close>

text \<open>
  (C2) On a source whose reads do not fail, however short they are, \<open>read_exact_at\<close> returns the
  wanted bytes exactly when the range lies inside the contents, and otherwise reports that it
  cannot read the exact amount; in particular it ends.
\<close>

theorem read_exact_at_correct:
  assumes "total_source ds content" "off < u64_limit"
  shows "read_exact_at ds off len =
    (if off + len \<le> length content \<or> len = 0 then Ok (subslice off len content)
     else Err (Source_error Unable_to_read_exact_amount))"
  using total_source.read_exact_at_total [OF assms] .

theorem read_exact_at_correct_witness:
  "read_exact_at (memory_source (memory_new [1, 2, 3])) 1 2 = Ok [2, 3]
   \<and> read_exact_at (memory_source (memory_new [1, 2, 3])) 2 2 = Err (Source_error Unable_to_read_exact_amount)"
  using read_exact_at_correct [OF memory_total [of "[1, 2, 3]"], of 1 2]
    read_exact_at_correct [OF memory_total [of "[1, 2, 3]"], of 2 2]
  by (simp add: u64_limit_def subslice_def)

text \<open>
  Over a source that may fail and may read short, a successful \<open>read_exact_at\<close> has returned
  the wanted bytes in full and a successful \<open>read_all\<close> the whole contents; over a source that
  does not fail, \<open>read_all\<close> succeeds.
\<close>

theorem reads_are_complete:
  assumes "byte_source ds content"
  shows "(read_exact_at ds off len = Ok bs \<longrightarrow> bs = subslice off len content \<and> length bs = len)
    \<and> (read_all ds = Ok bs \<longrightarrow> bs = content)
    \<and> (total_source ds content \<longrightarrow> read_all ds = Ok content)"
  using byte_source.read_exact_at_sound [OF assms] byte_source.read_all_sound [OF assms]
    total_source.read_all_total by blast

theorem reads_are_complete_witness:
  "read_all (memory_source (memory_new [1, 2, 3])) = Ok [1, 2, 3]"
  using reads_are_complete [OF memory_byte [of "[1, 2, 3]"]] memory_total [of "[1, 2, 3]"]
  by (simp add: u64_limit_def)

text \<open>
  A slice inside its parent is a source of its own with the parent's bytes from the base
  offset on, and as reliable as the parent.
\<close>

theorem slice_is_view:
  assumes "byte_source ds content" "base_offset + view_size \<le> length content"
  shows "byte_source (slice_source (slice_new ds base_offset view_size)) (subslice base_offset view_size content)
    \<and> (total_source ds content \<longrightarrow>
        total_source (slice_source (slice_new ds base_offset view_size)) (subslice base_offset view_size content))"
proof -
  have view: "slice_view ds content base_offset view_size"
    using assms by (simp add: slice_view_def slice_view_axioms_def)
  then have "total_slice_view ds content base_offset view_size" if "total_source ds content"
    using that by (simp add: total_slice_view_def)
  then show ?thesis
    using slice_view.view_byte_source [OF view] total_slice_view.view_total_source by blast
qed

theorem slice_is_view_witness:
  "byte_source (slice_source (slice_new (memory_source (memory_new [1, 2, 3, 4])) 1 2)) [2, 3]"
  using slice_is_view [OF memory_byte [of "[1, 2, 3, 4]"], of 1 2] by (simp add: u64_limit_def subslice_def)

end
