(* ===== verification/Cursor.thy ===== *)
theory Cursor
  imports Memory_Source
begin

text \<open>
  The sequential adapter over a shared source (\<open>source/cursor.rs\<close>).  An operation returns its
  result and the cursor after it; a failing operation leaves the position as it was.
\<close>

section \<open>DataSourceCursor\<close>

record DataSourceCursor =
  cur_source :: data_source
  cur_position :: nat

datatype SeekFrom = SeekStart nat | SeekCurrent int | SeekEnd int

definition cursor_new :: "data_source \<Rightarrow> DataSourceCursor" where
  "cursor_new source = \<lparr>cur_source = source, cur_position = 0\<rparr>"

definition cursor_with_position :: "data_source \<Rightarrow> nat \<Rightarrow> DataSourceCursor" where
  "cursor_with_position source position = \<lparr>cur_source = source, cur_position = position\<rparr>"

definition cursor_fork :: "DataSourceCursor \<Rightarrow> DataSourceCursor" where
  "cursor_fork c = \<lparr>cur_source = cur_source c, cur_position = cur_position c\<rparr>"

definition cursor_fork_at :: "DataSourceCursor \<Rightarrow> nat \<Rightarrow> DataSourceCursor" where
  "cursor_fork_at c position = \<lparr>cur_source = cur_source c, cur_position = position\<rparr>"

text \<open>Advancing the position by what was read.\<close>

definition cursor_advance :: "DataSourceCursor \<Rightarrow> byte list \<Rightarrow> byte list result \<times> DataSourceCursor" where
  "cursor_advance c bytes =
     (case checked_add (cur_position c) (length bytes) of
        None \<Rightarrow> (Err (Source_error Cursor_position_overflow), c)
      | Some position \<Rightarrow> (Ok bytes, c\<lparr>cur_position := position\<rparr>))"

definition cursor_read :: "DataSourceCursor \<Rightarrow> nat \<Rightarrow> byte list result \<times> DataSourceCursor" where
  "cursor_read c n =
     (case ds_read_at (cur_source c) (cur_position c) n of
        Inl e \<Rightarrow> (Err e, c)
      | Inr bytes \<Rightarrow> cursor_advance c bytes)"

definition cursor_read_exact :: "DataSourceCursor \<Rightarrow> nat \<Rightarrow> byte list result \<times> DataSourceCursor" where
  "cursor_read_exact c n =
     (case read_exact_at (cur_source c) (cur_position c) n of
        Inl e \<Rightarrow> (Err e, c)
      | Inr bytes \<Rightarrow> cursor_advance c bytes)"

text \<open>The new position is computed in \<open>i128\<close>, where it cannot overflow.\<close>

definition seek_target :: "DataSourceCursor \<Rightarrow> nat \<Rightarrow> SeekFrom \<Rightarrow> int" where
  "seek_target c size_of_source position =
     (case position of
        SeekStart offset \<Rightarrow> int offset
      | SeekCurrent offset \<Rightarrow> int (cur_position c) + offset
      | SeekEnd offset \<Rightarrow> int size_of_source + offset)"

definition cursor_seek :: "DataSourceCursor \<Rightarrow> SeekFrom \<Rightarrow> nat result \<times> DataSourceCursor" where
  "cursor_seek c position =
     (case ds_size (cur_source c) of
        Inl e \<Rightarrow> (Err e, c)
      | Inr size_of_source \<Rightarrow>
          let new_position = seek_target c size_of_source position in
          if new_position < 0 \<or> int (u64_limit - 1) < new_position
          then (Err (Source_error Cursor_invalid_seek_position), c)
          else (Ok (nat new_position), c\<lparr>cur_position := nat new_position\<rparr>))"

section \<open>Runs of cursor operations\<close>

text \<open>A sequence of reads, given by the buffer sizes, and what each of them returned.\<close>

fun cursor_reads :: "DataSourceCursor \<Rightarrow> nat list \<Rightarrow> byte list list result \<times> DataSourceCursor" where
  "cursor_reads c [] = (Ok [], c)"
| "cursor_reads c (n # ns) =
     (case cursor_read c n of
        (Inl e, c') \<Rightarrow> (Err e, c')
      | (Inr bytes, c') \<Rightarrow>
          (case cursor_reads c' ns of
             (Inl e, c'') \<Rightarrow> (Err e, c'')
           | (Inr chunks, c'') \<Rightarrow> (Ok (bytes # chunks), c'')))"

lemma cursor_advance_Ok:
  "cursor_advance c bytes = (Ok bs, c') \<longleftrightarrow>
     bs = bytes \<and> cur_position c + length bytes < u64_limit
     \<and> c' = c\<lparr>cur_position := cur_position c + length bytes\<rparr>"
  by (auto simp: cursor_advance_def checked_add_def)

lemma cursor_read_Ok:
  "cursor_read c n = (Ok bs, c') \<longleftrightarrow>
     ds_read_at (cur_source c) (cur_position c) n = Ok bs
     \<and> cur_position c + length bs < u64_limit
     \<and> c' = c\<lparr>cur_position := cur_position c + length bs\<rparr>"
  by (auto simp: cursor_read_def cursor_advance_Ok split: sum.splits)

lemma cursor_read_exact_Ok:
  "cursor_read_exact c n = (Ok bs, c') \<longleftrightarrow>
     read_exact_at (cur_source c) (cur_position c) n = Ok bs
     \<and> cur_position c + length bs < u64_limit
     \<and> c' = c\<lparr>cur_position := cur_position c + length bs\<rparr>"
  by (auto simp: cursor_read_exact_def cursor_advance_Ok split: sum.splits)

lemma cursor_read_Err: "cursor_read c n = (Err e, c') \<Longrightarrow> c' = c"
  by (auto simp: cursor_read_def cursor_advance_def split: sum.splits option.splits)

context byte_source
begin

text \<open>Consecutive reads return consecutive bytes, whatever the sizes and however short the reads.\<close>

lemma cursor_reads_consecutive:
  assumes "cursor_reads c ns = (Ok chunks, c')" "cur_source c = ds"
  shows "concat chunks = subslice (cur_position c) (length (concat chunks)) content
    \<and> cur_source c' = ds \<and> cur_position c' = cur_position c + length (concat chunks)"
  using assms
proof (induction ns arbitrary: c chunks)
  case Nil
  then show ?case by auto
next
  case (Cons n ns)
  from Cons.prems(1) obtain bytes c1 rest where
    rd: "cursor_read c n = (Ok bytes, c1)" and rest: "cursor_reads c1 ns = (Ok rest, c')"
    and chunks: "chunks = bytes # rest"
    by (auto split: prod.splits sum.splits)
  from rd Cons.prems(2) have rd': "ds_read_at ds (cur_position c) n = Ok bytes"
    and c1: "c1 = c\<lparr>cur_position := cur_position c + length bytes\<rparr>"
    by (simp_all add: cursor_read_Ok)
  note bytes = read_slice [OF rd']
  have IH: "concat rest = subslice (cur_position c + length bytes) (length (concat rest)) content"
    "cur_source c' = ds" "cur_position c' = cur_position c + length bytes + length (concat rest)"
    using Cons.IH [OF rest] c1 Cons.prems(2) by auto
  have "bytes @ concat rest = subslice (cur_position c) (length bytes + length (concat rest)) content"
    using IH(1) bytes slice_append [of "cur_position c" "length bytes" content "length (concat rest)"]
    by metis
  then show ?case
    unfolding chunks concat.simps(2) length_append IH(3) using IH(2) by (metis add.assoc)
qed

end

section \<open>Properties\<close>

text \<open>
  Consecutive reads through a cursor return consecutive bytes of the source, whatever the
  buffer sizes and however short the reads are, and leave the cursor behind the last byte read.
\<close>

theorem cursor_reads_are_sequential:
  assumes "byte_source (cur_source c) content" "cursor_reads c ns = (Ok chunks, c')"
  shows "concat chunks = subslice (cur_position c) (length (concat chunks)) content
    \<and> cur_source c' = cur_source c \<and> cur_position c' = cur_position c + length (concat chunks)"
  using byte_source.cursor_reads_consecutive [OF assms refl] .

theorem cursor_reads_are_sequential_witness:
  "fst (cursor_reads (cursor_new (memory_source (memory_new [1, 2, 3]))) [2, 2]) = Ok [[1, 2], [3]]
   \<and> concat [[1, 2], [3]] = subslice 0 3 [1, 2, 3 :: byte]"
proof -
  let ?c = "cursor_new (memory_source (memory_new [1, 2, 3]))"
  have src: "byte_source (cur_source ?c) [1, 2, 3]"
    using memory_byte [of "[1, 2, 3]"] by (simp add: cursor_new_def u64_limit_def)
  have rd: "ds_read_at (memory_source (memory_new [1, 2, 3])) off n = Ok (subslice off n [1, 2, 3])" for off n
    using exact_source.exact_read [OF memory_exact [of "[1, 2, 3]"]] by (simp add: u64_limit_def)
  have run: "cursor_reads ?c [2, 2] = (Ok [[1, 2], [3]], ?c\<lparr>cur_position := 3\<rparr>)"
    by (simp add: cursor_read_def cursor_advance_def cursor_new_def rd subslice_def checked_add_def u64_limit_def)
  have "concat [[1, 2], [3]] = subslice 0 3 [1, 2, 3 :: byte]"
    using cursor_reads_are_sequential [OF src run] by (simp add: cursor_new_def numeral_3_eq_3)
  with run show ?thesis by (simp only: fst_conv)
qed

text \<open>
  A seek moves the cursor to the start plus the offset, the old position plus the offset or the
  end plus the offset, and succeeds exactly when that position is a \<open>u64\<close>; otherwise the cursor
  stays where it was.  Positions behind the end are allowed.
\<close>

theorem cursor_seek_moves:
  assumes "ds_size (cur_source c) = Ok n"
  shows "cursor_seek c p =
    (let target = (case p of SeekStart k \<Rightarrow> int k | SeekCurrent d \<Rightarrow> int (cur_position c) + d | SeekEnd d \<Rightarrow> int n + d)
     in if 0 \<le> target \<and> target < 2 ^ 64
        then (Ok (nat target), \<lparr>cur_source = cur_source c, cur_position = nat target\<rparr>)
        else (Err (Source_error Cursor_invalid_seek_position), c))"
  using assms
  by (cases c) (auto simp: cursor_seek_def seek_target_def Let_def u64_limit_def split: SeekFrom.splits)

theorem cursor_seek_moves_witness:
  "fst (cursor_seek (cursor_new (memory_source (memory_new [1, 2, 3]))) (SeekEnd (-1))) = Ok 2
   \<and> fst (cursor_seek (cursor_new (memory_source (memory_new [1, 2, 3]))) (SeekCurrent (-1)))
       = Err (Source_error Cursor_invalid_seek_position)"
  using cursor_seek_moves [of "cursor_new (memory_source (memory_new [1, 2, 3]))" 3 "SeekEnd (-1)"]
    cursor_seek_moves [of "cursor_new (memory_source (memory_new [1, 2, 3]))" 3 "SeekCurrent (-1)"]
  by (simp add: cursor_new_def memory_source_def memory_new_def Let_def)

end
