(* ===== verification/Probe_Cache.thy ===== *)
theory Probe_Cache
  imports Memory_Source
begin

text \<open>
  The probe cache (\<open>source/probe_cache.rs\<close>): a wrapper that keeps the windows of the first bytes of
  a source.  The cache is behind a read-write lock and shared by concurrent readers; the
  sequential model threads the map of windows through the calls, and the step relation at the
  end of the theory interleaves the lock sections of any number of readers.
\<close>

section \<open>ProbeCachedDataSource\<close>

record ProbeCachedDataSource =
  pc_inner :: data_source
  pc_window_size :: nat
  pc_cache_limit :: nat
  pc_windows :: "nat \<rightharpoonup> byte list"

definition DEFAULT_PROBE_CACHE_WINDOW_SIZE :: nat where
  "DEFAULT_PROBE_CACHE_WINDOW_SIZE = 4096"

definition DEFAULT_PROBE_CACHE_LIMIT :: nat where
  "DEFAULT_PROBE_CACHE_LIMIT = 64 * 1024"

definition probe_with_options :: "data_source \<Rightarrow> nat \<Rightarrow> nat \<Rightarrow> ProbeCachedDataSource" where
  "probe_with_options inner window_size cache_limit =
     \<lparr>pc_inner = inner, pc_window_size = max window_size 1, pc_cache_limit = cache_limit,
      pc_windows = Map.empty\<rparr>"

definition probe_new :: "data_source \<Rightarrow> ProbeCachedDataSource" where
  "probe_new inner =
     probe_with_options inner DEFAULT_PROBE_CACHE_WINDOW_SIZE DEFAULT_PROBE_CACHE_LIMIT"

definition cacheable :: "ProbeCachedDataSource \<Rightarrow> nat \<Rightarrow> nat \<Rightarrow> bool" where
  "cacheable pc offset n =
     (if n = 0 then False
      else case checked_add offset n of
             Some end_offset \<Rightarrow> end_offset \<le> pc_cache_limit pc
           | None \<Rightarrow> False)"

text \<open>\<open>cache.entry(window_offset).or_insert_with(\<dots>)\<close> under the write lock.\<close>

definition window_or_insert ::
    "ProbeCachedDataSource \<Rightarrow> nat \<Rightarrow> byte list \<Rightarrow> byte list \<times> ProbeCachedDataSource" where
  "window_or_insert pc window_offset window =
     (case pc_windows pc window_offset of
        Some entry \<Rightarrow> (entry, pc)
      | None \<Rightarrow> (window, pc\<lparr>pc_windows := (pc_windows pc)(window_offset \<mapsto> window)\<rparr>))"

definition read_window ::
    "ProbeCachedDataSource \<Rightarrow> nat \<Rightarrow> byte list result \<times> ProbeCachedDataSource" where
  "read_window pc window_offset =
     (case pc_windows pc window_offset of
        Some window \<Rightarrow> (Ok window, pc)
      | None \<Rightarrow>
          (case ds_read_at (pc_inner pc) window_offset (pc_window_size pc) of
             Inl e \<Rightarrow> (Err e, pc)
           | Inr data \<Rightarrow>
               (case window_or_insert pc window_offset data of (entry, pc') \<Rightarrow> (Ok entry, pc'))))"

text \<open>The loop of \<open>read_at\<close> over the windows; \<open>buf\<close> holds the bytes written so far.\<close>

function probe_loop ::
    "ProbeCachedDataSource \<Rightarrow> nat \<Rightarrow> nat \<Rightarrow> byte list \<Rightarrow> byte list result \<times> ProbeCachedDataSource" where
  "probe_loop pc offset len buf =
     (if length buf < len then
        (case checked_add offset (length buf) of
           None \<Rightarrow> (Err (Source_error Probe_cache_offset_overflow), pc)
         | Some absolute_offset \<Rightarrow>
             let window_offset = (absolute_offset div pc_window_size pc) * pc_window_size pc in
             (case read_window pc window_offset of
                (Inl e, pc') \<Rightarrow> (Err e, pc')
              | (Inr window, pc') \<Rightarrow>
                  let window_inner_offset = absolute_offset - window_offset in
                  if length window \<le> window_inner_offset then (Ok buf, pc')
                  else
                    let available = min (length window - window_inner_offset) (len - length buf);
                        buf' = buf @ subslice window_inner_offset available window
                    in if length window < pc_window_size pc then (Ok buf', pc')
                       else probe_loop pc' offset len buf'))
      else (Ok buf, pc))"
  by pat_completeness auto
termination
  by (relation "measure (\<lambda>(pc, offset, len, buf). len - length buf)")
     (auto simp: length_slice)

definition probe_read_at ::
    "ProbeCachedDataSource \<Rightarrow> nat \<Rightarrow> nat \<Rightarrow> byte list result \<times> ProbeCachedDataSource" where
  "probe_read_at pc offset n =
     (if \<not> cacheable pc offset n then (ds_read_at (pc_inner pc) offset n, pc)
      else probe_loop pc offset n [])"

declare probe_loop.simps [simp del]

section \<open>The cache invariant\<close>

text \<open>Every cached window is what the inner source returns for it.\<close>

definition cache_ok :: "ProbeCachedDataSource \<Rightarrow> bool" where
  "cache_ok pc \<longleftrightarrow> 0 < pc_window_size pc \<and>
     (\<forall>off w. pc_windows pc off = Some w \<longrightarrow> ds_read_at (pc_inner pc) off (pc_window_size pc) = Ok w)"

text \<open>The fields no operation changes.\<close>

definition same_config :: "ProbeCachedDataSource \<Rightarrow> ProbeCachedDataSource \<Rightarrow> bool" where
  "same_config pc pc' \<longleftrightarrow> pc_inner pc' = pc_inner pc \<and> pc_window_size pc' = pc_window_size pc
     \<and> pc_cache_limit pc' = pc_cache_limit pc"

lemma same_config_refl [simp]: "same_config pc pc"
  by (simp add: same_config_def)

lemma same_config_trans: "same_config a b \<Longrightarrow> same_config b c \<Longrightarrow> same_config a c"
  by (simp add: same_config_def)

lemma cache_ok_new: "cache_ok (probe_with_options inner window_size cache_limit)"
  by (simp add: cache_ok_def probe_with_options_def)

lemma window_or_insert_ok:
  assumes "cache_ok pc" "ds_read_at (pc_inner pc) off (pc_window_size pc) = Ok w"
    and "window_or_insert pc off w = (entry, pc')"
  shows "entry = w \<and> cache_ok pc' \<and> same_config pc pc'"
  using assms
  by (auto simp: window_or_insert_def cache_ok_def same_config_def split: option.splits if_splits)

text \<open>\<open>read_window\<close> is the inner read, with or without the window in the cache.\<close>

lemma read_window_inner:
  assumes "cache_ok pc"
  shows "fst (read_window pc off) = ds_read_at (pc_inner pc) off (pc_window_size pc)
    \<and> cache_ok (snd (read_window pc off)) \<and> same_config pc (snd (read_window pc off))"
proof (cases "pc_windows pc off")
  case (Some w)
  with assms show ?thesis by (simp add: read_window_def cache_ok_def)
next
  case None
  show ?thesis
  proof (cases "ds_read_at (pc_inner pc) off (pc_window_size pc)")
    case (Inl e)
    with None assms show ?thesis by (simp add: read_window_def)
  next
    case (Inr w)
    obtain entry pc' where "window_or_insert pc off w = (entry, pc')" by force
    with window_or_insert_ok [OF assms Inr this] None Inr show ?thesis
      by (simp add: read_window_def)
  qed
qed

section \<open>The cache is transparent over an exact source\<close>

lemma window_bounds:
  fixes ab :: nat
  assumes "0 < ws" "wo = (ab div ws) * ws"
  shows "wo \<le> ab" "ab < wo + ws"
  using assms by simp_all (metis add.commute dividend_less_times_div mult.commute)

text \<open>The part of a window copied by one iteration.\<close>

lemma window_part:
  fixes ab :: nat
  assumes wo: "wo \<le> ab" "ab < wo + ws" and w: "w = subslice wo ws content"
  shows "length w \<le> ab - wo \<Longrightarrow> length content \<le> ab"
    and "k \<le> length w - (ab - wo) \<Longrightarrow> subslice (ab - wo) k w = subslice ab k content"
    and "length w < ws \<Longrightarrow> ab - wo < length w \<Longrightarrow>
      subslice ab (min (length w - (ab - wo)) m) content = subslice ab m content"
proof -
  have lw: "length w = min ws (length content - wo)"
    by (simp add: w length_slice)
  show "length w \<le> ab - wo \<Longrightarrow> length content \<le> ab"
    using lw wo by linarith
  show "subslice (ab - wo) k w = subslice ab k content" if "k \<le> length w - (ab - wo)"
  proof -
    have "min k (ws - (ab - wo)) = k" using that lw by linarith
    then show ?thesis using wo by (simp add: w slice_slice)
  qed
  show "subslice ab (min (length w - (ab - wo)) m) content = subslice ab m content"
    if "length w < ws" "ab - wo < length w"
  proof -
    have "length w - (ab - wo) = length content - ab" using that lw wo by linarith
    then show ?thesis using slice_min [of ab m content] by (simp add: min.commute)
  qed
qed

lemma read_window_exact:
  assumes "exact_source (pc_inner pc) content" "cache_ok pc"
  obtains pc' where "read_window pc off = (Ok (subslice off (pc_window_size pc) content), pc')"
    "cache_ok pc'" "same_config pc pc'"
  using read_window_inner [OF assms(2), of off] exact_source.exact_read [OF assms(1)]
  by (cases "read_window pc off") auto

lemma probe_loop_step:
  assumes ds: "exact_source (pc_inner pc) content" and ok: "cache_ok pc"
    and u64: "off + len < u64_limit"
    and buf: "buf = subslice off (length buf) content" and lt: "length buf < len"
  shows "\<exists>pc'. cache_ok pc' \<and> same_config pc pc' \<and>
    (probe_loop pc off len buf = (Ok (subslice off len content), pc')
     \<or> (\<exists>buf'. probe_loop pc off len buf = probe_loop pc' off len buf'
          \<and> buf' = subslice off (length buf') content \<and> length buf < length buf' \<and> length buf' \<le> len))"
proof -
  define ws where "ws = pc_window_size pc"
  define ab where "ab = off + length buf"
  define wo where "wo = (ab div ws) * ws"
  define w where "w = subslice wo ws content"
  define av where "av = min (length w - (ab - wo)) (len - length buf)"
  define buf' where "buf' = buf @ subslice (ab - wo) av w"
  have "0 < ws" using ok by (simp add: cache_ok_def ws_def)
  note wo = window_bounds [OF this wo_def]
  note part = window_part [OF wo w_def]
  obtain pc' where rw: "read_window pc wo = (Ok w, pc')" and ok': "cache_ok pc'" "same_config pc pc'"
    using read_window_exact [OF ds ok, of wo] by (metis w_def ws_def)
  have "checked_add off (length buf) = Some ab"
    using u64 lt by (simp add: checked_add_def ab_def)
  then have step: "probe_loop pc off len buf =
      (if length w \<le> ab - wo then (Ok buf, pc')
       else if length w < ws then (Ok buf', pc') else probe_loop pc' off len buf')"
    using lt rw
    by (simp add: probe_loop.simps [of pc off len buf] wo_def ws_def Let_def av_def buf'_def)
  have app: "buf @ subslice ab k content = subslice off (length buf + k) content" for k
    using buf slice_append [of off "length buf" content k] by (metis ab_def)
  have buf': "buf' = subslice off (length buf + av) content"
    unfolding buf'_def using part(2) [of av] app [of av] by (simp add: av_def)
  consider (finished) "length w \<le> ab - wo" | (last) "ab - wo < length w" "length w < ws"
    | (more) "ab - wo < length w" "ws \<le> length w" by linarith
  then show ?thesis
  proof cases
    case finished
    then have "buf = subslice off len content"
      using part(1) buf lt by (simp add: ab_def subslice_def)
    with finished step ok' show ?thesis by auto
  next
    case last
    then have "buf' = subslice off len content"
      using buf' app [of av] app [of "len - length buf"] part(3) lt by (simp add: av_def)
    with last step ok' show ?thesis by auto
  next
    case more
    have len: "length buf' = length buf + av"
      using more(1) by (simp add: buf'_def av_def length_slice)
    have av: "0 < av" "length buf + av \<le> len"
      using more(1) lt by (auto simp: av_def)
    have "probe_loop pc off len buf = probe_loop pc' off len buf'" using more step by simp
    moreover have "buf' = subslice off (length buf') content" using buf' len by metis
    ultimately show ?thesis
      using ok' len av by (intro exI [of _ pc'] conjI disjI2 exI [of _ buf']) auto
  qed
qed

lemma probe_loop_exact:
  assumes "exact_source (pc_inner pc) content" "cache_ok pc" "off + len < u64_limit"
    and "buf = subslice off (length buf) content" "length buf \<le> len"
  shows "\<exists>pc'. probe_loop pc off len buf = (Ok (subslice off len content), pc')
    \<and> cache_ok pc' \<and> same_config pc pc'"
  using assms
proof (induction "len - length buf" arbitrary: pc buf rule: less_induct)
  case less
  show ?case
  proof (cases "length buf < len")
    case False
    with less.prems show ?thesis by (simp add: probe_loop.simps [of pc])
  next
    case True
    obtain pc' where ok: "cache_ok pc'" "same_config pc pc'" and
      "probe_loop pc off len buf = (Ok (subslice off len content), pc')
       \<or> (\<exists>buf'. probe_loop pc off len buf = probe_loop pc' off len buf'
          \<and> buf' = subslice off (length buf') content \<and> length buf < length buf' \<and> length buf' \<le> len)"
      using probe_loop_step [OF less.prems(1-4) True] by blast
    then consider "probe_loop pc off len buf = (Ok (subslice off len content), pc')"
      | buf' where "probe_loop pc off len buf = probe_loop pc' off len buf'"
          "buf' = subslice off (length buf') content" "length buf < length buf'" "length buf' \<le> len"
      by blast
    then show ?thesis
    proof cases
      case 1
      with ok show ?thesis by blast
    next
      case (2 buf')
      have "exact_source (pc_inner pc') content"
        using less.prems(1) ok(2) by (simp add: same_config_def)
      moreover have "len - length buf' < len - length buf"
        using 2(3,4) by linarith
      ultimately obtain pc'' where
        "probe_loop pc' off len buf' = (Ok (subslice off len content), pc'')"
        "cache_ok pc''" "same_config pc' pc''"
        using less.hyps [of buf' pc'] ok(1) less.prems(3) 2(2,4) by blast
      with 2(1) ok(2) show ?thesis by (auto intro: same_config_trans)
    qed
  qed
qed

lemma cacheable_u64: "cacheable pc off n \<Longrightarrow> off + n < u64_limit"
  by (auto simp: cacheable_def checked_add_def split: if_splits option.splits)

section \<open>Concurrent readers\<close>

text \<open>
  \<open>read_window\<close> as it runs in several threads: the lookup holds the read lock, the inner read
  holds no lock, and the insertion holds the write lock.  A reader is between two lock sections
  in one of the states below; the steps of the readers interleave freely, and the inner source,
  which is immutable, answers a read always in the same way.
\<close>

datatype reader =
    Idle
  | Missed nat                \<comment> \<open>looked up a window that was not cached\<close>
  | Loaded nat "byte list"    \<comment> \<open>read the window from the inner source\<close>
  | Returned nat "byte list result"

record probe_system =
  sys_cache :: ProbeCachedDataSource
  sys_readers :: "nat \<Rightarrow> reader"

inductive probe_step :: "probe_system \<Rightarrow> probe_system \<Rightarrow> bool" where
  hit: "sys_readers s t = Idle \<Longrightarrow> pc_windows (sys_cache s) off = Some w \<Longrightarrow>
    probe_step s (s\<lparr>sys_readers := (sys_readers s)(t := Returned off (Ok w))\<rparr>)"
| miss: "sys_readers s t = Idle \<Longrightarrow> pc_windows (sys_cache s) off = None \<Longrightarrow>
    probe_step s (s\<lparr>sys_readers := (sys_readers s)(t := Missed off)\<rparr>)"
| load: "sys_readers s t = Missed off \<Longrightarrow>
    ds_read_at (pc_inner (sys_cache s)) off (pc_window_size (sys_cache s)) = Ok w \<Longrightarrow>
    probe_step s (s\<lparr>sys_readers := (sys_readers s)(t := Loaded off w)\<rparr>)"
| load_error: "sys_readers s t = Missed off \<Longrightarrow>
    ds_read_at (pc_inner (sys_cache s)) off (pc_window_size (sys_cache s)) = Err e \<Longrightarrow>
    probe_step s (s\<lparr>sys_readers := (sys_readers s)(t := Returned off (Err e))\<rparr>)"
| insert: "sys_readers s t = Loaded off w \<Longrightarrow> window_or_insert (sys_cache s) off w = (entry, pc') \<Longrightarrow>
    probe_step s (s\<lparr>sys_cache := pc', sys_readers := (sys_readers s)(t := Returned off (Ok entry))\<rparr>)"
| finish: "sys_readers s t = Returned off r \<Longrightarrow>
    probe_step s (s\<lparr>sys_readers := (sys_readers s)(t := Idle)\<rparr>)"

definition probe_start :: "ProbeCachedDataSource \<Rightarrow> probe_system" where
  "probe_start pc = \<lparr>sys_cache = pc, sys_readers = (\<lambda>_. Idle)\<rparr>"

inductive probe_reachable :: "ProbeCachedDataSource \<Rightarrow> probe_system \<Rightarrow> bool" for pc where
  start: "probe_reachable pc (probe_start pc)"
| step: "probe_reachable pc s \<Longrightarrow> probe_step s s' \<Longrightarrow> probe_reachable pc s'"

text \<open>
  The invariant of the system: the cache agrees with the inner source, and so does what a reader
  holds or has returned.
\<close>

fun reader_ok :: "ProbeCachedDataSource \<Rightarrow> reader \<Rightarrow> bool" where
  "reader_ok pc Idle = True"
| "reader_ok pc (Missed off) = True"
| "reader_ok pc (Loaded off w) = (ds_read_at (pc_inner pc) off (pc_window_size pc) = Ok w)"
| "reader_ok pc (Returned off r) = (ds_read_at (pc_inner pc) off (pc_window_size pc) = r)"

definition probe_inv :: "ProbeCachedDataSource \<Rightarrow> probe_system \<Rightarrow> bool" where
  "probe_inv pc s \<longleftrightarrow> same_config pc (sys_cache s) \<and> cache_ok (sys_cache s)
     \<and> (\<forall>t. reader_ok pc (sys_readers s t))"

lemma reader_ok_same_config: "same_config pc pc' \<Longrightarrow> reader_ok pc' r = reader_ok pc r"
  by (cases r) (simp_all add: same_config_def)

lemma probe_step_inv: "probe_step s s' \<Longrightarrow> probe_inv pc s \<Longrightarrow> probe_inv pc s'"
proof (induction rule: probe_step.induct)
  case (hit s t off w)
  then show ?case by (auto simp: probe_inv_def cache_ok_def same_config_def)
next
  case (load s t off w)
  then show ?case by (auto simp: probe_inv_def same_config_def)
next
  case (load_error s t off e)
  then show ?case by (auto simp: probe_inv_def same_config_def)
next
  case (insert s t off w entry pc')
  have w: "ds_read_at (pc_inner (sys_cache s)) off (pc_window_size (sys_cache s)) = Ok w"
    using insert by (auto simp: probe_inv_def same_config_def dest: spec [of _ t])
  then have "entry = w" "cache_ok pc'" "same_config (sys_cache s) pc'"
    using window_or_insert_ok [OF _ w insert(2)] insert(3) by (auto simp: probe_inv_def)
  with insert(3) w show ?case
    by (auto simp: probe_inv_def same_config_def)
qed (auto simp: probe_inv_def)

lemma probe_reachable_inv:
  assumes "cache_ok pc" "probe_reachable pc s"
  shows "probe_inv pc s"
  using assms(2)
proof (induction rule: probe_reachable.induct)
  case start
  show ?case using assms(1) by (simp add: probe_inv_def probe_start_def)
next
  case (step s s')
  then show ?case using probe_step_inv by blast
qed

section \<open>Runs of requests\<close>

text \<open>The requests of one reader, each an offset and a buffer size, and what each returned.\<close>

fun probe_run ::
    "ProbeCachedDataSource \<Rightarrow> (nat \<times> nat) list \<Rightarrow> byte list result list \<times> ProbeCachedDataSource" where
  "probe_run pc [] = ([], pc)"
| "probe_run pc ((offset, n) # reqs) =
     (case probe_read_at pc offset n of
        (r, pc') \<Rightarrow> (case probe_run pc' reqs of (out, pc'') \<Rightarrow> (r # out, pc'')))"

lemma probe_read_at_exact:
  assumes "exact_source (pc_inner pc) content" "cache_ok pc"
  shows "\<exists>pc'. probe_read_at pc off n = (ds_read_at (pc_inner pc) off n, pc') \<and> cache_ok pc' \<and> same_config pc pc'"
proof (cases "cacheable pc off n")
  case True
  then show ?thesis
    using probe_loop_exact [OF assms cacheable_u64 [OF True], of "[]"] exact_source.exact_read [OF assms(1)]
    by (simp add: probe_read_at_def)
next
  case False
  with assms(2) show ?thesis by (simp add: probe_read_at_def)
qed

lemma probe_run_exact:
  assumes "exact_source (pc_inner pc) content" "cache_ok pc"
  shows "fst (probe_run pc reqs) = map (\<lambda>(off, n). ds_read_at (pc_inner pc) off n) reqs"
  using assms
proof (induction reqs arbitrary: pc)
  case (Cons req reqs)
  obtain off n where req: "req = (off, n)" by force
  obtain pc' where pc': "probe_read_at pc off n = (ds_read_at (pc_inner pc) off n, pc')"
    "cache_ok pc'" "pc_inner pc' = pc_inner pc"
    using probe_read_at_exact [OF Cons.prems, of off n] by (auto simp: same_config_def)
  with Cons.IH [of pc'] Cons.prems(1) show ?case
    by (cases "probe_run pc' reqs") (simp add: req)
qed simp

section \<open>The size of the cache\<close>

text \<open>The windows are those of the first \<open>pc_cache_limit\<close> bytes.\<close>

definition cache_bounded :: "ProbeCachedDataSource \<Rightarrow> bool" where
  "cache_bounded pc \<longleftrightarrow> (\<forall>off \<in> dom (pc_windows pc). pc_window_size pc dvd off \<and> off < pc_cache_limit pc)"

lemma read_window_bounded:
  assumes "read_window pc off = (r, pc')" "cache_bounded pc" "pc_window_size pc dvd off" "off < pc_cache_limit pc"
  shows "cache_bounded pc' \<and> same_config pc pc'"
  using assms
  by (auto simp: read_window_def window_or_insert_def cache_bounded_def same_config_def
      split: option.splits sum.splits if_splits)

lemma probe_loop_bounded:
  assumes "probe_loop pc off len buf = (r, pc')" "cache_bounded pc" "off + len \<le> pc_cache_limit pc"
  shows "cache_bounded pc' \<and> same_config pc pc'"
  using assms
proof (induction pc off len buf arbitrary: r pc' rule: probe_loop.induct)
  case (1 pc off len buf)
  show ?case
  proof (cases "length buf < len \<and> off + length buf < u64_limit")
    case False
    with "1.prems" show ?thesis
      by (auto simp: probe_loop.simps [of pc off len buf] checked_add_def split: if_splits)
  next
    case True
    define ab where "ab = off + length buf"
    define wo where "wo = (ab div pc_window_size pc) * pc_window_size pc"
    have ab: "checked_add off (length buf) = Some ab" using True by (simp add: checked_add_def ab_def)
    have "wo \<le> ab" by (simp add: wo_def)
    then have wo: "wo < pc_cache_limit pc"
      using True "1.prems"(3) unfolding ab_def by linarith
    have dvd: "pc_window_size pc dvd wo" by (simp add: wo_def)
    obtain w pc1 where rw: "read_window pc wo = (w, pc1)" by force
    have pc1: "cache_bounded pc1 \<and> same_config pc pc1"
      using read_window_bounded [OF rw "1.prems"(2) dvd wo] .
    show ?thesis
    proof (cases "\<exists>buf' window. w = Ok window \<and> (r, pc') = probe_loop pc1 off len buf' \<and>
        \<not> length window \<le> ab - wo \<and> \<not> length window < pc_window_size pc \<and>
        buf' = buf @ subslice (ab - wo) (min (length window - (ab - wo)) (len - length buf)) window")
      case True': True
      then obtain window where w: "w = Ok window" "\<not> length window \<le> ab - wo"
        "\<not> length window < pc_window_size pc"
        "probe_loop pc1 off len (buf @ subslice (ab - wo) (min (length window - (ab - wo)) (len - length buf)) window) = (r, pc')"
        by auto
      have "cache_bounded pc' \<and> same_config pc1 pc'"
        using "1.IH" [OF _ ab wo_def rw [symmetric] w(1) refl w(2) refl refl w(3) w(4)] True pc1 "1.prems"(3)
        by (simp add: same_config_def)
      with pc1 show ?thesis using same_config_trans by blast
    next
      case False
      with "1.prems"(1) rw True ab have "pc' = pc1"
        by (auto simp: probe_loop.simps [of pc off len buf] wo_def [symmetric] Let_def
            split: sum.splits if_splits)
      with pc1 show ?thesis by simp
    qed
  qed
qed

lemma probe_run_bounded:
  "cache_bounded pc \<Longrightarrow> probe_run pc reqs = (out, pc') \<Longrightarrow> cache_bounded pc' \<and> same_config pc pc'"
proof (induction reqs arbitrary: pc out)
  case (Cons req reqs)
  obtain off n where req: "req = (off, n)" by force
  obtain r pc1 where pc1: "probe_read_at pc off n = (r, pc1)" by force
  have "cache_bounded pc1 \<and> same_config pc pc1"
    using pc1 Cons.prems(1) probe_loop_bounded [of pc off n "[]" r pc1]
    by (auto simp: probe_read_at_def cacheable_def checked_add_def split: if_splits)
  with Cons.IH [of pc1] Cons.prems(2) pc1 show ?case
    by (auto simp: req split: prod.splits intro: same_config_trans)
qed simp

lemma cache_bounded_card:
  assumes "cache_bounded pc" "0 < pc_window_size pc"
  shows "card (dom (pc_windows pc)) \<le> div_ceil (pc_cache_limit pc) (pc_window_size pc)"
proof -
  define ws where "ws = pc_window_size pc"
  have "off div ws < div_ceil (pc_cache_limit pc) ws \<and> off = off div ws * ws" if "off \<in> dom (pc_windows pc)" for off
  proof -
    have off: "ws dvd off" "off < pc_cache_limit pc"
      using that assms(1) by (simp_all add: cache_bounded_def ws_def)
    then have "off < div_ceil (pc_cache_limit pc) ws * ws"
      using div_ceil_bounds(1) [of ws "pc_cache_limit pc"] assms(2) by (simp add: ws_def)
    then show ?thesis using off(1) by (simp add: less_mult_imp_div_less)
  qed
  then have "dom (pc_windows pc) \<subseteq> (\<lambda>i. i * ws) ` {..<div_ceil (pc_cache_limit pc) ws}" by blast
  then show ?thesis
    using card_mono card_image_le le_trans unfolding ws_def
    by (metis card_lessThan finite_imageI finite_lessThan)
qed

section \<open>A source with short reads\<close>

text \<open>A source that returns one byte at a time, as the contract of \<open>read_at\<close> allows.\<close>

definition trickle_source :: "byte list \<Rightarrow> data_source" where
  "trickle_source content =
     (memory_source (memory_new content))\<lparr>ds_read_at := (\<lambda>off n. Ok (subslice off (min n 1) content))\<rparr>"

lemma trickle_total: "length content < u64_limit \<Longrightarrow> total_source (trickle_source content) content"
  by unfold_locales
     (auto simp: trickle_source_def memory_source_def memory_new_def length_slice slice_eq_Nil_iff
       min.assoc [symmetric] slice_min)

section \<open>Properties\<close>

text \<open>
  (C9) Over an exact source, one whose reads never fail and never return fewer bytes than are left of
  the request or of the content, the probe cache is transparent: whatever requests were made before,
  a request returns what the inner source would have returned, be it served from the windows or
  passed on.  Both conditions are needed: a window is read beyond the request, so that a region that
  fails would fail a request beside it, and short reads are the subject of
  \<open>probe_cache_stalls_on_short_reads\<close>.
\<close>

theorem probe_cache_transparent:
  assumes "exact_source inner content"
  shows "fst (probe_run (probe_with_options inner window_size cache_limit) reqs)
    = map (\<lambda>(off, n). ds_read_at inner off n) reqs"
  using probe_run_exact [of "probe_with_options inner window_size cache_limit" content reqs] assms
    cache_ok_new [of inner window_size cache_limit]
  by (simp add: probe_with_options_def)

theorem probe_cache_transparent_witness:
  "fst (probe_run (probe_with_options (memory_source (memory_new [1, 2, 3, 4, 5])) 2 4) [(1, 2), (0, 3), (3, 2)])
    = [Ok [2, 3], Ok [1, 2, 3], Ok [4, 5]]"
  using probe_cache_transparent [OF memory_exact [of "[1, 2, 3, 4, 5]"], of 2 4 "[(1, 2), (0, 3), (3, 2)]"]
    exact_source.exact_read [OF memory_exact [of "[1, 2, 3, 4, 5]"]]
  by (simp add: u64_limit_def subslice_def)

text \<open>
  (C36) However the lock sections of concurrent readers interleave, every window a reader returns,
  from the cache or freshly read, is what the inner source holds at that offset, and an error is
  the error of the inner read.
\<close>

theorem probe_readers_consistent:
  assumes "probe_reachable (probe_with_options inner window_size cache_limit) s"
    and "sys_readers s t = Returned off r"
  shows "r = ds_read_at inner off (max window_size 1)"
  using probe_reachable_inv [OF cache_ok_new assms(1)] assms(2)
  by (auto simp: probe_inv_def probe_with_options_def dest!: spec [of _ t])

definition raced_start :: probe_system where
  "raced_start = probe_start (probe_with_options (memory_source (memory_new [1, 2, 3])) 2 4)"

theorem probe_readers_consistent_witness:
  "\<exists>s. probe_reachable (probe_with_options (memory_source (memory_new [1, 2, 3])) 2 4) s
     \<and> sys_readers s 0 = Returned 0 (Ok [1, 2])
     \<and> ds_read_at (memory_source (memory_new [1, 2, 3])) 0 (max 2 1) = Ok [1, 2]"
proof -
  let ?pc = "probe_with_options (memory_source (memory_new [1, 2, 3])) 2 4"
  let ?s1 = "raced_start\<lparr>sys_readers := (sys_readers raced_start)(0 := Missed 0)\<rparr>"
  let ?s2 = "?s1\<lparr>sys_readers := (sys_readers ?s1)(0 := Loaded 0 [1, 2])\<rparr>"
  let ?s3 = "?s2\<lparr>sys_cache := ?pc\<lparr>pc_windows := [0 \<mapsto> [1, 2]]\<rparr>, sys_readers := (sys_readers ?s2)(0 := Returned 0 (Ok [1, 2]))\<rparr>"
  have rd: "ds_read_at (memory_source (memory_new [1, 2, 3])) 0 2 = Ok [1, 2]"
    using exact_source.exact_read [OF memory_exact [of "[1, 2, 3]"]] by (simp add: u64_limit_def subslice_def)
  have "probe_reachable ?pc raced_start" unfolding raced_start_def by (rule probe_reachable.start)
  moreover have "probe_step raced_start ?s1"
    by (rule probe_step.miss) (simp_all add: raced_start_def probe_start_def probe_with_options_def)
  moreover have "probe_step ?s1 ?s2"
    by (rule probe_step.load) (simp_all add: raced_start_def probe_start_def probe_with_options_def rd [unfolded numeral_2_eq_2] rd)
  moreover have "probe_step ?s2 ?s3"
    by (rule probe_step.insert)
       (simp_all add: raced_start_def probe_start_def probe_with_options_def window_or_insert_def)
  ultimately have reach: "probe_reachable ?pc ?s3" by (meson probe_reachable.step)
  moreover have ret: "sys_readers ?s3 0 = Returned 0 (Ok [1, 2])" by simp
  moreover have "Ok [1, 2] = ds_read_at (memory_source (memory_new [1, 2, 3])) 0 (max 2 1)"
    using probe_readers_consistent [OF reach ret] .
  ultimately show ?thesis by metis
qed

text \<open>
  The cache is bounded: it never holds more windows than the first \<open>cache_limit\<close> bytes have,
  whatever is requested.
\<close>

theorem probe_cache_bounded:
  "card (dom (pc_windows (snd (probe_run (probe_with_options inner window_size cache_limit) reqs))))
     \<le> div_ceil cache_limit (max window_size 1)"
proof -
  let ?pc = "probe_with_options inner window_size cache_limit"
  obtain out pc' where run: "probe_run ?pc reqs = (out, pc')" by force
  have "cache_bounded ?pc" by (simp add: cache_bounded_def probe_with_options_def)
  with probe_run_bounded [OF _ run] have "cache_bounded pc'" "same_config ?pc pc'" by blast+
  with cache_bounded_card [of pc'] have
    "card (dom (pc_windows pc')) \<le> div_ceil cache_limit (max window_size 1)"
    by (simp add: same_config_def probe_with_options_def)
  then show ?thesis by (simp only: run snd_conv)
qed

text \<open>A run keeps the cache sound over any source.\<close>

lemma probe_loop_ok: "cache_ok pc \<Longrightarrow> cache_ok (snd (probe_loop pc off len buf)) \<and> same_config pc (snd (probe_loop pc off len buf))"
proof (induction pc off len buf rule: probe_loop.induct)
  case (1 pc off len buf)
  show ?case
  proof (cases "length buf < len \<and> checked_add off (length buf) \<noteq> None")
    case False
    then show ?thesis using "1.prems" by (auto simp: probe_loop.simps [of pc off len buf])
  next
    case True
    then obtain ab where ab: "length buf < len" "checked_add off (length buf) = Some ab" by auto
    let ?wo = "ab div pc_window_size pc * pc_window_size pc"
    obtain r pc' where rw: "read_window pc ?wo = (r, pc')" by force
    have ok: "cache_ok pc'" "same_config pc pc'" using read_window_inner [OF "1.prems", of ?wo] rw by simp_all
    show ?thesis
    proof (cases r)
      case (Inl e)
      with ok ab rw show ?thesis by (simp add: probe_loop.simps [of pc off len buf])
    next
      case (Inr w)
      note rec = "1.IH" [OF ab refl rw [symmetric, unfolded Inr] refl refl]
      show ?thesis
        using ok ab rw Inr rec same_config_trans [OF ok(2)]
        by (auto simp: probe_loop.simps [of pc off len buf] Let_def)
    qed
  qed
qed

lemma probe_run_ok: "cache_ok pc \<Longrightarrow> cache_ok (snd (probe_run pc reqs)) \<and> same_config pc (snd (probe_run pc reqs))"
proof (induction pc reqs rule: probe_run.induct)
  case (2 pc off n reqs)
  obtain r pc' where req: "probe_read_at pc off n = (r, pc')" by force
  have ok: "cache_ok pc'" "same_config pc pc'"
    using probe_loop_ok [OF "2.prems", of off n "[]"] req "2.prems"
    by (auto simp: probe_read_at_def split: if_splits)
  then show ?case
    using "2.IH" [OF req [symmetric]] same_config_trans [OF ok(2)] req
    by (auto split: prod.splits)
qed simp

text \<open>
  (C39) Over a source that returns short reads the cache does not return what the source has: after
  any requests, a request for at least one byte that lies within the cache limit reports the end of
  the data whenever the source answers the read of its window with no more bytes than lie before
  the request, although the content has a byte there and the source, which never fails and keeps
  the contract of \<open>read_at\<close>, returns it when asked directly.
\<close>

theorem probe_cache_stalls_on_short_reads:
  assumes "total_source inner content" "off < length content" "0 < n" "off + n \<le> cache_limit" "cache_limit < u64_limit"
    and "ds_read_at inner (off div max window_size 1 * max window_size 1) (max window_size 1) = Ok window"
    and "length window \<le> off mod max window_size 1"
  shows "fst (probe_read_at (snd (probe_run (probe_with_options inner window_size cache_limit) reqs)) off n) = Ok []
    \<and> (\<exists>bs. ds_read_at inner off n = Ok (content ! off # bs))"
proof
  let ?pc = "snd (probe_run (probe_with_options inner window_size cache_limit) reqs)"
  let ?w = "max window_size 1"
  have pc: "cache_ok ?pc" "pc_inner ?pc = inner" "pc_window_size ?pc = ?w" "pc_cache_limit ?pc = cache_limit"
    using probe_run_ok [OF cache_ok_new [of inner window_size cache_limit], of reqs]
    by (simp_all add: same_config_def probe_with_options_def)
  obtain r pc' where rw: "read_window ?pc (off div ?w * ?w) = (r, pc')" by force
  then have "r = Ok window" using read_window_inner [OF pc(1), of "off div ?w * ?w"] pc(2,3) assms(6) by simp
  moreover have "off - off div ?w * ?w = off mod ?w" by (simp add: minus_div_mult_eq_mod)
  moreover have "checked_add off n = Some (off + n)" "checked_add off 0 = Some off"
    using assms(4,5) by (simp_all add: checked_add_def)
  ultimately show "fst (probe_read_at ?pc off n) = Ok []"
    using assms(3,4,7) pc rw
    by (simp add: probe_read_at_def cacheable_def probe_loop.simps [of ?pc off n "[]"] Let_def)
next
  obtain bs where bs: "ds_read_at inner off n = Ok bs"
    using total_source.read_total [OF assms(1)] by blast
  note src = assms(1) [unfolded total_source_def, THEN conjunct1]
  have "bs = subslice off (length bs) content" "bs \<noteq> []"
    using byte_source.read_prefix [OF src bs] byte_source.read_progress [OF src bs] assms(2,3) by auto
  then have "bs = content ! off # drop 1 bs"
    using assms(2) by (metis One_nat_def drop_0 hd_Cons_tl hd_drop_conv_nth hd_take length_greater_0_conv
        drop_Suc subslice_def)
  with bs show "\<exists>bs. ds_read_at inner off n = Ok (content ! off # bs)" by metis
qed

theorem probe_cache_stalls_on_short_reads_witness:
  "fst (probe_read_at (snd (probe_run (probe_with_options (trickle_source [1, 2, 3]) 4 16) [(0, 2)])) 1 2) = Ok []
   \<and> ds_read_at (trickle_source [1, 2, 3]) 1 2 = Ok [2]"
proof -
  have src: "total_source (trickle_source [1, 2, 3]) [1, 2, 3]"
    by (rule trickle_total) (simp add: u64_limit_def)
  have window: "ds_read_at (trickle_source [1, 2, 3]) (1 div max 4 1 * max 4 1) (max 4 1) = Ok [1]"
    by (simp add: trickle_source_def subslice_def)
  have "ds_read_at (trickle_source [1, 2, 3]) 1 2 = Ok [2]"
    by (simp add: trickle_source_def subslice_def)
  with probe_cache_stalls_on_short_reads [OF src _ _ _ _ window, of 2 16 "[(0, 2)]"] show ?thesis
    by (simp add: u64_limit_def)
qed

end
