(* ===== verification/Observed_Source.thy ===== *)
theory Observed_Source
  imports Memory_Source
begin

text \<open>
  The observing wrapper and its statistics (\<open>source/observed.rs\<close>).  The collector is a counter
  record behind a mutex; \<open>record_read\<close> and \<open>snapshot\<close> hold the lock for their whole body, so each
  is one atomic update.  The time a read took is an input of the model.
\<close>

section \<open>DataSourceReadStats\<close>

record DataSourceReadStatsState =
  st_read_count :: nat
  st_read_bytes :: nat
  st_request_offset_distance_bytes :: nat
  st_max_read_size :: nat
  st_max_offset_distance_bytes :: nat
  st_total_read_micros :: nat
  st_last_offset :: "nat option"
  st_last_len :: nat

record DataSourceReadStatsSnapshot =
  sn_read_count :: nat
  sn_read_bytes :: nat
  sn_average_read_size :: nat
  sn_request_offset_distance_bytes :: nat
  sn_average_offset_distance_bytes :: nat
  sn_max_read_size :: nat
  sn_max_offset_distance_bytes :: nat
  sn_total_read_micros :: nat
  sn_average_read_micros :: nat

definition stats_default :: DataSourceReadStatsState where
  "stats_default =
     \<lparr>st_read_count = 0, st_read_bytes = 0, st_request_offset_distance_bytes = 0,
      st_max_read_size = 0, st_max_offset_distance_bytes = 0, st_total_read_micros = 0,
      st_last_offset = None, st_last_len = 0\<rparr>"

definition abs_diff :: "nat \<Rightarrow> nat \<Rightarrow> nat" where
  "abs_diff a b = (if a \<le> b then b - a else a - b)"

definition u128_saturating_add :: "nat \<Rightarrow> nat \<Rightarrow> nat" where
  "u128_saturating_add a b = min (a + b) (2 ^ 128 - 1)"

text \<open>The part of \<open>record_read\<close> that compares the request with the previous one.\<close>

definition record_distance :: "DataSourceReadStatsState \<Rightarrow> nat \<Rightarrow> DataSourceReadStatsState" where
  "record_distance st offset =
     (case st_last_offset st of
        None \<Rightarrow> st
      | Some last_offset \<Rightarrow>
          let last_end = saturating_add last_offset (st_last_len st);
              distance = abs_diff offset last_end
          in st\<lparr>st_request_offset_distance_bytes :=
                  saturating_add (st_request_offset_distance_bytes st) distance,
                st_max_offset_distance_bytes := max (st_max_offset_distance_bytes st) distance\<rparr>)"

definition record_read ::
    "DataSourceReadStatsState \<Rightarrow> nat \<Rightarrow> nat \<Rightarrow> nat \<Rightarrow> DataSourceReadStatsState" where
  "record_read st offset len elapsed_micros =
     (let st1 = st\<lparr>st_read_count := saturating_add (st_read_count st) 1,
                   st_read_bytes := saturating_add (st_read_bytes st) len,
                   st_max_read_size := max (st_max_read_size st) len,
                   st_total_read_micros := u128_saturating_add (st_total_read_micros st) elapsed_micros\<rparr>
      in (record_distance st1 offset)\<lparr>st_last_offset := Some offset, st_last_len := len\<rparr>)"

definition stats_snapshot :: "DataSourceReadStatsState \<Rightarrow> DataSourceReadStatsSnapshot" where
  "stats_snapshot st =
     \<lparr>sn_read_count = st_read_count st,
      sn_read_bytes = st_read_bytes st,
      sn_average_read_size =
        (if st_read_count st = 0 then 0 else st_read_bytes st div st_read_count st),
      sn_request_offset_distance_bytes = st_request_offset_distance_bytes st,
      sn_average_offset_distance_bytes =
        (if st_read_count st \<le> 1 then 0
         else st_request_offset_distance_bytes st div (st_read_count st - 1)),
      sn_max_read_size = st_max_read_size st,
      sn_max_offset_distance_bytes = st_max_offset_distance_bytes st,
      sn_total_read_micros = st_total_read_micros st,
      sn_average_read_micros =
        (if st_read_count st = 0 then 0 else st_total_read_micros st div st_read_count st)\<rparr>"

section \<open>ObservedDataSource\<close>

record ObservedDataSource =
  obs_inner :: data_source
  obs_stats :: DataSourceReadStatsState

definition observed_new :: "data_source \<Rightarrow> ObservedDataSource" where
  "observed_new inner = \<lparr>obs_inner = inner, obs_stats = stats_default\<rparr>"

definition observed_read_at ::
    "ObservedDataSource \<Rightarrow> nat \<Rightarrow> nat \<Rightarrow> nat \<Rightarrow> byte list result \<times> ObservedDataSource" where
  "observed_read_at obs elapsed_micros offset n =
     (case ds_read_at (obs_inner obs) offset n of
        Inl e \<Rightarrow> (Err e, obs)
      | Inr bytes \<Rightarrow>
          (Ok bytes,
           obs\<lparr>obs_stats := record_read (obs_stats obs) offset (length bytes) elapsed_micros\<rparr>))"

text \<open>A run of reads: the offset, the buffer size and the time taken of each.\<close>

fun observed_run ::
    "ObservedDataSource \<Rightarrow> (nat \<times> nat \<times> nat) list \<Rightarrow> byte list result list \<times> ObservedDataSource" where
  "observed_run obs [] = ([], obs)"
| "observed_run obs ((offset, n, micros) # rs) =
     (case observed_read_at obs micros offset n of
        (r, obs') \<Rightarrow> (case observed_run obs' rs of (out, obs'') \<Rightarrow> (r # out, obs'')))"

section \<open>What the statistics count\<close>

fun ok_bytes :: "byte list result list \<Rightarrow> nat list" where
  "ok_bytes [] = []"
| "ok_bytes (Inl e # rs) = ok_bytes rs"
| "ok_bytes (Inr bs # rs) = length bs # ok_bytes rs"

lemma record_read_counts:
  "st_read_count (record_read st offset len micros) = saturating_add (st_read_count st) 1"
  "st_read_bytes (record_read st offset len micros) = saturating_add (st_read_bytes st) len"
  "st_max_read_size (record_read st offset len micros) = max (st_max_read_size st) len"
  by (simp_all add: record_read_def record_distance_def Let_def split: option.splits)

lemma saturating_add_assoc:
  "saturating_add (saturating_add a b) c = saturating_add a (b + c)"
  by (auto simp: saturating_add_def)

lemma observed_run_inner: "obs_inner (snd (observed_run obs rs)) = obs_inner obs"
proof (induction obs rs rule: observed_run.induct)
  case (2 obs offset n micros rs)
  then show ?case
    by (auto simp: observed_read_at_def split: prod.splits sum.splits)
qed simp

lemma observed_run_results:
  "fst (observed_run obs rs) = map (\<lambda>(offset, n, _). ds_read_at (obs_inner obs) offset n) rs"
proof (induction obs rs rule: observed_run.induct)
  case (2 obs offset n micros rs)
  then show ?case
    by (auto simp: observed_read_at_def split: prod.splits sum.splits)
qed simp

lemma observed_run_stats:
  assumes "observed_run obs rs = (out, obs')"
    and "st_read_count (obs_stats obs) < u64_limit" "st_read_bytes (obs_stats obs) < u64_limit"
  shows "st_read_count (obs_stats obs')
      = saturating_add (st_read_count (obs_stats obs)) (length (ok_bytes out))
    \<and> st_read_bytes (obs_stats obs')
      = saturating_add (st_read_bytes (obs_stats obs)) (sum_list (ok_bytes out))
    \<and> st_max_read_size (obs_stats obs') = fold max (ok_bytes out) (st_max_read_size (obs_stats obs))"
  using assms
proof (induction obs rs arbitrary: out rule: observed_run.induct)
  case (1 obs)
  then show ?case by (auto simp: saturating_add_def)
next
  case (2 obs offset n micros rs)
  obtain r obs1 where r: "observed_read_at obs micros offset n = (r, obs1)" by force
  obtain out1 where out: "observed_run obs1 rs = (out1, obs')" "out = r # out1"
    using "2.prems"(1) r by (auto split: prod.splits)
  note IH = "2.IH" [OF r [symmetric] out(1)]
  show ?case
  proof (cases r)
    case (Inl e)
    with r have "obs1 = obs" by (auto simp: observed_read_at_def split: sum.splits)
    with IH "2.prems"(2,3) Inl out(2) show ?thesis by simp
  next
    case (Inr bs)
    then have st: "obs_stats obs1 = record_read (obs_stats obs) offset (length bs) micros"
      using r by (auto simp: observed_read_at_def split: sum.splits)
    have "st_read_count (obs_stats obs1) < u64_limit" "st_read_bytes (obs_stats obs1) < u64_limit"
      by (simp_all add: st record_read_counts saturating_add_def u64_limit_def)
    with IH Inr out(2) show ?thesis
      by (simp add: st record_read_counts saturating_add_assoc max.commute)
  qed
qed

section \<open>The averages of a snapshot\<close>

text \<open>The counters of the collector stay consistent with each other, also when they saturate.\<close>

definition stats_inv :: "DataSourceReadStatsState \<Rightarrow> bool" where
  "stats_inv st \<longleftrightarrow>
     st_read_count st < u64_limit \<and> st_read_bytes st < u64_limit
     \<and> st_read_bytes st \<le> st_read_count st * st_max_read_size st"

lemma saturated_sum:
  assumes "s \<le> k * m"
  shows "saturating_add s x \<le> saturating_add k 1 * max m x"
proof (cases "k + 1 < u64_limit")
  case True
  have "s + x \<le> k * max m x + max m x"
    using assms mult_le_mono2 [of m "max m x" k] by (intro add_mono) (auto intro: order_trans)
  with True show ?thesis by (auto simp: saturating_add_def)
next
  case False
  show ?thesis
  proof (cases "max m x = 0")
    case True
    then have "s = 0" "x = 0" using assms by auto
    then show ?thesis by (simp add: saturating_add_def)
  next
    case False': False
    then have "saturating_add k 1 \<le> saturating_add k 1 * max m x" by (cases "max m x") auto
    moreover have "saturating_add k 1 = u64_limit - 1" using False by (simp add: saturating_add_def)
    moreover have "saturating_add s x \<le> u64_limit - 1" by (simp add: saturating_add_def)
    ultimately show ?thesis by linarith
  qed
qed

lemma saturating_add_u64: "saturating_add a b < u64_limit"
  by (simp add: saturating_add_def u64_limit_def min_less_iff_disj)

lemma record_read_inv: "stats_inv st \<Longrightarrow> stats_inv (record_read st offset len micros)"
  using saturated_sum [of "st_read_bytes st" "st_read_count st" "st_max_read_size st" len]
  by (simp add: stats_inv_def record_read_counts saturating_add_u64)

lemma observed_run_inv: "stats_inv (obs_stats obs) \<Longrightarrow> stats_inv (obs_stats (snd (observed_run obs rs)))"
proof (induction obs rs rule: observed_run.induct)
  case (2 obs offset n micros rs)
  obtain r obs' where r: "observed_read_at obs micros offset n = (r, obs')" by force
  have "stats_inv (obs_stats obs')"
    using r "2.prems" record_read_inv by (auto simp: observed_read_at_def split: sum.splits)
  from "2.IH" [OF r [symmetric] this] show ?case
    by (cases "observed_run obs' rs") (simp add: r)
qed simp

lemma stats_inv_average: "stats_inv st \<Longrightarrow> sn_average_read_size (stats_snapshot st) \<le> sn_max_read_size (stats_snapshot st)"
  using div_le_mono [of "st_read_bytes st" "st_read_count st * st_max_read_size st" "st_read_count st"]
  by (auto simp: stats_inv_def stats_snapshot_def split: if_splits)

section \<open>Properties\<close>

text \<open>
  An observed source returns what the source behind it returns, errors included, and its
  collector counts the successful reads and their bytes exactly (up to the saturation of the
  64-bit counters) and knows the largest one; the average it reports is at most the maximum.
\<close>

theorem observed_reads_counted:
  "let (out, obs) = observed_run (observed_new inner) rs; snapshot = stats_snapshot (obs_stats obs)
   in out = map (\<lambda>(offset, n, _). ds_read_at inner offset n) rs
    \<and> sn_read_count snapshot = min (length (ok_bytes out)) (2 ^ 64 - 1)
    \<and> sn_read_bytes snapshot = min (sum_list (ok_bytes out)) (2 ^ 64 - 1)
    \<and> sn_max_read_size snapshot = fold max (ok_bytes out) 0
    \<and> sn_average_read_size snapshot \<le> sn_max_read_size snapshot"
proof -
  obtain out obs where run: "observed_run (observed_new inner) rs = (out, obs)" by force
  have "stats_inv (obs_stats (observed_new inner))"
    by (simp add: stats_inv_def observed_new_def stats_default_def u64_limit_def)
  from observed_run_inv [OF this, of rs] have "stats_inv (obs_stats obs)" by (simp add: run)
  moreover have "out = map (\<lambda>(offset, n, _). ds_read_at inner offset n) rs"
    using observed_run_results [of "observed_new inner" rs] unfolding run by (simp add: observed_new_def)
  ultimately show ?thesis
    using observed_run_stats [OF run] stats_inv_average [of "obs_stats obs"]
    unfolding run Let_def
    by (simp add: observed_new_def stats_default_def saturating_add_def stats_snapshot_def u64_limit_def)
qed

end
