(* ===== verification/Adler32.thy ===== *)
theory Adler32
  imports Prelude
begin

text \<open>
  The Adler-32 checksum of \<open>keramics-checksums/src/adler32.rs\<close>.  The context is a state record;
  \<open>update\<close> returns the context after it and \<open>finalize\<close> the checksum and the reset context.  The
  lemmas show that the folding modulus is the modulus, that no 32-bit sum wraps around within a
  block of 5552 bytes, and so that \<open>update\<close> computes Adler-32 as it is defined.
\<close>

section \<open>Adler-32\<close>

record Adler32Context =
  ad_initial_value :: u32
  ad_checksum :: u32

definition adler32_new :: "u32 \<Rightarrow> Adler32Context" where
  "adler32_new initial_value = \<lparr>ad_initial_value = initial_value, ad_checksum = initial_value\<rparr>"

definition adler32_finalize :: "Adler32Context \<Rightarrow> u32 \<times> Adler32Context" where
  "adler32_finalize ctx = (ad_checksum ctx, ctx\<lparr>ad_checksum := ad_initial_value ctx\<rparr>)"

text \<open>One folding step of \<open>mod_65521\<close>: \<open>2 ^ 16\<close> is 15 modulo 65521.\<close>

definition fold_65521 :: "u32 \<Rightarrow> u32" where
  "fold_65521 v =
     (let value_32bit = drop_bit 16 v
      in (v AND 0x0000ffff) + (push_bit 4 value_32bit - value_32bit))"

definition mod_65521 :: "u32 \<Rightarrow> u32" where
  "mod_65521 v =
     (let v1 = fold_65521 v;
          v2 = (if v1 > 65521 then fold_65521 v1 else v1)
      in if v2 \<ge> 65521 then v2 - 65521 else v2)"

text \<open>The byte loop: \<open>wrapping_add\<close> on both halves.\<close>

fun adler_bytes :: "u32 \<Rightarrow> u32 \<Rightarrow> byte list \<Rightarrow> u32 \<times> u32" where
  "adler_bytes lower upper [] = (lower, upper)"
| "adler_bytes lower upper (b # bs) =
     (let lower' = lower + ucast b in adler_bytes lower' (upper + lower') bs)"

definition adler_block :: "u32 \<times> u32 \<Rightarrow> byte list \<Rightarrow> u32 \<times> u32" where
  "adler_block s bs =
     (case adler_bytes (fst s) (snd s) bs of (lower, upper) \<Rightarrow> (mod_65521 lower, mod_65521 upper))"

text \<open>The two loops of \<open>update\<close>: full blocks of 5552 bytes, then the rest if there is one.\<close>

function adler_blocks :: "u32 \<times> u32 \<Rightarrow> byte list \<Rightarrow> u32 \<times> u32" where
  "adler_blocks s data =
     (if 5552 < length data then adler_blocks (adler_block s (take 5552 data)) (drop 5552 data)
      else if 0 < length data then adler_block s data
      else s)"
  by pat_completeness auto
termination
  by (relation "measure (\<lambda>(s, data). length data)") auto

declare adler_blocks.simps [simp del]

definition adler32_update :: "Adler32Context \<Rightarrow> byte list \<Rightarrow> Adler32Context" where
  "adler32_update ctx data =
     (let lower_word = ad_checksum ctx AND 0x0000ffff;
          upper_word = drop_bit 16 (ad_checksum ctx)
      in case adler_blocks (lower_word, upper_word) data of
           (lower, upper) \<Rightarrow> ctx\<lparr>ad_checksum := push_bit 16 upper OR lower\<rparr>)"

subsection \<open>The modulus\<close>

lemma unat_fold_65521: "unat (fold_65521 v) = unat v mod 2 ^ 16 + 15 * (unat v div 2 ^ 16)"
proof -
  define h where "h = unat v div 2 ^ 16"
  have v: "unat v < 2 ^ 32" using unsigned_less [of v, where 'a = nat] by simp
  then have h: "h < 2 ^ 16" unfolding h_def by (intro less_mult_imp_div_less) simp
  have d: "unat (drop_bit 16 v) = h"
    by (simp add: h_def drop_bit_eq_div unat_div)
  have p: "unat (push_bit 4 (drop_bit 16 v)) = h * 16"
  proof -
    have "unat (push_bit 4 (drop_bit 16 v)) = (h * 16) mod 2 ^ 32"
      using d by (simp add: push_bit_eq_mult unat_word_ariths)
    then show ?thesis using h by simp
  qed
  have s: "unat (push_bit 4 (drop_bit 16 v) - drop_bit 16 v) = 15 * h"
    using d p by (subst unat_sub) (auto simp: word_le_nat_alt)
  have a: "unat (v AND 0xffff) = unat v mod 2 ^ 16"
  proof -
    have "v AND 0xffff = take_bit 16 v"
      by (simp add: take_bit_eq_mask mask_eq_exp_minus_1)
    then show ?thesis by (simp add: take_bit_eq_mod unat_mod)
  qed
  have "unat v mod 2 ^ 16 < 2 ^ 16" by simp
  then have "unat (v AND 0xffff) + unat (push_bit 4 (drop_bit 16 v) - drop_bit 16 v) < 2 ^ 32"
    using a s h by simp
  then show ?thesis
    using a s by (simp add: fold_65521_def Let_def unat_word_ariths h_def)
qed

text \<open>The folding step on natural numbers: it keeps the residue and shrinks the value.\<close>

definition fold_nat :: "nat \<Rightarrow> nat" where
  "fold_nat n = n mod 65536 + 15 * (n div 65536)"

lemma fold_nat_cong: "fold_nat n mod 65521 = n mod 65521"
proof -
  have "n = n mod 65536 + 65536 * (n div 65536)" by simp
  then have "n = fold_nat n + (n div 65536) * 65521"
    unfolding fold_nat_def by linarith
  then show ?thesis by (metis mod_mult_self1)
qed

lemma fold_nat_bound:
  assumes "n < 65536 * Suc k"
  shows "fold_nat n \<le> 65535 + 15 * k"
proof -
  have "n div 65536 < Suc k"
    using assms by (intro less_mult_imp_div_less) (simp add: mult.commute)
  moreover have "n mod 65536 < 65536" by simp
  ultimately show ?thesis unfolding fold_nat_def by linarith
qed

lemma mod_65521_correct: "unat (mod_65521 v) = unat v mod 65521"
proof -
  define n1 where "n1 = fold_nat (unat v)"
  define n2 where "n2 = (if 65521 < n1 then fold_nat n1 else n1)"
  have v1: "unat (fold_65521 x) = fold_nat (unat x)" for x
    by (simp add: unat_fold_65521 fold_nat_def)
  define v2 where "v2 = (if 65521 < fold_65521 v then fold_65521 (fold_65521 v) else fold_65521 v)"
  have v2: "unat v2 = n2"
    by (simp add: v2_def n2_def n1_def v1 word_less_nat_alt)
  have "unat v < 65536 * Suc 65535" using unsigned_less [of v, where 'a = nat] by simp
  then have "n1 \<le> 65535 + 15 * 65535" unfolding n1_def by (rule fold_nat_bound)
  then have "n1 < 65536 * Suc 15" by simp
  then have "fold_nat n1 \<le> 65535 + 15 * 15" by (rule fold_nat_bound)
  then have n2: "n2 < 2 * 65521" by (auto simp: n2_def)
  have cong: "n2 mod 65521 = unat v mod 65521"
    by (auto simp: n2_def n1_def fold_nat_cong)
  show ?thesis
  proof (cases "n2 < 65521")
    case True
    then have "mod_65521 v = v2"
      using v2 by (simp add: mod_65521_def v2_def [symmetric] word_le_nat_alt Let_def)
    with True v2 cong show ?thesis by simp
  next
    case False
    then have "mod_65521 v = v2 - 65521"
      using v2 by (simp add: mod_65521_def v2_def [symmetric] word_le_nat_alt Let_def)
    moreover have "unat (v2 - 65521) = n2 - 65521"
      using False v2 by (subst unat_sub) (auto simp: word_le_nat_alt)
    moreover have "n2 mod 65521 = n2 - 65521"
      using False n2 by (simp add: le_mod_geq)
    ultimately show ?thesis using cong by simp
  qed
qed

subsection \<open>Equivalence with the definition of Adler-32\<close>

text \<open>The checksum as it is defined, with a reduction after every byte.\<close>

fun adler_spec :: "nat \<Rightarrow> nat \<Rightarrow> byte list \<Rightarrow> nat \<times> nat" where
  "adler_spec a b [] = (a, b)"
| "adler_spec a b (x # xs) =
     (let a' = (a + unat x) mod 65521 in adler_spec a' ((b + a') mod 65521) xs)"

text \<open>The sums of the byte loop without reduction and without wrap-around.\<close>

fun adler_sums :: "nat \<Rightarrow> nat \<Rightarrow> byte list \<Rightarrow> nat \<times> nat" where
  "adler_sums a b [] = (a, b)"
| "adler_sums a b (x # xs) = adler_sums (a + unat x) (b + (a + unat x)) xs"

lemma adler_sums_mono: "a \<le> fst (adler_sums a b bs)" "b \<le> snd (adler_sums a b bs)"
proof (induction bs arbitrary: a b)
  case (Cons x bs)
  { case 1 show ?case using Cons.IH(1) [of "a + unat x" "b + (a + unat x)"] by simp }
  { case 2 show ?case using Cons.IH(2) [of "b + (a + unat x)" "a + unat x"] by simp }
qed simp_all

lemma adler_sums_bound:
  "fst (adler_sums a b bs) \<le> a + 255 * length bs
   \<and> 2 * snd (adler_sums a b bs) \<le> 2 * b + 2 * length bs * a + 255 * (length bs * (length bs + 1))"
proof (induction bs arbitrary: a b)
  case Nil
  then show ?case by simp
next
  case (Cons x bs)
  have x: "unat x \<le> 255" using unat_byte_lt [of x] by simp
  let ?n = "length bs"
  have "2 * snd (adler_sums a b (x # bs))
      \<le> 2 * (b + (a + unat x)) + 2 * ?n * (a + unat x) + 255 * (?n * (?n + 1))"
    using Cons.IH [of "a + unat x" "b + (a + unat x)"] by simp
  also have "\<dots> \<le> 2 * (b + (a + 255)) + 2 * ?n * (a + 255) + 255 * (?n * (?n + 1))"
    using x by (intro add_mono mult_le_mono) auto
  also have "\<dots> = 2 * b + 2 * length (x # bs) * a + 255 * (length (x # bs) * (length (x # bs) + 1))"
    by (simp add: algebra_simps)
  finally show ?case
    using Cons.IH [of "a + unat x" "b + (a + unat x)"] x by simp
qed

lemma adler_bytes_sums:
  assumes "fst (adler_sums (unat lower) (unat upper) bs) < 2 ^ 32"
    and "snd (adler_sums (unat lower) (unat upper) bs) < 2 ^ 32"
  shows "map_prod unat unat (adler_bytes lower upper bs) = adler_sums (unat lower) (unat upper) bs"
  using assms
proof (induction bs arbitrary: lower upper)
  case Nil
  then show ?case by simp
next
  case (Cons x bs)
  have x: "unat (ucast x :: u32) = unat x"
    by (simp add: unsigned_ucast_eq take_bit_eq_mod unat_byte_lt order_less_trans [OF unat_byte_lt])
  have l: "unat (lower + ucast x) = unat lower + unat x"
    using adler_sums_mono(1) [of "unat lower + unat x" "unat upper + (unat lower + unat x)" bs]
      Cons.prems(1) x by (simp add: unat_word_ariths)
  have u: "unat (upper + (lower + ucast x)) = unat upper + (unat lower + unat x)"
    using adler_sums_mono(2) [of "unat upper + (unat lower + unat x)" "unat lower + unat x" bs]
      Cons.prems(2) l by (simp add: unat_word_ariths)
  show ?case
    using Cons.IH [of "lower + ucast x" "upper + (lower + ucast x)"] Cons.prems l u
    by (simp add: Let_def)
qed

lemma adler_block_bound:
  assumes "length bs \<le> 5552" "a < 65536" "b < 65536"
  shows "fst (adler_sums a b bs) < 2 ^ 32" "snd (adler_sums a b bs) < 2 ^ 32"
proof -
  have "2 * b + 2 * length bs * a + 255 * (length bs * (length bs + 1))
      \<le> 2 * 65535 + 2 * 5552 * 65535 + 255 * (5552 * (5552 + 1))"
    using assms by (intro add_mono mult_le_mono) auto
  with adler_sums_bound [of a b bs] show "snd (adler_sums a b bs) < 2 ^ 32" by simp
  show "fst (adler_sums a b bs) < 2 ^ 32"
    using adler_sums_bound [of a b bs] assms by simp
qed

lemma adler_spec_mod:
  "bs \<noteq> [] \<Longrightarrow> adler_spec (a mod 65521) (b mod 65521) bs = adler_spec a b bs"
  by (cases bs) (simp_all add: Let_def mod_simps)

lemma adler_spec_sums:
  "bs \<noteq> [] \<Longrightarrow> adler_spec a b bs = map_prod (\<lambda>n. n mod 65521) (\<lambda>n. n mod 65521) (adler_sums a b bs)"
proof (induction bs arbitrary: a b)
  case (Cons x bs)
  have "adler_spec a b (x # bs)
      = adler_spec ((a + unat x) mod 65521) ((b + (a + unat x)) mod 65521) bs"
    by (simp add: Let_def mod_simps)
  then show ?case
    using Cons.IH adler_spec_mod [of bs] by (cases bs) auto
qed simp

lemma adler_block_spec:
  assumes "bs \<noteq> []" "length bs \<le> 5552" "unat (fst s) < 65536" "unat (snd s) < 65536"
  shows "map_prod unat unat (adler_block s bs) = adler_spec (unat (fst s)) (unat (snd s)) bs"
proof -
  have "map_prod unat unat (adler_bytes (fst s) (snd s) bs) = adler_sums (unat (fst s)) (unat (snd s)) bs"
    using adler_bytes_sums adler_block_bound assms by simp
  then have "adler_spec (unat (fst s)) (unat (snd s)) bs
      = map_prod (\<lambda>n. n mod 65521) (\<lambda>n. n mod 65521) (map_prod unat unat (adler_bytes (fst s) (snd s) bs))"
    using adler_spec_sums [OF assms(1)] by simp
  then show ?thesis
    by (cases "adler_bytes (fst s) (snd s) bs") (simp add: adler_block_def mod_65521_correct)
qed

lemma adler_spec_append:
  "adler_spec a b (xs @ ys) = (case adler_spec a b xs of (a', b') \<Rightarrow> adler_spec a' b' ys)"
  by (induction xs arbitrary: a b) (simp_all add: Let_def)

lemma adler_spec_bound:
  "bs \<noteq> [] \<Longrightarrow> fst (adler_spec a b bs) < 65521 \<and> snd (adler_spec a b bs) < 65521"
  using adler_spec_sums [of bs a b] by simp

lemma adler_blocks_spec:
  assumes "unat (fst s) < 65536" "unat (snd s) < 65536"
  shows "map_prod unat unat (adler_blocks s data) = adler_spec (unat (fst s)) (unat (snd s)) data"
  using assms
proof (induction s data rule: adler_blocks.induct)
  case (1 s data)
  consider "data = []" | "data \<noteq> []" "length data \<le> 5552" | "5552 < length data" by linarith
  then show ?case
  proof cases
    case 1
    then show ?thesis by (cases s) (simp add: adler_blocks.simps)
  next
    case 2
    then show ?thesis
      using adler_block_spec [OF 2 "1.prems"] by (simp add: adler_blocks.simps [of s data])
  next
    case 3
    let ?s = "adler_block s (take 5552 data)"
    have blk: "map_prod unat unat ?s = adler_spec (unat (fst s)) (unat (snd s)) (take 5552 data)"
      using 3 "1.prems" by (intro adler_block_spec) auto
    then have st: "adler_spec (unat (fst s)) (unat (snd s)) (take 5552 data) = (unat (fst ?s), unat (snd ?s))"
      by (metis map_prod_simp prod.collapse)
    have "take 5552 data \<noteq> []" using 3 by auto
    from adler_spec_bound [OF this, of "unat (fst s)" "unat (snd s)"] st
    have "unat (fst ?s) < 65536" "unat (snd ?s) < 65536" by auto
    then have "map_prod unat unat (adler_blocks ?s (drop 5552 data))
        = adler_spec (unat (fst ?s)) (unat (snd ?s)) (drop 5552 data)"
      using "1.IH"(1) [OF 3] by blast
    then show ?thesis
      using 3 st adler_spec_append [of "unat (fst s)" "unat (snd s)" "take 5552 data" "drop 5552 data"]
      by (simp add: adler_blocks.simps [of s data])
  qed
qed

text \<open>Packing the two halves into the checksum word and taking them apart again.\<close>

lemma adler_halves:
  fixes w :: u32
  shows "unat (w AND 0xffff) = unat w mod 65536" "unat (drop_bit 16 w) = unat w div 65536"
proof -
  have "w AND 0xffff = take_bit 16 w" by (simp add: take_bit_eq_mask mask_eq_exp_minus_1)
  then show "unat (w AND 0xffff) = unat w mod 65536" by (simp add: take_bit_eq_mod unat_mod)
  show "unat (drop_bit 16 w) = unat w div 65536" by (simp add: drop_bit_eq_div unat_div)
qed

lemma adler_pack:
  fixes upper lower :: u32
  assumes "unat upper < 65536" "unat lower < 65536"
  shows "unat (push_bit 16 upper OR lower) = unat upper * 65536 + unat lower"
proof -
  have "push_bit 16 upper AND lower = 0"
  proof (rule bit_word_eqI)
    fix n
    have "unat (take_bit 16 lower) = unat lower"
      using assms(2) by (simp add: take_bit_eq_mod unat_mod)
    then have "lower = take_bit 16 lower" by (simp add: word_unat_eq_iff)
    then show "bit (push_bit 16 upper AND lower) n = bit 0 n"
      by (metis bit_and_iff bit_push_bit_iff bit_take_bit_iff bit_0_eq bot_apply not_le bot_bool_def)
  qed
  then have "push_bit 16 upper OR lower = push_bit 16 upper + lower"
    by (simp add: disjunctive_add_eq_or)
  then show ?thesis
    using assms by (simp add: push_bit_eq_mult unat_word_ariths)
qed

text \<open>The checksum after an update, from the two halves of the checksum before it.\<close>

definition adler_checksum :: "nat \<Rightarrow> byte list \<Rightarrow> nat" where
  "adler_checksum c data =
     (case adler_spec (c mod 65536) (c div 65536) data of (a, b) \<Rightarrow> b * 65536 + a)"

lemma adler32_update_spec:
  "unat (ad_checksum (adler32_update ctx data)) = adler_checksum (unat (ad_checksum ctx)) data"
proof -
  define l where "l = ad_checksum ctx AND 0xffff"
  define u where "u = drop_bit 16 (ad_checksum ctx)"
  have "unat (ad_checksum ctx) < 65536 * 65536"
    using unsigned_less [of "ad_checksum ctx", where 'a = nat] by simp
  then have halves: "unat l < 65536" "unat u < 65536"
    by (auto simp: l_def u_def adler_halves intro: less_mult_imp_div_less)
  obtain l' u' where r: "adler_blocks (l, u) data = (l', u')" by fastforce
  then have spec: "adler_spec (unat l) (unat u) data = (unat l', unat u')"
    using adler_blocks_spec [of "(l, u)" data] halves by simp
  have "unat l' < 65536 \<and> unat u' < 65536"
    using spec halves adler_spec_bound [of data "unat l" "unat u"] by (cases "data = []") auto
  then have "unat (push_bit 16 u' OR l') = unat u' * 65536 + unat l'"
    by (intro adler_pack) auto
  then show ?thesis
    using r spec by (simp add: adler32_update_def adler_checksum_def l_def u_def adler_halves)
qed

text \<open>Updating in pieces is updating at once, since a state of the specification is its halves.\<close>

lemma adler_spec_halves:
  assumes "a < 65536" "b < 65536" "adler_spec a b xs = (a', b')"
  shows "a' < 65536" "b' < 65536"
  using assms adler_spec_bound [of xs a b] by (cases "xs = []"; force)+

lemma adler_checksum_append:
  assumes "c < 2 ^ 32"
  shows "adler_checksum (adler_checksum c xs) ys = adler_checksum c (xs @ ys)"
proof -
  obtain a b where s: "adler_spec (c mod 65536) (c div 65536) xs = (a, b)" by fastforce
  have "c div 65536 < 65536" using assms by (intro less_mult_imp_div_less) simp
  then have "a < 65536" "b < 65536"
    using adler_spec_halves [OF _ _ s] by simp_all
  then show ?thesis by (simp add: adler_checksum_def s adler_spec_append)
qed

section \<open>Properties\<close>

lemma adler32_updates:
  "unat (ad_checksum (foldl adler32_update ctx chunks)) = adler_checksum (unat (ad_checksum ctx)) (concat chunks)"
proof (induction chunks arbitrary: ctx)
  case Nil
  show ?case using adler32_update_spec [of ctx "[]"]
    by (simp add: adler_checksum_def)
next
  case (Cons chunk chunks)
  have "unat (ad_checksum ctx) < 2 ^ 32" using unsigned_less [of "ad_checksum ctx", where 'a = nat] by simp
  with Cons show ?case by (simp add: adler32_update_spec adler_checksum_append)
qed

text \<open>
  (C37) The Adler-32 context computes the definition of the checksum, the two running sums modulo
  65521 after every byte, for any split of the data into updates: reducing only once per block of
  5552 bytes never overflows the 32-bit sums.
\<close>

theorem adler32_matches_definition:
  "unat (fst (adler32_finalize (foldl adler32_update (adler32_new initial_value) chunks)))
     = adler_checksum (unat initial_value) (concat chunks)"
  using adler32_updates [of "adler32_new initial_value" chunks]
  by (simp add: adler32_finalize_def adler32_new_def)

text \<open>The folding in \<open>mod_65521\<close>, which avoids a division, is the remainder modulo 65521 on every 32-bit value.\<close>

theorem mod_65521_is_remainder: "unat (mod_65521 v) = unat v mod 65521"
  by (rule mod_65521_correct)

end
