(* ===== verification/Volume_System.thy ===== *)
theory Volume_System
  imports Memory_Source "HOL-Library.Multiset"
begin

text \<open>
  What the volume systems share: ranges of bytes that do not overlap, and the contract of a
  volume system.  A volume system turns a source into a list of
  partitions, each a range of the source.  \<open>volume_system\<close> promises that no two partitions share a
  byte; \<open>bounded_volume_system\<close> also that every partition lies inside the source, which is what
  makes the slice source a partition opens a well-behaved view of the bytes of that partition.
\<close>

section \<open>Ranges\<close>

type_synonym range = "nat \<times> nat"  \<comment> \<open>offset and size\<close>

definition range_inside :: "nat \<Rightarrow> range \<Rightarrow> bool" where
  "range_inside n r \<longleftrightarrow> fst r + snd r \<le> n"

definition ranges_apart :: "range \<Rightarrow> range \<Rightarrow> bool" where
  "ranges_apart a b \<longleftrightarrow> fst a + snd a \<le> fst b \<or> fst b + snd b \<le> fst a"

lemma ranges_apart_sym: "ranges_apart a b \<Longrightarrow> ranges_apart b a"
  by (auto simp: ranges_apart_def)

text \<open>No two ranges of the list share a byte.\<close>

definition ranges_disjoint :: "range list \<Rightarrow> bool" where
  "ranges_disjoint rs \<longleftrightarrow> sorted_wrt ranges_apart rs"

lemma sorted_wrt_mset:
  assumes sym: "\<And>a b. R a b \<Longrightarrow> R b a"
  shows "mset xs = mset ys \<Longrightarrow> sorted_wrt R xs \<Longrightarrow> sorted_wrt R ys"
proof (induction xs arbitrary: ys)
  case (Cons x xs)
  from Cons.prems(1) have "x \<in> set ys" by (metis list.set_intros(1) set_mset_mset)
  then obtain us vs where ys: "ys = us @ x # vs" by (meson split_list)
  with Cons.prems(1) have perm: "mset xs = mset (us @ vs)" by simp
  then have "sorted_wrt R (us @ vs)" using Cons.IH Cons.prems(2) by simp
  moreover have "\<forall>y \<in> set (us @ vs). R x y"
    using Cons.prems(2) perm by (metis set_mset_mset sorted_wrt.simps(2))
  ultimately show ?case using sym by (auto simp: ys sorted_wrt_append)
qed simp

lemma ranges_disjoint_mset: "mset rs = mset rs' \<Longrightarrow> ranges_disjoint rs \<Longrightarrow> ranges_disjoint rs'"
  unfolding ranges_disjoint_def by (rule sorted_wrt_mset [OF ranges_apart_sym])

lemma ranges_disjoint_append:
  "ranges_disjoint (rs @ [r]) \<longleftrightarrow> ranges_disjoint rs \<and> (\<forall>x \<in> set rs. ranges_apart x r)"
  by (auto simp: ranges_disjoint_def sorted_wrt_append)

lemma ranges_disjoint_byte:
  assumes "ranges_disjoint rs" "i < length rs" "j < length rs"
    and "fst (rs ! i) \<le> k \<and> k < fst (rs ! i) + snd (rs ! i)"
    and "fst (rs ! j) \<le> k \<and> k < fst (rs ! j) + snd (rs ! j)"
  shows "i = j"
proof (rule ccontr)
  assume "i \<noteq> j"
  then have "ranges_apart (rs ! i) (rs ! j)"
    using assms(1-3) ranges_apart_sym
    by (metis linorder_neqE_nat ranges_disjoint_def sorted_wrt_nth_less)
  with assms(4,5) show False by (auto simp: ranges_apart_def)
qed

section \<open>The contract of a volume system\<close>

locale volume_system =
  fixes open_volume :: "data_source \<Rightarrow> 'v result"
    and ranges :: "'v \<Rightarrow> range list"
  assumes open_disjoint: "open_volume ds = Ok v \<Longrightarrow> ranges_disjoint (ranges v)"
begin

lemma byte_in_one_partition:
  assumes "open_volume ds = Ok v" "i < length (ranges v)" "j < length (ranges v)"
    and "fst (ranges v ! i) \<le> k \<and> k < fst (ranges v ! i) + snd (ranges v ! i)"
    and "fst (ranges v ! j) \<le> k \<and> k < fst (ranges v ! j) + snd (ranges v ! j)"
  shows "i = j"
  using ranges_disjoint_byte [OF open_disjoint] assms by blast

end

locale bounded_volume_system = volume_system +
  assumes open_inside:
    "open_volume ds = Ok v \<Longrightarrow> ds_size ds = Ok n \<Longrightarrow> r \<in> set (ranges v) \<Longrightarrow> range_inside n r"
begin

lemma partition_view:
  assumes "byte_source ds content" "open_volume ds = Ok v" "r \<in> set (ranges v)"
  shows "slice_view ds content (fst r) (snd r)"
proof -
  have "range_inside (length content) r"
    using assms open_inside byte_source.size_content by blast
  with assms(1) show ?thesis
    by (simp add: slice_view_def slice_view_axioms_def range_inside_def)
qed

text \<open>The source of a partition holds the bytes of the partition.\<close>

lemma partition_source:
  assumes "byte_source ds content" "open_volume ds = Ok v" "r \<in> set (ranges v)"
  shows "byte_source (slice_source (slice_new ds (fst r) (snd r))) (subslice (fst r) (snd r) content)"
  by (rule slice_view.view_byte_source [OF partition_view [OF assms]])

lemma partition_source_total:
  assumes "total_source ds content" "open_volume ds = Ok v" "r \<in> set (ranges v)"
  shows "total_source (slice_source (slice_new ds (fst r) (snd r))) (subslice (fst r) (snd r) content)"
  by (intro total_slice_view.view_total_source total_slice_view.intro partition_view
      total_source.axioms(1)) (use assms in \<open>auto simp: total_source_def\<close>)

end

end
