(* ===== verification/Mbr.thy ===== *)
theory Mbr
  imports Volume_System
begin

text \<open>
  The Master Boot Record volume system (\<open>volume/mbr/volume_system.rs\<close>, \<open>partition.rs\<close>): the boot
  record, the primary partitions, the chain of extended boot records and the validation of the
  partitions.  The lemmas show that the partitions of an opened volume system do not overlap, lie
  inside the source, start and end on sectors and are numbered in order, that the walk over the
  chain visits at most 1024 records, and that it returns the partitions the chain describes.
\<close>

section \<open>Partitions (partition.rs)\<close>

record MbrPartition =
  mbr_entry_index :: nat
  mbr_offset :: nat
  mbr_size :: nat
  mbr_partition_type :: byte
  mbr_flags :: byte

definition mbr_partition_new :: "nat \<Rightarrow> nat \<Rightarrow> nat \<Rightarrow> byte \<Rightarrow> byte \<Rightarrow> MbrPartition" where
  "mbr_partition_new entry_index offset part_size partition_type flags =
     \<lparr>mbr_entry_index = entry_index, mbr_offset = offset, mbr_size = part_size,
      mbr_partition_type = partition_type, mbr_flags = flags\<rparr>"

definition mbr_is_bootable :: "MbrPartition \<Rightarrow> bool" where
  "mbr_is_bootable p \<longleftrightarrow> mbr_flags p AND 0x80 = 0x80"

definition mbr_open_source :: "MbrPartition \<Rightarrow> data_source \<Rightarrow> data_source" where
  "mbr_open_source p source = slice_source (slice_new source (mbr_offset p) (mbr_size p))"

section \<open>Boot records\<close>

record MbrPartitionEntry =
  mbe_flags :: byte
  mbe_partition_type :: byte
  mbe_start_address_lba :: nat
  mbe_number_of_sectors :: nat

record MbrBootRecord =
  mbr_disk_identity :: nat
  mbr_partition_entries :: "MbrPartitionEntry list"

definition mbr_entry_read_data :: "byte list \<Rightarrow> MbrPartitionEntry result" where
  "mbr_entry_read_data data =
     (if length data \<noteq> 16 then Err (Volume_error Mbr_entry_size)
      else Ok \<lparr>mbe_flags = data ! 0, mbe_partition_type = data ! 4,
               mbe_start_address_lba = u32_le 8 data, mbe_number_of_sectors = u32_le 12 data\<rparr>)"

definition mbr_entry_is_empty :: "MbrPartitionEntry \<Rightarrow> bool" where
  "mbr_entry_is_empty e \<longleftrightarrow> mbe_partition_type e = 0 \<or> mbe_number_of_sectors e = 0"

definition mbr_entry_is_extended :: "MbrPartitionEntry \<Rightarrow> bool" where
  "mbr_entry_is_extended e \<longleftrightarrow> mbe_partition_type e = 0x05 \<or> mbe_partition_type e = 0x0f"

definition mbr_boot_record_read_at :: "data_source \<Rightarrow> nat \<Rightarrow> MbrBootRecord result" where
  "mbr_boot_record_read_at source offset =
     and_then (read_exact_at source offset 512) (\<lambda>data.
       if subslice 510 2 data \<noteq> [0x55, 0xaa] then Err (Volume_error Mbr_boot_signature)
       else
         and_then (try_map (\<lambda>entry_index. mbr_entry_read_data (subslice (446 + entry_index * 16) 16 data))
                    [0, 1, 2, 3]) (\<lambda>partition_entries.
           Ok \<lparr>mbr_disk_identity = u32_le 440 data, mbr_partition_entries = partition_entries\<rparr>))"

section \<open>The volume system\<close>

record MbrVolumeSystem =
  mbr_bytes_per_sector :: nat
  mbr_identity :: nat
  mbr_partitions :: "MbrPartition list"

definition mbr_supported_bytes_per_sector :: "nat list" where
  "mbr_supported_bytes_per_sector = [512, 4096, 2048, 1024]"

definition mbr_max_logical_partitions :: nat where
  "mbr_max_logical_partitions = 1024"

definition mbr_lba_to_offset :: "nat \<Rightarrow> nat \<Rightarrow> nat result" where
  "mbr_lba_to_offset start_address_lba bytes_per_sector =
     ok_or (Volume_error Mbr_offset_overflow) (checked_mul start_address_lba bytes_per_sector)"

definition mbr_partition_from_entry :: "nat \<Rightarrow> MbrPartitionEntry \<Rightarrow> nat \<Rightarrow> nat \<Rightarrow> MbrPartition result" where
  "mbr_partition_from_entry entry_index partition_entry offset bytes_per_sector =
     and_then (ok_or (Volume_error Mbr_partition_size_overflow)
                (checked_mul (mbe_number_of_sectors partition_entry) bytes_per_sector)) (\<lambda>part_size.
       Ok (mbr_partition_new entry_index offset part_size (mbe_partition_type partition_entry)
             (mbe_flags partition_entry)))"

text \<open>The loop over the entries of an extended boot record: the logical entry and the link.\<close>

fun mbr_scan_ebr :: "nat \<Rightarrow> nat \<Rightarrow> MbrPartitionEntry list \<Rightarrow> MbrPartitionEntry option \<Rightarrow> nat option
    \<Rightarrow> (MbrPartitionEntry option \<times> nat option) result" where
  "mbr_scan_ebr bytes_per_sector extended_offset [] logical next_ebr = Ok (logical, next_ebr)"
| "mbr_scan_ebr bytes_per_sector extended_offset (e # es) logical next_ebr =
     (if mbr_entry_is_empty e then mbr_scan_ebr bytes_per_sector extended_offset es logical next_ebr
      else if mbr_entry_is_extended e then
        (if next_ebr \<noteq> None then Err (Volume_error Mbr_two_extended_links)
         else and_then (mbr_lba_to_offset (mbe_start_address_lba e) bytes_per_sector) (\<lambda>relative.
              and_then (ok_or (Volume_error Mbr_extended_offset_overflow)
                         (checked_add extended_offset relative)) (\<lambda>next_offset.
                mbr_scan_ebr bytes_per_sector extended_offset es logical (Some next_offset))))
      else if logical \<noteq> None then Err (Volume_error Mbr_two_logical_entries)
      else mbr_scan_ebr bytes_per_sector extended_offset es (Some e) next_ebr)"

text \<open>
  One extended boot record: the partition it adds and the record it links to.  The \<open>HashSet\<close> of
  the offsets already visited is a list without duplicates.
\<close>

definition mbr_read_ebr :: "data_source \<Rightarrow> nat \<Rightarrow> nat \<Rightarrow> nat \<Rightarrow> nat \<Rightarrow> (MbrPartition \<times> nat option) result" where
  "mbr_read_ebr source bytes_per_sector extended_offset current_ebr_offset next_partition_index =
     and_then (mbr_boot_record_read_at source current_ebr_offset) (\<lambda>boot_record.
     and_then (mbr_scan_ebr bytes_per_sector extended_offset (mbr_partition_entries boot_record) None None)
       (\<lambda>(logical_entry, next_ebr_offset).
          case logical_entry of
            None \<Rightarrow> Err (Volume_error Mbr_no_logical_entry)
          | Some logical_entry \<Rightarrow>
              and_then (mbr_lba_to_offset (mbe_start_address_lba logical_entry) bytes_per_sector) (\<lambda>relative.
              and_then (ok_or (Volume_error Mbr_logical_offset_overflow)
                         (checked_add current_ebr_offset relative)) (\<lambda>logical_partition_offset.
              and_then (mbr_partition_from_entry next_partition_index logical_entry
                         logical_partition_offset bytes_per_sector) (\<lambda>partition.
                Ok (partition, next_ebr_offset))))))"

function mbr_read_chain :: "data_source \<Rightarrow> nat \<Rightarrow> nat \<Rightarrow> nat list \<Rightarrow> nat \<Rightarrow> nat \<Rightarrow> MbrPartition list
    \<Rightarrow> (nat \<times> MbrPartition list) result" where
  "mbr_read_chain source bytes_per_sector extended_offset visited_offsets current_ebr_offset
       next_partition_index partitions =
     (if length visited_offsets < mbr_max_logical_partitions then
        if current_ebr_offset \<in> set visited_offsets then Err (Volume_error Mbr_chain_cycle)
        else
          and_then (mbr_read_ebr source bytes_per_sector extended_offset current_ebr_offset next_partition_index)
            (\<lambda>(partition, next_ebr_offset).
               case next_ebr_offset of
                 Some next_ebr_offset \<Rightarrow>
                   mbr_read_chain source bytes_per_sector extended_offset
                     (current_ebr_offset # visited_offsets) next_ebr_offset
                     (next_partition_index + 1) (partitions @ [partition])
               | None \<Rightarrow> Ok (next_partition_index + 1, partitions @ [partition]))
      else Err (Volume_error Mbr_too_many_logical))"
  by pat_completeness auto
termination
  by (relation "measure (\<lambda>(_, _, _, visited, _). mbr_max_logical_partitions - length visited)") auto

declare mbr_read_chain.simps [simp del]

definition mbr_read_extended_partition_chain :: "data_source \<Rightarrow> nat \<Rightarrow> nat \<Rightarrow> nat \<Rightarrow> MbrPartition list
    \<Rightarrow> (nat \<times> MbrPartition list) result" where
  "mbr_read_extended_partition_chain source bytes_per_sector extended_offset next_partition_index partitions =
     mbr_read_chain source bytes_per_sector extended_offset [] extended_offset next_partition_index partitions"

text \<open>The loop over the entries of the boot record in \<open>open_with_bytes_per_sector\<close>.\<close>

fun mbr_scan_primary :: "nat \<Rightarrow> MbrPartitionEntry list \<Rightarrow> nat \<Rightarrow> nat option \<Rightarrow> MbrPartition list
    \<Rightarrow> (nat \<times> nat option \<times> MbrPartition list) result" where
  "mbr_scan_primary bytes_per_sector [] next_index extended partitions = Ok (next_index, extended, partitions)"
| "mbr_scan_primary bytes_per_sector (e # es) next_index extended partitions =
     (if mbr_entry_is_empty e then mbr_scan_primary bytes_per_sector es next_index extended partitions
      else if mbr_entry_is_extended e then
        (if extended \<noteq> None then Err (Volume_error Mbr_two_extended_entries)
         else and_then (mbr_lba_to_offset (mbe_start_address_lba e) bytes_per_sector) (\<lambda>offset.
                mbr_scan_primary bytes_per_sector es next_index (Some offset) partitions))
      else
        and_then (mbr_lba_to_offset (mbe_start_address_lba e) bytes_per_sector) (\<lambda>offset.
        and_then (mbr_partition_from_entry next_index e offset bytes_per_sector) (\<lambda>partition.
          mbr_scan_primary bytes_per_sector es (next_index + 1) extended (partitions @ [partition]))))"

fun mbr_check_sorted :: "nat \<Rightarrow> nat \<Rightarrow> MbrPartition list \<Rightarrow> unit result" where
  "mbr_check_sorted src_size last_end_offset [] = Ok ()"
| "mbr_check_sorted src_size last_end_offset (p # ps) =
     (if mbr_offset p < last_end_offset then Err (Volume_error Mbr_overlap)
      else
        and_then (ok_or (Volume_error Mbr_end_offset_overflow) (checked_add (mbr_offset p) (mbr_size p)))
          (\<lambda>end_offset.
             if src_size < end_offset then Err (Volume_error Mbr_out_of_bounds)
             else mbr_check_sorted src_size end_offset ps))"

definition mbr_validate_partitions :: "MbrPartition list \<Rightarrow> nat \<Rightarrow> unit result" where
  "mbr_validate_partitions partitions src_size =
     mbr_check_sorted src_size 0 (sort_key mbr_offset partitions)"

definition mbr_open_with_bytes_per_sector :: "data_source \<Rightarrow> nat \<Rightarrow> MbrVolumeSystem result" where
  "mbr_open_with_bytes_per_sector source bytes_per_sector =
     (if bytes_per_sector \<notin> set mbr_supported_bytes_per_sector then Err (Volume_error Mbr_bytes_per_sector)
      else
        and_then (ds_size source) (\<lambda>src_size.
        and_then (mbr_boot_record_read_at source 0) (\<lambda>boot_record.
        and_then (mbr_scan_primary bytes_per_sector (mbr_partition_entries boot_record) 0 None [])
          (\<lambda>(next_index, extended, partitions).
        and_then (case extended of
                    Some extended_offset \<Rightarrow>
                      mbr_read_extended_partition_chain source bytes_per_sector extended_offset
                        next_index partitions
                  | None \<Rightarrow> Ok (next_index, partitions)) (\<lambda>(_, partitions).
        and_then (mbr_validate_partitions partitions src_size) (\<lambda>_.
          Ok \<lparr>mbr_bytes_per_sector = bytes_per_sector,
              mbr_identity = mbr_disk_identity boot_record,
              mbr_partitions = partitions\<rparr>))))))"

definition mbr_open :: "data_source \<Rightarrow> MbrVolumeSystem result" where
  "mbr_open source =
     open_first (mbr_open_with_bytes_per_sector source) (Volume_error Mbr_undetermined_bytes_per_sector)
       mbr_supported_bytes_per_sector"

definition mbr_partition :: "MbrVolumeSystem \<Rightarrow> nat \<Rightarrow> MbrPartition result" where
  "mbr_partition v partition_index =
     ok_or (Volume_error (Mbr_no_partition partition_index)) (get_index (mbr_partitions v) partition_index)"

section \<open>The validation\<close>

definition mbr_ranges :: "MbrVolumeSystem \<Rightarrow> range list" where
  "mbr_ranges v = map (\<lambda>p. (mbr_offset p, mbr_size p)) (mbr_partitions v)"

lemma mbr_check_sorted_Ok:
  "mbr_check_sorted n last_end ps = Ok u \<Longrightarrow>
     sorted_wrt (\<lambda>p q. mbr_offset p + mbr_size p \<le> mbr_offset q) ps
     \<and> (\<forall>p \<in> set ps. last_end \<le> mbr_offset p \<and> mbr_offset p + mbr_size p \<le> n)"
proof (induction n last_end ps rule: mbr_check_sorted.induct)
  case (2 n last_end p ps)
  then have "sorted_wrt (\<lambda>p q. mbr_offset p + mbr_size p \<le> mbr_offset q) ps
      \<and> (\<forall>q \<in> set ps. mbr_offset p + mbr_size p \<le> mbr_offset q \<and> mbr_offset q + mbr_size q \<le> n)"
    by (simp add: result_simps)
  moreover have "last_end \<le> mbr_offset p" "mbr_offset p + mbr_size p \<le> n"
    using "2.prems" by (simp_all add: result_simps)
  ultimately show ?case by fastforce
qed simp

lemma mbr_validate_Ok:
  assumes "mbr_validate_partitions ps n = Ok u"
  shows "ranges_disjoint (map (\<lambda>p. (mbr_offset p, mbr_size p)) ps)"
    and "p \<in> set ps \<Longrightarrow> mbr_offset p + mbr_size p \<le> n"
proof -
  let ?r = "\<lambda>p. (mbr_offset p, mbr_size p)"
  note ok = mbr_check_sorted_Ok [OF assms [unfolded mbr_validate_partitions_def]]
  then have "ranges_disjoint (map ?r (sort_key mbr_offset ps))"
    unfolding ranges_disjoint_def sorted_wrt_map
    by (rule sorted_wrt_mono_rel [rotated, OF conjunct1]) (simp add: ranges_apart_def)
  then show "ranges_disjoint (map ?r ps)" by (rule ranges_disjoint_mset [rotated]) simp
  show "mbr_offset p + mbr_size p \<le> n" if "p \<in> set ps" using ok that by simp
qed

text \<open>The validation accepts exactly the partitions that lie inside the source and do not overlap.\<close>

lemma mbr_check_sorted_complete:
  assumes "sorted_wrt (\<lambda>p q. mbr_offset p + mbr_size p \<le> mbr_offset q) ps" "n < u64_limit"
    and "\<forall>p \<in> set ps. last_end \<le> mbr_offset p \<and> mbr_offset p + mbr_size p \<le> n"
  shows "mbr_check_sorted n last_end ps = Ok ()"
  using assms
proof (induction ps arbitrary: last_end)
  case (Cons p ps)
  then show ?case by (simp add: checked_add_def)
qed simp

lemma mbr_sorted_apart:
  assumes "ranges_disjoint (map (\<lambda>p. (mbr_offset p, mbr_size p)) ps)"
    and "\<forall>p \<in> set ps. 0 < mbr_size p"
  shows "sorted_wrt (\<lambda>p q. mbr_offset p + mbr_size p \<le> mbr_offset q) (sort_key mbr_offset ps)"
proof -
  let ?r = "\<lambda>p. (mbr_offset p, mbr_size p)"
  have "ranges_disjoint (map ?r (sort_key mbr_offset ps))"
    by (rule ranges_disjoint_mset [OF _ assms(1)]) simp
  then have "sorted_wrt (\<lambda>p q. ranges_apart (?r p) (?r q)) (sort_key mbr_offset ps)"
    by (simp add: ranges_disjoint_def sorted_wrt_map)
  moreover have "sorted_wrt (\<lambda>p q. mbr_offset p \<le> mbr_offset q) (sort_key mbr_offset ps)"
    using sorted_sort_key [of mbr_offset ps] by (simp add: sorted_wrt_map)
  ultimately have "sorted_wrt (\<lambda>p q. ranges_apart (?r p) (?r q) \<and> mbr_offset p \<le> mbr_offset q)
      (sort_key mbr_offset ps)"
    by (simp add: sorted_wrt_iff_nth_less)
  then show ?thesis
    by (rule sorted_wrt_mono_rel [rotated]) (use assms(2) in \<open>auto simp: ranges_apart_def\<close>)
qed

lemma mbr_validate_complete:
  assumes "ranges_disjoint (map (\<lambda>p. (mbr_offset p, mbr_size p)) ps)" "n < u64_limit"
    and "\<forall>p \<in> set ps. 0 < mbr_size p \<and> mbr_offset p + mbr_size p \<le> n"
  shows "mbr_validate_partitions ps n = Ok ()"
  unfolding mbr_validate_partitions_def
  using assms by (intro mbr_check_sorted_complete mbr_sorted_apart) auto

section \<open>The partitions\<close>

text \<open>What every partition of a volume system satisfies, and how the partitions are numbered.\<close>

definition mbr_aligned :: "nat \<Rightarrow> MbrPartition \<Rightarrow> bool" where
  "mbr_aligned bps p \<longleftrightarrow> bps dvd mbr_offset p \<and> bps dvd mbr_size p \<and> 0 < mbr_size p"

definition mbr_numbered :: "nat \<Rightarrow> MbrPartition list \<Rightarrow> bool" where
  "mbr_numbered bps ps \<longleftrightarrow>
     (\<forall>i < length ps. mbr_entry_index (ps ! i) = i) \<and> (\<forall>p \<in> set ps. mbr_aligned bps p)"

lemma mbr_numbered_append:
  "mbr_numbered bps ps \<Longrightarrow> mbr_aligned bps p \<Longrightarrow> mbr_entry_index p = length ps \<Longrightarrow> mbr_numbered bps (ps @ [p])"
  by (auto simp: mbr_numbered_def nth_append less_Suc_eq)

lemma mbr_partition_from_entry_Ok:
  assumes "mbr_partition_from_entry i e off bps = Ok p"
    and "\<not> mbr_entry_is_empty e" "bps dvd off" "0 < bps"
  shows "mbr_aligned bps p \<and> mbr_entry_index p = i \<and> mbr_offset p = off"
  using assms
  by (auto simp: mbr_partition_from_entry_def mbr_partition_new_def mbr_aligned_def
      mbr_entry_is_empty_def result_simps)

lemma mbr_lba_to_offset_dvd: "mbr_lba_to_offset lba bps = Ok off \<Longrightarrow> bps dvd off"
  by (simp add: mbr_lba_to_offset_def result_simps)

lemma mbr_scan_primary_Ok:
  assumes "mbr_scan_primary bps es (length ps) ext ps = Ok (next_index, ext', ps')"
    and "mbr_numbered bps ps" "0 < bps" "\<forall>off. ext = Some off \<longrightarrow> bps dvd off"
  shows "mbr_numbered bps ps' \<and> next_index = length ps' \<and> (\<forall>off. ext' = Some off \<longrightarrow> bps dvd off)
    \<and> length ps' + (if ext' = None then 0 else 1) \<le> length ps + (if ext = None then 0 else 1) + length es"
  using assms
proof (induction es arbitrary: ext ps)
  case (Cons e es)
  consider "mbr_entry_is_empty e" | "\<not> mbr_entry_is_empty e" "mbr_entry_is_extended e"
    | "\<not> mbr_entry_is_empty e" "\<not> mbr_entry_is_extended e" by blast
  then show ?case
  proof cases
    case 1
    with Cons.prems Cons.IH [of ps ext] show ?thesis by auto
  next
    case 2
    with Cons.prems(1) obtain off where "ext = None" and off: "mbr_lba_to_offset (mbe_start_address_lba e) bps = Ok off"
      and "mbr_scan_primary bps es (length ps) (Some off) ps = Ok (next_index, ext', ps')"
      by (auto simp: result_simps split: if_splits)
    with Cons.prems Cons.IH [of ps "Some off"] mbr_lba_to_offset_dvd [OF off] show ?thesis by auto
  next
    case 3
    with Cons.prems(1) obtain off p where off: "mbr_lba_to_offset (mbe_start_address_lba e) bps = Ok off"
      and p: "mbr_partition_from_entry (length ps) e off bps = Ok p"
      and rec: "mbr_scan_primary bps es (length ps + 1) ext (ps @ [p]) = Ok (next_index, ext', ps')"
      by (auto simp: result_simps)
    have "mbr_numbered bps (ps @ [p])"
      using mbr_partition_from_entry_Ok [OF p 3(1) mbr_lba_to_offset_dvd [OF off] Cons.prems(3)] Cons.prems(2)
      by (intro mbr_numbered_append) auto
    with rec Cons.prems Cons.IH [of "ps @ [p]" ext] show ?thesis by auto
  qed
qed (auto split: if_splits)

lemma mbr_scan_ebr_Ok:
  assumes "mbr_scan_ebr bps ext es l nx = Ok (l', nx')" "bps dvd ext"
    and "\<forall>e. l = Some e \<longrightarrow> \<not> mbr_entry_is_empty e" "\<forall>off. nx = Some off \<longrightarrow> bps dvd off"
  shows "(\<forall>e. l' = Some e \<longrightarrow> \<not> mbr_entry_is_empty e) \<and> (\<forall>off. nx' = Some off \<longrightarrow> bps dvd off)"
  using assms
proof (induction es arbitrary: l nx)
  case (Cons e es)
  consider "mbr_entry_is_empty e" | "\<not> mbr_entry_is_empty e" "mbr_entry_is_extended e"
    | "\<not> mbr_entry_is_empty e" "\<not> mbr_entry_is_extended e" by blast
  then show ?case
  proof cases
    case 1
    with Cons.prems Cons.IH [of l nx] show ?thesis by simp
  next
    case 2
    with Cons.prems(1) obtain rel where rel: "mbr_lba_to_offset (mbe_start_address_lba e) bps = Ok rel"
      and rec: "mbr_scan_ebr bps ext es l (Some (ext + rel)) = Ok (l', nx')"
      by (auto simp: result_simps split: if_splits)
    have "bps dvd ext + rel" using mbr_lba_to_offset_dvd [OF rel] Cons.prems(2) by simp
    with Cons.IH [OF rec Cons.prems(2,3)] show ?thesis by simp
  next
    case 3
    with Cons.prems(1) have "mbr_scan_ebr bps ext es (Some e) nx = Ok (l', nx')"
      by (simp split: if_splits)
    from Cons.IH [OF this Cons.prems(2) _ Cons.prems(4)] 3 show ?thesis by simp
  qed
qed simp

lemma mbr_read_ebr_Ok:
  assumes "mbr_read_ebr ds bps ext off i = Ok (p, nx)" "bps dvd ext" "bps dvd off" "0 < bps"
  shows "mbr_aligned bps p \<and> mbr_entry_index p = i \<and> (\<forall>off'. nx = Some off' \<longrightarrow> bps dvd off')"
proof -
  from assms(1) obtain br :: MbrBootRecord and e rel where
    scan: "mbr_scan_ebr bps ext (mbr_partition_entries br) None None = Ok (Some e, nx)"
    and rel: "mbr_lba_to_offset (mbe_start_address_lba e) bps = Ok rel"
    and p: "mbr_partition_from_entry i e (off + rel) bps = Ok p"
    by (auto simp: mbr_read_ebr_def result_simps split: option.splits)
  from mbr_scan_ebr_Ok [OF scan assms(2)]
  have e: "\<not> mbr_entry_is_empty e" and nx: "\<forall>off'. nx = Some off' \<longrightarrow> bps dvd off'" by auto
  have "bps dvd off + rel" using mbr_lba_to_offset_dvd [OF rel] assms(3) by simp
  from mbr_partition_from_entry_Ok [OF p e this assms(4)] nx show ?thesis by blast
qed

section \<open>The chain of extended boot records\<close>

text \<open>
  The linked list of extended boot records as an inductive relation: the record at an offset
  gives a logical partition and ends the chain or links to the next record.
\<close>

inductive ebr_chain :: "data_source \<Rightarrow> nat \<Rightarrow> nat \<Rightarrow> nat \<Rightarrow> nat \<Rightarrow> nat list \<Rightarrow> MbrPartition list \<Rightarrow> bool"
  for ds bps ext where
  chain_end: "mbr_read_ebr ds bps ext off i = Ok (p, None) \<Longrightarrow> ebr_chain ds bps ext off i [off] [p]"
| chain_link: "mbr_read_ebr ds bps ext off i = Ok (p, Some next_off)
    \<Longrightarrow> ebr_chain ds bps ext next_off (i + 1) offs ps
    \<Longrightarrow> ebr_chain ds bps ext off i (off # offs) (p # ps)"

inductive_cases ebr_chain_elim: "ebr_chain ds bps ext off i offs ps"

lemma ebr_chain_length: "ebr_chain ds bps ext off i offs ps \<Longrightarrow> length offs = length ps \<and> 0 < length ps"
  by (induction rule: ebr_chain.induct) auto

lemma ebr_chain_numbered:
  assumes "ebr_chain ds bps ext off i offs ps" "bps dvd ext" "bps dvd off" "0 < bps"
    and "mbr_numbered bps qs" "length qs = i"
  shows "mbr_numbered bps (qs @ ps)"
  using assms
proof (induction arbitrary: qs rule: ebr_chain.induct)
  case (chain_end off i p)
  with mbr_read_ebr_Ok show ?case by (metis mbr_numbered_append)
next
  case (chain_link off i p next_off offs ps)
  from mbr_read_ebr_Ok [OF chain_link.hyps(1) chain_link.prems(1-3)] chain_link.prems
  have "mbr_numbered bps (qs @ [p])" "bps dvd next_off" by (auto intro: mbr_numbered_append)
  with chain_link.IH [of "qs @ [p]"] chain_link.prems show ?case by simp
qed

text \<open>
  The walk over the chain returns exactly the partitions of the chain, when the chain has no
  record twice and is not too long; in every other case it stops with an error.
\<close>

lemma mbr_read_chain_sound:
  assumes "mbr_read_chain ds bps ext visited off i qs = Ok (i', rs)"
    and "distinct visited" "length visited \<le> mbr_max_logical_partitions"
  shows "\<exists>offs ps. ebr_chain ds bps ext off i offs ps \<and> rs = qs @ ps \<and> i' = i + length ps
    \<and> distinct (rev visited @ offs) \<and> length visited + length offs \<le> mbr_max_logical_partitions"
  using assms
proof (induction ds bps ext visited off i qs rule: mbr_read_chain.induct)
  case (1 ds bps ext visited off i qs)
  from "1.prems"(1) have len: "length visited < mbr_max_logical_partitions" and new: "off \<notin> set visited"
    by (auto simp: mbr_read_chain.simps [of ds bps ext visited off i qs] split: if_splits)
  with "1.prems"(1) obtain p nx where ebr: "mbr_read_ebr ds bps ext off i = Ok (p, nx)"
    and k: "(case nx of Some next_off \<Rightarrow> mbr_read_chain ds bps ext (off # visited) next_off (Suc i) (qs @ [p])
      | None \<Rightarrow> Ok (Suc i, qs @ [p])) = Ok (i', rs)"
    by (auto simp: mbr_read_chain.simps [of ds bps ext visited off i qs] result_simps)
  show ?case
  proof (cases nx)
    case None
    with ebr have "ebr_chain ds bps ext off i [off] [p]" by (simp add: ebr_chain.chain_end)
    with None k len new "1.prems"(2) show ?thesis by (intro exI [of _ "[off]"] exI [of _ "[p]"]) auto
  next
    case (Some next_off)
    with "1.IH" [OF len new ebr refl Some] k len new "1.prems"(2)
    obtain offs ps where "ebr_chain ds bps ext next_off (i + 1) offs ps" "rs = (qs @ [p]) @ ps"
      "i' = i + 1 + length ps" "distinct (rev (off # visited) @ offs)"
      "length (off # visited) + length offs \<le> mbr_max_logical_partitions" by auto
    then show ?thesis
      using ebr Some by (intro exI [of _ "off # offs"] exI [of _ "p # ps"]) (auto intro: ebr_chain.chain_link)
  qed
qed

lemma mbr_read_chain_complete:
  assumes "ebr_chain ds bps ext off i offs ps"
    and "distinct (rev visited @ offs)" "length visited + length offs \<le> mbr_max_logical_partitions"
  shows "mbr_read_chain ds bps ext visited off i qs = Ok (i + length ps, qs @ ps)"
  using assms
proof (induction arbitrary: visited qs rule: ebr_chain.induct)
  case (chain_end off i p)
  then show ?case by (simp add: mbr_read_chain.simps [of ds bps ext visited off i qs])
next
  case (chain_link off i p next_off offs ps)
  have "mbr_read_chain ds bps ext (off # visited) next_off (i + 1) (qs @ [p])
      = Ok (i + 1 + length ps, (qs @ [p]) @ ps)"
    using chain_link.prems by (intro chain_link.IH) auto
  with chain_link show ?case by (simp add: mbr_read_chain.simps [of ds bps ext visited off i qs])
qed

section \<open>An opened volume system\<close>

lemma mbr_supported_pos: "bps \<in> set mbr_supported_bytes_per_sector \<Longrightarrow> 0 < bps"
  by (auto simp: mbr_supported_bytes_per_sector_def)

lemma mbr_boot_record_entries:
  "mbr_boot_record_read_at ds off = Ok br \<Longrightarrow> length (mbr_partition_entries br) = 4"
  by (auto simp: mbr_boot_record_read_at_def result_simps try_map_Ok dest: list_all2_lengthD)

lemma mbr_open_with_Ok:
  assumes "mbr_open_with_bytes_per_sector ds bps = Ok v"
  obtains n br i ext ps where "bps \<in> set mbr_supported_bytes_per_sector" "ds_size ds = Ok n"
    "mbr_boot_record_read_at ds 0 = Ok br"
    "mbr_scan_primary bps (mbr_partition_entries br) 0 None [] = Ok (i, ext, ps)"
    "mbr_validate_partitions (mbr_partitions v) n = Ok ()"
    "mbr_bytes_per_sector v = bps" "mbr_identity v = mbr_disk_identity br"
    "case ext of None \<Rightarrow> mbr_partitions v = ps
     | Some off \<Rightarrow> \<exists>offs qs. ebr_chain ds bps off off i offs qs \<and> distinct offs
         \<and> length offs \<le> mbr_max_logical_partitions \<and> mbr_partitions v = ps @ qs"
proof -
  from assms obtain n br i ext ps i' rs where ok: "bps \<in> set mbr_supported_bytes_per_sector" "ds_size ds = Ok n"
    "mbr_boot_record_read_at ds 0 = Ok br"
    "mbr_scan_primary bps (mbr_partition_entries br) 0 None [] = Ok (i, ext, ps)"
    and chain: "(case ext of Some off \<Rightarrow> mbr_read_extended_partition_chain ds bps off i ps
      | None \<Rightarrow> Ok (i, ps)) = Ok (i', rs)"
    and "mbr_validate_partitions rs n = Ok ()"
    "v = \<lparr>mbr_bytes_per_sector = bps, mbr_identity = mbr_disk_identity br, mbr_partitions = rs\<rparr>"
    by (auto simp: mbr_open_with_bytes_per_sector_def result_simps split: if_splits)
  moreover have "case ext of None \<Rightarrow> rs = ps
     | Some off \<Rightarrow> \<exists>offs qs. ebr_chain ds bps off off i offs qs \<and> distinct offs
         \<and> length offs \<le> mbr_max_logical_partitions \<and> rs = ps @ qs"
  proof (cases ext)
    case (Some off)
    with chain have "mbr_read_chain ds bps off [] off i ps = Ok (i', rs)"
      by (simp add: mbr_read_extended_partition_chain_def)
    from mbr_read_chain_sound [OF this] Some show ?thesis by fastforce
  qed (use chain in simp)
  ultimately show ?thesis by (intro that) (auto split: option.splits)
qed

lemma mbr_open_with_valid:
  assumes "mbr_open_with_bytes_per_sector ds bps = Ok v"
  shows "ranges_disjoint (mbr_ranges v)"
    and "ds_size ds = Ok n \<Longrightarrow> r \<in> set (mbr_ranges v) \<Longrightarrow> range_inside n r"
proof -
  obtain n' where n': "ds_size ds = Ok n'" "mbr_validate_partitions (mbr_partitions v) n' = Ok ()"
    by (rule mbr_open_with_Ok [OF assms]) blast
  show "ranges_disjoint (mbr_ranges v)"
    using mbr_validate_Ok(1) [OF n'(2)] by (simp add: mbr_ranges_def)
  show "range_inside n r" if "ds_size ds = Ok n" "r \<in> set (mbr_ranges v)"
    using that n'(1) mbr_validate_Ok(2) [OF n'(2)] by (auto simp: mbr_ranges_def range_inside_def)
qed

lemma mbr_open_with_numbered:
  assumes "mbr_open_with_bytes_per_sector ds bps = Ok v"
  shows "mbr_numbered bps (mbr_partitions v) \<and> length (mbr_partitions v) \<le> 3 + mbr_max_logical_partitions"
proof -
  obtain br i ext ps where bps: "bps \<in> set mbr_supported_bytes_per_sector"
    and br: "mbr_boot_record_read_at ds 0 = Ok br"
    and scan: "mbr_scan_primary bps (mbr_partition_entries br) 0 None [] = Ok (i, ext, ps)"
    and parts: "case ext of None \<Rightarrow> mbr_partitions v = ps
     | Some off \<Rightarrow> \<exists>offs qs. ebr_chain ds bps off off i offs qs \<and> distinct offs
         \<and> length offs \<le> mbr_max_logical_partitions \<and> mbr_partitions v = ps @ qs"
    by (rule mbr_open_with_Ok [OF assms]) blast
  note pos = mbr_supported_pos [OF bps]
  from mbr_scan_primary_Ok [of bps _ "[]" None, simplified, OF scan] pos
  have ps: "mbr_numbered bps ps" "i = length ps" "\<forall>off. ext = Some off \<longrightarrow> bps dvd off"
    "length ps + (if ext = None then 0 else 1) \<le> 4"
    by (auto simp: mbr_numbered_def mbr_boot_record_entries [OF br])
  show ?thesis
  proof (cases ext)
    case None
    with parts ps show ?thesis by (simp add: mbr_max_logical_partitions_def)
  next
    case (Some off)
    with parts obtain offs qs where chain: "ebr_chain ds bps off off i offs qs"
      and v: "mbr_partitions v = ps @ qs" and len: "length offs \<le> mbr_max_logical_partitions" by auto
    have off: "bps dvd off" using ps(3) Some by blast
    have "length ps \<le> 3" using ps(4) Some by simp
    moreover have "mbr_numbered bps (ps @ qs)"
      using ebr_chain_numbered [OF chain off off pos ps(1) ps(2) [symmetric]] .
    ultimately show ?thesis using ebr_chain_length [OF chain] len unfolding v by simp
  qed
qed

text \<open>The contract of a volume system, for a given sector size and for \<open>open\<close>.\<close>

interpretation mbr_with: bounded_volume_system "\<lambda>ds. mbr_open_with_bytes_per_sector ds bps" mbr_ranges for bps
  by unfold_locales (rule mbr_open_with_valid; assumption)+

lemma mbr_open_Ok:
  "mbr_open ds = Ok v \<Longrightarrow> \<exists>bps \<in> set mbr_supported_bytes_per_sector. mbr_open_with_bytes_per_sector ds bps = Ok v"
  unfolding mbr_open_def by (rule open_first_Ok)

interpretation mbr: bounded_volume_system mbr_open mbr_ranges
  by unfold_locales (auto dest!: mbr_open_Ok intro: mbr_with.open_disjoint mbr_with.open_inside)

section \<open>A disk with a primary and a logical partition\<close>

text \<open>
  Four sectors: the boot record with a primary partition on sector 1 and an extended partition
  from sector 2 on, whose boot record describes a logical partition on sector 3.
\<close>

definition sample_record :: "byte list \<Rightarrow> byte list \<Rightarrow> byte list" where
  "sample_record e1 e2 = replicate 446 0 @ e1 @ e2 @ replicate 32 0 @ [0x55, 0xaa]"

definition sample_entry :: "byte \<Rightarrow> byte \<Rightarrow> byte \<Rightarrow> byte list" where
  "sample_entry partition_type start sectors =
     [0, 0, 0, 0, partition_type, 0, 0, 0, start, 0, 0, 0, sectors, 0, 0, 0]"

definition mbr_sample :: "byte list" where
  "mbr_sample =
     sample_record (sample_entry 0x83 1 1) (sample_entry 0x05 2 2) @ replicate 512 0
     @ sample_record (sample_entry 0x83 1 1) (replicate 16 0) @ replicate 512 0"

definition mbr_sample_volume :: MbrVolumeSystem where
  "mbr_sample_volume =
     \<lparr>mbr_bytes_per_sector = 512, mbr_identity = 0,
      mbr_partitions = [mbr_partition_new 0 512 512 0x83 0, mbr_partition_new 1 1536 512 0x83 0]\<rparr>"

lemma length_mbr_sample: "length mbr_sample = 2048"
  by (simp add: mbr_sample_def sample_record_def sample_entry_def)

lemma mbr_sample_source: "byte_source (memory_source (memory_new mbr_sample)) mbr_sample"
  by (rule memory_byte) (simp add: length_mbr_sample u64_limit_def)

lemma sample_record_read:
  assumes "read_exact_at ds off 512 = Ok (sample_record e1 e2)" "length e1 = 16" "length e2 = 16"
    and "mbr_entry_read_data e1 = Ok p1" "mbr_entry_read_data e2 = Ok p2"
    and "mbr_entry_read_data (replicate 16 0) = Ok p"
  shows "mbr_boot_record_read_at ds off = Ok \<lparr>mbr_disk_identity = 0, mbr_partition_entries = [p1, p2, p, p]\<rparr>"
proof -
  let ?d = "sample_record e1 e2"
  have "subslice 510 2 ?d = [0x55, 0xaa]" "subslice (446 + 0 * 16) 16 ?d = e1" "subslice (446 + 1 * 16) 16 ?d = e2"
    "subslice (446 + 2 * 16) 16 ?d = replicate 16 0" "subslice (446 + 3 * 16) 16 ?d = replicate 16 0"
    "u32_le 440 ?d = 0"
    using assms(2,3)
    by (simp_all add: sample_record_def subslice_def u32_le_def)
  then show ?thesis using assms by (simp add: mbr_boot_record_read_at_def)
qed

lemma mbr_sample_sectors:
  assumes "total_source ds mbr_sample"
  shows "read_exact_at ds 0 512 = Ok (sample_record (sample_entry 0x83 1 1) (sample_entry 0x05 2 2))"
    "read_exact_at ds 1024 512 = Ok (sample_record (sample_entry 0x83 1 1) (replicate 16 0))"
proof -
  have len: "length (sample_record (sample_entry a b c) e) = 496 + length e" for a b c e
    by (simp add: sample_record_def sample_entry_def)
  have l: "length (sample_entry a b c) = 16" for a b c by (simp add: sample_entry_def)
  have read: "read_exact_at ds off 512 = Ok (subslice off 512 mbr_sample)" if "off + 512 \<le> 2048" for off
    using total_source.read_exact_at_total [OF assms, of off 512] that
    by (simp add: length_mbr_sample u64_limit_def)
  show "read_exact_at ds 0 512 = Ok (sample_record (sample_entry 0x83 1 1) (sample_entry 0x05 2 2))"
    using read [of 0] by (simp add: mbr_sample_def subslice_def len l)
  show "read_exact_at ds 1024 512 = Ok (sample_record (sample_entry 0x83 1 1) (replicate 16 0))"
    using read [of 1024] by (simp add: mbr_sample_def subslice_def len l)
qed

lemma sample_entry_data:
  "mbr_entry_read_data (sample_entry t s k) =
     Ok \<lparr>mbe_flags = 0, mbe_partition_type = t, mbe_start_address_lba = unat s, mbe_number_of_sectors = unat k\<rparr>"
  by (simp add: mbr_entry_read_data_def sample_entry_def u32_le_def subslice_def from_le_bytes_def from_be_bytes_def)

lemma empty_entry_data:
  "mbr_entry_read_data (replicate 16 0) =
     Ok \<lparr>mbe_flags = 0, mbe_partition_type = 0, mbe_start_address_lba = 0, mbe_number_of_sectors = 0\<rparr>"
  by (simp add: mbr_entry_read_data_def u32_le_def subslice_def)

lemma sample_entry_length: "length (sample_entry t s k) = 16"
  by (simp add: sample_entry_def)

lemma mbr_sample_open_total:
  assumes "total_source ds mbr_sample"
  shows "mbr_open ds = Ok mbr_sample_volume"
proof -
  note sectors = mbr_sample_sectors [OF assms]
  note records = sample_record_read [OF sectors(1) sample_entry_length sample_entry_length
      sample_entry_data sample_entry_data empty_entry_data]
    sample_record_read [OF sectors(2) sample_entry_length length_replicate
      sample_entry_data empty_entry_data empty_entry_data]
  have "ds_size ds = Ok 2048"
    using byte_source.size_content [OF total_source.axioms(1) [OF assms]] by (simp add: length_mbr_sample)
  then have "mbr_open_with_bytes_per_sector ds 512 = Ok mbr_sample_volume"
    by (simp add: mbr_open_with_bytes_per_sector_def mbr_supported_bytes_per_sector_def
        records mbr_entry_is_empty_def mbr_entry_is_extended_def mbr_lba_to_offset_def
        mbr_partition_from_entry_def checked_mul_def checked_add_def u64_limit_def
        mbr_read_extended_partition_chain_def mbr_read_chain.simps mbr_max_logical_partitions_def mbr_read_ebr_def
        mbr_validate_partitions_def mbr_partition_new_def mbr_sample_volume_def)
  then show ?thesis by (simp add: mbr_open_def mbr_supported_bytes_per_sector_def)
qed

lemma mbr_sample_open: "mbr_open (memory_source (memory_new mbr_sample)) = Ok mbr_sample_volume"
  by (rule mbr_sample_open_total, rule memory_total) (simp add: length_mbr_sample u64_limit_def)

section \<open>Properties\<close>

text \<open>
  (C5) The partitions of an opened MBR volume system do not overlap and lie inside the source, and
  the source opened for a partition has exactly the bytes of its range.
\<close>

theorem mbr_partitions_are_slices:
  assumes "byte_source ds content" "mbr_open ds = Ok v"
  shows "ranges_disjoint (mbr_ranges v)
    \<and> (\<forall>p \<in> set (mbr_partitions v).
         mbr_offset p + mbr_size p \<le> length content
         \<and> byte_source (mbr_open_source p ds) (subslice (mbr_offset p) (mbr_size p) content))"
proof -
  have "mbr_offset p + mbr_size p \<le> length content
      \<and> byte_source (mbr_open_source p ds) (subslice (mbr_offset p) (mbr_size p) content)"
    if "p \<in> set (mbr_partitions v)" for p
  proof -
    have r: "(mbr_offset p, mbr_size p) \<in> set (mbr_ranges v)" using that by (simp add: mbr_ranges_def)
    show ?thesis
      using mbr.open_inside [OF assms(2) byte_source.size_content [OF assms(1)] r]
        mbr.partition_source [OF assms r]
      by (simp add: range_inside_def mbr_open_source_def)
  qed
  with mbr.open_disjoint [OF assms(2)] show ?thesis by blast
qed

theorem mbr_partitions_are_slices_witness:
  "mbr_open (memory_source (memory_new mbr_sample)) = Ok mbr_sample_volume
   \<and> ranges_disjoint [(512, 512), (1536, 512)]
   \<and> byte_source (mbr_open_source (mbr_partition_new 1 1536 512 0x83 0) (memory_source (memory_new mbr_sample)))
       (subslice 1536 512 mbr_sample)"
  using mbr_partitions_are_slices [OF mbr_sample_source mbr_sample_open] mbr_sample_open
  by (simp add: mbr_sample_volume_def mbr_ranges_def mbr_partition_new_def)

text \<open>
  The partitions are numbered in the order they are listed, start and end on sector boundaries
  and are not empty; there are at most three primary partitions beside an extended one, or four,
  and at most 1024 logical ones.
\<close>

theorem mbr_partitions_in_order:
  assumes "mbr_open ds = Ok v"
  shows "length (mbr_partitions v) \<le> 1027
    \<and> (\<forall>i < length (mbr_partitions v).
         mbr_entry_index (mbr_partitions v ! i) = i
         \<and> mbr_bytes_per_sector v dvd mbr_offset (mbr_partitions v ! i)
         \<and> mbr_bytes_per_sector v dvd mbr_size (mbr_partitions v ! i)
         \<and> 0 < mbr_size (mbr_partitions v ! i))"
proof -
  obtain bps where bps: "mbr_open_with_bytes_per_sector ds bps = Ok v" using mbr_open_Ok [OF assms] by blast
  then have "mbr_bytes_per_sector v = bps" by (rule mbr_open_with_Ok)
  with mbr_open_with_numbered [OF bps] show ?thesis
    by (auto simp: mbr_numbered_def mbr_aligned_def mbr_max_logical_partitions_def)
qed

theorem mbr_partitions_in_order_witness:
  "mbr_entry_index (mbr_partitions mbr_sample_volume ! 1) = 1 \<and> 512 dvd mbr_offset (mbr_partitions mbr_sample_volume ! 1)"
  using mbr_partitions_in_order [OF mbr_sample_open] by (simp add: mbr_sample_volume_def mbr_partition_new_def)

text \<open>
  (C8) The walk over the chain of extended boot records returns exactly what the chain describes:
  it succeeds if and only if the records from the extended partition on form a chain that ends,
  visits no offset twice and has at most 1024 records, and then adds the logical partition of each
  record in order.
\<close>

theorem mbr_chain_walk_exact:
  "mbr_read_extended_partition_chain ds bps ext i ps = Ok (j, rs) \<longleftrightarrow>
     (\<exists>offs qs. ebr_chain ds bps ext ext i offs qs \<and> distinct offs \<and> length offs \<le> 1024
        \<and> rs = ps @ qs \<and> j = i + length qs)"
  using mbr_read_chain_sound [of ds bps ext "[]" ext i ps j rs]
    mbr_read_chain_complete [of ds bps ext ext i _ _ "[]" ps]
  by (auto simp: mbr_read_extended_partition_chain_def mbr_max_logical_partitions_def)

text \<open>
  The validation, which sorts the partitions and compares neighbours, accepts non-empty
  partitions exactly when no two of them share a byte and all lie inside the source.
\<close>

theorem mbr_validation_exact:
  assumes "\<forall>p \<in> set ps. 0 < mbr_size p" "n < u64_limit"
  shows "mbr_validate_partitions ps n = Ok () \<longleftrightarrow>
    ranges_disjoint (map (\<lambda>p. (mbr_offset p, mbr_size p)) ps)
    \<and> (\<forall>p \<in> set ps. mbr_offset p + mbr_size p \<le> n)"
  using mbr_validate_Ok [of ps n "()"] mbr_validate_complete [of ps n] assms by blast

theorem mbr_validation_exact_witness:
  "mbr_validate_partitions [mbr_partition_new 0 1024 512 7 0, mbr_partition_new 1 512 512 7 0] 2048 = Ok ()
   \<and> mbr_validate_partitions [mbr_partition_new 0 1024 512 7 0, mbr_partition_new 1 1000 512 7 0] 2048 \<noteq> Ok ()"
  using mbr_validation_exact [of "[mbr_partition_new 0 1024 512 7 0, mbr_partition_new 1 512 512 7 0]" 2048]
    mbr_validation_exact [of "[mbr_partition_new 0 1024 512 7 0, mbr_partition_new 1 1000 512 7 0]" 2048]
  by (simp add: mbr_partition_new_def u64_limit_def ranges_disjoint_def ranges_apart_def)

end
