(* ===== verification/Unicode_Text.thy ===== *)
theory Unicode_Text
  imports Prelude
begin

text \<open>
  Strings.  A Rust \<open>str\<close> or \<open>String\<close> is the list of its UTF-8 bytes, on which lengths and slices
  are computed; a slice that does not fall on a character boundary panics.  The theory holds the
  decoders of the standard library the sources call (\<open>from_utf8\<close>, \<open>from_utf8_lossy\<close>,
  \<open>String::from_utf16\<close>, \<open>from_str_radix\<close>) and the UTF-16 strings of
  \<open>keramics-types/src/utf16_string.rs\<close>.
\<close>

type_synonym str = "byte list"

text \<open>A string literal of the program; the literals of the sources are ASCII.\<close>

definition lit :: "string \<Rightarrow> str" where
  "lit s = map of_char s"

section \<open>UTF-8\<close>

text \<open>The ranges of the bytes that may follow a first byte, \<open>None\<close> for a byte that cannot be first.\<close>

definition utf8_tail :: "byte \<Rightarrow> (byte \<times> byte) list option" where
  "utf8_tail b =
     (if b < 0x80 then Some []
      else if b < 0xC2 then None
      else if b < 0xE0 then Some [(0x80, 0xBF)]
      else if b = 0xE0 then Some [(0xA0, 0xBF), (0x80, 0xBF)]
      else if b = 0xED then Some [(0x80, 0x9F), (0x80, 0xBF)]
      else if b < 0xF0 then Some [(0x80, 0xBF), (0x80, 0xBF)]
      else if b = 0xF0 then Some [(0x90, 0xBF), (0x80, 0xBF), (0x80, 0xBF)]
      else if b < 0xF4 then Some [(0x80, 0xBF), (0x80, 0xBF), (0x80, 0xBF)]
      else if b = 0xF4 then Some [(0x80, 0x8F), (0x80, 0xBF), (0x80, 0xBF)]
      else None)"

fun utf8_matched :: "(byte \<times> byte) list \<Rightarrow> byte list \<Rightarrow> nat" where
  "utf8_matched ((lo, hi) # rs) (b # bs) = (if lo \<le> b \<and> b \<le> hi then Suc (utf8_matched rs bs) else 0)"
| "utf8_matched _ _ = 0"

text \<open>Whether a sequence of bytes starts with a character, and the length of it or of its longest start.\<close>

definition utf8_chunk :: "byte \<Rightarrow> byte list \<Rightarrow> bool \<times> nat" where
  "utf8_chunk b bs =
     (case utf8_tail b of
        None \<Rightarrow> (False, 0)
      | Some ranges \<Rightarrow> (utf8_matched ranges bs = length ranges, utf8_matched ranges bs))"

text \<open>\<open>String::from_utf8_lossy\<close>: a part that is no character becomes the replacement character.\<close>

function from_utf8_lossy :: "byte list \<Rightarrow> str" where
  "from_utf8_lossy [] = []"
| "from_utf8_lossy (b # bs) =
     (case utf8_chunk b bs of
        (True, n) \<Rightarrow> (b # take n bs) @ from_utf8_lossy (drop n bs)
      | (False, n) \<Rightarrow> [0xEF, 0xBF, 0xBD] @ from_utf8_lossy (drop n bs))"
  by pat_completeness auto
termination
  by (relation "measure length") auto

text \<open>\<open>str::from_utf8\<close>, \<open>None\<close> where it returns an error.\<close>

function from_utf8 :: "byte list \<Rightarrow> str option" where
  "from_utf8 [] = Some []"
| "from_utf8 (b # bs) =
     (case utf8_chunk b bs of
        (True, n) \<Rightarrow> map_option (\<lambda>s. (b # take n bs) @ s) (from_utf8 (drop n bs))
      | (False, n) \<Rightarrow> None)"
  by pat_completeness auto
termination
  by (relation "measure length") auto

text \<open>\<open>from_utf8\<close> checks only, and the lossy decoder changes nothing it accepts.\<close>

lemma from_utf8_Cons:
  assumes "from_utf8 (b # bs) = Some s"
  obtains n r where "utf8_chunk b bs = (True, n)" "from_utf8 (drop n bs) = Some r" "s = (b # take n bs) @ r"
  using assms by (auto split: prod.splits bool.splits)

lemma from_utf8_id: "from_utf8 bs = Some s \<Longrightarrow> s = bs"
proof (induction bs arbitrary: s rule: from_utf8.induct)
  case (2 b bs)
  from 2 show ?case by (elim from_utf8_Cons) fastforce
qed simp

lemma from_utf8_lossy_valid: "from_utf8 bs = Some s \<Longrightarrow> from_utf8_lossy bs = bs"
proof (induction bs arbitrary: s rule: from_utf8.induct)
  case (2 b bs)
  from 2 show ?case by (elim from_utf8_Cons) fastforce
qed simp

lemma utf8_chunk_ascii: "b < 0x80 \<Longrightarrow> utf8_chunk b bs = (True, 0)"
  by (simp add: utf8_chunk_def utf8_tail_def)

lemma from_utf8_ascii: "\<forall>b \<in> set bs. b < 0x80 \<Longrightarrow> from_utf8 bs = Some bs"
  by (induction bs) (simp_all add: utf8_chunk_ascii)

lemma from_utf8_ascii_append:
  "\<forall>b \<in> set bs. b < 0x80 \<Longrightarrow> from_utf8 (bs @ cs) = map_option (\<lambda>s. bs @ s) (from_utf8 cs)"
  by (induction bs; cases "from_utf8 cs") (simp_all add: utf8_chunk_ascii)

subsection \<open>Slices of a string\<close>

definition is_char_boundary :: "str \<Rightarrow> nat \<Rightarrow> bool" where
  "is_char_boundary s i \<longleftrightarrow> i = 0 \<or> i = length s \<or> (i < length s \<and> s ! i AND 0xC0 \<noteq> 0x80)"

text \<open>\<open>&s[a..b]\<close>\<close>

definition str_slice :: "str \<Rightarrow> nat \<Rightarrow> nat \<Rightarrow> str result" where
  "str_slice s a b =
     (if a \<le> b \<and> is_char_boundary s a \<and> is_char_boundary s b then Ok (subslice a (b - a) s)
      else Err (Panic Index_out_of_bounds))"

text \<open>\<open>to_ascii_lowercase\<close>; the bytes of other characters are left alone.\<close>

definition ascii_lowercase :: "str \<Rightarrow> str" where
  "ascii_lowercase s = map (\<lambda>c. if 65 \<le> c \<and> c \<le> 90 then c + 32 else c) s"

section \<open>Numbers\<close>

definition hex_value :: "byte \<Rightarrow> nat option" where
  "hex_value c =
     (if 48 \<le> c \<and> c \<le> 57 then Some (unat c - 48)
      else if 97 \<le> c \<and> c \<le> 102 then Some (unat c - 87)
      else if 65 \<le> c \<and> c \<le> 70 then Some (unat c - 55)
      else None)"

definition decimal_value :: "byte \<Rightarrow> nat option" where
  "decimal_value c = (if 48 \<le> c \<and> c \<le> 57 then Some (unat c - 48) else None)"

fun parse_digits :: "(byte \<Rightarrow> nat option) \<Rightarrow> nat \<Rightarrow> nat \<Rightarrow> nat \<Rightarrow> str \<Rightarrow> nat option" where
  "parse_digits value radix limit acc [] = Some acc"
| "parse_digits value radix limit acc (c # cs) =
     (case value c of
        None \<Rightarrow> None
      | Some d \<Rightarrow>
          if acc * radix + d < limit then parse_digits value radix limit (acc * radix + d) cs else None)"

text \<open>
  \<open>from_str_radix\<close> of an unsigned type with \<open>limit\<close> values: a leading plus sign is accepted, an
  empty string and a sign alone are not.
\<close>

definition from_str_radix :: "(byte \<Rightarrow> nat option) \<Rightarrow> nat \<Rightarrow> nat \<Rightarrow> str \<Rightarrow> nat option" where
  "from_str_radix value radix limit s =
     (case s of
        [] \<Rightarrow> None
      | c # cs \<Rightarrow>
          if c = 43 then (if cs = [] then None else parse_digits value radix limit 0 cs)
          else parse_digits value radix limit 0 s)"

text \<open>The hexadecimal digits of a number, padded with zeros: \<open>{:0wx}\<close>.\<close>

definition hex_digit :: "nat \<Rightarrow> byte" where
  "hex_digit d = of_nat (if d < 10 then 48 + d else 87 + d)"

fun hex_digits :: "nat \<Rightarrow> str" where
  "hex_digits n = (if n < 16 then [hex_digit n] else hex_digits (n div 16) @ [hex_digit (n mod 16)])"

declare hex_digits.simps [simp del]

definition format_hex :: "nat \<Rightarrow> nat \<Rightarrow> str" where
  "format_hex w n = replicate (w - length (hex_digits n)) 48 @ hex_digits n"

text \<open>The decimal digits of a number, as \<open>format!\<close> prints them.\<close>

fun decimal_digits :: "nat \<Rightarrow> str" where
  "decimal_digits n = (if n < 10 then [of_nat (48 + n)] else decimal_digits (n div 10) @ [of_nat (48 + n mod 10)])"

declare decimal_digits.simps [simp del]

subsection \<open>Printing and parsing\<close>

text \<open>The digits of a number with exactly \<open>w\<close> places.\<close>

fun hex_fixed :: "nat \<Rightarrow> nat \<Rightarrow> str" where
  "hex_fixed 0 n = []"
| "hex_fixed (Suc w) n = hex_fixed w (n div 16) @ [hex_digit (n mod 16)]"

lemma length_hex_fixed [simp]: "length (hex_fixed w n) = w"
  by (induction w arbitrary: n) simp_all

lemma hex_fixed_zero: "hex_fixed w 0 = replicate w 48"
  by (induction w) (simp_all add: hex_digit_def replicate_append_same)

lemma format_hex_fixed: "n < 16 ^ w \<Longrightarrow> 0 < w \<Longrightarrow> format_hex w n = hex_fixed w n"
proof (induction w arbitrary: n)
  case (Suc w)
  show ?case
  proof (cases "n < 16")
    case True
    then show ?thesis
      by (simp add: format_hex_def hex_digits.simps [of n] hex_fixed_zero)
  next
    case False
    have "n div 16 < 16 ^ w" using Suc.prems by (intro less_mult_imp_div_less) (simp add: mult.commute)
    moreover have "0 < w" using Suc.prems False by (cases w) auto
    ultimately have "format_hex w (n div 16) = hex_fixed w (n div 16)" by (rule Suc.IH)
    then show ?thesis
      using False by (simp add: format_hex_def hex_digits.simps [of n])
  qed
qed simp

lemma hex_value_digit:
  assumes "d < 16"
  shows "hex_value (hex_digit d) = Some d" "hex_digit d \<noteq> 43" "hex_digit d < 0x80"
proof -
  have "unat (hex_digit d) = (if d < 10 then 48 + d else 87 + d)"
    using assms by (auto simp: hex_digit_def unat_of_nat)
  with assms show "hex_value (hex_digit d) = Some d" "hex_digit d \<noteq> 43" "hex_digit d < 0x80"
    by (auto simp: hex_value_def word_le_nat_alt word_less_nat_alt split: if_splits)
qed

lemma parse_digits_append:
  "parse_digits value radix limit acc (xs @ ys) =
     Option.bind (parse_digits value radix limit acc xs) (\<lambda>a. parse_digits value radix limit a ys)"
  by (induction xs arbitrary: acc) (auto split: option.splits)

lemma parse_hex_fixed:
  "16 ^ w \<le> limit \<Longrightarrow> parse_digits hex_value 16 limit 0 (hex_fixed w n) = Some (n mod 16 ^ w)"
proof (induction w arbitrary: n)
  case (Suc w)
  have "parse_digits hex_value 16 limit 0 (hex_fixed w (n div 16)) = Some (n div 16 mod 16 ^ w)"
    using Suc.prems by (intro Suc.IH) simp
  moreover have "n div 16 mod 16 ^ w * 16 + n mod 16 = n mod 16 ^ Suc w"
    by (simp add: mod_mult2_eq mult.commute)
  moreover have "n mod 16 ^ Suc w < limit"
    by (rule order_less_le_trans [OF _ Suc.prems]) simp
  ultimately show ?case by (simp add: parse_digits_append hex_value_digit)
qed simp

lemma hex_fixed_ascii: "b \<in> set (hex_fixed w n) \<Longrightarrow> b \<noteq> 43 \<and> b < 0x80"
  by (induction w arbitrary: n) (auto simp: hex_value_digit)

lemma from_str_radix_format_hex:
  assumes "n < 16 ^ w" "0 < w" "16 ^ w \<le> limit"
  shows "from_str_radix hex_value 16 limit (format_hex w n) = Some n"
proof -
  have "hex_fixed w n \<noteq> []" using assms(2) by (metis length_hex_fixed length_greater_0_conv)
  then have "from_str_radix hex_value 16 limit (hex_fixed w n) = parse_digits hex_value 16 limit 0 (hex_fixed w n)"
    using hex_fixed_ascii [of _ w n] by (cases "hex_fixed w n") (auto simp: from_str_radix_def)
  then show ?thesis
    using assms by (simp add: format_hex_fixed parse_hex_fixed)
qed

section \<open>UTF-16\<close>

text \<open>The UTF-8 bytes of a code point.\<close>

definition utf8_encode :: "nat \<Rightarrow> str" where
  "utf8_encode c =
     (if c < 0x80 then [of_nat c]
      else if c < 0x800 then [of_nat (0xC0 + c div 64), of_nat (0x80 + c mod 64)]
      else if c < 0x10000 then
        [of_nat (0xE0 + c div 4096), of_nat (0x80 + c div 64 mod 64), of_nat (0x80 + c mod 64)]
      else
        [of_nat (0xF0 + c div 262144), of_nat (0x80 + c div 4096 mod 64),
         of_nat (0x80 + c div 64 mod 64), of_nat (0x80 + c mod 64)])"

definition surrogate_pair :: "nat \<Rightarrow> nat \<Rightarrow> nat" where
  "surrogate_pair high low = 0x10000 + (high - 0xD800) * 1024 + (low - 0xDC00)"

text \<open>\<open>char::decode_utf16\<close> as \<open>String::from_utf16\<close> uses it: any unpaired surrogate is an error.\<close>

fun utf16_scalars :: "nat list \<Rightarrow> nat list option" where
  "utf16_scalars [] = Some []"
| "utf16_scalars (u # us) =
     (if u < 0xD800 \<or> 0xDFFF < u then map_option (Cons u) (utf16_scalars us)
      else if 0xDC00 \<le> u then None
      else case us of
             [] \<Rightarrow> None
           | v # vs \<Rightarrow>
               if 0xDC00 \<le> v \<and> v \<le> 0xDFFF then map_option (Cons (surrogate_pair u v)) (utf16_scalars vs)
               else None)"

definition from_utf16 :: "nat list \<Rightarrow> str option" where
  "from_utf16 us = map_option (\<lambda>cs. concat (map utf8_encode cs)) (utf16_scalars us)"

subsection \<open>Utf16String\<close>

record Utf16String =
  utf16_elements :: "nat list"

text \<open>\<open>Utf16String::decode\<close>, which lets a low surrogate without a high one pass.\<close>

fun utf16_decode :: "nat list \<Rightarrow> nat list result" where
  "utf16_decode [] = Ok []"
| "utf16_decode (u # us) =
     (if 0xD800 \<le> u \<and> u \<le> 0xDBFF then
        (case us of
           [] \<Rightarrow> Err (Type_error Utf16_missing_low_surrogate)
         | v # vs \<Rightarrow>
             if \<not> (0xDC00 \<le> v \<and> v \<le> 0xDFFF) then Err (Type_error Utf16_low_surrogate_out_of_bounds)
             else and_then (utf16_decode vs) (\<lambda>cs. Ok (surrogate_pair u v # cs)))
      else and_then (utf16_decode us) (\<lambda>cs. Ok (u # cs)))"

text \<open>\<open>Utf16String::from_le_bytes\<close>: elements up to the first zero; half an element panics.\<close>

fun utf16_le_elements :: "byte list \<Rightarrow> nat list result" where
  "utf16_le_elements [] = Ok []"
| "utf16_le_elements [_] = Err (Panic Index_out_of_bounds)"
| "utf16_le_elements (a # b # bs) =
     (let value_16bit = from_le_bytes [a, b]
      in if value_16bit = 0 then Ok []
         else and_then (utf16_le_elements bs) (\<lambda>us. Ok (value_16bit # us)))"

definition utf16_from_le_bytes :: "byte list \<Rightarrow> Utf16String result" where
  "utf16_from_le_bytes data = and_then (utf16_le_elements data) (\<lambda>us. Ok \<lparr>utf16_elements = us\<rparr>)"

text \<open>\<open>Display\<close>: \<open>String::from_utf16(\<dots>).unwrap()\<close>.\<close>

definition utf16_to_string :: "Utf16String \<Rightarrow> str result" where
  "utf16_to_string s = ok_or (Panic Unwrap_failed) (from_utf16 (utf16_elements s))"

lemma utf16_scalars_decode: "utf16_scalars us = Some cs \<Longrightarrow> utf16_decode us = Ok cs"
proof (induction us arbitrary: cs rule: utf16_scalars.induct)
  case (2 u us)
  show ?case
  proof (cases "u < 0xD800 \<or> 0xDFFF < u")
    case True
    with "2.prems" obtain r where "utf16_scalars us = Some r" "cs = u # r" by auto
    with "2.IH"(1) [OF True] True show ?thesis by auto
  next
    case False
    with "2.prems" obtain v vs r where u: "u \<le> 0xDBFF" and us: "us = v # vs" "0xDC00 \<le> v \<and> v \<le> 0xDFFF"
      and r: "utf16_scalars vs = Some r" "cs = surrogate_pair u v # r"
      by (simp split: if_splits list.splits) force
    have "utf16_decode vs = Ok r" using "2.IH"(2) [OF False _ us r(1)] u by simp
    with False u us r(2) show ?thesis by simp
  qed
qed simp

lemma utf16_le_elements_even:
  "even (length bs) \<Longrightarrow> \<exists>us. utf16_le_elements bs = Ok us \<and> length us \<le> length bs div 2"
  by (induction bs rule: utf16_le_elements.induct) (auto simp: Let_def)

text \<open>A string made of characters of the basic plane outside the surrogates is displayed.\<close>

lemma utf16_to_string_basic:
  assumes "\<forall>u \<in> set (utf16_elements s). u < 0xD800"
  shows "utf16_to_string s = Ok (concat (map utf8_encode (utf16_elements s)))"
proof -
  have "\<forall>u \<in> set us. u < 0xD800 \<Longrightarrow> utf16_scalars us = Some us" for us
    by (induction us) auto
  with assms show ?thesis by (simp add: utf16_to_string_def from_utf16_def)
qed

end
