(* ===== verification/Apm.thy ===== *)
theory Apm
  imports Volume_System Unicode_Text
begin

text \<open>
  The Apple Partition Map volume system (\<open>volume/apm/volume_system.rs\<close>, \<open>partition.rs\<close>).  The
  first entry of the map describes the map itself and gives the number of entries; every further
  entry describes a partition.  The lemmas show that the loop over the entries ends, that it
  returns one partition per entry, in the order of the map and with the range the entry gives,
  and that the partitions lie inside the source and do not overlap.
\<close>

section \<open>Partitions (partition.rs)\<close>

record ApmPartition =
  apm_entry_index :: nat
  apm_offset :: nat
  apm_size :: nat
  apm_type_identifier :: str
  apm_name :: str
  apm_status_flags :: nat

definition apm_partition_new :: "nat \<Rightarrow> nat \<Rightarrow> nat \<Rightarrow> str \<Rightarrow> str \<Rightarrow> nat \<Rightarrow> ApmPartition" where
  "apm_partition_new entry_index offset part_size type_identifier name status_flags =
     \<lparr>apm_entry_index = entry_index, apm_offset = offset, apm_size = part_size,
      apm_type_identifier = type_identifier, apm_name = name, apm_status_flags = status_flags\<rparr>"

definition apm_open_source :: "ApmPartition \<Rightarrow> data_source \<Rightarrow> data_source" where
  "apm_open_source p source = slice_source (slice_new source (apm_offset p) (apm_size p))"

section \<open>Entries of the map\<close>

record ApmPartitionMapEntry =
  ape_number_of_entries :: nat
  ape_start_sector :: nat
  ape_number_of_sectors :: nat
  ape_name :: str
  ape_type_identifier :: str
  ape_status_flags :: nat

definition apm_read_ascii_c_string :: "byte list \<Rightarrow> str" where
  "apm_read_ascii_c_string data = from_utf8_lossy (takeWhile (\<lambda>b. b \<noteq> 0) data)"

definition apm_entry_read_at :: "data_source \<Rightarrow> nat \<Rightarrow> ApmPartitionMapEntry result" where
  "apm_entry_read_at source offset =
     and_then (read_exact_at source offset 512) (\<lambda>data.
       if subslice 0 2 data \<noteq> [0x50, 0x4d] then Err (Volume_error Apm_signature)
       else Ok \<lparr>ape_number_of_entries = u32_be 4 data,
                ape_start_sector = u32_be 8 data,
                ape_number_of_sectors = u32_be 12 data,
                ape_name = apm_read_ascii_c_string (subslice 16 32 data),
                ape_type_identifier = apm_read_ascii_c_string (subslice 48 32 data),
                ape_status_flags = u32_be 88 data\<rparr>)"

section \<open>The volume system\<close>

record ApmVolumeSystem =
  apm_bytes_per_sector :: nat
  apm_partitions :: "ApmPartition list"

text \<open>The check of \<open>number_of_entries\<close>, which the first entry sets.\<close>

definition apm_check_number :: "nat option \<Rightarrow> ApmPartitionMapEntry \<Rightarrow> nat result" where
  "apm_check_number number_of_entries e =
     (if ape_number_of_entries e = 0 then Err (Volume_error Apm_no_entries)
      else case number_of_entries of
             Some expected \<Rightarrow>
               if ape_number_of_entries e \<noteq> expected then Err (Volume_error Apm_number_of_entries_mismatch)
               else Ok expected
           | None \<Rightarrow>
               if ape_type_identifier e \<noteq> lit ''Apple_partition_map'' then Err (Volume_error Apm_map_type)
               else Ok (ape_number_of_entries e))"

text \<open>The partition of an entry other than the first, and where it ends.\<close>

definition apm_partition_from_entry :: "nat \<Rightarrow> nat \<Rightarrow> nat \<Rightarrow> ApmPartitionMapEntry
    \<Rightarrow> (nat \<times> ApmPartition) result" where
  "apm_partition_from_entry src_size previous_end_offset entry_index e =
     and_then (ok_or (Volume_error Apm_partition_offset_overflow)
                (checked_mul (ape_start_sector e) 512)) (\<lambda>partition_offset.
     and_then (ok_or (Volume_error Apm_partition_size_overflow)
                (checked_mul (ape_number_of_sectors e) 512)) (\<lambda>partition_size.
     and_then (ok_or (Volume_error Apm_partition_end_overflow)
                (checked_add partition_offset partition_size)) (\<lambda>partition_end_offset.
       if partition_offset < previous_end_offset then Err (Volume_error Apm_overlap)
       else if src_size < partition_end_offset then Err (Volume_error Apm_out_of_bounds)
       else Ok (partition_end_offset,
                apm_partition_new (entry_index - 1) partition_offset partition_size
                  (ape_type_identifier e) (ape_name e) (ape_status_flags e)))))"

text \<open>The loop over the entries.\<close>

function apm_read_entries :: "data_source \<Rightarrow> nat \<Rightarrow> nat option \<Rightarrow> nat \<Rightarrow> nat \<Rightarrow> nat \<Rightarrow> ApmPartition list
    \<Rightarrow> ApmPartition list result" where
  "apm_read_entries source src_size number_of_entries previous_end_offset entry_index entry_offset partitions =
     and_then (apm_entry_read_at source entry_offset) (\<lambda>e.
     and_then (apm_check_number number_of_entries e) (\<lambda>number.
     and_then (if entry_index \<noteq> 0 then
                 and_then (apm_partition_from_entry src_size previous_end_offset entry_index e)
                   (\<lambda>(end_offset, partition). Ok (end_offset, partitions @ [partition]))
               else Ok (previous_end_offset, partitions)) (\<lambda>(previous_end_offset, partitions).
     and_then (add_u32 entry_index 1) (\<lambda>entry_index.
     and_then (ok_or (Volume_error Apm_map_offset_overflow) (checked_add entry_offset 512))
       (\<lambda>entry_offset.
          if number \<le> entry_index then Ok partitions
          else apm_read_entries source src_size (Some number) previous_end_offset entry_index
                 entry_offset partitions)))))"
  by pat_completeness auto
termination
  by (relation "measure (\<lambda>(_, _, _, _, _, offset, _). u64_limit - offset)") (auto simp: result_simps)

declare apm_read_entries.simps [simp del]

definition apm_open :: "data_source \<Rightarrow> ApmVolumeSystem result" where
  "apm_open source =
     and_then (ds_size source) (\<lambda>src_size.
     and_then (apm_read_entries source src_size None 0 0 512 []) (\<lambda>partitions.
       Ok \<lparr>apm_bytes_per_sector = 512, apm_partitions = partitions\<rparr>))"

definition apm_partition :: "ApmVolumeSystem \<Rightarrow> nat \<Rightarrow> ApmPartition result" where
  "apm_partition v partition_index =
     ok_or (Volume_error (Apm_no_partition partition_index)) (get_index (apm_partitions v) partition_index)"

section \<open>The partitions of an opened map\<close>

definition apm_ranges :: "ApmVolumeSystem \<Rightarrow> range list" where
  "apm_ranges v = map (\<lambda>p. (apm_offset p, apm_size p)) (apm_partitions v)"

text \<open>The partition an entry describes.\<close>

definition apm_describes :: "nat \<Rightarrow> ApmPartitionMapEntry \<Rightarrow> ApmPartition \<Rightarrow> bool" where
  "apm_describes i e p \<longleftrightarrow>
     apm_entry_index p = i \<and> apm_offset p = ape_start_sector e * 512
     \<and> apm_size p = ape_number_of_sectors e * 512 \<and> apm_type_identifier p = ape_type_identifier e
     \<and> apm_name p = ape_name e \<and> apm_status_flags p = ape_status_flags e"

text \<open>The first entry is that of the map itself; it gives the number of entries.\<close>

definition apm_map_entry :: "data_source \<Rightarrow> nat \<Rightarrow> bool" where
  "apm_map_entry ds m \<longleftrightarrow>
     (\<exists>e. apm_entry_read_at ds 512 = Ok e \<and> ape_type_identifier e = lit ''Apple_partition_map'' \<and> ape_number_of_entries e = m)"

text \<open>The state of the loop before the entry with index \<open>k\<close>.\<close>

definition apm_loop_inv :: "data_source \<Rightarrow> nat \<Rightarrow> nat option \<Rightarrow> nat \<Rightarrow> nat \<Rightarrow> ApmPartition list \<Rightarrow> bool" where
  "apm_loop_inv ds n number k prev ps \<longleftrightarrow>
     length ps = k - 1
     \<and> (\<forall>m. number = Some m \<longrightarrow> k \<le> m \<and> apm_map_entry ds m \<and> (\<forall>i < length ps. \<exists>e. apm_entry_read_at ds (512 * (i + 2)) = Ok e
          \<and> ape_number_of_entries e = m \<and> apm_describes i e (ps ! i)))
     \<and> (number = None \<longleftrightarrow> k = 0)
     \<and> sorted_wrt (\<lambda>p q. apm_offset p + apm_size p \<le> apm_offset q) ps
     \<and> (\<forall>p \<in> set ps. apm_offset p + apm_size p \<le> prev \<and> apm_offset p + apm_size p \<le> n)"

text \<open>What the loop returns: the entries 1 to \<open>m - 1\<close> of the map, in order.\<close>

definition apm_result :: "data_source \<Rightarrow> nat \<Rightarrow> ApmPartition list \<Rightarrow> bool" where
  "apm_result ds n ps \<longleftrightarrow>
     apm_map_entry ds (length ps + 1)
     \<and> (\<forall>i < length ps. \<exists>e. apm_entry_read_at ds (512 * (i + 2)) = Ok e
        \<and> ape_number_of_entries e = length ps + 1 \<and> apm_describes i e (ps ! i))
     \<and> sorted_wrt (\<lambda>p q. apm_offset p + apm_size p \<le> apm_offset q) ps
     \<and> (\<forall>p \<in> set ps. apm_offset p + apm_size p \<le> n)"

lemma apm_check_number_Ok:
  "apm_check_number number e = Ok m \<Longrightarrow>
     m = ape_number_of_entries e \<and> 0 < m \<and> (\<forall>m'. number = Some m' \<longrightarrow> m' = m)"
  by (auto simp: apm_check_number_def split: if_splits option.splits)

lemma apm_partition_from_entry_Ok:
  "apm_partition_from_entry n prev k e = Ok (end_offset, p) \<Longrightarrow>
     apm_describes (k - 1) e p \<and> prev \<le> apm_offset p \<and> end_offset = apm_offset p + apm_size p \<and> end_offset \<le> n"
  by (auto simp: apm_partition_from_entry_def apm_partition_new_def apm_describes_def result_simps
      split: if_splits)

lemma apm_loop_inv_step:
  assumes inv: "apm_loop_inv ds n number k prev ps" and k: "k \<noteq> 0"
    and e: "apm_entry_read_at ds (512 * (k + 1)) = Ok e" "ape_number_of_entries e = m" "number = Some m"
    and p: "apm_describes (k - 1) e p" "prev \<le> apm_offset p" "apm_offset p + apm_size p \<le> n"
    and m: "k < m"
  shows "apm_loop_inv ds n (Some m) (k + 1) (apm_offset p + apm_size p) (ps @ [p])"
proof -
  have len: "length ps = k - 1" using inv by (simp add: apm_loop_inv_def)
  have "\<exists>e. apm_entry_read_at ds (512 * (i + 2)) = Ok e \<and> ape_number_of_entries e = m
      \<and> apm_describes i e ((ps @ [p]) ! i)" if "i < length (ps @ [p])" for i
  proof (cases "i < length ps")
    case True
    then show ?thesis using inv e(3) by (auto simp: apm_loop_inv_def nth_append)
  next
    case False
    with that len k have "i = k - 1" by simp
    with e(1,2) p(1) k len show ?thesis by (intro exI [of _ e]) (simp add: nth_append)
  qed
  moreover have "\<forall>q \<in> set ps. apm_offset q + apm_size q \<le> apm_offset p"
    using inv p(2) by (fastforce simp: apm_loop_inv_def)
  ultimately show ?thesis
    using inv e(3) p m k len unfolding apm_loop_inv_def
    by (auto simp: sorted_wrt_append intro: order_trans le_add1)
qed

lemma apm_loop_inv_first:
  "apm_loop_inv ds n None 0 prev ps \<Longrightarrow> 0 < m \<Longrightarrow> apm_map_entry ds m \<Longrightarrow> apm_loop_inv ds n (Some m) 1 prev ps"
  by (auto simp: apm_loop_inv_def)

lemma apm_loop_inv_result:
  "apm_loop_inv ds n (Some m) k prev ps \<Longrightarrow> m \<le> k \<Longrightarrow> 0 < m \<Longrightarrow> apm_result ds n ps \<and> length ps + 1 = m"
  by (auto simp: apm_loop_inv_def apm_result_def)

text \<open>One iteration of the loop keeps the invariant.\<close>

lemma apm_iteration:
  assumes "apm_loop_inv ds n number k prev ps" "\<forall>m. number = Some m \<longrightarrow> k < m"
    and "apm_entry_read_at ds (512 * (k + 1)) = Ok e" "apm_check_number number e = Ok m"
    and "(if k \<noteq> 0 then and_then (apm_partition_from_entry n prev k e)
             (\<lambda>(end_offset, partition). Ok (end_offset, ps @ [partition]))
          else Ok (prev, ps)) = Ok (prev', ps')"
  shows "apm_loop_inv ds n (Some m) (k + 1) prev' ps' \<and> 0 < m"
proof -
  note m = apm_check_number_Ok [OF assms(4)]
  show ?thesis
  proof (cases "k = 0")
    case True
    have "number = None" using assms(2) m assms(1) True
      by (cases number) (auto simp: apm_loop_inv_def apm_check_number_def)
    moreover have "apm_map_entry ds m"
      using assms(3,4) True \<open>number = None\<close> by (auto simp: apm_map_entry_def apm_check_number_def split: if_splits)
    ultimately show ?thesis using True assms(1,5) m apm_loop_inv_first by simp
  next
    case False
    with assms(1) obtain m' where "number = Some m'"
      by (cases number) (auto simp: apm_loop_inv_def)
    with m have number: "number = Some m" by simp
    from False assms(5) obtain p where p: "apm_partition_from_entry n prev k e = Ok (prev', p)"
      and ps': "ps' = ps @ [p]" by (auto simp: result_simps)
    note desc = apm_partition_from_entry_Ok [OF p]
    have "apm_loop_inv ds n (Some m) (k + 1) (apm_offset p + apm_size p) (ps @ [p])"
      using assms(1-3) False m number desc by (intro apm_loop_inv_step) auto
    with desc ps' m show ?thesis by simp
  qed
qed

lemma apm_read_entries_Ok:
  assumes "apm_read_entries ds n number prev k off ps = Ok rs"
    and "apm_loop_inv ds n number k prev ps" "off = 512 * (k + 1)" "\<forall>m. number = Some m \<longrightarrow> k < m"
  shows "apm_result ds n rs"
  using assms
proof (induction ds n number prev k off ps rule: apm_read_entries.induct)
  case (1 ds n number prev k off ps)
  from "1.prems"(1) [unfolded apm_read_entries.simps [of ds n number prev k off ps]]
  obtain e m prev' ps' where e: "apm_entry_read_at ds off = Ok e"
    and m: "apm_check_number number e = Ok m"
    and ps': "(if k \<noteq> 0 then and_then (apm_partition_from_entry n prev k e)
        (\<lambda>(end_offset, partition). Ok (end_offset, ps @ [partition])) else Ok (prev, ps)) = Ok (prev', ps')"
    and k: "add_u32 k 1 = Ok (Suc k)"
    and off: "ok_or (Volume_error Apm_map_offset_overflow) (checked_add off 512) = Ok (off + 512)"
    and rest: "(if m \<le> Suc k then Ok ps' else apm_read_entries ds n (Some m) prev' (Suc k) (off + 512) ps') = Ok rs"
    by (simp only: and_then_eq_Ok) (auto simp: result_simps)
  have inv: "apm_loop_inv ds n (Some m) (Suc k) prev' ps' \<and> 0 < m"
    using apm_iteration [OF "1.prems"(2,4) _ m ps'] e "1.prems"(3) by simp
  show ?case
  proof (cases "m \<le> Suc k")
    case True
    with rest inv apm_loop_inv_result show ?thesis by auto
  next
    case False
    with "1.IH" [OF e m ps' refl k off False] rest inv "1.prems"(3) show ?thesis by simp
  qed
qed

lemma apm_open_Ok:
  assumes "apm_open ds = Ok v"
  obtains n where "ds_size ds = Ok n" "apm_result ds n (apm_partitions v)" "apm_bytes_per_sector v = 512"
proof -
  from assms obtain n where n: "ds_size ds = Ok n" "apm_bytes_per_sector v = 512"
    and loop: "apm_read_entries ds n None 0 0 512 [] = Ok (apm_partitions v)"
    by (auto simp: apm_open_def result_simps)
  have "apm_loop_inv ds n None 0 0 []" by (simp add: apm_loop_inv_def)
  with apm_read_entries_Ok [OF loop] n that show ?thesis by simp
qed

interpretation apm: bounded_volume_system apm_open apm_ranges
proof unfold_locales
  fix ds v
  assume "apm_open ds = Ok v"
  then obtain n where res: "ds_size ds = Ok n" "apm_result ds n (apm_partitions v)"
    by (rule apm_open_Ok)
  then have "sorted_wrt (\<lambda>p q. apm_offset p + apm_size p \<le> apm_offset q) (apm_partitions v)"
    by (simp add: apm_result_def)
  then show "ranges_disjoint (apm_ranges v)"
    unfolding ranges_disjoint_def apm_ranges_def sorted_wrt_map
    by (rule sorted_wrt_mono_rel [rotated]) (simp add: ranges_apart_def)
  show "range_inside n' r" if "ds_size ds = Ok n'" "r \<in> set (apm_ranges v)" for n' r
    using res that by (auto simp: apm_result_def apm_ranges_def range_inside_def)
qed

section \<open>A map with one partition\<close>

definition apm_sample_entry :: "byte \<Rightarrow> str \<Rightarrow> byte list" where
  "apm_sample_entry start kind =
     [0x50, 0x4d, 0, 0, 0, 0, 0, 2, 0, 0, 0, start, 0, 0, 0, 1] @ replicate 32 0 @ kind @ replicate (464 - length kind) 0"

definition apm_sample :: "byte list" where
  "apm_sample =
     replicate 512 0 @ apm_sample_entry 1 (lit ''Apple_partition_map'') @ apm_sample_entry 3 (lit ''Apple_HFS'')
     @ replicate 512 0"

definition apm_sample_volume :: ApmVolumeSystem where
  "apm_sample_volume =
     \<lparr>apm_bytes_per_sector = 512, apm_partitions = [apm_partition_new 0 1536 512 (lit ''Apple_HFS'') [] 0]\<rparr>"

lemma length_apm_sample_entry: "length kind \<le> 464 \<Longrightarrow> length (apm_sample_entry start kind) = 512"
  by (simp add: apm_sample_entry_def)

lemma length_apm_sample: "length apm_sample = 2048"
  by (simp add: apm_sample_def length_apm_sample_entry lit_def)

lemma apm_sample_source: "byte_source (memory_source (memory_new apm_sample)) apm_sample"
  by (rule memory_byte) (simp add: length_apm_sample u64_limit_def)

lemma apm_sample_strings:
  "apm_read_ascii_c_string (lit ''Apple_partition_map'' @ replicate n 0) = lit ''Apple_partition_map''"
  "apm_read_ascii_c_string (lit ''Apple_HFS'' @ replicate n 0) = lit ''Apple_HFS''"
  "apm_read_ascii_c_string (replicate n 0) = []"
proof -
  have ascii: "apm_read_ascii_c_string (s @ replicate n 0) = s"
    if "\<forall>b \<in> set s. b \<noteq> 0 \<and> b < 0x80" for s
  proof -
    have "takeWhile (\<lambda>b. b \<noteq> 0) (s @ replicate n 0) = s"
      using that by (cases n) (simp_all add: takeWhile_append)
    moreover have "from_utf8 s = Some s" using that by (intro from_utf8_ascii) simp
    ultimately show ?thesis using from_utf8_lossy_valid by (simp add: apm_read_ascii_c_string_def)
  qed
  show "apm_read_ascii_c_string (lit ''Apple_partition_map'' @ replicate n 0) = lit ''Apple_partition_map''"
    by (rule ascii) (simp add: lit_def)
  show "apm_read_ascii_c_string (lit ''Apple_HFS'' @ replicate n 0) = lit ''Apple_HFS''"
    by (rule ascii) (simp add: lit_def)
  show "apm_read_ascii_c_string (replicate n 0) = []" using ascii [of "[]"] by simp
qed

lemma apm_sample_read:
  assumes "read_exact_at ds off 512 = Ok (apm_sample_entry start kind)" "length kind \<le> 32"
  shows "apm_entry_read_at ds off = Ok \<lparr>ape_number_of_entries = 2, ape_start_sector = unat start,
      ape_number_of_sectors = 1, ape_name = [],
      ape_type_identifier = apm_read_ascii_c_string (kind @ replicate (32 - length kind) 0), ape_status_flags = 0\<rparr>"
proof -
  let ?d = "apm_sample_entry start kind"
  have "subslice 0 2 ?d = [0x50, 0x4d]" "u32_be 4 ?d = 2" "u32_be 8 ?d = unat start" "u32_be 12 ?d = 1"
    by (simp_all add: apm_sample_entry_def subslice_def u32_be_def from_be_bytes_def)
  moreover have "subslice 16 32 ?d = replicate 32 0" by (simp add: apm_sample_entry_def subslice_def)
  moreover have "subslice 48 32 ?d = kind @ replicate (32 - length kind) 0" "u32_be 88 ?d = 0"
    using assms(2) by (simp_all add: apm_sample_entry_def subslice_def u32_be_def)
  ultimately show ?thesis using assms(1) by (simp add: apm_entry_read_at_def apm_sample_strings)
qed

lemma apm_sample_sectors:
  "read_exact_at (memory_source (memory_new apm_sample)) 512 512 = Ok (apm_sample_entry 1 (lit ''Apple_partition_map''))"
  "read_exact_at (memory_source (memory_new apm_sample)) 1024 512 = Ok (apm_sample_entry 3 (lit ''Apple_HFS''))"
proof -
  have len: "length (apm_sample_entry 1 (lit ''Apple_partition_map'')) = 512"
    "length (apm_sample_entry 3 (lit ''Apple_HFS'')) = 512"
    by (simp_all add: length_apm_sample_entry lit_def)
  have read: "read_exact_at (memory_source (memory_new apm_sample)) off 512 = Ok (subslice off 512 apm_sample)"
    if "off + 512 \<le> 2048" for off
    using that by (intro memory_read_exact) (simp_all add: length_apm_sample u64_limit_def)
  show "read_exact_at (memory_source (memory_new apm_sample)) 512 512 = Ok (apm_sample_entry 1 (lit ''Apple_partition_map''))"
    "read_exact_at (memory_source (memory_new apm_sample)) 1024 512 = Ok (apm_sample_entry 3 (lit ''Apple_HFS''))"
    using read [of 512] read [of 1024] by (simp_all add: apm_sample_def subslice_def len)
qed

lemma apm_sample_open: "apm_open (memory_source (memory_new apm_sample)) = Ok apm_sample_volume"
proof -
  have len: "length (lit ''Apple_partition_map'') \<le> 32" "length (lit ''Apple_HFS'') \<le> 32"
    by (simp_all add: lit_def)
  note entries = apm_sample_read [OF apm_sample_sectors(1) len(1)] apm_sample_read [OF apm_sample_sectors(2) len(2)]
  show ?thesis
    by (simp add: apm_open_def memory_size length_apm_sample apm_read_entries.simps entries apm_sample_strings
        apm_check_number_def apm_partition_from_entry_def checked_mul_def checked_add_def u64_limit_def add_u32_def
        u32_limit_def apm_sample_volume_def)
qed

section \<open>Properties\<close>

text \<open>
  (C34) The first entry of an opened Apple Partition Map, at offset 512, is that of the map, and the
  partitions are those of all the other entries it counts: one for each, in the order of the map and with the
  range, name, type and flags of their entries.  They do not overlap, lie inside the source, and the source
  opened for one has the bytes of its range.
\<close>

theorem apm_partitions_from_map:
  assumes "byte_source ds content" "apm_open ds = Ok v"
  shows "(\<exists>map_entry. apm_entry_read_at ds 512 = Ok map_entry \<and> ape_type_identifier map_entry = lit ''Apple_partition_map''
        \<and> length (apm_partitions v) + 1 = ape_number_of_entries map_entry)
    \<and> ranges_disjoint (apm_ranges v)
    \<and> (\<forall>i < length (apm_partitions v). let p = apm_partitions v ! i in
         (\<exists>e. apm_entry_read_at ds (512 * (i + 2)) = Ok e \<and> apm_describes i e p)
         \<and> apm_offset p + apm_size p \<le> length content
         \<and> byte_source (apm_open_source p ds) (subslice (apm_offset p) (apm_size p) content))"
proof -
  obtain n where n: "ds_size ds = Ok n" "apm_result ds n (apm_partitions v)"
    using assms(2) by (rule apm_open_Ok)
  have "apm_offset p + apm_size p \<le> length content
      \<and> byte_source (apm_open_source p ds) (subslice (apm_offset p) (apm_size p) content)"
    if "p \<in> set (apm_partitions v)" for p
  proof -
    have r: "(apm_offset p, apm_size p) \<in> set (apm_ranges v)" using that by (simp add: apm_ranges_def)
    show ?thesis
      using apm.open_inside [OF assms(2) byte_source.size_content [OF assms(1)] r]
        apm.partition_source [OF assms r]
      by (simp add: range_inside_def apm_open_source_def)
  qed
  moreover have "\<exists>e. apm_entry_read_at ds (512 * (i + 2)) = Ok e \<and> apm_describes i e (apm_partitions v ! i)"
    if "i < length (apm_partitions v)" for i
    using n(2) that by (auto simp: apm_result_def)
  moreover have "\<exists>map_entry. apm_entry_read_at ds 512 = Ok map_entry \<and> ape_type_identifier map_entry = lit ''Apple_partition_map''
        \<and> length (apm_partitions v) + 1 = ape_number_of_entries map_entry"
    using n(2) by (auto simp: apm_result_def apm_map_entry_def)
  ultimately show ?thesis using apm.open_disjoint [OF assms(2)] by (simp add: Let_def)
qed

theorem apm_partitions_from_map_witness:
  "apm_open (memory_source (memory_new apm_sample)) = Ok apm_sample_volume
   \<and> byte_source (apm_open_source (apm_partition_new 0 1536 512 (lit ''Apple_HFS'') [] 0)
        (memory_source (memory_new apm_sample))) (subslice 1536 512 apm_sample)"
  using apm_partitions_from_map [OF apm_sample_source apm_sample_open] apm_sample_open
  by (simp add: apm_sample_volume_def apm_partition_new_def Let_def)

end
