(* ===== verification/Uuid.thy ===== *)
theory Uuid
  imports Unicode_Text
begin

text \<open>
  Universally unique identifiers (\<open>keramics-types/src/uuid.rs\<close>): reading them from bytes, the two
  special values, parsing and printing.  Parsing undoes printing.
\<close>

record Uuid =
  uuid_part1 :: nat
  uuid_part2 :: nat
  uuid_part3 :: nat
  uuid_part4 :: nat
  uuid_part5 :: nat

definition uuid_from_be_bytes :: "byte list \<Rightarrow> Uuid result" where
  "uuid_from_be_bytes data =
     (if length data < 16 then Err (Panic Index_out_of_bounds)
      else let part5_upper = u16_be 10 data;
               part5_lower = u32_be 12 data
           in Ok \<lparr>uuid_part1 = u32_be 0 data, uuid_part2 = u16_be 4 data, uuid_part3 = u16_be 6 data,
                  uuid_part4 = u16_be 8 data,
                  uuid_part5 = push_bit 32 part5_upper OR part5_lower\<rparr>)"

definition uuid_from_le_bytes :: "byte list \<Rightarrow> Uuid result" where
  "uuid_from_le_bytes data =
     (if length data < 16 then Err (Panic Index_out_of_bounds)
      else let part5_upper = u16_be 10 data;
               part5_lower = u32_be 12 data
           in Ok \<lparr>uuid_part1 = u32_le 0 data, uuid_part2 = u16_le 4 data, uuid_part3 = u16_le 6 data,
                  uuid_part4 = u16_be 8 data,
                  uuid_part5 = push_bit 32 part5_upper OR part5_lower\<rparr>)"

definition uuid_is_max :: "Uuid \<Rightarrow> bool" where
  "uuid_is_max u \<longleftrightarrow>
     uuid_part1 u = 0xffffffff \<and> uuid_part2 u = 0xffff \<and> uuid_part3 u = 0xffff
     \<and> uuid_part4 u = 0xffff \<and> uuid_part5 u = 0xffffffffffff"

definition uuid_is_nil :: "Uuid \<Rightarrow> bool" where
  "uuid_is_nil u \<longleftrightarrow>
     uuid_part1 u = 0 \<and> uuid_part2 u = 0 \<and> uuid_part3 u = 0 \<and> uuid_part4 u = 0 \<and> uuid_part5 u = 0"

text \<open>One part of the string: a slice, parsed as a hexadecimal number.\<close>

definition uuid_parse_part :: "nat \<Rightarrow> nat \<Rightarrow> str \<Rightarrow> nat \<Rightarrow> nat \<Rightarrow> nat result" where
  "uuid_parse_part part limit s a b =
     and_then (str_slice s a b) (\<lambda>digits.
       ok_or (Type_error (Uuid_part part)) (from_str_radix hex_value 16 limit digits))"

definition uuid_from_string :: "str \<Rightarrow> Uuid result" where
  "uuid_from_string string =
     (let braced = string \<noteq> [] \<and> hd string = 123 \<and> last string = 125;
          string_length = (if braced then length string - 2 else length string);
          string = (if braced then subslice 1 (length string - 2) string else string)
      in if string_length \<noteq> 36 then Err (Type_error Uuid_string_length)
         else
           and_then (str_slice string 8 9) (\<lambda>c1.
           if c1 \<noteq> lit ''-'' then Err (Type_error Uuid_string)
           else
           and_then (str_slice string 13 14) (\<lambda>c2.
           if c2 \<noteq> lit ''-'' then Err (Type_error Uuid_string)
           else
           and_then (str_slice string 18 19) (\<lambda>c3.
           if c3 \<noteq> lit ''-'' then Err (Type_error Uuid_string)
           else
           and_then (str_slice string 23 24) (\<lambda>c4.
           if c4 \<noteq> lit ''-'' then Err (Type_error Uuid_string)
           else
           and_then (uuid_parse_part 1 u32_limit string 0 8) (\<lambda>part1.
           and_then (uuid_parse_part 2 u16_limit string 9 13) (\<lambda>part2.
           and_then (uuid_parse_part 3 u16_limit string 14 18) (\<lambda>part3.
           and_then (uuid_parse_part 4 u16_limit string 19 23) (\<lambda>part4.
           and_then (uuid_parse_part 5 u64_limit string 24 36) (\<lambda>part5.
             Ok \<lparr>uuid_part1 = part1, uuid_part2 = part2, uuid_part3 = part3, uuid_part4 = part4,
                 uuid_part5 = part5\<rparr>))))))))))"

text \<open>\<open>Display\<close>: \<open>{:08x}-{:04x}-{:04x}-{:04x}-{:012x}\<close>\<close>

definition uuid_to_string :: "Uuid \<Rightarrow> str" where
  "uuid_to_string u =
     format_hex 8 (uuid_part1 u) @ lit ''-'' @ format_hex 4 (uuid_part2 u) @ lit ''-'' @
     format_hex 4 (uuid_part3 u) @ lit ''-'' @ format_hex 4 (uuid_part4 u) @ lit ''-'' @
     format_hex 12 (uuid_part5 u)"

text \<open>The range of the parts: \<open>part5\<close> is a \<open>u64\<close> of which an identifier uses 48 bits.\<close>

definition uuid_ok :: "Uuid \<Rightarrow> bool" where
  "uuid_ok u \<longleftrightarrow>
     uuid_part1 u < u32_limit \<and> uuid_part2 u < u16_limit \<and> uuid_part3 u < u16_limit
     \<and> uuid_part4 u < u16_limit \<and> uuid_part5 u < 2 ^ 48"

section \<open>Reading an identifier\<close>

lemma push_or_lt: "(a :: nat) < 2 ^ m \<Longrightarrow> b < 2 ^ 32 \<Longrightarrow> push_bit 32 a OR b < 2 ^ (m + 32)"
proof -
  assume "a < 2 ^ m" "b < 2 ^ 32"
  then have "take_bit m a = a" "take_bit 32 b = b"
    by (simp_all add: take_bit_nat_eq_self)
  then have "take_bit (m + 32) (push_bit 32 a OR b) = push_bit 32 a OR b"
    by (metis add.commute take_bit_or take_bit_push_bit take_bit_take_bit min.absorb2 le_add1
        diff_add_inverse2)
  then show ?thesis by (metis take_bit_nat_less_exp)
qed

lemma uuid_bytes_ok:
  "uuid_from_be_bytes data = Ok u \<Longrightarrow> uuid_ok u"
  "uuid_from_le_bytes data = Ok u \<Longrightarrow> uuid_ok u"
proof -
  have "push_bit 32 (u16_be 10 data) OR u32_be 12 data < 2 ^ (16 + 32)"
    using field_bounds [of 10 data] field_bounds [of 12 data]
    by (intro push_or_lt) (simp_all add: u16_limit_def u32_limit_def)
  then have "push_bit 32 (u16_be 10 data) OR u32_be 12 data < 2 ^ 48" by simp
  note bounds = field_bounds this
  show "uuid_from_be_bytes data = Ok u \<Longrightarrow> uuid_ok u" "uuid_from_le_bytes data = Ok u \<Longrightarrow> uuid_ok u"
    using bounds by (auto simp: uuid_from_be_bytes_def uuid_from_le_bytes_def uuid_ok_def Let_def split: if_splits)
qed

lemma uuid_from_le_bytes_total: "16 \<le> length data \<Longrightarrow> \<exists>u. uuid_from_le_bytes data = Ok u"
  by (simp add: uuid_from_le_bytes_def Let_def)

lemma uuid_from_be_bytes_total: "16 \<le> length data \<Longrightarrow> \<exists>u. uuid_from_be_bytes data = Ok u"
  by (simp add: uuid_from_be_bytes_def Let_def)

section \<open>Parsing what was printed\<close>

text \<open>A slice of an ASCII string never panics inside the string.\<close>

lemma str_slice_ascii:
  assumes "\<forall>c \<in> set s. c < 0x80" "a \<le> b" "b \<le> length s"
  shows "str_slice s a b = Ok (subslice a (b - a) s)"
proof -
  have "is_char_boundary s i" if "i \<le> length s" for i
  proof (cases "i < length s")
    case True
    then have "s ! i < 0x80" using assms(1) by simp
    then have "unat (s ! i) < 128" by (simp add: word_less_nat_alt)
    then have "\<not> bit (unat (s ! i)) 7" by (simp add: bit_iff_odd)
    then have "\<not> bit (s ! i) 7" by (simp add: bit_unsigned_iff)
    moreover have "bit (0x80 :: byte) 7" by simp
    ultimately have "s ! i AND 0xC0 \<noteq> 0x80"
      by (metis bit_and_iff)
    with True show ?thesis by (simp add: is_char_boundary_def)
  qed (use that in \<open>auto simp: is_char_boundary_def\<close>)
  with assms(2,3) show ?thesis by (simp add: str_slice_def)
qed

lemma uuid_string_parts:
  assumes "uuid_ok u"
  shows "uuid_to_string u =
    hex_fixed 8 (uuid_part1 u) @ lit ''-'' @ hex_fixed 4 (uuid_part2 u) @ lit ''-'' @
    hex_fixed 4 (uuid_part3 u) @ lit ''-'' @ hex_fixed 4 (uuid_part4 u) @ lit ''-'' @
    hex_fixed 12 (uuid_part5 u)"
  using assms by (simp add: uuid_to_string_def uuid_ok_def format_hex_fixed u16_limit_def u32_limit_def)

lemma uuid_string_ascii: "uuid_ok u \<Longrightarrow> \<forall>c \<in> set (uuid_to_string u). c < 0x80"
  by (auto simp: uuid_string_parts lit_def dest: hex_fixed_ascii)

lemma uuid_round_trip:
  assumes "uuid_ok u"
  shows "uuid_from_string (uuid_to_string u) = Ok u"
proof -
  note parts = uuid_string_parts [OF assms]
  have len: "length (uuid_to_string u) = 36" by (simp add: parts lit_def)
  have slices: "str_slice (uuid_to_string u) a b = Ok (subslice a (b - a) (uuid_to_string u))"
    if "a \<le> b" "b \<le> 36" for a b
    using that len by (intro str_slice_ascii uuid_string_ascii assms) auto
  have part: "uuid_parse_part k limit (uuid_to_string u) a b = Ok n"
    if "a < b" "b \<le> 36" "subslice a (b - a) (uuid_to_string u) = hex_fixed (b - a) n"
      "n < 16 ^ (b - a)" "16 ^ (b - a) \<le> limit" for k limit a b n
    using that from_str_radix_format_hex [of n "b - a" limit]
    by (simp add: uuid_parse_part_def slices format_hex_fixed)
  have p1: "uuid_parse_part k u32_limit (uuid_to_string u) 0 8 = Ok (uuid_part1 u)" for k
    using assms by (intro part) (simp_all add: parts subslice_def uuid_ok_def u32_limit_def)
  have p2: "uuid_parse_part k u16_limit (uuid_to_string u) 9 13 = Ok (uuid_part2 u)" for k
    using assms by (intro part) (simp_all add: parts subslice_def lit_def uuid_ok_def u16_limit_def)
  have p3: "uuid_parse_part k u16_limit (uuid_to_string u) 14 18 = Ok (uuid_part3 u)" for k
    using assms by (intro part) (simp_all add: parts subslice_def lit_def uuid_ok_def u16_limit_def)
  have p4: "uuid_parse_part k u16_limit (uuid_to_string u) 19 23 = Ok (uuid_part4 u)" for k
    using assms by (intro part) (simp_all add: parts subslice_def lit_def uuid_ok_def u16_limit_def)
  have p5: "uuid_parse_part k u64_limit (uuid_to_string u) 24 36 = Ok (uuid_part5 u)" for k
    using assms by (intro part) (simp_all add: parts subslice_def lit_def uuid_ok_def u64_limit_def)
  have dash: "subslice 8 (Suc 0) (uuid_to_string u) = lit ''-''" "subslice 13 (Suc 0) (uuid_to_string u) = lit ''-''"
    "subslice 18 (Suc 0) (uuid_to_string u) = lit ''-''" "subslice 23 (Suc 0) (uuid_to_string u) = lit ''-''"
    by (simp_all add: parts subslice_def lit_def)
  have "last (uuid_to_string u) \<noteq> 125"
  proof -
    have "last (uuid_to_string u) = hex_digit (uuid_part5 u mod 16)"
      using hex_fixed.simps(2) [of 11 "uuid_part5 u"] by (simp add: parts)
    then show ?thesis
      using hex_value_digit(1) [of "uuid_part5 u mod 16"] by (auto simp: hex_value_def)
  qed
  then show ?thesis
    by (simp add: uuid_from_string_def Let_def len slices dash p1 p2 p3 p4 p5)
qed

section \<open>Properties\<close>

text \<open>
  An identifier read from 16 bytes, in either byte order, prints as 36 characters, and
  parsing them gives the identifier back.
\<close>

theorem uuid_print_parse:
  assumes "uuid_from_le_bytes data = Ok u \<or> uuid_from_be_bytes data = Ok u"
  shows "length (uuid_to_string u) = 36 \<and> uuid_from_string (uuid_to_string u) = Ok u"
proof -
  have "uuid_ok u" using assms uuid_bytes_ok by blast
  then show ?thesis using uuid_round_trip by (simp add: uuid_string_parts lit_def)
qed

theorem uuid_print_parse_witness:
  "\<exists>u. uuid_from_le_bytes [0, 1, 2, 3, 4, 5, 6, 7, 8, 9, 10, 11, 12, 13, 14, 255] = Ok u
     \<and> uuid_from_string (uuid_to_string u) = Ok u"
proof -
  obtain u where u: "uuid_from_le_bytes [0, 1, 2, 3, 4, 5, 6, 7, 8, 9, 10, 11, 12, 13, 14, 255] = Ok u"
    using uuid_from_le_bytes_total [of "[0, 1, 2, 3, 4, 5, 6, 7, 8, 9, 10, 11, 12, 13, 14, 255]"] by auto
  with uuid_print_parse [OF disjI1 [OF u]] show ?thesis by blast
qed

text \<open>
  \<open>from_string\<close> does not reject every malformed string: a string of 36 bytes with a two-byte
  character across byte 8 makes the slice panic.
\<close>

theorem uuid_from_string_panics:
  "from_utf8 (replicate 7 48 @ [0xc3, 0xa9] @ replicate 27 48) = Some (replicate 7 48 @ [0xc3, 0xa9] @ replicate 27 48)
   \<and> uuid_from_string (replicate 7 48 @ [0xc3, 0xa9] @ replicate 27 48) = Err (Panic Index_out_of_bounds)"
proof -
  let ?s = "replicate 7 48 @ [0xc3, 0xa9] @ replicate 27 48 :: str"
  have "from_utf8 (replicate 27 48) = Some (replicate 27 48)"
    by (rule from_utf8_ascii) simp
  then have "from_utf8 ([0xc3, 0xa9] @ replicate 27 48) = Some ([0xc3, 0xa9] @ replicate 27 48)"
    by (simp add: utf8_chunk_def utf8_tail_def)
  then have "from_utf8 ?s = Some ?s"
    by (subst from_utf8_ascii_append) simp_all
  moreover have "\<not> is_char_boundary ?s 8" "length ?s = 36"
    by (simp_all add: is_char_boundary_def nth_append)
  then have "str_slice ?s 8 9 = Err (Panic Index_out_of_bounds)" by (simp add: str_slice_def)
  then have "uuid_from_string ?s = Err (Panic Index_out_of_bounds)"
    by (simp add: uuid_from_string_def Let_def)
  ultimately show ?thesis by blast
qed

end
