(* ===== verification/Crc32.thy ===== *)
theory Crc32
  imports Prelude
begin

text \<open>
  The CRC-32 checksums of \<open>keramics-checksums/src/crc32.rs\<close>: \<open>Crc32Context\<close>, which shifts to the
  left, and \<open>ReversedCrc32Context\<close>, which shifts to the right.  Both work through a table that
  the first update fills.  The locale \<open>table_crc\<close> states what a table-driven step needs, namely
  that the step on one bit is linear and that the checksum splits into the part the table covers
  and a part that is only shifted, and derives that the table computes the definition of the
  checksum bit by bit.
\<close>

section \<open>The contexts\<close>

record Crc32Context =
  crc_polynomial :: u32
  crc_initial_value :: u32
  crc_checksum :: u32
  crc_table :: "u32 list"
  crc_table_initialized :: bool

definition crc32_new :: "u32 \<Rightarrow> u32 \<Rightarrow> Crc32Context" where
  "crc32_new polynomial initial_value =
     \<lparr>crc_polynomial = polynomial, crc_initial_value = initial_value,
      crc_checksum = initial_value XOR 0xffffffff, crc_table = replicate 256 0,
      crc_table_initialized = False\<rparr>"

text \<open>The body of the inner loop of \<open>initialize_table\<close>.\<close>

definition crc_bit_step :: "u32 \<Rightarrow> u32 \<Rightarrow> u32" where
  "crc_bit_step polynomial checksum =
     (if checksum AND 0x80000000 \<noteq> 0 then polynomial XOR push_bit 1 checksum
      else push_bit 1 checksum)"

definition crc_initialize_table :: "Crc32Context \<Rightarrow> u32 \<Rightarrow> Crc32Context" where
  "crc_initialize_table ctx polynomial =
     ctx\<lparr>crc_table := map (\<lambda>table_index. (crc_bit_step polynomial ^^ 8) (push_bit 24 (of_nat table_index)))
            [0..<256],
         crc_table_initialized := True\<rparr>"

definition crc32_finalize :: "Crc32Context \<Rightarrow> u32 \<times> Crc32Context" where
  "crc32_finalize ctx =
     (crc_checksum ctx XOR 0xffffffff, ctx\<lparr>crc_checksum := crc_initial_value ctx XOR 0xffffffff\<rparr>)"

definition crc_table_step :: "u32 list \<Rightarrow> u32 \<Rightarrow> byte \<Rightarrow> u32" where
  "crc_table_step table checksum byte_value =
     (let table_index = (drop_bit 24 checksum XOR ucast byte_value) AND 0xff
      in table ! unat table_index XOR push_bit 8 checksum)"

definition crc32_update :: "Crc32Context \<Rightarrow> byte list \<Rightarrow> Crc32Context" where
  "crc32_update ctx data =
     (let ctx = (if crc_table_initialized ctx then ctx else crc_initialize_table ctx (crc_polynomial ctx))
      in ctx\<lparr>crc_checksum := foldl (crc_table_step (crc_table ctx)) (crc_checksum ctx) data\<rparr>)"

record ReversedCrc32Context =
  rcrc_polynomial :: u32
  rcrc_initial_value :: u32
  rcrc_checksum :: u32
  rcrc_table :: "u32 list"
  rcrc_table_initialized :: bool

definition rcrc32_new :: "u32 \<Rightarrow> u32 \<Rightarrow> ReversedCrc32Context" where
  "rcrc32_new polynomial initial_value =
     \<lparr>rcrc_polynomial = polynomial, rcrc_initial_value = initial_value,
      rcrc_checksum = initial_value XOR 0xffffffff, rcrc_table = replicate 256 0,
      rcrc_table_initialized = False\<rparr>"

definition rcrc_bit_step :: "u32 \<Rightarrow> u32 \<Rightarrow> u32" where
  "rcrc_bit_step polynomial checksum =
     (if checksum AND 1 \<noteq> 0 then polynomial XOR drop_bit 1 checksum else drop_bit 1 checksum)"

definition rcrc_initialize_table :: "ReversedCrc32Context \<Rightarrow> u32 \<Rightarrow> ReversedCrc32Context" where
  "rcrc_initialize_table ctx polynomial =
     ctx\<lparr>rcrc_table := map (\<lambda>table_index. (rcrc_bit_step polynomial ^^ 8) (of_nat table_index)) [0..<256],
         rcrc_table_initialized := True\<rparr>"

definition rcrc32_finalize :: "ReversedCrc32Context \<Rightarrow> u32 \<times> ReversedCrc32Context" where
  "rcrc32_finalize ctx =
     (rcrc_checksum ctx XOR 0xffffffff,
      ctx\<lparr>rcrc_checksum := rcrc_initial_value ctx XOR 0xffffffff\<rparr>)"

definition rcrc_table_step :: "u32 list \<Rightarrow> u32 \<Rightarrow> byte \<Rightarrow> u32" where
  "rcrc_table_step table checksum byte_value =
     (let table_index = (checksum XOR ucast byte_value) AND 0xff
      in table ! unat table_index XOR drop_bit 8 checksum)"

definition rcrc32_update :: "ReversedCrc32Context \<Rightarrow> byte list \<Rightarrow> ReversedCrc32Context" where
  "rcrc32_update ctx data =
     (let ctx = (if rcrc_table_initialized ctx then ctx
                 else rcrc_initialize_table ctx (rcrc_polynomial ctx))
      in ctx\<lparr>rcrc_checksum := foldl (rcrc_table_step (rcrc_table ctx)) (rcrc_checksum ctx) data\<rparr>)"

section \<open>Table-driven and bitwise steps\<close>

text \<open>
  \<open>step\<close> is the step on one bit, \<open>place\<close> the byte where the checksum takes it in, \<open>base\<close> the
  word whose eight steps the table holds, \<open>rest\<close> the part of the checksum outside that byte.
\<close>

locale table_crc =
  fixes step :: "u32 \<Rightarrow> u32"
    and place :: "byte \<Rightarrow> u32"
    and base :: "nat \<Rightarrow> u32"
    and index :: "u32 \<Rightarrow> byte \<Rightarrow> nat"
    and rest :: "u32 \<Rightarrow> u32"
    and shift :: "u32 \<Rightarrow> u32"
  assumes step_linear: "step (x XOR y) = step x XOR step y"
    and index_bound: "index c b < 256"
    and splits: "c XOR place b = base (index c b) XOR rest c"
    and rest_shift: "(step ^^ 8) (rest c) = shift c"
begin

lemma steps_linear: "(step ^^ n) (a XOR b) = (step ^^ n) a XOR (step ^^ n) b"
  by (induction n) (simp_all add: step_linear)

lemma table_step:
  "map (\<lambda>i. (step ^^ 8) (base i)) [0..<256] ! index c b XOR shift c = (step ^^ 8) (c XOR place b)"
  using index_bound [of c b] by (simp add: splits steps_linear rest_shift del: upt_Suc upt_rec_numeral)

end

subsection \<open>Shifting to the left\<close>

lemma crc_bit_step_bit:
  "crc_bit_step p c = (if bit c 31 then p XOR push_bit 1 c else push_bit 1 c)"
proof -
  have "(0x80000000 :: u32) = push_bit 31 1" by simp
  then have "c AND 0x80000000 \<noteq> 0 \<longleftrightarrow> bit c 31"
    by (simp only: and_exp_eq_0_iff_not_bit push_bit_of_1) simp
  then show ?thesis by (simp add: crc_bit_step_def)
qed

lemma crc_bit_step_linear: "crc_bit_step p (a XOR b) = crc_bit_step p a XOR crc_bit_step p b"
  by (auto simp: crc_bit_step_bit bit_xor_iff ac_simps)

lemma crc_steps_rest:
  "k \<le> 8 \<Longrightarrow> (crc_bit_step p ^^ k) (take_bit 24 c) = push_bit k (take_bit 24 c)"
proof (induction k)
  case (Suc k)
  then have "\<not> bit (push_bit k (take_bit 24 c)) 31"
    by (auto simp: bit_push_bit_iff bit_take_bit_iff)
  with Suc show ?case by (simp add: crc_bit_step_bit del: push_bit_Suc)
qed simp

lemma crc_split:
  fixes c :: u32 and b :: byte
  shows "c XOR push_bit 24 (ucast b)
    = push_bit 24 (of_nat (unat ((drop_bit 24 c XOR ucast b) AND 0xff))) XOR take_bit 24 c"
proof -
  have m: "(x :: u32) AND 0xff = take_bit 8 x" for x
    by (simp add: take_bit_eq_mask mask_eq_exp_minus_1)
  show ?thesis
    by (rule bit_word_eqI)
      (auto simp: m bit_simps split: if_splits)
qed

lemma masked_index_bound: "unat ((x :: u32) AND 0xff) < 256"
proof -
  have "x AND 0xff = take_bit 8 x" by (simp add: take_bit_eq_mask mask_eq_exp_minus_1)
  then show ?thesis by (simp add: take_bit_eq_mod unat_mod)
qed

interpretation crc: table_crc "crc_bit_step p" "\<lambda>b. push_bit 24 (ucast b)" "\<lambda>i. push_bit 24 (of_nat i)"
    "\<lambda>c b. unat ((drop_bit 24 c XOR ucast b) AND 0xff)" "take_bit 24" "push_bit 8" for p
proof unfold_locales
  fix c :: u32
  have "push_bit 8 (take_bit 24 c) = push_bit 8 c"
    by (rule bit_word_eqI) (auto simp: bit_simps)
  then show "(crc_bit_step p ^^ 8) (take_bit 24 c) = push_bit 8 c"
    by (simp only: crc_steps_rest [OF order_refl])
qed (rule crc_bit_step_linear masked_index_bound crc_split)+

subsection \<open>Shifting to the right\<close>

lemma rcrc_bit_step_bit:
  "rcrc_bit_step p c = (if bit c 0 then p XOR drop_bit 1 c else drop_bit 1 c)"
  by (simp add: rcrc_bit_step_def and_one_eq bit_0 odd_iff_mod_2_eq_one)

lemma rcrc_bit_step_linear: "rcrc_bit_step p (a XOR b) = rcrc_bit_step p a XOR rcrc_bit_step p b"
  by (auto simp: rcrc_bit_step_bit bit_xor_iff ac_simps)

lemma rcrc_steps_rest:
  "k \<le> 8 \<Longrightarrow> (rcrc_bit_step p ^^ k) (push_bit 8 (drop_bit 8 c)) = drop_bit k (push_bit 8 (drop_bit 8 c))"
proof (induction k)
  case (Suc k)
  then have "\<not> bit (drop_bit k (push_bit 8 (drop_bit 8 c))) 0"
    by (simp add: bit_drop_bit_eq bit_push_bit_iff)
  with Suc show ?case by (simp add: rcrc_bit_step_bit)
qed simp

lemma rcrc_split:
  fixes c :: u32 and b :: byte
  shows "c XOR ucast b = of_nat (unat ((c XOR ucast b) AND 0xff)) XOR push_bit 8 (drop_bit 8 c)"
proof -
  have m: "(x :: u32) AND 0xff = take_bit 8 x" for x
    by (simp add: take_bit_eq_mask mask_eq_exp_minus_1)
  show ?thesis
    by (rule bit_word_eqI)
      (auto simp: m bit_simps split: if_splits dest: bit_imp_le_length)
qed

interpretation rcrc: table_crc "rcrc_bit_step p" ucast of_nat "\<lambda>c b. unat ((c XOR ucast b) AND 0xff)"
    "\<lambda>c. push_bit 8 (drop_bit 8 c)" "drop_bit 8" for p
proof unfold_locales
  fix c :: u32
  have "drop_bit 8 (push_bit 8 (drop_bit 8 c)) = drop_bit 8 c"
    by (rule bit_word_eqI) (auto simp: bit_simps dest: bit_imp_le_length)
  then show "(rcrc_bit_step p ^^ 8) (push_bit 8 (drop_bit 8 c)) = drop_bit 8 c"
    by (simp only: rcrc_steps_rest [OF order_refl])
qed (rule rcrc_bit_step_linear masked_index_bound rcrc_split)+

section \<open>The definition of the checksum and the contexts\<close>

text \<open>The checksum as it is defined: a byte is added in and eight bits are shifted out.\<close>

definition crc_spec :: "u32 \<Rightarrow> u32 \<Rightarrow> byte list \<Rightarrow> u32" where
  "crc_spec p initial_value data =
     foldl (\<lambda>c b. (crc_bit_step p ^^ 8) (c XOR push_bit 24 (ucast b))) (initial_value XOR 0xffffffff) data
       XOR 0xffffffff"

definition rcrc_spec :: "u32 \<Rightarrow> u32 \<Rightarrow> byte list \<Rightarrow> u32" where
  "rcrc_spec p initial_value data =
     foldl (\<lambda>c b. (rcrc_bit_step p ^^ 8) (c XOR ucast b)) (initial_value XOR 0xffffffff) data
       XOR 0xffffffff"

text \<open>A use of a context: updates and finalizations in any order, with the checksums returned.\<close>

datatype crc_call = Update "byte list" | Finalize

fun crc_run :: "Crc32Context \<Rightarrow> crc_call list \<Rightarrow> u32 list" where
  "crc_run ctx [] = []"
| "crc_run ctx (Update data # calls) = crc_run (crc32_update ctx data) calls"
| "crc_run ctx (Finalize # calls) =
     (case crc32_finalize ctx of (checksum, ctx') \<Rightarrow> checksum # crc_run ctx' calls)"

fun rcrc_run :: "ReversedCrc32Context \<Rightarrow> crc_call list \<Rightarrow> u32 list" where
  "rcrc_run ctx [] = []"
| "rcrc_run ctx (Update data # calls) = rcrc_run (rcrc32_update ctx data) calls"
| "rcrc_run ctx (Finalize # calls) =
     (case rcrc32_finalize ctx of (checksum, ctx') \<Rightarrow> checksum # rcrc_run ctx' calls)"

text \<open>What the calls should return: one checksum per \<open>Finalize\<close>, of the data given since the one before.\<close>

fun crc_expected :: "(byte list \<Rightarrow> u32) \<Rightarrow> byte list \<Rightarrow> crc_call list \<Rightarrow> u32 list" where
  "crc_expected spec pending [] = []"
| "crc_expected spec pending (Update data # calls) = crc_expected spec (pending @ data) calls"
| "crc_expected spec pending (Finalize # calls) = spec pending # crc_expected spec [] calls"

text \<open>The table is the one of the polynomial as soon as it is initialized.\<close>

definition crc_inv :: "u32 \<Rightarrow> u32 \<Rightarrow> byte list \<Rightarrow> Crc32Context \<Rightarrow> bool" where
  "crc_inv p i pending ctx \<longleftrightarrow>
     crc_polynomial ctx = p \<and> crc_initial_value ctx = i
     \<and> crc_checksum ctx XOR 0xffffffff = crc_spec p i pending
     \<and> (crc_table_initialized ctx \<longrightarrow>
          crc_table ctx = map (\<lambda>k. (crc_bit_step p ^^ 8) (push_bit 24 (of_nat k))) [0..<256])"

definition rcrc_inv :: "u32 \<Rightarrow> u32 \<Rightarrow> byte list \<Rightarrow> ReversedCrc32Context \<Rightarrow> bool" where
  "rcrc_inv p i pending ctx \<longleftrightarrow>
     rcrc_polynomial ctx = p \<and> rcrc_initial_value ctx = i
     \<and> rcrc_checksum ctx XOR 0xffffffff = rcrc_spec p i pending
     \<and> (rcrc_table_initialized ctx \<longrightarrow>
          rcrc_table ctx = map (\<lambda>k. (rcrc_bit_step p ^^ 8) (of_nat k)) [0..<256])"

lemma xor_mask_cancel: "(a :: u32) XOR m = b XOR m \<longleftrightarrow> a = b"
  by (metis xor.assoc xor_self_eq xor.right_neutral)

lemma crc_table_step_spec:
  "crc_table_step (map (\<lambda>k. (crc_bit_step p ^^ 8) (push_bit 24 (of_nat k))) [0..<256])
     = (\<lambda>c b. (crc_bit_step p ^^ 8) (c XOR push_bit 24 (ucast b)))"
  unfolding crc_table_step_def Let_def by (intro ext) (rule crc.table_step)

lemma rcrc_table_step_spec:
  "rcrc_table_step (map (\<lambda>k. (rcrc_bit_step p ^^ 8) (of_nat k)) [0..<256])
     = (\<lambda>c b. (rcrc_bit_step p ^^ 8) (c XOR ucast b))"
  unfolding rcrc_table_step_def Let_def by (intro ext) (rule rcrc.table_step)

lemma crc_inv_new: "crc_inv p i [] (crc32_new p i)"
  by (simp add: crc_inv_def crc32_new_def crc_spec_def)

lemma rcrc_inv_new: "rcrc_inv p i [] (rcrc32_new p i)"
  by (simp add: rcrc_inv_def rcrc32_new_def rcrc_spec_def)

lemma crc_inv_update: "crc_inv p i pending ctx \<Longrightarrow> crc_inv p i (pending @ data) (crc32_update ctx data)"
  by (auto simp: crc_inv_def crc32_update_def crc_initialize_table_def crc_table_step_spec crc_spec_def
      xor_mask_cancel Let_def simp del: upt_rec_numeral)

lemma rcrc_inv_update: "rcrc_inv p i pending ctx \<Longrightarrow> rcrc_inv p i (pending @ data) (rcrc32_update ctx data)"
  by (auto simp: rcrc_inv_def rcrc32_update_def rcrc_initialize_table_def rcrc_table_step_spec rcrc_spec_def
      xor_mask_cancel Let_def simp del: upt_rec_numeral)

lemma crc_inv_finalize:
  "crc_inv p i pending ctx \<Longrightarrow> \<exists>ctx'. crc32_finalize ctx = (crc_spec p i pending, ctx') \<and> crc_inv p i [] ctx'"
  by (auto simp: crc_inv_def crc32_finalize_def crc_spec_def simp del: upt_rec_numeral)

lemma rcrc_inv_finalize:
  "rcrc_inv p i pending ctx \<Longrightarrow> \<exists>ctx'. rcrc32_finalize ctx = (rcrc_spec p i pending, ctx') \<and> rcrc_inv p i [] ctx'"
  by (auto simp: rcrc_inv_def rcrc32_finalize_def rcrc_spec_def simp del: upt_rec_numeral)

lemma crc_run_inv: "crc_inv p i pending ctx \<Longrightarrow> crc_run ctx calls = crc_expected (crc_spec p i) pending calls"
proof (induction calls arbitrary: ctx pending)
  case (Cons call calls)
  then show ?case
    using crc_inv_update [OF Cons.prems] crc_inv_finalize [OF Cons.prems] by (cases call) force+
qed simp

lemma rcrc_run_inv:
  "rcrc_inv p i pending ctx \<Longrightarrow> rcrc_run ctx calls = crc_expected (rcrc_spec p i) pending calls"
proof (induction calls arbitrary: ctx pending)
  case (Cons call calls)
  then show ?case
    using rcrc_inv_update [OF Cons.prems] rcrc_inv_finalize [OF Cons.prems] by (cases call) force+
qed simp

section \<open>Properties\<close>

text \<open>
  Any sequence of updates and finalizations on a \<open>Crc32Context\<close> returns, at each finalization,
  the CRC-32 of the bytes given since the previous one, computed bit by bit with the polynomial:
  the table, its lazy initialization, the split of the data into updates and the reset at a
  finalization make no difference.
\<close>

theorem crc32_matches_bitwise:
  "crc_run (crc32_new polynomial initial_value) calls = crc_expected (crc_spec polynomial initial_value) [] calls"
  by (rule crc_run_inv [OF crc_inv_new])

text \<open>(C10) The same for \<open>ReversedCrc32Context\<close>, which takes the bits in the other order.\<close>

theorem reversed_crc32_matches_bitwise:
  "rcrc_run (rcrc32_new polynomial initial_value) calls = crc_expected (rcrc_spec polynomial initial_value) [] calls"
  by (rule rcrc_run_inv [OF rcrc_inv_new])

end
