(* ===== verification/Gpt.thy ===== *)
theory Gpt
  imports Volume_System Uuid Crc32
begin

text \<open>
  The GUID Partition Table volume system (\<open>volume/gpt/volume_system.rs\<close>, \<open>partition.rs\<close>): the
  primary and the backup header with their checksums, and the table of entries.  The lemmas show
  that the partitions of an opened table lie in the usable area of the header, do not overlap,
  cover whole sectors, keep the order of the table, and that a stored checksum of the table is
  the CRC-32 of the bytes of the table.
\<close>

section \<open>Partitions (partition.rs)\<close>

record GptPartition =
  gpt_entry_index :: nat
  gpt_offset :: nat
  gpt_size :: nat
  gpt_type_identifier :: Uuid
  gpt_identifier :: Uuid
  gpt_attribute_flags :: nat
  gpt_name :: str

definition gpt_partition_new :: "nat \<Rightarrow> nat \<Rightarrow> nat \<Rightarrow> Uuid \<Rightarrow> Uuid \<Rightarrow> nat \<Rightarrow> str \<Rightarrow> GptPartition" where
  "gpt_partition_new entry_index offset part_size type_identifier identifier attribute_flags name =
     \<lparr>gpt_entry_index = entry_index, gpt_offset = offset, gpt_size = part_size,
      gpt_type_identifier = type_identifier, gpt_identifier = identifier,
      gpt_attribute_flags = attribute_flags, gpt_name = name\<rparr>"

definition gpt_open_source :: "GptPartition \<Rightarrow> data_source \<Rightarrow> data_source" where
  "gpt_open_source p source = slice_source (slice_new source (gpt_offset p) (gpt_size p))"

section \<open>Headers and entries\<close>

record GptPartitionTableHeader =
  gph_header_block_number :: nat
  gph_backup_header_block_number :: nat
  gph_area_start_block_number :: nat
  gph_area_end_block_number :: nat
  gph_disk_identifier :: Uuid
  gph_entries_start_block_number :: nat
  gph_number_of_entries :: nat
  gph_entry_data_size :: nat
  gph_entries_data_checksum :: nat

record GptPartitionEntry =
  gpe_index :: nat
  gpe_type_identifier :: Uuid
  gpe_identifier :: Uuid
  gpe_start_block_number :: nat
  gpe_end_block_number :: nat
  gpe_attribute_flags :: nat
  gpe_name :: str

text \<open>The checksum of a byte sequence: a new context, one update, finalize.\<close>

definition gpt_crc32 :: "byte list \<Rightarrow> nat" where
  "gpt_crc32 data = unat (fst (rcrc32_finalize (rcrc32_update (rcrc32_new 0xedb88320 0) data)))"

definition gpt_header_read_at :: "data_source \<Rightarrow> nat \<Rightarrow> nat \<Rightarrow> GptPartitionTableHeader result" where
  "gpt_header_read_at source offset bytes_per_sector =
     and_then (read_exact_at source offset bytes_per_sector) (\<lambda>data.
       if subslice 0 8 data \<noteq> lit ''EFI PART'' then Err (Gpt_error Gpt_signature)
       else if u32_le 8 data \<noteq> 0x00010000 then Err (Gpt_error Gpt_format_version)
       else let header_data_size = u32_le 12 data in
         if header_data_size < 92 \<or> bytes_per_sector < header_data_size then Err (Gpt_error Gpt_header_size)
         else
           let stored_checksum = u32_le 16 data;
               checksum_data = subslice 0 16 data @ replicate 4 0 @ subslice 20 (header_data_size - 20) data;
               calculated_checksum = gpt_crc32 checksum_data
           in if stored_checksum \<noteq> 0 \<and> stored_checksum \<noteq> calculated_checksum
              then Err (Gpt_error Gpt_header_checksum)
              else
                and_then (uuid_from_le_bytes (subslice 56 16 data)) (\<lambda>disk_identifier.
                  Ok \<lparr>gph_header_block_number = u64_le 24 data,
                      gph_backup_header_block_number = u64_le 32 data,
                      gph_area_start_block_number = u64_le 40 data,
                      gph_area_end_block_number = u64_le 48 data,
                      gph_disk_identifier = disk_identifier,
                      gph_entries_start_block_number = u64_le 72 data,
                      gph_number_of_entries = u32_le 80 data,
                      gph_entry_data_size = u32_le 84 data,
                      gph_entries_data_checksum = u32_le 88 data\<rparr>))"

definition gpt_entry_read_data :: "nat \<Rightarrow> byte list \<Rightarrow> nat \<Rightarrow> GptPartitionEntry result" where
  "gpt_entry_read_data index data entry_data_size =
     (if length data \<noteq> entry_data_size \<or> entry_data_size < 128 then Err (Gpt_error Gpt_entry_size)
      else
        and_then (utf16_from_le_bytes (subslice 56 72 data)) (\<lambda>name_elements.
        and_then (utf16_to_string name_elements) (\<lambda>name.
        and_then (uuid_from_le_bytes (subslice 0 16 data)) (\<lambda>type_identifier.
        and_then (uuid_from_le_bytes (subslice 16 16 data)) (\<lambda>identifier.
          Ok \<lparr>gpe_index = index, gpe_type_identifier = type_identifier, gpe_identifier = identifier,
              gpe_start_block_number = u64_le 32 data, gpe_end_block_number = u64_le 40 data,
              gpe_attribute_flags = u64_le 48 data, gpe_name = name\<rparr>)))))"

definition gpt_entry_is_empty :: "GptPartitionEntry \<Rightarrow> bool" where
  "gpt_entry_is_empty e \<longleftrightarrow> uuid_is_nil (gpe_type_identifier e)"

section \<open>The volume system\<close>

record GptVolumeSystem =
  gpt_bytes_per_sector :: nat
  gpt_disk_identifier :: Uuid
  gpt_partitions :: "GptPartition list"

definition gpt_supported_bytes_per_sector :: "nat list" where
  "gpt_supported_bytes_per_sector = [512, 4096, 2048, 1024]"

definition gpt_read_backup_header :: "data_source \<Rightarrow> nat \<Rightarrow> nat \<Rightarrow> GptPartitionTableHeader
    \<Rightarrow> GptPartitionTableHeader result" where
  "gpt_read_backup_header source src_size bytes_per_sector primary_header =
     and_then (ok_or (Gpt_error Gpt_backup_offset_overflow)
                (checked_mul (gph_backup_header_block_number primary_header) bytes_per_sector)) (\<lambda>backup_offset.
       case gpt_header_read_at source backup_offset bytes_per_sector of
         Inr backup_header \<Rightarrow> Ok backup_header
       | Inl (Panic p) \<Rightarrow> Err (Panic p)
       | Inl _ \<Rightarrow>
           and_then (ok_or (Gpt_error Gpt_source_too_small) (checked_sub src_size bytes_per_sector))
             (\<lambda>fallback_offset. gpt_header_read_at source fallback_offset bytes_per_sector))"

text \<open>The checks on a used entry of the table and the partition it gives.\<close>

definition gpt_partition_from_entry :: "nat \<Rightarrow> GptPartitionTableHeader \<Rightarrow> nat option \<Rightarrow> GptPartitionEntry
    \<Rightarrow> GptPartition result" where
  "gpt_partition_from_entry bytes_per_sector header previous_end_block e =
     (if gpe_start_block_number e < gph_area_start_block_number header
         \<or> gph_area_end_block_number header < gpe_end_block_number e
      then Err (Gpt_error Gpt_entry_out_of_bounds)
      else if gpe_end_block_number e < gpe_start_block_number e then Err (Gpt_error Gpt_entry_end_before_start)
      else if (case previous_end_block of Some b \<Rightarrow> gpe_start_block_number e \<le> b | None \<Rightarrow> False)
      then Err (Gpt_error Gpt_overlap)
      else
        and_then (ok_or (Gpt_error Gpt_partition_offset_overflow)
                   (checked_mul (gpe_start_block_number e) bytes_per_sector)) (\<lambda>partition_offset.
        and_then (ok_or (Gpt_error Gpt_partition_size_overflow)
                   (Option.bind (checked_sub (gpe_end_block_number e) (gpe_start_block_number e))
                      (\<lambda>blocks. checked_add blocks 1))) (\<lambda>partition_size_in_blocks.
        and_then (ok_or (Gpt_error Gpt_partition_byte_size_overflow)
                   (checked_mul partition_size_in_blocks bytes_per_sector)) (\<lambda>partition_size.
          Ok (gpt_partition_new (gpe_index e) partition_offset partition_size (gpe_type_identifier e)
                (gpe_identifier e) (gpe_attribute_flags e) (gpe_name e))))))"

definition gpt_end_block :: "nat \<Rightarrow> GptPartition \<Rightarrow> nat result" where
  "gpt_end_block bytes_per_sector p =
     and_then (add_u64 (gpt_offset p div bytes_per_sector) (gpt_size p div bytes_per_sector))
       (\<lambda>end_block. sub_u64 end_block 1)"

text \<open>The loop over the entries, with the checksum context it carries along.\<close>

fun gpt_read_entries :: "data_source \<Rightarrow> nat \<Rightarrow> GptPartitionTableHeader \<Rightarrow> nat \<Rightarrow> nat list
    \<Rightarrow> ReversedCrc32Context \<Rightarrow> nat option \<Rightarrow> GptPartition list
    \<Rightarrow> (ReversedCrc32Context \<times> GptPartition list) result" where
  "gpt_read_entries source bytes_per_sector header entries_start_offset [] ctx previous_end_block partitions =
     Ok (ctx, partitions)"
| "gpt_read_entries source bytes_per_sector header entries_start_offset (entry_index # indices) ctx
       previous_end_block partitions =
     and_then (mul_u64 entry_index (gph_entry_data_size header)) (\<lambda>relative_offset.
     and_then (ok_or (Gpt_error Gpt_entry_offset_overflow) (checked_add entries_start_offset relative_offset))
       (\<lambda>entry_offset.
     and_then (read_exact_at source entry_offset (gph_entry_data_size header)) (\<lambda>entry_data.
     let ctx = rcrc32_update ctx entry_data in
     and_then (gpt_entry_read_data entry_index entry_data (gph_entry_data_size header)) (\<lambda>partition_entry.
       if gpt_entry_is_empty partition_entry then
         gpt_read_entries source bytes_per_sector header entries_start_offset indices ctx
           previous_end_block partitions
       else
         and_then (gpt_partition_from_entry bytes_per_sector header previous_end_block partition_entry)
           (\<lambda>partition.
         and_then (gpt_end_block bytes_per_sector partition) (\<lambda>end_block.
           gpt_read_entries source bytes_per_sector header entries_start_offset indices ctx
             (Some end_block) (partitions @ [partition])))))))"

definition gpt_read_partition_entries :: "data_source \<Rightarrow> nat \<Rightarrow> GptPartitionTableHeader
    \<Rightarrow> GptPartition list result" where
  "gpt_read_partition_entries source bytes_per_sector header =
     and_then (ok_or (Gpt_error Gpt_table_size_overflow)
                (checked_mul (gph_number_of_entries header) (gph_entry_data_size header))) (\<lambda>total_entries_size.
     and_then (ok_or (Gpt_error Gpt_entries_start_overflow)
                (checked_mul (gph_entries_start_block_number header) bytes_per_sector)) (\<lambda>entries_start_offset.
     and_then (ok_or (Gpt_error Gpt_first_usable_overflow)
                (checked_mul (gph_area_start_block_number header) bytes_per_sector)) (\<lambda>first_usable_offset.
       if first_usable_offset < entries_start_offset then Err (Gpt_error Gpt_entries_in_usable_area)
       else
         and_then (add_u64 entries_start_offset total_entries_size) (\<lambda>entries_end_offset.
           if first_usable_offset < entries_end_offset then Err (Gpt_error Gpt_table_overlaps_usable_area)
           else
             and_then (gpt_read_entries source bytes_per_sector header entries_start_offset
                        [0..<gph_number_of_entries header] (rcrc32_new 0xedb88320 0) None [])
               (\<lambda>(ctx, partitions).
                  let calculated_checksum = unat (fst (rcrc32_finalize ctx)) in
                  if gph_entries_data_checksum header \<noteq> 0
                     \<and> gph_entries_data_checksum header \<noteq> calculated_checksum
                  then Err (Gpt_error Gpt_entries_checksum)
                  else Ok partitions)))))"

definition gpt_open_with_bytes_per_sector :: "data_source \<Rightarrow> nat \<Rightarrow> GptVolumeSystem result" where
  "gpt_open_with_bytes_per_sector source bytes_per_sector =
     (if bytes_per_sector \<notin> set gpt_supported_bytes_per_sector then Err (Gpt_error Gpt_bytes_per_sector)
      else
        and_then (ds_size source) (\<lambda>src_size.
        and_then (gpt_header_read_at source bytes_per_sector bytes_per_sector) (\<lambda>primary_header.
          if gph_header_block_number primary_header \<noteq> 1 then Err (Gpt_error Gpt_primary_block_number)
          else if gph_area_end_block_number primary_header < gph_area_start_block_number primary_header
          then Err (Gpt_error Gpt_area_range)
          else if gph_number_of_entries primary_header = 0 then Err (Gpt_error Gpt_no_entries)
          else if gph_entry_data_size primary_header < 128 \<or> gph_entry_data_size primary_header mod 8 \<noteq> 0
          then Err (Gpt_error Gpt_entry_data_size)
          else
            and_then (gpt_read_backup_header source src_size bytes_per_sector primary_header) (\<lambda>_.
            and_then (gpt_read_partition_entries source bytes_per_sector primary_header) (\<lambda>partitions.
              Ok \<lparr>gpt_bytes_per_sector = bytes_per_sector,
                  gpt_disk_identifier = gph_disk_identifier primary_header,
                  gpt_partitions = partitions\<rparr>)))))"

definition gpt_open :: "data_source \<Rightarrow> GptVolumeSystem result" where
  "gpt_open source =
     open_first (gpt_open_with_bytes_per_sector source) (Gpt_error Gpt_undetermined_bytes_per_sector)
       gpt_supported_bytes_per_sector"

definition gpt_partition :: "GptVolumeSystem \<Rightarrow> nat \<Rightarrow> GptPartition result" where
  "gpt_partition v partition_index =
     ok_or (Gpt_error (Gpt_no_partition partition_index)) (get_index (gpt_partitions v) partition_index)"

section \<open>The entries of the table\<close>

definition gpt_ranges :: "GptVolumeSystem \<Rightarrow> range list" where
  "gpt_ranges v = map (\<lambda>p. (gpt_offset p, gpt_size p)) (gpt_partitions v)"

text \<open>A partition covers the blocks \<open>s\<close> to \<open>e\<close>, which lie in the usable area.\<close>

definition gpt_covers :: "nat \<Rightarrow> GptPartitionTableHeader \<Rightarrow> GptPartition \<Rightarrow> nat \<Rightarrow> nat \<Rightarrow> bool" where
  "gpt_covers bps header p s e \<longleftrightarrow>
     gpt_offset p = s * bps \<and> gpt_size p = (e - s + 1) * bps \<and> s \<le> e
     \<and> gph_area_start_block_number header \<le> s \<and> e \<le> gph_area_end_block_number header"

lemma gpt_covers_end: "gpt_covers bps header p s e \<Longrightarrow> gpt_offset p + gpt_size p = (e + 1) * bps"
  by (auto simp: gpt_covers_def simp flip: add_mult_distrib)

lemma gpt_partition_from_entry_Ok:
  "gpt_partition_from_entry bps header prev e = Ok p \<Longrightarrow>
     gpt_covers bps header p (gpe_start_block_number e) (gpe_end_block_number e)
     \<and> gpt_entry_index p = gpe_index e
     \<and> (\<forall>b. prev = Some b \<longrightarrow> b < gpe_start_block_number e)"
  by (auto simp: gpt_partition_from_entry_def gpt_partition_new_def gpt_covers_def result_simps
      bind_eq_Some_conv split: if_splits option.splits)

lemma gpt_end_block_Ok:
  assumes "gpt_covers bps header p s e" "gpt_end_block bps p = Ok b" "0 < bps"
  shows "b = e"
  using assms by (auto simp: gpt_end_block_def gpt_covers_def result_simps)

text \<open>The state of the loop: the partitions so far, in order, and the last block they use.\<close>

definition gpt_inv :: "nat \<Rightarrow> GptPartitionTableHeader \<Rightarrow> nat \<Rightarrow> nat option \<Rightarrow> GptPartition list \<Rightarrow> bool" where
  "gpt_inv bps header k prev ps \<longleftrightarrow>
     (\<forall>p \<in> set ps. gpt_entry_index p < k \<and> (\<exists>s e b. gpt_covers bps header p s e \<and> prev = Some b \<and> e \<le> b))
     \<and> sorted_wrt (\<lambda>p q. gpt_offset p + gpt_size p \<le> gpt_offset q) ps
     \<and> sorted_wrt (\<lambda>p q. gpt_entry_index p < gpt_entry_index q) ps"

lemma gpt_inv_skip: "gpt_inv bps header k prev ps \<Longrightarrow> k \<le> k' \<Longrightarrow> gpt_inv bps header k' prev ps"
  by (fastforce simp: gpt_inv_def)

lemma gpt_inv_push:
  assumes inv: "gpt_inv bps header k prev ps" and p: "gpt_covers bps header p s e" "gpt_entry_index p = k"
    and prev: "\<forall>b. prev = Some b \<longrightarrow> b < s"
  shows "gpt_inv bps header (Suc k) (Some e) (ps @ [p])"
proof -
  have "gpt_offset q + gpt_size q \<le> gpt_offset p \<and> (\<exists>s e'. gpt_covers bps header q s e' \<and> e' \<le> e)"
    if q: "q \<in> set ps" for q
  proof -
    from inv q obtain s' e' b where c: "gpt_covers bps header q s' e'" "prev = Some b" "e' \<le> b"
      unfolding gpt_inv_def by blast
    with prev have "e' + 1 \<le> s" by simp
    then have "(e' + 1) * bps \<le> s * bps" by (rule mult_le_mono1)
    moreover have "e' \<le> e" using \<open>e' + 1 \<le> s\<close> p(1) by (simp add: gpt_covers_def)
    moreover have "gpt_offset p = s * bps" using p(1) by (simp add: gpt_covers_def)
    ultimately show ?thesis
      using gpt_covers_end [OF c(1)] c(1) by auto
  qed
  then show ?thesis
    using inv p by (fastforce simp: gpt_inv_def sorted_wrt_append)
qed

lemma gpt_entry_read_data_index:
  "gpt_entry_read_data i data n = Ok e \<Longrightarrow> gpe_index e = i"
  by (auto simp: gpt_entry_read_data_def result_simps split: if_splits)

lemma gpt_read_entries_inv:
  assumes "gpt_read_entries ds bps header start [k..<n] ctx prev ps = Ok (ctx', ps')"
    and "gpt_inv bps header k prev ps" "0 < bps" "k \<le> n"
  shows "\<exists>prev'. gpt_inv bps header n prev' ps'"
  using assms
proof (induction "n - k" arbitrary: k ctx prev ps)
  case 0
  then show ?case by auto
next
  case (Suc m)
  then have k: "k < n" and upt: "[k..<n] = k # [Suc k..<n]" by (simp_all add: upt_conv_Cons)
  from Suc.prems(1) obtain data e where e: "gpt_entry_read_data k data (gph_entry_data_size header) = Ok e"
    and rest: "(if gpt_entry_is_empty e then
        gpt_read_entries ds bps header start [Suc k..<n] (rcrc32_update ctx data) prev ps
      else and_then (gpt_partition_from_entry bps header prev e) (\<lambda>p. and_then (gpt_end_block bps p)
        (\<lambda>b. gpt_read_entries ds bps header start [Suc k..<n] (rcrc32_update ctx data) (Some b) (ps @ [p]))))
      = Ok (ctx', ps')"
    unfolding upt by (auto simp: result_simps Let_def)
  show ?case
  proof (cases "gpt_entry_is_empty e")
    case True
    with rest Suc.hyps(2) Suc.prems k show ?thesis
      using gpt_inv_skip [of bps header k prev ps "Suc k"] by (intro Suc.hyps(1) [of "Suc k"]) auto
  next
    case False
    with rest obtain p b where p: "gpt_partition_from_entry bps header prev e = Ok p"
      and b: "gpt_end_block bps p = Ok b"
      and rec: "gpt_read_entries ds bps header start [Suc k..<n] (rcrc32_update ctx data) (Some b) (ps @ [p])
        = Ok (ctx', ps')"
      by (auto simp: result_simps)
    note cov = gpt_partition_from_entry_Ok [OF p]
    have "b = gpe_end_block_number e" using gpt_end_block_Ok [of bps header p] cov b Suc.prems(3) by blast
    then have "gpt_inv bps header (Suc k) (Some b) (ps @ [p])"
      using cov Suc.prems(2) gpt_entry_read_data_index [OF e] by (auto intro: gpt_inv_push)
    with rec Suc.hyps(2) Suc.prems k show ?thesis by (intro Suc.hyps(1) [of "Suc k"]) auto
  qed
qed

section \<open>The checksum of the table\<close>

lemma gpt_crc32_spec: "gpt_crc32 data = unat (rcrc_spec 0xedb88320 0 data)"
  unfolding gpt_crc32_def
  by (metis append_Nil fst_conv rcrc_inv_finalize rcrc_inv_new rcrc_inv_update)

context byte_source
begin

text \<open>The data the loop puts into the checksum is the table, from its start to the last entry read.\<close>

lemma gpt_read_entries_crc:
  assumes "gpt_read_entries ds bps header start [k..<n] ctx prev ps = Ok (ctx', ps')"
    and "rcrc_inv pl iv (subslice start (k * gph_entry_data_size header) content) ctx" "k \<le> n"
  shows "rcrc_inv pl iv (subslice start (n * gph_entry_data_size header) content) ctx'"
  using assms
proof (induction "n - k" arbitrary: k ctx prev ps)
  case 0
  then show ?case by auto
next
  case (Suc m)
  let ?sz = "gph_entry_data_size header"
  have k: "k < n" and upt: "[k..<n] = k # [Suc k..<n]" using Suc.hyps(2) by (simp_all add: upt_conv_Cons)
  from Suc.prems(1) obtain data prev' ps'' where data: "read_exact_at ds (start + k * ?sz) ?sz = Ok data"
    and rest: "gpt_read_entries ds bps header start [Suc k..<n] (rcrc32_update ctx data) prev' ps'' = Ok (ctx', ps')"
    unfolding upt by (auto simp: result_simps Let_def split: if_splits)
  have "subslice start (k * ?sz) content @ data = subslice start (Suc k * ?sz) content"
    using read_exact_at_sound [OF data] slice_append [of start "k * ?sz" content ?sz] by (simp add: add.commute)
  with rcrc_inv_update [OF Suc.prems(2), of data]
  have "rcrc_inv pl iv (subslice start (Suc k * ?sz) content) (rcrc32_update ctx data)" by simp
  with rest Suc.hyps(2) k show ?case by (intro Suc.hyps(1) [of "Suc k"]) auto
qed

lemma gpt_read_entries_checksum:
  assumes "gpt_read_entries ds bps header start [0..<n] (rcrc32_new pl iv) None [] = Ok (ctx, ps)"
  shows "fst (rcrc32_finalize ctx) = rcrc_spec pl iv (subslice start (n * gph_entry_data_size header) content)"
proof -
  have "rcrc_inv pl iv (subslice start (n * gph_entry_data_size header) content) ctx"
    by (rule gpt_read_entries_crc [OF assms]) (simp_all add: rcrc_inv_new)
  from rcrc_inv_finalize [OF this] show ?thesis by auto
qed

end

section \<open>An opened table\<close>

lemma gpt_supported_pos: "bps \<in> set gpt_supported_bytes_per_sector \<Longrightarrow> 0 < bps"
  by (auto simp: gpt_supported_bytes_per_sector_def)

lemma gpt_read_partition_entries_Ok:
  assumes "gpt_read_partition_entries ds bps header = Ok ps"
  obtains ctx where
    "gpt_read_entries ds bps header (gph_entries_start_block_number header * bps)
       [0..<gph_number_of_entries header] (rcrc32_new 0xedb88320 0) None [] = Ok (ctx, ps)"
    "gph_entries_data_checksum header = 0 \<or> gph_entries_data_checksum header = unat (fst (rcrc32_finalize ctx))"
    "gph_entries_start_block_number header * bps + gph_number_of_entries header * gph_entry_data_size header
       \<le> gph_area_start_block_number header * bps"
  using assms by (auto simp: gpt_read_partition_entries_def result_simps Let_def)

text \<open>The header the table was read with.\<close>

lemma gpt_open_with_Ok:
  assumes "gpt_open_with_bytes_per_sector ds bps = Ok v"
  obtains header where "bps \<in> set gpt_supported_bytes_per_sector"
    "gpt_header_read_at ds bps bps = Ok header"
    "gpt_read_partition_entries ds bps header = Ok (gpt_partitions v)"
    "gph_header_block_number header = 1" "gpt_disk_identifier v = gph_disk_identifier header"
    "gpt_bytes_per_sector v = bps"
  using assms by (auto simp: gpt_open_with_bytes_per_sector_def result_simps split: if_splits)

lemma gpt_open_with_inv:
  assumes "gpt_open_with_bytes_per_sector ds bps = Ok v"
  obtains header prev where "gpt_header_read_at ds bps bps = Ok header"
    "gpt_inv bps header (gph_number_of_entries header) prev (gpt_partitions v)"
proof -
  obtain header where "bps \<in> set gpt_supported_bytes_per_sector"
    and h: "gpt_header_read_at ds bps bps = Ok header"
    and ps: "gpt_read_partition_entries ds bps header = Ok (gpt_partitions v)"
    by (rule gpt_open_with_Ok [OF assms]) blast
  then have "0 < bps" by (blast dest: gpt_supported_pos)
  obtain ctx where "gpt_read_entries ds bps header (gph_entries_start_block_number header * bps)
       [0..<gph_number_of_entries header] (rcrc32_new 0xedb88320 0) None [] = Ok (ctx, gpt_partitions v)"
    by (rule gpt_read_partition_entries_Ok [OF ps])
  from gpt_read_entries_inv [OF this _ \<open>0 < bps\<close>] h that show ?thesis
    by (auto simp: gpt_inv_def)
qed

interpretation gpt_with: volume_system "\<lambda>ds. gpt_open_with_bytes_per_sector ds bps" gpt_ranges for bps
proof unfold_locales
  fix ds v
  assume "gpt_open_with_bytes_per_sector ds bps = Ok v"
  then obtain header prev where "gpt_inv bps header (gph_number_of_entries header) prev (gpt_partitions v)"
    by (rule gpt_open_with_inv)
  then have "sorted_wrt (\<lambda>p q. gpt_offset p + gpt_size p \<le> gpt_offset q) (gpt_partitions v)"
    by (simp add: gpt_inv_def)
  then show "ranges_disjoint (gpt_ranges v)"
    unfolding ranges_disjoint_def gpt_ranges_def sorted_wrt_map
    by (rule sorted_wrt_mono_rel [rotated]) (simp add: ranges_apart_def)
qed

lemma gpt_open_Ok:
  "gpt_open ds = Ok v \<Longrightarrow> \<exists>bps \<in> set gpt_supported_bytes_per_sector. gpt_open_with_bytes_per_sector ds bps = Ok v"
  unfolding gpt_open_def by (rule open_first_Ok)

interpretation gpt: volume_system gpt_open gpt_ranges
  by unfold_locales (auto dest!: gpt_open_Ok intro: gpt_with.open_disjoint)

section \<open>A table with one partition\<close>

text \<open>
  Four sectors of 512 bytes: an unused one, the header (which names itself as its backup and has
  no checksums), the table of one entry, and the partition on block 3.
\<close>

definition gpt_sample_header :: "byte list" where
  "gpt_sample_header =
     lit ''EFI PART'' @ [0, 0, 1, 0, 92, 0, 0, 0, 0, 0, 0, 0, 0, 0, 0, 0] @
     [1, 0, 0, 0, 0, 0, 0, 0, 1, 0, 0, 0, 0, 0, 0, 0, 3, 0, 0, 0, 0, 0, 0, 0, 3, 0, 0, 0, 0, 0, 0, 0] @
     replicate 16 0 @ [2, 0, 0, 0, 0, 0, 0, 0, 1, 0, 0, 0, 128, 0, 0, 0, 0, 0, 0, 0] @ replicate 420 0"

definition gpt_sample_entry :: "byte list" where
  "gpt_sample_entry =
     [1] @ replicate 31 0 @ [3, 0, 0, 0, 0, 0, 0, 0, 3, 0, 0, 0, 0, 0, 0, 0] @ replicate 80 0"

definition gpt_sample :: "byte list" where
  "gpt_sample = replicate 512 0 @ gpt_sample_header @ gpt_sample_entry @ replicate 896 0"

definition gpt_sample_uuid :: "nat \<Rightarrow> Uuid" where
  "gpt_sample_uuid n = \<lparr>uuid_part1 = n, uuid_part2 = 0, uuid_part3 = 0, uuid_part4 = 0, uuid_part5 = 0\<rparr>"

definition gpt_sample_volume :: GptVolumeSystem where
  "gpt_sample_volume =
     \<lparr>gpt_bytes_per_sector = 512, gpt_disk_identifier = gpt_sample_uuid 0,
      gpt_partitions = [gpt_partition_new 0 1536 512 (gpt_sample_uuid 1) (gpt_sample_uuid 0) 0 []]\<rparr>"

lemma gpt_sample_lengths:
  "length gpt_sample_header = 512" "length gpt_sample_entry = 128" "length gpt_sample = 2048"
  by (simp_all add: gpt_sample_def gpt_sample_header_def gpt_sample_entry_def lit_def)

lemma gpt_sample_source: "byte_source (memory_source (memory_new gpt_sample)) gpt_sample"
  by (rule memory_byte) (simp add: gpt_sample_lengths u64_limit_def)

lemma gpt_sample_reads:
  "read_exact_at (memory_source (memory_new gpt_sample)) 512 512 = Ok gpt_sample_header"
  "read_exact_at (memory_source (memory_new gpt_sample)) 1024 128 = Ok gpt_sample_entry"
proof -
  have read: "read_exact_at (memory_source (memory_new gpt_sample)) off n = Ok (subslice off n gpt_sample)"
    if "off + n \<le> 2048" for off n
    using that by (intro memory_read_exact) (simp_all add: gpt_sample_lengths u64_limit_def)
  show "read_exact_at (memory_source (memory_new gpt_sample)) 512 512 = Ok gpt_sample_header"
    "read_exact_at (memory_source (memory_new gpt_sample)) 1024 128 = Ok gpt_sample_entry"
    using read [of 512 512] read [of 1024 128]
    by (simp_all add: gpt_sample_def subslice_def gpt_sample_lengths)
qed

lemma uuid_sample_le: "uuid_from_le_bytes (x # replicate 15 0) = Ok (gpt_sample_uuid (unat x))"
proof -
  have "u32_le 0 (x # replicate 15 0) = unat x"
    by (simp add: u32_le_def subslice_def numeral_eq_Suc from_le_bytes_def from_be_bytes_def)
  moreover have "u16_le 4 (x # replicate 15 0) = 0" "u16_le 6 (x # replicate 15 0) = 0"
    "u16_be 8 (x # replicate 15 0) = 0" "u16_be 10 (x # replicate 15 0) = 0" "u32_be 12 (x # replicate 15 0) = 0"
    by (simp_all add: u16_le_def u16_be_def u32_be_def subslice_def drop_Cons')
  ultimately show ?thesis by (simp add: uuid_from_le_bytes_def gpt_sample_uuid_def Let_def)
qed

lemma uuid_sample_nil: "uuid_from_le_bytes (replicate 16 0) = Ok (gpt_sample_uuid 0)"
  using uuid_sample_le [of 0] by (simp add: numeral_eq_Suc)

definition gpt_sample_table :: GptPartitionTableHeader where
  "gpt_sample_table =
     \<lparr>gph_header_block_number = 1, gph_backup_header_block_number = 1, gph_area_start_block_number = 3,
      gph_area_end_block_number = 3, gph_disk_identifier = gpt_sample_uuid 0, gph_entries_start_block_number = 2,
      gph_number_of_entries = 1, gph_entry_data_size = 128, gph_entries_data_checksum = 0\<rparr>"

lemma gpt_sample_header_read:
  "gpt_header_read_at (memory_source (memory_new gpt_sample)) 512 512 = Ok gpt_sample_table"
proof -
  let ?d = gpt_sample_header
  have "subslice 0 8 ?d = lit ''EFI PART''" "u32_le 8 ?d = 0x00010000" "u32_le 12 ?d = 92" "u32_le 16 ?d = 0"
    "u64_le 24 ?d = 1" "u64_le 32 ?d = 1" "u64_le 40 ?d = 3" "u64_le 48 ?d = 3" "subslice 56 16 ?d = replicate 16 0"
    "u64_le 72 ?d = 2" "u32_le 80 ?d = 1" "u32_le 84 ?d = 128" "u32_le 88 ?d = 0"
    by (simp_all add: gpt_sample_header_def lit_def subslice_def u32_le_def u64_le_def from_le_bytes_def
        from_be_bytes_def)
  then show ?thesis
    by (simp add: gpt_header_read_at_def gpt_sample_reads uuid_sample_nil gpt_sample_table_def Let_def)
qed

lemma gpt_sample_entry_read:
  "gpt_entry_read_data 0 gpt_sample_entry 128 =
     Ok \<lparr>gpe_index = 0, gpe_type_identifier = gpt_sample_uuid 1, gpe_identifier = gpt_sample_uuid 0,
         gpe_start_block_number = 3, gpe_end_block_number = 3, gpe_attribute_flags = 0, gpe_name = []\<rparr>"
proof -
  let ?d = gpt_sample_entry
  have name: "subslice 56 72 ?d = 0 # 0 # replicate 70 0"
    by (simp add: gpt_sample_entry_def subslice_def flip: replicate_Suc)
  have "utf16_from_le_bytes (subslice 56 72 ?d) = Ok \<lparr>utf16_elements = []\<rparr>"
    unfolding name by (simp add: utf16_from_le_bytes_def from_le_bytes_def from_be_bytes_def)
  moreover have "subslice 0 16 ?d = 1 # replicate 15 0" "subslice 16 16 ?d = replicate 16 0"
    by (simp_all add: gpt_sample_entry_def subslice_def)
  moreover have "u64_le 32 ?d = 3" "u64_le 40 ?d = 3" "u64_le 48 ?d = 0"
    by (simp_all add: gpt_sample_entry_def subslice_def u64_le_def from_le_bytes_def [of "[_, _, _, _, _, _, _, _]"]
        from_be_bytes_def [of "[_, _, _, _, _, _, _, _]"])
  ultimately show ?thesis
    using uuid_sample_le [of 1]
    by (simp add: gpt_entry_read_data_def gpt_sample_lengths utf16_to_string_def from_utf16_def uuid_sample_nil)
qed

lemma gpt_sample_open: "gpt_open (memory_source (memory_new gpt_sample)) = Ok gpt_sample_volume"
proof -
  let ?ds = "memory_source (memory_new gpt_sample)"
  have "gpt_read_entries ?ds 512 gpt_sample_table 1024 [0] ctx None [] =
      Ok (rcrc32_update ctx gpt_sample_entry, gpt_partitions gpt_sample_volume)" for ctx
    by (simp add: gpt_sample_table_def mul_u64_def checked_add_def checked_mul_def checked_sub_def add_u64_def
        sub_u64_def u64_limit_def gpt_sample_reads gpt_sample_entry_read gpt_entry_is_empty_def uuid_is_nil_def
        gpt_sample_uuid_def gpt_partition_from_entry_def gpt_end_block_def gpt_partition_new_def
        gpt_sample_volume_def Let_def)
  then have "gpt_read_partition_entries ?ds 512 gpt_sample_table = Ok (gpt_partitions gpt_sample_volume)"
    by (simp add: gpt_read_partition_entries_def gpt_sample_table_def checked_mul_def add_u64_def u64_limit_def Let_def)
  moreover have "gpt_read_backup_header ?ds 2048 512 gpt_sample_table = Ok gpt_sample_table"
    using gpt_sample_header_read
    by (simp add: gpt_read_backup_header_def checked_mul_def u64_limit_def gpt_sample_table_def)
  ultimately have "gpt_open_with_bytes_per_sector ?ds 512 = Ok gpt_sample_volume"
    using gpt_sample_header_read
    by (simp add: gpt_open_with_bytes_per_sector_def gpt_supported_bytes_per_sector_def memory_size
        gpt_sample_lengths gpt_sample_volume_def gpt_sample_table_def)
  then show ?thesis by (simp add: gpt_open_def gpt_supported_bytes_per_sector_def)
qed

section \<open>Properties\<close>

text \<open>
  (C6) The partitions of an opened GUID Partition Table keep the order of the table, cover whole
  blocks of the usable area the header gives, and do not overlap.
\<close>

theorem gpt_partitions_in_usable_area:
  assumes "gpt_open ds = Ok v"
  shows "\<exists>header. gpt_header_read_at ds (gpt_bytes_per_sector v) (gpt_bytes_per_sector v) = Ok header
    \<and> (\<forall>p \<in> set (gpt_partitions v). \<exists>s e. gpt_covers (gpt_bytes_per_sector v) header p s e)
    \<and> sorted_wrt (\<lambda>p q. gpt_entry_index p < gpt_entry_index q) (gpt_partitions v)
    \<and> ranges_disjoint (gpt_ranges v)"
proof -
  obtain bps where bps: "gpt_open_with_bytes_per_sector ds bps = Ok v" using gpt_open_Ok [OF assms] by blast
  then have eq: "gpt_bytes_per_sector v = bps" by (rule gpt_open_with_Ok)
  from bps obtain header prev where "gpt_header_read_at ds bps bps = Ok header"
    "gpt_inv bps header (gph_number_of_entries header) prev (gpt_partitions v)"
    by (rule gpt_open_with_inv)
  moreover from this have "\<forall>p \<in> set (gpt_partitions v). \<exists>s e. gpt_covers bps header p s e"
    "sorted_wrt (\<lambda>p q. gpt_entry_index p < gpt_entry_index q) (gpt_partitions v)"
    unfolding gpt_inv_def by metis+
  ultimately show ?thesis using eq gpt.open_disjoint [OF assms] by metis
qed

theorem gpt_partitions_in_usable_area_witness:
  "gpt_open (memory_source (memory_new gpt_sample)) = Ok gpt_sample_volume
   \<and> (\<exists>s e. gpt_covers 512 gpt_sample_table (gpt_partition_new 0 1536 512 (gpt_sample_uuid 1) (gpt_sample_uuid 0) 0 []) s e)"
  using gpt_partitions_in_usable_area [OF gpt_sample_open] gpt_sample_open gpt_sample_header_read
  by (simp add: gpt_sample_volume_def)

lemma gpt_header_checksum:
  assumes "byte_source ds content" "gpt_header_read_at ds off bps = Ok header" "0 < bps"
  shows "u32_le 16 (subslice off bps content) = 0 \<or>
    u32_le 16 (subslice off bps content) = unat (rcrc_spec 0xedb88320 0
      (subslice 0 16 (subslice off bps content) @ replicate 4 0
       @ subslice 20 (u32_le 12 (subslice off bps content) - 20) (subslice off bps content)))"
proof -
  obtain data where rd: "read_exact_at ds off bps = Ok data"
    using assms(2) by (auto simp: gpt_header_read_at_def result_simps)
  then have "data = subslice off bps content" using byte_source.read_exact_at_sound [OF assms(1)] by blast
  moreover have "u32_le 16 data = 0 \<or> u32_le 16 data =
      gpt_crc32 (subslice 0 16 data @ replicate 4 0 @ subslice 20 (u32_le 12 data - 20) data)"
    using assms(2) rd by (auto simp: gpt_header_read_at_def Let_def split: if_splits)
  ultimately show ?thesis by (simp add: gpt_crc32_spec)
qed

text \<open>
  (C35) The checksums of an opened table hold: the one in the header is absent or the CRC-32 of the
  header with that field zeroed, the one of the entries is absent or the CRC-32 of all the bytes
  of the table of entries, although these are read entry by entry.
\<close>

theorem gpt_checksums_verified:
  assumes "byte_source ds content" "gpt_open ds = Ok v"
  shows "\<exists>header. gpt_header_read_at ds (gpt_bytes_per_sector v) (gpt_bytes_per_sector v) = Ok header
    \<and> (let sector = subslice (gpt_bytes_per_sector v) (gpt_bytes_per_sector v) content;
           entries = subslice (gph_entries_start_block_number header * gpt_bytes_per_sector v)
             (gph_number_of_entries header * gph_entry_data_size header) content
       in (u32_le 16 sector = 0 \<or> u32_le 16 sector = unat (rcrc_spec 0xedb88320 0
             (subslice 0 16 sector @ replicate 4 0 @ subslice 20 (u32_le 12 sector - 20) sector)))
        \<and> (gph_entries_data_checksum header = 0
           \<or> gph_entries_data_checksum header = unat (rcrc_spec 0xedb88320 0 entries)))"
proof -
  obtain bps where bps: "bps \<in> set gpt_supported_bytes_per_sector" "gpt_open_with_bytes_per_sector ds bps = Ok v"
    using gpt_open_Ok [OF assms(2)] by blast
  from bps(2) obtain header where h: "gpt_header_read_at ds bps bps = Ok header"
    and ps: "gpt_read_partition_entries ds bps header = Ok (gpt_partitions v)" and eq: "gpt_bytes_per_sector v = bps"
    by (rule gpt_open_with_Ok)
  from ps obtain ctx where
    "gpt_read_entries ds bps header (gph_entries_start_block_number header * bps)
       [0..<gph_number_of_entries header] (rcrc32_new 0xedb88320 0) None [] = Ok (ctx, gpt_partitions v)"
    "gph_entries_data_checksum header = 0 \<or> gph_entries_data_checksum header = unat (fst (rcrc32_finalize ctx))"
    by (rule gpt_read_partition_entries_Ok)
  then have "gph_entries_data_checksum header = 0 \<or> gph_entries_data_checksum header =
      unat (rcrc_spec 0xedb88320 0 (subslice (gph_entries_start_block_number header * bps)
        (gph_number_of_entries header * gph_entry_data_size header) content))"
    using byte_source.gpt_read_entries_checksum [OF assms(1)] by metis
  with gpt_header_checksum [OF assms(1) h gpt_supported_pos [OF bps(1)]] h eq show ?thesis
    by (simp add: Let_def)
qed

theorem gpt_checksums_verified_witness:
  "gpt_open (memory_source (memory_new gpt_sample)) = Ok gpt_sample_volume
   \<and> (\<exists>header. gpt_header_read_at (memory_source (memory_new gpt_sample)) 512 512 = Ok header
        \<and> gph_entries_data_checksum header \<in> {0, unat (rcrc_spec 0xedb88320 0
             (subslice (gph_entries_start_block_number header * 512)
               (gph_number_of_entries header * gph_entry_data_size header) gpt_sample))})"
  using gpt_checksums_verified [OF gpt_sample_source gpt_sample_open] gpt_sample_open
  by (auto simp: gpt_sample_volume_def Let_def)

text \<open>
  Reading an entry whose name has an unpaired surrogate panics: the name is displayed through
  an \<open>unwrap\<close> of the strict UTF-16 decoder, so a table with such a name cannot be opened at all.
\<close>

theorem gpt_entry_name_panics:
  "gpt_entry_read_data index (replicate 56 0 @ [0x00, 0xd8] @ replicate 70 0) 128 = Err (Panic Unwrap_failed)"
proof -
  have "subslice 56 72 (replicate 56 0 @ [0x00, 0xd8] @ replicate 70 0) = 0x00 # 0xd8 # 0 # 0 # replicate 68 (0 :: byte)"
    by (simp add: subslice_def numeral_eq_Suc)
  then show ?thesis
    by (simp add: gpt_entry_read_data_def utf16_from_le_bytes_def from_le_bytes_def from_be_bytes_def
        utf16_to_string_def from_utf16_def Let_def)
qed

end
