(* ===== verification/Pieces.thy ===== *)
theory Pieces
  imports Data_Source
begin

text \<open>
  Sources composed of consecutive pieces.  \<open>SegmentedDataSource\<close> and \<open>ExtentMapDataSource\<close> run
  the same code over their segments and extents: \<open>new\<close> checks that the pieces are not empty and
  follow each other without gaps, \<open>find_segment\<close>/\<open>find_entry\<close> looks up the piece of an offset by
  a partition point, and \<open>read_at\<close> walks over the pieces.  They differ in how one piece is read
  and in their messages; both are parameters here, as are the selectors \<open>lo\<close> and \<open>sz\<close> of the
  logical offset and the size of a piece.
\<close>

section \<open>The layout check of \<open>new\<close>\<close>

record piece_errors =
  err_zero_sized :: error
  err_not_contiguous :: error
  err_size_overflow :: error
  err_missing :: error
  err_read_offset_overflow :: error

fun check_pieces :: "piece_errors \<Rightarrow> ('a \<Rightarrow> nat) \<Rightarrow> ('a \<Rightarrow> nat) \<Rightarrow> nat \<Rightarrow> 'a list \<Rightarrow> nat result" where
  "check_pieces errs lo sz expected_logical_offset [] = Ok expected_logical_offset"
| "check_pieces errs lo sz expected_logical_offset (x # xs) =
     (if sz x = 0 then Err (err_zero_sized errs)
      else if lo x \<noteq> expected_logical_offset then Err (err_not_contiguous errs)
      else and_then (ok_or (err_size_overflow errs) (checked_add expected_logical_offset (sz x)))
             (\<lambda>next_offset. check_pieces errs lo sz next_offset xs))"

section \<open>Lookup and positioned read\<close>

definition find_piece :: "('a \<Rightarrow> nat) \<Rightarrow> 'a list \<Rightarrow> nat \<Rightarrow> 'a option" where
  "find_piece lo xs offset =
     (let piece_index = partition_point (\<lambda>x. lo x \<le> offset) xs
      in if piece_index = 0 then None else get_index xs (piece_index - 1))"

text \<open>One iteration of the loop of \<open>read_at\<close>, for the part of the buffer from \<open>written\<close> on.\<close>

definition piece_step :: "piece_errors \<Rightarrow> ('a \<Rightarrow> nat) \<Rightarrow> ('a \<Rightarrow> nat)
    \<Rightarrow> ('a \<Rightarrow> nat \<Rightarrow> nat \<Rightarrow> byte list result) \<Rightarrow> 'a list \<Rightarrow> nat \<Rightarrow> nat \<Rightarrow> nat \<Rightarrow> nat \<Rightarrow> byte list result" where
  "piece_step errs lo sz read_piece xs total_size offset written n =
     (let current_offset = offset + written in
      if current_offset < total_size then
        (case find_piece lo xs current_offset of
           None \<Rightarrow> Err (err_missing errs)
         | Some x \<Rightarrow>
             and_then (sub_u64 current_offset (lo x)) (\<lambda>relative_offset.
             and_then (sub_u64 (sz x) relative_offset) (\<lambda>left.
             let available = min (case usize_try_from left of Some m \<Rightarrow> m | None \<Rightarrow> u64_limit - 1) n in
             and_then (read_piece x relative_offset available) (\<lambda>bytes.
               if length bytes = 0 then Ok []
               else and_then (ok_or (err_read_offset_overflow errs)
                                (checked_add current_offset (length bytes)))
                      (\<lambda>_. Ok bytes)))))
      else Ok [])"

definition piece_read_at :: "piece_errors \<Rightarrow> ('a \<Rightarrow> nat) \<Rightarrow> ('a \<Rightarrow> nat)
    \<Rightarrow> ('a \<Rightarrow> nat \<Rightarrow> nat \<Rightarrow> byte list result) \<Rightarrow> 'a list \<Rightarrow> nat \<Rightarrow> nat \<Rightarrow> nat \<Rightarrow> byte list result" where
  "piece_read_at errs lo sz read_piece xs total_size offset n =
     (if total_size \<le> offset \<or> n = 0 then Ok []
      else gather (piece_step errs lo sz read_piece xs total_size offset) Ok n [])"

section \<open>The layout a successful check establishes\<close>

fun layout :: "('a \<Rightarrow> nat) \<Rightarrow> ('a \<Rightarrow> nat) \<Rightarrow> nat \<Rightarrow> 'a list \<Rightarrow> bool" where
  "layout lo sz start [] = True"
| "layout lo sz start (x # xs) = (lo x = start \<and> 0 < sz x \<and> layout lo sz (start + sz x) xs)"

lemma check_pieces_Ok:
  "check_pieces errs lo sz start xs = Ok total_size \<longleftrightarrow>
     layout lo sz start xs \<and> total_size = start + sum_list (map sz xs) \<and> (xs = [] \<or> total_size < u64_limit)"
proof (induction xs arbitrary: start)
  case Nil
  then show ?case by auto
next
  case (Cons x xs)
  show ?case
    by (auto simp: result_simps Cons.IH)
qed

lemma layout_lower: "layout lo sz start xs \<Longrightarrow> x \<in> set xs \<Longrightarrow> start \<le> lo x"
  by (induction xs arbitrary: start) fastforce+

lemma layout_positive: "layout lo sz start xs \<Longrightarrow> x \<in> set xs \<Longrightarrow> 0 < sz x"
  by (induction xs arbitrary: start) auto

lemma layout_append:
  "layout lo sz start (xs @ ys) \<longleftrightarrow>
     layout lo sz start xs \<and> layout lo sz (start + sum_list (map sz xs)) ys"
  by (induction xs arbitrary: start) (auto simp: add.assoc)

lemma find_piece_Cons:
  "lo x \<le> off \<Longrightarrow> find_piece lo (x # xs) off =
     (case find_piece lo xs off of None \<Rightarrow> Some x | Some y \<Rightarrow> Some y)"
  using partition_point_le_length [of "\<lambda>x. lo x \<le> off" xs]
  by (auto simp: find_piece_def get_index_def partition_point_def nth_Cons Let_def
      split: option.splits nat.splits if_splits)

lemma find_piece_before:
  assumes "layout lo sz start xs" "off < start"
  shows "find_piece lo xs off = None"
  using assms by (cases xs) (auto simp: find_piece_def partition_point_def)

text \<open>
  The piece found for an offset holds it, and the contents of the piece are the part of the
  whole at its place.
\<close>

lemma layout_find_piece:
  assumes "layout lo sz start xs" "list_all2 (\<lambda>x c. length c = sz x) xs cs"
    and "start \<le> off" "off < start + length (concat cs)"
  shows "\<exists>x c. find_piece lo xs off = Some x \<and> (x, c) \<in> set (zip xs cs)
    \<and> lo x \<le> off \<and> off < lo x + sz x
    \<and> (\<forall>k. off + k \<le> lo x + sz x \<longrightarrow>
          subslice (off - start) k (concat cs) = subslice (off - lo x) k c)"
  using assms
proof (induction xs arbitrary: start cs)
  case Nil
  then show ?case by simp
next
  case (Cons x xs)
  then obtain c cs' where cs: "cs = c # cs'" and c: "length c = sz x"
    and cs': "list_all2 (\<lambda>x c. length c = sz x) xs cs'"
    by (auto simp: list_all2_Cons1)
  from Cons.prems(1) have x: "lo x = start" and xs: "layout lo sz (start + sz x) xs" by simp_all
  show ?case
  proof (cases "off < start + sz x")
    case True
    then have "find_piece lo (x # xs) off = Some x"
      using find_piece_before [OF xs] Cons.prems(3) x by (simp add: find_piece_Cons)
    moreover have "subslice (off - start) k (concat cs) = subslice (off - lo x) k c"
      if "off + k \<le> lo x + sz x" for k
      using that cs c x Cons.prems(3) by (simp add: slice_append_left)
    ultimately show ?thesis using True cs x Cons.prems(3) by auto
  next
    case False
    then obtain y d where y: "find_piece lo xs off = Some y" "(y, d) \<in> set (zip xs cs')"
      "lo y \<le> off" "off < lo y + sz y"
      and sl: "\<And>k. off + k \<le> lo y + sz y \<Longrightarrow>
        subslice (off - (start + sz x)) k (concat cs') = subslice (off - lo y) k d"
      using Cons.IH [OF xs cs'] Cons.prems(4) cs c by auto
    have "subslice (off - start) k (concat cs) = subslice (off - lo y) k d"
      if "off + k \<le> lo y + sz y" for k
      using sl [OF that] False cs c by (simp add: slice_append_right)
    then show ?thesis
      using y cs x Cons.prems(3) by (auto simp: find_piece_Cons)
  qed
qed

section \<open>The walk over the pieces\<close>

locale piecewise =
  fixes errs :: piece_errors
    and lo sz :: "'a \<Rightarrow> nat"
    and read_piece :: "'a \<Rightarrow> nat \<Rightarrow> nat \<Rightarrow> byte list result"
    and xs :: "'a list"
    and cs :: "byte list list"
  assumes pieces_layout: "layout lo sz 0 xs"
    and pieces_content: "list_all2 (\<lambda>x c. length c = sz x) xs cs"
    and pieces_u64: "length (concat cs) < u64_limit"
    and piece_prefix: "(x, c) \<in> set (zip xs cs) \<Longrightarrow> read_piece x rel n = Ok bs \<Longrightarrow> rel + n \<le> sz x
      \<Longrightarrow> length bs \<le> n \<and> bs = subslice rel (length bs) c"
    and piece_progress: "(x, c) \<in> set (zip xs cs) \<Longrightarrow> read_piece x rel n = Ok bs \<Longrightarrow> rel + n \<le> sz x
      \<Longrightarrow> 0 < n \<Longrightarrow> bs \<noteq> []"
begin

abbreviation whole_content :: "byte list" where
  "whole_content \<equiv> concat cs"

abbreviation walk_step :: "nat \<Rightarrow> nat \<Rightarrow> nat \<Rightarrow> byte list result" where
  "walk_step \<equiv> piece_step errs lo sz read_piece xs (length whole_content)"

text \<open>One step reads from the piece of the current offset, up to the end of that piece.\<close>

lemma walk_step_piece:
  assumes "off + pos < length whole_content"
  obtains x c m where "(x, c) \<in> set (zip xs cs)" "m = min (lo x + sz x - (off + pos)) n"
    "lo x \<le> off + pos" "off + pos < lo x + sz x" "off + pos - lo x + m \<le> sz x"
    "\<And>k. k \<le> m \<Longrightarrow> subslice (off + pos) k whole_content = subslice (off + pos - lo x) k c"
    "walk_step off pos n = and_then (read_piece x (off + pos - lo x) m) (\<lambda>bytes.
       if length bytes = 0 then Ok []
       else and_then (ok_or (err_read_offset_overflow errs)
                        (checked_add (off + pos) (length bytes))) (\<lambda>_. Ok bytes))"
proof -
  obtain x c where x: "find_piece lo xs (off + pos) = Some x" "(x, c) \<in> set (zip xs cs)"
    "lo x \<le> off + pos" "off + pos < lo x + sz x"
    and sl: "\<And>k. off + pos + k \<le> lo x + sz x \<Longrightarrow>
        subslice (off + pos) k whole_content = subslice (off + pos - lo x) k c"
    using layout_find_piece [OF pieces_layout pieces_content, of "off + pos"] assms by auto
  define m where "m = min (lo x + sz x - (off + pos)) n"
  have sz: "sz x \<le> length whole_content"
  proof -
    have "length c = sz x"
      using pieces_content x(2) by (auto simp: list_all2_iff)
    moreover have "length c \<le> length (concat cs)"
      using x(2) by (meson set_zip_rightD length_le_concat)
    ultimately show ?thesis by simp
  qed
  have left: "sz x - (off + pos - lo x) = lo x + sz x - (off + pos)"
    using x(3,4) by simp
  have rel: "off + pos - lo x \<le> sz x" using x(4) by simp
  have "walk_step off pos n = and_then (read_piece x (off + pos - lo x) m) (\<lambda>bytes.
       if length bytes = 0 then Ok []
       else and_then (ok_or (err_read_offset_overflow errs)
                        (checked_add (off + pos) (length bytes))) (\<lambda>_. Ok bytes))"
    using assms x(1,3) rel sz pieces_u64 unfolding left [symmetric] m_def
    by (simp add: piece_step_def sub_u64_def usize_try_from_def Let_def)
  moreover have "off + pos - lo x + m \<le> sz x" using x(3,4) unfolding m_def by linarith
  moreover have "subslice (off + pos) k whole_content = subslice (off + pos - lo x) k c"
    if "k \<le> m" for k
    using sl [of k] that x(4) unfolding m_def by linarith
  ultimately show ?thesis using that [OF x(2) m_def x(3,4)] by blast
qed

lemma walk_step_end: "length whole_content \<le> off + pos \<Longrightarrow> walk_step off pos n = Ok []"
  by (simp add: piece_step_def Let_def)

lemma walk_step_reads:
  assumes "walk_step off pos n = Ok bs"
  shows "length bs \<le> n \<and> bs = subslice (off + pos) (length bs) whole_content"
    and "0 < n \<Longrightarrow> off + pos < length whole_content \<Longrightarrow> bs \<noteq> []"
proof -
  have "(length bs \<le> n \<and> bs = subslice (off + pos) (length bs) whole_content)
      \<and> (0 < n \<longrightarrow> off + pos < length whole_content \<longrightarrow> bs \<noteq> [])"
  proof (cases "off + pos < length whole_content")
    case False
    with assms show ?thesis by (simp add: walk_step_end)
  next
    case True
    show ?thesis
    proof (rule walk_step_piece [OF True, of n])
      fix x c m
      assume x: "(x, c) \<in> set (zip xs cs)" and m: "m = min (lo x + sz x - (off + pos)) n"
        and b: "off + pos < lo x + sz x" "off + pos - lo x + m \<le> sz x"
        and sl: "\<And>k. k \<le> m \<Longrightarrow> subslice (off + pos) k whole_content = subslice (off + pos - lo x) k c"
        and st: "walk_step off pos n = and_then (read_piece x (off + pos - lo x) m) (\<lambda>bytes.
           if length bytes = 0 then Ok []
           else and_then (ok_or (err_read_offset_overflow errs)
                            (checked_add (off + pos) (length bytes))) (\<lambda>_. Ok bytes))"
      have rd: "read_piece x (off + pos - lo x) m = Ok bs"
        using assms unfolding st by (auto simp: result_simps split: if_splits)
      have le: "length bs \<le> m" and bs: "bs = subslice (off + pos - lo x) (length bs) c"
        using piece_prefix [OF x rd b(2)] by auto
      have "bs = subslice (off + pos) (length bs) whole_content"
        using bs sl [OF le] by simp
      moreover have "bs \<noteq> []" if "0 < n"
        using piece_progress [OF x rd b(2)] that m b(1) by simp
      ultimately show ?thesis using le m by simp
    qed
  qed
  then show "length bs \<le> n \<and> bs = subslice (off + pos) (length bs) whole_content"
    and "0 < n \<Longrightarrow> off + pos < length whole_content \<Longrightarrow> bs \<noteq> []"
    by blast+
qed

end

sublocale piecewise \<subseteq> walk: gather_reader
  "piece_step errs lo sz read_piece xs (length (concat cs)) off" "concat cs" off for off
  by unfold_locales (use walk_step_reads in blast)+

context piecewise
begin

lemma piece_read_at_sound:
  assumes "piece_read_at errs lo sz read_piece xs (length whole_content) off n = Ok bs"
  shows "bs = subslice off n whole_content"
proof (cases "length whole_content \<le> off \<or> n = 0")
  case True
  with assms show ?thesis by (auto simp: piece_read_at_def)
next
  case False
  with assms show ?thesis
    using walk.gather_sound [of off Ok n "[]" bs] by (auto simp: piece_read_at_def)
qed

end

text \<open>Pieces that can be read without failing make a source that never fails.\<close>

locale total_piecewise = piecewise +
  assumes piece_total: "(x, c) \<in> set (zip xs cs) \<Longrightarrow> rel + n \<le> sz x \<Longrightarrow> \<exists>bs. read_piece x rel n = Ok bs"

sublocale total_piecewise \<subseteq> walk: total_gather
  "piece_step errs lo sz read_piece xs (length (concat cs)) off" "concat cs" off for off
proof unfold_locales
  fix pos n
  show "\<exists>bs. walk_step off pos n = Ok bs"
  proof (cases "off + pos < length whole_content")
    case False
    then show ?thesis by (simp add: walk_step_end)
  next
    case True
    show ?thesis
    proof (rule walk_step_piece [OF True, of n])
      fix x c m
      assume x: "(x, c) \<in> set (zip xs cs)"
        and b: "off + pos - lo x + m \<le> sz x"
        and sl: "\<And>k. k \<le> m \<Longrightarrow> subslice (off + pos) k whole_content = subslice (off + pos - lo x) k c"
        and st: "walk_step off pos n = and_then (read_piece x (off + pos - lo x) m) (\<lambda>bytes.
           if length bytes = 0 then Ok []
           else and_then (ok_or (err_read_offset_overflow errs)
                            (checked_add (off + pos) (length bytes))) (\<lambda>_. Ok bytes))"
      obtain bs where rd: "read_piece x (off + pos - lo x) m = Ok bs"
        using piece_total [OF x b] by blast
      have "length bs \<le> m" and "bs = subslice (off + pos - lo x) (length bs) c"
        using piece_prefix [OF x rd b] by auto
      then have "bs = subslice (off + pos) (length bs) whole_content" using sl by simp
      then have "length bs \<le> length whole_content - (off + pos)"
        by (metis length_slice min.cobounded2)
      then have "off + pos + length bs < u64_limit"
        using True pieces_u64 by linarith
      then show ?thesis using st rd by (simp add: checked_add_def)
    qed
  qed
qed

context total_piecewise
begin

lemma piece_read_at_total:
  "piece_read_at errs lo sz read_piece xs (length whole_content) off n
     = Ok (subslice off n whole_content)"
  using walk.gather_from_start [of off Ok n] by (auto simp: piece_read_at_def)

end

end
