(* ===== verification/Extent_Map.thy ===== *)
theory Extent_Map
  imports Memory_Source Pieces
begin

text \<open>
  The extent map source (\<open>source/extent_map.rs\<close>): a logical source made of extents that are stored
  in an underlying source or are sparse and read as zeros.  The image drivers build one.
\<close>

section \<open>ExtentMapDataSource\<close>

datatype ExtentMapTarget = ExtentData data_source nat | ExtentZero

record ExtentMapEntry =
  ext_logical_offset :: nat
  ext_size :: nat
  ext_target :: ExtentMapTarget

record ExtentMapDataSource =
  em_entries :: "ExtentMapEntry list"
  em_size :: nat
  em_capabilities :: DataSourceCapabilities

definition extent_errors :: piece_errors where
  "extent_errors =
     \<lparr>err_zero_sized = Source_error Extent_zero_sized,
      err_not_contiguous = Source_error Extent_not_contiguous,
      err_size_overflow = Source_error Extent_size_overflow,
      err_missing = Source_error Extent_missing,
      err_read_offset_overflow = Source_error Extent_read_offset_overflow\<rparr>"

definition data_capabilities :: "ExtentMapEntry list \<Rightarrow> DataSourceCapabilities list" where
  "data_capabilities entries =
     concat (map (\<lambda>entry. case ext_target entry of
                    ExtentData source _ \<Rightarrow> [ds_capabilities source] | ExtentZero \<Rightarrow> []) entries)"

definition extent_map_new :: "ExtentMapEntry list \<Rightarrow> ExtentMapDataSource result" where
  "extent_map_new entries =
     and_then (check_pieces extent_errors ext_logical_offset ext_size 0 entries)
       (\<lambda>expected_logical_offset.
          let capabilities =
                (if data_capabilities entries = [] then capabilities_concurrent Cheap
                 else combine_data_source_capabilities (data_capabilities entries))
          in Ok \<lparr>em_entries = entries, em_size = expected_logical_offset,
                 em_capabilities = capabilities\<rparr>)"

definition find_entry :: "ExtentMapDataSource \<Rightarrow> nat \<Rightarrow> ExtentMapEntry option" where
  "find_entry em offset = find_piece ext_logical_offset (em_entries em) offset"

definition read_from_source :: "data_source \<Rightarrow> nat \<Rightarrow> nat \<Rightarrow> byte list result" where
  "read_from_source source offset len =
     gather (positioned_step (Source_error Extent_physical_offset_overflow) source offset) Ok len []"

text \<open>The \<open>match\<close> on the target of an entry in \<open>read_at\<close>.\<close>

definition read_entry :: "ExtentMapEntry \<Rightarrow> nat \<Rightarrow> nat \<Rightarrow> byte list result" where
  "read_entry entry entry_relative_offset entry_available =
     (case ext_target entry of
        ExtentData source source_offset \<Rightarrow>
          and_then (ok_or (Source_error Extent_physical_offset_overflow)
                      (checked_add source_offset entry_relative_offset))
            (\<lambda>physical_offset. read_from_source source physical_offset entry_available)
      | ExtentZero \<Rightarrow> Ok (replicate entry_available 0))"

definition extent_map_read_at :: "ExtentMapDataSource \<Rightarrow> nat \<Rightarrow> nat \<Rightarrow> byte list result" where
  "extent_map_read_at em offset n =
     piece_read_at extent_errors ext_logical_offset ext_size read_entry
       (em_entries em) (em_size em) offset n"

definition extent_map_source :: "ExtentMapDataSource \<Rightarrow> data_source" where
  "extent_map_source em =
     \<lparr>ds_read_at = extent_map_read_at em,
      ds_size = Ok (em_size em),
      ds_capabilities = em_capabilities em,
      ds_telemetry_name = ''extent_map'',
      ds_origin_path = None\<rparr>"

section \<open>Reading one extent\<close>

text \<open>
  The bytes of an extent, given the contents of its source (unused for a sparse extent), and the
  condition that a stored extent lies inside its source.
\<close>

definition extent_content :: "ExtentMapEntry \<Rightarrow> byte list \<Rightarrow> byte list" where
  "extent_content e c =
     (case ext_target e of
        ExtentData source source_offset \<Rightarrow> subslice source_offset (ext_size e) c
      | ExtentZero \<Rightarrow> replicate (ext_size e) 0)"

definition extent_backed :: "(data_source \<Rightarrow> byte list \<Rightarrow> bool) \<Rightarrow> ExtentMapEntry \<Rightarrow> byte list \<Rightarrow> bool" where
  "extent_backed P e c =
     (case ext_target e of
        ExtentData source source_offset \<Rightarrow> P source c \<and> source_offset + ext_size e \<le> length c
      | ExtentZero \<Rightarrow> True)"

lemma length_extent_content: "extent_backed P e c \<Longrightarrow> length (extent_content e c) = ext_size e"
  by (auto simp: extent_backed_def extent_content_def slice_simps split: ExtentMapTarget.splits)

lemma extent_backed_mono:
  "extent_backed P e c \<Longrightarrow> (\<And>d. P d c \<Longrightarrow> Q d c) \<Longrightarrow> extent_backed Q e c"
  by (auto simp: extent_backed_def split: ExtentMapTarget.splits)

lemma extent_zero_slice: "rel + n \<le> m \<Longrightarrow> replicate n x = subslice rel n (replicate m x)"
  by (simp add: subslice_def)

lemma read_entry_sound:
  assumes "extent_backed byte_source e c" "rel + n \<le> ext_size e" "read_entry e rel n = Ok bs"
  shows "bs = subslice rel n (extent_content e c)"
proof (cases "ext_target e")
  case (ExtentData source so)
  with assms(1) have src: "byte_source source c" and ins: "so + ext_size e \<le> length c"
    by (simp_all add: extent_backed_def)
  from assms(3) ExtentData
  have "gather (positioned_step (Source_error Extent_physical_offset_overflow) source (so + rel)) Ok n []
      = Ok bs"
    by (auto simp: read_entry_def read_from_source_def result_simps)
  then have "bs = subslice (so + rel) n c" by (rule byte_source.fill_sound [OF src])
  then show ?thesis using ExtentData assms(2) by (simp add: extent_content_def slice_slice)
next
  case ExtentZero
  with assms(2,3) show ?thesis
    by (simp add: read_entry_def extent_content_def extent_zero_slice)
qed

lemma read_entry_total:
  assumes "extent_backed total_source e c" "rel + n \<le> ext_size e"
  shows "\<exists>bs. read_entry e rel n = Ok bs"
proof (cases "ext_target e")
  case (ExtentData source so)
  with assms(1) have src: "total_source source c" and ins: "so + ext_size e \<le> length c"
    by (simp_all add: extent_backed_def)
  then have "so + rel < u64_limit"
    using assms(2) byte_source.content_u64 [OF total_source.axioms(1) [OF src]] by simp
  then show ?thesis
    using total_source.fill_total [OF src] ExtentData
    by (simp add: read_entry_def read_from_source_def checked_add_def)
next
  case ExtentZero
  then show ?thesis by (simp add: read_entry_def)
qed

section \<open>An extent map is the concatenation of its extents\<close>

locale extent_map =
  fixes entries :: "ExtentMapEntry list"
    and contents :: "byte list list"
    and em :: ExtentMapDataSource
  assumes created: "extent_map_new entries = Ok em"
    and entry_sources: "list_all2 (extent_backed byte_source) entries contents"
begin

abbreviation extents :: "byte list list" where
  "extents \<equiv> map2 extent_content entries contents"

lemma em_fields: "em_entries em = entries" "em_size em = sum_list (map ext_size entries)"
  and entries_layout: "layout ext_logical_offset ext_size 0 entries"
  and entries_u64: "sum_list (map ext_size entries) < u64_limit"
  using created
  by (auto simp: extent_map_new_def result_simps check_pieces_Ok u64_limit_def Let_def)

lemma entry_of_zip:
  assumes "(e, p) \<in> set (zip entries extents)"
  obtains c where "(e, c) \<in> set (zip entries contents)" "p = extent_content e c"
  using assms by (fastforce simp: set_zip)

lemma entry_ok: "(e, c) \<in> set (zip entries contents) \<Longrightarrow> extent_backed byte_source e c"
  using entry_sources by (auto simp: list_all2_iff)

lemma extents_lengths: "list_all2 (\<lambda>e p. length p = ext_size e) entries extents"
proof -
  have "length contents = length entries" using entry_sources by (simp add: list_all2_lengthD)
  moreover have "length (extent_content (entries ! i) (contents ! i)) = ext_size (entries ! i)"
    if "i < length entries" for i
    using entry_sources that by (auto simp: list_all2_conv_all_nth intro!: length_extent_content)
  ultimately show ?thesis by (simp add: list_all2_conv_all_nth)
qed

lemma length_extents: "length (concat extents) = em_size em"
proof -
  have "map length extents = map ext_size entries"
    using extents_lengths by (intro nth_equalityI) (auto simp: list_all2_conv_all_nth)
  then show ?thesis by (simp add: length_concat em_fields(2))
qed

end

sublocale extent_map \<subseteq> walk: piecewise extent_errors ext_logical_offset ext_size read_entry
  entries extents
proof unfold_locales
  show "layout ext_logical_offset ext_size 0 entries" by (rule entries_layout)
  show "list_all2 (\<lambda>x c. length c = ext_size x) entries extents" by (rule extents_lengths)
  show "length (concat extents) < u64_limit"
    using entries_u64 em_fields(2) length_extents by simp
next
  fix e p rel n bs
  assume zip: "(e, p) \<in> set (zip entries extents)" and rd: "read_entry e rel n = Ok bs"
    and le: "rel + n \<le> ext_size e"
  obtain c where c: "(e, c) \<in> set (zip entries contents)" and p: "p = extent_content e c"
    using zip by (rule entry_of_zip)
  have bs: "bs = subslice rel n p"
    using read_entry_sound [OF entry_ok [OF c] le rd] p by simp
  have "length bs = n"
    using bs le p length_extent_content [OF entry_ok [OF c]] by (simp add: slice_simps)
  then show "length bs \<le> n \<and> bs = subslice rel (length bs) p" and "0 < n \<Longrightarrow> bs \<noteq> []"
    using bs by auto
qed

sublocale extent_map \<subseteq> byte_source "extent_map_source em" "concat extents"
proof unfold_locales
  show "ds_size (extent_map_source em) = Ok (length (concat extents))"
    by (simp add: extent_map_source_def length_extents)
  show "length (concat extents) < u64_limit"
    using entries_u64 em_fields(2) length_extents by simp
next
  fix off n bs
  assume "ds_read_at (extent_map_source em) off n = Ok bs"
  then have bs: "bs = subslice off n (concat extents)"
    using walk.piece_read_at_sound [of off n bs]
    by (simp add: extent_map_source_def extent_map_read_at_def em_fields(1) length_extents)
  then show "length bs \<le> n \<and> bs = subslice off (length bs) (concat extents)"
    by (simp add: length_slice slice_min)
  show "bs \<noteq> []" if "0 < n" "off < length (concat extents)"
    using that bs by (simp add: slice_eq_Nil_iff)
qed

text \<open>Over sources that do not fail an extent map does not fail either, and never reads short.\<close>

locale total_extent_map = extent_map +
  assumes total_sources: "list_all2 (extent_backed total_source) entries contents"

sublocale total_extent_map \<subseteq> walk: total_piecewise extent_errors ext_logical_offset ext_size
  read_entry entries extents
proof unfold_locales
  fix e p rel n
  assume zip: "(e, p) \<in> set (zip entries extents)" and le: "rel + n \<le> ext_size e"
  obtain c where c: "(e, c) \<in> set (zip entries contents)"
    using zip by (rule entry_of_zip)
  then have "extent_backed total_source e c"
    using total_sources by (auto simp: list_all2_iff)
  then show "\<exists>bs. read_entry e rel n = Ok bs"
    using read_entry_total le by blast
qed

sublocale total_extent_map \<subseteq> exact: exact_source "extent_map_source em" "concat extents"
proof unfold_locales
  fix off n
  show "ds_read_at (extent_map_source em) off n = Ok (subslice off n (concat extents))"
    using walk.piece_read_at_total [of off n]
    by (simp add: extent_map_source_def extent_map_read_at_def em_fields(1) length_extents)
qed (rule size_content, rule content_u64)

context extent_map
begin

lemma map_byte_source: "byte_source (extent_map_source em) (concat extents)"
  by unfold_locales

end

context total_extent_map
begin

lemma map_exact_source: "exact_source (extent_map_source em) (concat extents)"
  by unfold_locales

end

section \<open>Extent maps the image drivers build\<close>

lemma extent_map_new_layout:
  assumes "layout ext_logical_offset ext_size 0 es" "sum_list (map ext_size es) < u64_limit"
  shows "\<exists>em. extent_map_new es = Ok em \<and> em_size em = sum_list (map ext_size es)"
  using assms check_pieces_Ok [of extent_errors ext_logical_offset ext_size 0 es "sum_list (map ext_size es)"]
  by (auto simp: extent_map_new_def Let_def)

text \<open>The bytes of a list of extents whose sources have the contents \<open>c\<close> gives.\<close>

definition extents_content :: "(ExtentMapEntry \<Rightarrow> byte list) \<Rightarrow> ExtentMapEntry list \<Rightarrow> byte list" where
  "extents_content c es = concat (map (\<lambda>e. extent_content e (c e)) es)"

lemma extents_content_simps [simp]:
  "extents_content c [] = []"
  "extents_content c (e # es) = extent_content e (c e) @ extents_content c es"
  "extents_content c (es @ es') = extents_content c es @ extents_content c es'"
  by (simp_all add: extents_content_def)

lemma extent_map_locale:
  assumes "extent_map_new es = Ok em" "\<forall>e \<in> set es. extent_backed byte_source e (c e)"
  shows "extent_map es (map c es) em"
  using assms by unfold_locales (simp_all add: list_all2_conv_all_nth)

lemma map2_extent_content: "map2 extent_content es (map c es) = map (\<lambda>e. extent_content e (c e)) es"
  by (induction es) simp_all

lemma extent_map_byte_source:
  assumes "extent_map_new es = Ok em" "\<forall>e \<in> set es. extent_backed byte_source e (c e)"
  shows "byte_source (extent_map_source em) (extents_content c es)"
  using extent_map.map_byte_source [OF extent_map_locale [OF assms]]
  by (simp add: map2_extent_content extents_content_def)

lemma extent_map_exact_source:
  assumes "extent_map_new es = Ok em" "\<forall>e \<in> set es. extent_backed total_source e (c e)"
  shows "exact_source (extent_map_source em) (extents_content c es)"
proof -
  have "\<forall>e \<in> set es. extent_backed byte_source e (c e)"
    using assms(2) by (auto elim!: extent_backed_mono dest: total_source.axioms(1))
  then have "total_extent_map es (map c es) em"
    using extent_map_locale [OF assms(1)] assms(2)
    by (simp add: total_extent_map_def total_extent_map_axioms_def list_all2_conv_all_nth)
  from total_extent_map.map_exact_source [OF this] show ?thesis
    by (simp add: map2_extent_content extents_content_def)
qed

text \<open>An entry that is sparse or lies in the first \<open>n\<close> bytes of one given source.\<close>

definition over_source :: "data_source \<Rightarrow> nat \<Rightarrow> ExtentMapEntry \<Rightarrow> bool" where
  "over_source ds n e =
     (case ext_target e of
        ExtentData source source_offset \<Rightarrow> source = ds \<and> source_offset + ext_size e \<le> n
      | ExtentZero \<Rightarrow> True)"

lemma over_source_backed: "over_source ds (length c) e \<Longrightarrow> P ds c \<Longrightarrow> extent_backed P e c"
  by (auto simp: over_source_def extent_backed_def split: ExtentMapTarget.splits)

text \<open>
  \<open>fills ds n lo hi byte es\<close>: the extents \<open>es\<close> have together the size of the logical range from
  \<open>lo\<close> to \<open>hi\<close>, are sparse or stored in the \<open>n\<close> bytes of \<open>ds\<close>, and \<open>byte c x\<close> is the byte they give
  at \<open>x\<close> when \<open>ds\<close> has the contents \<open>c\<close>.  They \<open>covers\<close> the range when they also lie one after the
  other on it.
\<close>

definition fills :: "data_source \<Rightarrow> nat \<Rightarrow> nat \<Rightarrow> nat \<Rightarrow> (byte list \<Rightarrow> nat \<Rightarrow> byte)
    \<Rightarrow> ExtentMapEntry list \<Rightarrow> bool" where
  "fills ds n lo hi byte es \<longleftrightarrow>
     lo + sum_list (map ext_size es) = hi \<and> (\<forall>e \<in> set es. over_source ds n e)
     \<and> (\<forall>c. byte_source ds c \<longrightarrow> length c = n \<longrightarrow> extents_content (\<lambda>_. c) es = map (byte c) [lo..<hi])"

definition covers :: "data_source \<Rightarrow> nat \<Rightarrow> nat \<Rightarrow> nat \<Rightarrow> (byte list \<Rightarrow> nat \<Rightarrow> byte)
    \<Rightarrow> ExtentMapEntry list \<Rightarrow> bool" where
  "covers ds n lo hi byte es \<longleftrightarrow> layout ext_logical_offset ext_size lo es \<and> fills ds n lo hi byte es"

definition zero_extent :: "nat \<Rightarrow> nat \<Rightarrow> ExtentMapEntry" where
  "zero_extent lo sz = \<lparr>ext_logical_offset = lo, ext_size = sz, ext_target = ExtentZero\<rparr>"

definition data_extent :: "nat \<Rightarrow> nat \<Rightarrow> data_source \<Rightarrow> nat \<Rightarrow> ExtentMapEntry" where
  "data_extent lo sz ds off = \<lparr>ext_logical_offset = lo, ext_size = sz, ext_target = ExtentData ds off\<rparr>"

lemma fills_nil [simp]: "fills ds n lo lo byte []"
  by (simp add: fills_def)

lemma fills_append:
  assumes "fills ds n lo mid byte es" "fills ds n mid hi byte es'"
  shows "fills ds n lo hi byte (es @ es')"
proof -
  have le: "lo \<le> mid" "mid \<le> hi" using assms unfolding fills_def by linarith+
  then have "[lo..<hi] = [lo..<mid] @ [mid..<hi]"
    using upt_add_eq_append [of lo mid "hi - mid"] by simp
  with assms le show ?thesis by (auto simp: fills_def)
qed

lemma fills_zero:
  assumes "\<And>c x. byte_source ds c \<Longrightarrow> length c = n \<Longrightarrow> lo \<le> x \<Longrightarrow> x < lo + sz \<Longrightarrow> byte c x = 0"
  shows "fills ds n lo (lo + sz) byte [zero_extent lo sz]"
proof -
  have "replicate sz 0 = map (byte c) [lo..<lo + sz]" if "byte_source ds c" "length c = n" for c
    using assms that by (intro nth_equalityI) simp_all
  then show ?thesis
    by (auto simp: fills_def over_source_def extent_content_def zero_extent_def)
qed

lemma fills_data:
  assumes "off + sz \<le> n"
    and "\<And>c x. byte_source ds c \<Longrightarrow> length c = n \<Longrightarrow> lo \<le> x \<Longrightarrow> x < lo + sz \<Longrightarrow> byte c x = c ! (off + (x - lo))"
  shows "fills ds n lo (lo + sz) byte [data_extent lo sz ds off]"
proof -
  have "subslice off sz c = map (byte c) [lo..<lo + sz]" if "byte_source ds c" "length c = n" for c
    using slice_map_nth [of off sz c lo] assms that by simp
  then show ?thesis
    using assms(1) by (auto simp: fills_def over_source_def extent_content_def data_extent_def)
qed

lemma covers_nil [simp]: "covers ds n lo lo byte []"
  by (simp add: covers_def)

lemma covers_append:
  assumes "covers ds n lo mid byte es" "covers ds n mid hi byte es'"
  shows "covers ds n lo hi byte (es @ es')"
  using assms fills_append [of ds n lo mid byte es hi es'] by (auto simp: covers_def fills_def layout_append)

lemma covers_zero:
  assumes "0 < sz" "\<And>c x. byte_source ds c \<Longrightarrow> length c = n \<Longrightarrow> lo \<le> x \<Longrightarrow> x < lo + sz \<Longrightarrow> byte c x = 0"
  shows "covers ds n lo (lo + sz) byte [zero_extent lo sz]"
  using assms(1) fills_zero [OF assms(2)] by (simp add: covers_def zero_extent_def)

lemma covers_data:
  assumes "0 < sz" "off + sz \<le> n"
    and "\<And>c x. byte_source ds c \<Longrightarrow> length c = n \<Longrightarrow> lo \<le> x \<Longrightarrow> x < lo + sz \<Longrightarrow> byte c x = c ! (off + (x - lo))"
  shows "covers ds n lo (lo + sz) byte [data_extent lo sz ds off]"
  using assms(1) fills_data [OF assms(2,3)] by (simp add: covers_def data_extent_def)

lemma covers_cong:
  assumes "covers ds n lo hi byte es" "\<And>c x. lo \<le> x \<Longrightarrow> x < hi \<Longrightarrow> byte c x = byte' c x"
  shows "covers ds n lo hi byte' es"
  using assms by (auto simp: covers_def fills_def)

subsection \<open>Merging\<close>

text \<open>
  Drivers that find their extents block by block merge an extent with the one before it when it
  continues it; the extent under construction is kept apart from those that are complete.
\<close>

definition mergeable :: "ExtentMapEntry \<Rightarrow> ExtentMapEntry \<Rightarrow> bool" where
  "mergeable a b =
     (case (ext_target a, ext_target b) of
        (ExtentZero, ExtentZero) \<Rightarrow> True
      | (ExtentData _ off, ExtentData _ off') \<Rightarrow> off' = off + ext_size a
      | _ \<Rightarrow> False)"

lemma covers_merge:
  assumes cov: "covers ds n lo hi byte (es @ [a, b])" and m: "mergeable a b"
  shows "covers ds n lo hi byte (es @ [a\<lparr>ext_size := ext_size a + ext_size b\<rparr>])"
proof -
  let ?ab = "a\<lparr>ext_size := ext_size a + ext_size b\<rparr>"
  have "extent_content ?ab c = extent_content a c @ extent_content b c" for c
    using m by (auto simp: mergeable_def extent_content_def slice_append replicate_add
        split: ExtentMapTarget.splits)
  moreover have "over_source ds n ?ab"
    using m cov by (auto simp: mergeable_def over_source_def covers_def fills_def split: ExtentMapTarget.splits)
  ultimately show ?thesis using cov by (simp add: covers_def fills_def layout_append)
qed

definition with_current :: "ExtentMapEntry list \<Rightarrow> ExtentMapEntry option \<Rightarrow> ExtentMapEntry list" where
  "with_current es cur = es @ (case cur of None \<Rightarrow> [] | Some e \<Rightarrow> [e])"

subsection \<open>The source\<close>

text \<open>Such a list gives a source of the length of the range.\<close>

lemma covers_map:
  assumes cov: "covers ds n 0 hi byte es" and hi: "hi < u64_limit" and n: "ds_size ds = Ok n"
  shows "\<exists>em. extent_map_new es = Ok em \<and> ds_size (extent_map_source em) = Ok hi
    \<and> (\<forall>c. byte_source ds c \<longrightarrow> byte_source (extent_map_source em) (map (byte c) [0..<hi]))
    \<and> (\<forall>c. total_source ds c \<longrightarrow> exact_source (extent_map_source em) (map (byte c) [0..<hi]))"
proof -
  have es: "layout ext_logical_offset ext_size 0 es" "sum_list (map ext_size es) = hi"
    "\<forall>e \<in> set es. over_source ds n e"
    using cov by (simp_all add: covers_def fills_def)
  obtain em where em: "extent_map_new es = Ok em" "em_size em = hi"
    using extent_map_new_layout [OF es(1)] es(2) hi by auto
  have len: "length c = n" if "byte_source ds c" for c
    using byte_source.size_content [OF that] n by simp
  then have bytes: "extents_content (\<lambda>_. c) es = map (byte c) [0..<hi]" if "byte_source ds c" for c
    using cov that by (simp add: covers_def fills_def)
  have "byte_source (extent_map_source em) (extents_content (\<lambda>_. c) es)" if "byte_source ds c" for c
    using that es(3) len by (auto intro!: extent_map_byte_source [OF em(1)] over_source_backed)
  moreover have "exact_source (extent_map_source em) (extents_content (\<lambda>_. c) es)" if "total_source ds c" for c
    using that es(3) len [OF total_source.axioms(1) [OF that]]
    by (auto intro!: extent_map_exact_source [OF em(1)] over_source_backed)
  moreover have "ds_size (extent_map_source em) = Ok hi"
    using em(2) by (simp add: extent_map_source_def)
  ultimately show ?thesis
    using em(1) bytes total_source.axioms(1) by metis
qed

text \<open>An image of four stored bytes with a hole before them.\<close>

definition holed_entries :: "ExtentMapEntry list" where
  "holed_entries = [zero_extent 0 2, data_extent 2 4 (memory_source (memory_new [7, 1, 2, 3, 4])) 1]"

definition holed_map :: ExtentMapDataSource where
  "holed_map = \<lparr>em_entries = holed_entries, em_size = 6, em_capabilities = capabilities_concurrent Cheap\<rparr>"

lemma holed_map_new: "extent_map_new holed_entries = Ok holed_map"
  by (simp add: extent_map_new_def holed_entries_def holed_map_def zero_extent_def data_extent_def
      checked_add_def u64_limit_def Let_def data_capabilities_def memory_source_def)

lemma holed_map_backed: "list_all2 (extent_backed total_source) holed_entries [[], [7, 1, 2, 3, 4]]"
  by (simp add: holed_entries_def extent_backed_def zero_extent_def data_extent_def memory_sources u64_limit_def)

interpretation holed: total_extent_map holed_entries "[[], [7, 1, 2, 3, 4]]" holed_map
  using holed_map_backed
  by unfold_locales (auto simp: holed_map_new intro: list_all2_mono extent_backed_mono total_source.axioms(1))

section \<open>Properties\<close>

text \<open>
  (C3) An extent map over sources that do not fail reads, at any offset, all the bytes there are:
  those of the stored extents from their sources and zeros for the sparse ones.
\<close>

theorem extent_map_is_concatenation:
  assumes "extent_map_new entries = Ok em" "list_all2 (extent_backed total_source) entries contents"
  shows "ds_size (extent_map_source em) = Ok (length (concat (map2 extent_content entries contents)))
    \<and> ds_read_at (extent_map_source em) off n
        = Ok (subslice off n (concat (map2 extent_content entries contents)))"
proof -
  have "total_extent_map entries contents em"
    using assms
    by unfold_locales (auto intro: list_all2_mono extent_backed_mono total_source.axioms(1))
  from total_extent_map.map_exact_source [OF this] show ?thesis
    by (simp add: exact_source.exact_size exact_source.exact_read)
qed

theorem extent_map_is_concatenation_witness:
  "ds_read_at (extent_map_source holed_map) 1 3 = Ok [0, 1, 2]"
  using extent_map_is_concatenation [OF holed_map_new holed_map_backed, of 1 3]
  by (simp add: holed_entries_def zero_extent_def data_extent_def extent_content_def subslice_def
      numeral_eq_Suc)

end
