(* ===== verification/Sparse_Image.thy ===== *)
theory Sparse_Image
  imports Extent_Map Unicode_Text
begin

text \<open>
  The sparse disk image (\<open>image/sparseimage/mod.rs\<close>): a header block with an array that gives,
  for every band stored in the file, its number on the logical disk.  The lemmas show that every
  image that opens yields a logical source of exactly the media size, and which byte of the file,
  if any, each byte of the logical disk comes from.
\<close>

section \<open>SparseImageFile\<close>

record SparseImageBandMapping =
  bm_logical_offset :: nat
  bm_logical_size :: nat
  bm_data_offset :: nat

record SparseImageFile =
  si_source :: data_source
  si_bytes_per_sector :: nat
  si_band_size :: nat
  si_band_numbers :: "nat list"
  si_mapped_bands :: "SparseImageBandMapping list"
  si_media_size :: nat

text \<open>
  The loop over the band array.  The \<open>HashSet\<close> of the numbers already seen is the set of the
  numbers other than 0 that were pushed to \<open>band_numbers\<close>.
\<close>

fun sparse_read_bands :: "byte list \<Rightarrow> nat \<Rightarrow> nat \<Rightarrow> nat \<Rightarrow> nat \<Rightarrow> nat list \<Rightarrow> nat list
    \<Rightarrow> SparseImageBandMapping list \<Rightarrow> (nat list \<times> SparseImageBandMapping list) result" where
  "sparse_read_bands header_data src_size band_size media_size number_of_bands [] band_numbers mapped_bands =
     Ok (band_numbers, mapped_bands)"
| "sparse_read_bands header_data src_size band_size media_size number_of_bands (array_index # indices)
       band_numbers mapped_bands =
     (let band_number = u32_be (64 + array_index * 4) header_data in
      if band_number = 0 then
        sparse_read_bands header_data src_size band_size media_size number_of_bands indices
          (band_numbers @ [band_number]) mapped_bands
      else if number_of_bands < band_number then Err (Image_error Sparseimage_band_number)
      else if band_number \<in> set band_numbers then Err (Image_error Sparseimage_duplicate_band)
      else
        and_then (ok_or (Image_error Sparseimage_logical_offset_overflow)
                   (checked_mul (band_number - 1) band_size)) (\<lambda>logical_offset.
        let logical_size = min band_size (saturating_sub media_size logical_offset) in
        and_then (mul_u64 array_index band_size) (\<lambda>relative_offset.
        and_then (ok_or (Image_error Sparseimage_physical_offset_overflow)
                   (checked_add 4096 relative_offset)) (\<lambda>physical_offset.
        and_then (ok_or (Image_error Sparseimage_physical_end_overflow)
                   (checked_add physical_offset logical_size)) (\<lambda>physical_end_offset.
          if src_size < physical_end_offset then Err (Image_error Sparseimage_band_exceeds_source)
          else
            sparse_read_bands header_data src_size band_size media_size number_of_bands indices
              (band_numbers @ [band_number])
              (mapped_bands @ [\<lparr>bm_logical_offset = logical_offset, bm_logical_size = logical_size,
                                bm_data_offset = physical_offset\<rparr>]))))))"

definition sparse_open :: "data_source \<Rightarrow> SparseImageFile result" where
  "sparse_open source =
     and_then (ds_size source) (\<lambda>src_size.
     and_then (read_exact_at source 0 4096) (\<lambda>header_data.
       if subslice 0 4 header_data \<noteq> lit ''sprs'' then Err (Image_error Sparseimage_signature)
       else
         let sectors_per_band = u32_be 8 header_data;
             number_of_sectors = u32_be 16 header_data
         in if sectors_per_band = 0 then Err (Image_error Sparseimage_sectors_per_band)
            else
              and_then (ok_or (Image_error Sparseimage_band_size_overflow)
                         (checked_mul_u32 sectors_per_band 512)) (\<lambda>band_size.
              and_then (ok_or (Image_error Sparseimage_media_size_overflow)
                         (checked_mul number_of_sectors 512)) (\<lambda>media_size.
              let number_of_bands = div_ceil number_of_sectors sectors_per_band in
              if (4096 - 64) div 4 < number_of_bands then Err (Image_error Sparseimage_number_of_bands)
              else
                and_then (sparse_read_bands header_data src_size band_size media_size number_of_bands
                           [0..<number_of_bands] [] []) (\<lambda>(band_numbers, mapped_bands).
                  Ok \<lparr>si_source = source, si_bytes_per_sector = 512, si_band_size = band_size,
                      si_band_numbers = band_numbers,
                      si_mapped_bands = sort_key bm_logical_offset mapped_bands,
                      si_media_size = media_size\<rparr>)))))"

text \<open>The loop of \<open>open_source\<close>: a sparse extent where bands are missing.\<close>

fun sparse_extents :: "data_source \<Rightarrow> nat \<Rightarrow> SparseImageBandMapping list
    \<Rightarrow> (nat \<times> ExtentMapEntry list) result" where
  "sparse_extents source current_offset [] = Ok (current_offset, [])"
| "sparse_extents source current_offset (m # ms) =
     (let gap = (if current_offset < bm_logical_offset m
                 then [\<lparr>ext_logical_offset = current_offset, ext_size = bm_logical_offset m - current_offset,
                        ext_target = ExtentZero\<rparr>]
                 else []);
          band = \<lparr>ext_logical_offset = bm_logical_offset m, ext_size = bm_logical_size m,
                  ext_target = ExtentData source (bm_data_offset m)\<rparr>
      in and_then (ok_or (Image_error Sparseimage_extent_end_overflow)
                     (checked_add (bm_logical_offset m) (bm_logical_size m))) (\<lambda>current_offset.
         and_then (sparse_extents source current_offset ms) (\<lambda>(end_offset, extents).
           Ok (end_offset, gap @ band # extents))))"

definition sparse_open_source :: "SparseImageFile \<Rightarrow> data_source result" where
  "sparse_open_source f =
     and_then (sparse_extents (si_source f) 0 (si_mapped_bands f)) (\<lambda>(current_offset, extents).
       let tail = (if current_offset < si_media_size f
                   then [\<lparr>ext_logical_offset = current_offset, ext_size = si_media_size f - current_offset,
                          ext_target = ExtentZero\<rparr>]
                   else [])
       in and_then (extent_map_new (extents @ tail)) (\<lambda>em. Ok (extent_map_source em)))"

section \<open>The extents\<close>

text \<open>Bands in order, none empty, inside the media and inside the file of \<open>n\<close> bytes.\<close>

definition bands_ok :: "nat \<Rightarrow> nat \<Rightarrow> SparseImageBandMapping list \<Rightarrow> bool" where
  "bands_ok media_size n ms \<longleftrightarrow>
     sorted_wrt (\<lambda>a b. bm_logical_offset a + bm_logical_size a \<le> bm_logical_offset b) ms
     \<and> (\<forall>m \<in> set ms. 0 < bm_logical_size m \<and> bm_logical_offset m + bm_logical_size m \<le> media_size
          \<and> bm_data_offset m + bm_logical_size m \<le> n)"

text \<open>The byte of the logical disk at \<open>x\<close>, from the band that covers it.\<close>

definition in_band :: "nat \<Rightarrow> SparseImageBandMapping \<Rightarrow> bool" where
  "in_band x m \<longleftrightarrow> bm_logical_offset m \<le> x \<and> x < bm_logical_offset m + bm_logical_size m"

definition band_byte :: "SparseImageBandMapping list \<Rightarrow> byte list \<Rightarrow> nat \<Rightarrow> byte" where
  "band_byte ms c x =
     (case find (in_band x) ms of Some m \<Rightarrow> c ! (bm_data_offset m + (x - bm_logical_offset m)) | None \<Rightarrow> 0)"

definition tail_extent :: "nat \<Rightarrow> nat \<Rightarrow> ExtentMapEntry list" where
  "tail_extent media_size cur = (if cur < media_size then [zero_extent cur (media_size - cur)] else [])"

lemma covers_gap:
  assumes "lo \<le> hi" "\<And>c x. lo \<le> x \<Longrightarrow> x < hi \<Longrightarrow> byte c x = 0"
  shows "covers ds n lo hi byte (tail_extent hi lo)"
  using assms covers_zero [of "hi - lo" ds n lo byte]
  by (cases "lo < hi") (auto simp: tail_extent_def)

lemma band_byte_Cons:
  "band_byte (m # ms) c x =
     (if in_band x m then c ! (bm_data_offset m + (x - bm_logical_offset m)) else band_byte ms c x)"
  by (simp add: band_byte_def)

lemma band_byte_before: "\<forall>m \<in> set ms. x < bm_logical_offset m \<Longrightarrow> band_byte ms c x = 0"
proof -
  assume "\<forall>m \<in> set ms. x < bm_logical_offset m"
  then have "find (in_band x) ms = None" by (auto simp: find_None_iff in_band_def)
  then show ?thesis by (simp add: band_byte_def)
qed

lemma sparse_extents_cover:
  assumes "bands_ok media_size n ms" "media_size < u64_limit" "cur \<le> media_size"
    and "\<forall>m \<in> set ms. cur \<le> bm_logical_offset m"
  shows "\<exists>end_offset es. sparse_extents ds cur ms = Ok (end_offset, es)
    \<and> covers ds n cur media_size (band_byte ms) (es @ tail_extent media_size end_offset)"
  using assms
proof (induction ms arbitrary: cur)
  case Nil
  have "covers ds n cur media_size (band_byte []) (tail_extent media_size cur)"
    using Nil.prems(3) by (rule covers_gap) (simp add: band_byte_def)
  then show ?case by (intro exI [of _ cur] exI [of _ "[]"] conjI) simp_all
next
  case (Cons m ms)
  let ?lo = "bm_logical_offset m" and ?sz = "bm_logical_size m" and ?off = "bm_data_offset m"
  let ?byte = "band_byte (m # ms)"
  from Cons.prems have m: "0 < ?sz" "?lo + ?sz \<le> media_size" "?off + ?sz \<le> n" "cur \<le> ?lo"
    and ms: "bands_ok media_size n ms" "\<forall>m' \<in> set ms. ?lo + ?sz \<le> bm_logical_offset m'"
    by (auto simp: bands_ok_def)
  from Cons.IH [OF ms(1) Cons.prems(2) m(2) ms(2)] obtain end_offset es where
    es: "sparse_extents ds (?lo + ?sz) ms = Ok (end_offset, es)"
    and cov: "covers ds n (?lo + ?sz) media_size (band_byte ms) (es @ tail_extent media_size end_offset)"
    by blast
  from cov have "covers ds n (?lo + ?sz) media_size ?byte (es @ tail_extent media_size end_offset)"
    by (rule covers_cong) (simp add: band_byte_Cons in_band_def)
  moreover have "covers ds n ?lo (?lo + ?sz) ?byte [data_extent ?lo ?sz ds ?off]"
    using m by (intro covers_data) (auto simp: band_byte_Cons in_band_def)
  moreover have "covers ds n cur ?lo ?byte (tail_extent ?lo cur)"
    using m(4) ms(2) by (intro covers_gap band_byte_before) fastforce+
  ultimately have "covers ds n cur media_size ?byte
      (tail_extent ?lo cur @ [data_extent ?lo ?sz ds ?off] @ es @ tail_extent media_size end_offset)"
    by (blast intro: covers_append)
  moreover have "?lo + ?sz < u64_limit" using m(2) Cons.prems(2) by simp
  ultimately show ?case
    using es
    by (intro exI [of _ end_offset] exI [of _ "tail_extent ?lo cur @ data_extent ?lo ?sz ds ?off # es"])
      (simp add: checked_add_def Let_def tail_extent_def zero_extent_def data_extent_def)
qed

section \<open>The bands of an opened image\<close>

text \<open>The mapping of the band with number \<open>b\<close> that is stored at position \<open>i\<close>.\<close>

definition band_of :: "nat \<Rightarrow> nat \<Rightarrow> nat \<Rightarrow> nat \<Rightarrow> SparseImageBandMapping" where
  "band_of band_size media_size i b =
     \<lparr>bm_logical_offset = (b - 1) * band_size,
      bm_logical_size = min band_size (media_size - (b - 1) * band_size),
      bm_data_offset = 4096 + i * band_size\<rparr>"

definition stored_bands :: "nat list \<Rightarrow> (nat \<times> nat) list" where
  "stored_bands nums = filter (\<lambda>(i, b). b \<noteq> 0) (enumerate 0 nums)"

lemma stored_bands_append:
  "stored_bands (nums @ [b]) = stored_bands nums @ (if b \<noteq> 0 then [(length nums, b)] else [])"
  by (simp add: stored_bands_def enumerate_append_eq)

lemma stored_bands_set: "(i, b) \<in> set (stored_bands nums) \<longleftrightarrow> i < length nums \<and> nums ! i = b \<and> b \<noteq> 0"
  by (auto simp: stored_bands_def in_set_enumerate_eq)

text \<open>What the loop over the band array establishes.\<close>

definition sparse_inv :: "nat \<Rightarrow> nat \<Rightarrow> nat \<Rightarrow> nat list \<Rightarrow> SparseImageBandMapping list \<Rightarrow> bool" where
  "sparse_inv n band_size media_size nums ms \<longleftrightarrow>
     ms = map (\<lambda>(i, b). band_of band_size media_size i b) (stored_bands nums)
     \<and> distinct (map snd (stored_bands nums))
     \<and> (\<forall>(i, b) \<in> set (stored_bands nums). (b - 1) * band_size < media_size)
     \<and> (\<forall>m \<in> set ms. bm_data_offset m + bm_logical_size m \<le> n)"

lemma sparse_inv_push:
  assumes "sparse_inv n band_size media_size nums ms" "b \<noteq> 0" "b \<notin> set nums"
    and "(b - 1) * band_size < media_size"
    and "4096 + length nums * band_size + min band_size (media_size - (b - 1) * band_size) \<le> n"
  shows "sparse_inv n band_size media_size (nums @ [b]) (ms @ [band_of band_size media_size (length nums) b])"
proof -
  have "b \<notin> snd ` set (stored_bands nums)" using assms(3) by (auto simp: stored_bands_set)
  with assms show ?thesis
    by (auto simp: sparse_inv_def stored_bands_append band_of_def)
qed

lemma sparse_inv_skip:
  "sparse_inv n band_size media_size nums ms \<Longrightarrow> sparse_inv n band_size media_size (nums @ [0]) ms"
  by (simp add: sparse_inv_def stored_bands_append)

lemma sparse_read_bands_inv:
  assumes "sparse_read_bands header_data n band_size media_size N [k..<N] nums ms = Ok (nums', ms')"
    and "sparse_inv n band_size media_size nums ms" "length nums = k" "k \<le> N"
    and "\<forall>b. 0 < b \<and> b \<le> N \<longrightarrow> (b - 1) * band_size < media_size"
  shows "sparse_inv n band_size media_size nums' ms' \<and> length nums' = N"
  using assms(1-4)
proof (induction "N - k" arbitrary: k nums ms)
  case 0
  then show ?case by auto
next
  case (Suc d)
  have k: "k < N" and upt: "[k..<N] = k # [Suc k..<N]" using Suc.hyps(2) by (simp_all add: upt_conv_Cons)
  define b where "b = u32_be (64 + k * 4) header_data"
  show ?case
  proof (cases "b = 0")
    case True
    with Suc.prems(1) have "sparse_read_bands header_data n band_size media_size N [Suc k..<N] (nums @ [0]) ms = Ok (nums', ms')"
      unfolding upt by (simp add: b_def Let_def)
    with Suc.hyps(1) [of "Suc k" "nums @ [0]" ms] Suc.hyps(2) Suc.prems sparse_inv_skip k
    show ?thesis by simp
  next
    case False
    with Suc.prems(1) have b: "b \<le> N" "b \<notin> set nums"
      and rec: "sparse_read_bands header_data n band_size media_size N [Suc k..<N] (nums @ [b])
        (ms @ [band_of band_size media_size k b]) = Ok (nums', ms')"
      and le: "4096 + k * band_size + min band_size (media_size - (b - 1) * band_size) \<le> n"
      unfolding upt
      by (auto simp: b_def [symmetric] Let_def result_simps band_of_def saturating_sub_def split: if_splits)
    have "sparse_inv n band_size media_size (nums @ [b]) (ms @ [band_of band_size media_size k b])"
      using sparse_inv_push [of n band_size media_size nums ms b] Suc.prems False b le assms(5) by simp
    with Suc.hyps(1) [of "Suc k" "nums @ [b]"] Suc.hyps(2) Suc.prems(3) rec k show ?thesis by simp
  qed
qed

lemma sparse_bands_ok:
  assumes inv: "sparse_inv n band_size media_size nums ms" and pos: "0 < band_size"
  shows "bands_ok media_size n (sort_key bm_logical_offset ms)"
proof -
  let ?S = "sort_key bm_logical_offset ms"
  have shape: "\<exists>i b. m = band_of band_size media_size i b \<and> b \<noteq> 0 \<and> (b - 1) * band_size < media_size"
    if "m \<in> set ms" for m
    using inv that by (fastforce simp: sparse_inv_def stored_bands_set)
  have "inj_on (\<lambda>b. (b - 1) * band_size) {b. b \<noteq> 0}" using pos by (auto simp: inj_on_def)
  then have "inj_on (\<lambda>b. (b - 1) * band_size) (set (map snd (stored_bands nums)))"
    by (rule inj_on_subset) (auto simp: stored_bands_set)
  moreover have "distinct (map snd (stored_bands nums))" using inv by (simp only: sparse_inv_def)
  ultimately have "distinct (map (\<lambda>b. (b - 1) * band_size) (map snd (stored_bands nums)))"
    by (subst distinct_map) (rule conjI)
  moreover have "map bm_logical_offset ms = map (\<lambda>b. (b - 1) * band_size) (map snd (stored_bands nums))"
    using inv by (auto simp: sparse_inv_def band_of_def)
  ultimately have "distinct (map bm_logical_offset ms)" by (simp only:)
  then have "distinct (map bm_logical_offset ?S)"
    by (metis distinct_map distinct_sort set_sort)
  then have "sorted_wrt (<) (map bm_logical_offset ?S)"
    by (simp add: strict_sorted_iff)
  then have "sorted_wrt (\<lambda>a b. bm_logical_offset a < bm_logical_offset b) ?S"
    by (simp add: sorted_wrt_map)
  moreover have "bm_logical_offset a + bm_logical_size a \<le> bm_logical_offset b"
    if ab: "a \<in> set ?S" "b \<in> set ?S" "bm_logical_offset a < bm_logical_offset b" for a b
  proof -
    obtain i p j q where a: "a = band_of band_size media_size i p" and b: "b = band_of band_size media_size j q"
      using shape [of a] shape [of b] ab by auto
    with ab(3) have "p - 1 < q - 1" by (simp add: band_of_def)
    then have "(p - 1 + 1) * band_size \<le> (q - 1) * band_size" by (intro mult_le_mono1) simp
    then show ?thesis by (simp add: a b band_of_def)
  qed
  ultimately have "sorted_wrt (\<lambda>a b. bm_logical_offset a + bm_logical_size a \<le> bm_logical_offset b) ?S"
    by (rule sorted_wrt_mono_rel [rotated]) blast
  moreover have "0 < bm_logical_size m \<and> bm_logical_offset m + bm_logical_size m \<le> media_size" if "m \<in> set ms" for m
    using shape [OF that] pos by (auto simp: band_of_def)
  ultimately show ?thesis using inv by (simp add: bands_ok_def sparse_inv_def)
qed

section \<open>The logical disk\<close>

text \<open>
  The byte at \<open>x\<close>, from the header: the band \<open>x div band_size + 1\<close> is stored at the position of
  that number in the array; a number that is not in the array is a band of zeros.
\<close>

definition sparse_byte :: "nat list \<Rightarrow> nat \<Rightarrow> byte list \<Rightarrow> nat \<Rightarrow> byte" where
  "sparse_byte nums band_size c x =
     (case find (\<lambda>i. nums ! i = x div band_size + 1) [0..<length nums] of
        Some i \<Rightarrow> c ! (4096 + i * band_size + x mod band_size)
      | None \<Rightarrow> 0)"

definition sparse_media :: "SparseImageFile \<Rightarrow> byte list \<Rightarrow> byte list" where
  "sparse_media f c = map (sparse_byte (si_band_numbers f) (si_band_size f) c) [0..<si_media_size f]"

lemma in_band_of:
  assumes "x < media_size" "0 < band_size" "b \<noteq> 0"
  shows "in_band x (band_of band_size media_size i b) \<longleftrightarrow> b = x div band_size + 1"
proof -
  have "(b - 1) * band_size \<le> x \<and> x < (b - 1) * band_size + band_size \<longleftrightarrow> x div band_size = b - 1"
  proof
    assume "x div band_size = b - 1"
    moreover have "x = x div band_size * band_size + x mod band_size" by simp
    moreover have "x mod band_size < band_size" using assms(2) by simp
    ultimately show "(b - 1) * band_size \<le> x \<and> x < (b - 1) * band_size + band_size"
      by (metis add_less_cancel_left le_add1)
  qed (auto intro: div_nat_eqI simp: mult.commute)
  with assms show ?thesis by (auto simp: in_band_def band_of_def)
qed

lemma sparse_byte_band:
  assumes inv: "sparse_inv n band_size media_size nums ms" and x: "x < media_size" "0 < band_size"
  shows "band_byte (sort_key bm_logical_offset ms) c x = sparse_byte nums band_size c x"
proof (cases "\<exists>i < length nums. nums ! i = x div band_size + 1")
  case False
  have "\<not> in_band x m" if "m \<in> set ms" for m
    using inv that False in_band_of [OF x] by (force simp: sparse_inv_def stored_bands_set)
  then have "find (in_band x) (sort_key bm_logical_offset ms) = None" by (simp add: find_None_iff)
  moreover have "find (\<lambda>i. nums ! i = x div band_size + 1) [0..<length nums] = None"
    using False by (simp add: find_None_iff)
  ultimately show ?thesis by (simp add: band_byte_def sparse_byte_def)
next
  case True
  then obtain i where find_i: "find (\<lambda>i. nums ! i = x div band_size + 1) [0..<length nums] = Some i"
    by (metis (mono_tags, lifting) find_None_iff not_None_eq atLeastLessThan_iff set_upt le0)
  then have i: "i < length nums" "nums ! i = x div band_size + 1"
    by (auto simp: find_Some_iff)
  have uniq: "j = i" if "j < length nums" "nums ! j = x div band_size + 1" for j
  proof -
    have "inj_on snd (set (stored_bands nums))"
      using inv by (simp add: sparse_inv_def distinct_map)
    moreover have "(i, nums ! i) \<in> set (stored_bands nums)" "(j, nums ! j) \<in> set (stored_bands nums)"
      using i that by (simp_all add: stored_bands_set)
    ultimately have "(j, nums ! j) = (i, nums ! i)"
      using i(2) that(2) by (elim inj_onD) simp_all
    then show "j = i" by simp
  qed
  have mem: "band_of band_size media_size i (x div band_size + 1) \<in> set ms"
    using inv i by (force simp: sparse_inv_def stored_bands_set)
  moreover have "in_band x (band_of band_size media_size i (x div band_size + 1))"
    using in_band_of [OF x, of "x div band_size + 1"] by simp
  ultimately have "\<not> (find (in_band x) (sort_key bm_logical_offset ms) = None)"
    by (simp only: find_None_iff set_sort) blast
  then obtain m where find_m: "find (in_band x) (sort_key bm_logical_offset ms) = Some m" by blast
  then have "m \<in> set ms" "in_band x m"
    by (metis find_Some_iff nth_mem set_sort, metis find_Some_iff)
  from this(1) inv obtain j b where m: "m = band_of band_size media_size j b"
    and j: "j < length nums" "nums ! j = b" "b \<noteq> 0"
    by (auto simp: sparse_inv_def stored_bands_set)
  with \<open>in_band x m\<close> have "b = x div band_size + 1" using in_band_of [OF x] by blast
  with m j uniq have "m = band_of band_size media_size i (x div band_size + 1)" by simp
  moreover have "x - x div band_size * band_size = x mod band_size" by (simp add: minus_div_mult_eq_mod)
  ultimately show ?thesis
    using find_i find_m by (simp add: band_byte_def sparse_byte_def band_of_def)
qed

lemma sparse_open_Ok:
  assumes "sparse_open ds = Ok f"
  obtains n ms where "ds_size ds = Ok n" "sparse_inv n (si_band_size f) (si_media_size f) (si_band_numbers f) ms"
    "si_mapped_bands f = sort_key bm_logical_offset ms" "si_source f = ds" "0 < si_band_size f"
    "si_media_size f < u64_limit" "length (si_band_numbers f) = div_ceil (si_media_size f) (si_band_size f)"
proof -
  from assms obtain n header_data nums ms where n: "ds_size ds = Ok n"
    and spb: "u32_be 8 header_data \<noteq> 0"
    and media: "u32_be 16 header_data * 512 < u64_limit"
    and bands: "sparse_read_bands header_data n (u32_be 8 header_data * 512) (u32_be 16 header_data * 512)
      (div_ceil (u32_be 16 header_data) (u32_be 8 header_data))
      [0..<div_ceil (u32_be 16 header_data) (u32_be 8 header_data)] [] [] = Ok (nums, ms)"
    and f: "f = \<lparr>si_source = ds, si_bytes_per_sector = 512, si_band_size = u32_be 8 header_data * 512,
      si_band_numbers = nums, si_mapped_bands = sort_key bm_logical_offset ms,
      si_media_size = u32_be 16 header_data * 512\<rparr>"
    by (auto simp: sparse_open_def result_simps Let_def split: if_splits)
  have "(b - 1) * (u32_be 8 header_data * 512) < u32_be 16 header_data * 512"
    if "0 < b" "b \<le> div_ceil (u32_be 16 header_data) (u32_be 8 header_data)" for b
  proof -
    have "0 < u32_be 16 header_data"
      using that by (cases "u32_be 16 header_data = 0") (auto simp: div_ceil_def)
    then have "(div_ceil (u32_be 16 header_data) (u32_be 8 header_data) - 1) * u32_be 8 header_data
        < u32_be 16 header_data"
      using spb by (intro div_ceil_bounds) auto
    moreover have "(b - 1) * u32_be 8 header_data
        \<le> (div_ceil (u32_be 16 header_data) (u32_be 8 header_data) - 1) * u32_be 8 header_data"
      using that by (intro mult_le_mono1) simp
    ultimately have "(b - 1) * u32_be 8 header_data < u32_be 16 header_data"
      by (rule order_le_less_trans [rotated])
    then show ?thesis by (simp add: mult.assoc [symmetric])
  qed
  then have "sparse_inv n (u32_be 8 header_data * 512) (u32_be 16 header_data * 512) nums ms
      \<and> length nums = div_ceil (u32_be 16 header_data) (u32_be 8 header_data)"
    by (intro sparse_read_bands_inv [OF bands]) (auto simp: sparse_inv_def stored_bands_def)
  moreover have "div_ceil (u32_be 16 header_data * 512) (u32_be 8 header_data * 512)
      = div_ceil (u32_be 16 header_data) (u32_be 8 header_data)"
    by (simp add: div_ceil_def)
  ultimately show ?thesis
    using n spb media f by (intro that [of n ms]) auto
qed

text \<open>An image that opens has a logical source of the media size, with the bytes the bands give.\<close>

lemma sparse_open_source_Ok:
  assumes "sparse_open ds = Ok f"
  shows "\<exists>s. sparse_open_source f = Ok s \<and> ds_size s = Ok (si_media_size f)
    \<and> (\<forall>c. byte_source ds c \<longrightarrow> byte_source s (sparse_media f c))
    \<and> (\<forall>c. total_source ds c \<longrightarrow> exact_source s (sparse_media f c))"
proof -
  obtain n ms where n: "ds_size ds = Ok n"
    and inv: "sparse_inv n (si_band_size f) (si_media_size f) (si_band_numbers f) ms"
    and f: "si_mapped_bands f = sort_key bm_logical_offset ms" "si_source f = ds" "0 < si_band_size f"
      "si_media_size f < u64_limit"
    by (rule sparse_open_Ok [OF assms])
  from sparse_extents_cover [OF sparse_bands_ok [OF inv f(3)] f(4), of 0 ds]
  obtain end_offset es where es: "sparse_extents ds 0 (si_mapped_bands f) = Ok (end_offset, es)"
    and cov: "covers ds n 0 (si_media_size f) (band_byte (si_mapped_bands f))
      (es @ tail_extent (si_media_size f) end_offset)"
    by (auto simp: f(1))
  from cov have "covers ds n 0 (si_media_size f) (sparse_byte (si_band_numbers f) (si_band_size f))
      (es @ tail_extent (si_media_size f) end_offset)"
    by (rule covers_cong) (simp add: f(1) sparse_byte_band [OF inv _ f(3)])
  from covers_map [OF this f(4) n] obtain em where
    em: "extent_map_new (es @ tail_extent (si_media_size f) end_offset) = Ok em"
    "ds_size (extent_map_source em) = Ok (si_media_size f)"
    "\<forall>c. byte_source ds c \<longrightarrow> byte_source (extent_map_source em) (sparse_media f c)"
    "\<forall>c. total_source ds c \<longrightarrow> exact_source (extent_map_source em) (sparse_media f c)"
    unfolding sparse_media_def by blast
  have "sparse_open_source f = Ok (extent_map_source em)"
    using es em(1) unfolding tail_extent_def zero_extent_def
    by (simp add: sparse_open_source_def f(2) split: if_splits)
  with em show ?thesis by blast
qed

section \<open>The geometry in the header\<close>

lemma sparse_read_bands_numbers:
  "sparse_read_bands h n bs media N is nums ms = Ok (nums', ms') \<Longrightarrow>
     nums' = nums @ map (\<lambda>i. u32_be (64 + i * 4) h) is"
  by (induction h n bs media N "is" nums ms rule: sparse_read_bands.induct)
     (auto simp: Let_def result_simps split: if_splits)

lemma sparse_open_geometry:
  assumes "sparse_open ds = Ok f" "byte_source ds c"
  shows "si_band_size f = u32_be 8 c * 512 \<and> si_media_size f = u32_be 16 c * 512
    \<and> si_band_numbers f = map (\<lambda>i. u32_be (64 + i * 4) c) [0..<div_ceil (u32_be 16 c) (u32_be 8 c)]"
proof -
  define N where "N h = div_ceil (u32_be 16 h) (u32_be 8 h)" for h
  from assms(1) obtain n h nums ms where rd: "read_exact_at ds 0 4096 = Ok h" and N: "N h \<le> 1008"
    and bands: "sparse_read_bands h n (u32_be 8 h * 512) (u32_be 16 h * 512) (N h) [0..<N h] [] [] = Ok (nums, ms)"
    and f: "si_band_size f = u32_be 8 h * 512" "si_media_size f = u32_be 16 h * 512" "si_band_numbers f = nums"
    unfolding N_def by (auto simp: sparse_open_def result_simps Let_def split: if_splits)
  have h: "h = subslice 0 4096 c" using byte_source.read_exact_at_sound [OF assms(2) rd] by blast
  then have "N h = N c" by (simp add: N_def field_of_slice)
  have "nums = map (\<lambda>i. u32_be (64 + i * 4) h) [0..<N h]"
    using sparse_read_bands_numbers [OF bands] by simp
  also have "\<dots> = map (\<lambda>i. u32_be (64 + i * 4) c) [0..<N h]"
    using N by (intro map_cong) (auto simp: h field_of_slice)
  finally show ?thesis using f h \<open>N h = N c\<close> by (simp add: N_def field_of_slice)
qed

section \<open>An image of two bands\<close>

text \<open>The file stores the second of two bands of one sector.\<close>

definition sparse_sample :: "byte list" where
  "sparse_sample =
     lit ''sprs'' @ [0, 0, 0, 0, 0, 0, 0, 1, 0, 0, 0, 0, 0, 0, 0, 2] @ replicate 44 0
     @ [0, 0, 0, 2] @ replicate 4028 0 @ replicate 512 7"

definition sparse_sample_file :: SparseImageFile where
  "sparse_sample_file =
     \<lparr>si_source = memory_source (memory_new sparse_sample), si_bytes_per_sector = 512, si_band_size = 512,
      si_band_numbers = [2, 0],
      si_mapped_bands = [\<lparr>bm_logical_offset = 512, bm_logical_size = 512, bm_data_offset = 4096\<rparr>],
      si_media_size = 1024\<rparr>"

lemma length_sparse_sample: "length sparse_sample = 4608"
  by (simp add: sparse_sample_def lit_def)

lemma sparse_sample_source: "byte_source (memory_source (memory_new sparse_sample)) sparse_sample"
  by (rule memory_byte) (simp add: length_sparse_sample u64_limit_def)

lemma sparse_sample_open: "sparse_open (memory_source (memory_new sparse_sample)) = Ok sparse_sample_file"
proof -
  have read: "read_exact_at (memory_source (memory_new sparse_sample)) 0 4096 = Ok (subslice 0 4096 sparse_sample)"
    by (rule memory_read_exact) (simp_all add: length_sparse_sample u64_limit_def)
  have fields: "subslice 0 4 (subslice 0 4096 sparse_sample) = lit ''sprs''"
    "u32_be 8 sparse_sample = 1" "u32_be 16 sparse_sample = 2" "u32_be 64 sparse_sample = 2" "u32_be 68 sparse_sample = 0"
    by (simp_all add: sparse_sample_def lit_def subslice_def u32_be_def from_be_bytes_def [of "[_, _, _, _]"])
  show ?thesis
    by (simp add: sparse_open_def memory_size length_sparse_sample read fields field_of_slice Let_def
        checked_mul_u32_def u32_limit_def checked_mul_def checked_add_def mul_u64_def u64_limit_def div_ceil_def
        upt_rec saturating_sub_def sparse_sample_file_def)
qed

section \<open>Properties\<close>

text \<open>
  (C31) An image that opens has a logical source of exactly the media size the header gives.  Its
  byte at \<open>x\<close> is the byte of the file in the slot of the array that holds the number of the band
  of \<open>x\<close>, and 0 when no slot holds it; reads never fall short over a file that does not fail.
\<close>

theorem sparse_image_content:
  assumes "byte_source ds c" "sparse_open ds = Ok f"
  defines "band_size \<equiv> u32_be 8 c * 512" and "media_size \<equiv> u32_be 16 c * 512"
    and "slots \<equiv> map (\<lambda>i. u32_be (64 + i * 4) c) [0..<div_ceil (u32_be 16 c) (u32_be 8 c)]"
  shows "\<exists>s. sparse_open_source f = Ok s
    \<and> byte_source s (map (sparse_byte slots band_size c) [0..<media_size])
    \<and> (total_source ds c \<longrightarrow> exact_source s (map (sparse_byte slots band_size c) [0..<media_size]))"
  using sparse_open_source_Ok [OF assms(2)] sparse_open_geometry [OF assms(2,1)] assms(1)
  unfolding sparse_media_def band_size_def media_size_def slots_def by auto

theorem sparse_image_content_witness:
  "\<exists>s. sparse_open_source sparse_sample_file = Ok s
     \<and> byte_source s (map (sparse_byte [2, 0] 512 sparse_sample) [0..<1024])"
proof -
  have fields: "u32_be 8 sparse_sample = 1" "u32_be 16 sparse_sample = 2" "u32_be 64 sparse_sample = 2"
    "u32_be 68 sparse_sample = 0"
    by (simp_all add: sparse_sample_def lit_def subslice_def u32_be_def from_be_bytes_def [of "[_, _, _, _]"])
  have slots: "map (\<lambda>i. u32_be (64 + i * 4) sparse_sample) [0..<div_ceil 2 1] = [2, 0]"
    by (simp add: div_ceil_def upt_rec fields)
  have sizes: "1 * 512 = (512 :: nat)" "2 * 512 = (1024 :: nat)" by simp_all
  from sparse_image_content [OF sparse_sample_source sparse_sample_open, unfolded fields slots sizes]
  show ?thesis by blast
qed

end
