(* ===== verification/Qcow.thy ===== *)
theory Qcow
  imports Extent_Map
begin

text \<open>
  QCOW version 3 images (\<open>image/qcow/mod.rs\<close>): the header, the lookup of a cluster through the
  level 1 and level 2 tables, and the extents of the logical disk, in which clusters that follow
  each other in the file are merged.  The lemmas show that merging changes nothing, and that the
  logical disk of an opened image has exactly the bytes the tables give.
\<close>

section \<open>Header\<close>

datatype QcowCompressionMethod = Zlib

datatype QcowEncryptionMethod = NoEncryption

record QcowFileHeader =
  qh_format_version :: nat
  qh_header_size :: nat
  qh_level1_table_number_of_references :: nat
  qh_level1_table_offset :: nat
  qh_number_of_cluster_block_bits :: nat
  qh_media_size :: nat
  qh_compression_method :: QcowCompressionMethod
  qh_encryption_method :: QcowEncryptionMethod
  qh_backing_file_name_offset :: nat
  qh_backing_file_name_size :: nat
  qh_number_of_snapshots :: nat
  qh_snapshots_offset :: nat

record QcowFile =
  qcow_format_version :: nat
  qcow_bytes_per_sector :: nat
  qcow_header_size :: nat
  qcow_cluster_block_size :: nat
  qcow_compression_method :: QcowCompressionMethod
  qcow_encryption_method :: QcowEncryptionMethod
  qcow_media_size :: nat
  qcow_logical_source :: data_source

text \<open>\<open>flags & !supported_flags != 0\<close>, where the one supported flag is bit 0.\<close>

definition qcow_unsupported_flags :: "nat \<Rightarrow> bool" where
  "qcow_unsupported_flags flags \<longleftrightarrow> flags AND (u64_limit - 1 - 1) \<noteq> 0"

definition qcow_header_read_at :: "data_source \<Rightarrow> QcowFileHeader result" where
  "qcow_header_read_at source =
     and_then (read_exact_at source 0 112) (\<lambda>data.
       if subslice 0 4 data \<noteq> [0x51, 0x46, 0x49, 0xfb] then Err (Disk_error Qcow_signature)
       else if u32_be 4 data \<noteq> 3 then Err (Disk_error Qcow_format_version)
       else if qcow_unsupported_flags (u64_be 72 data) then Err (Disk_error Qcow_incompatible_features)
       else if qcow_unsupported_flags (u64_be 80 data) then Err (Disk_error Qcow_compatible_features)
       else let number_of_cluster_block_bits = u32_be 20 data;
                header_size = u32_be 100 data
            in if number_of_cluster_block_bits \<le> 8 \<or> 63 < number_of_cluster_block_bits
               then Err (Disk_error Qcow_cluster_block_bits)
               else if header_size \<noteq> 104 \<and> header_size \<noteq> 112 then Err (Disk_error Qcow_header_size)
               else if data ! 104 \<noteq> 0 then Err (Disk_error Qcow_compression_method)
               else if u32_be 32 data \<noteq> 0 then Err (Disk_error Qcow_encryption_method)
               else Ok \<lparr>qh_format_version = u32_be 4 data, qh_header_size = header_size,
                        qh_level1_table_number_of_references = u32_be 36 data,
                        qh_level1_table_offset = u64_be 40 data,
                        qh_number_of_cluster_block_bits = number_of_cluster_block_bits,
                        qh_media_size = u64_be 24 data,
                        qh_compression_method = Zlib, qh_encryption_method = NoEncryption,
                        qh_backing_file_name_offset = u64_be 8 data,
                        qh_backing_file_name_size = u32_be 16 data,
                        qh_number_of_snapshots = u32_be 60 data,
                        qh_snapshots_offset = u64_be 64 data\<rparr>)"

definition qcow_read_u64_be :: "data_source \<Rightarrow> nat \<Rightarrow> nat result" where
  "qcow_read_u64_be source offset =
     and_then (read_exact_at source offset 8) (\<lambda>data. Ok (from_be_bytes data))"

section \<open>Clusters\<close>

text \<open>\<open>v >> s\<close> on \<open>u64\<close>, which panics when the shift is as wide as the type.\<close>

definition shr_u64 :: "nat \<Rightarrow> nat \<Rightarrow> nat result" where
  "shr_u64 v s = (if s < 64 then Ok (drop_bit s v) else Err (Panic Arithmetic_overflow))"

text \<open>\<open>entry & offset_bit_mask\<close>: the lower 62 bits of a table entry.\<close>

definition qcow_offset :: "nat \<Rightarrow> nat" where
  "qcow_offset entry = take_bit 62 entry"

definition qcow_level1_entry :: "data_source \<Rightarrow> QcowFileHeader \<Rightarrow> nat \<Rightarrow> nat result" where
  "qcow_level1_entry source header logical_offset =
     (let bits = qh_number_of_cluster_block_bits header;
          level1_index_bit_shift = bits + (bits - 3)
      in and_then (shr_u64 logical_offset level1_index_bit_shift) (\<lambda>level1_index.
           if qh_level1_table_number_of_references header \<le> level1_index then Err (Disk_error Qcow_level1_index)
           else
             and_then (mul_u64 level1_index 8) (\<lambda>relative_offset.
             and_then (ok_or (Disk_error Qcow_level1_offset_overflow)
                        (checked_add (qh_level1_table_offset header) relative_offset)) (\<lambda>entry_offset.
               qcow_read_u64_be source entry_offset))))"

definition qcow_level2_entry :: "data_source \<Rightarrow> QcowFileHeader \<Rightarrow> nat \<Rightarrow> nat \<Rightarrow> nat result" where
  "qcow_level2_entry source header logical_offset level2_table_offset =
     (let bits = qh_number_of_cluster_block_bits header;
          level2_index = take_bit (bits - 3) (drop_bit bits logical_offset)
      in and_then (mul_u64 level2_index 8) (\<lambda>relative_offset.
         and_then (ok_or (Disk_error Qcow_level2_offset_overflow)
                    (checked_add level2_table_offset relative_offset)) (\<lambda>entry_offset.
           qcow_read_u64_be source entry_offset)))"

text \<open>What a cluster maps to.\<close>

definition qcow_cluster_target :: "data_source \<Rightarrow> nat \<Rightarrow> QcowFileHeader \<Rightarrow> nat \<Rightarrow> ExtentMapTarget result" where
  "qcow_cluster_target source src_size header logical_offset =
     and_then (qcow_level1_entry source header logical_offset) (\<lambda>level1_entry.
       let level2_table_offset = qcow_offset level1_entry in
       if level2_table_offset = 0 then Ok ExtentZero
       else
         and_then (qcow_level2_entry source header logical_offset level2_table_offset) (\<lambda>level2_entry.
           let block_data_offset = qcow_offset level2_entry in
           if block_data_offset = 0 then Ok ExtentZero
           else if bit level2_entry 62 then Err (Disk_error Qcow_compressed_cluster)
           else
             and_then (ok_or (Disk_error Qcow_block_end_overflow)
                        (checked_add block_data_offset (push_bit (qh_number_of_cluster_block_bits header) 1)))
               (\<lambda>block_data_end.
                  if src_size < block_data_end then Err (Disk_error Qcow_block_exceeds_file)
                  else Ok (ExtentData source block_data_offset))))"

text \<open>The extent of one cluster: the first part of the loop of \<open>open\<close>.\<close>

definition qcow_cluster_extent :: "data_source \<Rightarrow> nat \<Rightarrow> QcowFileHeader \<Rightarrow> nat \<Rightarrow> ExtentMapEntry result" where
  "qcow_cluster_extent source src_size header cluster_index =
     (let cluster_block_size = push_bit (qh_number_of_cluster_block_bits header) 1 in
      and_then (mul_u64 cluster_index cluster_block_size) (\<lambda>logical_offset.
      and_then (sub_u64 (qh_media_size header) logical_offset) (\<lambda>remaining.
      and_then (qcow_cluster_target source src_size header logical_offset) (\<lambda>target.
        Ok \<lparr>ext_logical_offset = logical_offset, ext_size = min cluster_block_size remaining,
            ext_target = target\<rparr>))))"

text \<open>
  Whether the next extent is merged into the current one.  All extents that are stored clone the
  one source of the file, so \<open>Arc::ptr_eq\<close> holds for any two of them.
\<close>

definition qcow_can_merge :: "ExtentMapEntry \<Rightarrow> ExtentMapEntry \<Rightarrow> bool result" where
  "qcow_can_merge current next_extent =
     (case (ext_target current, ext_target next_extent) of
        (ExtentZero, ExtentZero) \<Rightarrow> Ok True
      | (ExtentData _ current_source_offset, ExtentData _ next_source_offset) \<Rightarrow>
          and_then (add_u64 (ext_logical_offset current) (ext_size current)) (\<lambda>current_end.
            if current_end = ext_logical_offset next_extent then
              and_then (add_u64 current_source_offset (ext_size current)) (\<lambda>current_source_end.
                Ok (current_source_end = next_source_offset))
            else Ok False)
      | _ \<Rightarrow> Ok False)"

definition qcow_push :: "ExtentMapEntry list \<Rightarrow> ExtentMapEntry option \<Rightarrow> ExtentMapEntry
    \<Rightarrow> (ExtentMapEntry list \<times> ExtentMapEntry option) result" where
  "qcow_push extents current extent =
     (case current of
        None \<Rightarrow> Ok (extents, Some extent)
      | Some current_extent \<Rightarrow>
          and_then (qcow_can_merge current_extent extent) (\<lambda>can_merge.
            if can_merge then
              and_then (add_u64 (ext_size current_extent) (ext_size extent)) (\<lambda>merged_size.
                Ok (extents, Some (current_extent\<lparr>ext_size := merged_size\<rparr>)))
            else Ok (extents @ [current_extent], Some extent)))"

fun qcow_read_clusters :: "data_source \<Rightarrow> nat \<Rightarrow> QcowFileHeader \<Rightarrow> nat list \<Rightarrow> ExtentMapEntry list
    \<Rightarrow> ExtentMapEntry option \<Rightarrow> ExtentMapEntry list result" where
  "qcow_read_clusters source src_size header [] extents current =
     Ok (case current of Some current_extent \<Rightarrow> extents @ [current_extent] | None \<Rightarrow> extents)"
| "qcow_read_clusters source src_size header (cluster_index # indices) extents current =
     and_then (qcow_cluster_extent source src_size header cluster_index) (\<lambda>extent.
     and_then (qcow_push extents current extent) (\<lambda>(extents, current).
       qcow_read_clusters source src_size header indices extents current))"

definition qcow_open :: "data_source \<Rightarrow> QcowFile result" where
  "qcow_open source =
     and_then (ds_size source) (\<lambda>src_size.
     and_then (qcow_header_read_at source) (\<lambda>header.
       if 0 < qh_backing_file_name_offset header \<or> 0 < qh_backing_file_name_size header
       then Err (Disk_error Qcow_backing_file)
       else if qh_number_of_snapshots header \<noteq> 0 \<or> qh_snapshots_offset header \<noteq> 0
       then Err (Disk_error Qcow_snapshots)
       else
         let cluster_block_size = push_bit (qh_number_of_cluster_block_bits header) 1;
             number_of_clusters = div_ceil (qh_media_size header) cluster_block_size
         in and_then (qcow_read_clusters source src_size header [0..<number_of_clusters] [] None) (\<lambda>extents.
            and_then (extent_map_new extents) (\<lambda>em.
              Ok \<lparr>qcow_format_version = qh_format_version header, qcow_bytes_per_sector = 512,
                  qcow_header_size = qh_header_size header,
                  qcow_cluster_block_size = cluster_block_size,
                  qcow_compression_method = qh_compression_method header,
                  qcow_encryption_method = qh_encryption_method header,
                  qcow_media_size = qh_media_size header,
                  qcow_logical_source = extent_map_source em\<rparr>))))"

section \<open>The bytes of the logical disk\<close>

text \<open>
  Where the tables of a file with contents \<open>c\<close> place the cluster \<open>k\<close>: \<open>None\<close> when it is not
  stored.
\<close>

definition qcow_block :: "QcowFileHeader \<Rightarrow> byte list \<Rightarrow> nat \<Rightarrow> nat option" where
  "qcow_block header c k =
     (let bits = qh_number_of_cluster_block_bits header;
          level2_table = qcow_offset (u64_be (qh_level1_table_offset header + k div 2 ^ (bits - 3) * 8) c);
          block = qcow_offset (u64_be (level2_table + k mod 2 ^ (bits - 3) * 8) c)
      in if level2_table = 0 \<or> block = 0 then None else Some block)"

definition qcow_byte :: "QcowFileHeader \<Rightarrow> byte list \<Rightarrow> nat \<Rightarrow> byte" where
  "qcow_byte header c x =
     (case qcow_block header c (x div 2 ^ qh_number_of_cluster_block_bits header) of
        None \<Rightarrow> 0
      | Some block \<Rightarrow> c ! (block + x mod 2 ^ qh_number_of_cluster_block_bits header))"

context byte_source
begin

lemma qcow_read_u64_be_sound: "qcow_read_u64_be ds off = Ok v \<Longrightarrow> v = u64_be off content"
  by (auto simp: qcow_read_u64_be_def u64_be_def result_simps dest: read_exact_at_sound)

end

lemma qcow_indices:
  fixes k :: nat
  shows "drop_bit (bits + (bits - 3)) (k * 2 ^ bits) = k div 2 ^ (bits - 3)"
    and "take_bit (bits - 3) (drop_bit bits (k * 2 ^ bits)) = k mod 2 ^ (bits - 3)"
proof -
  have "k * 2 ^ bits div 2 ^ (bits + (bits - 3)) = k * 2 ^ bits div 2 ^ bits div 2 ^ (bits - 3)"
    by (simp only: power_add div_mult2_eq)
  then show "drop_bit (bits + (bits - 3)) (k * 2 ^ bits) = k div 2 ^ (bits - 3)"
    by (simp add: drop_bit_eq_div)
  show "take_bit (bits - 3) (drop_bit bits (k * 2 ^ bits)) = k mod 2 ^ (bits - 3)"
    by (simp add: drop_bit_eq_div take_bit_eq_mod)
qed

text \<open>The extent of a cluster says what the tables say.\<close>

definition qcow_extent_ok :: "data_source \<Rightarrow> nat \<Rightarrow> QcowFileHeader \<Rightarrow> nat \<Rightarrow> ExtentMapEntry \<Rightarrow> bool" where
  "qcow_extent_ok ds n header k e \<longleftrightarrow>
     (let cbs = 2 ^ qh_number_of_cluster_block_bits header in
      ext_logical_offset e = k * cbs \<and> ext_size e = min cbs (qh_media_size header - k * cbs)
      \<and> (case ext_target e of
           ExtentZero \<Rightarrow> \<forall>c. byte_source ds c \<longrightarrow> qcow_block header c k = None
         | ExtentData s off \<Rightarrow> s = ds \<and> off + cbs \<le> n \<and> (\<forall>c. byte_source ds c \<longrightarrow> qcow_block header c k = Some off)))"

lemma qcow_level1_entry_sound:
  assumes "qcow_level1_entry ds header (k * 2 ^ qh_number_of_cluster_block_bits header) = Ok v" "byte_source ds c"
  shows "v = u64_be (qh_level1_table_offset header + k div 2 ^ (qh_number_of_cluster_block_bits header - 3) * 8) c"
  using assms
  by (auto simp: qcow_level1_entry_def Let_def result_simps shr_u64_def qcow_indices split: if_splits
      dest: byte_source.qcow_read_u64_be_sound)

lemma qcow_level2_entry_sound:
  assumes "qcow_level2_entry ds header (k * 2 ^ qh_number_of_cluster_block_bits header) t = Ok v" "byte_source ds c"
  shows "v = u64_be (t + k mod 2 ^ (qh_number_of_cluster_block_bits header - 3) * 8) c"
  using assms
  by (auto simp: qcow_level2_entry_def Let_def result_simps qcow_indices
      dest: byte_source.qcow_read_u64_be_sound)

lemma qcow_cluster_target_sound:
  assumes "qcow_cluster_target ds n header (k * 2 ^ qh_number_of_cluster_block_bits header) = Ok t"
  shows "case t of ExtentZero \<Rightarrow> \<forall>c. byte_source ds c \<longrightarrow> qcow_block header c k = None
    | ExtentData s off \<Rightarrow> s = ds \<and> off + 2 ^ qh_number_of_cluster_block_bits header \<le> n
        \<and> (\<forall>c. byte_source ds c \<longrightarrow> qcow_block header c k = Some off)"
proof -
  let ?lo = "k * 2 ^ qh_number_of_cluster_block_bits header"
  from assms obtain v1 where v1: "qcow_level1_entry ds header ?lo = Ok v1"
    by (auto simp: qcow_cluster_target_def result_simps)
  show ?thesis
  proof (cases "qcow_offset v1 = 0")
    case True
    have "qcow_block header c k = None" if "byte_source ds c" for c
      using qcow_level1_entry_sound [OF v1 that] True by (simp add: qcow_block_def Let_def)
    with True assms v1 show ?thesis by (auto simp: qcow_cluster_target_def)
  next
    case False
    with assms v1 obtain v2 where v2: "qcow_level2_entry ds header ?lo (qcow_offset v1) = Ok v2"
      by (auto simp: qcow_cluster_target_def result_simps Let_def)
    have block: "qcow_block header c k = (if qcow_offset v2 = 0 then None else Some (qcow_offset v2))"
      if "byte_source ds c" for c
      using qcow_level1_entry_sound [OF v1 that] qcow_level2_entry_sound [OF v2 that] False
      by (simp add: qcow_block_def Let_def)
    from assms v1 v2 False show ?thesis
      by (auto simp: qcow_cluster_target_def Let_def result_simps block push_bit_eq_mult split: if_splits)
  qed
qed

lemma qcow_cluster_extent_Ok:
  assumes "qcow_cluster_extent ds n header k = Ok e"
  shows "qcow_extent_ok ds n header k e"
  using assms
  by (auto simp: qcow_cluster_extent_def qcow_extent_ok_def Let_def result_simps push_bit_eq_mult
      dest: qcow_cluster_target_sound)

text \<open>An extent that is right about its cluster covers it.\<close>

lemma qcow_extent_covers:
  assumes ok: "qcow_extent_ok ds n header k e" and k: "k * 2 ^ qh_number_of_cluster_block_bits header < qh_media_size header"
  shows "covers ds n (k * 2 ^ qh_number_of_cluster_block_bits header)
    (min (Suc k * 2 ^ qh_number_of_cluster_block_bits header) (qh_media_size header)) (qcow_byte header) [e]"
proof -
  define cbs :: nat where "cbs = 2 ^ qh_number_of_cluster_block_bits header"
  have pos: "0 < cbs" by (simp add: cbs_def)
  let ?sz = "min cbs (qh_media_size header - k * cbs)"
  have hi: "min (Suc k * cbs) (qh_media_size header) = k * cbs + ?sz"
    using k [folded cbs_def] by (auto simp: min_def)
  have sz: "0 < ?sz" using k [folded cbs_def] pos by simp
  have x: "x div cbs = k \<and> x mod cbs = x - k * cbs" if "k * cbs \<le> x" "x < k * cbs + ?sz" for x
  proof -
    from that have "x div cbs = k" by (intro div_nat_eqI) (auto simp: mult.commute)
    then show ?thesis by (metis minus_div_mult_eq_mod)
  qed
  have "covers ds n (k * cbs) (k * cbs + ?sz) (qcow_byte header) [e]"
  proof (cases "ext_target e")
    case ExtentZero
    with ok have e: "e = zero_extent (k * cbs) ?sz" and blk: "\<forall>c. byte_source ds c \<longrightarrow> qcow_block header c k = None"
      by (simp_all add: qcow_extent_ok_def zero_extent_def cbs_def Let_def)
    show ?thesis unfolding e
      using sz x blk by (intro covers_zero) (simp_all add: qcow_byte_def cbs_def)
  next
    case (ExtentData s off)
    with ok have e: "e = data_extent (k * cbs) ?sz ds off" and off: "off + cbs \<le> n"
      and blk: "\<forall>c. byte_source ds c \<longrightarrow> qcow_block header c k = Some off"
      by (simp_all add: qcow_extent_ok_def data_extent_def cbs_def Let_def)
    show ?thesis unfolding e
      using sz x blk off by (intro covers_data) (simp_all add: qcow_byte_def cbs_def)
  qed
  then have "covers ds n (k * cbs) (min (Suc k * cbs) (qh_media_size header)) (qcow_byte header) [e]"
    by (simp only: hi)
  then show ?thesis by (simp only: cbs_def)
qed

section \<open>Merging\<close>

lemma qcow_can_merge_mergeable: "qcow_can_merge a b = Ok True \<Longrightarrow> mergeable a b"
  by (auto simp: qcow_can_merge_def mergeable_def result_simps split: ExtentMapTarget.splits if_splits)

lemma qcow_push_covers:
  assumes "qcow_push es cur e = Ok (es', cur')"
    and "covers ds n lo mid byte (with_current es cur)" "covers ds n mid hi byte [e]"
  shows "covers ds n lo hi byte (with_current es' cur')"
proof (cases cur)
  case None
  with assms covers_append show ?thesis by (fastforce simp: qcow_push_def with_current_def)
next
  case (Some a)
  from covers_append [OF assms(2,3)] Some have both: "covers ds n lo hi byte (es @ [a, e])"
    by (simp add: with_current_def)
  from assms(1) Some obtain m where m: "qcow_can_merge a e = Ok m"
    by (auto simp: qcow_push_def result_simps)
  show ?thesis
  proof (cases m)
    case True
    with assms(1) Some m have "es' = es" "cur' = Some (a\<lparr>ext_size := ext_size a + ext_size e\<rparr>)"
      by (auto simp: qcow_push_def result_simps)
    with covers_merge [OF both] qcow_can_merge_mergeable m True show ?thesis
      by (simp add: with_current_def)
  next
    case False
    with assms(1) Some m both show ?thesis by (auto simp: qcow_push_def with_current_def)
  qed
qed

lemma qcow_read_clusters_covers:
  assumes "qcow_read_clusters ds n header [k..<N] es cur = Ok es'"
    and "covers ds n 0 (min (k * 2 ^ qh_number_of_cluster_block_bits header) (qh_media_size header))
      (qcow_byte header) (with_current es cur)"
    and "k \<le> N" "N = div_ceil (qh_media_size header) (2 ^ qh_number_of_cluster_block_bits header)"
  shows "covers ds n 0 (qh_media_size header) (qcow_byte header) es'"
  using assms(1-3)
proof (induction "N - k" arbitrary: k es cur)
  case 0
  let ?cbs = "2 ^ qh_number_of_cluster_block_bits header :: nat"
  have "qh_media_size header \<le> N * ?cbs" unfolding assms(4) by (rule div_ceil_bounds) simp
  with 0 show ?case by (auto simp: with_current_def split: option.splits)
next
  case (Suc d)
  let ?cbs = "2 ^ qh_number_of_cluster_block_bits header :: nat"
  have k: "k < N" and upt: "[k..<N] = k # [Suc k..<N]" using Suc.hyps(2) by (simp_all add: upt_conv_Cons)
  then have "0 < qh_media_size header" using assms(4) by (cases "qh_media_size header = 0") (auto simp: div_ceil_def)
  then have "(N - 1) * ?cbs < qh_media_size header" unfolding assms(4) by (intro div_ceil_bounds) simp_all
  moreover have "k * ?cbs \<le> (N - 1) * ?cbs" using k by (intro mult_le_mono1) simp
  ultimately have lt: "k * ?cbs < qh_media_size header" by (rule order_le_less_trans [rotated])
  from Suc.prems(1) obtain e es1 cur1 where e: "qcow_cluster_extent ds n header k = Ok e"
    and push: "qcow_push es cur e = Ok (es1, cur1)"
    and rec: "qcow_read_clusters ds n header [Suc k..<N] es1 cur1 = Ok es'"
    unfolding upt by (auto simp: result_simps)
  have "covers ds n 0 (min (Suc k * ?cbs) (qh_media_size header)) (qcow_byte header) (with_current es1 cur1)"
    using Suc.prems(2) lt qcow_push_covers [OF push]
      qcow_extent_covers [OF qcow_cluster_extent_Ok [OF e] lt] by (simp add: min_def)
  from Suc.hyps(1) [OF _ rec this] Suc.hyps(2) k show ?case by simp
qed

section \<open>An opened image\<close>

definition qcow_media :: "QcowFileHeader \<Rightarrow> byte list \<Rightarrow> byte list" where
  "qcow_media header c = map (qcow_byte header c) [0..<qh_media_size header]"

lemma qcow_header_bounds:
  assumes "qcow_header_read_at ds = Ok header"
  shows "8 < qh_number_of_cluster_block_bits header \<and> qh_number_of_cluster_block_bits header \<le> 63"
    "qh_media_size header < u64_limit"
  using assms by (auto simp: qcow_header_read_at_def result_simps Let_def field_bounds split: if_splits)

lemma qcow_open_Ok:
  assumes "qcow_open ds = Ok q"
  shows "\<exists>header. qcow_header_read_at ds = Ok header \<and> qcow_media_size q = qh_media_size header
    \<and> ds_size (qcow_logical_source q) = Ok (qcow_media_size q)
    \<and> (\<forall>c. byte_source ds c \<longrightarrow> byte_source (qcow_logical_source q) (qcow_media header c))
    \<and> (\<forall>c. total_source ds c \<longrightarrow> exact_source (qcow_logical_source q) (qcow_media header c))"
proof -
  from assms obtain n header es em where n: "ds_size ds = Ok n" and header: "qcow_header_read_at ds = Ok header"
    and clusters: "qcow_read_clusters ds n header
      [0..<div_ceil (qh_media_size header) (2 ^ qh_number_of_cluster_block_bits header)] [] None = Ok es"
    and em: "extent_map_new es = Ok em" and q: "qcow_media_size q = qh_media_size header"
      "qcow_logical_source q = extent_map_source em"
    by (auto simp: qcow_open_def result_simps Let_def push_bit_eq_mult split: if_splits)
  have "covers ds n 0 (qh_media_size header) (qcow_byte header) es"
    by (rule qcow_read_clusters_covers [OF clusters]) (simp_all add: with_current_def)
  from covers_map [OF this qcow_header_bounds(2) [OF header] n] em q header show ?thesis
    unfolding qcow_media_def by auto
qed

section \<open>An image of two clusters\<close>

text \<open>
  A disk of 1024 bytes in clusters of 512: the level 1 table at 512, the level 2 table at 1024, the
  first cluster stored at 1536 and the second one not stored.
\<close>

definition qcow_sample_header_data :: "byte \<Rightarrow> byte list" where
  "qcow_sample_header_data bits =
     [0x51, 0x46, 0x49, 0xfb, 0, 0, 0, 3] @ replicate 12 0 @ [0, 0, 0, bits, 0, 0, 0, 0, 0, 0, 4, 0]
     @ [0, 0, 0, 0, 0, 0, 0, 1, 0, 0, 0, 0, 0, 0, 2, 0] @ replicate 52 0 @ [0, 0, 0, 104] @ replicate 8 0"

definition qcow_sample :: "byte \<Rightarrow> byte list" where
  "qcow_sample bits =
     qcow_sample_header_data bits @ replicate 400 0 @ [0, 0, 0, 0, 0, 0, 4, 0] @ replicate 504 0
     @ [0, 0, 0, 0, 0, 0, 6, 0] @ replicate 504 0 @ replicate 512 7"

definition qcow_sample_header :: "nat \<Rightarrow> QcowFileHeader" where
  "qcow_sample_header bits =
     \<lparr>qh_format_version = 3, qh_header_size = 104, qh_level1_table_number_of_references = 1,
      qh_level1_table_offset = 512, qh_number_of_cluster_block_bits = bits, qh_media_size = 1024,
      qh_compression_method = Zlib, qh_encryption_method = NoEncryption, qh_backing_file_name_offset = 0,
      qh_backing_file_name_size = 0, qh_number_of_snapshots = 0, qh_snapshots_offset = 0\<rparr>"

lemma length_qcow_sample: "length (qcow_sample_header_data bits) = 112" "length (qcow_sample bits) = 2048"
  by (simp_all add: qcow_sample_def qcow_sample_header_data_def)

lemma qcow_sample_source: "byte_source (memory_source (memory_new (qcow_sample bits))) (qcow_sample bits)"
  by (rule memory_byte) (simp add: length_qcow_sample u64_limit_def)

lemma qcow_sample_read:
  "off + n \<le> 2048 \<Longrightarrow>
     read_exact_at (memory_source (memory_new (qcow_sample bits))) off n = Ok (subslice off n (qcow_sample bits))"
  by (rule memory_read_exact) (simp_all add: length_qcow_sample u64_limit_def)

lemma qcow_sample_header_read:
  assumes "8 < unat bits" "unat bits \<le> 63"
  shows "qcow_header_read_at (memory_source (memory_new (qcow_sample bits))) = Ok (qcow_sample_header (unat bits))"
proof -
  let ?d = "qcow_sample_header_data bits"
  have "read_exact_at (memory_source (memory_new (qcow_sample bits))) 0 112 = Ok ?d"
    using qcow_sample_read [of 0 112 bits] by (simp add: qcow_sample_def subslice_def length_qcow_sample)
  moreover have "subslice 0 4 ?d = [0x51, 0x46, 0x49, 0xfb]" "u32_be 4 ?d = 3" "u32_be 20 ?d = unat bits"
    "u64_be 24 ?d = 1024" "u32_be 36 ?d = 1" "u64_be 40 ?d = 512" "u32_be 100 ?d = 104" "u32_be 32 ?d = 0"
    by (simp_all add: qcow_sample_header_data_def subslice_def u32_be_def u64_be_def
        from_be_bytes_def [of "[_, _, _, _]"] from_be_bytes_def [of "[_, _, _, _, _, _, _, _]"])
  moreover have "u64_be 8 ?d = 0" "u32_be 16 ?d = 0" "u32_be 60 ?d = 0" "u64_be 64 ?d = 0"
    "u64_be 72 ?d = 0" "u64_be 80 ?d = 0"
    by (simp_all add: qcow_sample_header_data_def subslice_def u32_be_def u64_be_def)
  moreover have "?d ! 104 = 0" by (simp add: qcow_sample_header_data_def nth_append)
  ultimately show ?thesis
    using assms by (simp add: qcow_header_read_at_def qcow_unsupported_flags_def qcow_sample_header_def Let_def)
qed

lemma qcow_sample_entries:
  "qcow_read_u64_be (memory_source (memory_new (qcow_sample 9))) 512 = Ok 1024"
  "qcow_read_u64_be (memory_source (memory_new (qcow_sample 9))) 1024 = Ok 1536"
  "qcow_read_u64_be (memory_source (memory_new (qcow_sample 9))) 1032 = Ok 0"
proof -
  have "subslice 512 8 (qcow_sample 9) = [0, 0, 0, 0, 0, 0, 4, 0]"
    "subslice 1024 8 (qcow_sample 9) = [0, 0, 0, 0, 0, 0, 6, 0]" "subslice 1032 8 (qcow_sample 9) = replicate 8 0"
    by (simp_all add: qcow_sample_def subslice_def length_qcow_sample)
  then show "qcow_read_u64_be (memory_source (memory_new (qcow_sample 9))) 512 = Ok 1024"
    "qcow_read_u64_be (memory_source (memory_new (qcow_sample 9))) 1024 = Ok 1536"
    "qcow_read_u64_be (memory_source (memory_new (qcow_sample 9))) 1032 = Ok 0"
    using qcow_sample_read [of 512 8 9] qcow_sample_read [of 1024 8 9] qcow_sample_read [of 1032 8 9]
    by (simp_all add: qcow_read_u64_be_def from_be_bytes_def [of "[_, _, _, _, _, _, _, _]"])
qed

lemma qcow_sample_open: "\<exists>q. qcow_open (memory_source (memory_new (qcow_sample 9))) = Ok q"
proof -
  let ?ds = "memory_source (memory_new (qcow_sample 9))"
  have "qcow_cluster_extent ?ds 2048 (qcow_sample_header 9) 0 = Ok (data_extent 0 512 ?ds 1536)"
    "qcow_cluster_extent ?ds 2048 (qcow_sample_header 9) 1 = Ok (zero_extent 512 512)"
    by (simp_all add: qcow_cluster_extent_def qcow_sample_header_def qcow_cluster_target_def qcow_level1_entry_def
        qcow_level2_entry_def shr_u64_def mul_u64_def sub_u64_def checked_add_def u64_limit_def qcow_sample_entries
        qcow_offset_def take_bit_eq_mod drop_bit_eq_div bit_iff_odd data_extent_def zero_extent_def Let_def)
  then have "qcow_read_clusters ?ds 2048 (qcow_sample_header 9) [0, 1] [] None
      = Ok [data_extent 0 512 ?ds 1536, zero_extent 512 512]"
    by (simp add: qcow_push_def qcow_can_merge_def data_extent_def zero_extent_def)
  moreover have "\<exists>em. extent_map_new [data_extent 0 512 ?ds 1536, zero_extent 512 512] = Ok em"
    using extent_map_new_layout [of "[data_extent 0 512 ?ds 1536, zero_extent 512 512]"]
    by (auto simp: data_extent_def zero_extent_def u64_limit_def)
  ultimately show ?thesis
    using qcow_sample_header_read [of 9]
    by (auto simp: qcow_open_def memory_size length_qcow_sample qcow_sample_header_def div_ceil_def upt_rec Let_def)
qed

section \<open>Properties\<close>

text \<open>
  (C7) The logical disk of an opened QCOW image has the media size of the header, and its byte at \<open>x\<close>
  is the byte of the cluster that the level 1 and level 2 tables give for it, or 0 when they give
  none; merging clusters that follow each other in the file into larger extents changes nothing.
\<close>

theorem qcow_image_content:
  assumes "byte_source ds c" "qcow_open ds = Ok q"
  shows "\<exists>header. qcow_header_read_at ds = Ok header
    \<and> byte_source (qcow_logical_source q) (map (qcow_byte header c) [0..<qh_media_size header])
    \<and> (total_source ds c \<longrightarrow>
        exact_source (qcow_logical_source q) (map (qcow_byte header c) [0..<qh_media_size header]))"
  using qcow_open_Ok [OF assms(2)] assms(1) unfolding qcow_media_def by blast

theorem qcow_image_content_witness:
  "\<exists>q. qcow_open (memory_source (memory_new (qcow_sample 9))) = Ok q
     \<and> byte_source (qcow_logical_source q) (map (qcow_byte (qcow_sample_header 9) (qcow_sample 9)) [0..<1024])"
proof -
  obtain q where q: "qcow_open (memory_source (memory_new (qcow_sample 9))) = Ok q"
    using qcow_sample_open by blast
  from qcow_image_content [OF qcow_sample_source q] qcow_sample_header_read [of 9]
  have "byte_source (qcow_logical_source q)
      (map (qcow_byte (qcow_sample_header 9) (qcow_sample 9)) [0..<qh_media_size (qcow_sample_header 9)])"
    by auto
  moreover have "qh_media_size (qcow_sample_header 9) = 1024" by (simp add: qcow_sample_header_def)
  ultimately show ?thesis using q by metis
qed

text \<open>
  (C38) The header accepts cluster sizes of up to 63 bits, but the shift that gives the level 1 index
  is then as wide as the type: opening an image with 34 or more cluster block bits, otherwise in
  order, panics.
\<close>

theorem qcow_wide_clusters_panic:
  assumes "ds_size ds = Ok n" "qcow_header_read_at ds = Ok header" "34 \<le> qh_number_of_cluster_block_bits header"
    and "0 < qh_media_size header" "qh_backing_file_name_offset header = 0" "qh_backing_file_name_size header = 0"
    and "qh_number_of_snapshots header = 0" "qh_snapshots_offset header = 0"
  shows "qcow_open ds = Err (Panic Arithmetic_overflow)"
proof -
  let ?size = "push_bit (qh_number_of_cluster_block_bits header) (1 :: nat)"
  have "0 < ?size" by (simp add: push_bit_eq_mult)
  then have "div_ceil (qh_media_size header) ?size \<noteq> 0"
    using div_ceil_bounds(1) [of ?size "qh_media_size header"] assms(4) by (metis mult_0 not_le)
  then have "[0..<div_ceil (qh_media_size header) ?size] = 0 # [1..<div_ceil (qh_media_size header) ?size]"
    by (simp add: upt_rec)
  moreover have "shr_u64 0 (qh_number_of_cluster_block_bits header + (qh_number_of_cluster_block_bits header - 3))
      = Err (Panic Arithmetic_overflow)"
    using assms(3) unfolding shr_u64_def by auto
  then have "qcow_cluster_extent ds n header 0 = Err (Panic Arithmetic_overflow)"
    unfolding qcow_cluster_extent_def qcow_cluster_target_def qcow_level1_entry_def Let_def mul_u64_def sub_u64_def
    by (simp add: u64_limit_def)
  ultimately show ?thesis
    using assms by (simp add: qcow_open_def Let_def)
qed

theorem qcow_wide_clusters_panic_witness:
  "qcow_open (memory_source (memory_new (qcow_sample 34))) = Err (Panic Arithmetic_overflow)"
  using qcow_wide_clusters_panic [of "memory_source (memory_new (qcow_sample 34))" 2048 "qcow_sample_header 34"]
    qcow_sample_header_read [of 34]
  by (simp add: memory_size length_qcow_sample) (simp add: qcow_sample_header_def)

end
