(* ===== verification/Segmented_Source.thy ===== *)
theory Segmented_Source
  imports Memory_Source Pieces
begin

text \<open>
  The concatenation of segments (\<open>source/segmented.rs\<close>): the constructor's checks, the lookup of a
  segment and the positioned read over segment boundaries.
\<close>

section \<open>SegmentedDataSource\<close>

record SegmentedSourceSegment =
  seg_logical_offset :: nat
  seg_size :: nat
  seg_source :: data_source
  seg_source_offset :: nat

record SegmentedDataSource =
  sd_segments :: "SegmentedSourceSegment list"
  sd_size :: nat
  sd_capabilities :: DataSourceCapabilities

definition segment_errors :: piece_errors where
  "segment_errors =
     \<lparr>err_zero_sized = Source_error Segment_zero_sized,
      err_not_contiguous = Source_error Segment_not_contiguous,
      err_size_overflow = Source_error Segment_size_overflow,
      err_missing = Source_error Segment_missing,
      err_read_offset_overflow = Source_error Segment_read_offset_overflow\<rparr>"

definition segmented_new :: "SegmentedSourceSegment list \<Rightarrow> SegmentedDataSource result" where
  "segmented_new segments =
     and_then (check_pieces segment_errors seg_logical_offset seg_size 0 segments)
       (\<lambda>expected_logical_offset.
          let capabilities = combine_data_source_capabilities
                (map (\<lambda>segment. ds_capabilities (seg_source segment)) segments)
          in Ok \<lparr>sd_segments = segments, sd_size = expected_logical_offset,
                 sd_capabilities = capabilities\<rparr>)"

definition find_segment :: "SegmentedDataSource \<Rightarrow> nat \<Rightarrow> SegmentedSourceSegment option" where
  "find_segment sd offset = find_piece seg_logical_offset (sd_segments sd) offset"

text \<open>The loop body of \<open>read_from_segment\<close>; the loop stops at an empty read.\<close>

definition segment_step :: "SegmentedSourceSegment \<Rightarrow> nat \<Rightarrow> nat \<Rightarrow> nat \<Rightarrow> byte list result" where
  "segment_step segment segment_offset read_offset n =
     and_then (ok_or (Source_error Segment_offset_overflow)
                 (Option.bind (checked_add (seg_source_offset segment) segment_offset)
                    (\<lambda>offset. checked_add offset read_offset)))
       (\<lambda>physical_offset. ds_read_at (seg_source segment) physical_offset n)"

definition read_from_segment :: "SegmentedSourceSegment \<Rightarrow> nat \<Rightarrow> nat \<Rightarrow> byte list result" where
  "read_from_segment segment segment_offset len =
     gather (segment_step segment segment_offset) Ok len []"

definition segmented_read_at :: "SegmentedDataSource \<Rightarrow> nat \<Rightarrow> nat \<Rightarrow> byte list result" where
  "segmented_read_at sd offset n =
     piece_read_at segment_errors seg_logical_offset seg_size read_from_segment
       (sd_segments sd) (sd_size sd) offset n"

definition segmented_source :: "SegmentedDataSource \<Rightarrow> data_source" where
  "segmented_source sd =
     \<lparr>ds_read_at = segmented_read_at sd,
      ds_size = Ok (sd_size sd),
      ds_capabilities = sd_capabilities sd,
      ds_telemetry_name = ''segmented'',
      ds_origin_path = None\<rparr>"

section \<open>Reading one segment\<close>

text \<open>The bytes of a segment, given the contents of its source.\<close>

definition segment_content :: "SegmentedSourceSegment \<Rightarrow> byte list \<Rightarrow> byte list" where
  "segment_content s c = subslice (seg_source_offset s) (seg_size s) c"

definition segment_inside :: "SegmentedSourceSegment \<Rightarrow> byte list \<Rightarrow> bool" where
  "segment_inside s c \<longleftrightarrow> seg_source_offset s + seg_size s \<le> length c"

lemma segment_step_positioned:
  "seg_source_offset s + rel < u64_limit \<Longrightarrow>
     segment_step s rel = positioned_step (Source_error Segment_offset_overflow) (seg_source s)
       (seg_source_offset s + rel)"
  by (simp add: fun_eq_iff segment_step_def positioned_step_def checked_add_def)

lemma segment_content_slice:
  assumes "rel + n \<le> seg_size s"
  shows "subslice (seg_source_offset s + rel) n c = subslice rel n (segment_content s c)"
  using assms by (simp add: segment_content_def slice_slice)

lemma length_segment_content:
  "segment_inside s c \<Longrightarrow> length (segment_content s c) = seg_size s"
  by (simp add: segment_inside_def segment_content_def slice_simps)

lemma read_from_segment_sound:
  assumes "byte_source (seg_source s) c" "segment_inside s c" "rel + n \<le> seg_size s"
    and "read_from_segment s rel n = Ok bs"
  shows "bs = subslice rel n (segment_content s c)"
proof -
  have "seg_source_offset s + rel < u64_limit"
    using assms(2,3) byte_source.content_u64 [OF assms(1)] by (simp add: segment_inside_def)
  then have "gather (positioned_step (Source_error Segment_offset_overflow) (seg_source s)
      (seg_source_offset s + rel)) Ok n [] = Ok bs"
    using assms(4) by (simp add: read_from_segment_def segment_step_positioned)
  then show ?thesis
    unfolding segment_content_slice [OF assms(3), symmetric]
    by (rule byte_source.fill_sound [OF assms(1)])
qed

lemma read_from_segment_total:
  assumes "total_source (seg_source s) c" "segment_inside s c" "rel + n \<le> seg_size s"
  shows "read_from_segment s rel n = Ok (subslice rel n (segment_content s c))"
proof -
  have "seg_source_offset s + rel < u64_limit"
    using assms(2,3) byte_source.content_u64 [OF total_source.axioms(1) [OF assms(1)]]
    by (simp add: segment_inside_def)
  then show ?thesis
    using total_source.fill_total [OF assms(1)] segment_content_slice [OF assms(3)]
    by (simp add: read_from_segment_def segment_step_positioned)
qed

section \<open>A segmented source is the concatenation of its segments\<close>

locale segmented =
  fixes segments :: "SegmentedSourceSegment list"
    and contents :: "byte list list"
    and sd :: SegmentedDataSource
  assumes created: "segmented_new segments = Ok sd"
    and segment_sources: "list_all2 (\<lambda>s c. byte_source (seg_source s) c \<and> segment_inside s c) segments contents"
begin

abbreviation pieces :: "byte list list" where
  "pieces \<equiv> map2 segment_content segments contents"

lemma sd_fields: "sd_segments sd = segments" "sd_size sd = sum_list (map seg_size segments)"
  and segments_layout: "layout seg_logical_offset seg_size 0 segments"
  and segments_u64: "sum_list (map seg_size segments) < u64_limit"
  using created
  by (auto simp: segmented_new_def result_simps check_pieces_Ok u64_limit_def Let_def)

lemma segment_of_zip:
  assumes "(s, p) \<in> set (zip segments pieces)"
  obtains c where "(s, c) \<in> set (zip segments contents)" "p = segment_content s c"
  using assms by (fastforce simp: set_zip)

lemma segment_ok:
  "(s, c) \<in> set (zip segments contents) \<Longrightarrow> byte_source (seg_source s) c \<and> segment_inside s c"
  using segment_sources by (auto simp: list_all2_iff)

lemma pieces_lengths: "list_all2 (\<lambda>s p. length p = seg_size s) segments pieces"
proof -
  have "length contents = length segments" using segment_sources by (simp add: list_all2_lengthD)
  moreover have "length (segment_content (segments ! i) (contents ! i)) = seg_size (segments ! i)"
    if "i < length segments" for i
    using segment_sources that by (simp add: list_all2_conv_all_nth length_segment_content)
  ultimately show ?thesis by (simp add: list_all2_conv_all_nth)
qed

lemma length_pieces: "length (concat pieces) = sd_size sd"
proof -
  have "map length pieces = map seg_size segments"
    using pieces_lengths by (intro nth_equalityI) (auto simp: list_all2_conv_all_nth)
  then show ?thesis by (simp add: length_concat sd_fields(2))
qed

end

sublocale segmented \<subseteq> walk: piecewise segment_errors seg_logical_offset seg_size read_from_segment
  segments pieces
proof unfold_locales
  show "layout seg_logical_offset seg_size 0 segments" by (rule segments_layout)
  show "list_all2 (\<lambda>x c. length c = seg_size x) segments pieces" by (rule pieces_lengths)
  show "length (concat pieces) < u64_limit"
    using segments_u64 sd_fields(2) length_pieces by simp
next
  fix s p rel n bs
  assume zip: "(s, p) \<in> set (zip segments pieces)" and rd: "read_from_segment s rel n = Ok bs"
    and le: "rel + n \<le> seg_size s"
  obtain c where c: "(s, c) \<in> set (zip segments contents)" and p: "p = segment_content s c"
    using zip by (rule segment_of_zip)
  have bs: "bs = subslice rel n p"
    using read_from_segment_sound [OF _ _ le rd] segment_ok [OF c] p by blast
  have "length bs = n"
    using bs le p segment_ok [OF c] by (simp add: length_segment_content slice_simps)
  then show "length bs \<le> n \<and> bs = subslice rel (length bs) p" and "0 < n \<Longrightarrow> bs \<noteq> []"
    using bs by auto
qed

sublocale segmented \<subseteq> byte_source "segmented_source sd" "concat pieces"
proof unfold_locales
  show "ds_size (segmented_source sd) = Ok (length (concat pieces))"
    by (simp add: segmented_source_def length_pieces)
  show "length (concat pieces) < u64_limit"
    using segments_u64 sd_fields(2) length_pieces by simp
next
  fix off n bs
  assume "ds_read_at (segmented_source sd) off n = Ok bs"
  then have bs: "bs = subslice off n (concat pieces)"
    using walk.piece_read_at_sound [of off n bs]
    by (simp add: segmented_source_def segmented_read_at_def sd_fields(1) length_pieces)
  then show "length bs \<le> n \<and> bs = subslice off (length bs) (concat pieces)"
    by (simp add: length_slice slice_min)
  show "bs \<noteq> []" if "0 < n" "off < length (concat pieces)"
    using that bs by (simp add: slice_eq_Nil_iff)
qed

text \<open>
  When the segments' sources do not fail, neither does the segmented source, and it never reads
  short: it is exact although its parts may return fewer bytes than asked.
\<close>

locale total_segmented = segmented +
  assumes total_sources: "list_all2 (\<lambda>s c. total_source (seg_source s) c) segments contents"

sublocale total_segmented \<subseteq> walk: total_piecewise segment_errors seg_logical_offset seg_size
  read_from_segment segments pieces
proof unfold_locales
  fix s p rel n
  assume zip: "(s, p) \<in> set (zip segments pieces)" and le: "rel + n \<le> seg_size s"
  obtain c where c: "(s, c) \<in> set (zip segments contents)"
    using zip by (rule segment_of_zip)
  then have "total_source (seg_source s) c"
    using total_sources by (auto simp: list_all2_iff)
  then show "\<exists>bs. read_from_segment s rel n = Ok bs"
    using read_from_segment_total [OF _ _ le] segment_ok [OF c] by blast
qed

sublocale total_segmented \<subseteq> exact: exact_source "segmented_source sd" "concat pieces"
proof unfold_locales
  fix off n
  show "ds_read_at (segmented_source sd) off n = Ok (subslice off n (concat pieces))"
    using walk.piece_read_at_total [of off n]
    by (simp add: segmented_source_def segmented_read_at_def sd_fields(1) length_pieces)
qed (rule size_content, rule content_u64)

section \<open>Segments that are whole sources\<close>

context segmented
begin

lemma segmented_byte_source: "byte_source (segmented_source sd) (concat pieces)"
  by unfold_locales

end

context total_segmented
begin

lemma segmented_exact_source: "exact_source (segmented_source sd) (concat pieces)"
  by unfold_locales

end

text \<open>
  Sources laid end to end, each from its start to its end: the result is the concatenation of
  their contents.
\<close>

definition whole_segment :: "SegmentedSourceSegment \<Rightarrow> byte list \<Rightarrow> bool" where
  "whole_segment s c \<longleftrightarrow> seg_source_offset s = 0 \<and> seg_size s = length c"

lemma whole_segments_pieces:
  "list_all2 whole_segment segments contents \<Longrightarrow> map2 segment_content segments contents = contents"
  by (induction rule: list_all2_induct)
    (simp_all add: whole_segment_def segment_content_def slice_all)

lemma whole_segments:
  assumes "layout seg_logical_offset seg_size 0 segments" "sum_list (map seg_size segments) < u64_limit"
    and whole: "list_all2 whole_segment segments contents"
    and src: "list_all2 (\<lambda>s c. byte_source (seg_source s) c) segments contents"
  shows "\<exists>sd. segmented_new segments = Ok sd \<and> byte_source (segmented_source sd) (concat contents)
    \<and> (list_all2 (\<lambda>s c. total_source (seg_source s) c) segments contents
         \<longrightarrow> exact_source (segmented_source sd) (concat contents))"
proof -
  have "check_pieces segment_errors seg_logical_offset seg_size 0 segments
      = Ok (sum_list (map seg_size segments))"
    using assms(1,2) by (simp add: check_pieces_Ok)
  then obtain sd where sd: "segmented_new segments = Ok sd"
    by (simp add: segmented_new_def Let_def)
  have inside: "list_all2 (\<lambda>s c. byte_source (seg_source s) c \<and> segment_inside s c) segments contents"
    using whole src by (simp add: list_all2_conv_all_nth whole_segment_def segment_inside_def)
  from sd inside have seg: "segmented segments contents sd" by unfold_locales
  have "exact_source (segmented_source sd) (concat contents)"
    if "list_all2 (\<lambda>s c. total_source (seg_source s) c) segments contents"
  proof -
    from seg that have "total_segmented segments contents sd"
      by (simp add: total_segmented_def total_segmented_axioms_def)
    from total_segmented.segmented_exact_source [OF this] show ?thesis
      by (simp add: whole_segments_pieces [OF whole])
  qed
  with sd segmented.segmented_byte_source [OF seg] show ?thesis
    by (simp add: whole_segments_pieces [OF whole])
qed

text \<open>Two chunks of a split image as memory sources.\<close>

definition two_segments :: "SegmentedSourceSegment list" where
  "two_segments =
     [\<lparr>seg_logical_offset = 0, seg_size = 3, seg_source = memory_source (memory_new [1, 2, 3]),
       seg_source_offset = 0\<rparr>,
      \<lparr>seg_logical_offset = 3, seg_size = 2, seg_source = memory_source (memory_new [9, 4, 5]),
       seg_source_offset = 1\<rparr>]"

definition two_segments_source :: SegmentedDataSource where
  "two_segments_source =
     \<lparr>sd_segments = two_segments, sd_size = 5, sd_capabilities = capabilities_concurrent Cheap\<rparr>"

lemma two_segments_new: "segmented_new two_segments = Ok two_segments_source"
  by (simp add: segmented_new_def two_segments_def two_segments_source_def checked_add_def u64_limit_def
      Let_def combine_step_def memory_source_def capabilities_concurrent_def capabilities_new_def)

lemma two_segments_sources:
  "list_all2 (\<lambda>s c. total_source (seg_source s) c \<and> segment_inside s c) two_segments [[1, 2, 3], [9, 4, 5]]"
  by (simp add: two_segments_def segment_inside_def memory_sources u64_limit_def)

interpretation two: total_segmented two_segments "[[1, 2, 3], [9, 4, 5]]" two_segments_source
  using two_segments_sources
  by unfold_locales (auto simp: two_segments_new intro: list_all2_mono total_source.axioms(1))

section \<open>Properties\<close>

text \<open>
  (C4) A segmented source over parts that do not fail is the concatenation of its segments: it
  has their total size, and a read at any offset returns all the bytes there are, across segment
  boundaries and even when the parts read short.
\<close>

theorem segmented_is_concatenation:
  assumes "segmented_new segments = Ok sd"
    and "list_all2 (\<lambda>s c. total_source (seg_source s) c \<and> segment_inside s c) segments contents"
  shows "ds_size (segmented_source sd) = Ok (length (concat (map2 segment_content segments contents)))
    \<and> ds_read_at (segmented_source sd) off n
        = Ok (subslice off n (concat (map2 segment_content segments contents)))"
proof -
  have "total_segmented segments contents sd"
    using assms by unfold_locales (auto intro: list_all2_mono total_source.axioms(1))
  from total_segmented.segmented_exact_source [OF this] show ?thesis
    by (simp add: exact_source.exact_size exact_source.exact_read)
qed

theorem segmented_is_concatenation_witness:
  "ds_read_at (segmented_source two_segments_source) 1 3 = Ok [2, 3, 4]"
  using segmented_is_concatenation [OF two_segments_new two_segments_sources, of 1 3]
  by (simp add: two_segments_def segment_content_def subslice_def)

text \<open>
  The constructor accepts exactly the lists of segments that have no empty segment, lie one
  after the other from offset 0 on and do not exceed the 64-bit range; the size is their sum.
\<close>

theorem segmented_new_accepts:
  "(\<exists>sd. segmented_new segments = Ok sd \<and> sd_size sd = n) \<longleftrightarrow>
     layout seg_logical_offset seg_size 0 segments \<and> n = sum_list (map seg_size segments) \<and> n < u64_limit"
  by (auto simp: segmented_new_def result_simps check_pieces_Ok Let_def u64_limit_def)

end
