(* ===== verification/Resolver.thy ===== *)
theory Resolver
  imports Data_Source Unicode_Text
begin

text \<open>
  The \<open>SourceResolver\<close> trait (\<open>resolver/source_resolver.rs\<close>): it opens a sibling source by its
  relative path, \<open>None\<close> when there is none.  Implementations reach the file system and are
  parameters of the drivers that use them.
\<close>

type_synonym resolver = "str \<Rightarrow> data_source option result"

text \<open>\<open>str::find\<close> and \<open>str::rfind\<close> of a pattern: the offset of its first and of its last occurrence.\<close>

definition occurrences :: "str \<Rightarrow> str \<Rightarrow> nat list" where
  "occurrences pat s = filter (\<lambda>i. take (length pat) (drop i s) = pat) [0..<Suc (length s)]"

definition str_find :: "str \<Rightarrow> str \<Rightarrow> nat option" where
  "str_find pat s = (case occurrences pat s of [] \<Rightarrow> None | i # _ \<Rightarrow> Some i)"

definition str_rfind :: "str \<Rightarrow> str \<Rightarrow> nat option" where
  "str_rfind pat s = (if occurrences pat s = [] then None else Some (last (occurrences pat s)))"

text \<open>\<open>str::trim\<close>: the white space of Unicode, in its UTF-8 encoding, is removed at both ends.\<close>

definition white_space :: "str list" where
  "white_space =
     [[9], [10], [11], [12], [13], [32], [0xC2, 0x85], [0xC2, 0xA0], [0xE1, 0x9A, 0x80]]
     @ map (\<lambda>b. [0xE2, 0x80, b]) [0x80, 0x81, 0x82, 0x83, 0x84, 0x85, 0x86, 0x87, 0x88, 0x89, 0x8A,
         0xA8, 0xA9, 0xAF]
     @ [[0xE2, 0x81, 0x9F], [0xE3, 0x80, 0x80]]"

definition leading_space :: "str list \<Rightarrow> str \<Rightarrow> nat" where
  "leading_space spaces s =
     (case find (\<lambda>w. w \<noteq> [] \<and> take (length w) s = w) spaces of Some w \<Rightarrow> length w | None \<Rightarrow> 0)"

function strip_leading :: "str list \<Rightarrow> str \<Rightarrow> str" where
  "strip_leading spaces s =
     (if 0 < leading_space spaces s \<and> s \<noteq> [] then strip_leading spaces (drop (leading_space spaces s) s) else s)"
  by pat_completeness auto
termination
  by (relation "measure (\<lambda>(_, s). length s)") auto

declare strip_leading.simps [simp del]

definition str_trim :: "str \<Rightarrow> str" where
  "str_trim s = rev (strip_leading (map rev white_space) (rev (strip_leading white_space s)))"

text \<open>\<open>parse\<close> of an unsigned number with \<open>limit\<close> values.\<close>

definition parse_unsigned :: "nat \<Rightarrow> str \<Rightarrow> nat option" where
  "parse_unsigned limit = from_str_radix decimal_value 10 limit"

section \<open>Evaluation of the search\<close>

text \<open>\<open>str::find\<close> as a scan from the left.\<close>

fun starts_with :: "str \<Rightarrow> str \<Rightarrow> bool" where
  "starts_with [] s = True"
| "starts_with (p # ps) [] = False"
| "starts_with (p # ps) (c # cs) = (if p = c then starts_with ps cs else False)"

fun find_from :: "str \<Rightarrow> nat \<Rightarrow> str \<Rightarrow> nat option" where
  "find_from pat k [] = (if pat = [] then Some k else None)"
| "find_from pat k (c # s) = (if starts_with pat (c # s) then Some k else find_from pat (k + 1) s)"

lemma starts_with_take: "starts_with pat s \<longleftrightarrow> take (length pat) s = pat"
  by (induction pat s rule: starts_with.induct) auto

lemma occurrences_Cons:
  "occurrences pat (c # s) = (if starts_with pat (c # s) then [0] else []) @ map Suc (occurrences pat s)"
proof -
  have upt: "[0..<Suc (length (c # s))] = 0 # map Suc [0..<Suc (length s)]"
    by (simp add: upt_conv_Cons map_Suc_upt del: upt_Suc)
  show ?thesis
    unfolding occurrences_def upt starts_with_take filter.simps filter_map o_def drop_Suc_Cons drop_0 by simp
qed

lemma find_from_scan: "find_from pat k s = map_option (\<lambda>i. i + k) (str_find pat s)"
proof (induction pat k s rule: find_from.induct)
  case (1 pat k)
  then show ?case by (auto simp: str_find_def occurrences_def)
next
  case (2 pat k c s)
  then show ?case by (auto simp: str_find_def occurrences_Cons split: list.splits)
qed

lemma str_find_eval: "str_find pat s = find_from pat 0 s"
  by (simp add: find_from_scan option.map_ident)

lemma strip_leading_none: "leading_space spaces s = 0 \<Longrightarrow> strip_leading spaces s = s"
  by (simp add: strip_leading.simps [of spaces s])

text \<open>A string between two printable ASCII characters has nothing to trim.\<close>

definition printable :: "byte \<Rightarrow> bool" where
  "printable c \<longleftrightarrow> 32 < c \<and> c < 0x80"

lemma leading_space_printable:
  assumes "printable c" "\<forall>w \<in> set spaces. w \<noteq> [] \<and> \<not> printable (hd w)"
  shows "leading_space spaces (c # s) = 0"
proof -
  have "take (length w) (c # s) \<noteq> w" if "w \<in> set spaces" for w
    using assms that by (cases w) auto
  then have "find (\<lambda>w. w \<noteq> [] \<and> take (length w) (c # s) = w) spaces = None"
    by (auto simp: find_None_iff)
  then show ?thesis by (simp add: leading_space_def)
qed

lemma str_trim_printable:
  assumes "s \<noteq> []" "printable (hd s)" "printable (last s)"
  shows "str_trim s = s"
proof -
  have "\<forall>w \<in> set white_space. w \<noteq> [] \<and> \<not> printable (hd w)"
    "\<forall>w \<in> set (map rev white_space). w \<noteq> [] \<and> \<not> printable (hd w)"
    by (simp_all add: white_space_def printable_def)
  then have "leading_space white_space (hd s # tl s) = 0" "leading_space (map rev white_space) (last s # tl (rev s)) = 0"
    using assms(2,3) by (blast intro: leading_space_printable)+
  then show ?thesis
    using assms(1) by (simp add: str_trim_def strip_leading_none hd_rev [symmetric])
qed

end
