(* ===== verification/Split_Raw.thy ===== *)
theory Split_Raw
  imports Segmented_Source Resolver
begin

text \<open>
  Split raw images (\<open>image/splitraw/mod.rs\<close>): the naming schemas of segment files, the loop that
  opens the segments one after the other and the logical source.  The resolver that opens a file
  by its name is a parameter.  A file name is the string that \<open>Path::file_name\<close> and \<open>to_str\<close>
  return for the path, or \<open>None\<close>.  The lemmas show that the name of the first segment is the name
  the image is opened with, that different segments have different names, and that the logical
  source is the concatenation of the segments.
\<close>

section \<open>Naming schemas\<close>

datatype SplitRawNamingSchema = Alphabetic | Numeric | XOfN

definition ends_with :: "str \<Rightarrow> str \<Rightarrow> bool" where
  "ends_with pat s \<longleftrightarrow> length pat \<le> length s \<and> drop (length s - length pat) s = pat"

definition splitraw_naming_schema :: "str \<Rightarrow> SplitRawNamingSchema option" where
  "splitraw_naming_schema file_name =
     (case str_rfind (lit ''1of'') file_name of
        Some string_index \<Rightarrow>
          (case parse_unsigned u16_limit (drop (string_index + 3) file_name) of Some _ \<Rightarrow> Some XOfN | None \<Rightarrow> None)
      | None \<Rightarrow>
          if ends_with (lit ''aa'') file_name then Some Alphabetic
          else if ends_with (lit ''0'') file_name \<or> ends_with (lit ''1'') file_name then Some Numeric
          else None)"

text \<open>\<open>position(|value| value != ch)\<close> on the characters from the end; the characters skipped are ASCII.\<close>

definition trailing :: "byte \<Rightarrow> str \<Rightarrow> nat option" where
  "trailing ch s =
     (if \<forall>c \<in> set s. c = ch then None else Some (length (takeWhile (\<lambda>c. c = ch) (rev s))))"

definition splitraw_parse_naming :: "SplitRawNamingSchema \<Rightarrow> str \<Rightarrow> (str \<times> nat \<times> nat \<times> nat) result" where
  "splitraw_parse_naming naming_schema file_name =
     (case naming_schema of
        Alphabetic \<Rightarrow>
          (let name_suffix_size = (case trailing 0x61 file_name of Some n \<Rightarrow> n | None \<Rightarrow> 0);
               name_size = length file_name - name_suffix_size
           in Ok (take name_size file_name, 0, name_suffix_size, 0))
      | Numeric \<Rightarrow>
          if file_name = [] \<or> (last file_name \<noteq> 0x30 \<and> last file_name \<noteq> 0x31)
          then Err (Image_error Splitraw_first_segment_number)
          else
            let name_first_segment_number = (if last file_name = 0x30 then 0 else 1);
                name_suffix_size = (case trailing 0x30 (butlast file_name) of Some n \<Rightarrow> n + 1 | None \<Rightarrow> 1);
                name_size = length file_name - name_suffix_size
            in Ok (take name_size file_name, name_first_segment_number, name_suffix_size, 0)
      | XOfN \<Rightarrow>
          (case str_rfind (lit ''1of'') file_name of
             None \<Rightarrow> Err (Image_error Splitraw_segment_count)
           | Some string_index \<Rightarrow>
               (case parse_unsigned u16_limit (drop (string_index + 3) file_name) of
                  None \<Rightarrow> Err (Image_error Splitraw_parse_segment_count)
                | Some fixed_segment_count \<Rightarrow> Ok (take string_index file_name, 0, 0, fixed_segment_count))))"

text \<open>The digits of a number from the lowest to the highest, none for 0, starting at character \<open>zero\<close>.\<close>

fun suffix_digits :: "nat \<Rightarrow> nat \<Rightarrow> nat \<Rightarrow> str" where
  "suffix_digits zero base n =
     (if n = 0 \<or> base < 2 then [] else of_nat (n mod base + zero) # suffix_digits zero base (n div base))"

declare suffix_digits.simps [simp del]

text \<open>A padded suffix, shared by the two schemas that count.\<close>

definition splitraw_suffix :: "nat \<Rightarrow> nat \<Rightarrow> nat \<Rightarrow> nat \<Rightarrow> str result" where
  "splitraw_suffix zero base name_suffix_size n =
     (let segment_suffix = suffix_digits zero base n
      in if name_suffix_size < length segment_suffix then Err (Image_error Splitraw_suffix_exceeds_size)
         else Ok (rev (segment_suffix @ replicate (name_suffix_size - length segment_suffix) (of_nat zero))))"

definition splitraw_segment_file_name :: "str \<Rightarrow> nat \<Rightarrow> nat \<Rightarrow> SplitRawNamingSchema \<Rightarrow> nat \<Rightarrow> nat \<Rightarrow> str result" where
  "splitraw_segment_file_name name segment_number number_of_segment_files naming_schema
       name_first_segment_number name_suffix_size =
     (if segment_number = 0 then Err (Image_error Splitraw_segment_number_zero)
      else
        case naming_schema of
          Alphabetic \<Rightarrow>
            and_then (splitraw_suffix 0x61 26 name_suffix_size ((segment_number - 1) + name_first_segment_number))
              (\<lambda>suffix. Ok (name @ suffix))
        | Numeric \<Rightarrow>
            and_then (splitraw_suffix 0x30 10 name_suffix_size ((segment_number - 1) + name_first_segment_number))
              (\<lambda>suffix. Ok (name @ suffix))
        | XOfN \<Rightarrow>
            Ok (name @ decimal_digits segment_number @ lit ''of'' @ decimal_digits number_of_segment_files))"

section \<open>SplitRawImage\<close>

record SplitRawSegment =
  srs_file_name :: str
  srs_logical_offset :: nat
  srs_size :: nat
  srs_source :: data_source

record SplitRawImage =
  sri_segment_size :: nat
  sri_segments :: "SplitRawSegment list"
  sri_media_size :: nat

text \<open>
  The loop of \<open>open\<close>.  \<open>naming\<close> gives the name of a segment number; \<open>media_size\<close> equals
  \<open>logical_offset\<close> after every iteration.
\<close>

function splitraw_read_segments :: "resolver \<Rightarrow> (nat \<Rightarrow> str result) \<Rightarrow> nat \<Rightarrow> nat \<Rightarrow> nat \<Rightarrow> nat \<Rightarrow> nat
    \<Rightarrow> SplitRawSegment list \<Rightarrow> (nat \<times> nat \<times> SplitRawSegment list) result" where
  "splitraw_read_segments resolver naming fixed_segment_count segment_number segment_size
       last_segment_file_size logical_offset segments =
     (if fixed_segment_count \<noteq> 0 \<and> fixed_segment_count < segment_number
      then Ok (segment_size, logical_offset, segments)
      else
        and_then (naming segment_number) (\<lambda>segment_file_name.
        and_then (resolver segment_file_name) (\<lambda>opened.
          case opened of
            None \<Rightarrow>
              if fixed_segment_count \<noteq> 0 then Err (Image_error Splitraw_missing_segment)
              else Ok (segment_size, logical_offset, segments)
          | Some source \<Rightarrow>
              if 0 < last_segment_file_size \<and> last_segment_file_size \<noteq> segment_size
              then Err (Image_error Splitraw_segment_size_mismatch)
              else
                and_then (ds_size source) (\<lambda>current_segment_size.
                if current_segment_size = 0 then Err (Image_error Splitraw_zero_sized_segment)
                else
                  let segment_size = (if segment_size = 0 then current_segment_size else segment_size);
                      segments = segments @ [\<lparr>srs_file_name = segment_file_name,
                        srs_logical_offset = logical_offset, srs_size = current_segment_size,
                        srs_source = source\<rparr>]
                  in and_then (ok_or (Image_error Splitraw_media_size_overflow)
                                (checked_add logical_offset current_segment_size)) (\<lambda>logical_offset.
                     if segment_number + 1 < u16_limit then
                       splitraw_read_segments resolver naming fixed_segment_count (segment_number + 1)
                         segment_size current_segment_size logical_offset segments
                     else Err (Image_error Splitraw_segment_number_overflow))))))"
  by pat_completeness auto
termination
  by (relation "measure (\<lambda>(_, _, _, segment_number, _). u16_limit - segment_number)") auto

declare splitraw_read_segments.simps [simp del]

definition splitraw_open :: "resolver \<Rightarrow> str option \<Rightarrow> SplitRawImage result" where
  "splitraw_open resolver file_name =
     and_then (ok_or (Image_error Splitraw_file_name) file_name) (\<lambda>file_name.
     and_then (ok_or (Image_error Splitraw_naming_schema) (splitraw_naming_schema file_name)) (\<lambda>naming_schema.
     and_then (splitraw_parse_naming naming_schema file_name)
       (\<lambda>(name, name_first_segment_number, name_suffix_size, fixed_segment_count).
     and_then (splitraw_read_segments resolver
                (\<lambda>segment_number. splitraw_segment_file_name name segment_number fixed_segment_count
                   naming_schema name_first_segment_number name_suffix_size)
                fixed_segment_count 1 0 0 0 []) (\<lambda>(segment_size, media_size, segments).
       if segments = [] then Err (Image_error Splitraw_no_segments)
       else Ok \<lparr>sri_segment_size = segment_size, sri_segments = segments, sri_media_size = media_size\<rparr>))))"

definition splitraw_open_source :: "SplitRawImage \<Rightarrow> data_source result" where
  "splitraw_open_source img =
     and_then (segmented_new (map (\<lambda>segment. \<lparr>seg_logical_offset = srs_logical_offset segment,
                  seg_size = srs_size segment, seg_source = srs_source segment, seg_source_offset = 0\<rparr>)
                (sri_segments img))) (\<lambda>sd. Ok (segmented_source sd))"

section \<open>Names of segments\<close>

text \<open>The number a suffix stands for, from its lowest to its highest digit.\<close>

fun suffix_value :: "nat \<Rightarrow> nat \<Rightarrow> str \<Rightarrow> nat" where
  "suffix_value zero base [] = 0"
| "suffix_value zero base (c # cs) = (unat c - zero) + base * suffix_value zero base cs"

lemma suffix_value_zeros: "zero < 256 \<Longrightarrow> suffix_value zero base (replicate k (of_nat zero)) = 0"
  by (induction k) (simp_all add: unat_of_nat)

lemma suffix_value_digits:
  assumes "2 \<le> base" "zero + base \<le> 256"
  shows "suffix_value zero base (suffix_digits zero base n @ replicate k (of_nat zero)) = n"
proof (induction n rule: less_induct)
  case (less n)
  show ?case
  proof (cases "n = 0")
    case True
    then show ?thesis using assms by (simp add: suffix_digits.simps suffix_value_zeros)
  next
    case False
    then have "n div base < n" using assms by simp
    moreover have "n mod base + zero < 256"
      using assms mod_less_divisor [of base n] by linarith
    then have "unat (of_nat (n mod base + zero) :: byte) = n mod base + zero"
      by (simp add: unat_of_nat del: of_nat_add)
    ultimately show ?thesis
      using less False assms by (simp add: suffix_digits.simps [of zero base n] del: of_nat_add)
  qed
qed

lemma splitraw_suffix_value:
  assumes "splitraw_suffix zero base w n = Ok s" "2 \<le> base" "zero + base \<le> 256"
  shows "suffix_value zero base (rev s) = n"
proof -
  from assms(1) obtain k where "rev s = suffix_digits zero base n @ replicate k (of_nat zero)"
    by (auto simp: splitraw_suffix_def Let_def split: if_splits)
  then show ?thesis using suffix_value_digits [OF assms(2,3)] by simp
qed

lemma splitraw_suffix_inj:
  assumes "splitraw_suffix zero base w n = Ok s" "splitraw_suffix zero base w m = Ok s"
    and "2 \<le> base" "zero + base \<le> 256"
  shows "n = m"
  using assms splitraw_suffix_value by blast

text \<open>A number has a suffix exactly when it fits the size of the suffix.\<close>

lemma suffix_digits_length: "2 \<le> base \<Longrightarrow> length (suffix_digits zero base n) \<le> w \<longleftrightarrow> n < base ^ w"
proof (induction w arbitrary: n)
  case 0
  then show ?case by (auto simp: suffix_digits.simps [of zero base n])
next
  case (Suc w)
  show ?case
  proof (cases "n = 0")
    case True
    with Suc.prems show ?thesis by (simp add: suffix_digits.simps)
  next
    case False
    have "n div base < base ^ w \<longleftrightarrow> n < base ^ Suc w"
      using Suc.prems by (subst div_less_iff_less_mult) (simp_all add: mult.commute)
    with False Suc show ?thesis by (simp add: suffix_digits.simps [of zero base n])
  qed
qed

lemma splitraw_suffix_fits: "2 \<le> base \<Longrightarrow> (\<exists>s. splitraw_suffix zero base w n = Ok s) \<longleftrightarrow> n < base ^ w"
  using suffix_digits_length [of base zero n w] by (auto simp: splitraw_suffix_def Let_def)

lemma decimal_digits_suffix: "0 < n \<Longrightarrow> decimal_digits n = rev (suffix_digits 48 10 n)"
proof (induction n rule: less_induct)
  case (less n)
  show ?case
  proof (cases "n < 10")
    case True
    with less.prems show ?thesis
      by (simp add: decimal_digits.simps [of n] suffix_digits.simps [of 48 10 n] suffix_digits.simps [of 48 10 0]
          add.commute)
  next
    case False
    then have "decimal_digits (n div 10) = rev (suffix_digits 48 10 (n div 10))" by (intro less.IH) auto
    with False show ?thesis
      by (simp add: decimal_digits.simps [of n] suffix_digits.simps [of 48 10 n] add.commute)
  qed
qed

lemma decimal_digits_inj: "0 < n \<Longrightarrow> 0 < m \<Longrightarrow> decimal_digits n = decimal_digits m \<Longrightarrow> n = m"
  using suffix_value_digits [of 10 48 n 0] suffix_value_digits [of 10 48 m 0]
  by (simp add: decimal_digits_suffix)

lemma splitraw_names_inj:
  assumes "splitraw_segment_file_name name n count schema first w = Ok s"
    and "splitraw_segment_file_name name m count schema first w = Ok s"
  shows "n = m"
proof -
  have pos: "0 < n" "0 < m" using assms by (auto simp: splitraw_segment_file_name_def split: if_splits)
  show ?thesis
  proof (cases schema)
    case Alphabetic
    with assms pos obtain a where "splitraw_suffix 0x61 26 w (n - 1 + first) = Ok a"
      "splitraw_suffix 0x61 26 w (m - 1 + first) = Ok a"
      by (auto simp: splitraw_segment_file_name_def result_simps)
    then have "n - 1 + first = m - 1 + first" by (rule splitraw_suffix_inj) simp_all
    with pos show ?thesis by simp
  next
    case Numeric
    with assms pos obtain a where "splitraw_suffix 0x30 10 w (n - 1 + first) = Ok a"
      "splitraw_suffix 0x30 10 w (m - 1 + first) = Ok a"
      by (auto simp: splitraw_segment_file_name_def result_simps)
    then have "n - 1 + first = m - 1 + first" by (rule splitraw_suffix_inj) simp_all
    with pos show ?thesis by simp
  next
    case XOfN
    with assms pos show ?thesis
      by (auto simp: splitraw_segment_file_name_def intro: decimal_digits_inj)
  qed
qed

text \<open>The name an image is opened with is the name of its first segment.\<close>

lemma trailing_Some:
  assumes "trailing ch s = Some n"
  shows "n \<le> length s \<and> take (length s - n) s @ replicate n ch = s"
proof -
  let ?t = "takeWhile (\<lambda>c. c = ch) (rev s)"
  have n: "n = length ?t" using assms by (auto simp: trailing_def split: if_splits)
  have t: "?t = replicate n ch"
    unfolding n by (rule replicate_eqI) (auto dest: set_takeWhileD)
  have "s = rev (dropWhile (\<lambda>c. c = ch) (rev s)) @ rev ?t"
    by (metis rev_append rev_rev_ident takeWhile_dropWhile_id)
  moreover have "rev ?t = replicate n ch" by (simp add: t)
  ultimately obtain u where "s = u @ replicate n ch" by metis
  then show ?thesis by simp
qed

lemma splitraw_suffix_0: "splitraw_suffix zero base w 0 = Ok (replicate w (of_nat zero))"
  by (simp add: splitraw_suffix_def suffix_digits.simps)

lemma splitraw_suffix_1: "0 < w \<Longrightarrow> splitraw_suffix 0x30 10 w (Suc 0) = Ok (replicate (w - 1) 0x30 @ [0x31])"
  by (simp add: splitraw_suffix_def Let_def suffix_digits.simps [of 48 10 "Suc 0"] suffix_digits.simps [of 48 10 0])

lemma splitraw_first_name:
  assumes "splitraw_parse_naming schema f = Ok (name, first, w, count)" "schema \<noteq> XOfN"
  shows "splitraw_segment_file_name name 1 count schema first w = Ok f"
proof (cases schema)
  case Alphabetic
  show ?thesis
  proof (cases "trailing 0x61 f")
    case None
    with Alphabetic assms show ?thesis
      by (auto simp: splitraw_parse_naming_def splitraw_segment_file_name_def splitraw_suffix_0)
  next
    case (Some n)
    with Alphabetic assms trailing_Some [OF Some] show ?thesis
      by (auto simp: splitraw_parse_naming_def splitraw_segment_file_name_def splitraw_suffix_0 Let_def)
  qed
next
  case Numeric
  with assms(1) obtain g l where f: "f = g @ [l]" and l: "l = 0x30 \<or> l = 0x31"
    by (cases f rule: rev_cases) (auto simp: splitraw_parse_naming_def split: if_splits)
  define k where "k = (case trailing 0x30 g of Some n \<Rightarrow> n | None \<Rightarrow> 0)"
  have g: "take (length g - k) g @ replicate k 0x30 = g" "k \<le> length g"
    using trailing_Some [where ch = "0x30" and s = g] by (auto simp: k_def split: option.splits)
  have "name = take (length g - k) g" "w = Suc k" "first = (if l = 0x30 then 0 else 1)"
    using Numeric assms(1) f l
    by (auto simp: splitraw_parse_naming_def Let_def k_def split: option.splits if_splits)
  with Numeric l g f show ?thesis
    by (auto simp: splitraw_segment_file_name_def splitraw_suffix_0 splitraw_suffix_1 simp flip: replicate_append_same)
qed (use assms in simp)

subsection \<open>The names in words\<close>

text \<open>
  The name of segment \<open>k\<close>, counted from 1, of an image that is opened with the name \<open>f\<close>, without the naming
  functions: the schemas that count add \<open>k - 1\<close> to the number at the end of \<open>f\<close> in digits from \<open>zero\<close> on, as many as
  \<open>f\<close> has, the other one replaces the 1 before \<open>of\<close>.
\<close>

definition splitraw_digits :: "nat \<Rightarrow> nat \<Rightarrow> str \<Rightarrow> bool" where
  "splitraw_digits zero base s \<longleftrightarrow> (\<forall>c \<in> set s. zero \<le> unat c \<and> unat c < zero + base)"

definition splitraw_counted :: "nat \<Rightarrow> nat \<Rightarrow> str \<Rightarrow> nat \<Rightarrow> str \<Rightarrow> bool" where
  "splitraw_counted zero base f k s \<longleftrightarrow>
     (\<exists>stem first number. f = stem @ first \<and> s = stem @ number \<and> length number = length first
        \<and> splitraw_digits zero base first \<and> splitraw_digits zero base number
        \<and> suffix_value zero base (rev number) = suffix_value zero base (rev first) + (k - 1))"

definition splitraw_numbered :: "SplitRawNamingSchema \<Rightarrow> str \<Rightarrow> nat \<Rightarrow> str \<Rightarrow> bool" where
  "splitraw_numbered schema f k s \<longleftrightarrow>
     (case schema of
        Alphabetic \<Rightarrow> splitraw_counted 0x61 26 f k s
      | Numeric \<Rightarrow> splitraw_counted 0x30 10 f k s
      | XOfN \<Rightarrow> (\<exists>stem number count. f = stem @ lit ''1of'' @ number \<and> parse_unsigned u16_limit number = Some count
          \<and> s = stem @ decimal_digits k @ lit ''of'' @ decimal_digits count))"

lemma suffix_digits_range:
  assumes "2 \<le> base" "zero + base \<le> 256"
  shows "splitraw_digits zero base (suffix_digits zero base n)"
proof (induction n rule: less_induct)
  case (less n)
  show ?case
  proof (cases "n = 0")
    case True
    then show ?thesis by (simp add: suffix_digits.simps splitraw_digits_def)
  next
    case False
    then have "n div base < n" using assms by simp
    moreover have m: "n mod base + zero < 256" "n mod base < base"
      using assms mod_less_divisor [of base n] by linarith+
    then have "unat (of_nat (n mod base + zero) :: byte) = n mod base + zero"
      by (simp add: unat_of_nat del: of_nat_add)
    ultimately show ?thesis
      using less.IH [OF \<open>n div base < n\<close>] m False assms
      by (simp add: suffix_digits.simps [of zero base n] splitraw_digits_def del: of_nat_add)
  qed
qed

lemma splitraw_suffix_Ok:
  assumes "splitraw_suffix zero base w n = Ok s" "2 \<le> base" "zero + base \<le> 256"
  shows "splitraw_digits zero base s" "length s = w" "suffix_value zero base (rev s) = n"
proof -
  from assms(1) have s: "length (suffix_digits zero base n) \<le> w"
    "s = rev (suffix_digits zero base n @ replicate (w - length (suffix_digits zero base n)) (of_nat zero))"
    by (auto simp: splitraw_suffix_def Let_def split: if_splits)
  have "unat (of_nat zero :: byte) = zero" using assms(2,3) by (simp add: unat_of_nat)
  then show "splitraw_digits zero base s"
    using suffix_digits_range [OF assms(2,3), of n] assms(2) by (auto simp: s(2) splitraw_digits_def)
  show "length s = w" using s by simp
  show "suffix_value zero base (rev s) = n" by (rule splitraw_suffix_value [OF assms])
qed

lemma splitraw_names_counted:
  assumes "splitraw_suffix zero base w first = Ok a" "splitraw_suffix zero base w (k - 1 + first) = Ok b" "2 \<le> base" "zero + base \<le> 256"
  shows "splitraw_counted zero base (name @ a) k (name @ b)"
  using splitraw_suffix_Ok [OF assms(1,3,4)] splitraw_suffix_Ok [OF assms(2-4)]
  unfolding splitraw_counted_def by (intro exI [of _ name] exI [of _ a] exI [of _ b]) (simp add: add.commute)

lemma str_rfind_Some: "str_rfind pat s = Some i \<Longrightarrow> s = take i s @ pat @ drop (i + length pat) s"
proof -
  assume "str_rfind pat s = Some i"
  then have "i \<in> set (occurrences pat s)" by (auto simp: str_rfind_def split: if_splits)
  then have t: "take (length pat) (drop i s) = pat" by (simp add: occurrences_def del: upt_Suc)
  have "s = take i s @ take (length pat) (drop i s) @ drop (length pat) (drop i s)"
    by (simp only: append_take_drop_id)
  then show ?thesis unfolding t by (simp add: add.commute)
qed

lemma splitraw_names_numbered:
  assumes parse: "splitraw_parse_naming schema f = Ok (name, first, w, count)"
    and s: "splitraw_segment_file_name name k count schema first w = Ok s"
  shows "splitraw_numbered schema f k s"
    and "schema = XOfN \<Longrightarrow> \<exists>stem number. f = stem @ lit ''1of'' @ number \<and> parse_unsigned u16_limit number = Some count"
    and "schema \<noteq> XOfN \<Longrightarrow> count = 0"
proof -
  have xofn: "\<exists>number. f = name @ lit ''1of'' @ number \<and> parse_unsigned u16_limit number = Some count" if "schema = XOfN"
  proof -
    from parse that obtain i where i: "str_rfind (lit ''1of'') f = Some i" "name = take i f"
      "parse_unsigned u16_limit (drop (i + 3) f) = Some count"
      by (auto simp: splitraw_parse_naming_def split: option.splits)
    have "length (lit ''1of'') = 3" by (simp add: lit_def)
    then show ?thesis using str_rfind_Some [OF i(1)] i(2,3) by auto
  qed
  show "splitraw_numbered schema f k s"
  proof (cases schema)
    case XOfN
    with s xofn show ?thesis by (auto simp: splitraw_numbered_def splitraw_segment_file_name_def split: if_splits)
  next
    case Alphabetic
    note f = splitraw_first_name [OF parse, unfolded Alphabetic, OF SplitRawNamingSchema.distinct(3)]
    from f obtain a where a: "splitraw_suffix 0x61 26 w first = Ok a" "f = name @ a"
      by (auto simp: splitraw_segment_file_name_def result_simps)
    from s Alphabetic obtain b where b: "splitraw_suffix 0x61 26 w (k - 1 + first) = Ok b" "s = name @ b"
      by (auto simp: splitraw_segment_file_name_def result_simps split: if_splits)
    show ?thesis
      using splitraw_names_counted [OF a(1) b(1), of name] by (simp add: splitraw_numbered_def Alphabetic a(2) b(2))
  next
    case Numeric
    note f = splitraw_first_name [OF parse, unfolded Numeric, OF SplitRawNamingSchema.distinct(5)]
    from f obtain a where a: "splitraw_suffix 0x30 10 w first = Ok a" "f = name @ a"
      by (auto simp: splitraw_segment_file_name_def result_simps)
    from s Numeric obtain b where b: "splitraw_suffix 0x30 10 w (k - 1 + first) = Ok b" "s = name @ b"
      by (auto simp: splitraw_segment_file_name_def result_simps split: if_splits)
    show ?thesis
      using splitraw_names_counted [OF a(1) b(1), of name] by (simp add: splitraw_numbered_def Numeric a(2) b(2))
  qed
  show "schema = XOfN \<Longrightarrow> \<exists>stem number. f = stem @ lit ''1of'' @ number \<and> parse_unsigned u16_limit number = Some count"
    using xofn by blast
  show "schema \<noteq> XOfN \<Longrightarrow> count = 0"
    using parse by (cases schema) (auto simp: splitraw_parse_naming_def Let_def split: if_splits)
qed

section \<open>The segments of an opened image\<close>

text \<open>The segments found so far: named, resolved, measured and laid end to end.\<close>

definition splitraw_inv :: "resolver \<Rightarrow> (nat \<Rightarrow> str result) \<Rightarrow> nat \<Rightarrow> nat \<Rightarrow> nat \<Rightarrow> SplitRawSegment list \<Rightarrow> bool" where
  "splitraw_inv resolver naming segment_size last_size logical_offset segs \<longleftrightarrow>
     layout srs_logical_offset srs_size 0 segs \<and> logical_offset = sum_list (map srs_size segs)
     \<and> logical_offset < u64_limit
     \<and> (\<forall>i < length segs. naming (i + 1) = Ok (srs_file_name (segs ! i))
          \<and> resolver (srs_file_name (segs ! i)) = Ok (Some (srs_source (segs ! i)))
          \<and> ds_size (srs_source (segs ! i)) = Ok (srs_size (segs ! i)))
     \<and> (segs = [] \<longrightarrow> segment_size = 0 \<and> last_size = 0)
     \<and> (segs \<noteq> [] \<longrightarrow> last_size = srs_size (last segs) \<and> segment_size = srs_size (hd segs))
     \<and> (\<forall>s \<in> set (butlast segs). srs_size s = segment_size)"

lemma splitraw_inv_push:
  assumes inv: "splitraw_inv resolver naming ss last_size lo segs"
    and seg: "naming (length segs + 1) = Ok name" "resolver name = Ok (Some src)" "ds_size src = Ok sz" "0 < sz"
    and same: "0 < last_size \<longrightarrow> last_size = ss" and lo: "lo + sz < u64_limit"
  shows "splitraw_inv resolver naming (if ss = 0 then sz else ss) sz (lo + sz)
    (segs @ [\<lparr>srs_file_name = name, srs_logical_offset = lo, srs_size = sz, srs_source = src\<rparr>])"
proof (cases "segs = []")
  case True
  with inv seg lo show ?thesis by (simp add: splitraw_inv_def)
next
  case False
  have pos: "0 < srs_size s" if "s \<in> set segs" for s
    using inv that layout_positive [of srs_logical_offset srs_size 0 segs s] by (simp add: splitraw_inv_def)
  have ss: "ss = srs_size (hd segs)" "last_size = srs_size (last segs)"
    using inv False by (simp_all add: splitraw_inv_def)
  with pos False have "0 < ss" "0 < last_size" by simp_all
  have all: "srs_size s = ss" if "s \<in> set segs" for s
  proof -
    from that have "s \<in> set (butlast segs @ [last segs])" using False by simp
    then show ?thesis using inv ss same \<open>0 < last_size\<close> by (auto simp: splitraw_inv_def)
  qed
  let ?new = "\<lparr>srs_file_name = name, srs_logical_offset = lo, srs_size = sz, srs_source = src\<rparr>"
  have each: "naming (i + 1) = Ok (srs_file_name ((segs @ [?new]) ! i))
      \<and> resolver (srs_file_name ((segs @ [?new]) ! i)) = Ok (Some (srs_source ((segs @ [?new]) ! i)))
      \<and> ds_size (srs_source ((segs @ [?new]) ! i)) = Ok (srs_size ((segs @ [?new]) ! i))"
    if "i < length (segs @ [?new])" for i
  proof (cases "i < length segs")
    case True
    with inv show ?thesis by (simp add: splitraw_inv_def nth_append)
  next
    case False
    with that seg show ?thesis by (simp add: less_Suc_eq nth_append)
  qed
  have "layout srs_logical_offset srs_size 0 segs" "lo = sum_list (map srs_size segs)"
    using inv by (simp_all only: splitraw_inv_def)
  then have "layout srs_logical_offset srs_size 0 (segs @ [?new])" "lo + sz = sum_list (map srs_size (segs @ [?new]))"
    using seg(4) by (simp_all add: layout_append)
  moreover have "sz = srs_size (last (segs @ [?new])) \<and> (if ss = 0 then sz else ss) = srs_size (hd (segs @ [?new]))"
    using False ss(1) \<open>0 < ss\<close> by simp
  moreover have "\<forall>s \<in> set (butlast (segs @ [?new])). srs_size s = (if ss = 0 then sz else ss)"
    using all \<open>0 < ss\<close> by simp
  ultimately show ?thesis
    unfolding splitraw_inv_def using each lo by blast
qed

lemma splitraw_read_segments_inv:
  assumes "splitraw_read_segments resolver naming fixed k ss last_size lo segs = Ok (ss', media, segs')"
    and "splitraw_inv resolver naming ss last_size lo segs" "k = length segs + 1" "fixed \<noteq> 0 \<longrightarrow> length segs \<le> fixed"
  shows "(\<exists>l. splitraw_inv resolver naming ss' l media segs')
    \<and> (if fixed = 0 then \<exists>name. naming (length segs' + 1) = Ok name \<and> resolver name = Ok None
       else length segs' = fixed)"
  using assms
proof (induction resolver naming fixed k ss last_size lo segs rule: splitraw_read_segments.induct)
  case (1 resolver naming fixed k ss last_size lo segs)
  note step = "1.prems"(1) [unfolded splitraw_read_segments.simps [of resolver naming fixed k ss last_size lo segs]]
  show ?case
  proof (cases "fixed \<noteq> 0 \<and> fixed < k")
    case True
    with step "1.prems" show ?thesis by auto
  next
    case False
    with step obtain name opened where name: "naming k = Ok name" and opened: "resolver name = Ok opened"
      by (auto simp: result_simps split: if_splits)
    show ?thesis
    proof (cases opened)
      case None
      with step False name opened "1.prems" show ?thesis by (auto split: if_splits)
    next
      case (Some src)
      from step False name opened Some have same: "\<not> (0 < last_size \<and> last_size \<noteq> ss)"
        by (auto split: if_splits)
      with step False name opened Some obtain sz where sz: "ds_size src = Ok sz" "sz \<noteq> 0"
        and off: "ok_or (Image_error Splitraw_media_size_overflow) (checked_add lo sz) = Ok (lo + sz)"
        and u16: "k + 1 < u16_limit"
        and rec: "splitraw_read_segments resolver naming fixed (k + 1) (if ss = 0 then sz else ss) sz (lo + sz)
          (segs @ [\<lparr>srs_file_name = name, srs_logical_offset = lo, srs_size = sz, srs_source = src\<rparr>])
          = Ok (ss', media, segs')"
        by (auto simp: result_simps Let_def split: if_splits)
      have "splitraw_inv resolver naming (if ss = 0 then sz else ss) sz (lo + sz)
          (segs @ [\<lparr>srs_file_name = name, srs_logical_offset = lo, srs_size = sz, srs_source = src\<rparr>])"
        using "1.prems"(2,3) name opened Some sz same off
        by (intro splitraw_inv_push) (auto simp: result_simps)
      moreover have "fixed \<noteq> 0 \<longrightarrow> length segs + 1 \<le> fixed" using False "1.prems"(3) by auto
      ultimately show ?thesis
        using "1.IH" [OF False name opened Some same sz refl refl off u16 rec] "1.prems"(3) by auto
    qed
  qed
qed

lemma splitraw_open_Ok:
  assumes "splitraw_open resolver f = Ok img"
  obtains file_name schema name first w count l where
    "f = Some file_name" "splitraw_naming_schema file_name = Some schema"
    "splitraw_parse_naming schema file_name = Ok (name, first, w, count)"
    "splitraw_inv resolver (\<lambda>k. splitraw_segment_file_name name k count schema first w)
       (sri_segment_size img) l (sri_media_size img) (sri_segments img)"
    "sri_segments img \<noteq> []"
    "if count = 0
     then \<exists>missing. splitraw_segment_file_name name (length (sri_segments img) + 1) count schema first w = Ok missing
        \<and> resolver missing = Ok None
     else length (sri_segments img) = count"
proof -
  from assms obtain file_name schema name first w count where
    names: "f = Some file_name" "splitraw_naming_schema file_name = Some schema"
      "splitraw_parse_naming schema file_name = Ok (name, first, w, count)"
    and loop: "splitraw_read_segments resolver (\<lambda>k. splitraw_segment_file_name name k count schema first w)
       count 1 0 0 0 [] = Ok (sri_segment_size img, sri_media_size img, sri_segments img)"
    and ne: "sri_segments img \<noteq> []"
    by (auto simp: splitraw_open_def result_simps split: if_splits)
  have "splitraw_inv resolver (\<lambda>k. splitraw_segment_file_name name k count schema first w) 0 0 0 []"
    by (simp add: splitraw_inv_def u64_limit_def)
  from splitraw_read_segments_inv [OF loop this] names ne that show ?thesis by auto
qed

text \<open>The logical source of an opened image is the concatenation of its segments.\<close>

lemma splitraw_open_source_Ok:
  assumes "splitraw_open resolver f = Ok img"
    and "list_all2 (\<lambda>s c. byte_source (srs_source s) c) (sri_segments img) contents"
  shows "\<exists>s. splitraw_open_source img = Ok s \<and> byte_source s (concat contents)
    \<and> length (concat contents) = sri_media_size img
    \<and> (list_all2 (\<lambda>s c. total_source (srs_source s) c) (sri_segments img) contents
        \<longrightarrow> exact_source s (concat contents))"
proof -
  obtain naming l where inv: "splitraw_inv resolver naming (sri_segment_size img) l (sri_media_size img) (sri_segments img)"
    by (rule splitraw_open_Ok [OF assms(1)]) blast
  let ?seg = "\<lambda>s. \<lparr>seg_logical_offset = srs_logical_offset s, seg_size = srs_size s,
    seg_source = srs_source s, seg_source_offset = 0\<rparr>"
  let ?segs = "map ?seg (sri_segments img)"
  have lay: "layout seg_logical_offset seg_size start (map ?seg ss) = layout srs_logical_offset srs_size start ss"
    for start and ss :: "SplitRawSegment list"
    by (induction ss arbitrary: start) simp_all
  have sizes: "sum_list (map seg_size ?segs) = sri_media_size img"
    using inv by (simp add: splitraw_inv_def comp_def)
  have whole: "list_all2 whole_segment ?segs contents"
    using assms(2) inv byte_source.size_content
    by (fastforce simp: list_all2_conv_all_nth whole_segment_def splitraw_inv_def)
  have src: "list_all2 (\<lambda>s c. P (seg_source s) c) ?segs contents \<longleftrightarrow>
      list_all2 (\<lambda>s c. P (srs_source s) c) (sri_segments img) contents" for P
    by (simp add: list_all2_conv_all_nth)
  obtain sd where "segmented_new ?segs = Ok sd" "byte_source (segmented_source sd) (concat contents)"
    "list_all2 (\<lambda>s c. total_source (srs_source s) c) (sri_segments img) contents
         \<longrightarrow> exact_source (segmented_source sd) (concat contents)"
    using whole_segments [of ?segs contents] lay sizes whole src [of byte_source] src [of total_source] assms(2) inv
    by (auto simp: splitraw_inv_def)
  moreover have "map length contents = map srs_size (sri_segments img)"
    using whole by (auto simp: list_all2_conv_all_nth whole_segment_def intro: nth_equalityI)
  then have "length (concat contents) = sri_media_size img"
    using inv by (simp add: length_concat splitraw_inv_def)
  ultimately show ?thesis by (auto simp: splitraw_open_source_def)
qed

section \<open>An image of two segments\<close>

definition split_sample :: resolver where
  "split_sample name =
     Ok (if name = lit ''a.1'' then Some (memory_source (memory_new [1, 2]))
         else if name = lit ''a.2'' then Some (memory_source (memory_new [3])) else None)"

definition split_sample_image :: SplitRawImage where
  "split_sample_image =
     \<lparr>sri_segment_size = 2,
      sri_segments =
        [\<lparr>srs_file_name = lit ''a.1'', srs_logical_offset = 0, srs_size = 2,
          srs_source = memory_source (memory_new [1, 2])\<rparr>,
         \<lparr>srs_file_name = lit ''a.2'', srs_logical_offset = 2, srs_size = 1,
          srs_source = memory_source (memory_new [3])\<rparr>],
      sri_media_size = 3\<rparr>"

lemma split_sample_naming:
  "splitraw_naming_schema (lit ''a.1'') = Some Numeric"
  "splitraw_parse_naming Numeric (lit ''a.1'') = Ok (lit ''a.'', 1, 1, 0)"
  by (simp_all add: splitraw_naming_schema_def splitraw_parse_naming_def str_rfind_def occurrences_def lit_def upt_rec
      ends_with_def trailing_def)

lemma numeric_name:
  "n < 10 \<Longrightarrow> splitraw_segment_file_name name (Suc n) 0 Numeric 1 1 =
     (if n = 9 then Err (Image_error Splitraw_suffix_exceeds_size) else Ok (name @ [of_nat (49 + n)]))"
  by (simp add: splitraw_segment_file_name_def splitraw_suffix_def suffix_digits.simps [of 48 10 "Suc n"]
      suffix_digits.simps [of 48 10 "Suc n div 10"] suffix_digits.simps [of 48 10 "Suc n div 10 div 10"] Let_def add.commute)

text \<open>One iteration of the loop on an image without a fixed number of segments.\<close>

lemma splitraw_read_next:
  assumes "naming k = Ok name" "resolver name = Ok (Some src)" "ds_size src = Ok sz" "0 < sz"
    and "last_size = 0 \<or> last_size = ss" "lo + sz < u64_limit" "Suc k < u16_limit"
  shows "splitraw_read_segments resolver naming 0 k ss last_size lo segs =
    splitraw_read_segments resolver naming 0 (Suc k) (if ss = 0 then sz else ss) sz (lo + sz)
      (segs @ [\<lparr>srs_file_name = name, srs_logical_offset = lo, srs_size = sz, srs_source = src\<rparr>])"
  using assms by (subst splitraw_read_segments.simps) (auto simp: checked_add_def Let_def)

lemma splitraw_read_end:
  "naming k = Ok name \<Longrightarrow> resolver name = Ok None \<Longrightarrow>
     splitraw_read_segments resolver naming 0 k ss last_size lo segs = Ok (ss, lo, segs)"
  "naming k = Err e \<Longrightarrow> splitraw_read_segments resolver naming 0 k ss last_size lo segs = Err e"
  by (subst splitraw_read_segments.simps; simp)+

lemma split_sample_open: "splitraw_open split_sample (Some (lit ''a.1'')) = Ok split_sample_image"
proof -
  define naming where "naming = (\<lambda>k. splitraw_segment_file_name (lit ''a.'') k 0 Numeric 1 1)"
  have "naming (Suc 0) = Ok (lit ''a.1'')" "naming (Suc (Suc 0)) = Ok (lit ''a.2'')" "naming (Suc (Suc (Suc 0))) = Ok (lit ''a.3'')"
    using numeric_name [of 0 "lit ''a.''"] numeric_name [of 1 "lit ''a.''"] numeric_name [of 2 "lit ''a.''"]
    by (simp_all add: naming_def lit_def numeral_eq_Suc)
  moreover have "lit ''a.2'' \<noteq> lit ''a.1''" "lit ''a.3'' \<noteq> lit ''a.1''" "lit ''a.3'' \<noteq> lit ''a.2''"
    by (simp_all add: lit_def)
  ultimately have "splitraw_read_segments split_sample naming 0 (Suc 0) 0 0 0 [] = Ok (2, 3, sri_segments split_sample_image)"
    by (simp add: splitraw_read_next splitraw_read_end split_sample_def memory_size u64_limit_def u16_limit_def
        split_sample_image_def)
  then show ?thesis
    by (simp add: splitraw_open_def split_sample_naming naming_def split_sample_image_def)
qed

lemma split_sample_contents:
  "list_all2 (\<lambda>s c. byte_source (srs_source s) c) (sri_segments split_sample_image) [[1, 2], [3]]"
  by (simp add: split_sample_image_def memory_sources u64_limit_def)

section \<open>Properties\<close>

text \<open>
  (C33) The logical source of an opened split image is the concatenation of its segment files.  These are the
  files that the resolver has under the names of the numbers 1, 2 and so on, which the naming schema counts up from the
  name the image was opened with (or puts before \<open>of\<close>), until there is no file of the next number or all the files are
  there that the name announces; all but the last one have the size of the first.
\<close>

theorem splitraw_is_concatenation:
  assumes "splitraw_open resolver f = Ok img"
    and "list_all2 (\<lambda>s c. byte_source (srs_source s) c) (sri_segments img) contents"
  shows "(\<exists>s. splitraw_open_source img = Ok s \<and> byte_source s (concat contents)
      \<and> (list_all2 (\<lambda>s c. total_source (srs_source s) c) (sri_segments img) contents
          \<longrightarrow> exact_source s (concat contents)))
    \<and> sri_segments img \<noteq> [] \<and> (\<forall>s \<in> set (butlast (sri_segments img)). srs_size s = sri_segment_size img)
    \<and> (\<exists>file_name schema. f = Some file_name \<and> splitraw_naming_schema file_name = Some schema
        \<and> (\<forall>i < length (sri_segments img). splitraw_numbered schema file_name (i + 1) (srs_file_name (sri_segments img ! i))
             \<and> resolver (srs_file_name (sri_segments img ! i)) = Ok (Some (srs_source (sri_segments img ! i))))
        \<and> ((\<exists>missing. splitraw_numbered schema file_name (length (sri_segments img) + 1) missing \<and> resolver missing = Ok None)
           \<or> schema = XOfN \<and> (\<exists>stem number. file_name = stem @ lit ''1of'' @ number
                \<and> parse_unsigned u16_limit number = Some (length (sri_segments img)))))"
proof -
  obtain file_name schema name first w count l where
    f: "f = Some file_name" "splitraw_naming_schema file_name = Some schema"
      "splitraw_parse_naming schema file_name = Ok (name, first, w, count)"
    and inv: "splitraw_inv resolver (\<lambda>k. splitraw_segment_file_name name k count schema first w)
       (sri_segment_size img) l (sri_media_size img) (sri_segments img)"
    and ne: "sri_segments img \<noteq> []"
    and last: "if count = 0
     then \<exists>missing. splitraw_segment_file_name name (length (sri_segments img) + 1) count schema first w = Ok missing
        \<and> resolver missing = Ok None
     else length (sri_segments img) = count"
    using assms(1) by (rule splitraw_open_Ok)
  note names = splitraw_names_numbered [OF f(3)]
  have each: "splitraw_numbered schema file_name (i + 1) (srs_file_name (sri_segments img ! i))
      \<and> resolver (srs_file_name (sri_segments img ! i)) = Ok (Some (srs_source (sri_segments img ! i)))"
    if "i < length (sri_segments img)" for i
    using inv that names(1) by (auto simp: splitraw_inv_def)
  have first_name: "splitraw_segment_file_name name (0 + 1) count schema first w = Ok (srs_file_name (sri_segments img ! 0))"
    using inv ne by (auto simp: splitraw_inv_def)
  have stop: "(\<exists>missing. splitraw_numbered schema file_name (length (sri_segments img) + 1) missing \<and> resolver missing = Ok None)
     \<or> schema = XOfN \<and> (\<exists>stem number. file_name = stem @ lit ''1of'' @ number
          \<and> parse_unsigned u16_limit number = Some (length (sri_segments img)))"
    using last names names(2,3) [OF first_name] by (cases "count = 0") auto
  have "\<forall>s \<in> set (butlast (sri_segments img)). srs_size s = sri_segment_size img" using inv by (simp add: splitraw_inv_def)
  then show ?thesis using splitraw_open_source_Ok [OF assms] f each ne stop by blast
qed

theorem splitraw_is_concatenation_witness:
  "splitraw_open split_sample (Some (lit ''a.1'')) = Ok split_sample_image
   \<and> (\<exists>s. splitraw_open_source split_sample_image = Ok s \<and> byte_source s [1, 2, 3])"
  using splitraw_is_concatenation [OF split_sample_open split_sample_contents] split_sample_open by auto

text \<open>
  Segments are never confused: two segment numbers of one image have different file names, and
  the schemas that count give the first segment the name the image was opened with.
\<close>

theorem splitraw_names_identify:
  assumes "splitraw_parse_naming schema f = Ok (name, first, w, count)"
  shows "(schema \<noteq> XOfN \<longrightarrow> splitraw_segment_file_name name 1 count schema first w = Ok f)
    \<and> (splitraw_segment_file_name name n count schema first w = Ok s
       \<longrightarrow> splitraw_segment_file_name name m count schema first w = Ok s \<longrightarrow> n = m)"
  using splitraw_first_name [OF assms] splitraw_names_inj by blast

theorem splitraw_names_identify_witness:
  "splitraw_segment_file_name (lit ''a.'') 1 0 Numeric 1 1 = Ok (lit ''a.1'')
   \<and> splitraw_segment_file_name (lit ''a.'') 2 0 Numeric 1 1 \<noteq> Ok (lit ''a.1'')"
  using splitraw_names_identify [OF split_sample_naming(2), of 2 "lit ''a.1''" 1]
    splitraw_names_identify [OF split_sample_naming(2), of 1 "lit ''a.1''" 1] by auto

text \<open>
  An image whose segments use up all the suffixes cannot be opened: with a one-digit suffix and
  the nine segments \<open>a.1\<close> to \<open>a.9\<close> the loop asks for the name of a tenth one and fails, instead of
  ending.
\<close>

theorem splitraw_full_suffix_fails:
  "splitraw_open (\<lambda>name. Ok (if name \<in> {lit ''a.1'', lit ''a.2'', lit ''a.3'', lit ''a.4'', lit ''a.5'', lit ''a.6'',
       lit ''a.7'', lit ''a.8'', lit ''a.9''} then Some (memory_source (memory_new [0])) else None))
     (Some (lit ''a.1'')) = Err (Image_error Splitraw_suffix_exceeds_size)"
  (is "splitraw_open ?r _ = _")
proof -
  define naming where "naming = (\<lambda>k. splitraw_segment_file_name (lit ''a.'') k 0 Numeric 1 1)"
  have name: "naming (Suc n) = Ok (lit ''a.'' @ [of_nat (49 + n)])" if "n < 9" for n
    using numeric_name [of n "lit ''a.''"] that by (simp add: naming_def)
  have opens: "?r (lit ''a.'' @ [of_nat (49 + n)]) = Ok (Some (memory_source (memory_new [0])))" if "n < 9" for n
  proof -
    have "n \<in> {0, 1, 2, 3, 4, 5, 6, 7, 8}" using that by auto
    then show ?thesis by (auto simp: lit_def)
  qed
  have stop: "naming (Suc 9) = Err (Image_error Splitraw_suffix_exceeds_size)"
    using numeric_name [of 9] by (simp add: naming_def)
  have "splitraw_read_segments ?r naming 0 (Suc n) ss last_size n segs = Err (Image_error Splitraw_suffix_exceeds_size)"
    if "n \<le> 9" "(ss, last_size) \<in> {(0, 0), (1, 1)}" for n ss last_size segs
    using that
  proof (induction "9 - n" arbitrary: n ss last_size segs)
    case 0
    then have "n = 9" by simp
    then show ?case using splitraw_read_end(2) [of naming "Suc 9", OF stop] by simp
  next
    case (Suc k)
    then have n: "n < 9" by simp
    have "splitraw_read_segments ?r naming 0 (Suc n) ss last_size n segs =
      splitraw_read_segments ?r naming 0 (Suc (Suc n)) (if ss = 0 then 1 else ss) 1 (n + 1)
        (segs @ [\<lparr>srs_file_name = lit ''a.'' @ [of_nat (49 + n)], srs_logical_offset = n, srs_size = 1,
                  srs_source = memory_source (memory_new [0])\<rparr>])"
      using Suc.prems(2) n
      by (intro splitraw_read_next name opens) (auto simp: memory_size u64_limit_def u16_limit_def)
    also have "\<dots> = Err (Image_error Splitraw_suffix_exceeds_size)"
      using Suc.hyps(1) [of "Suc n" "if ss = 0 then 1 else ss" 1] Suc.hyps(2) Suc.prems n by auto
    finally show ?case .
  qed
  from this [of 0 0 0] show ?thesis
    by (simp add: splitraw_open_def split_sample_naming naming_def)
qed

end
