(* ===== verification/Sparse_Bundle.thy ===== *)
theory Sparse_Bundle
  imports Extent_Map Resolver
begin

text \<open>
  Sparse bundle images (\<open>image/sparsebundle/mod.rs\<close>): the information property list, the band files
  and the logical source.  The lemmas show that the logical source of an opened bundle has the
  media size and consists of the bands in order, each band file followed by zeros up to the size
  of its band.
\<close>

section \<open>The property list\<close>

record SparseBundleInfoPlist =
  sbi_band_size :: nat
  sbi_media_size :: nat

definition extract_plist_value :: "str \<Rightarrow> str \<Rightarrow> str \<Rightarrow> str option" where
  "extract_plist_value data key value_tag =
     (let key_marker = lit ''<key>'' @ key @ lit ''</key>'';
          value_start_marker = lit ''<'' @ value_tag @ lit ''>'';
          value_end_marker = lit ''</'' @ value_tag @ lit ''>''
      in Option.bind (str_find key_marker data) (\<lambda>key_index.
         let key_offset = key_index + length key_marker in
         Option.bind (str_find value_start_marker (drop key_offset data)) (\<lambda>start_index.
         let value_start_offset = start_index + key_offset + length value_start_marker in
         Option.bind (str_find value_end_marker (drop value_start_offset data)) (\<lambda>end_index.
           Some (str_trim (subslice value_start_offset end_index data))))))"

definition sparsebundle_parse :: "str \<Rightarrow> SparseBundleInfoPlist result" where
  "sparsebundle_parse data =
     and_then (ok_or (Image_error Sparsebundle_no_dictionary_version)
                (extract_plist_value data (lit ''CFBundleInfoDictionaryVersion'') (lit ''string'')))
       (\<lambda>dictionary_version.
     if dictionary_version \<noteq> lit ''6.0'' then Err (Image_error Sparsebundle_dictionary_version)
     else
     and_then (ok_or (Image_error Sparsebundle_no_bundle_type)
                (extract_plist_value data (lit ''diskimage-bundle-type'') (lit ''string''))) (\<lambda>bundle_type.
     if bundle_type \<noteq> lit ''com.apple.diskimage.sparsebundle'' then Err (Image_error Sparsebundle_bundle_type)
     else
     and_then (ok_or (Image_error Sparsebundle_no_band_size)
                (extract_plist_value data (lit ''band-size'') (lit ''integer''))) (\<lambda>band_size_string.
     and_then (ok_or (Image_error Sparsebundle_parse_band_size) (parse_unsigned u32_limit band_size_string))
       (\<lambda>band_size.
     if band_size = 0 then Err (Image_error Sparsebundle_zero_band_size)
     else
     and_then (ok_or (Image_error Sparsebundle_no_size)
                (extract_plist_value data (lit ''size'') (lit ''integer''))) (\<lambda>media_size_string.
     and_then (ok_or (Image_error Sparsebundle_parse_size) (parse_unsigned u64_limit media_size_string))
       (\<lambda>media_size.
     if media_size = 0 then Err (Image_error Sparsebundle_zero_size)
     else Ok \<lparr>sbi_band_size = band_size, sbi_media_size = media_size\<rparr>))))))"

definition sparsebundle_read_info_plist_by_name :: "resolver \<Rightarrow> str \<Rightarrow> SparseBundleInfoPlist result" where
  "sparsebundle_read_info_plist_by_name resolver file_name =
     and_then (resolver file_name) (\<lambda>opened.
     and_then (ok_or (Image_error Sparsebundle_missing_file) opened) (\<lambda>source.
     and_then (ds_size source) (\<lambda>plist_size.
       if plist_size = 0 \<or> 65536 < plist_size then Err (Image_error Sparsebundle_plist_size)
       else
         and_then (read_all source) (\<lambda>data.
         and_then (ok_or (Image_error Sparsebundle_plist_utf8) (from_utf8 data)) (\<lambda>string.
           sparsebundle_parse string)))))"

definition sparsebundle_read_info_plist :: "resolver \<Rightarrow> SparseBundleInfoPlist result" where
  "sparsebundle_read_info_plist resolver =
     open_first (sparsebundle_read_info_plist_by_name resolver) (Image_error Sparsebundle_unreadable_plist)
       [lit ''Info.plist'', lit ''Info.bckup'']"

section \<open>SparseBundleImage\<close>

record SparseBundleBand =
  sbb_file_name :: str
  sbb_logical_offset :: nat
  sbb_logical_size :: nat
  sbb_source :: "data_source option"
  sbb_source_size :: nat

record SparseBundleImage =
  sb_band_size :: nat
  sb_media_size :: nat
  sb_bands :: "SparseBundleBand list"

text \<open>One iteration of the loop over the bands.\<close>

definition sparsebundle_open_band :: "resolver \<Rightarrow> SparseBundleInfoPlist \<Rightarrow> nat \<Rightarrow> SparseBundleBand result" where
  "sparsebundle_open_band resolver info_plist band_index =
     and_then (mul_u64 band_index (sbi_band_size info_plist)) (\<lambda>logical_offset.
     and_then (sub_u64 (sbi_media_size info_plist) logical_offset) (\<lambda>remaining.
     let logical_size = min remaining (sbi_band_size info_plist);
         file_name = lit ''bands/'' @ hex_digits band_index in
     and_then (resolver file_name) (\<lambda>source.
     and_then (case source of Some source \<Rightarrow> ds_size source | None \<Rightarrow> Ok 0) (\<lambda>band_source_size.
       if source \<noteq> None \<and> band_source_size = 0 then Err (Image_error Sparsebundle_zero_sized_band)
       else if logical_size < band_source_size then Err (Image_error Sparsebundle_band_exceeds_size)
       else Ok \<lparr>sbb_file_name = file_name, sbb_logical_offset = logical_offset,
                sbb_logical_size = logical_size, sbb_source = source, sbb_source_size = band_source_size\<rparr>))))"

definition sparsebundle_open :: "resolver \<Rightarrow> SparseBundleImage result" where
  "sparsebundle_open resolver =
     and_then (sparsebundle_read_info_plist resolver) (\<lambda>info_plist.
     let band_count = div_ceil (sbi_media_size info_plist) (sbi_band_size info_plist) in
     and_then (try_map (sparsebundle_open_band resolver info_plist) [0..<band_count]) (\<lambda>bands.
       Ok \<lparr>sb_band_size = sbi_band_size info_plist, sb_media_size = sbi_media_size info_plist,
           sb_bands = bands\<rparr>))"

text \<open>The extents a band adds.\<close>

definition sparsebundle_band_extents :: "SparseBundleBand \<Rightarrow> ExtentMapEntry list result" where
  "sparsebundle_band_extents band =
     (case sbb_source band of
        Some source \<Rightarrow>
          (let data = \<lparr>ext_logical_offset = sbb_logical_offset band, ext_size = sbb_source_size band,
                       ext_target = ExtentData source 0\<rparr>
           in if sbb_source_size band < sbb_logical_size band then
                and_then (add_u64 (sbb_logical_offset band) (sbb_source_size band)) (\<lambda>rest_offset.
                  Ok [data, \<lparr>ext_logical_offset = rest_offset,
                             ext_size = sbb_logical_size band - sbb_source_size band,
                             ext_target = ExtentZero\<rparr>])
              else Ok [data])
      | None \<Rightarrow>
          Ok [\<lparr>ext_logical_offset = sbb_logical_offset band, ext_size = sbb_logical_size band,
               ext_target = ExtentZero\<rparr>])"

definition sparsebundle_open_source :: "SparseBundleImage \<Rightarrow> data_source result" where
  "sparsebundle_open_source img =
     and_then (try_map sparsebundle_band_extents (sb_bands img)) (\<lambda>extents.
     and_then (extent_map_new (concat extents)) (\<lambda>em. Ok (extent_map_source em)))"

section \<open>The logical disk\<close>

text \<open>The bytes of a band, given the contents of the band files.\<close>

definition band_content :: "(data_source \<Rightarrow> byte list) \<Rightarrow> SparseBundleBand \<Rightarrow> byte list" where
  "band_content files band =
     (case sbb_source band of
        Some source \<Rightarrow> files source @ replicate (sbb_logical_size band - length (files source)) 0
      | None \<Rightarrow> replicate (sbb_logical_size band) 0)"

definition target_content :: "(data_source \<Rightarrow> byte list) \<Rightarrow> ExtentMapEntry \<Rightarrow> byte list" where
  "target_content files e = (case ext_target e of ExtentData source _ \<Rightarrow> files source | ExtentZero \<Rightarrow> [])"

text \<open>A band as the loop leaves it.\<close>

definition band_ok :: "SparseBundleBand \<Rightarrow> bool" where
  "band_ok band \<longleftrightarrow>
     0 < sbb_logical_size band \<and> sbb_source_size band \<le> sbb_logical_size band
     \<and> sbb_logical_offset band + sbb_logical_size band < u64_limit
     \<and> (\<forall>source. sbb_source band = Some source \<longrightarrow>
          ds_size source = Ok (sbb_source_size band) \<and> 0 < sbb_source_size band)"

lemma band_extents_Ok:
  assumes "band_ok band"
  shows "\<exists>es. sparsebundle_band_extents band = Ok es
    \<and> layout ext_logical_offset ext_size (sbb_logical_offset band) es
    \<and> sum_list (map ext_size es) = sbb_logical_size band
    \<and> (\<forall>files P. (\<forall>source. sbb_source band = Some source \<longrightarrow> byte_source source (files source) \<and> P source (files source))
         \<longrightarrow> extents_content (target_content files) es = band_content files band
           \<and> (\<forall>e \<in> set es. extent_backed P e (target_content files e)))"
proof (cases "sbb_source band")
  case None
  with assms show ?thesis
    by (auto simp: sparsebundle_band_extents_def band_ok_def band_content_def extent_content_def
        extent_backed_def)
next
  case (Some source)
  with assms have sz: "ds_size source = Ok (sbb_source_size band)" "0 < sbb_source_size band"
    "sbb_source_size band \<le> sbb_logical_size band"
    "sbb_logical_offset band + sbb_source_size band < u64_limit"
    by (auto simp: band_ok_def)
  have len: "length (files source) = sbb_source_size band" if "byte_source source (files source)" for files
    using byte_source.size_content [OF that] sz(1) by simp
  show ?thesis
  proof (cases "sbb_source_size band < sbb_logical_size band")
    case True
    with Some sz len show ?thesis
      by (auto simp: sparsebundle_band_extents_def band_content_def extent_content_def target_content_def
          extent_backed_def add_u64_def slice_all)
  next
    case False
    with Some sz len show ?thesis
      by (auto simp: sparsebundle_band_extents_def band_content_def extent_content_def target_content_def
          extent_backed_def slice_all)
  qed
qed

text \<open>Bands laid end to end give extents laid end to end.\<close>

lemma bands_extents_Ok:
  assumes "\<forall>band \<in> set bands. band_ok band" "layout sbb_logical_offset sbb_logical_size start bands"
  shows "\<exists>ess. try_map sparsebundle_band_extents bands = Ok ess
    \<and> layout ext_logical_offset ext_size start (concat ess)
    \<and> sum_list (map ext_size (concat ess)) = sum_list (map sbb_logical_size bands)
    \<and> (\<forall>files P. (\<forall>band \<in> set bands. \<forall>source. sbb_source band = Some source
            \<longrightarrow> byte_source source (files source) \<and> P source (files source))
         \<longrightarrow> extents_content (target_content files) (concat ess) = concat (map (band_content files) bands)
           \<and> (\<forall>e \<in> set (concat ess). extent_backed P e (target_content files e)))"
  using assms
proof (induction bands arbitrary: start)
  case (Cons band bands)
  from Cons.prems have start: "sbb_logical_offset band = start"
    and rest: "layout sbb_logical_offset sbb_logical_size (start + sbb_logical_size band) bands" by auto
  from Cons.prems(1) band_extents_Ok obtain es where es: "sparsebundle_band_extents band = Ok es"
    "layout ext_logical_offset ext_size start es" "sum_list (map ext_size es) = sbb_logical_size band"
    and bytes: "\<And>files P. (\<forall>source. sbb_source band = Some source \<longrightarrow> byte_source source (files source) \<and> P source (files source))
         \<Longrightarrow> extents_content (target_content files) es = band_content files band
           \<and> (\<forall>e \<in> set es. extent_backed P e (target_content files e))"
    unfolding start [symmetric] by (metis list.set_intros(1))
  from Cons.IH [OF _ rest] Cons.prems(1) obtain ess where ess: "try_map sparsebundle_band_extents bands = Ok ess"
    "layout ext_logical_offset ext_size (start + sbb_logical_size band) (concat ess)"
    "sum_list (map ext_size (concat ess)) = sum_list (map sbb_logical_size bands)"
    and bytes': "\<And>files P. (\<forall>band \<in> set bands. \<forall>source. sbb_source band = Some source
            \<longrightarrow> byte_source source (files source) \<and> P source (files source))
         \<Longrightarrow> extents_content (target_content files) (concat ess) = concat (map (band_content files) bands)
           \<and> (\<forall>e \<in> set (concat ess). extent_backed P e (target_content files e))"
    by (metis list.set_intros(2))
  have "extents_content (target_content files) (es @ concat ess) = band_content files band @ concat (map (band_content files) bands)
      \<and> (\<forall>e \<in> set (es @ concat ess). extent_backed P e (target_content files e))"
    if "\<forall>b \<in> set (band # bands). \<forall>source. sbb_source b = Some source
      \<longrightarrow> byte_source source (files source) \<and> P source (files source)" for files P
    using bytes [of files P] bytes' [of files P] that by auto
  with es ess show ?case
    by (intro exI [of _ "es # ess"] conjI allI impI) (simp_all add: layout_append)
qed simp

lemma bands_layout:
  assumes "list_all2 (\<lambda>i b. sbb_logical_offset b = i * bs \<and> sbb_logical_size b = min (media - i * bs) bs) [k..<n] bands"
    and "n = div_ceil media bs" "0 < bs" "k < n"
  shows "layout sbb_logical_offset sbb_logical_size (k * bs) bands
    \<and> k * bs + sum_list (map sbb_logical_size bands) = media"
  using assms(1,4)
proof (induction "n - k" arbitrary: k bands)
  case (Suc d)
  have media: "media \<le> n * bs" "(n - 1) * bs < media"
    using assms(2,3) div_ceil_bounds [of bs media] Suc.prems(2)
    by (cases "media = 0"; simp add: div_ceil_def)+
  have k: "k * bs \<le> (n - 1) * bs" using Suc.prems(2) by (intro mult_le_mono1) simp
  from Suc.prems obtain b bands' where bands: "bands = b # bands'"
    and b: "sbb_logical_offset b = k * bs" "sbb_logical_size b = min (media - k * bs) bs"
    and rest: "list_all2 (\<lambda>i b. sbb_logical_offset b = i * bs \<and> sbb_logical_size b = min (media - i * bs) bs)
      [Suc k..<n] bands'"
    by (auto simp: upt_conv_Cons list_all2_Cons1)
  show ?case
  proof (cases "Suc k < n")
    case True
    have "Suc k * bs \<le> (n - 1) * bs" using True by (intro mult_le_mono1) simp
    with media have size: "sbb_logical_size b = bs" using b(2) by simp
    have "layout sbb_logical_offset sbb_logical_size (k * bs + bs) bands'"
      "k * bs + bs + sum_list (map sbb_logical_size bands') = media"
      using Suc.hyps(1) [OF _ rest True] Suc.hyps(2) by (simp_all add: add.commute [of bs])
    with size b(1) assms(3) show ?thesis by (simp add: bands add.assoc)
  next
    case False
    with Suc.prems(2) have "n = Suc k" by simp
    with rest media k b bands assms(3) show ?thesis by auto
  qed
qed simp

lemma parse_digits_limit: "parse_digits value radix limit acc s = Some n \<Longrightarrow> acc < limit \<Longrightarrow> n < limit"
  by (induction s arbitrary: acc) (auto split: option.splits if_splits)

lemma parse_unsigned_limit: "parse_unsigned limit s = Some n \<Longrightarrow> 0 < limit \<Longrightarrow> n < limit"
  by (auto simp: parse_unsigned_def from_str_radix_def split: list.splits if_splits dest: parse_digits_limit
      simp del: parse_digits.simps)

lemma sparsebundle_parse_Ok:
  "sparsebundle_parse data = Ok info \<Longrightarrow>
     0 < sbi_band_size info \<and> sbi_band_size info < u32_limit \<and> 0 < sbi_media_size info \<and> sbi_media_size info < u64_limit"
  by (auto simp: sparsebundle_parse_def result_simps u32_limit_def u64_limit_def split: if_splits
      dest: parse_unsigned_limit)

lemma sparsebundle_info_Ok:
  assumes "sparsebundle_read_info_plist resolver = Ok info"
  shows "0 < sbi_band_size info \<and> 0 < sbi_media_size info \<and> sbi_media_size info < u64_limit"
  using open_first_Ok [OF assms [unfolded sparsebundle_read_info_plist_def]]
  by (auto simp: sparsebundle_read_info_plist_by_name_def result_simps split: if_splits
      dest!: sparsebundle_parse_Ok)

text \<open>The bands of an opened bundle.\<close>

lemma sparsebundle_open_band_Ok:
  assumes "sparsebundle_open_band resolver info i = Ok b"
    and "0 < sbi_band_size info" "sbi_media_size info < u64_limit" "i * sbi_band_size info < sbi_media_size info"
  shows "band_ok b \<and> sbb_logical_offset b = i * sbi_band_size info
    \<and> sbb_logical_size b = min (sbi_media_size info - i * sbi_band_size info) (sbi_band_size info)
    \<and> sbb_file_name b = lit ''bands/'' @ hex_digits i \<and> resolver (lit ''bands/'' @ hex_digits i) = Ok (sbb_source b)"
  using assms
  by (cases "sbb_source b")
    (auto simp: sparsebundle_open_band_def band_ok_def result_simps Let_def min_def split: if_splits)

lemma sparsebundle_open_Ok:
  assumes "sparsebundle_open resolver = Ok img"
  shows "0 < sb_band_size img \<and> 0 < sb_media_size img \<and> sb_media_size img < u64_limit
    \<and> length (sb_bands img) = div_ceil (sb_media_size img) (sb_band_size img)
    \<and> (\<forall>b \<in> set (sb_bands img). band_ok b)
    \<and> layout sbb_logical_offset sbb_logical_size 0 (sb_bands img)
    \<and> sum_list (map sbb_logical_size (sb_bands img)) = sb_media_size img
    \<and> (\<forall>i < length (sb_bands img). resolver (lit ''bands/'' @ hex_digits i) = Ok (sbb_source (sb_bands img ! i)))"
proof -
  from assms obtain info where info: "sparsebundle_read_info_plist resolver = Ok info"
    and bands: "list_all2 (\<lambda>i b. sparsebundle_open_band resolver info i = Ok b)
      [0..<div_ceil (sbi_media_size info) (sbi_band_size info)] (sb_bands img)"
    and img: "sb_band_size img = sbi_band_size info" "sb_media_size img = sbi_media_size info"
    by (auto simp: sparsebundle_open_def result_simps Let_def try_map_Ok)
  let ?n = "div_ceil (sbi_media_size info) (sbi_band_size info)"
  note pos = sparsebundle_info_Ok [OF info]
  have len: "length (sb_bands img) = ?n" using list_all2_lengthD [OF bands] by simp
  have lt: "i * sbi_band_size info < sbi_media_size info" if "i < ?n" for i
  proof -
    have "i * sbi_band_size info \<le> (?n - 1) * sbi_band_size info" using that by (intro mult_le_mono1) simp
    also have "\<dots> < sbi_media_size info" using pos by (intro div_ceil_bounds) simp_all
    finally show ?thesis .
  qed
  have each: "list_all2 (\<lambda>i b. band_ok b \<and> sbb_logical_offset b = i * sbi_band_size info
    \<and> sbb_logical_size b = min (sbi_media_size info - i * sbi_band_size info) (sbi_band_size info)
    \<and> sbb_file_name b = lit ''bands/'' @ hex_digits i \<and> resolver (lit ''bands/'' @ hex_digits i) = Ok (sbb_source b))
    [0..<?n] (sb_bands img)"
    unfolding list_all2_conv_all_nth
  proof (intro conjI [OF _ allI] impI)
    fix i
    assume "i < length [0..<?n]"
    then have "i < ?n" "sparsebundle_open_band resolver info i = Ok (sb_bands img ! i)"
      using bands by (simp_all add: list_all2_conv_all_nth)
    with sparsebundle_open_band_Ok [OF this(2)] pos lt [OF this(1)]
    show "band_ok (sb_bands img ! i) \<and> sbb_logical_offset (sb_bands img ! i) = [0..<?n] ! i * sbi_band_size info
      \<and> sbb_logical_size (sb_bands img ! i)
          = min (sbi_media_size info - [0..<?n] ! i * sbi_band_size info) (sbi_band_size info)
      \<and> sbb_file_name (sb_bands img ! i) = lit ''bands/'' @ hex_digits ([0..<?n] ! i)
      \<and> resolver (lit ''bands/'' @ hex_digits ([0..<?n] ! i)) = Ok (sbb_source (sb_bands img ! i))"
      by simp
  qed (simp add: len)
  have "0 < ?n" using pos by (cases "sbi_media_size info < sbi_band_size info") (auto simp: div_ceil_def div_greater_zero_iff)
  moreover from each have "list_all2 (\<lambda>i b. sbb_logical_offset b = i * sbi_band_size info
      \<and> sbb_logical_size b = min (sbi_media_size info - i * sbi_band_size info) (sbi_band_size info))
      [0..<?n] (sb_bands img)"
    by (rule list_all2_mono) blast
  ultimately have "layout sbb_logical_offset sbb_logical_size 0 (sb_bands img)
      \<and> sum_list (map sbb_logical_size (sb_bands img)) = sbi_media_size info"
    using bands_layout [of "sbi_band_size info" "sbi_media_size info" 0 ?n "sb_bands img"] pos by simp
  with each pos len img show ?thesis
    by (auto simp: list_all2_conv_all_nth in_set_conv_nth)
qed

lemma sparsebundle_open_source_Ok:
  assumes "sparsebundle_open resolver = Ok img"
  shows "\<exists>s. sparsebundle_open_source img = Ok s \<and> ds_size s = Ok (sb_media_size img)
    \<and> (\<forall>files. (\<forall>b \<in> set (sb_bands img). \<forall>source. sbb_source b = Some source \<longrightarrow> byte_source source (files source))
         \<longrightarrow> byte_source s (concat (map (band_content files) (sb_bands img))))
    \<and> (\<forall>files. (\<forall>b \<in> set (sb_bands img). \<forall>source. sbb_source b = Some source \<longrightarrow> total_source source (files source))
         \<longrightarrow> exact_source s (concat (map (band_content files) (sb_bands img))))"
proof -
  note ok = sparsebundle_open_Ok [OF assms]
  obtain ess where ess: "try_map sparsebundle_band_extents (sb_bands img) = Ok ess"
    "layout ext_logical_offset ext_size 0 (concat ess)" "sum_list (map ext_size (concat ess)) = sb_media_size img"
    and bytes: "\<And>files P. (\<forall>band \<in> set (sb_bands img). \<forall>source. sbb_source band = Some source
            \<longrightarrow> byte_source source (files source) \<and> P source (files source))
         \<Longrightarrow> extents_content (target_content files) (concat ess) = concat (map (band_content files) (sb_bands img))
           \<and> (\<forall>e \<in> set (concat ess). extent_backed P e (target_content files e))"
    using bands_extents_Ok [of "sb_bands img" 0] ok by metis
  obtain em where em: "extent_map_new (concat ess) = Ok em" "em_size em = sb_media_size img"
    using extent_map_new_layout [OF ess(2)] ess(3) ok by auto
  have "byte_source (extent_map_source em) (concat (map (band_content files) (sb_bands img)))"
    if "\<forall>b \<in> set (sb_bands img). \<forall>source. sbb_source b = Some source \<longrightarrow> byte_source source (files source)" for files
    using bytes [of files byte_source] extent_map_byte_source [OF em(1), of "target_content files"] that by auto
  moreover have "exact_source (extent_map_source em) (concat (map (band_content files) (sb_bands img)))"
    if "\<forall>b \<in> set (sb_bands img). \<forall>source. sbb_source b = Some source \<longrightarrow> total_source source (files source)" for files
  proof -
    have "\<forall>b \<in> set (sb_bands img). \<forall>source. sbb_source b = Some source
        \<longrightarrow> byte_source source (files source) \<and> total_source source (files source)"
      using that total_source.axioms(1) by blast
    from bytes [of files total_source, OF this] extent_map_exact_source [OF em(1), of "target_content files"] show ?thesis by simp
  qed
  moreover have "sparsebundle_open_source img = Ok (extent_map_source em)"
    using ess(1) em(1) by (simp add: sparsebundle_open_source_def)
  moreover have "ds_size (extent_map_source em) = Ok (sb_media_size img)"
    using em(2) by (simp add: extent_map_source_def)
  ultimately show ?thesis by blast
qed

section \<open>A bundle of two bands\<close>

definition sample_plist :: str where
  "sample_plist =
     lit ''<key>CFBundleInfoDictionaryVersion</key><string>6.0</string><key>band-size</key><integer>4</integer><key>diskimage-bundle-type</key><string>com.apple.diskimage.sparsebundle</string><key>size</key><integer>6</integer>''"

text \<open>The first band is stored and one byte short of the band size, the second one is missing.\<close>

definition bundle_sample :: resolver where
  "bundle_sample name =
     Ok (if name = lit ''Info.plist'' then Some (memory_source (memory_new sample_plist))
         else if name = lit ''bands/0'' then Some (memory_source (memory_new [1, 2, 3])) else None)"

definition bundle_sample_image :: SparseBundleImage where
  "bundle_sample_image =
     \<lparr>sb_band_size = 4, sb_media_size = 6,
      sb_bands =
        [\<lparr>sbb_file_name = lit ''bands/0'', sbb_logical_offset = 0, sbb_logical_size = 4,
          sbb_source = Some (memory_source (memory_new [1, 2, 3])), sbb_source_size = 3\<rparr>,
         \<lparr>sbb_file_name = lit ''bands/1'', sbb_logical_offset = 4, sbb_logical_size = 2,
          sbb_source = None, sbb_source_size = 0\<rparr>]\<rparr>"

lemma sample_plist_values:
  "extract_plist_value sample_plist (lit ''CFBundleInfoDictionaryVersion'') (lit ''string'') = Some (lit ''6.0'')"
  "extract_plist_value sample_plist (lit ''diskimage-bundle-type'') (lit ''string'')
     = Some (lit ''com.apple.diskimage.sparsebundle'')"
  "extract_plist_value sample_plist (lit ''band-size'') (lit ''integer'') = Some (lit ''4'')"
  "extract_plist_value sample_plist (lit ''size'') (lit ''integer'') = Some (lit ''6'')"
  unfolding extract_plist_value_def str_find_eval sample_plist_def lit_def Let_def
  by (simp_all add: subslice_def str_trim_printable printable_def)

lemma sample_plist_parse: "sparsebundle_parse sample_plist = Ok \<lparr>sbi_band_size = 4, sbi_media_size = 6\<rparr>"
proof -
  have "parse_unsigned u32_limit (lit ''4'') = Some 4" "parse_unsigned u64_limit (lit ''6'') = Some 6"
    by (simp_all add: parse_unsigned_def from_str_radix_def decimal_value_def lit_def u32_limit_def u64_limit_def)
  then show ?thesis by (simp add: sparsebundle_parse_def sample_plist_values)
qed

lemma sample_plist_read: "sparsebundle_read_info_plist bundle_sample = Ok \<lparr>sbi_band_size = 4, sbi_media_size = 6\<rparr>"
proof -
  have len: "length sample_plist = 216" by (simp add: sample_plist_def lit_def)
  have "read_all (memory_source (memory_new sample_plist)) = Ok sample_plist"
    using total_source.read_all_total [OF memory_total [of sample_plist]] by (simp add: len u64_limit_def)
  moreover have "from_utf8 sample_plist = Some sample_plist"
    by (rule from_utf8_ascii) (simp add: sample_plist_def lit_def)
  ultimately have "sparsebundle_read_info_plist_by_name bundle_sample (lit ''Info.plist'')
      = Ok \<lparr>sbi_band_size = 4, sbi_media_size = 6\<rparr>"
    by (simp add: sparsebundle_read_info_plist_by_name_def bundle_sample_def memory_size len sample_plist_parse)
  then show ?thesis by (simp add: sparsebundle_read_info_plist_def)
qed

lemma bundle_sample_open: "sparsebundle_open bundle_sample = Ok bundle_sample_image"
proof -
  have names: "lit ''bands/'' @ hex_digits 0 = lit ''bands/0''" "lit ''bands/'' @ hex_digits 1 = lit ''bands/1''"
    by (simp_all add: lit_def hex_digit_def hex_digits.simps)
  have files: "bundle_sample (lit ''bands/0'') = Ok (Some (memory_source (memory_new [1, 2, 3])))"
    "bundle_sample (lit ''bands/1'') = Ok None"
    by (simp_all add: bundle_sample_def lit_def)
  have "sparsebundle_open_band bundle_sample \<lparr>sbi_band_size = 4, sbi_media_size = 6\<rparr> 0 = Ok (sb_bands bundle_sample_image ! 0)"
    "sparsebundle_open_band bundle_sample \<lparr>sbi_band_size = 4, sbi_media_size = 6\<rparr> 1 = Ok (sb_bands bundle_sample_image ! 1)"
    unfolding sparsebundle_open_band_def Let_def names
    by (simp_all add: files mul_u64_def sub_u64_def u64_limit_def memory_size bundle_sample_image_def)
  then show ?thesis
    by (simp add: sparsebundle_open_def sample_plist_read div_ceil_def upt_rec Let_def) (simp add: bundle_sample_image_def)
qed

section \<open>Properties\<close>

text \<open>
  (C32) The logical source of an opened bundle has the media size and consists of the bands in order:
  each band file followed by zeros up to the size of its band, or only zeros for a missing file.
\<close>

theorem sparsebundle_content:
  assumes "sparsebundle_open resolver = Ok img"
    and "\<forall>b \<in> set (sb_bands img). \<forall>source. sbb_source b = Some source \<longrightarrow> total_source source (files source)"
  shows "\<exists>s. sparsebundle_open_source img = Ok s \<and> ds_size s = Ok (sb_media_size img)
    \<and> exact_source s (concat (map (band_content files) (sb_bands img)))
    \<and> (\<forall>i < length (sb_bands img). resolver (lit ''bands/'' @ hex_digits i) = Ok (sbb_source (sb_bands img ! i)))"
  using sparsebundle_open_source_Ok [OF assms(1)] sparsebundle_open_Ok [OF assms(1)] assms(2) by blast

theorem sparsebundle_content_witness:
  "\<exists>s. sparsebundle_open_source bundle_sample_image = Ok s \<and> exact_source s [1, 2, 3, 0, 0, 0]"
proof -
  have files: "\<forall>b \<in> set (sb_bands bundle_sample_image). \<forall>source. sbb_source b = Some source \<longrightarrow> total_source source [1, 2, 3]"
    by (simp add: bundle_sample_image_def memory_total u64_limit_def)
  have "concat (map (band_content (\<lambda>_. [1, 2, 3])) (sb_bands bundle_sample_image)) = [1, 2, 3, 0, 0, 0]"
    by (simp add: bundle_sample_image_def band_content_def numeral_eq_Suc)
  with sparsebundle_content [OF bundle_sample_open files] show ?thesis by auto
qed

end
