(* ===== verification/Vhd.thy ===== *)
theory Vhd
  imports Extent_Map Uuid
begin

text \<open>
  Virtual hard disks (\<open>image/vhd/mod.rs\<close>): the footer, the header of dynamic disks, the block
  allocation table with the sector bitmap of every block, and the extents of the logical disk,
  with a parent file for differential disks.  The lemmas show that the ranges read from a sector
  bitmap are the runs of its bits, and which byte of the file each byte of a dynamic disk comes
  from.
\<close>

section \<open>Footer and header\<close>

datatype VhdDiskType = Differential | Dynamic | Fixed

record VhdFileFooter =
  vf_next_offset :: nat
  vf_data_size :: nat
  vf_disk_type :: nat
  vf_identifier :: Uuid

record VhdDynamicDiskHeader =
  vd_block_table_offset :: nat
  vd_number_of_blocks :: nat
  vd_block_size :: nat
  vd_parent_identifier :: Uuid
  vd_parent_name :: str

record VhdSectorBitmapRange =
  vr_size :: nat
  vr_is_set :: bool

record VhdFile =
  vhd_disk_type :: VhdDiskType
  vhd_identifier :: Uuid
  vhd_parent_identifier :: "Uuid option"
  vhd_parent_name :: "str option"
  vhd_bytes_per_sector :: nat
  vhd_block_size :: nat
  vhd_media_size :: nat
  vhd_logical_source :: data_source

definition vhd_footer_read_at :: "data_source \<Rightarrow> nat \<Rightarrow> VhdFileFooter result" where
  "vhd_footer_read_at source offset =
     and_then (read_exact_at source offset 512) (\<lambda>data.
       if subslice 0 8 data \<noteq> lit ''conectix'' then Err (Disk_error Vhd_footer_signature)
       else if u32_be 12 data \<noteq> 0x00010000 then Err (Disk_error Vhd_footer_version)
       else let next_offset = u64_be 16 data;
                disk_type = u32_be 60 data
            in if disk_type = 2 \<and> next_offset \<noteq> 0xffffffffffffffff then Err (Disk_error Vhd_fixed_next_offset)
               else if disk_type \<noteq> 2 \<and> next_offset < 512 then Err (Disk_error Vhd_dynamic_next_offset)
               else and_then (uuid_from_be_bytes (subslice 68 16 data)) (\<lambda>identifier.
                      Ok \<lparr>vf_next_offset = next_offset, vf_data_size = u64_be 40 data,
                          vf_disk_type = disk_type, vf_identifier = identifier\<rparr>))"

fun ucs2_be_units :: "byte list \<Rightarrow> nat list" where
  "ucs2_be_units (a # b # rest) =
     (let unit_value = from_be_bytes [a, b] in if unit_value = 0 then [] else unit_value # ucs2_be_units rest)"
| "ucs2_be_units _ = []"

definition decode_ucs2_be_string :: "byte list \<Rightarrow> str" where
  "decode_ucs2_be_string data =
     (case from_utf16 (ucs2_be_units data) of Some s \<Rightarrow> s | None \<Rightarrow> [])"

definition vhd_dynamic_header_read_at :: "data_source \<Rightarrow> nat \<Rightarrow> VhdDynamicDiskHeader result" where
  "vhd_dynamic_header_read_at source offset =
     and_then (read_exact_at source offset 1024) (\<lambda>data.
       if subslice 0 8 data \<noteq> lit ''cxsparse'' then Err (Disk_error Vhd_header_signature)
       else if u64_be 8 data \<noteq> 0xffffffffffffffff then Err (Disk_error Vhd_header_next_offset)
       else if u32_be 24 data \<noteq> 0x00010000 then Err (Disk_error Vhd_header_version)
       else let block_size = u32_be 32 data in
         if block_size = 0 then Err (Disk_error Vhd_block_size)
         else and_then (uuid_from_be_bytes (subslice 40 16 data)) (\<lambda>parent_identifier.
                Ok \<lparr>vd_block_table_offset = u64_be 16 data, vd_number_of_blocks = u32_be 28 data,
                    vd_block_size = block_size, vd_parent_identifier = parent_identifier,
                    vd_parent_name = decode_ucs2_be_string (subslice 64 512 data)\<rparr>))"

section \<open>Sector bitmaps\<close>

fun vhd_bitmap_loop :: "nat \<Rightarrow> bool list \<Rightarrow> nat \<Rightarrow> nat \<Rightarrow> bool \<Rightarrow> VhdSectorBitmapRange list" where
  "vhd_bitmap_loop bytes_per_bit [] offset range_offset range_bit_value =
     [\<lparr>vr_size = offset - range_offset, vr_is_set = range_bit_value\<rparr>]"
| "vhd_bitmap_loop bytes_per_bit (bit_value # bits) offset range_offset range_bit_value =
     (if bit_value \<noteq> range_bit_value then
        \<lparr>vr_size = offset - range_offset, vr_is_set = range_bit_value\<rparr>
          # vhd_bitmap_loop bytes_per_bit bits (offset + bytes_per_bit) offset bit_value
      else vhd_bitmap_loop bytes_per_bit bits (offset + bytes_per_bit) range_offset range_bit_value)"

definition read_sector_bitmap_ranges :: "byte list \<Rightarrow> nat \<Rightarrow> VhdSectorBitmapRange list result" where
  "read_sector_bitmap_ranges data bytes_per_bit =
     (case data of
        [] \<Rightarrow> Err (Panic Index_out_of_bounds)
      | b # _ \<Rightarrow> Ok (vhd_bitmap_loop bytes_per_bit (bitmap_bits data) 0 0 (bit b 7)))"

section \<open>Extents\<close>

text \<open>What an unallocated range maps to.\<close>

definition vhd_parent_target :: "data_source option \<Rightarrow> nat \<Rightarrow> ExtentMapTarget" where
  "vhd_parent_target parent_source media_offset =
     (case parent_source of Some parent_source \<Rightarrow> ExtentData parent_source media_offset | None \<Rightarrow> ExtentZero)"

text \<open>The loop over the ranges of a block.\<close>

fun vhd_range_extents :: "data_source \<Rightarrow> data_source option \<Rightarrow> nat \<Rightarrow> nat \<Rightarrow> nat
    \<Rightarrow> VhdSectorBitmapRange list \<Rightarrow> ExtentMapEntry list result" where
  "vhd_range_extents source parent_source media_size range_media_offset range_data_offset [] = Ok []"
| "vhd_range_extents source parent_source media_size range_media_offset range_data_offset (r # rs) =
     (if media_size \<le> range_media_offset then Ok []
      else
        let range_size = min (vr_size r) (media_size - range_media_offset);
            extent = \<lparr>ext_logical_offset = range_media_offset, ext_size = range_size,
                      ext_target = (if vr_is_set r then ExtentData source range_data_offset
                                    else vhd_parent_target parent_source range_media_offset)\<rparr>
        in and_then (ok_or (Disk_error Vhd_range_media_overflow) (checked_add range_media_offset range_size))
             (\<lambda>range_media_offset.
           and_then (ok_or (Disk_error Vhd_range_data_overflow) (checked_add range_data_offset (vr_size r)))
             (\<lambda>range_data_offset.
           and_then (vhd_range_extents source parent_source media_size range_media_offset range_data_offset rs)
             (\<lambda>extents. Ok (extent # extents)))))"

definition vhd_sector_bitmap_size :: "VhdDynamicDiskHeader \<Rightarrow> nat" where
  "vhd_sector_bitmap_size header = div_ceil (vd_block_size header div 512 div 8) 512 * 512"

text \<open>The extents of one block, from its media offset.\<close>

definition vhd_block_extents :: "data_source \<Rightarrow> nat \<Rightarrow> nat \<Rightarrow> VhdDynamicDiskHeader \<Rightarrow> data_source option
    \<Rightarrow> nat \<Rightarrow> nat \<Rightarrow> ExtentMapEntry list result" where
  "vhd_block_extents source src_size media_size header parent_source block_index block_media_offset =
     (let block_logical_size = min (vd_block_size header) (media_size - block_media_offset) in
      and_then (mul_u64 block_index 4) (\<lambda>table_relative_offset.
      and_then (ok_or (Disk_error Vhd_bat_offset_overflow)
                 (checked_add (vd_block_table_offset header) table_relative_offset)) (\<lambda>entry_offset.
      and_then (read_exact_at source entry_offset 4) (\<lambda>entry_data.
      let sector_number = from_be_bytes entry_data in
      if sector_number = 0xffffffff then
        Ok [\<lparr>ext_logical_offset = block_media_offset, ext_size = block_logical_size,
             ext_target = vhd_parent_target parent_source block_media_offset\<rparr>]
      else
        and_then (ok_or (Disk_error Vhd_bitmap_offset_overflow) (checked_mul sector_number 512))
          (\<lambda>sector_bitmap_offset.
        and_then (ok_or (Disk_error Vhd_block_data_overflow)
                   (checked_add sector_bitmap_offset (vhd_sector_bitmap_size header))) (\<lambda>data_offset.
        and_then (ok_or (Disk_error Vhd_block_data_end_overflow)
                   (checked_add data_offset (vd_block_size header))) (\<lambda>block_data_end.
        if src_size < block_data_end then Err (Disk_error Vhd_block_exceeds_file)
        else
          and_then (read_exact_at source sector_bitmap_offset (vhd_sector_bitmap_size header)) (\<lambda>sector_bitmap_data.
          and_then (read_sector_bitmap_ranges sector_bitmap_data 512) (\<lambda>ranges.
            vhd_range_extents source parent_source media_size block_media_offset data_offset ranges)))))))))"

text \<open>The loop over the blocks, which ends where the media does.\<close>

fun vhd_blocks :: "data_source \<Rightarrow> nat \<Rightarrow> nat \<Rightarrow> VhdDynamicDiskHeader \<Rightarrow> data_source option \<Rightarrow> nat list
    \<Rightarrow> ExtentMapEntry list result" where
  "vhd_blocks source src_size media_size header parent_source [] = Ok []"
| "vhd_blocks source src_size media_size header parent_source (block_index # indices) =
     and_then (ok_or (Disk_error Vhd_block_media_offset_overflow)
                (checked_mul block_index (vd_block_size header))) (\<lambda>block_media_offset.
       if media_size \<le> block_media_offset then Ok []
       else
         and_then (vhd_block_extents source src_size media_size header parent_source block_index block_media_offset)
           (\<lambda>block_extents.
         and_then (vhd_blocks source src_size media_size header parent_source indices) (\<lambda>extents.
           Ok (block_extents @ extents))))"

definition vhd_build_dynamic_extents :: "data_source \<Rightarrow> nat \<Rightarrow> nat \<Rightarrow> VhdDynamicDiskHeader
    \<Rightarrow> data_source option \<Rightarrow> ExtentMapEntry list result" where
  "vhd_build_dynamic_extents source src_size media_size header parent_source =
     and_then (mul_u64 (vd_number_of_blocks header) (vd_block_size header)) (\<lambda>capacity.
       if capacity < media_size then Err (Disk_error Vhd_too_few_blocks)
       else vhd_blocks source src_size media_size header parent_source [0..<vd_number_of_blocks header])"

section \<open>VhdFile\<close>

definition vhd_parent_source :: "VhdFileFooter \<Rightarrow> VhdDynamicDiskHeader \<Rightarrow> VhdFile option
    \<Rightarrow> data_source option result" where
  "vhd_parent_source footer header parent_file =
     (if vf_disk_type footer = 4 then
        and_then (ok_or (Disk_error Vhd_parent_required) parent_file) (\<lambda>parent_file.
          if uuid_is_nil (vd_parent_identifier header) then Err (Disk_error Vhd_parent_identifier_missing)
          else if vhd_identifier parent_file \<noteq> vd_parent_identifier header
          then Err (Disk_error Vhd_parent_identifier_mismatch)
          else Ok (Some (vhd_logical_source parent_file)))
      else Ok None)"

definition vhd_open_internal :: "data_source \<Rightarrow> VhdFile option \<Rightarrow> VhdFile result" where
  "vhd_open_internal source parent_file =
     and_then (ds_size source) (\<lambda>src_size.
       if src_size < 512 then Err (Disk_error Vhd_file_too_small)
       else
         and_then (vhd_footer_read_at source (src_size - 512)) (\<lambda>footer.
         let media_size = vf_data_size footer in
         if vf_disk_type footer = 2 then
           Ok \<lparr>vhd_disk_type = Fixed, vhd_identifier = vf_identifier footer,
               vhd_parent_identifier = None, vhd_parent_name = None, vhd_bytes_per_sector = 512,
               vhd_block_size = 0, vhd_media_size = media_size,
               vhd_logical_source = slice_source (slice_new source 0 media_size)\<rparr>
         else if vf_disk_type footer = 3 \<or> vf_disk_type footer = 4 then
           and_then (vhd_dynamic_header_read_at source (vf_next_offset footer)) (\<lambda>header.
           and_then (vhd_parent_source footer header parent_file) (\<lambda>parent_source.
             if vf_disk_type footer = 3 \<and> \<not> uuid_is_nil (vd_parent_identifier header)
             then Err (Disk_error Vhd_unexpected_parent)
             else
               and_then (vhd_build_dynamic_extents source src_size media_size header parent_source) (\<lambda>extents.
               and_then (extent_map_new extents) (\<lambda>em.
                 Ok \<lparr>vhd_disk_type = (if vf_disk_type footer = 4 then Differential else Dynamic),
                     vhd_identifier = vf_identifier footer,
                     vhd_parent_identifier = (if uuid_is_nil (vd_parent_identifier header) then None
                                              else Some (vd_parent_identifier header)),
                     vhd_parent_name = (if vd_parent_name header = [] then None
                                        else Some (vd_parent_name header)),
                     vhd_bytes_per_sector = 512, vhd_block_size = vd_block_size header,
                     vhd_media_size = media_size, vhd_logical_source = extent_map_source em\<rparr>))))
         else Err (Disk_error Vhd_disk_type)))"

definition vhd_open :: "data_source \<Rightarrow> VhdFile result" where
  "vhd_open source = vhd_open_internal source None"

definition vhd_open_with_parent :: "data_source \<Rightarrow> VhdFile \<Rightarrow> VhdFile result" where
  "vhd_open_with_parent source parent_file = vhd_open_internal source (Some parent_file)"

section \<open>The ranges of a bitmap\<close>

text \<open>Ranges that say, from position \<open>p\<close> on, what \<open>bit_at\<close> says.\<close>

fun ranges_match :: "(nat \<Rightarrow> bool) \<Rightarrow> nat \<Rightarrow> VhdSectorBitmapRange list \<Rightarrow> bool" where
  "ranges_match bit_at p [] = True"
| "ranges_match bit_at p (r # rs) =
     ((\<forall>x. p \<le> x \<and> x < p + vr_size r \<longrightarrow> bit_at x = vr_is_set r) \<and> ranges_match bit_at (p + vr_size r) rs)"

lemma vhd_bitmap_loop_match:
  assumes "0 < bpb" "range_offset \<le> k * bpb"
    and "\<forall>x. range_offset \<le> x \<and> x < k * bpb \<longrightarrow> bit_at x = range_bit"
    and "\<forall>i < length bits. \<forall>x. (k + i) * bpb \<le> x \<and> x < (k + i + 1) * bpb \<longrightarrow> bit_at x = bits ! i"
  shows "ranges_match bit_at range_offset (vhd_bitmap_loop bpb bits (k * bpb) range_offset range_bit)
    \<and> range_offset + sum_list (map vr_size (vhd_bitmap_loop bpb bits (k * bpb) range_offset range_bit))
      = (k + length bits) * bpb"
  using assms
proof (induction bits arbitrary: k range_offset range_bit)
  case Nil
  then show ?case by auto
next
  case (Cons b bits)
  have next_k: "k * bpb + bpb = Suc k * bpb" by simp
  have here: "\<forall>x. k * bpb \<le> x \<and> x < Suc k * bpb \<longrightarrow> bit_at x = b"
    using Cons.prems(4) by (metis Suc_eq_plus1 add.right_neutral length_greater_0_conv list.distinct(1) nth_Cons_0)
  have rest: "\<forall>i < length bits. \<forall>x. (Suc k + i) * bpb \<le> x \<and> x < (Suc k + i + 1) * bpb \<longrightarrow> bit_at x = bits ! i"
  proof (intro allI impI)
    fix i x
    assume "i < length bits" "(Suc k + i) * bpb \<le> x \<and> x < (Suc k + i + 1) * bpb"
    then show "bit_at x = bits ! i" using Cons.prems(4) [rule_format, of "Suc i" x] by simp
  qed
  show ?case
  proof (cases "b = range_bit")
    case True
    have "\<forall>x. range_offset \<le> x \<and> x < Suc k * bpb \<longrightarrow> bit_at x = range_bit"
      using here Cons.prems(3) True by (metis not_le)
    moreover have "range_offset \<le> Suc k * bpb" using Cons.prems(2) by simp
    ultimately show ?thesis
      using Cons.IH [of range_offset "Suc k" range_bit] rest Cons.prems(1) True
      by (simp add: next_k del: mult_Suc)
  next
    case False
    have "\<forall>x. k * bpb \<le> x \<and> x < Suc k * bpb \<longrightarrow> bit_at x = b" by (rule here)
    with Cons.IH [of "k * bpb" "Suc k" b] rest Cons.prems False show ?thesis
      by (simp add: next_k del: mult_Suc)
  qed
qed

text \<open>The ranges of a bitmap are the runs of its bits, \<open>bytes_per_bit\<close> bytes to the bit.\<close>

lemma read_sector_bitmap_ranges_Ok:
  assumes "read_sector_bitmap_ranges data bpb = Ok rs" "0 < bpb"
  shows "ranges_match (\<lambda>x. bit (data ! (x div bpb div 8)) (x div bpb mod 8)) 0 rs
    \<and> sum_list (map vr_size rs) = 8 * length data * bpb"
proof -
  from assms(1) obtain v where rs: "rs = vhd_bitmap_loop bpb (bitmap_bits data) (0 * bpb) 0 v"
    by (auto simp: read_sector_bitmap_ranges_def split: list.splits)
  have "bit (data ! (x div bpb div 8)) (x div bpb mod 8) = bitmap_bits data ! i"
    if "i < length (bitmap_bits data)" "(0 + i) * bpb \<le> x \<and> x < (0 + i + 1) * bpb" for i x
  proof -
    have "x div bpb = i" using that(2) by (intro div_nat_eqI) (auto simp: mult.commute)
    with that(1) show ?thesis by (simp add: nth_bitmap_bits length_bitmap_bits)
  qed
  with vhd_bitmap_loop_match [of bpb 0 0 "\<lambda>x. bit (data ! (x div bpb div 8)) (x div bpb mod 8)" v "bitmap_bits data"]
    assms(2) show ?thesis
    unfolding rs by (simp add: length_bitmap_bits)
qed

section \<open>The bytes of a dynamic disk\<close>

text \<open>
  The byte at \<open>x\<close> of a dynamic disk whose file has the contents \<open>c\<close>: the table gives the sector
  of the block, the bitmap says whether the sector of the byte is stored.
\<close>

definition vhd_byte :: "VhdDynamicDiskHeader \<Rightarrow> byte list \<Rightarrow> nat \<Rightarrow> byte" where
  "vhd_byte header c x =
     (let block_size = vd_block_size header;
          sector = u32_be (vd_block_table_offset header + x div block_size * 4) c;
          r = x mod block_size
      in if sector = 0xffffffff then 0
         else if bit (c ! (sector * 512 + r div 512 div 8)) (r div 512 mod 8)
         then c ! (sector * 512 + vhd_sector_bitmap_size header + r)
         else 0)"

text \<open>
  The same byte as \<open>docs/formats/src/vhd.md\<close> has it: the sector bitmap takes one bit per sector of the block, rounded
  up to whole sectors, and the first sector of eight has the highest bit of their byte.  The two agree where the byte of
  the bitmap reads the same from both ends, as it does when all of the eight sectors or none of them are stored.
\<close>

definition vhd_documented_byte :: "VhdDynamicDiskHeader \<Rightarrow> byte list \<Rightarrow> nat \<Rightarrow> byte" where
  "vhd_documented_byte header c x =
     (let block_size = vd_block_size header;
          entry = u32_be (vd_block_table_offset header + 4 * (x div block_size)) c;
          bitmap_size = (block_size div (512 * 8) + 511) div 512 * 512;
          sector = x mod block_size div 512
      in if entry \<noteq> 0xffffffff \<and> bit (c ! (entry * 512 + sector div 8)) (7 - sector mod 8)
         then c ! (entry * 512 + bitmap_size + x mod block_size)
         else 0)"

definition vhd_bitmap_symmetric :: "VhdDynamicDiskHeader \<Rightarrow> byte list \<Rightarrow> nat \<Rightarrow> bool" where
  "vhd_bitmap_symmetric header c x =
     (let entry = u32_be (vd_block_table_offset header + 4 * (x div vd_block_size header)) c;
          bitmap_byte = c ! (entry * 512 + x mod vd_block_size header div 512 div 8)
      in entry = 0xffffffff \<or> (\<forall>i < 8. bit bitmap_byte i = bit bitmap_byte (7 - i)))"

lemma vhd_documented_byte_eq:
  assumes "vhd_bitmap_symmetric header c x"
  shows "vhd_documented_byte header c x = vhd_byte header c x"
proof -
  define i where "i = x mod vd_block_size header div 512"
  define entry where "entry = u32_be (vd_block_table_offset header + x div vd_block_size header * 4) c"
  have "entry = 0xffffffff \<or> (\<forall>k < 8. bit (c ! (entry * 512 + i div 8)) k = bit (c ! (entry * 512 + i div 8)) (7 - k))"
    using assms by (simp add: vhd_bitmap_symmetric_def i_def entry_def Let_def mult.commute)
  then have "entry = 0xffffffff \<or> bit (c ! (entry * 512 + i div 8)) (i mod 8) = bit (c ! (entry * 512 + i div 8)) (7 - i mod 8)"
    by (metis mod_less_divisor zero_less_numeral)
  moreover have "(n + 511) div 512 = div_ceil n 512" for n :: nat
  proof -
    obtain q r where n: "n = 512 * q + r" "r < 512" by (metis mod_less_divisor mult_div_mod_eq zero_less_numeral)
    then have "n div 512 = q" "n mod 512 = r" by simp_all
    then show ?thesis unfolding div_ceil_def n(1) using n(2) by (intro div_nat_eqI) (auto split: if_splits)
  qed
  then have "(vd_block_size header div (512 * 8) + 511) div 512 * 512 = vhd_sector_bitmap_size header"
    by (simp add: vhd_sector_bitmap_size_def div_mult2_eq [of _ 512 8, symmetric])
  ultimately show ?thesis
    by (auto simp: vhd_documented_byte_def vhd_byte_def Let_def i_def [symmetric] mult.commute [of 4] entry_def [symmetric])
qed

lemma vhd_range_extents_fill:
  assumes "vhd_range_extents ds None media_size rmo rdo rs = Ok es"
    and "ranges_match bit_at p rs" "rmo = base + p" "rdo = data_base + p"
    and "data_base + (p + sum_list (map vr_size rs)) \<le> n"
    and byte: "\<And>c x. byte_source ds c \<Longrightarrow> length c = n \<Longrightarrow> base \<le> x \<Longrightarrow> x < base + (p + sum_list (map vr_size rs))
      \<Longrightarrow> byte c x = (if bit_at (x - base) then c ! (data_base + (x - base)) else 0)"
  shows "fills ds n rmo (max rmo (min (rmo + sum_list (map vr_size rs)) media_size)) byte es"
  using assms
proof (induction rs arbitrary: p rmo rdo es)
  case Nil
  then show ?case by simp
next
  case (Cons r rs)
  show ?case
  proof (cases "media_size \<le> rmo")
    case True
    with Cons.prems(1) show ?thesis by simp
  next
    case False
    let ?sz = "min (vr_size r) (media_size - rmo)"
    let ?e = "if vr_is_set r then data_extent rmo ?sz ds rdo else zero_extent rmo ?sz"
    from Cons.prems(1) False obtain es' where es: "es = ?e # es'"
      and rec: "vhd_range_extents ds None media_size (rmo + ?sz) (rdo + vr_size r) rs = Ok es'"
      by (auto simp: Let_def result_simps vhd_parent_target_def data_extent_def zero_extent_def)
    have bit: "bit_at (x - base) = vr_is_set r" if "rmo \<le> x" "x < rmo + ?sz" for x
    proof -
      have "p \<le> x - base" "x - base < p + vr_size r" using that Cons.prems(3) by auto
      with Cons.prems(2) show ?thesis by simp
    qed
    have here: "byte c x = (if vr_is_set r then c ! (rdo + (x - rmo)) else 0)"
      if "byte_source ds c" "length c = n" "rmo \<le> x" "x < rmo + ?sz" for c x
      using Cons.prems(6) [OF that(1,2), of x] bit [OF that(3,4)] that(3,4) Cons.prems(3,4) by auto
    have first: "fills ds n rmo (rmo + ?sz) byte [?e]"
      using Cons.prems(4,5) here by (auto intro!: fills_data fills_zero)
    show ?thesis
    proof (cases "vr_size r \<le> media_size - rmo")
      case True
      have "fills ds n (rmo + vr_size r) (max (rmo + vr_size r) (min (rmo + vr_size r + sum_list (map vr_size rs)) media_size)) byte es'"
        using rec True Cons.prems by (intro Cons.IH [of "rmo + vr_size r" "rdo + vr_size r" es' "p + vr_size r"]) auto
      moreover have "fills ds n rmo (rmo + vr_size r) byte [?e]" using first True by simp
      ultimately have "fills ds n rmo (max (rmo + vr_size r) (min (rmo + vr_size r + sum_list (map vr_size rs)) media_size)) byte ([?e] @ es')"
        using fills_append by blast
      moreover have "max (rmo + vr_size r) (min (rmo + vr_size r + sum_list (map vr_size rs)) media_size)
          = max rmo (min (rmo + sum_list (map vr_size (r # rs))) media_size)"
        using True False by (auto simp: min_def max_def)
      ultimately show ?thesis by (simp add: es)
    next
      case trunc: False
      then have sz: "?sz = media_size - rmo" by simp
      have "es' = []" using rec sz False by (cases rs) auto
      moreover have "max rmo (min (rmo + sum_list (map vr_size (r # rs))) media_size) = rmo + ?sz"
        using trunc False by (auto simp: min_def max_def)
      ultimately show ?thesis using first by (simp add: es)
    qed
  qed
qed

text \<open>A block size the bitmap of a block covers exactly: a multiple of two mebibytes.\<close>

definition vhd_regular :: "VhdDynamicDiskHeader \<Rightarrow> bool" where
  "vhd_regular header \<longleftrightarrow> 0 < vd_block_size header \<and> vd_block_size header mod 2097152 = 0"

lemma vhd_regular_bitmap:
  assumes "vhd_regular header"
  shows "8 * vhd_sector_bitmap_size header * 512 = vd_block_size header"
proof -
  obtain k where k: "vd_block_size header = 2097152 * k" using assms by (auto simp: vhd_regular_def)
  then have "vd_block_size header div 512 div 8 = 512 * k" by simp
  then show ?thesis using k by (simp add: vhd_sector_bitmap_size_def div_ceil_def)
qed

lemma vhd_block_extents_fill:
  assumes "vhd_block_extents ds n media_size header None k (k * vd_block_size header) = Ok es"
    and "vhd_regular header" "k * vd_block_size header < media_size" and src: "byte_source ds c0"
  shows "fills ds n (k * vd_block_size header) (min (Suc k * vd_block_size header) media_size) (vhd_byte header) es"
proof -
  define bs where "bs = vd_block_size header"
  have bs: "0 < bs" using assms(2) by (simp add: bs_def vhd_regular_def)
  have lt: "k * bs < media_size" using assms(3) by (simp add: bs_def)
  have hi: "min (Suc k * bs) media_size = k * bs + min bs (media_size - k * bs)" using lt by (auto simp: min_def)
  have x: "x div bs = k \<and> x mod bs = x - k * bs" if "k * bs \<le> x" "x < k * bs + bs" for x
  proof -
    from that have "x div bs = k" by (intro div_nat_eqI) (auto simp: mult.commute)
    then show ?thesis by (metis minus_div_mult_eq_mod)
  qed
  from assms(1) obtain entry where entry: "read_exact_at ds (vd_block_table_offset header + k * 4) 4 = Ok entry"
    by (auto simp: vhd_block_extents_def Let_def result_simps bs_def [symmetric])
  define s where "s = from_be_bytes entry"
  have sector: "u32_be (vd_block_table_offset header + k * 4) c = s" if "byte_source ds c" for c
    using byte_source.read_exact_at_sound [OF that entry] by (simp add: s_def u32_be_def)
  show ?thesis
  proof (cases "s = 0xffffffff")
    case True
    with assms(1) entry have es: "es = [zero_extent (k * bs) (min bs (media_size - k * bs))]"
      by (auto simp: vhd_block_extents_def Let_def result_simps bs_def [symmetric] s_def [symmetric]
          vhd_parent_target_def zero_extent_def)
    have "fills ds n (k * bs) (k * bs + min bs (media_size - k * bs)) (vhd_byte header) es"
      unfolding es using x sector True by (intro fills_zero) (auto simp: vhd_byte_def bs_def [symmetric] Let_def)
    then show ?thesis by (simp only: hi bs_def [symmetric])
  next
    case False
    let ?bm = "vhd_sector_bitmap_size header"
    from assms(1) entry False obtain data rs where
      data: "read_exact_at ds (s * 512) ?bm = Ok data" and rs: "read_sector_bitmap_ranges data 512 = Ok rs"
      and inside: "s * 512 + ?bm + bs \<le> n"
      and es: "vhd_range_extents ds None media_size (k * bs) (s * 512 + ?bm) rs = Ok es"
      by (auto simp: vhd_block_extents_def Let_def result_simps bs_def [symmetric] s_def [symmetric])
    note match = read_sector_bitmap_ranges_Ok [OF rs, simplified]
    have byte: "vhd_byte header c x = (if bit (data ! ((x - k * bs) div 512 div 8)) ((x - k * bs) div 512 mod 8)
        then c ! (s * 512 + ?bm + (x - k * bs)) else 0)"
      if "byte_source ds c" "length c = n" "k * bs \<le> x" "x < k * bs + bs" for c x
    proof -
      have d: "data = subslice (s * 512) ?bm c" "length data = ?bm"
        using byte_source.read_exact_at_sound [OF that(1) data] by blast+
      have "(x - k * bs) div 512 div 8 < ?bm"
        using that(3,4) vhd_regular_bitmap [OF assms(2)] by (simp add: bs_def div_less_iff_less_mult)
      then have "data ! ((x - k * bs) div 512 div 8) = c ! (s * 512 + (x - k * bs) div 512 div 8)"
        using d(2) unfolding d(1) by (simp add: slice_simps)
      then show ?thesis
        using x [OF that(3,4)] sector [OF that(1)] False by (simp add: vhd_byte_def Let_def bs_def [symmetric])
    qed
    have "length data = ?bm" using byte_source.read_exact_at_sound [OF src data] by blast
    then have "sum_list (map vr_size rs) = bs"
      using match vhd_regular_bitmap [OF assms(2)] by (simp add: bs_def)
    then have "fills ds n (k * bs) (max (k * bs) (min (k * bs + bs) media_size)) (vhd_byte header) es"
      using vhd_range_extents_fill [OF es conjunct1 [OF match], of "k * bs" "s * 512 + ?bm" n "vhd_byte header"]
        inside byte by simp
    moreover have "max (k * bs) (min (k * bs + bs) media_size) = min (Suc k * bs) media_size"
      using lt by (auto simp: min_def max_def)
    ultimately show ?thesis by (simp only: bs_def)
  qed
qed

lemma vhd_blocks_fill:
  assumes "vhd_blocks ds n media_size header None [k..<N] = Ok es" "vhd_regular header" "byte_source ds c0"
    and "k \<le> N" "media_size \<le> N * vd_block_size header"
  shows "fills ds n (min (k * vd_block_size header) media_size) media_size (vhd_byte header) es"
  using assms(1,4)
proof (induction "N - k" arbitrary: k es)
  case 0
  with assms(5) show ?case by auto
next
  case (Suc d)
  let ?bs = "vd_block_size header"
  have k: "k < N" and upt: "[k..<N] = k # [Suc k..<N]" using Suc.hyps(2) by (simp_all add: upt_conv_Cons)
  show ?case
  proof (cases "media_size \<le> k * ?bs")
    case True
    with Suc.prems(1) show ?thesis unfolding upt by (auto simp: result_simps min_absorb2)
  next
    case False
    with Suc.prems(1) obtain es1 es2 where es: "es = es1 @ es2"
      and blk: "vhd_block_extents ds n media_size header None k (k * ?bs) = Ok es1"
      and rec: "vhd_blocks ds n media_size header None [Suc k..<N] = Ok es2"
      unfolding upt by (auto simp: result_simps)
    have "fills ds n (k * ?bs) (min (Suc k * ?bs) media_size) (vhd_byte header) es1"
      using vhd_block_extents_fill [OF blk assms(2) _ assms(3)] False by simp
    moreover have "fills ds n (min (Suc k * ?bs) media_size) media_size (vhd_byte header) es2"
      using Suc.hyps(1) [OF _ rec] Suc.hyps(2) k by simp
    ultimately show ?thesis using False fills_append by (simp add: es min_absorb1)
  qed
qed

section \<open>An opened disk\<close>

definition vhd_media :: "VhdDynamicDiskHeader \<Rightarrow> nat \<Rightarrow> byte list \<Rightarrow> byte list" where
  "vhd_media header media_size c = map (vhd_byte header c) [0..<media_size]"

lemma vhd_footer_media_u64: "vhd_footer_read_at ds off = Ok footer \<Longrightarrow> vf_data_size footer < u64_limit"
  by (auto simp: vhd_footer_read_at_def result_simps Let_def field_bounds split: if_splits)

lemma vhd_open_Ok:
  assumes "vhd_open_internal ds parent = Ok v"
  obtains n footer where "ds_size ds = Ok n" "512 \<le> n" "vhd_footer_read_at ds (n - 512) = Ok footer"
    "vhd_media_size v = vf_data_size footer" "vhd_identifier v = vf_identifier footer"
  using assms by (auto simp: vhd_open_internal_def result_simps Let_def split: if_splits)

lemma vhd_open_fixed:
  assumes "vhd_open_internal ds parent = Ok v" "vhd_disk_type v = Fixed"
  shows "vhd_logical_source v = slice_source (slice_new ds 0 (vhd_media_size v))"
  using assms by (auto simp: vhd_open_internal_def result_simps Let_def split: if_splits)

lemma vhd_open_dynamic:
  assumes "vhd_open_internal ds parent = Ok v" "vhd_disk_type v = Dynamic"
  obtains n footer header es em where "ds_size ds = Ok n" "vhd_footer_read_at ds (n - 512) = Ok footer"
    "vhd_dynamic_header_read_at ds (vf_next_offset footer) = Ok header"
    "vhd_build_dynamic_extents ds n (vhd_media_size v) header None = Ok es"
    "extent_map_new es = Ok em" "vhd_logical_source v = extent_map_source em"
    "vhd_media_size v = vf_data_size footer" "vhd_block_size v = vd_block_size header"
  using assms
  by (auto simp: vhd_open_internal_def result_simps Let_def vhd_parent_source_def split: if_splits)

lemma vhd_dynamic_content:
  assumes open_ok: "vhd_open_internal ds parent = Ok v" and dyn: "vhd_disk_type v = Dynamic"
    and src: "byte_source ds c" and blocks: "vhd_block_size v mod 2097152 = 0"
  shows "\<exists>footer header. vhd_footer_read_at ds (length c - 512) = Ok footer
    \<and> vhd_dynamic_header_read_at ds (vf_next_offset footer) = Ok header
    \<and> ds_size (vhd_logical_source v) = Ok (vhd_media_size v)
    \<and> byte_source (vhd_logical_source v) (vhd_media header (vhd_media_size v) c)
    \<and> (total_source ds c \<longrightarrow> exact_source (vhd_logical_source v) (vhd_media header (vhd_media_size v) c))"
proof -
  obtain n footer header es em where n: "ds_size ds = Ok n" and footer: "vhd_footer_read_at ds (n - 512) = Ok footer"
    and header: "vhd_dynamic_header_read_at ds (vf_next_offset footer) = Ok header"
    and es: "vhd_build_dynamic_extents ds n (vhd_media_size v) header None = Ok es"
    and em: "extent_map_new es = Ok em" "vhd_logical_source v = extent_map_source em"
    and v: "vhd_media_size v = vf_data_size footer" "vhd_block_size v = vd_block_size header"
    by (rule vhd_open_dynamic [OF open_ok dyn])
  have "vd_block_size header \<noteq> 0"
    using header by (auto simp: vhd_dynamic_header_read_at_def result_simps Let_def split: if_splits)
  with blocks v(2) have reg: "vhd_regular header" by (simp add: vhd_regular_def)
  from es have "vhd_blocks ds n (vhd_media_size v) header None [0..<vd_number_of_blocks header] = Ok es"
    and "vhd_media_size v \<le> vd_number_of_blocks header * vd_block_size header"
    by (auto simp: vhd_build_dynamic_extents_def result_simps)
  then have "fills ds n 0 (vhd_media_size v) (vhd_byte header) es"
    using vhd_blocks_fill [OF _ reg src, of n "vhd_media_size v" 0] by simp
  moreover have "layout ext_logical_offset ext_size 0 es"
    using em(1) by (auto simp: extent_map_new_def result_simps check_pieces_Ok)
  ultimately have "covers ds n 0 (vhd_media_size v) (vhd_byte header) es" by (simp add: covers_def)
  from covers_map [OF this _ n] vhd_footer_media_u64 [OF footer] v(1) em src
  have "ds_size (vhd_logical_source v) = Ok (vhd_media_size v)"
    "byte_source (vhd_logical_source v) (vhd_media header (vhd_media_size v) c)"
    "total_source ds c \<longrightarrow> exact_source (vhd_logical_source v) (vhd_media header (vhd_media_size v) c)"
    by (auto simp: vhd_media_def)
  moreover have "n = length c" using byte_source.size_content [OF src] n by simp
  ultimately show ?thesis using footer header by blast
qed

section \<open>A dynamic disk with a stored block\<close>

text \<open>
  The header of the dynamic disk at 512, the block allocation table at 1536, the sector bitmap of its one block at 2048
  with the first eight sectors, the data of the block from 2560 on, and the footer.
\<close>

definition vhd_sample_header :: "byte list" where
  "vhd_sample_header =
     lit ''cxsparse'' @ [0xff, 0xff, 0xff, 0xff, 0xff, 0xff, 0xff, 0xff, 0, 0, 0, 0, 0, 0, 6, 0, 0, 1, 0, 0, 0, 0, 0, 1, 0, 0x20, 0, 0]
     @ replicate 988 0"

definition vhd_sample_bitmap :: "byte list" where
  "vhd_sample_bitmap = 0xff # replicate 511 0"

definition vhd_sample_block :: "byte list" where
  "vhd_sample_block = replicate 2097152 7"

definition vhd_sample_footer :: "byte list" where
  "vhd_sample_footer =
     lit ''conectix'' @ [0, 0, 0, 0, 0, 1, 0, 0, 0, 0, 0, 0, 0, 0, 2, 0] @ replicate 16 0
     @ [0, 0, 0, 0, 0, 0, 0x20, 0] @ replicate 12 0 @ [0, 0, 0, 3] @ replicate 448 0"

definition vhd_sample_start :: "byte list" where
  "vhd_sample_start = replicate 512 0 @ vhd_sample_header @ [0, 0, 0, 4] @ replicate 508 0 @ vhd_sample_bitmap"

definition vhd_sample :: "byte list" where
  "vhd_sample = vhd_sample_start @ vhd_sample_block @ vhd_sample_footer"

definition nil_uuid :: Uuid where
  "nil_uuid = \<lparr>uuid_part1 = 0, uuid_part2 = 0, uuid_part3 = 0, uuid_part4 = 0, uuid_part5 = 0\<rparr>"

definition vhd_sample_disk :: VhdDynamicDiskHeader where
  "vhd_sample_disk =
     \<lparr>vd_block_table_offset = 1536, vd_number_of_blocks = 1, vd_block_size = 2097152,
      vd_parent_identifier = nil_uuid, vd_parent_name = []\<rparr>"

definition vhd_sample_end :: VhdFileFooter where
  "vhd_sample_end = \<lparr>vf_next_offset = 512, vf_data_size = 8192, vf_disk_type = 3, vf_identifier = nil_uuid\<rparr>"

lemma length_vhd_sample:
  "length vhd_sample_header = 1024" "length vhd_sample_bitmap = 512" "length vhd_sample_block = 2097152"
  "length vhd_sample_footer = 512" "length vhd_sample_start = 2560" "length vhd_sample = 2100224"
  by (simp_all add: vhd_sample_def vhd_sample_start_def vhd_sample_header_def vhd_sample_bitmap_def vhd_sample_block_def
      vhd_sample_footer_def lit_def)

lemma vhd_sample_source: "byte_source (memory_source (memory_new vhd_sample)) vhd_sample"
  by (rule memory_byte) (simp add: length_vhd_sample u64_limit_def)

lemma vhd_sample_reads:
  "read_exact_at (memory_source (memory_new vhd_sample)) 512 1024 = Ok vhd_sample_header"
  "read_exact_at (memory_source (memory_new vhd_sample)) 2099712 512 = Ok vhd_sample_footer"
  "read_exact_at (memory_source (memory_new vhd_sample)) 1536 4 = Ok [0, 0, 0, 4]"
  "read_exact_at (memory_source (memory_new vhd_sample)) 2048 512 = Ok vhd_sample_bitmap"
proof -
  have read: "read_exact_at (memory_source (memory_new vhd_sample)) off n = Ok (subslice off n vhd_sample)"
    if "off + n \<le> 2100224" for off n
    using that by (intro memory_read_exact) (simp_all add: length_vhd_sample u64_limit_def)
  have start: "subslice off n vhd_sample = subslice off n vhd_sample_start" if "off + n \<le> 2560" for off n
    using that by (simp add: vhd_sample_def subslice_def length_vhd_sample)
  show "read_exact_at (memory_source (memory_new vhd_sample)) 512 1024 = Ok vhd_sample_header"
    "read_exact_at (memory_source (memory_new vhd_sample)) 1536 4 = Ok [0, 0, 0, 4]"
    "read_exact_at (memory_source (memory_new vhd_sample)) 2048 512 = Ok vhd_sample_bitmap"
    using read [of 512 1024] read [of 1536 4] read [of 2048 512] start [of 512 1024] start [of 1536 4] start [of 2048 512]
    by (simp_all add: vhd_sample_start_def subslice_def length_vhd_sample)
  have "subslice 2099712 512 vhd_sample = vhd_sample_footer"
    by (simp add: vhd_sample_def subslice_def length_vhd_sample)
  then show "read_exact_at (memory_source (memory_new vhd_sample)) 2099712 512 = Ok vhd_sample_footer"
    using read [of 2099712 512] by simp
qed

lemma uuid_from_zeros: "uuid_from_be_bytes (replicate 16 0) = Ok nil_uuid"
  by (simp add: uuid_from_be_bytes_def nil_uuid_def u32_be_def u16_be_def subslice_def Let_def)

lemma vhd_sample_footer_read:
  "vhd_footer_read_at (memory_source (memory_new vhd_sample)) 2099712 = Ok vhd_sample_end"
proof -
  let ?d = vhd_sample_footer
  have "subslice 0 8 ?d = lit ''conectix''" "u32_be 12 ?d = 0x00010000" "u64_be 16 ?d = 512" "u32_be 60 ?d = 3"
    "u64_be 40 ?d = 8192" "subslice 68 16 ?d = replicate 16 0"
    by (simp_all add: vhd_sample_footer_def lit_def subslice_def u32_be_def u64_be_def
        from_be_bytes_def [of "[_, _, _, _]"] from_be_bytes_def [of "[_, _, _, _, _, _, _, _]"])
  then show ?thesis
    by (simp add: vhd_footer_read_at_def vhd_sample_reads uuid_from_zeros vhd_sample_end_def Let_def)
qed

lemma vhd_sample_header_read:
  "vhd_dynamic_header_read_at (memory_source (memory_new vhd_sample)) 512 = Ok vhd_sample_disk"
proof -
  let ?d = vhd_sample_header
  have "subslice 0 8 ?d = lit ''cxsparse''" "u64_be 16 ?d = 1536" "u32_be 24 ?d = 0x00010000" "u32_be 28 ?d = 1"
    "u32_be 32 ?d = 2097152" "subslice 40 16 ?d = replicate 16 0"
    by (simp_all add: vhd_sample_header_def lit_def subslice_def u32_be_def u64_be_def
        from_be_bytes_def [of "[_, _, _, _]"] from_be_bytes_def [of "[_, _, _, _, _, _, _, _]"])
  moreover have "u64_be 8 ?d = 0xffffffffffffffff"
    by (simp add: vhd_sample_header_def lit_def subslice_def u64_be_def from_be_bytes_def)
  moreover have "subslice 64 512 ?d = 0 # 0 # replicate 510 0"
    by (simp add: vhd_sample_header_def lit_def subslice_def flip: replicate_Suc)
  then have "decode_ucs2_be_string (subslice 64 512 ?d) = []"
    by (simp add: decode_ucs2_be_string_def from_be_bytes_def from_utf16_def)
  ultimately show ?thesis
    by (simp add: vhd_dynamic_header_read_at_def vhd_sample_reads uuid_from_zeros vhd_sample_disk_def Let_def)
qed

lemma vhd_bitmap_loop_replicate:
  "vhd_bitmap_loop bpb (replicate n v @ bits) off ro v = vhd_bitmap_loop bpb bits (off + n * bpb) ro v"
  by (induction n arbitrary: off) (simp_all add: ac_simps)

lemma vhd_sample_ranges:
  "read_sector_bitmap_ranges vhd_sample_bitmap 512
     = Ok [\<lparr>vr_size = 4096, vr_is_set = True\<rparr>, \<lparr>vr_size = 2093056, vr_is_set = False\<rparr>]"
proof -
  have zeros: "bitmap_bits (replicate n 0) = replicate (8 * n) False" for n
    by (induction n) (simp_all add: bitmap_bits_def upt_rec replicate_add numeral_eq_Suc)
  have "bitmap_bits (0xff # data) = replicate 8 True @ bitmap_bits data" for data
    by (simp add: bitmap_bits_def upt_rec bit_numeral_rec numeral_eq_Suc)
  then have "bitmap_bits vhd_sample_bitmap = replicate 8 True @ False # replicate 4087 False @ []"
    using zeros [of 511] by (simp add: vhd_sample_bitmap_def flip: replicate_Suc)
  moreover have "bit (0xff :: byte) 7" by (simp add: bit_numeral_rec)
  ultimately show ?thesis
    unfolding read_sector_bitmap_ranges_def
    by (simp add: vhd_sample_bitmap_def vhd_bitmap_loop_replicate del: append_Nil2)
qed

lemma vhd_sample_open:
  "\<exists>v. vhd_open (memory_source (memory_new vhd_sample)) = Ok v \<and> vhd_disk_type v = Dynamic
     \<and> vhd_block_size v = 2097152 \<and> vhd_media_size v = 8192"
proof -
  let ?ds = "memory_source (memory_new vhd_sample)"
  let ?es = "[data_extent 0 4096 ?ds 2560, zero_extent 4096 4096]"
  have "vhd_build_dynamic_extents ?ds 2100224 8192 vhd_sample_disk None = Ok ?es"
    by (simp add: vhd_build_dynamic_extents_def vhd_sample_disk_def vhd_block_extents_def vhd_sample_reads mul_u64_def
        checked_mul_def checked_add_def u64_limit_def from_be_bytes_def vhd_parent_target_def zero_extent_def data_extent_def
        Let_def vhd_sector_bitmap_size_def div_ceil_def vhd_sample_ranges)
  moreover have "\<exists>em. extent_map_new ?es = Ok em"
    using extent_map_new_layout [of ?es] by (auto simp: zero_extent_def data_extent_def u64_limit_def)
  moreover have "uuid_is_nil (vd_parent_identifier vhd_sample_disk)"
    by (simp add: vhd_sample_disk_def uuid_is_nil_def nil_uuid_def)
  moreover have "vf_next_offset vhd_sample_end = 512" "vf_data_size vhd_sample_end = 8192" "vf_disk_type vhd_sample_end = 3"
    "vd_block_size vhd_sample_disk = 2097152"
    by (simp_all add: vhd_sample_end_def vhd_sample_disk_def)
  ultimately show ?thesis
    by (auto simp: vhd_open_def vhd_open_internal_def memory_size length_vhd_sample vhd_sample_footer_read
        vhd_sample_header_read vhd_parent_source_def)
qed

lemma vhd_sample_symmetric:
  assumes "x < 8192"
  shows "vhd_bitmap_symmetric vhd_sample_disk vhd_sample x"
    and "vhd_documented_byte vhd_sample_disk vhd_sample x = (if x < 4096 then 7 else 0)"
proof -
  have start: "vhd_sample ! i = vhd_sample_start ! i" if "i < 2560" for i
    using that by (simp add: vhd_sample_def nth_append length_vhd_sample)
  have "subslice 1536 4 vhd_sample = [0, 0, 0, 4]"
    by (simp add: vhd_sample_def vhd_sample_start_def subslice_def length_vhd_sample)
  then have entry: "u32_be 1536 vhd_sample = 4" by (simp add: u32_be_def from_be_bytes_def)
  have bitmap: "vhd_sample ! (2048 + i) = (if i = 0 then 0xff else 0)" if "i < 512" for i
    using start [of "2048 + i"] that
    by (simp add: vhd_sample_start_def vhd_sample_bitmap_def nth_append length_vhd_sample nth_Cons')
  have data: "vhd_sample ! (2560 + i) = 7" if "i < 2097152" for i
    using that by (simp add: vhd_sample_def nth_append length_vhd_sample) (simp add: vhd_sample_block_def)
  have ones: "bit (0xff :: byte) i" if "i < 8" for i
    using that by (auto simp: less_Suc_eq numeral_eq_Suc)
  have "x div 2097152 = 0" "x mod 2097152 = x" "x div 512 div 8 = 0 \<longleftrightarrow> x < 4096" "x div 512 div 8 < 512"
    using assms by (auto simp: div_mult2_eq [symmetric])
  then show "vhd_bitmap_symmetric vhd_sample_disk vhd_sample x"
    and "vhd_documented_byte vhd_sample_disk vhd_sample x = (if x < 4096 then 7 else 0)"
    using bitmap [of "x div 512 div 8"] data [of x] ones assms
    by (auto simp: vhd_bitmap_symmetric_def vhd_documented_byte_def vhd_sample_disk_def entry Let_def)
qed

section \<open>Properties\<close>

text \<open>
  (C11) The logical disk of an opened dynamic VHD has the size the footer gives.  Its byte at \<open>x\<close> is the one that
  \<open>docs/formats/src/vhd.md\<close> gives, the byte of the stored block when the block allocation table has the block and its
  sector bitmap has the sector, and 0 otherwise, wherever the bitmap byte of the sector reads the same from both ends
  (all or none of its eight sectors stored, say).  In general the code takes the lowest bit of a bitmap byte first, where
  the document has the highest one.  The block sizes are multiples of 2 MiB.
\<close>

theorem vhd_dynamic_disk_content:
  assumes "byte_source ds c" "vhd_open ds = Ok v" "vhd_disk_type v = Dynamic" "vhd_block_size v mod 2097152 = 0"
  shows "\<exists>footer header disk. vhd_footer_read_at ds (length c - 512) = Ok footer
    \<and> vhd_dynamic_header_read_at ds (vf_next_offset footer) = Ok header
    \<and> byte_source (vhd_logical_source v) disk \<and> (total_source ds c \<longrightarrow> exact_source (vhd_logical_source v) disk)
    \<and> length disk = vf_data_size footer \<and> vhd_media_size v = vf_data_size footer
    \<and> (\<forall>x < length disk. disk ! x = vhd_byte header c x
         \<and> (vhd_bitmap_symmetric header c x \<longrightarrow> disk ! x = vhd_documented_byte header c x))"
proof -
  from vhd_dynamic_content [OF assms(2) [unfolded vhd_open_def] assms(3,1,4)] obtain footer header where
    f: "vhd_footer_read_at ds (length c - 512) = Ok footer" "vhd_dynamic_header_read_at ds (vf_next_offset footer) = Ok header"
    and disk: "byte_source (vhd_logical_source v) (vhd_media header (vhd_media_size v) c)"
      "total_source ds c \<longrightarrow> exact_source (vhd_logical_source v) (vhd_media header (vhd_media_size v) c)"
    by blast
  have "vhd_media_size v = vf_data_size footer"
    using vhd_open_Ok [OF assms(2) [unfolded vhd_open_def]] f(1) byte_source.size_content [OF assms(1)]
    by (metis sum.inject(2))
  with f disk vhd_documented_byte_eq show ?thesis
    by (intro exI [of _ footer] exI [of _ header] exI [of _ "vhd_media header (vhd_media_size v) c"])
       (simp add: vhd_media_def)
qed

theorem vhd_dynamic_disk_content_witness:
  "\<exists>v. vhd_open (memory_source (memory_new vhd_sample)) = Ok v
     \<and> byte_source (vhd_logical_source v) (replicate 4096 7 @ replicate 4096 0)"
proof -
  let ?ds = "memory_source (memory_new vhd_sample)"
  obtain v where v: "vhd_open ?ds = Ok v" "vhd_disk_type v = Dynamic" "vhd_block_size v = 2097152" "vhd_media_size v = 8192"
    using vhd_sample_open by blast
  have block: "vhd_block_size v mod 2097152 = 0" by (simp add: v(3))
  have "vf_next_offset vhd_sample_end = 512" by (simp add: vhd_sample_end_def)
  with vhd_dynamic_disk_content [OF vhd_sample_source v(1,2) block] vhd_sample_footer_read vhd_sample_header_read
  obtain disk where disk: "byte_source (vhd_logical_source v) disk" "length disk = 8192"
    "\<forall>x < 8192. vhd_bitmap_symmetric vhd_sample_disk vhd_sample x \<longrightarrow> disk ! x = vhd_documented_byte vhd_sample_disk vhd_sample x"
    unfolding length_vhd_sample(6) v(4) by (simp add: v(4)) metis
  have "disk = replicate 4096 7 @ replicate 4096 0"
    using disk(2,3) vhd_sample_symmetric by (intro nth_equalityI) (auto simp: nth_append)
  with v(1) disk(1) show ?thesis by blast
qed

text \<open>
  The ranges read from a sector bitmap are a run-length encoding of it: together they have one
  sector per bit, and every sector of a range has the bit the range says.
\<close>

theorem vhd_bitmap_runs:
  assumes "read_sector_bitmap_ranges data bytes_per_bit = Ok rs" "0 < bytes_per_bit"
  shows "ranges_match (\<lambda>x. bit (data ! (x div bytes_per_bit div 8)) (x div bytes_per_bit mod 8)) 0 rs
    \<and> sum_list (map vr_size rs) = 8 * length data * bytes_per_bit"
  using read_sector_bitmap_ranges_Ok [OF assms] .

theorem vhd_bitmap_runs_witness:
  "\<exists>rs. read_sector_bitmap_ranges [0xf0] 512 = Ok rs \<and> sum_list (map vr_size rs) = 4096"
proof -
  obtain rs where rs: "read_sector_bitmap_ranges [0xf0] 512 = Ok rs"
    by (simp add: read_sector_bitmap_ranges_def)
  with vhd_bitmap_runs [OF rs] show ?thesis by auto
qed

text \<open>
  The first range starts with the highest bit of the first byte while the loop starts with the
  lowest one: when they differ, the first range is empty, and the extent map built from it is
  refused, so that a disk whose first block of the media has such a bitmap cannot be opened.
\<close>

theorem vhd_bitmap_empty_first_range:
  assumes "bit b 7 \<noteq> bit b 0"
  shows "\<exists>rs. read_sector_bitmap_ranges (b # data) bytes_per_bit = Ok (\<lparr>vr_size = 0, vr_is_set = bit b 7\<rparr> # rs)
    \<and> (\<forall>source parent media_size data_offset es es' em.
         vhd_range_extents source parent media_size 0 data_offset (\<lparr>vr_size = 0, vr_is_set = bit b 7\<rparr> # rs) = Ok es
         \<longrightarrow> 0 < media_size \<longrightarrow> extent_map_new (es @ es') \<noteq> Ok em)"
proof -
  obtain rs where "vhd_bitmap_loop bytes_per_bit (bitmap_bits (b # data)) 0 0 (bit b 7) = \<lparr>vr_size = 0, vr_is_set = bit b 7\<rparr> # rs"
    using assms by (simp add: bitmap_bits_def)
  then have "read_sector_bitmap_ranges (b # data) bytes_per_bit = Ok (\<lparr>vr_size = 0, vr_is_set = bit b 7\<rparr> # rs)"
    by (simp add: read_sector_bitmap_ranges_def)
  then show ?thesis by (auto simp: result_simps extent_map_new_def extent_errors_def Let_def)
qed

theorem vhd_bitmap_empty_first_range_witness:
  "\<exists>rs. read_sector_bitmap_ranges [0x01] 512 = Ok (\<lparr>vr_size = 0, vr_is_set = False\<rparr> # rs)"
  using vhd_bitmap_empty_first_range [of 1 "[]" 512] by auto

text \<open>
  The logical disk of an opened fixed VHD is the start of the file, of the size the footer gives,
  when the file has that many bytes.
\<close>

theorem vhd_fixed_disk_content:
  assumes "byte_source ds c" "vhd_open ds = Ok v" "vhd_disk_type v = Fixed" "vhd_media_size v \<le> length c"
  shows "byte_source (vhd_logical_source v) (take (vhd_media_size v) c)"
proof -
  have "slice_view ds c 0 (vhd_media_size v)"
    using assms(1,4) by (simp add: slice_view_def slice_view_axioms_def)
  from slice_view.view_byte_source [OF this] vhd_open_fixed [OF assms(2) [unfolded vhd_open_def] assms(3)]
  show ?thesis by (simp add: subslice_def)
qed

text \<open>A fixed disk of one sector.\<close>

definition vhd_fixed_footer :: "byte list" where
  "vhd_fixed_footer =
     lit ''conectix'' @ [0, 0, 0, 0, 0, 1, 0, 0, 0xff, 0xff, 0xff, 0xff, 0xff, 0xff, 0xff, 0xff] @ replicate 16 0
     @ [0, 0, 0, 0, 0, 0, 2, 0] @ replicate 12 0 @ [0, 0, 0, 2] @ replicate 448 0"

definition vhd_fixed_sample :: "byte list" where
  "vhd_fixed_sample = replicate 512 7 @ vhd_fixed_footer"

theorem vhd_fixed_disk_content_witness:
  "\<exists>v. vhd_open (memory_source (memory_new vhd_fixed_sample)) = Ok v
     \<and> byte_source (vhd_logical_source v) (replicate 512 7)"
proof -
  let ?ds = "memory_source (memory_new vhd_fixed_sample)" and ?d = vhd_fixed_footer
  have len: "length ?d = 512" "length vhd_fixed_sample = 1024"
    by (simp_all add: vhd_fixed_sample_def vhd_fixed_footer_def lit_def)
  have src: "byte_source ?ds vhd_fixed_sample" by (rule memory_byte) (simp add: len u64_limit_def)
  have "read_exact_at ?ds 512 512 = Ok (subslice 512 512 vhd_fixed_sample)"
    by (rule memory_read_exact) (simp_all add: len u64_limit_def)
  then have read: "read_exact_at ?ds 512 512 = Ok ?d" by (simp add: vhd_fixed_sample_def subslice_def len)
  have "subslice 0 8 ?d = lit ''conectix''" "u32_be 12 ?d = 0x00010000" "u64_be 16 ?d = 0xffffffffffffffff"
    "u32_be 60 ?d = 2" "u64_be 40 ?d = 512" "subslice 68 16 ?d = replicate 16 0"
    by (simp_all add: vhd_fixed_footer_def lit_def subslice_def u32_be_def u64_be_def
        from_be_bytes_def [of "[_, _, _, _]"] from_be_bytes_def [of "[_, _, _, _, _, _, _, _]"])
  then obtain v where v: "vhd_open ?ds = Ok v" "vhd_disk_type v = Fixed" "vhd_media_size v = 512"
    by (simp add: vhd_open_def vhd_open_internal_def vhd_footer_read_at_def memory_size len read uuid_from_zeros Let_def)
  have "vhd_media_size v \<le> length vhd_fixed_sample" by (simp add: v(3) len)
  from vhd_fixed_disk_content [OF src v(1,2) this] v show ?thesis by (auto simp: vhd_fixed_sample_def)
qed

end
