(* ===== verification/Vhdx.thy ===== *)
theory Vhdx
  imports Vhd Crc32
begin

text \<open>
  Virtual hard disks of the second version (\<open>image/vhdx/mod.rs\<close>): the two copies of the image header and
  of the region table, the metadata, the block allocation table with the sector bitmaps between its
  entries, and the extents of the logical disk, with a parent file for differential disks.
\<close>

section \<open>Headers\<close>

record VhdxImageHeader =
  vxh_sequence_number :: nat
  vxh_data_write_identifier :: Uuid
  vxh_format_version :: nat

record VhdxRegionTableEntry =
  vxr_data_offset :: nat
  vxr_data_size :: nat

record VhdxMetadataTableEntry =
  vxm_item_offset :: nat
  vxm_item_size :: nat

record VhdxMetadataValues =
  vxv_disk_type :: VhdDiskType
  vxv_block_size :: nat
  vxv_bytes_per_sector :: nat
  vxv_media_size :: nat
  vxv_parent_identifier :: "Uuid option"
  vxv_parent_name :: "str option"

record VhdxBatEntry =
  vxb_block_state :: nat
  vxb_block_offset :: nat

record VhdxFile =
  vx_format_version :: nat
  vx_disk_type :: VhdDiskType
  vx_identifier :: Uuid
  vx_parent_identifier :: "Uuid option"
  vx_parent_name :: "str option"
  vx_bytes_per_sector :: nat
  vx_block_size :: nat
  vx_media_size :: nat
  vx_logical_source :: data_source

definition make_uuid :: "nat \<Rightarrow> nat \<Rightarrow> nat \<Rightarrow> nat \<Rightarrow> nat \<Rightarrow> Uuid" where
  "make_uuid p1 p2 p3 p4 p5 =
     \<lparr>uuid_part1 = p1, uuid_part2 = p2, uuid_part3 = p3, uuid_part4 = p4, uuid_part5 = p5\<rparr>"

definition vhdx_bat_region_identifier :: Uuid where
  "vhdx_bat_region_identifier = make_uuid 0x2dc27766 0xf623 0x4200 0x9d64 0x115e9bfd4a08"

definition vhdx_metadata_region_identifier :: Uuid where
  "vhdx_metadata_region_identifier = make_uuid 0x8b7ca206 0x4790 0x4b9a 0xb8fe 0x575f050f886e"

definition vhdx_virtual_disk_size_identifier :: Uuid where
  "vhdx_virtual_disk_size_identifier = make_uuid 0x2fa54224 0xcd1b 0x4876 0xb211 0x5dbed83bf4b8"

definition vhdx_logical_sector_size_identifier :: Uuid where
  "vhdx_logical_sector_size_identifier = make_uuid 0x8141bf1d 0xa96f 0x4709 0xba47 0xf233a8faab5f"

definition vhdx_parent_locator_identifier :: Uuid where
  "vhdx_parent_locator_identifier = make_uuid 0xa8d35f2d 0xb30b 0x454d 0xabf7 0xd3d84834ab0c"

definition vhdx_file_parameters_identifier :: Uuid where
  "vhdx_file_parameters_identifier = make_uuid 0xcaa16737 0xfa36 0x4d43 0xb3b6 0x33f0aa44e76b"

definition vhdx_physical_sector_size_identifier :: Uuid where
  "vhdx_physical_sector_size_identifier = make_uuid 0xcda348c7 0x445d 0x4471 0x9cc9 0xe9885251c556"

definition vhdx_virtual_disk_identifier_identifier :: Uuid where
  "vhdx_virtual_disk_identifier_identifier = make_uuid 0xbeca12ab 0xb2e6 0x4523 0x93ef 0xc309e000c746"

definition vhdx_parent_locator_type_indicator :: "byte list" where
  "vhdx_parent_locator_type_indicator =
     [0xb7, 0xef, 0x4a, 0xb0, 0x9e, 0xd1, 0x81, 0x4a, 0xb7, 0x89, 0x25, 0xb8, 0xe9, 0x44, 0x59, 0x13]"

definition vhdx_read_u32_le :: "data_source \<Rightarrow> nat \<Rightarrow> nat result" where
  "vhdx_read_u32_le source offset = and_then (read_exact_at source offset 4) (\<lambda>data. Ok (from_le_bytes data))"

definition vhdx_read_u64_le :: "data_source \<Rightarrow> nat \<Rightarrow> nat result" where
  "vhdx_read_u64_le source offset = and_then (read_exact_at source offset 8) (\<lambda>data. Ok (from_le_bytes data))"

definition vhdx_validate_file_header :: "data_source \<Rightarrow> unit result" where
  "vhdx_validate_file_header source =
     and_then (read_exact_at source 0 65536) (\<lambda>data.
       if subslice 0 8 data \<noteq> lit ''vhdxfile'' then Err (Vhdx_error Vhdx_file_signature) else Ok ())"

text \<open>The checksum of a header: its own field counts as 0.\<close>

definition vhdx_checksum :: "byte list \<Rightarrow> nat" where
  "vhdx_checksum data =
     unat (fst (rcrc32_finalize (rcrc32_update (rcrc32_update (rcrc32_update (rcrc32_new 0x82f63b78 0)
       (subslice 0 4 data)) [0, 0, 0, 0]) (drop 8 data))))"

definition vhdx_read_image_header :: "data_source \<Rightarrow> nat \<Rightarrow> VhdxImageHeader result" where
  "vhdx_read_image_header source offset =
     and_then (read_exact_at source offset 4096) (\<lambda>data.
       if subslice 0 4 data \<noteq> lit ''head'' then Err (Vhdx_error Vhdx_image_header_signature)
       else if u32_le 4 data \<noteq> 0 \<and> u32_le 4 data \<noteq> vhdx_checksum data
       then Err (Vhdx_error Vhdx_image_header_checksum)
       else and_then (uuid_from_le_bytes (subslice 32 16 data)) (\<lambda>identifier.
         Ok \<lparr>vxh_sequence_number = u64_le 8 data, vxh_data_write_identifier = identifier,
             vxh_format_version = u16_le 66 data\<rparr>))"

definition vhdx_read_active_image_header :: "data_source \<Rightarrow> VhdxImageHeader result" where
  "vhdx_read_active_image_header source =
     (case (vhdx_read_image_header source 65536, vhdx_read_image_header source (2 * 65536)) of
        (Inr primary, Inr secondary) \<Rightarrow>
          if vxh_sequence_number secondary < vxh_sequence_number primary then Ok primary else Ok secondary
      | (Inr primary, Inl _) \<Rightarrow> Ok primary
      | (Inl _, Inr secondary) \<Rightarrow> Ok secondary
      | (Inl primary_error, Inl _) \<Rightarrow> Err primary_error)"

fun vhdx_region_entries :: "byte list \<Rightarrow> nat \<Rightarrow> nat \<Rightarrow> (Uuid \<rightharpoonup> VhdxRegionTableEntry)
    \<Rightarrow> (Uuid \<rightharpoonup> VhdxRegionTableEntry) result" where
  "vhdx_region_entries data 0 data_offset entries = Ok entries"
| "vhdx_region_entries data (Suc k) data_offset entries =
     (let data_end_offset = data_offset + 32 in
      if length data < data_end_offset then Err (Vhdx_error Vhdx_region_table_size)
      else and_then (uuid_from_le_bytes (subslice data_offset 16 data)) (\<lambda>type_identifier.
        vhdx_region_entries data k data_end_offset
          (entries(type_identifier \<mapsto> \<lparr>vxr_data_offset = u64_le (data_offset + 16) data,
                                      vxr_data_size = u32_le (data_offset + 24) data\<rparr>))))"

definition vhdx_read_region_table_at :: "data_source \<Rightarrow> nat \<Rightarrow> (Uuid \<rightharpoonup> VhdxRegionTableEntry) result" where
  "vhdx_read_region_table_at source offset =
     and_then (read_exact_at source offset 65536) (\<lambda>data.
       if subslice 0 4 data \<noteq> lit ''regi'' then Err (Vhdx_error Vhdx_region_table_signature)
       else
         let number_of_entries = u32_le 8 data in
         if 2047 < number_of_entries then Err (Vhdx_error Vhdx_region_table_count)
         else if u32_le 4 data \<noteq> 0 \<and> u32_le 4 data \<noteq> vhdx_checksum data
         then Err (Vhdx_error Vhdx_region_table_checksum)
         else vhdx_region_entries data number_of_entries 16 Map.empty)"

text \<open>The first attempt cannot panic: its slices are within the section of 64 KiB it has read.\<close>

definition vhdx_read_region_table :: "data_source \<Rightarrow> (Uuid \<rightharpoonup> VhdxRegionTableEntry) result" where
  "vhdx_read_region_table source =
     (case vhdx_read_region_table_at source (3 * 65536) of
        Inr entries \<Rightarrow> Ok entries
      | Inl _ \<Rightarrow> vhdx_read_region_table_at source (4 * 65536))"

section \<open>Metadata\<close>

fun vhdx_metadata_entries :: "byte list \<Rightarrow> nat \<Rightarrow> nat \<Rightarrow> (Uuid \<rightharpoonup> VhdxMetadataTableEntry)
    \<Rightarrow> (Uuid \<rightharpoonup> VhdxMetadataTableEntry) result" where
  "vhdx_metadata_entries data 0 data_offset entries = Ok entries"
| "vhdx_metadata_entries data (Suc k) data_offset entries =
     (let data_end_offset = data_offset + 32 in
      if length data < data_end_offset then Err (Vhdx_error Vhdx_metadata_table_size)
      else and_then (uuid_from_le_bytes (subslice data_offset 16 data)) (\<lambda>item_identifier.
        let item_offset = u32_le (data_offset + 16) data in
        if item_offset < 65536 then Err (Vhdx_error Vhdx_metadata_item_offset)
        else vhdx_metadata_entries data k data_end_offset
          (entries(item_identifier \<mapsto> \<lparr>vxm_item_offset = item_offset,
                                      vxm_item_size = u32_le (data_offset + 20) data\<rparr>))))"

definition vhdx_read_metadata_table :: "data_source \<Rightarrow> VhdxRegionTableEntry \<Rightarrow> (Uuid \<rightharpoonup> VhdxMetadataTableEntry) result" where
  "vhdx_read_metadata_table source metadata_region =
     and_then (read_exact_at source (vxr_data_offset metadata_region) 65536) (\<lambda>data.
       if subslice 0 8 data \<noteq> lit ''metadata'' then Err (Vhdx_error Vhdx_metadata_table_signature)
       else vhdx_metadata_entries data (u16_le 10 data) 32 Map.empty)"

fun vhdx_utf16_units :: "byte list \<Rightarrow> nat list" where
  "vhdx_utf16_units (a # b # rest) = from_le_bytes [a, b] # vhdx_utf16_units rest"
| "vhdx_utf16_units _ = []"

definition vhdx_decode_utf16_le_slice :: "byte list \<Rightarrow> nat \<Rightarrow> nat \<Rightarrow> str result" where
  "vhdx_decode_utf16_le_slice data offset data_size =
     and_then (ok_or (Vhdx_error Vhdx_locator_value_overflow) (checked_add offset data_size)) (\<lambda>end_offset.
       if offset < 20 \<or> length data \<le> offset \<or> length data < end_offset then Err (Vhdx_error Vhdx_locator_value_bounds)
       else if odd data_size then Err (Vhdx_error Vhdx_locator_value_size)
       else ok_or (Vhdx_error Vhdx_locator_encoding) (from_utf16 (vhdx_utf16_units (subslice offset data_size data))))"

fun vhdx_locator_entries :: "byte list \<Rightarrow> nat \<Rightarrow> nat \<Rightarrow> (str \<rightharpoonup> str) \<Rightarrow> (str \<rightharpoonup> str) result" where
  "vhdx_locator_entries data 0 data_offset entries = Ok entries"
| "vhdx_locator_entries data (Suc k) data_offset entries =
     (let data_end_offset = data_offset + 12 in
      if length data < data_end_offset then Err (Vhdx_error Vhdx_locator_table_size)
      else
        and_then (vhdx_decode_utf16_le_slice data (u32_le data_offset data) (u16_le (data_offset + 8) data)) (\<lambda>key.
        and_then (vhdx_decode_utf16_le_slice data (u32_le (data_offset + 4) data) (u16_le (data_offset + 10) data)) (\<lambda>val.
          vhdx_locator_entries data k data_end_offset (entries(key \<mapsto> val)))))"

text \<open>\<open>map_err\<close> replaces an error, a panic goes through.\<close>

definition vhdx_parent_linkage :: "str \<Rightarrow> Uuid result" where
  "vhdx_parent_linkage s =
     (case uuid_from_string s of
        Inr u \<Rightarrow> Ok u
      | Inl (Panic p) \<Rightarrow> Err (Panic p)
      | Inl _ \<Rightarrow> Err (Vhdx_error Vhdx_parent_identifier))"

definition vhdx_read_parent_locator :: "data_source \<Rightarrow> nat \<Rightarrow> nat \<Rightarrow> (Uuid option \<times> str option) result" where
  "vhdx_read_parent_locator source offset data_size =
     (if data_size < 20 \<or> 65536 < data_size then Err (Vhdx_error Vhdx_locator_size)
      else
        and_then (read_exact_at source offset data_size) (\<lambda>data.
          if subslice 0 16 data \<noteq> vhdx_parent_locator_type_indicator then Err (Vhdx_error Vhdx_locator_type)
          else
            and_then (vhdx_locator_entries data (u16_le 18 data) 20 Map.empty) (\<lambda>entries.
            and_then (case entries (lit ''parent_linkage'') of
                        None \<Rightarrow> Ok None
                      | Some parent_linkage \<Rightarrow>
                          and_then (vhdx_parent_linkage parent_linkage) (\<lambda>u. Ok (Some u))) (\<lambda>parent_identifier.
              let parent_name = (case entries (lit ''absolute_win32_path'') of
                                   Some p \<Rightarrow> Some p
                                 | None \<Rightarrow> (case entries (lit ''volume_path'') of
                                     Some p \<Rightarrow> Some p
                                   | None \<Rightarrow> entries (lit ''relative_path'')))
              in Ok (parent_identifier, parent_name)))))"

text \<open>An item of the metadata with its required size: the offset of its value.\<close>

definition vhdx_item_offset :: "VhdxRegionTableEntry \<Rightarrow> vhdx_item \<Rightarrow> VhdxMetadataTableEntry \<Rightarrow> nat result" where
  "vhdx_item_offset metadata_region item entry =
     ok_or (Vhdx_error (Vhdx_item_offset_overflow item)) (checked_add (vxr_data_offset metadata_region) (vxm_item_offset entry))"

definition vhdx_required_item :: "(Uuid \<rightharpoonup> VhdxMetadataTableEntry) \<Rightarrow> Uuid \<Rightarrow> vhdx_item \<Rightarrow> nat
    \<Rightarrow> VhdxMetadataTableEntry result" where
  "vhdx_required_item metadata_entries identifier item item_size =
     and_then (ok_or (Vhdx_error (Vhdx_missing_item item)) (metadata_entries identifier)) (\<lambda>entry.
       if vxm_item_size entry \<noteq> item_size then Err (Vhdx_error (Vhdx_item_size item)) else Ok entry)"

definition vhdx_disk_type_of_flags :: "nat \<Rightarrow> VhdDiskType result" where
  "vhdx_disk_type_of_flags flags =
     (let v = flags AND 0x00000003 in
      if v = 0 then Ok Fixed else if v = 1 then Ok Dynamic else if v = 2 then Ok Differential
      else Err (Vhdx_error Vhdx_disk_type_flags))"

definition vhdx_check_physical_sector_size :: "data_source \<Rightarrow> VhdxRegionTableEntry
    \<Rightarrow> (Uuid \<rightharpoonup> VhdxMetadataTableEntry) \<Rightarrow> unit result" where
  "vhdx_check_physical_sector_size source metadata_region metadata_entries =
     (case metadata_entries vhdx_physical_sector_size_identifier of
        None \<Rightarrow> Ok ()
      | Some entry \<Rightarrow>
          if vxm_item_size entry \<noteq> 4 then Err (Vhdx_error (Vhdx_item_size Physical_sector_size))
          else
            and_then (vhdx_item_offset metadata_region Physical_sector_size entry) (\<lambda>offset.
            and_then (vhdx_read_u32_le source offset) (\<lambda>physical_sector_size.
              if physical_sector_size \<noteq> 512 \<and> physical_sector_size \<noteq> 4096
              then Err (Vhdx_error (Vhdx_sector_size Physical_sector_size)) else Ok ())))"

definition vhdx_read_parent :: "data_source \<Rightarrow> VhdxRegionTableEntry
    \<Rightarrow> (Uuid \<rightharpoonup> VhdxMetadataTableEntry) \<Rightarrow> (Uuid option \<times> str option) result" where
  "vhdx_read_parent source metadata_region metadata_entries =
     (case metadata_entries vhdx_parent_locator_identifier of
        None \<Rightarrow> Ok (None, None)
      | Some entry \<Rightarrow>
          and_then (vhdx_item_offset metadata_region Parent_locator entry) (\<lambda>offset.
            vhdx_read_parent_locator source offset (vxm_item_size entry)))"

definition vhdx_read_metadata_values :: "data_source \<Rightarrow> VhdxRegionTableEntry \<Rightarrow> VhdxMetadataValues result" where
  "vhdx_read_metadata_values source metadata_region =
     (if vxr_data_size metadata_region < 65536 then Err (Vhdx_error Vhdx_metadata_region_size)
      else
        and_then (vhdx_read_metadata_table source metadata_region) (\<lambda>entries.
        and_then (vhdx_required_item entries vhdx_file_parameters_identifier File_parameters 8) (\<lambda>parameters.
        and_then (vhdx_item_offset metadata_region File_parameters parameters) (\<lambda>file_parameters_offset.
        and_then (vhdx_read_u32_le source file_parameters_offset) (\<lambda>block_size.
        and_then (add_u64 file_parameters_offset 4) (\<lambda>flags_offset.
        and_then (vhdx_read_u32_le source flags_offset) (\<lambda>file_parameters_flags.
        if block_size < 1024 * 1024 \<or> 256 * 1024 * 1024 < block_size then Err (Vhdx_error Vhdx_block_size)
        else
          and_then (vhdx_disk_type_of_flags file_parameters_flags) (\<lambda>disk_type.
          and_then (vhdx_required_item entries vhdx_virtual_disk_size_identifier Virtual_disk_size 8) (\<lambda>size_entry.
          and_then (vhdx_item_offset metadata_region Virtual_disk_size size_entry) (\<lambda>size_offset.
          and_then (vhdx_read_u64_le source size_offset) (\<lambda>media_size.
          and_then (vhdx_required_item entries vhdx_logical_sector_size_identifier Logical_sector_size 4) (\<lambda>sector_entry.
          and_then (vhdx_item_offset metadata_region Logical_sector_size sector_entry) (\<lambda>sector_offset.
          and_then (vhdx_read_u32_le source sector_offset) (\<lambda>logical_sector_size.
          if logical_sector_size \<noteq> 512 \<and> logical_sector_size \<noteq> 4096
          then Err (Vhdx_error (Vhdx_sector_size Logical_sector_size))
          else
            and_then (vhdx_check_physical_sector_size source metadata_region entries) (\<lambda>_.
            and_then (vhdx_required_item entries vhdx_virtual_disk_identifier_identifier Virtual_disk_identifier 16) (\<lambda>_.
            and_then (vhdx_read_parent source metadata_region entries) (\<lambda>(parent_identifier, parent_name).
              Ok \<lparr>vxv_disk_type = disk_type, vxv_block_size = block_size,
                  vxv_bytes_per_sector = logical_sector_size, vxv_media_size = media_size,
                  vxv_parent_identifier = parent_identifier, vxv_parent_name = parent_name\<rparr>)))))))))))))))))"

section \<open>Extents\<close>

definition vhdx_read_bat_entry :: "data_source \<Rightarrow> nat \<Rightarrow> nat \<Rightarrow> nat \<Rightarrow> VhdxBatEntry result" where
  "vhdx_read_bat_entry source bat_offset number_of_entries entry_index =
     (if number_of_entries \<le> entry_index then Err (Vhdx_error Vhdx_bat_index)
      else
        and_then (ok_or (Vhdx_error Vhdx_bat_offset_overflow) (checked_add bat_offset (entry_index * 8))) (\<lambda>entry_offset.
        and_then (vhdx_read_u64_le source entry_offset) (\<lambda>entry.
          Ok \<lparr>vxb_block_state = entry AND 0x0000000000000007, vxb_block_offset = entry AND 0xfffffffffff00000\<rparr>)))"

text \<open>The loop over the bits is that of theory \<open>Vhd\<close>; the first range has the first bit.\<close>

definition vhdx_read_sector_bitmap_ranges :: "byte list \<Rightarrow> nat \<Rightarrow> VhdSectorBitmapRange list result" where
  "vhdx_read_sector_bitmap_ranges data bytes_per_bit =
     (case data of
        [] \<Rightarrow> Err (Panic Index_out_of_bounds)
      | b # _ \<Rightarrow> Ok (vhd_bitmap_loop bytes_per_bit (bitmap_bits data) 0 0 (bit b 0)))"

fun vhdx_range_extents :: "data_source \<Rightarrow> data_source \<Rightarrow> nat \<Rightarrow> nat \<Rightarrow> nat
    \<Rightarrow> VhdSectorBitmapRange list \<Rightarrow> ExtentMapEntry list result" where
  "vhdx_range_extents source parent_source block_end_offset range_media_offset range_data_offset [] = Ok []"
| "vhdx_range_extents source parent_source block_end_offset range_media_offset range_data_offset (r # rs) =
     (if block_end_offset \<le> range_media_offset then Ok []
      else
        let range_size = min (vr_size r) (block_end_offset - range_media_offset);
            extent = \<lparr>ext_logical_offset = range_media_offset, ext_size = range_size,
                      ext_target = (if vr_is_set r then ExtentData source range_data_offset
                                    else ExtentData parent_source range_media_offset)\<rparr>
        in and_then (add_u64 range_media_offset range_size) (\<lambda>range_media_offset.
           and_then (add_u64 range_data_offset (vr_size r)) (\<lambda>range_data_offset.
           and_then (vhdx_range_extents source parent_source block_end_offset range_media_offset range_data_offset rs)
             (\<lambda>extents. Ok (extent # extents)))))"

text \<open>
  The arguments of \<open>build_differential_extents\<close> that every block shares are those of the disk.  The indices
  are bounded by the number of blocks, below 2 to the 44, and its chunks, so their sums and products do
  not overflow.
\<close>

definition vhdx_differential_extents :: "data_source \<Rightarrow> nat \<Rightarrow> nat \<Rightarrow> data_source \<Rightarrow> nat \<Rightarrow> nat \<Rightarrow> nat
    \<Rightarrow> nat \<Rightarrow> nat \<Rightarrow> nat \<Rightarrow> nat \<Rightarrow> ExtentMapEntry list result" where
  "vhdx_differential_extents source bat_offset number_of_entries parent_source block_number block_media_offset
     block_logical_size bytes_per_sector entries_per_chunk sector_bitmap_size block_offset =
     (let sector_bitmap_bat_index = (1 + block_number div entries_per_chunk) * (entries_per_chunk + 1) - 1 in
      and_then (vhdx_read_bat_entry source bat_offset number_of_entries sector_bitmap_bat_index) (\<lambda>sector_bitmap_entry.
      if vxb_block_state sector_bitmap_entry < 6 then Err (Vhdx_error Vhdx_sector_bitmap_state)
      else
        and_then (ok_or (Vhdx_error Vhdx_sector_bitmap_overflow)
                   (checked_add (vxb_block_offset sector_bitmap_entry)
                      (block_number mod entries_per_chunk * sector_bitmap_size))) (\<lambda>sector_bitmap_offset.
        and_then (read_exact_at source sector_bitmap_offset sector_bitmap_size) (\<lambda>sector_bitmap_data.
        and_then (vhdx_read_sector_bitmap_ranges sector_bitmap_data bytes_per_sector) (\<lambda>ranges.
        and_then (add_u64 block_media_offset block_logical_size) (\<lambda>block_end_offset.
          vhdx_range_extents source parent_source block_end_offset block_media_offset block_offset ranges))))))"

definition vhdx_table_entry_index :: "VhdDiskType \<Rightarrow> nat \<Rightarrow> nat \<Rightarrow> nat" where
  "vhdx_table_entry_index disk_type entries_per_chunk block_number =
     (if disk_type = Fixed then block_number
      else block_number div entries_per_chunk * (entries_per_chunk + 1) + block_number mod entries_per_chunk)"

definition vhdx_block_extents :: "data_source \<Rightarrow> VhdDiskType \<Rightarrow> nat \<Rightarrow> nat \<Rightarrow> nat \<Rightarrow> VhdxRegionTableEntry
    \<Rightarrow> data_source option \<Rightarrow> nat \<Rightarrow> nat \<Rightarrow> nat \<Rightarrow> ExtentMapEntry list result" where
  "vhdx_block_extents source disk_type block_size bytes_per_sector media_size bat_region parent_source
     entries_per_chunk sector_bitmap_size block_number =
     (let number_of_entries = vxr_data_size bat_region div 8 in
      and_then (ok_or (Vhdx_error Vhdx_block_media_offset_overflow) (checked_mul block_number block_size)) (\<lambda>block_media_offset.
      and_then (sub_u64 media_size block_media_offset) (\<lambda>left.
      let block_logical_size = min block_size left in
      and_then (vhdx_read_bat_entry source (vxr_data_offset bat_region) number_of_entries
                  (vhdx_table_entry_index disk_type entries_per_chunk block_number)) (\<lambda>entry.
      if disk_type = Differential \<and> vxb_block_state entry \<noteq> 6 then
        and_then (ok_or (Vhdx_error Vhdx_parent_source_required) parent_source) (\<lambda>parent_source.
          vhdx_differential_extents source (vxr_data_offset bat_region) number_of_entries parent_source block_number
            block_media_offset block_logical_size bytes_per_sector entries_per_chunk sector_bitmap_size
            (vxb_block_offset entry))
      else
        Ok [\<lparr>ext_logical_offset = block_media_offset, ext_size = block_logical_size,
             ext_target = (if vxb_block_state entry < 6 then ExtentZero
                           else ExtentData source (vxb_block_offset entry))\<rparr>]))))"

fun vhdx_blocks :: "(nat \<Rightarrow> ExtentMapEntry list result) \<Rightarrow> nat list \<Rightarrow> ExtentMapEntry list result" where
  "vhdx_blocks block_extents [] = Ok []"
| "vhdx_blocks block_extents (block_number # block_numbers) =
     and_then (block_extents block_number) (\<lambda>es.
     and_then (vhdx_blocks block_extents block_numbers) (\<lambda>extents. Ok (es @ extents)))"

definition vhdx_build_extents :: "data_source \<Rightarrow> VhdDiskType \<Rightarrow> nat \<Rightarrow> nat \<Rightarrow> nat \<Rightarrow> VhdxRegionTableEntry
    \<Rightarrow> data_source option \<Rightarrow> ExtentMapEntry list result" where
  "vhdx_build_extents source disk_type block_size bytes_per_sector media_size bat_region parent_source =
     (if block_size = 0 then Err (Panic Divide_by_zero)
      else
        let entries_per_chunk = 2 ^ 23 * bytes_per_sector div block_size in
        if entries_per_chunk mod u32_limit = 0 then Err (Panic Divide_by_zero)
        else
          let sector_bitmap_size = 1048576 div (entries_per_chunk mod u32_limit);
              number_of_entries = vxr_data_size bat_region div 8;
              number_of_blocks = div_ceil media_size block_size in
          and_then (mul_u64 number_of_entries block_size) (\<lambda>capacity.
            if capacity < media_size then Err (Vhdx_error Vhdx_too_few_blocks)
            else vhdx_blocks (vhdx_block_extents source disk_type block_size bytes_per_sector media_size bat_region
                                parent_source entries_per_chunk sector_bitmap_size) [0..<number_of_blocks]))"

section \<open>VhdxFile\<close>

definition vhdx_parent_source :: "VhdxMetadataValues \<Rightarrow> VhdxFile option \<Rightarrow> data_source option result" where
  "vhdx_parent_source metadata_values parent_file =
     (if vxv_disk_type metadata_values = Differential then
        and_then (ok_or (Vhdx_error Vhdx_parent_required) parent_file) (\<lambda>parent_file.
        and_then (ok_or (Vhdx_error Vhdx_parent_identifier_missing) (vxv_parent_identifier metadata_values)) (\<lambda>parent_identifier.
          if vx_identifier parent_file \<noteq> parent_identifier then Err (Vhdx_error Vhdx_parent_identifier_mismatch)
          else Ok (Some (vx_logical_source parent_file))))
      else Ok None)"

definition vhdx_open_internal :: "data_source \<Rightarrow> VhdxFile option \<Rightarrow> VhdxFile result" where
  "vhdx_open_internal source parent_file =
     and_then (vhdx_validate_file_header source) (\<lambda>_.
     and_then (vhdx_read_active_image_header source) (\<lambda>active_image_header.
     and_then (vhdx_read_region_table source) (\<lambda>region_table.
     and_then (ok_or (Vhdx_error Vhdx_missing_metadata_region) (region_table vhdx_metadata_region_identifier)) (\<lambda>metadata_region.
     and_then (ok_or (Vhdx_error Vhdx_missing_bat_region) (region_table vhdx_bat_region_identifier)) (\<lambda>bat_region.
     and_then (vhdx_read_metadata_values source metadata_region) (\<lambda>metadata_values.
     and_then (vhdx_parent_source metadata_values parent_file) (\<lambda>parent_source.
     and_then (vhdx_build_extents source (vxv_disk_type metadata_values) (vxv_block_size metadata_values)
                 (vxv_bytes_per_sector metadata_values) (vxv_media_size metadata_values) bat_region parent_source) (\<lambda>extents.
     and_then (extent_map_new extents) (\<lambda>em.
       Ok \<lparr>vx_format_version = vxh_format_version active_image_header, vx_disk_type = vxv_disk_type metadata_values,
           vx_identifier = vxh_data_write_identifier active_image_header,
           vx_parent_identifier = vxv_parent_identifier metadata_values, vx_parent_name = vxv_parent_name metadata_values,
           vx_bytes_per_sector = vxv_bytes_per_sector metadata_values, vx_block_size = vxv_block_size metadata_values,
           vx_media_size = vxv_media_size metadata_values, vx_logical_source = extent_map_source em\<rparr>)))))))))"

definition vhdx_open :: "data_source \<Rightarrow> VhdxFile result" where
  "vhdx_open source = vhdx_open_internal source None"

definition vhdx_open_with_parent :: "data_source \<Rightarrow> VhdxFile \<Rightarrow> VhdxFile result" where
  "vhdx_open_with_parent source parent_file = vhdx_open_internal source (Some parent_file)"

end
