(* ===== verification/Extent_Spans.thy ===== *)
theory Extent_Spans
  imports Extent_Map
begin

text \<open>
  Extents over several sources: a list of extents spans a range of the logical source with the bytes a
  function gives, each extent backed by the contents of its own source.
\<close>

definition spans :: "(data_source \<Rightarrow> byte list \<Rightarrow> bool) \<Rightarrow> nat \<Rightarrow> nat \<Rightarrow> (nat \<Rightarrow> byte) \<Rightarrow> ExtentMapEntry list \<Rightarrow> bool" where
  "spans P lo hi f es \<longleftrightarrow> lo + sum_list (map ext_size es) = hi \<and>
     (\<exists>cs. list_all2 (extent_backed P) es cs \<and> concat (map2 extent_content es cs) = map f [lo..<hi])"

lemma spans_nil [simp]: "spans P lo lo f []"
  by (simp add: spans_def)

lemma spans_append:
  assumes "spans P lo mid f es" "spans P mid hi f es'"
  shows "spans P lo hi f (es @ es')"
proof -
  obtain cs cs' where cs: "list_all2 (extent_backed P) es cs" "concat (map2 extent_content es cs) = map f [lo..<mid]"
    "list_all2 (extent_backed P) es' cs'" "concat (map2 extent_content es' cs') = map f [mid..<hi]"
    using assms by (auto simp: spans_def)
  have le: "lo \<le> mid" "mid \<le> hi" using assms unfolding spans_def by linarith+
  then have "[lo..<hi] = [lo..<mid] @ [mid..<hi]" using upt_add_eq_append [of lo mid "hi - mid"] by simp
  moreover have "list_all2 (extent_backed P) (es @ es') (cs @ cs')" using cs(1,3) by (rule list_all2_appendI)
  moreover have "length es = length cs" using cs(1) by (rule list_all2_lengthD)
  ultimately show ?thesis
    using cs assms by (auto simp: spans_def intro!: exI [of _ "cs @ cs'"])
qed

lemma spans_zero:
  assumes "\<And>x. lo \<le> x \<Longrightarrow> x < lo + sz \<Longrightarrow> f x = 0"
  shows "spans P lo (lo + sz) f [zero_extent lo sz]"
proof -
  have "replicate sz 0 = map f [lo..<lo + sz]" using assms by (intro nth_equalityI) simp_all
  then show ?thesis
    by (auto simp: spans_def extent_backed_def extent_content_def zero_extent_def intro!: exI [of _ "[[]]"])
qed

lemma spans_data:
  assumes "0 < sz" "P ds c" "\<And>x. lo \<le> x \<Longrightarrow> x < lo + sz \<Longrightarrow> off + (x - lo) < length c \<and> f x = c ! (off + (x - lo))"
  shows "spans P lo (lo + sz) f [data_extent lo sz ds off]"
proof -
  obtain k where k: "sz = Suc k" using assms(1) gr0_implies_Suc by blast
  have "off + sz \<le> length c" using assms(3) [of "lo + k"] k by simp
  moreover from this have "subslice off sz c = map f [lo..<lo + sz]" using slice_map_nth [of off sz c lo] assms(3) by simp
  ultimately show ?thesis
    using assms(2) by (auto simp: spans_def extent_backed_def extent_content_def data_extent_def intro!: exI [of _ "[c]"])
qed

lemma spans_byte_source:
  assumes "spans byte_source 0 hi f es" "extent_map_new es = Ok em"
  shows "byte_source (extent_map_source em) (map f [0..<hi])"
proof -
  obtain cs where "list_all2 (extent_backed byte_source) es cs" "concat (map2 extent_content es cs) = map f [0..<hi]"
    using assms(1) by (auto simp: spans_def)
  then show ?thesis using extent_map.map_byte_source [of es cs em] assms(2) by (simp add: extent_map_def)
qed

lemma spans_exact_source:
  assumes "spans total_source 0 hi f es" "extent_map_new es = Ok em"
  shows "exact_source (extent_map_source em) (map f [0..<hi])"
proof -
  obtain cs where cs: "list_all2 (extent_backed total_source) es cs" "concat (map2 extent_content es cs) = map f [0..<hi]"
    using assms(1) by (auto simp: spans_def)
  then have "total_extent_map es cs em"
    using assms(2) by unfold_locales (auto intro: list_all2_mono extent_backed_mono total_source.axioms(1))
  from total_extent_map.map_exact_source [OF this] show ?thesis by (simp add: cs(2))
qed

end
