(* ===== verification/Vhdx_Disk.thy ===== *)
theory Vhdx_Disk
  imports Vhdx Extent_Spans
begin

text \<open>
  The logical disk of a VHDX file: where the format places each byte of the disk, and that the extents
  \<open>image/vhdx/mod.rs\<close> builds have every byte from that place.
\<close>

section \<open>Where the bytes of a disk are\<close>

datatype vhdx_place = Place_zero | Place_own nat | Place_parent nat

text \<open>
  The place of the byte at \<open>x\<close> of a disk whose file has the contents \<open>c\<close> and its table at \<open>bat\<close>, as the format
  defines it: in the file, in the parent, or nowhere.
\<close>

definition vhdx_state :: "nat \<Rightarrow> byte list \<Rightarrow> nat \<Rightarrow> nat" where
  "vhdx_state bat c i = u64_le (bat + i * 8) c AND 0x0000000000000007"

definition vhdx_offset :: "nat \<Rightarrow> byte list \<Rightarrow> nat \<Rightarrow> nat" where
  "vhdx_offset bat c i = u64_le (bat + i * 8) c AND 0xfffffffffff00000"

definition vhdx_chunk :: "nat \<Rightarrow> nat \<Rightarrow> nat" where
  "vhdx_chunk block_size bytes_per_sector = 2 ^ 23 * bytes_per_sector div block_size"

definition vhdx_locate :: "VhdDiskType \<Rightarrow> nat \<Rightarrow> nat \<Rightarrow> nat \<Rightarrow> byte list \<Rightarrow> nat \<Rightarrow> vhdx_place" where
  "vhdx_locate disk_type block_size bytes_per_sector bat c x =
     (let chunk = vhdx_chunk block_size bytes_per_sector; k = x div block_size; r = x mod block_size;
          i = vhdx_table_entry_index disk_type chunk k
      in if disk_type = Differential \<and> vhdx_state bat c i \<noteq> 6 then
           let bitmap = vhdx_offset bat c ((1 + k div chunk) * (chunk + 1) - 1) + k mod chunk * (1048576 div chunk);
               s = r div bytes_per_sector
           in if bit (c ! (bitmap + s div 8)) (s mod 8) then Place_own (vhdx_offset bat c i + r) else Place_parent x
         else if vhdx_state bat c i < 6 then Place_zero
         else Place_own (vhdx_offset bat c i + r))"

fun vhdx_place_byte :: "byte list \<Rightarrow> byte list \<Rightarrow> vhdx_place \<Rightarrow> byte" where
  "vhdx_place_byte c cp Place_zero = 0"
| "vhdx_place_byte c cp (Place_own p) = c ! p"
| "vhdx_place_byte c cp (Place_parent p) = cp ! p"

fun vhdx_place_inside :: "byte list \<Rightarrow> byte list \<Rightarrow> vhdx_place \<Rightarrow> bool" where
  "vhdx_place_inside c cp Place_zero = True"
| "vhdx_place_inside c cp (Place_own p) = (p < length c)"
| "vhdx_place_inside c cp (Place_parent p) = (p < length cp)"

text \<open>
  The same place without the definitions of the driver, as \<open>docs/formats/src/vhdx.md\<close> has it: a chunk is as many
  blocks as one bitmap block of \<open>2 ^ 23\<close> bits covers, the table has the entry of the bitmap after the entries of each
  chunk unless the disk is fixed, an entry has the state in its low three bits and the offset from bit 20 on, and the
  bits of a bitmap count from the lowest one.  A sector that is neither in the file nor a zero is the parent's.
\<close>

definition vhdx_documented_entry :: "bool \<Rightarrow> nat \<Rightarrow> nat \<Rightarrow> nat \<Rightarrow> byte list \<Rightarrow> nat \<Rightarrow> nat \<times> nat" where
  "vhdx_documented_entry fixed block_size bytes_per_sector bat c x =
     (let chunk = 2 ^ 23 * bytes_per_sector div block_size; k = x div block_size;
          entry = u64_le (bat + 8 * (if fixed then k else k + k div chunk)) c
      in (entry mod 8, entry div 2 ^ 20 * 2 ^ 20))"

definition vhdx_documented_bit :: "nat \<Rightarrow> nat \<Rightarrow> nat \<Rightarrow> byte list \<Rightarrow> nat \<Rightarrow> bool" where
  "vhdx_documented_bit block_size bytes_per_sector bat c x =
     (let chunk = 2 ^ 23 * bytes_per_sector div block_size; k = x div block_size;
          entry = u64_le (bat + 8 * (chunk + k div chunk * (chunk + 1))) c;
          sector = k mod chunk * (block_size div bytes_per_sector) + x mod block_size div bytes_per_sector
      in bit (c ! (entry div 2 ^ 20 * 2 ^ 20 + sector div 8)) (sector mod 8))"

definition vhdx_documented_place :: "bool \<Rightarrow> bool \<Rightarrow> nat \<Rightarrow> nat \<Rightarrow> nat \<Rightarrow> byte list \<Rightarrow> nat \<Rightarrow> vhdx_place" where
  "vhdx_documented_place has_parent fixed block_size bytes_per_sector bat c x =
     (case vhdx_documented_entry fixed block_size bytes_per_sector bat c x of (state, offset) \<Rightarrow>
        if state = 6 \<or> has_parent \<and> state = 7 \<and> vhdx_documented_bit block_size bytes_per_sector bat c x
        then Place_own (offset + x mod block_size)
        else if has_parent \<and> state \<noteq> 2 then Place_parent x
        else Place_zero)"

text \<open>
  The states the place is read off correctly for: a disk without a parent has no partially present blocks, and in a
  disk with a parent no block is a zero block and the bitmap has no bits for a block that is not present.
\<close>

definition vhdx_documented_states :: "bool \<Rightarrow> bool \<Rightarrow> nat \<Rightarrow> nat \<Rightarrow> nat \<Rightarrow> byte list \<Rightarrow> nat \<Rightarrow> bool" where
  "vhdx_documented_states has_parent fixed block_size bytes_per_sector bat c x =
     (case vhdx_documented_entry fixed block_size bytes_per_sector bat c x of (state, offset) \<Rightarrow>
        if has_parent
        then state = 6 \<or> state = 7 \<or> state \<noteq> 2 \<and> \<not> vhdx_documented_bit block_size bytes_per_sector bat c x
        else state \<noteq> 7)"

lemma vhdx_entry_fields:
  assumes "e < u64_limit"
  shows "e AND 0x0000000000000007 = e mod 8" "e AND 0xfffffffffff00000 = e div 2 ^ 20 * 2 ^ 20"
proof -
  show "e AND 0x0000000000000007 = e mod 8"
    using take_bit_eq_mask [of 3 e] by (simp add: take_bit_eq_mod mask_eq_exp_minus_1)
  have small: "take_bit 44 (drop_bit 20 e) = drop_bit 20 e"
    using assms by (intro take_bit_nat_eq_self) (simp add: drop_bit_eq_div u64_limit_def)
  have "(0xfffffffffff00000 :: nat) = push_bit 20 (mask 44)" by (simp add: push_bit_eq_mult mask_eq_exp_minus_1)
  moreover have "e AND push_bit 20 (mask 44) = push_bit 20 (drop_bit 20 e AND mask 44)"
    by (auto intro!: bit_eqI simp: bit_simps)
  ultimately have "e AND 0xfffffffffff00000 = push_bit 20 (drop_bit 20 e AND mask 44)" by (simp only:)
  also have "\<dots> = push_bit 20 (drop_bit 20 e)" by (simp only: small flip: take_bit_eq_mask)
  finally show "e AND 0xfffffffffff00000 = e div 2 ^ 20 * 2 ^ 20" by (simp add: push_bit_eq_mult drop_bit_eq_div)
qed

lemma state_cases: "(n :: nat) < 8 \<Longrightarrow> n < 6 \<or> n = 6 \<or> n = 7"
  by linarith

lemma vhdx_documented_eq:
  assumes states: "vhdx_documented_states (dt = Differential) fixed bs bps bat c x"
    and pos: "0 < bs" "0 < bps" "0 < vhdx_chunk bs bps"
    and index: "if dt = Differential then \<not> fixed else x < vhdx_chunk bs bps * bs"
    and cov: "dt = Differential \<longrightarrow> 8 * (1048576 div vhdx_chunk bs bps) * bps = bs"
  shows "vhdx_locate dt bs bps bat c x = vhdx_documented_place (dt = Differential) fixed bs bps bat c x"
proof -
  define chunk where "chunk = vhdx_chunk bs bps"
  define k where "k = x div bs"
  have chunk: "2 ^ 23 * bps div bs = chunk" by (simp add: chunk_def vhdx_chunk_def)
  note fields = vhdx_entry_fields [OF u64_bounds(2)]
  have split: "k div chunk * chunk + k mod chunk = k" by simp
  then have interleaved: "k div chunk * (chunk + 1) + k mod chunk = k + k div chunk" by (simp only: distrib_left mult_1_right)
  have small: "k div chunk = 0" "k mod chunk = k" if "dt \<noteq> Differential"
  proof -
    have "k < chunk" using index that pos(1) by (simp add: k_def chunk_def div_less_iff_less_mult)
    then show "k div chunk = 0" "k mod chunk = k" by simp_all
  qed
  have i: "vhdx_table_entry_index dt chunk k = (if fixed then k else k + k div chunk)"
    using interleaved small index by (cases "dt = Differential") (auto simp: vhdx_table_entry_index_def)
  have entry: "vhdx_documented_entry fixed bs bps bat c x =
      (vhdx_state bat c (vhdx_table_entry_index dt chunk k), vhdx_offset bat c (vhdx_table_entry_index dt chunk k))"
    unfolding vhdx_documented_entry_def vhdx_state_def vhdx_offset_def fields Let_def chunk k_def [symmetric] i
    by (simp only: mult.commute [of 8])
  show ?thesis
  proof (cases "dt = Differential")
    case True
    define bm where "bm = 1048576 div chunk"
    have bm: "bs div bps = 8 * bm" using cov True pos(2) by (simp add: bm_def chunk_def) (metis nonzero_mult_div_cancel_right less_numeral_extra(3))
    have "(1 + k div chunk) * (chunk + 1) - 1 = chunk + k div chunk * (chunk + 1)" by simp
    moreover have "(k mod chunk * (8 * bm) + s) div 8 = k mod chunk * bm + s div 8" "(k mod chunk * (8 * bm) + s) mod 8 = s mod 8" for s
    proof -
      have "k mod chunk * (8 * bm) + s = s + 8 * (k mod chunk * bm)" by simp
      then show "(k mod chunk * (8 * bm) + s) div 8 = k mod chunk * bm + s div 8" "(k mod chunk * (8 * bm) + s) mod 8 = s mod 8"
        by (simp_all only: div_mult_self2 [of 8, simplified] mod_mult_self2 add.commute)
    qed
    ultimately have bit: "vhdx_documented_bit bs bps bat c x =
        bit (c ! (vhdx_offset bat c ((1 + k div chunk) * (chunk + 1) - 1) + k mod chunk * bm + x mod bs div bps div 8))
          (x mod bs div bps mod 8)"
      unfolding vhdx_documented_bit_def vhdx_offset_def fields Let_def chunk k_def [symmetric] bm
      by (simp only: mult.commute [of 8] add.assoc)
    show ?thesis
      using states True unfolding vhdx_documented_states_def vhdx_documented_place_def vhdx_locate_def entry bit Let_def
      by (auto simp: chunk_def [symmetric] k_def [symmetric] bm_def [symmetric])
  next
    case False
    have "vhdx_state bat c j < 8" for j unfolding vhdx_state_def fields by simp
    from state_cases [OF this] states False show ?thesis
      unfolding vhdx_documented_states_def vhdx_documented_place_def vhdx_locate_def entry Let_def
      by (auto simp: chunk_def [symmetric] k_def [symmetric])
  qed
qed

section \<open>The ranges of a bitmap\<close>

lemma vhd_bitmap_loop_positive:
  assumes "0 < bpb" "range_offset \<le> offset" "range_offset < offset \<or> (\<exists>bits'. bits = v # bits')"
  shows "\<forall>r \<in> set (vhd_bitmap_loop bpb bits offset range_offset v). 0 < vr_size r"
  using assms
proof (induction bits arbitrary: offset range_offset v)
  case (Cons b bits)
  show ?case
  proof (cases "b = v")
    case True
    then show ?thesis using Cons.IH [of range_offset "offset + bpb" v] Cons.prems by auto
  next
    case False
    then show ?thesis using Cons.IH [of offset "offset + bpb" b] Cons.prems by auto
  qed
qed auto

lemma vhdx_ranges_Ok:
  assumes "vhdx_read_sector_bitmap_ranges data bpb = Ok rs" "0 < bpb"
  shows "ranges_match (\<lambda>x. bit (data ! (x div bpb div 8)) (x div bpb mod 8)) 0 rs"
    "sum_list (map vr_size rs) = 8 * length data * bpb" "\<forall>r \<in> set rs. 0 < vr_size r"
proof -
  from assms(1) obtain b data' where d: "data = b # data'"
    and rs: "rs = vhd_bitmap_loop bpb (bitmap_bits data) (0 * bpb) 0 (bit b 0)"
    by (auto simp: vhdx_read_sector_bitmap_ranges_def split: list.splits)
  have "bit (data ! (x div bpb div 8)) (x div bpb mod 8) = bitmap_bits data ! i"
    if "i < length (bitmap_bits data)" "(0 + i) * bpb \<le> x \<and> x < (0 + i + 1) * bpb" for i x
  proof -
    have "x div bpb = i" using that(2) by (intro div_nat_eqI) (auto simp: mult.commute)
    with that(1) show ?thesis by (simp add: nth_bitmap_bits length_bitmap_bits)
  qed
  with vhd_bitmap_loop_match [of bpb 0 0 "\<lambda>x. bit (data ! (x div bpb div 8)) (x div bpb mod 8)" "bit b 0" "bitmap_bits data"]
    assms(2) show "ranges_match (\<lambda>x. bit (data ! (x div bpb div 8)) (x div bpb mod 8)) 0 rs"
    "sum_list (map vr_size rs) = 8 * length data * bpb"
    unfolding rs by (simp_all add: length_bitmap_bits)
  have "\<exists>bits. bitmap_bits data = bit b 0 # bits" by (simp add: d bitmap_bits_def)
  then show "\<forall>r \<in> set rs. 0 < vr_size r"
    unfolding rs using assms(2) by (intro vhd_bitmap_loop_positive) auto
qed

lemma vhdx_range_extents_spans:
  assumes "vhdx_range_extents ds ps e rmo rdo rs = Ok es" "ranges_match bit_at p rs" "rmo = base + p" "rdo = data_base + p"
    and "\<forall>r \<in> set rs. 0 < vr_size r" and P: "P ds c" "P ps cp"
    and f: "\<And>x. base \<le> x \<Longrightarrow> x < e \<Longrightarrow>
      (if bit_at (x - base) then data_base + (x - base) < length c \<and> f x = c ! (data_base + (x - base)) else x < length cp \<and> f x = cp ! x)"
  shows "spans P rmo (max rmo (min (rmo + sum_list (map vr_size rs)) e)) f es"
  using assms(1-5)
proof (induction rs arbitrary: p rmo rdo es)
  case Nil
  then show ?case by simp
next
  case (Cons r rs)
  show ?case
  proof (cases "e \<le> rmo")
    case True
    with Cons.prems(1) show ?thesis by simp
  next
    case False
    let ?sz = "min (vr_size r) (e - rmo)"
    let ?x = "if vr_is_set r then data_extent rmo ?sz ds rdo else data_extent rmo ?sz ps rmo"
    from Cons.prems(1) False obtain es' where es: "es = ?x # es'"
      and rec: "vhdx_range_extents ds ps e (rmo + ?sz) (rdo + vr_size r) rs = Ok es'"
      by (auto simp: Let_def result_simps data_extent_def)
    have sz: "0 < ?sz" using Cons.prems(5) False by simp
    have here: "if vr_is_set r then rdo + (x - rmo) < length c \<and> f x = c ! (rdo + (x - rmo)) else rmo + (x - rmo) < length cp \<and> f x = cp ! (rmo + (x - rmo))"
      if x: "rmo \<le> x" "x < rmo + ?sz" for x
    proof -
      have "p \<le> x - base" "x - base < p + vr_size r" using x Cons.prems(3) by auto
      then have "bit_at (x - base) = vr_is_set r" using Cons.prems(2) by simp
      moreover have "rdo + (x - rmo) = data_base + (x - base)" "base \<le> x" "x < e" using x Cons.prems(3,4) by auto
      ultimately show ?thesis using f [of x] x by auto
    qed
    have first: "spans P rmo (rmo + ?sz) f [?x]"
    proof (cases "vr_is_set r")
      case True
      then show ?thesis using here spans_data [of ?sz P ds c rmo rdo f] sz P(1) by simp
    next
      case F: False
      then show ?thesis using here spans_data [of ?sz P ps cp rmo rmo f] sz P(2) by simp
    qed
    show ?thesis
    proof (cases "vr_size r \<le> e - rmo")
      case True
      have "spans P (rmo + vr_size r) (max (rmo + vr_size r) (min (rmo + vr_size r + sum_list (map vr_size rs)) e)) f es'"
        using rec True Cons.prems by (intro Cons.IH [of "rmo + vr_size r" "rdo + vr_size r" es' "p + vr_size r"]) auto
      moreover have "spans P rmo (rmo + vr_size r) f [?x]" using first True by simp
      ultimately have "spans P rmo (max (rmo + vr_size r) (min (rmo + vr_size r + sum_list (map vr_size rs)) e)) f ([?x] @ es')"
        using spans_append by blast
      moreover have "max (rmo + vr_size r) (min (rmo + vr_size r + sum_list (map vr_size rs)) e)
          = max rmo (min (rmo + sum_list (map vr_size (r # rs))) e)"
        using True False by (auto simp: min_def max_def)
      ultimately show ?thesis by (simp add: es)
    next
      case trunc: False
      then have "?sz = e - rmo" by simp
      then have "es' = []" using rec False by (cases rs) auto
      moreover have "max rmo (min (rmo + sum_list (map vr_size (r # rs))) e) = rmo + ?sz"
        using trunc False by (auto simp: min_def max_def)
      ultimately show ?thesis using first by (simp add: es)
    qed
  qed
qed

section \<open>The blocks of a disk\<close>

lemma vhdx_bat_entry_Ok:
  assumes "vhdx_read_bat_entry ds bat n i = Ok entry" "byte_source ds c"
  shows "vxb_block_state entry = vhdx_state bat c i" "vxb_block_offset entry = vhdx_offset bat c i"
  using assms by (auto simp: vhdx_read_bat_entry_def vhdx_read_u64_le_def result_simps vhdx_state_def vhdx_offset_def u64_le_def
      dest: byte_source.read_exact_at_sound split: if_splits)

lemma block_position:
  assumes "k * bs \<le> x" "x < k * bs + (bs :: nat)"
  shows "x div bs = k" "x mod bs = x - k * bs"
proof -
  from assms show "x div bs = k" by (intro div_nat_eqI) (auto simp: mult.commute)
  then show "x mod bs = x - k * bs" by (metis minus_div_mult_eq_mod)
qed

lemma vhdx_differential_spans:
  assumes es: "vhdx_differential_extents ds bat n ps k (k * bs) sz bps chunk bm off = Ok es"
    and P: "P ds c" "P ps cp" and src: "byte_source ds c" and bm: "8 * bm * bps = bs" and pos: "0 < bps" and sz: "sz \<le> bs"
    and f: "\<And>x. k * bs \<le> x \<Longrightarrow> x < k * bs + sz \<Longrightarrow>
      (let bitmap = vhdx_offset bat c ((1 + k div chunk) * (chunk + 1) - 1) + k mod chunk * bm; s = (x - k * bs) div bps in
       if bit (c ! (bitmap + s div 8)) (s mod 8) then off + (x - k * bs) < length c \<and> f x = c ! (off + (x - k * bs))
       else x < length cp \<and> f x = cp ! x)"
  shows "spans P (k * bs) (k * bs + sz) f es"
proof -
  define bitmap where "bitmap = vhdx_offset bat c ((1 + k div chunk) * (chunk + 1) - 1) + k mod chunk * bm"
  from es obtain entry data rs where
    entry: "vhdx_read_bat_entry ds bat n ((1 + k div chunk) * (chunk + 1) - 1) = Ok entry"
    and data: "read_exact_at ds (vxb_block_offset entry + k mod chunk * bm) bm = Ok data"
    and rs: "vhdx_read_sector_bitmap_ranges data bps = Ok rs"
    and es': "vhdx_range_extents ds ps (k * bs + sz) (k * bs) off rs = Ok es"
    by (auto simp: vhdx_differential_extents_def Let_def result_simps split: if_splits)
  have d: "data = subslice bitmap bm c" "length data = bm"
    using byte_source.read_exact_at_sound [OF src data] vhdx_bat_entry_Ok [OF entry src] by (auto simp: bitmap_def)
  note m = vhdx_ranges_Ok [OF rs pos]
  have tot: "sum_list (map vr_size rs) = bs" using m(2) d(2) bm by simp
  have "spans P (k * bs) (max (k * bs) (min (k * bs + sum_list (map vr_size rs)) (k * bs + sz))) f es"
  proof (rule vhdx_range_extents_spans [where p = 0 and base = "k * bs" and data_base = off and c = c and cp = cp, OF es' m(1)])
    fix x
    assume x: "k * bs \<le> x" "x < k * bs + sz"
    have "(x - k * bs) div bps div 8 < bm" using x sz bm pos by (auto simp: div_less_iff_less_mult mult.commute mult.left_commute)
    then have "data ! ((x - k * bs) div bps div 8) = c ! (bitmap + (x - k * bs) div bps div 8)"
      using d(2) unfolding d(1) by (simp add: slice_simps)
    then show "if bit (data ! ((x - k * bs) div bps div 8)) ((x - k * bs) div bps mod 8)
        then off + (x - k * bs) < length c \<and> f x = c ! (off + (x - k * bs)) else x < length cp \<and> f x = cp ! x"
      using f [OF x] by (simp add: Let_def bitmap_def)
  qed (use m(3) P in auto)
  then show ?thesis using tot sz by simp
qed

text \<open>The bitmap of a block has one bit for each of its sectors.\<close>

definition vhdx_bitmap_covers :: "nat \<Rightarrow> nat \<Rightarrow> bool" where
  "vhdx_bitmap_covers block_size bytes_per_sector \<longleftrightarrow>
     8 * (1048576 div vhdx_chunk block_size bytes_per_sector) * bytes_per_sector = block_size"

lemma vhdx_block_extents_spans:
  assumes es: "vhdx_block_extents ds dt bs bps media region parent (vhdx_chunk bs bps) (1048576 div vhdx_chunk bs bps) k = Ok es"
    and k: "k * bs < media" and P: "P ds c" "\<And>ps. parent = Some ps \<Longrightarrow> P ps cp" and src: "byte_source ds c"
    and pos: "0 < bps" "0 < bs" and cov: "dt = Differential \<Longrightarrow> vhdx_bitmap_covers bs bps"
    and inside: "\<And>x. x < media \<Longrightarrow> vhdx_place_inside c cp (vhdx_locate dt bs bps (vxr_data_offset region) c x)"
  shows "spans P (k * bs) (min (Suc k * bs) media) (\<lambda>x. vhdx_place_byte c cp (vhdx_locate dt bs bps (vxr_data_offset region) c x)) es"
proof -
  define chunk where "chunk = vhdx_chunk bs bps"
  define sz where "sz = min bs (media - k * bs)"
  let ?bat = "vxr_data_offset region" and ?i = "vhdx_table_entry_index dt chunk k"
  let ?place = "vhdx_locate dt bs bps (vxr_data_offset region) c"
  have sz: "0 < sz" "sz \<le> bs" "min (Suc k * bs) media = k * bs + sz" using k pos by (auto simp: sz_def min_def)
  from es obtain entry where entry: "vhdx_read_bat_entry ds ?bat (vxr_data_size region div 8) ?i = Ok entry"
    and cont: "(if dt = Differential \<and> vxb_block_state entry \<noteq> 6 then
        and_then (ok_or (Vhdx_error Vhdx_parent_source_required) parent) (\<lambda>ps.
          vhdx_differential_extents ds ?bat (vxr_data_size region div 8) ps k (k * bs) sz bps chunk (1048576 div chunk) (vxb_block_offset entry))
      else Ok [if vxb_block_state entry < 6 then zero_extent (k * bs) sz else data_extent (k * bs) sz ds (vxb_block_offset entry)]) = Ok es"
    using k unfolding vhdx_block_extents_def Let_def chunk_def [symmetric] sz_def zero_extent_def data_extent_def
    by (auto simp: result_simps if_distrib [of "\<lambda>t. \<lparr>ext_logical_offset = k * bs, ext_size = min bs (media - k * bs), ext_target = t\<rparr>"] split: if_splits)
  note e = vhdx_bat_entry_Ok [OF entry src]
  have x: "x div bs = k" "x mod bs = x - k * bs" "x < media" if "k * bs \<le> x" "x < k * bs + sz" for x
    using that sz block_position [of k bs x] k by (auto simp: sz_def)
  show ?thesis
  proof (cases "dt = Differential \<and> vxb_block_state entry \<noteq> 6")
    case True
    then obtain ps where ps: "parent = Some ps" and es': "vhdx_differential_extents ds ?bat (vxr_data_size region div 8) ps k (k * bs) sz bps
        chunk (1048576 div chunk) (vxb_block_offset entry) = Ok es" using cont by (auto simp: result_simps)
    have "spans P (k * bs) (k * bs + sz) (\<lambda>x. vhdx_place_byte c cp (?place x)) es"
    proof (rule vhdx_differential_spans [OF es' P(1) P(2) [OF ps] src])
      show "8 * (1048576 div chunk) * bps = bs" using cov True by (simp add: vhdx_bitmap_covers_def chunk_def)
    next
      fix y
      assume y: "k * bs \<le> y" "y < k * bs + sz"
      show "let bitmap = vhdx_offset ?bat c ((1 + k div chunk) * (chunk + 1) - 1) + k mod chunk * (1048576 div chunk); s = (y - k * bs) div bps in
        if bit (c ! (bitmap + s div 8)) (s mod 8)
        then vxb_block_offset entry + (y - k * bs) < length c \<and> vhdx_place_byte c cp (?place y) = c ! (vxb_block_offset entry + (y - k * bs))
        else y < length cp \<and> vhdx_place_byte c cp (?place y) = cp ! y"
        using inside [OF x(3) [OF y]] True e x [OF y] by (auto simp: vhdx_locate_def Let_def chunk_def [symmetric] split: if_splits)
    qed (use pos sz in auto)
    then show ?thesis by (simp only: sz(3))
  next
    case False
    then have es': "es = [if vxb_block_state entry < 6 then zero_extent (k * bs) sz else data_extent (k * bs) sz ds (vxb_block_offset entry)]"
      using cont by (auto split: if_splits)
    have place: "?place y = (if vxb_block_state entry < 6 then Place_zero else Place_own (vxb_block_offset entry + (y - k * bs)))"
      if "k * bs \<le> y" "y < k * bs + sz" for y
      using False e x [OF that] by (auto simp: vhdx_locate_def Let_def chunk_def [symmetric])
    show ?thesis
      unfolding sz(3)
    proof (cases "vxb_block_state entry < 6")
      case True
      then show "spans P (k * bs) (k * bs + sz) (\<lambda>x. vhdx_place_byte c cp (?place x)) es"
        using spans_zero [of "k * bs" sz "\<lambda>x. vhdx_place_byte c cp (?place x)" P] place by (simp add: es')
    next
      case F: False
      have "vxb_block_offset entry + (y - k * bs) < length c" if "k * bs \<le> y" "y < k * bs + sz" for y
        using inside [OF x(3) [OF that]] place [OF that] F by simp
      then show "spans P (k * bs) (k * bs + sz) (\<lambda>x. vhdx_place_byte c cp (?place x)) es"
        using F spans_data [of sz P ds c "k * bs" "vxb_block_offset entry" "\<lambda>x. vhdx_place_byte c cp (?place x)"] P(1) place sz(1) by (simp add: es')
    qed
  qed
qed

lemma vhdx_blocks_spans:
  assumes "vhdx_blocks g [m..<n] = Ok es" "m \<le> n" "m * bs \<le> media" "(n - 1) * bs < media \<or> n = 0"
    and g: "\<And>k es. m \<le> k \<Longrightarrow> k < n \<Longrightarrow> g k = Ok es \<Longrightarrow> spans P (k * bs) (min (Suc k * bs) media) f es"
  shows "spans P (m * bs) (if m = n then m * bs else min (n * bs) media) f es"
  using assms
proof (induction "n - m" arbitrary: m es)
  case 0
  then show ?case by simp
next
  case (Suc d)
  then have m: "m < n" by simp
  with Suc.prems(1) obtain es1 es2 where es: "es = es1 @ es2" and es1: "g m = Ok es1" and es2: "vhdx_blocks g [Suc m..<n] = Ok es2"
    by (auto simp: upt_conv_Cons result_simps)
  have first: "spans P (m * bs) (min (Suc m * bs) media) f es1" using Suc.prems(5) [OF _ m es1] by simp
  show ?case
  proof (cases "Suc m = n")
    case True
    with es2 have "es2 = []" by simp
    with first True m show ?thesis by (simp add: es)
  next
    case False
    then have le: "Suc m \<le> n - 1" using m by simp
    have "Suc m * bs \<le> (n - 1) * bs" by (rule mult_le_mono1 [OF le])
    then have lt: "Suc m * bs \<le> media" using Suc.prems(4) m by auto
    have "spans P (Suc m * bs) (if Suc m = n then Suc m * bs else min (n * bs) media) f es2"
      using Suc.hyps(2) m lt by (intro Suc.hyps(1) es2 Suc.prems(4,5)) auto
    moreover have "min (Suc m * bs) media = Suc m * bs" using lt by simp
    ultimately show ?thesis using first False m spans_append es by auto
  qed
qed

lemma vhdx_blocks_Ok:
  assumes "vhdx_blocks g ks = Ok es" "k \<in> set ks"
  shows "\<exists>es'. g k = Ok es'"
  using assms by (induction ks arbitrary: es) (auto simp: result_simps)

lemma vhdx_build_extents_spans:
  assumes es: "vhdx_build_extents ds dt bs bps media region parent = Ok es"
    and P: "P ds c" "\<And>ps. parent = Some ps \<Longrightarrow> P ps cp" and src: "byte_source ds c"
    and pos: "0 < bps" "vhdx_chunk bs bps < u32_limit" and cov: "dt = Differential \<Longrightarrow> vhdx_bitmap_covers bs bps"
    and inside: "\<And>x. x < media \<Longrightarrow> vhdx_place_inside c cp (vhdx_locate dt bs bps (vxr_data_offset region) c x)"
  shows "spans P 0 media (\<lambda>x. vhdx_place_byte c cp (vhdx_locate dt bs bps (vxr_data_offset region) c x)) es"
proof -
  have bs: "0 < bs" using es by (cases bs) (auto simp: vhdx_build_extents_def)
  from es have blocks: "vhdx_blocks (vhdx_block_extents ds dt bs bps media region parent (vhdx_chunk bs bps) (1048576 div vhdx_chunk bs bps))
      [0..<div_ceil media bs] = Ok es"
    using pos(2) unfolding vhdx_build_extents_def Let_def vhdx_chunk_def [symmetric] by (auto simp: result_simps split: if_splits)
  note n = div_ceil_bounds [OF bs, of media]
  have ends: "(div_ceil media bs - 1) * bs < media \<or> div_ceil media bs = 0" using n by (cases "media = 0") (auto simp: div_ceil_def)
  have "spans P (0 * bs) (if 0 = div_ceil media bs then 0 * bs else min (div_ceil media bs * bs) media)
      (\<lambda>x. vhdx_place_byte c cp (vhdx_locate dt bs bps (vxr_data_offset region) c x)) es"
  proof (rule vhdx_blocks_spans [OF blocks _ _ ends])
    fix k es'
    assume k: "k < div_ceil media bs"
      and es': "vhdx_block_extents ds dt bs bps media region parent (vhdx_chunk bs bps) (1048576 div vhdx_chunk bs bps) k = Ok es'"
    have "k * bs \<le> (div_ceil media bs - 1) * bs" using k by (intro mult_le_mono1) simp
    then have "k * bs < media" using ends k by linarith
    then show "spans P (k * bs) (min (Suc k * bs) media) (\<lambda>x. vhdx_place_byte c cp (vhdx_locate dt bs bps (vxr_data_offset region) c x)) es'"
      using P src pos(1) bs cov inside by (intro vhdx_block_extents_spans [OF es']) auto
  qed simp_all
  moreover have "media = 0" if "div_ceil media bs = 0" using that n by simp
  moreover have "min (div_ceil media bs * bs) media = media" using n by simp
  ultimately show ?thesis by (auto split: if_splits)
qed

text \<open>The sizes that a file passes, and the size of the bitmap of a block.\<close>

lemma vhdx_metadata_sizes:
  assumes "vhdx_read_metadata_values ds region = Ok m"
  shows "1048576 \<le> vxv_block_size m" "vxv_block_size m \<le> 268435456" "vxv_bytes_per_sector m = 512 \<or> vxv_bytes_per_sector m = 4096"
  using assms by (auto simp: vhdx_read_metadata_values_def result_simps split: if_splits prod.splits)

lemma vhdx_chunk_bound:
  assumes "1048576 \<le> bs" "bps = 512 \<or> bps = 4096"
  shows "vhdx_chunk bs bps < u32_limit"
proof -
  have "2 ^ 23 * bps div bs \<le> 2 ^ 23 * bps div 1048576" using assms(1) by (intro div_le_mono2) auto
  also have "\<dots> < u32_limit" using assms(2) by (auto simp: u32_limit_def)
  finally show ?thesis by (simp add: vhdx_chunk_def)
qed

lemma vhdx_power_covers:
  assumes "1048576 \<le> (2 :: nat) ^ j" "(2 :: nat) ^ j \<le> 268435456" "bps = 512 \<or> bps = 4096"
  shows "vhdx_bitmap_covers (2 ^ j) bps"
proof -
  have two: "(1 :: nat) < 2" by simp
  have e: "(2 :: nat) ^ 20 \<le> 2 ^ j" "(2 :: nat) ^ j \<le> 2 ^ 28" using assms(1,2) by simp_all
  have "20 \<le> j" "j \<le> 28" using power_le_imp_le_exp [OF two e(1)] power_le_imp_le_exp [OF two e(2)] by simp_all
  then have "j \<in> {20, 21, 22, 23, 24, 25, 26, 27, 28}" by auto
  with assms(3) show ?thesis by (auto simp: vhdx_bitmap_covers_def vhdx_chunk_def)
qed

lemma vhdx_open_spans:
  assumes op: "vhdx_open_internal ds parent = Ok v" and src: "byte_source ds c"
    and P: "P ds c" "\<And>p. parent = Some p \<Longrightarrow> P (vx_logical_source p) cp"
    and region: "vhdx_read_region_table ds = Ok regions" "regions vhdx_bat_region_identifier = Some region"
    and pow: "vx_disk_type v = Differential \<longrightarrow> (\<exists>j. vx_block_size v = 2 ^ j)"
    and inside: "\<forall>x < vx_media_size v. vhdx_place_inside c cp
      (vhdx_locate (vx_disk_type v) (vx_block_size v) (vx_bytes_per_sector v) (vxr_data_offset region) c x)"
  shows "\<exists>es em. extent_map_new es = Ok em \<and> vx_logical_source v = extent_map_source em \<and>
    spans P 0 (vx_media_size v) (\<lambda>x. vhdx_place_byte c cp
      (vhdx_locate (vx_disk_type v) (vx_block_size v) (vx_bytes_per_sector v) (vxr_data_offset region) c x)) es"
proof -
  from op region obtain metadata m ps es em where
    m: "vhdx_read_metadata_values ds metadata = Ok m" and ps: "vhdx_parent_source m parent = Ok ps"
    and es: "vhdx_build_extents ds (vxv_disk_type m) (vxv_block_size m) (vxv_bytes_per_sector m) (vxv_media_size m) region ps = Ok es"
    and em: "extent_map_new es = Ok em"
    and v: "vx_disk_type v = vxv_disk_type m" "vx_block_size v = vxv_block_size m" "vx_bytes_per_sector v = vxv_bytes_per_sector m"
      "vx_media_size v = vxv_media_size m" "vx_logical_source v = extent_map_source em"
    by (auto simp: vhdx_open_internal_def result_simps)
  note sizes = vhdx_metadata_sizes [OF m]
  have "P s cp" if "ps = Some s" for s
    using that ps P(2) by (auto simp: vhdx_parent_source_def result_simps split: if_splits)
  moreover have "vhdx_bitmap_covers (vxv_block_size m) (vxv_bytes_per_sector m)" if "vxv_disk_type m = Differential"
    using that pow sizes vhdx_power_covers v by auto
  ultimately have "spans P 0 (vxv_media_size m) (\<lambda>x. vhdx_place_byte c cp
      (vhdx_locate (vxv_disk_type m) (vxv_block_size m) (vxv_bytes_per_sector m) (vxr_data_offset region) c x)) es"
    using src P(1) inside sizes vhdx_chunk_bound v by (intro vhdx_build_extents_spans [OF es]) auto
  with em v show ?thesis by auto
qed

section \<open>A sample\<close>

text \<open>
  A differential disk of two sectors with blocks of 1 MiB, in sections of 64 KiB of which only the start is given.  The
  section of the block allocation table is a parameter.
\<close>

definition vhdx_section :: "byte list \<Rightarrow> byte list" where
  "vhdx_section bs = bs @ replicate (65536 - length bs) 0"

definition vhdx_sample_start :: "byte list" where
  "vhdx_sample_start = lit ''vhdxfile'' @ replicate 504 0 @ replicate 512 5"

definition vhdx_sample_head :: "byte list" where
  "vhdx_sample_head = lit ''head'' @ replicate 62 0 @ [1, 0]"

definition vhdx_sample_regions :: "byte list" where
  "vhdx_sample_regions = lit ''regi'' @ [0, 0, 0, 0, 2, 0, 0, 0, 0, 0, 0, 0]
     @ [0x66, 0x77, 0xc2, 0x2d, 0x23, 0xf6, 0, 0x42, 0x9d, 0x64, 0x11, 0x5e, 0x9b, 0xfd, 0x4a, 0x08]
     @ [0, 0, 5, 0, 0, 0, 0, 0, 0, 0, 1, 0, 0, 0, 0, 0]
     @ [0x06, 0xa2, 0x7c, 0x8b, 0x90, 0x47, 0x9a, 0x4b, 0xb8, 0xfe, 0x57, 0x5f, 0x05, 0x0f, 0x88, 0x6e]
     @ [0, 0, 6, 0, 0, 0, 0, 0, 0, 0, 2, 0, 0, 0, 0, 0]"

definition vhdx_sample_metadata :: "byte list" where
  "vhdx_sample_metadata = lit ''metadata'' @ [0, 0, 5, 0] @ replicate 20 0
     @ [0x37, 0x67, 0xa1, 0xca, 0x36, 0xfa, 0x43, 0x4d, 0xb3, 0xb6, 0x33, 0xf0, 0xaa, 0x44, 0xe7, 0x6b]
     @ [0, 0, 1, 0, 8, 0, 0, 0, 0, 0, 0, 0, 0, 0, 0, 0]
     @ [0x24, 0x42, 0xa5, 0x2f, 0x1b, 0xcd, 0x76, 0x48, 0xb2, 0x11, 0x5d, 0xbe, 0xd8, 0x3b, 0xf4, 0xb8]
     @ [8, 0, 1, 0, 8, 0, 0, 0, 0, 0, 0, 0, 0, 0, 0, 0]
     @ [0x1d, 0xbf, 0x41, 0x81, 0x6f, 0xa9, 0x09, 0x47, 0xba, 0x47, 0xf2, 0x33, 0xa8, 0xfa, 0xab, 0x5f]
     @ [16, 0, 1, 0, 4, 0, 0, 0, 0, 0, 0, 0, 0, 0, 0, 0]
     @ [0xab, 0x12, 0xca, 0xbe, 0xe6, 0xb2, 0x23, 0x45, 0x93, 0xef, 0xc3, 0x09, 0xe0, 0x00, 0xc7, 0x46]
     @ [32, 0, 1, 0, 16, 0, 0, 0, 0, 0, 0, 0, 0, 0, 0, 0]
     @ [0x2d, 0x5f, 0xd3, 0xa8, 0x0b, 0xb3, 0x4d, 0x45, 0xab, 0xf7, 0xd3, 0xd8, 0x48, 0x34, 0xab, 0x0c]
     @ [48, 0, 1, 0, 132, 0, 0, 0, 0, 0, 0, 0, 0, 0, 0, 0]"

text \<open>The value of every character of a string as two bytes.\<close>

definition vhdx_wide :: "str \<Rightarrow> byte list" where
  "vhdx_wide cs = concat (map (\<lambda>ch. [ch, 0]) cs)"

definition vhdx_sample_locator :: "byte list" where
  "vhdx_sample_locator = vhdx_parent_locator_type_indicator @ [0, 0, 1, 0] @ [32, 0, 0, 0, 60, 0, 0, 0, 28, 0, 72, 0]
     @ vhdx_wide (lit ''parent_linkage'') @ vhdx_wide (uuid_to_string nil_uuid)"

definition vhdx_sample_items :: "byte list" where
  "vhdx_sample_items = [0, 0, 16, 0, 2, 0, 0, 0, 0, 4, 0, 0, 0, 0, 0, 0, 0, 2, 0, 0] @ replicate 28 0 @ vhdx_sample_locator"

definition vhdx_sample_sections :: "byte list \<Rightarrow> byte list list" where
  "vhdx_sample_sections bat = [vhdx_sample_start, vhdx_sample_head, vhdx_sample_head, vhdx_sample_regions, vhdx_sample_regions,
     bat, vhdx_sample_metadata, vhdx_sample_items]"

definition vhdx_sample :: "byte list \<Rightarrow> byte list" where
  "vhdx_sample bat = concat (map vhdx_section (vhdx_sample_sections bat))"

lemma subslice_concat:
  assumes "\<forall>x \<in> set xs. length x = n" "i < length xs" "j + k \<le> n"
  shows "subslice (i * n + j) k (concat xs) = subslice j k (xs ! i)"
  using assms
proof (induction xs arbitrary: i)
  case (Cons x xs)
  show ?case
  proof (cases i)
    case 0
    with Cons.prems show ?thesis by (simp add: subslice_def)
  next
    case (Suc i')
    with Cons show ?thesis by (simp add: subslice_def)
  qed
qed simp

lemma length_vhdx_wide [simp]: "length (vhdx_wide cs) = 2 * length cs"
  by (induction cs) (simp_all add: vhdx_wide_def)

lemma length_nil_uuid: "length (uuid_to_string nil_uuid) = 36"
  by (simp add: uuid_string_parts nil_uuid_def uuid_ok_def u16_limit_def u32_limit_def lit_def)

lemma vhdx_wide_decode:
  assumes "\<forall>ch \<in> set cs. ch < 0x80"
  shows "from_utf16 (vhdx_utf16_units (vhdx_wide cs)) = Some cs"
proof -
  have units: "vhdx_utf16_units (vhdx_wide cs) = map unat cs"
    by (induction cs) (simp_all add: vhdx_wide_def from_le_bytes_def from_be_bytes_def)
  have "utf16_scalars (map unat cs) = Some (map unat cs)" using assms
    by (induction cs) (auto simp: word_less_nat_alt)
  moreover have "concat (map utf8_encode (map unat cs)) = cs" using assms
    by (induction cs) (auto simp: word_less_nat_alt utf8_encode_def)
  ultimately show ?thesis by (simp add: units from_utf16_def)
qed

lemma vhdx_sample_lengths:
  assumes "length bat \<le> 65536"
  shows "\<forall>x \<in> set (map vhdx_section (vhdx_sample_sections bat)). length x = 65536"
    "length (vhdx_sample_sections bat) = 8"
  using assms
  by (simp_all add: vhdx_sample_sections_def vhdx_section_def vhdx_sample_start_def vhdx_sample_head_def vhdx_sample_regions_def
      vhdx_sample_metadata_def vhdx_sample_items_def vhdx_sample_locator_def vhdx_parent_locator_type_indicator_def
      length_nil_uuid lit_def)

lemma length_vhdx_sample: "length bat \<le> 65536 \<Longrightarrow> length (vhdx_sample bat) = 524288"
proof -
  assume bat: "length bat \<le> 65536"
  have "length (concat xs) = length xs * n" if "\<forall>x \<in> set xs. length x = n" for xs :: "byte list list" and n
    using that by (induction xs) auto
  from this [OF vhdx_sample_lengths(1) [OF bat]] show ?thesis by (simp add: vhdx_sample_def vhdx_sample_lengths(2) [OF bat])
qed

lemma vhdx_section_length:
  "length bs \<le> 65536 \<Longrightarrow> length (vhdx_section bs) = 65536"
  by (simp add: vhdx_section_def)

lemma vhdx_section_subslice:
  "j + k \<le> length bs \<Longrightarrow> subslice j k (vhdx_section bs) = subslice j k bs"
  by (simp add: vhdx_section_def subslice_def)

lemma vhdx_section_read:
  assumes "j + 2 \<le> length bs"
  shows "u16_le j (vhdx_section bs) = from_le_bytes (subslice j 2 bs)"
  using assms by (simp add: u16_le_def vhdx_section_subslice)

lemma vhdx_section_read4:
  assumes "j + 4 \<le> length bs"
  shows "u32_le j (vhdx_section bs) = from_le_bytes (subslice j 4 bs)"
  using assms by (simp add: u32_le_def vhdx_section_subslice)

lemma vhdx_section_read8:
  assumes "j + 8 \<le> length bs"
  shows "u64_le j (vhdx_section bs) = from_le_bytes (subslice j 8 bs)"
  using assms by (simp add: u64_le_def vhdx_section_subslice)

lemmas vhdx_section_reads = vhdx_section_read vhdx_section_read4 vhdx_section_read8 vhdx_section_subslice

lemma vhdx_sample_sizes:
  "length vhdx_sample_start = 1024" "length vhdx_sample_head = 68" "length vhdx_sample_regions = 80"
  "length vhdx_sample_metadata = 192" "length vhdx_sample_locator = 132" "length vhdx_sample_items = 180"
  by (simp_all add: vhdx_sample_start_def vhdx_sample_head_def vhdx_sample_regions_def vhdx_sample_metadata_def
      vhdx_sample_items_def vhdx_sample_locator_def vhdx_parent_locator_type_indicator_def length_nil_uuid lit_def)

lemma vhdx_sample_slice:
  assumes "length bat \<le> 65536" "i < 8" "j + k \<le> 65536"
  shows "subslice (i * 65536 + j) k (vhdx_sample bat) = subslice j k (vhdx_section (vhdx_sample_sections bat ! i))"
  using subslice_concat [OF vhdx_sample_lengths(1) [OF assms(1)], of i j k] assms
  by (simp add: vhdx_sample_def vhdx_sample_lengths(2))

lemma vhdx_sample_read:
  assumes "length bat \<le> 65536" "i < 8" "j + k \<le> 65536"
  shows "read_exact_at (memory_source (memory_new (vhdx_sample bat))) (i * 65536 + j) k
    = Ok (subslice j k (vhdx_section (vhdx_sample_sections bat ! i)))"
proof -
  have "i * 65536 + j + k \<le> 524288" using assms by linarith
  then have "read_exact_at (memory_source (memory_new (vhdx_sample bat))) (i * 65536 + j) k = Ok (subslice (i * 65536 + j) k (vhdx_sample bat))"
    by (intro memory_read_exact) (simp_all add: length_vhdx_sample [OF assms(1)] u64_limit_def)
  with vhdx_sample_slice [OF assms] show ?thesis by simp
qed

lemma vhdx_sample_whole_sections:
  assumes "length bat \<le> 65536" "i < 8"
  shows "read_exact_at (memory_source (memory_new (vhdx_sample bat))) (i * 65536) 65536 = Ok (vhdx_section (vhdx_sample_sections bat ! i))"
proof -
  have "length (vhdx_section (vhdx_sample_sections bat ! i)) = 65536" using vhdx_sample_lengths [OF assms(1)] assms(2) by simp
  with vhdx_sample_read [OF assms, of 0 65536] show ?thesis by (simp add: subslice_def)
qed

definition vhdx_sample_table :: "Uuid \<rightharpoonup> VhdxRegionTableEntry" where
  "vhdx_sample_table = [vhdx_bat_region_identifier \<mapsto> \<lparr>vxr_data_offset = 327680, vxr_data_size = 65536\<rparr>,
     vhdx_metadata_region_identifier \<mapsto> \<lparr>vxr_data_offset = 393216, vxr_data_size = 131072\<rparr>]"

lemma vhdx_sample_regions_of:
  "vhdx_sample_table vhdx_metadata_region_identifier = Some \<lparr>vxr_data_offset = 393216, vxr_data_size = 131072\<rparr>"
  "vhdx_sample_table vhdx_bat_region_identifier = Some \<lparr>vxr_data_offset = 327680, vxr_data_size = 65536\<rparr>"
  by (simp_all add: vhdx_sample_table_def vhdx_metadata_region_identifier_def vhdx_bat_region_identifier_def make_uuid_def)

lemma vhdx_sample_region_table:
  assumes "length bat \<le> 65536"
  shows "vhdx_read_region_table (memory_source (memory_new (vhdx_sample bat))) = Ok vhdx_sample_table"
proof -
  let ?d = "vhdx_section vhdx_sample_regions"
  have "read_exact_at (memory_source (memory_new (vhdx_sample bat))) (3 * 65536) 65536 = Ok ?d"
    using vhdx_sample_whole_sections [OF assms, of 3] by (simp add: vhdx_sample_sections_def)
  moreover have "subslice 0 4 ?d = lit ''regi''" "u32_le 4 ?d = 0" "u32_le 8 ?d = 2"
    by (simp_all add: vhdx_section_reads vhdx_sample_sizes)
      (simp_all add: vhdx_sample_regions_def lit_def subslice_def from_le_bytes_def from_be_bytes_def)
  moreover have "uuid_from_le_bytes (subslice 16 16 ?d) = Ok vhdx_bat_region_identifier" "u64_le 32 ?d = 327680" "u32_le 40 ?d = 65536"
    "uuid_from_le_bytes (subslice 48 16 ?d) = Ok vhdx_metadata_region_identifier" "u64_le 64 ?d = 393216" "u32_le 72 ?d = 131072"
    by (simp_all add: vhdx_section_reads vhdx_sample_sizes)
      (simp_all add: vhdx_sample_regions_def lit_def subslice_def from_le_bytes_def from_be_bytes_def uuid_from_le_bytes_def
        u32_le_def u16_le_def u16_be_def u32_be_def vhdx_bat_region_identifier_def vhdx_metadata_region_identifier_def make_uuid_def Let_def)
  moreover have "length ?d = 65536" by (simp add: vhdx_section_length vhdx_sample_sizes)
  moreover have "vhdx_region_entries ?d 2 16 Map.empty = vhdx_region_entries ?d (Suc (Suc 0)) 16 Map.empty" by (simp only: numeral_2_eq_2)
  ultimately show ?thesis
    by (simp add: vhdx_read_region_table_def vhdx_read_region_table_at_def vhdx_sample_table_def Let_def)
qed

lemma vhdx_sample_header:
  assumes "length bat \<le> 65536" "i = 1 \<or> i = 2"
  shows "vhdx_read_image_header (memory_source (memory_new (vhdx_sample bat))) (i * 65536) =
    Ok \<lparr>vxh_sequence_number = 0, vxh_data_write_identifier = nil_uuid, vxh_format_version = 1\<rparr>"
proof -
  let ?d = "subslice 0 4096 (vhdx_section vhdx_sample_head)"
  have sub: "subslice j k ?d = subslice j k vhdx_sample_head" if "j + k \<le> 68" for j k
    using that by (simp add: slice_simps vhdx_section_def subslice_def vhdx_sample_sizes)
  have "read_exact_at (memory_source (memory_new (vhdx_sample bat))) (i * 65536) 4096 = Ok ?d"
    using vhdx_sample_read [OF assms(1), of i 0 4096] assms(2) by (auto simp: vhdx_sample_sections_def)
  moreover have "subslice 0 4 ?d = lit ''head''" "u32_le 4 ?d = 0" "u64_le 8 ?d = 0" "u16_le 66 ?d = 1"
    "uuid_from_le_bytes (subslice 32 16 ?d) = Ok nil_uuid"
    unfolding u32_le_def u64_le_def u16_le_def
    by (simp_all add: sub) (simp_all add: vhdx_sample_head_def lit_def subslice_def from_le_bytes_def [of "[_, _]"]
        from_be_bytes_def [of "[_, _]"] uuid_from_le_bytes_def u32_le_def u16_le_def u16_be_def u32_be_def nil_uuid_def Let_def)
  ultimately show ?thesis by (simp add: vhdx_read_image_header_def)
qed

lemma vhdx_sample_active_header:
  "length bat \<le> 65536 \<Longrightarrow> vhdx_read_active_image_header (memory_source (memory_new (vhdx_sample bat))) =
    Ok \<lparr>vxh_sequence_number = 0, vxh_data_write_identifier = nil_uuid, vxh_format_version = 1\<rparr>"
  using vhdx_sample_header [of bat 1] vhdx_sample_header [of bat 2] by (simp add: vhdx_read_active_image_header_def)

lemma vhdx_sample_file_header:
  "length bat \<le> 65536 \<Longrightarrow> vhdx_validate_file_header (memory_source (memory_new (vhdx_sample bat))) = Ok ()"
  using vhdx_sample_whole_sections [of bat 0]
  by (simp add: vhdx_validate_file_header_def vhdx_sample_sections_def vhdx_section_subslice vhdx_sample_sizes)
    (simp add: vhdx_sample_start_def subslice_def lit_def)

definition vhdx_sample_metadata_table :: "Uuid \<rightharpoonup> VhdxMetadataTableEntry" where
  "vhdx_sample_metadata_table =
     [vhdx_file_parameters_identifier \<mapsto> \<lparr>vxm_item_offset = 65536, vxm_item_size = 8\<rparr>,
      vhdx_virtual_disk_size_identifier \<mapsto> \<lparr>vxm_item_offset = 65544, vxm_item_size = 8\<rparr>,
      vhdx_logical_sector_size_identifier \<mapsto> \<lparr>vxm_item_offset = 65552, vxm_item_size = 4\<rparr>,
      vhdx_virtual_disk_identifier_identifier \<mapsto> \<lparr>vxm_item_offset = 65568, vxm_item_size = 16\<rparr>,
      vhdx_parent_locator_identifier \<mapsto> \<lparr>vxm_item_offset = 65584, vxm_item_size = 132\<rparr>]"

lemmas vhdx_identifier_defs = vhdx_file_parameters_identifier_def vhdx_virtual_disk_size_identifier_def vhdx_logical_sector_size_identifier_def
  vhdx_virtual_disk_identifier_identifier_def vhdx_physical_sector_size_identifier_def vhdx_parent_locator_identifier_def make_uuid_def

lemma vhdx_sample_metadata_read:
  assumes "length bat \<le> 65536"
  shows "vhdx_read_metadata_table (memory_source (memory_new (vhdx_sample bat))) \<lparr>vxr_data_offset = 393216, vxr_data_size = 131072\<rparr> =
    Ok vhdx_sample_metadata_table"
proof -
  let ?d = "vhdx_section vhdx_sample_metadata"
  have "read_exact_at (memory_source (memory_new (vhdx_sample bat))) 393216 65536 = Ok ?d"
    using vhdx_sample_whole_sections [OF assms, of 6] by (simp add: vhdx_sample_sections_def)
  moreover have "subslice 0 8 ?d = lit ''metadata''" "u16_le 10 ?d = 5"
    by (simp_all add: vhdx_section_reads vhdx_sample_sizes)
      (simp_all add: vhdx_sample_metadata_def lit_def subslice_def from_le_bytes_def from_be_bytes_def)
  moreover have "uuid_from_le_bytes (subslice 32 16 ?d) = Ok vhdx_file_parameters_identifier" "u32_le 48 ?d = 65536" "u32_le 52 ?d = 8"
    "uuid_from_le_bytes (subslice 64 16 ?d) = Ok vhdx_virtual_disk_size_identifier" "u32_le 80 ?d = 65544" "u32_le 84 ?d = 8"
    "uuid_from_le_bytes (subslice 96 16 ?d) = Ok vhdx_logical_sector_size_identifier" "u32_le 112 ?d = 65552" "u32_le 116 ?d = 4"
    "uuid_from_le_bytes (subslice 128 16 ?d) = Ok vhdx_virtual_disk_identifier_identifier" "u32_le 144 ?d = 65568" "u32_le 148 ?d = 16"
    "uuid_from_le_bytes (subslice 160 16 ?d) = Ok vhdx_parent_locator_identifier" "u32_le 176 ?d = 65584" "u32_le 180 ?d = 132"
    by (simp_all add: vhdx_section_reads vhdx_sample_sizes)
      (simp_all add: vhdx_sample_metadata_def lit_def subslice_def from_le_bytes_def from_be_bytes_def uuid_from_le_bytes_def
        u32_le_def u16_le_def u16_be_def u32_be_def vhdx_identifier_defs Let_def)
  moreover have "length ?d = 65536" by (simp add: vhdx_section_length vhdx_sample_sizes)
  moreover have "vhdx_metadata_entries ?d 5 32 Map.empty = vhdx_metadata_entries ?d (Suc (Suc (Suc (Suc (Suc 0))))) 32 Map.empty"
    by (rule arg_cong [of _ _ "\<lambda>n. vhdx_metadata_entries ?d n 32 Map.empty"]) simp
  ultimately show ?thesis
    by (simp add: vhdx_read_metadata_table_def vhdx_sample_metadata_table_def Let_def)
qed

lemma vhdx_sample_locator_read:
  assumes "read_exact_at ds 458800 132 = Ok vhdx_sample_locator"
  shows "vhdx_read_parent_locator ds 458800 132 = Ok (Some nil_uuid, None)"
proof -
  let ?d = vhdx_sample_locator
  have ok: "uuid_ok nil_uuid" by (simp add: nil_uuid_def uuid_ok_def u16_limit_def u32_limit_def)
  have "subslice 0 16 ?d = vhdx_parent_locator_type_indicator" "u16_le 18 ?d = 1" "u32_le 20 ?d = 32" "u32_le 24 ?d = 60"
    "u16_le 28 ?d = 28" "u16_le 30 ?d = 72" "subslice 32 28 ?d = vhdx_wide (lit ''parent_linkage'')"
    "subslice 60 72 ?d = vhdx_wide (uuid_to_string nil_uuid)"
    by (simp_all add: vhdx_sample_locator_def vhdx_parent_locator_type_indicator_def subslice_def lit_def length_nil_uuid
        u16_le_def u32_le_def from_le_bytes_def from_be_bytes_def)
  moreover have "from_utf16 (vhdx_utf16_units (vhdx_wide (lit ''parent_linkage''))) = Some (lit ''parent_linkage'')"
    by (rule vhdx_wide_decode) (simp add: lit_def)
  moreover have "from_utf16 (vhdx_utf16_units (vhdx_wide (uuid_to_string nil_uuid))) = Some (uuid_to_string nil_uuid)"
    by (rule vhdx_wide_decode [OF uuid_string_ascii [OF ok]])
  moreover have "lit ''absolute_win32_path'' \<noteq> lit ''parent_linkage''" "lit ''volume_path'' \<noteq> lit ''parent_linkage''"
    "lit ''relative_path'' \<noteq> lit ''parent_linkage''"
    by (simp_all add: lit_def)
  ultimately show ?thesis
    using assms vhdx_sample_sizes(5) uuid_round_trip [OF ok]
    by (simp add: vhdx_read_parent_locator_def vhdx_decode_utf16_le_slice_def checked_add_def u64_limit_def vhdx_parent_linkage_def
        Let_def)
qed

definition vhdx_sample_values :: VhdxMetadataValues where
  "vhdx_sample_values = \<lparr>vxv_disk_type = Differential, vxv_block_size = 1048576, vxv_bytes_per_sector = 512, vxv_media_size = 1024,
     vxv_parent_identifier = Some nil_uuid, vxv_parent_name = None\<rparr>"

lemma vhdx_sample_metadata_values:
  assumes "length bat \<le> 65536"
  shows "vhdx_read_metadata_values (memory_source (memory_new (vhdx_sample bat))) \<lparr>vxr_data_offset = 393216, vxr_data_size = 131072\<rparr> =
    Ok vhdx_sample_values"
proof -
  let ?ds = "memory_source (memory_new (vhdx_sample bat))" and ?t = vhdx_sample_metadata_table
  have item: "read_exact_at ?ds (458752 + j) k = Ok (subslice j k vhdx_sample_items)" if "j + k \<le> 180" for j k
    using that vhdx_sample_read [OF assms, of 7 j k] by (simp add: vhdx_sample_sections_def vhdx_section_subslice vhdx_sample_sizes)
  have "subslice 48 132 vhdx_sample_items = vhdx_sample_locator"
    by (simp add: vhdx_sample_items_def subslice_def vhdx_sample_sizes(5))
  then have "vhdx_read_parent_locator ?ds 458800 132 = Ok (Some nil_uuid, None)"
    using item [of 48 132] by (intro vhdx_sample_locator_read) simp
  moreover have "read_exact_at ?ds 458752 4 = Ok [0, 0, 16, 0]" "read_exact_at ?ds 458756 4 = Ok [2, 0, 0, 0]"
    "read_exact_at ?ds 458760 8 = Ok [0, 4, 0, 0, 0, 0, 0, 0]" "read_exact_at ?ds 458768 4 = Ok [0, 2, 0, 0]"
    using item [of 0 4] item [of 4 4] item [of 8 8] item [of 16 4] by (simp_all add: vhdx_sample_items_def subslice_def)
  moreover have "?t vhdx_file_parameters_identifier = Some \<lparr>vxm_item_offset = 65536, vxm_item_size = 8\<rparr>"
    "?t vhdx_virtual_disk_size_identifier = Some \<lparr>vxm_item_offset = 65544, vxm_item_size = 8\<rparr>"
    "?t vhdx_logical_sector_size_identifier = Some \<lparr>vxm_item_offset = 65552, vxm_item_size = 4\<rparr>"
    "?t vhdx_virtual_disk_identifier_identifier = Some \<lparr>vxm_item_offset = 65568, vxm_item_size = 16\<rparr>"
    "?t vhdx_physical_sector_size_identifier = None"
    "?t vhdx_parent_locator_identifier = Some \<lparr>vxm_item_offset = 65584, vxm_item_size = 132\<rparr>"
    by (simp_all add: vhdx_sample_metadata_table_def vhdx_identifier_defs)
  ultimately show ?thesis
    by (simp add: vhdx_read_metadata_values_def vhdx_sample_metadata_read [OF assms] vhdx_required_item_def vhdx_item_offset_def checked_add_def
        add_u64_def u64_limit_def vhdx_read_u32_le_def vhdx_read_u64_le_def from_le_bytes_def from_be_bytes_def vhdx_disk_type_of_flags_def
        vhdx_check_physical_sector_size_def vhdx_read_parent_def vhdx_sample_values_def)
qed

text \<open>A parent, and a block allocation table with a partially present block and the bitmap of its chunk.\<close>

definition vhdx_sample_parent :: VhdxFile where
  "vhdx_sample_parent = \<lparr>vx_format_version = 1, vx_disk_type = Fixed, vx_identifier = nil_uuid, vx_parent_identifier = None,
     vx_parent_name = None, vx_bytes_per_sector = 512, vx_block_size = 1048576, vx_media_size = 1024,
     vx_logical_source = memory_source (memory_new (replicate 1024 9))\<rparr>"

definition vhdx_sample_bat :: "byte list" where
  "vhdx_sample_bat = [7] @ replicate 32767 0 @ [6]"

lemma vhdx_sample_bat_slices:
  "length vhdx_sample_bat = 32769" "subslice 0 8 (vhdx_section vhdx_sample_bat) = [7, 0, 0, 0, 0, 0, 0, 0]"
  "subslice 32768 8 (vhdx_section vhdx_sample_bat) = [6, 0, 0, 0, 0, 0, 0, 0]"
proof -
  have "replicate 7 (0 :: byte) = [0, 0, 0, 0, 0, 0, 0]" by (simp add: numeral_eq_Suc)
  then show "length vhdx_sample_bat = 32769" "subslice 0 8 (vhdx_section vhdx_sample_bat) = [7, 0, 0, 0, 0, 0, 0, 0]"
    "subslice 32768 8 (vhdx_section vhdx_sample_bat) = [6, 0, 0, 0, 0, 0, 0, 0]"
    by (simp_all add: vhdx_section_def vhdx_sample_bat_def subslice_def)
qed

lemma vhdx_sample_ranges:
  "\<exists>rs. vhdx_read_sector_bitmap_ranges (subslice 0 256 (vhdx_section vhdx_sample_start)) 512
     = Ok (\<lparr>vr_size = 512, vr_is_set = False\<rparr> # \<lparr>vr_size = 1024, vr_is_set = True\<rparr> # rs)"
proof -
  have "subslice 0 256 (vhdx_section vhdx_sample_start) = 0x76 # subslice 1 255 vhdx_sample_start"
    by (simp add: vhdx_section_subslice vhdx_sample_sizes) (simp add: vhdx_sample_start_def subslice_def lit_def)
  moreover have "bitmap_bits (0x76 # data) = [False, True, True, False, True, True, True, False] @ bitmap_bits data" for data
    by (simp add: bitmap_bits_def upt_rec bit_numeral_rec)
  moreover have "\<not> bit (0x76 :: byte) 0" by simp
  ultimately show ?thesis by (simp add: vhdx_read_sector_bitmap_ranges_def)
qed

lemma vhdx_sample_extents:
  defines "ds \<equiv> memory_source (memory_new (vhdx_sample vhdx_sample_bat))"
  shows "vhdx_build_extents ds Differential 1048576 512 1024 \<lparr>vxr_data_offset = 327680, vxr_data_size = 65536\<rparr> (Some p)
    = Ok [data_extent 0 512 p 0, data_extent 512 512 ds 512]"
proof -
  have bat: "length vhdx_sample_bat \<le> 65536" by (simp add: vhdx_sample_bat_slices)
  have reads: "read_exact_at ds 327680 8 = Ok [7, 0, 0, 0, 0, 0, 0, 0]" "read_exact_at ds 360448 8 = Ok [6, 0, 0, 0, 0, 0, 0, 0]"
    "read_exact_at ds 0 256 = Ok (subslice 0 256 (vhdx_section vhdx_sample_start))"
    using vhdx_sample_read [OF bat, of 5 0 8] vhdx_sample_read [OF bat, of 5 32768 8] vhdx_sample_read [OF bat, of 0 0 256]
    by (simp_all add: ds_def vhdx_sample_sections_def vhdx_sample_bat_slices)
  obtain rs where rs: "vhdx_read_sector_bitmap_ranges (subslice 0 256 (vhdx_section vhdx_sample_start)) 512
     = Ok (\<lparr>vr_size = 512, vr_is_set = False\<rparr> # \<lparr>vr_size = 1024, vr_is_set = True\<rparr> # rs)"
    using vhdx_sample_ranges by blast
  have empty: "vhdx_range_extents ds p 1024 1024 e rs = Ok []" for e by (cases rs) simp_all
  show ?thesis
    by (simp add: vhdx_build_extents_def u32_limit_def div_ceil_def mul_u64_def u64_limit_def vhdx_block_extents_def checked_mul_def
        sub_u64_def vhdx_read_bat_entry_def vhdx_table_entry_index_def checked_add_def vhdx_read_u64_le_def from_le_bytes_def from_be_bytes_def
        vhdx_differential_extents_def add_u64_def reads rs empty data_extent_def Let_def)
qed

lemma vhdx_sample_open:
  "\<exists>v. vhdx_open_with_parent (memory_source (memory_new (vhdx_sample vhdx_sample_bat))) vhdx_sample_parent = Ok v
     \<and> vx_disk_type v = Differential \<and> vx_block_size v = 1048576 \<and> vx_bytes_per_sector v = 512 \<and> vx_media_size v = 1024"
proof -
  let ?ds = "memory_source (memory_new (vhdx_sample vhdx_sample_bat))" and ?p = "vx_logical_source vhdx_sample_parent"
  let ?es = "[data_extent 0 512 ?p 0, data_extent 512 512 ?ds 512]"
  have bat: "length vhdx_sample_bat \<le> 65536" by (simp add: vhdx_sample_bat_slices)
  have "\<exists>em. extent_map_new ?es = Ok em"
    using extent_map_new_layout [of ?es] by (auto simp: data_extent_def u64_limit_def)
  then show ?thesis
    using vhdx_sample_extents [of ?p]
    by (auto simp: vhdx_open_with_parent_def vhdx_open_internal_def vhdx_sample_file_header [OF bat] vhdx_sample_active_header [OF bat]
        vhdx_sample_region_table [OF bat] vhdx_sample_regions_of vhdx_sample_metadata_values [OF bat] vhdx_parent_source_def
        vhdx_sample_values_def vhdx_sample_parent_def)
qed

section \<open>Blocks without a bitmap\<close>

lemma vhdx_region_entries_bounds:
  assumes "vhdx_region_entries data n off entries = Ok regions" "\<forall>e \<in> ran entries. vxr_data_size e < u32_limit"
  shows "\<forall>e \<in> ran regions. vxr_data_size e < u32_limit"
  using assms
proof (induction n arbitrary: off entries)
  case (Suc n)
  from Suc.prems(1) obtain u where "vhdx_region_entries data n (off + 32) (entries(u \<mapsto> \<lparr>vxr_data_offset = u64_le (off + 16) data,
      vxr_data_size = u32_le (off + 24) data\<rparr>)) = Ok regions"
    by (auto simp: result_simps Let_def split: if_splits)
  moreover have "\<forall>e \<in> ran (entries(u \<mapsto> \<lparr>vxr_data_offset = u64_le (off + 16) data, vxr_data_size = u32_le (off + 24) data\<rparr>)).
      vxr_data_size e < u32_limit"
    using Suc.prems(2) field_bounds(4) by (auto simp: ran_def)
  ultimately show ?case by (rule Suc.IH)
qed simp

lemma vhdx_region_bounds:
  assumes "vhdx_read_region_table ds = Ok regions" "regions i = Some region"
  shows "vxr_data_size region < u32_limit"
proof -
  from assms(1) obtain off where "vhdx_read_region_table_at ds off = Ok regions"
    by (auto simp: vhdx_read_region_table_def split: sum.splits)
  then obtain data n where "vhdx_region_entries data n 16 Map.empty = Ok regions"
    by (auto simp: vhdx_read_region_table_at_def result_simps Let_def split: if_splits)
  from vhdx_region_entries_bounds [OF this] assms(2) show ?thesis by (auto simp: ran_def)
qed

lemma vhdx_bat_entry_total:
  assumes "total_source ds c" "i < n" "bat + n * 8 \<le> length c"
  shows "vhdx_read_bat_entry ds bat n i = Ok \<lparr>vxb_block_state = vhdx_state bat c i, vxb_block_offset = vhdx_offset bat c i\<rparr>"
proof -
  note src = total_source.axioms(1) [OF assms(1)]
  have inside: "bat + i * 8 + 8 \<le> length c" "bat + i * 8 < u64_limit"
    using assms(2,3) byte_source.content_u64 [OF src] by linarith+
  have read: "read_exact_at ds (bat + i * 8) 8 = Ok (subslice (bat + i * 8) 8 c)"
    using total_source.read_exact_at_total [OF assms(1) inside(2), of 8] inside(1) by simp
  show ?thesis
    using read inside assms(2) by (simp add: vhdx_read_bat_entry_def vhdx_read_u64_le_def checked_add_def vhdx_state_def vhdx_offset_def u64_le_def)
qed

lemma vhdx_blocks_fails:
  assumes "\<forall>k \<in> set ks. \<exists>es. g k = Ok es" "g k = Err e"
  shows "vhdx_blocks g (ks @ k # rest) = Err e"
  using assms by (induction ks) auto

lemma vhdx_chunk_positive: "0 < bs \<Longrightarrow> bs \<le> 268435456 \<Longrightarrow> bps = 512 \<or> bps = 4096 \<Longrightarrow> 0 < vhdx_chunk bs bps"
  by (auto simp: vhdx_chunk_def div_greater_zero_iff)

lemma vhdx_table_capacity: "n < u32_limit \<Longrightarrow> bs \<le> 268435456 \<Longrightarrow> n div 8 * bs < u64_limit"
proof -
  assume "n < u32_limit" "bs \<le> 268435456"
  then have "n div 8 * bs \<le> 2 ^ 29 * 268435456" by (intro mult_le_mono) (simp_all add: u32_limit_def)
  then show ?thesis by (simp add: u64_limit_def)
qed

lemma vhdx_media_u64: "vhdx_read_metadata_values ds region = Ok m \<Longrightarrow> byte_source ds c \<Longrightarrow> vxv_media_size m < u64_limit"
proof -
  assume src: "byte_source ds c" and "vhdx_read_metadata_values ds region = Ok m"
  then obtain off where "vhdx_read_u64_le ds off = Ok (vxv_media_size m)"
    by (auto simp: vhdx_read_metadata_values_def result_simps split: if_splits prod.splits)
  then obtain bs where "read_exact_at ds off 8 = Ok bs" "vxv_media_size m = from_le_bytes bs"
    by (auto simp: vhdx_read_u64_le_def result_simps)
  with byte_source.read_exact_at_sound [OF src] have "vxv_media_size m = u64_le off c" by (auto simp: u64_le_def)
  then show ?thesis by (simp add: u64_bounds)
qed

lemma vhdx_documented_entry_state:
  assumes "0 < bs"
  shows "fst (vhdx_documented_entry False bs bps bat c (k * bs)) = vhdx_state bat c (vhdx_table_entry_index Differential (vhdx_chunk bs bps) k)"
proof -
  have "k div chunk * chunk + k mod chunk = k" for chunk by simp
  then have "k div chunk * (chunk + 1) + k mod chunk = k + k div chunk" for chunk by (metis (no_types) add.commute add.left_commute distrib_left mult_1_right)
  moreover have "k * bs div bs = k" using assms by simp
  ultimately show ?thesis
    by (simp only: vhdx_documented_entry_def Let_def vhdx_table_entry_index_def vhdx_chunk_def vhdx_state_def
        vhdx_entry_fields [OF u64_bounds(2)] fst_conv if_False VhdDiskType.distinct mult.commute [of 8])
qed

lemma vhdx_block_entry:
  assumes "total_source ds c" "vxr_data_offset region + vxr_data_size region \<le> length c" "0 < bs" "media < u64_limit" "k * bs < media"
    and "chunk + k div chunk * (chunk + 1) < vxr_data_size region div 8" "0 < chunk" "j \<le> k"
  shows "checked_mul j bs = Some (j * bs)" "sub_u64 media (j * bs) = Ok (media - j * bs)"
    "vhdx_read_bat_entry ds (vxr_data_offset region) (vxr_data_size region div 8) (vhdx_table_entry_index Differential chunk j)
      = Ok \<lparr>vxb_block_state = vhdx_state (vxr_data_offset region) c (vhdx_table_entry_index Differential chunk j),
          vxb_block_offset = vhdx_offset (vxr_data_offset region) c (vhdx_table_entry_index Differential chunk j)\<rparr>"
    "vhdx_read_bat_entry ds (vxr_data_offset region) (vxr_data_size region div 8) ((1 + k div chunk) * (chunk + 1) - 1)
      = Ok \<lparr>vxb_block_state = vhdx_state (vxr_data_offset region) c ((1 + k div chunk) * (chunk + 1) - 1),
          vxb_block_offset = vhdx_offset (vxr_data_offset region) c ((1 + k div chunk) * (chunk + 1) - 1)\<rparr>"
proof -
  have "j * bs \<le> k * bs" using assms(8) by simp
  then have "j * bs < media" using assms(5) by linarith
  then show "checked_mul j bs = Some (j * bs)" "sub_u64 media (j * bs) = Ok (media - j * bs)"
    using assms(4) by (simp_all add: checked_mul_def sub_u64_def)
  have "j div chunk * (chunk + 1) \<le> k div chunk * (chunk + 1)" using assms(8) by (intro mult_le_mono1 div_le_mono)
  moreover have "j mod chunk < chunk" using assms(7) by simp
  ultimately have "j div chunk * (chunk + 1) + j mod chunk < vxr_data_size region div 8" using assms(6) by linarith
  then have "vhdx_table_entry_index Differential chunk j < vxr_data_size region div 8"
    by (simp only: vhdx_table_entry_index_def VhdDiskType.distinct if_False)
  moreover have "(1 + k div chunk) * (chunk + 1) - 1 < vxr_data_size region div 8" using assms(6) by simp
  moreover have "vxr_data_offset region + vxr_data_size region div 8 * 8 \<le> length c" using assms(2) by linarith
  ultimately show
    "vhdx_read_bat_entry ds (vxr_data_offset region) (vxr_data_size region div 8) (vhdx_table_entry_index Differential chunk j)
      = Ok \<lparr>vxb_block_state = vhdx_state (vxr_data_offset region) c (vhdx_table_entry_index Differential chunk j),
          vxb_block_offset = vhdx_offset (vxr_data_offset region) c (vhdx_table_entry_index Differential chunk j)\<rparr>"
    "vhdx_read_bat_entry ds (vxr_data_offset region) (vxr_data_size region div 8) ((1 + k div chunk) * (chunk + 1) - 1)
      = Ok \<lparr>vxb_block_state = vhdx_state (vxr_data_offset region) c ((1 + k div chunk) * (chunk + 1) - 1),
          vxb_block_offset = vhdx_offset (vxr_data_offset region) c ((1 + k div chunk) * (chunk + 1) - 1)\<rparr>"
    by (simp_all only: vhdx_bat_entry_total [OF assms(1)])
qed

lemma vhdx_open_sizes:
  assumes "vhdx_open_internal ds parent = Ok v"
  shows "0 < vx_block_size v" "0 < vx_bytes_per_sector v" "0 < vhdx_chunk (vx_block_size v) (vx_bytes_per_sector v)"
    "vx_block_size v = 2 ^ j \<Longrightarrow> vhdx_bitmap_covers (vx_block_size v) (vx_bytes_per_sector v)"
proof -
  from assms obtain region m where m: "vhdx_read_metadata_values ds region = Ok m"
    "vx_block_size v = vxv_block_size m" "vx_bytes_per_sector v = vxv_bytes_per_sector m"
    by (auto simp: vhdx_open_internal_def result_simps)
  note sizes = vhdx_metadata_sizes [OF m(1), folded m(2,3)]
  then show "0 < vx_block_size v" "0 < vx_bytes_per_sector v" by auto
  with sizes show "0 < vhdx_chunk (vx_block_size v) (vx_bytes_per_sector v)" by (intro vhdx_chunk_positive) auto
  show "vhdx_bitmap_covers (vx_block_size v) (vx_bytes_per_sector v)" if "vx_block_size v = 2 ^ j"
    using vhdx_power_covers [of j "vx_bytes_per_sector v"] sizes that by simp
qed

section \<open>The places of the sample\<close>

lemma vhdx_sample_start_nth:
  assumes "length bat \<le> 65536" "x < 1024"
  shows "vhdx_sample bat ! x = vhdx_sample_start ! x"
  using assms by (simp add: vhdx_sample_def vhdx_sample_sections_def vhdx_section_def nth_append vhdx_sample_sizes)

lemma vhdx_sample_places:
  assumes "x < 1024"
  shows "vhdx_documented_states True False 1048576 512 327680 (vhdx_sample vhdx_sample_bat) x
    \<and> vhdx_documented_place True False 1048576 512 327680 (vhdx_sample vhdx_sample_bat) x
      = (if x < 512 then Place_parent x else Place_own x)"
proof -
  let ?c = "vhdx_sample vhdx_sample_bat"
  have bat: "length vhdx_sample_bat \<le> 65536" by (simp add: vhdx_sample_bat_slices)
  have "u64_le 327680 ?c = 7" "u64_le 360448 ?c = 6"
    using vhdx_sample_slice [OF bat, of 5 0 8] vhdx_sample_slice [OF bat, of 5 32768 8]
    by (simp_all add: u64_le_def vhdx_sample_sections_def vhdx_sample_bat_slices from_le_bytes_def from_be_bytes_def)
  moreover have "x div 512 = (if x < 512 then 0 else 1)" using assms by (auto intro: div_nat_eqI)
  moreover have "?c ! 0 = 0x76"
    using vhdx_sample_start_nth [OF bat, of 0] by (simp add: vhdx_sample_start_def lit_def)
  moreover have "\<not> bit (0x76 :: byte) 0" "bit (0x76 :: byte) 1" by (simp_all add: bit_numeral_rec)
  moreover have small: "x div 1048576 = 0" "x mod 1048576 = x" using assms by simp_all
  ultimately show ?thesis
    by (auto simp: small vhdx_documented_states_def vhdx_documented_place_def vhdx_documented_entry_def vhdx_documented_bit_def Let_def)
qed

section \<open>Properties\<close>

text \<open>
  Where the driver leaves the document: the type of a disk is the other way round, so that the index of a block beyond
  the first chunk is the wrong one for a dynamic disk (flags 0), and a zero block of a differential disk is never read as zeros.
\<close>

lemma vhdx_flags_reversed:
  assumes "0 < chunk" "chunk \<le> k"
  shows "vhdx_disk_type_of_flags 0 = Ok Fixed" "vhdx_table_entry_index Fixed chunk k < k + k div chunk"
  using assms by (simp_all add: vhdx_disk_type_of_flags_def vhdx_table_entry_index_def div_greater_zero_iff)

lemma vhdx_zero_block_not_zero:
  "vhdx_state bat c (vhdx_table_entry_index Differential (vhdx_chunk bs bps) (x div bs)) = 2
    \<Longrightarrow> vhdx_locate Differential bs bps bat c x \<noteq> Place_zero"
  by (simp add: vhdx_locate_def Let_def)

text \<open>
  (C12) The logical disk of an opened VHDX file has the size the metadata gives, and its byte at \<open>x\<close> is where
  \<open>docs/formats/src/vhdx.md\<close> places it by the block allocation table, whose entries for bitmaps follow those of each chunk,
  and, for a differential disk, by the sector bitmap: in the file, in the parent disk, or nowhere, and then it is 0.  The
  places must be inside of the contents and the blocks of a differential disk a power of two, as the format demands.  The
  driver takes the flag of a fixed disk the wrong way round (0 is fixed, 1 dynamic), so the claim is for differential disks
  and for disks of at most one chunk, which have no bitmap entry in between and are read right whichever of the two they
  are; and it reads a zero block of a differential disk by the bitmap, so such blocks are excluded by \<open>vhdx_documented_states\<close>.
\<close>

theorem vhdx_disk_content:
  assumes "byte_source ds c" "vhdx_open_internal ds parent = Ok v"
    and "\<forall>p. parent = Some p \<longrightarrow> byte_source (vx_logical_source p) cp"
    and "vhdx_read_region_table ds = Ok regions" "regions vhdx_bat_region_identifier = Some region"
    and "vx_disk_type v = Differential \<longrightarrow> (\<exists>j. vx_block_size v = 2 ^ j)"
    and "if vx_disk_type v = Differential then \<not> fixed
      else vx_media_size v \<le> 2 ^ 23 * vx_bytes_per_sector v div vx_block_size v * vx_block_size v"
    and "\<forall>x < vx_media_size v.
      vhdx_documented_states (vx_disk_type v = Differential) fixed (vx_block_size v) (vx_bytes_per_sector v) (vxr_data_offset region) c x
      \<and> vhdx_place_inside c cp
          (vhdx_documented_place (vx_disk_type v = Differential) fixed (vx_block_size v) (vx_bytes_per_sector v) (vxr_data_offset region) c x)"
  shows "byte_source (vx_logical_source v) (map (\<lambda>x. vhdx_place_byte c cp
      (vhdx_documented_place (vx_disk_type v = Differential) fixed (vx_block_size v) (vx_bytes_per_sector v) (vxr_data_offset region) c x))
      [0..<vx_media_size v])"
proof -
  have places: "vhdx_locate (vx_disk_type v) (vx_block_size v) (vx_bytes_per_sector v) (vxr_data_offset region) c x
      = vhdx_documented_place (vx_disk_type v = Differential) fixed (vx_block_size v) (vx_bytes_per_sector v) (vxr_data_offset region) c x"
    if "x < vx_media_size v" for x
  proof (rule vhdx_documented_eq)
    show "if vx_disk_type v = Differential then \<not> fixed else x < vhdx_chunk (vx_block_size v) (vx_bytes_per_sector v) * vx_block_size v"
      using assms(7) that unfolding vhdx_chunk_def by (auto split: if_splits)
    show "vx_disk_type v = Differential \<longrightarrow> 8 * (1048576 div vhdx_chunk (vx_block_size v) (vx_bytes_per_sector v)) * vx_bytes_per_sector v = vx_block_size v"
      using vhdx_open_sizes(4) [OF assms(2)] assms(6) unfolding vhdx_bitmap_covers_def by blast
  qed (use vhdx_open_sizes(1-3) [OF assms(2)] assms(8) that in blast)+
  from places assms(8) have inside: "\<forall>x < vx_media_size v. vhdx_place_inside c cp
      (vhdx_locate (vx_disk_type v) (vx_block_size v) (vx_bytes_per_sector v) (vxr_data_offset region) c x)"
    by simp
  have parent: "byte_source (vx_logical_source p) cp" if "parent = Some p" for p using assms(3) that by blast
  from vhdx_open_spans [where P = byte_source, OF assms(2,1,1) parent assms(4-6) inside]
  have "byte_source (vx_logical_source v) (map (\<lambda>x. vhdx_place_byte c cp
      (vhdx_locate (vx_disk_type v) (vx_block_size v) (vx_bytes_per_sector v) (vxr_data_offset region) c x)) [0..<vx_media_size v])"
    by (metis spans_byte_source)
  also have "map (\<lambda>x. vhdx_place_byte c cp (vhdx_locate (vx_disk_type v) (vx_block_size v) (vx_bytes_per_sector v)
        (vxr_data_offset region) c x)) [0..<vx_media_size v]
      = map (\<lambda>x. vhdx_place_byte c cp (vhdx_documented_place (vx_disk_type v = Differential) fixed (vx_block_size v)
        (vx_bytes_per_sector v) (vxr_data_offset region) c x)) [0..<vx_media_size v]"
    by (intro map_cong [OF refl]) (simp only: places set_upt atLeastLessThan_iff)
  finally show ?thesis .
qed

theorem vhdx_disk_content_witness:
  "\<exists>v. vhdx_open_with_parent (memory_source (memory_new (vhdx_sample vhdx_sample_bat))) vhdx_sample_parent = Ok v
     \<and> byte_source (vx_logical_source v) (replicate 512 9 @ replicate 512 5)"
proof -
  let ?c = "vhdx_sample vhdx_sample_bat" and ?cp = "replicate 1024 9 :: byte list"
  let ?ds = "memory_source (memory_new ?c)"
  let ?place = "vhdx_documented_place True False 1048576 512 327680 ?c"
  obtain v where v: "vhdx_open_with_parent ?ds vhdx_sample_parent = Ok v" "vx_disk_type v = Differential" "vx_block_size v = 1048576"
    "vx_bytes_per_sector v = 512" "vx_media_size v = 1024"
    using vhdx_sample_open by blast
  have bat: "length vhdx_sample_bat \<le> 65536" by (simp add: vhdx_sample_bat_slices)
  have src: "byte_source ?ds ?c" by (rule memory_byte) (simp add: length_vhdx_sample [OF bat] u64_limit_def)
  have parent: "\<forall>p. Some vhdx_sample_parent = Some p \<longrightarrow> byte_source (vx_logical_source p) ?cp"
    by (auto simp: vhdx_sample_parent_def intro!: memory_byte) (simp add: u64_limit_def)
  have "(1048576 :: nat) = 2 ^ 20" by simp
  with v(3) have pow: "vx_disk_type v = Differential \<longrightarrow> (\<exists>j. vx_block_size v = 2 ^ j)" by metis
  have all: "vhdx_documented_states True False 1048576 512 327680 ?c x \<and> ?place x = (if x < 512 then Place_parent x else Place_own x)"
    if "x < 1024" for x
    using vhdx_sample_places [OF that] by simp
  have own: "?c ! x = 5" if "512 \<le> x" "x < 1024" for x
    using vhdx_sample_start_nth [of vhdx_sample_bat x] bat that by (simp add: vhdx_sample_start_def nth_append lit_def)
  have "byte_source (vx_logical_source v) (map (\<lambda>x. vhdx_place_byte ?c ?cp (?place x)) [0..<1024])"
    using vhdx_disk_content [OF src v(1) [unfolded vhdx_open_with_parent_def] parent vhdx_sample_region_table [OF bat]
        vhdx_sample_regions_of(2) pow, of False] all v
    by (simp add: length_vhdx_sample [OF bat])
  moreover have "map (\<lambda>x. vhdx_place_byte ?c ?cp (?place x)) [0..<1024] = replicate 512 9 @ replicate 512 5"
    using all own by (intro nth_equalityI) (auto simp: nth_append)
  ultimately show ?thesis using v(1) by auto
qed

text \<open>
  (C40) A block of a differential disk that the table does not mark as fully present needs the sector bitmap of
  its chunk, even when the block is not present at all and its content wholly the parent's: when the bitmap has not
  been allocated, as in a new differential disk, the file cannot be opened with its parent, whatever else holds.  For the
  first such block the open fails with exactly the error of the bitmap entry (no panic), when the source does
  not fail, the table lies in the file, and has the entries of all blocks and of the bitmap of that chunk.
\<close>

theorem vhdx_missing_bitmap_fails:
  assumes "total_source ds c" "vhdx_validate_file_header ds = Ok ()" "vhdx_read_active_image_header ds = Ok header"
    and "vhdx_read_region_table ds = Ok regions" "regions vhdx_metadata_region_identifier = Some metadata_region"
    and "regions vhdx_bat_region_identifier = Some region" "vhdx_read_metadata_values ds metadata_region = Ok m"
    and "vxv_disk_type m = Differential" "vhdx_parent_source m (Some parent) = Ok ps"
    and "bs = vxv_block_size m" "chunk = 2 ^ 23 * vxv_bytes_per_sector m div bs" "k * bs < vxv_media_size m"
    and "vxr_data_offset region + vxr_data_size region \<le> length c" "vxv_media_size m \<le> vxr_data_size region div 8 * bs"
    and "chunk + k div chunk * (chunk + 1) < vxr_data_size region div 8"
    and "fst (vhdx_documented_entry False bs (vxv_bytes_per_sector m) (vxr_data_offset region) c (k * bs)) \<noteq> 6"
    and "u64_le (vxr_data_offset region + 8 * (chunk + k div chunk * (chunk + 1))) c mod 8 < 6"
  shows "(\<forall>v. vhdx_open_with_parent ds parent \<noteq> Ok v)
    \<and> ((\<forall>j < k. fst (vhdx_documented_entry False bs (vxv_bytes_per_sector m) (vxr_data_offset region) c (j * bs)) = 6)
        \<longrightarrow> vhdx_open_with_parent ds parent = Err (Vhdx_error Vhdx_sector_bitmap_state))"
proof -
  define g where "g = vhdx_block_extents ds Differential bs (vxv_bytes_per_sector m) (vxv_media_size m) region ps chunk (1048576 div chunk)"
  note params = vhdx_metadata_sizes [OF assms(7), folded assms(10)]
  have chunk: "chunk = vhdx_chunk bs (vxv_bytes_per_sector m)" by (simp add: assms(11) vhdx_chunk_def)
  have pos: "0 < bs" "0 < chunk" "chunk < u32_limit"
    using params vhdx_chunk_positive [of bs "vxv_bytes_per_sector m"] vhdx_chunk_bound [of bs "vxv_bytes_per_sector m"] chunk by auto
  obtain s where ps: "ps = Some s" using assms(8,9) by (auto simp: vhdx_parent_source_def result_simps split: if_splits)
  have blocks: "vhdx_build_extents ds Differential bs (vxv_bytes_per_sector m) (vxv_media_size m) region ps
      = vhdx_blocks g [0..<div_ceil (vxv_media_size m) bs]"
    using pos params assms(14) vhdx_table_capacity [OF vhdx_region_bounds [OF assms(4,6)], of bs]
    unfolding vhdx_build_extents_def Let_def assms(11) [symmetric] by (simp add: mul_u64_def g_def)
  have opened: "vhdx_open_with_parent ds parent = and_then (vhdx_blocks g [0..<div_ceil (vxv_media_size m) bs]) (\<lambda>extents. R extents)"
    if "R = (\<lambda>extents. and_then (extent_map_new extents) (\<lambda>em.
       Ok \<lparr>vx_format_version = vxh_format_version header, vx_disk_type = vxv_disk_type m,
           vx_identifier = vxh_data_write_identifier header,
           vx_parent_identifier = vxv_parent_identifier m, vx_parent_name = vxv_parent_name m,
           vx_bytes_per_sector = vxv_bytes_per_sector m, vx_block_size = vxv_block_size m,
           vx_media_size = vxv_media_size m, vx_logical_source = extent_map_source em\<rparr>))" for R
    using assms(2-9) blocks [unfolded assms(10)]
    by (simp add: vhdx_open_with_parent_def vhdx_open_internal_def that assms(10))
  have k: "k < div_ceil (vxv_media_size m) bs"
  proof -
    have "k * bs < div_ceil (vxv_media_size m) bs * bs"
      using div_ceil_bounds(1) [OF pos(1), of "vxv_media_size m"] assms(12) by linarith
    then show ?thesis by simp
  qed
  note entry = vhdx_block_entry [OF assms(1,13) pos(1) vhdx_media_u64 [OF assms(7) total_source.axioms(1) [OF assms(1)]] assms(12,15) pos(2)]
  note documented = vhdx_documented_entry_state [OF pos(1), of "vxv_bytes_per_sector m" "vxr_data_offset region" c, folded chunk]
  have "(1 + k div chunk) * (chunk + 1) - 1 = chunk + k div chunk * (chunk + 1)" by simp
  then have states: "vhdx_state (vxr_data_offset region) c (vhdx_table_entry_index Differential chunk k) \<noteq> 6"
    "vhdx_state (vxr_data_offset region) c ((1 + k div chunk) * (chunk + 1) - 1) < 6"
    using assms(16,17) documented
    by (simp_all only: vhdx_state_def vhdx_entry_fields [OF u64_bounds(2)] mult.commute [of 8] not_False_eq_True)
  have failed: "g k = Err (Vhdx_error Vhdx_sector_bitmap_state)"
    using entry(1-4) [OF order_refl] states ps by (simp add: g_def vhdx_block_extents_def vhdx_differential_extents_def Let_def)
  have stored: "\<exists>es. g j = Ok es"
    if "j < k" "fst (vhdx_documented_entry False bs (vxv_bytes_per_sector m) (vxr_data_offset region) c (j * bs)) = 6" for j
    using entry(1-3) [OF less_imp_le [OF that(1)]] that(2) documented by (simp add: g_def vhdx_block_extents_def Let_def)
  show ?thesis
  proof
    show "\<forall>v. vhdx_open_with_parent ds parent \<noteq> Ok v"
      using opened [OF refl] vhdx_blocks_Ok [of g "[0..<div_ceil (vxv_media_size m) bs]" _ k] k failed
      by (auto simp: result_simps)
    have "[0..<div_ceil (vxv_media_size m) bs] = [0..<k] @ k # [Suc k..<div_ceil (vxv_media_size m) bs]"
      using k by (metis upt_add_eq_append upt_conv_Cons le0 le_add_diff_inverse less_imp_le)
    then show "(\<forall>j < k. fst (vhdx_documented_entry False bs (vxv_bytes_per_sector m) (vxr_data_offset region) c (j * bs)) = 6)
        \<longrightarrow> vhdx_open_with_parent ds parent = Err (Vhdx_error Vhdx_sector_bitmap_state)"
      using opened [OF refl] vhdx_blocks_fails [of "[0..<k]" g k] failed stored by simp
  qed
qed

theorem vhdx_missing_bitmap_fails_witness:
  "vhdx_open_with_parent (memory_source (memory_new (vhdx_sample []))) vhdx_sample_parent = Err (Vhdx_error Vhdx_sector_bitmap_state)"
proof -
  let ?c = "vhdx_sample []" and ?m = vhdx_sample_values
  let ?ds = "memory_source (memory_new ?c)" and ?region = "\<lparr>vxr_data_offset = 327680, vxr_data_size = 65536\<rparr>"
  have bat: "length ([] :: byte list) \<le> 65536" by simp
  have src: "total_source ?ds ?c" by (rule memory_total) (simp add: length_vhdx_sample [OF bat] u64_limit_def)
  have vals: "vxv_disk_type ?m = Differential" "1048576 = vxv_block_size ?m" "4096 = 2 ^ 23 * vxv_bytes_per_sector ?m div 1048576"
    "0 * 1048576 < vxv_media_size ?m" "vxv_media_size ?m \<le> vxr_data_size ?region div 8 * 1048576"
    by (simp_all add: vhdx_sample_values_def)
  have parent: "vhdx_parent_source ?m (Some vhdx_sample_parent) = Ok (Some (vx_logical_source vhdx_sample_parent))"
    by (simp add: vhdx_parent_source_def vhdx_sample_values_def vhdx_sample_parent_def)
  have zero: "u64_le 327680 ?c = 0" "u64_le 360448 ?c = 0"
    using vhdx_sample_slice [OF bat, of 5 0 8] vhdx_sample_slice [OF bat, of 5 32768 8]
    by (simp_all add: u64_le_def vhdx_sample_sections_def vhdx_section_def subslice_def)
  have states: "fst (vhdx_documented_entry False 1048576 (vxv_bytes_per_sector ?m) (vxr_data_offset ?region) ?c (0 * 1048576)) \<noteq> 6"
    "u64_le (vxr_data_offset ?region + 8 * (4096 + 0 div 4096 * (4096 + 1))) ?c mod 8 < 6"
    by (simp_all add: vhdx_documented_entry_def Let_def zero)
  have table: "vxr_data_offset ?region + vxr_data_size ?region \<le> length ?c" "4096 + 0 div 4096 * (4096 + 1) < vxr_data_size ?region div 8"
    by (simp_all add: length_vhdx_sample [OF bat])
  show ?thesis
    using vhdx_missing_bitmap_fails [OF src vhdx_sample_file_header [OF bat] vhdx_sample_active_header [OF bat]
        vhdx_sample_region_table [OF bat] vhdx_sample_regions_of vhdx_sample_metadata_values [OF bat] vals(1) parent
        vals(2-4) table(1) vals(5) table(2) states]
    by simp
qed

end
