(* ===== verification/Lz_Copy.thy ===== *)
theory Lz_Copy
  imports Prelude
begin

text \<open>
  What the dictionary decompressors of \<open>keramics-compression/src\<close> share: the loop that copies a match
  byte by byte inside the buffer of the uncompressed data, which may read bytes it has just written,
  and the sequences of literals and matches that the formats encode, as a reference.
\<close>

section \<open>Copying a match inside the buffer\<close>

text \<open>An index out of the bounds of the buffer panics.\<close>

fun copy_match :: "nat \<Rightarrow> nat \<Rightarrow> nat \<Rightarrow> byte list \<Rightarrow> byte list result" where
  "copy_match 0 match_end_offset uncompressed_data_offset uncompressed_data = Ok uncompressed_data"
| "copy_match (Suc n) match_end_offset uncompressed_data_offset uncompressed_data =
     (if match_end_offset < length uncompressed_data \<and> uncompressed_data_offset < length uncompressed_data
      then copy_match n (match_end_offset + 1) (uncompressed_data_offset + 1)
             (uncompressed_data[uncompressed_data_offset := uncompressed_data ! match_end_offset])
      else Err (Panic Index_out_of_bounds))"

text \<open>\<open>copy_from_slice\<close> to the part of the buffer at an offset.\<close>

definition write_slice :: "nat \<Rightarrow> byte list \<Rightarrow> byte list \<Rightarrow> byte list" where
  "write_slice offset bs data = take offset data @ bs @ drop (offset + length bs) data"

section \<open>Literals and matches\<close>

datatype lz_token = Lz_literal "byte list" | Lz_match nat nat  \<comment> \<open>distance and size\<close>

fun lz_copy :: "nat \<Rightarrow> nat \<Rightarrow> byte list \<Rightarrow> byte list" where
  "lz_copy 0 distance out = out"
| "lz_copy (Suc n) distance out = lz_copy n distance (out @ [out ! (length out - distance)])"

fun lz_expand :: "lz_token \<Rightarrow> byte list \<Rightarrow> byte list" where
  "lz_expand (Lz_literal bs) out = out @ bs"
| "lz_expand (Lz_match distance n) out = lz_copy n distance out"

fun lz_size :: "lz_token \<Rightarrow> nat" where
  "lz_size (Lz_literal bs) = length bs"
| "lz_size (Lz_match distance n) = n"

fun lz_expand_all :: "lz_token list \<Rightarrow> byte list \<Rightarrow> byte list" where
  "lz_expand_all [] out = out"
| "lz_expand_all (t # ts) out = lz_expand_all ts (lz_expand t out)"

definition lz_total :: "lz_token list \<Rightarrow> nat" where
  "lz_total ts = sum_list (map lz_size ts)"

lemma lz_total_append [simp]: "lz_total (ts @ ts') = lz_total ts + lz_total ts'"
  by (simp add: lz_total_def)

lemma lz_total_simps [simp]: "lz_total [] = 0" "lz_total (t # ts) = lz_size t + lz_total ts"
  by (simp_all add: lz_total_def)

lemma length_lz_copy [simp]: "length (lz_copy n d out) = length out + n"
  by (induction n arbitrary: out) simp_all

lemma length_lz_expand [simp]: "length (lz_expand t out) = length out + lz_size t"
  by (cases t) simp_all

lemma length_lz_expand_all [simp]: "length (lz_expand_all ts out) = length out + lz_total ts"
  by (induction ts arbitrary: out) simp_all

lemma lz_expand_all_append: "lz_expand_all (ts @ ts') out = lz_expand_all ts' (lz_expand_all ts out)"
  by (induction ts arbitrary: out) simp_all

lemma lz_copy_prefix: "\<exists>bs. lz_copy n d out = out @ bs \<and> length bs = n"
proof (induction n arbitrary: out)
  case (Suc n)
  obtain bs where "lz_copy n d (out @ [out ! (length out - d)]) = (out @ [out ! (length out - d)]) @ bs" "length bs = n"
    using Suc by blast
  then show ?case by (intro exI [of _ "out ! (length out - d) # bs"]) simp
qed simp

text \<open>The buffer is the output so far, followed by the bytes that are still to be written.\<close>

lemma copy_match_eq:
  assumes "1 \<le> d" "d \<le> length out" "n \<le> length rest"
  shows "copy_match n (length out - d) (length out) (out @ rest) = Ok (lz_copy n d out @ drop n rest)"
  using assms
proof (induction n arbitrary: out rest)
  case (Suc n)
  then obtain r rest' where r: "rest = r # rest'" by (cases rest) auto
  let ?out = "out @ [out ! (length out - d)]"
  have i: "length ?out - d = length out - d + 1" and lt: "length out - d < length out" using Suc.prems by simp_all
  have "copy_match n (length ?out - d) (length ?out) (?out @ rest') = Ok (lz_copy n d ?out @ drop n rest')"
    using Suc.prems r by (intro Suc.IH) auto
  then show ?case
    using Suc.prems lt by (simp only: i) (simp add: r nth_append list_update_append)
qed simp

lemma copy_match_no_panic: "m + n \<le> length buf \<Longrightarrow> u + n \<le> length buf \<Longrightarrow> no_panic (copy_match n m u buf)"
  by (induction n arbitrary: m u buf) auto

lemma write_slice_eq: "length bs \<le> length rest \<Longrightarrow> write_slice (length out) bs (out @ rest) = (out @ bs) @ drop (length bs) rest"
  by (simp add: write_slice_def)


section \<open>Bits of a byte\<close>

lemma pack_nat:
  assumes "y < 2 ^ k"
  shows "push_bit k x OR y = x * 2 ^ k + (y :: nat)"
proof -
  have "y = take_bit k y" using assms by (simp add: take_bit_eq_mod)
  then have "push_bit k x AND y = 0"
    by (intro bit_eqI) (metis bit_and_iff bit_push_bit_iff bit_take_bit_iff bit_0_eq bot_apply bot_bool_def not_le)
  then show ?thesis by (simp add: disjunctive_add_eq_or [symmetric] push_bit_eq_mult)
qed

lemma byte_masks:
  "unat ((b :: byte) AND 0x7f) = unat b mod 128" "unat (b AND 0x3f) = unat b mod 64" "unat (b AND 0x03) = unat b mod 4"
proof -
  have "b AND 0x7f = take_bit 7 b" "b AND 0x3f = take_bit 6 b" "b AND 0x03 = take_bit 2 b"
    by (simp_all add: take_bit_eq_mask mask_eq_exp_minus_1)
  then show "unat (b AND 0x7f) = unat b mod 128" "unat (b AND 0x3f) = unat b mod 64" "unat (b AND 0x03) = unat b mod 4"
    by (simp_all add: take_bit_eq_mod unat_mod)
qed

lemma byte_bit: "(b :: byte) AND 2 ^ n \<noteq> 0 \<longleftrightarrow> odd (unat b div 2 ^ n)"
  by (simp add: and_exp_eq_0_iff_not_bit bit_iff_odd [symmetric] bit_unsigned_iff)

lemma byte_bits: "(b :: byte) AND 0x80 \<noteq> 0 \<longleftrightarrow> 128 \<le> unat b" "b AND 0x40 \<noteq> 0 \<longleftrightarrow> 64 \<le> unat b mod 128"
proof -
  have "unat b div 128 < 2" using unat_byte_lt [of b] by (simp add: div_less_iff_less_mult)
  then have "odd (unat b div 128) \<longleftrightarrow> 128 \<le> unat b" by (auto simp: less_2_cases_iff div_eq_0_iff dest: odd_pos)
  moreover have "unat b mod 128 = 64 * (unat b div 64 mod 2) + unat b mod 64" using mod_mult2_eq [of "unat b" 64 2] by simp
  then have "odd (unat b div 64) \<longleftrightarrow> 64 \<le> unat b mod 128" by (cases "odd (unat b div 64)") (auto simp: odd_iff_mod_2_eq_one not_le)
  ultimately show "b AND 0x80 \<noteq> 0 \<longleftrightarrow> 128 \<le> unat b" "b AND 0x40 \<noteq> 0 \<longleftrightarrow> 64 \<le> unat b mod 128"
    using byte_bit [of b 7] byte_bit [of b 6] by simp_all
qed

lemma unat_add_small: "unat (a :: byte) + n < 256 \<Longrightarrow> unat (a + of_nat n) = unat a + n"
  by (simp add: unat_word_ariths unat_of_nat)

lemma unat_byte_of_nat: "n < 256 \<Longrightarrow> unat (of_nat n :: byte) = n"
  by (simp add: unat_of_nat)

lemma u16_be_two: "u16_be (length pre) (pre @ a # b # post) = unat a * 256 + unat b"
  by (simp add: u16_be_def subslice_def from_be_bytes_def)

lemma drop_two: "c + 2 \<le> length xs \<Longrightarrow> drop c xs = xs ! c # xs ! (c + 1) # drop (c + 2) xs"
  by (simp add: Cons_nth_drop_Suc)

end
