(* ===== verification/Bitstream.thy ===== *)
theory Bitstream
  imports Lz_Copy
begin

text \<open>
  The bit stream of Deflate compressed data (\<open>DeflateBitstream\<close> of \<open>keramics-compression/src/deflate.rs\<close>):
  a buffer of at most 31 bits in front of the bytes that are still to be read.  It is the list of the
  pending bits, the lowest bit of a byte first, and reading removes bits from its front.  The locale
  \<open>bit_stream\<close> is what the trait \<open>Bitstream\<close> (\<open>traits.rs\<close>) promises to the Huffman decoder.
\<close>

section \<open>The interface\<close>

text \<open>A stream without pending bits goes on with 0 bits.\<close>

locale bit_stream =
  fixes get_value :: "'s \<Rightarrow> nat \<Rightarrow> 32 word \<times> 's"
    and pending :: "'s \<Rightarrow> bool list"
    and stream_ok :: "'s \<Rightarrow> bool"
  assumes get_bit: "stream_ok s \<Longrightarrow> pending s = b # bs \<Longrightarrow> get_value s 1 = (v, s') \<Longrightarrow>
      unat v = of_bool b \<and> pending s' = bs"
    and get_bit_bound: "stream_ok s \<Longrightarrow> get_value s 1 = (v, s') \<Longrightarrow> unat v < 2"
    and get_value_ok: "stream_ok s \<Longrightarrow> n \<le> 32 \<Longrightarrow> get_value s n = (v, s') \<Longrightarrow> stream_ok s'"

text \<open>A stream that reads values with their lowest bit first.\<close>

locale lsb_bit_stream = bit_stream +
  assumes get_value_bits: "stream_ok s \<Longrightarrow> n \<le> 32 \<Longrightarrow> n \<le> length (pending s) \<Longrightarrow> get_value s n = (v, s') \<Longrightarrow>
      unat v = horner_sum of_bool 2 (take n (pending s)) \<and> pending s' = drop n (pending s)"
    and get_value_bound: "stream_ok s \<Longrightarrow> n \<le> 32 \<Longrightarrow> get_value s n = (v, s') \<Longrightarrow> unat v < 2 ^ n"

section \<open>DeflateBitstream\<close>

record DeflateBitstream =
  dbs_data :: "byte list"
  dbs_data_offset :: nat
  dbs_bits :: "32 word"
  dbs_number_of_bits :: nat

definition dbs_data_size :: "DeflateBitstream \<Rightarrow> nat" where
  "dbs_data_size s = length (dbs_data s)"

definition dbs_new :: "byte list \<Rightarrow> nat \<Rightarrow> DeflateBitstream" where
  "dbs_new data data_offset = \<lparr>dbs_data = data, dbs_data_offset = data_offset, dbs_bits = 0, dbs_number_of_bits = 0\<rparr>"

definition dbs_copy_bytes :: "nat \<Rightarrow> byte list \<Rightarrow> nat \<Rightarrow> DeflateBitstream \<Rightarrow> (byte list \<times> DeflateBitstream) result" where
  "dbs_copy_bytes read_size output_data output_data_offset s =
     (let data_end_offset = dbs_data_offset s + read_size;
          output_data_end_offset = output_data_offset + read_size in
      if dbs_data_size s < data_end_offset then Err (Compression_error Compressed_data_too_small)
      else if length output_data < output_data_end_offset then Err (Compression_error Uncompressed_data_too_small)
      else Ok (write_slice output_data_offset (subslice (dbs_data_offset s) read_size (dbs_data s)) output_data,
               s\<lparr>dbs_data_offset := data_end_offset, dbs_bits := 0, dbs_number_of_bits := 0\<rparr>))"

text \<open>The shift is by less than 24 bits, since no more than 24 bits are asked for.\<close>

definition dbs_read_byte :: "DeflateBitstream \<Rightarrow> DeflateBitstream" where
  "dbs_read_byte s =
     (let s = (if dbs_data_offset s < dbs_data_size s
               then s\<lparr>dbs_bits := dbs_bits s OR push_bit (dbs_number_of_bits s) (ucast (dbs_data s ! dbs_data_offset s)),
                      dbs_data_offset := dbs_data_offset s + 1\<rparr>
               else s)
      in s\<lparr>dbs_number_of_bits := dbs_number_of_bits s + 8\<rparr>)"

function dbs_read_data :: "nat \<Rightarrow> DeflateBitstream \<Rightarrow> DeflateBitstream" where
  "dbs_read_data number_of_bits s =
     (if dbs_number_of_bits s < number_of_bits then dbs_read_data number_of_bits (dbs_read_byte s) else s)"
  by pat_completeness auto
termination
  by (relation "measure (\<lambda>(n, s). n - dbs_number_of_bits s)") (auto simp: dbs_read_byte_def Let_def)

declare dbs_read_data.simps [simp del]

text \<open>The unsigned subtraction of the offset: every whole byte of the buffer has been read from the data.\<close>

function dbs_unread_data :: "DeflateBitstream \<Rightarrow> DeflateBitstream result" where
  "dbs_unread_data s =
     (if 8 < dbs_number_of_bits s then
        and_then (sub_u64 (dbs_data_offset s) 1) (\<lambda>data_offset.
          dbs_unread_data (s\<lparr>dbs_bits := drop_bit 8 (dbs_bits s), dbs_number_of_bits := dbs_number_of_bits s - 8,
                             dbs_data_offset := data_offset\<rparr>))
      else Ok s)"
  by pat_completeness auto
termination
  by (relation "measure dbs_number_of_bits") auto

declare dbs_unread_data.simps [simp del]

text \<open>The part of a round of \<open>get_value\<close> and \<open>skip_bits\<close> that fills the buffer, and the bits taken from it.\<close>

definition dbs_fill :: "nat \<Rightarrow> DeflateBitstream \<Rightarrow> DeflateBitstream" where
  "dbs_fill read_size s = (if dbs_number_of_bits s < read_size then dbs_read_data read_size s else s)"

definition dbs_consume :: "nat \<Rightarrow> DeflateBitstream \<Rightarrow> DeflateBitstream" where
  "dbs_consume read_size s =
     s\<lparr>dbs_bits := (if read_size = 32 then 0 else drop_bit read_size (dbs_bits s)),
       dbs_number_of_bits := dbs_number_of_bits s - read_size\<rparr>"

function dbs_get_loop :: "nat \<Rightarrow> nat \<Rightarrow> 32 word \<Rightarrow> DeflateBitstream \<Rightarrow> 32 word \<times> DeflateBitstream" where
  "dbs_get_loop number_of_bits bit_offset bit_value s =
     (if bit_offset < number_of_bits then
        let read_size = min 24 (number_of_bits - bit_offset);
            s = dbs_fill read_size s;
            value_32bit = (if read_size = 32 then dbs_bits s
                           else dbs_bits s AND NOT (push_bit read_size 0xffffffff));
            value_32bit = (if 0 < bit_offset then push_bit bit_offset value_32bit else value_32bit)
        in dbs_get_loop number_of_bits (bit_offset + read_size) (bit_value OR value_32bit) (dbs_consume read_size s)
      else (bit_value, s))"
  by pat_completeness auto
termination
  by (relation "measure (\<lambda>(n, k, _, _). n - k)") auto

declare dbs_get_loop.simps [simp del]

definition dbs_get_value :: "DeflateBitstream \<Rightarrow> nat \<Rightarrow> 32 word \<times> DeflateBitstream" where
  "dbs_get_value s number_of_bits = dbs_get_loop number_of_bits 0 0 s"

function dbs_skip_loop :: "nat \<Rightarrow> nat \<Rightarrow> DeflateBitstream \<Rightarrow> DeflateBitstream" where
  "dbs_skip_loop number_of_bits bit_offset s =
     (if bit_offset < number_of_bits then
        let read_size = min 24 (number_of_bits - bit_offset)
        in dbs_skip_loop number_of_bits (bit_offset + read_size) (dbs_consume read_size (dbs_fill read_size s))
      else s)"
  by pat_completeness auto
termination
  by (relation "measure (\<lambda>(n, k, _). n - k)") auto

declare dbs_skip_loop.simps [simp del]

definition dbs_skip_bits :: "nat \<Rightarrow> DeflateBitstream \<Rightarrow> DeflateBitstream" where
  "dbs_skip_bits number_of_bits s = dbs_skip_loop number_of_bits 0 s"

section \<open>The pending bits\<close>

definition dbs_pending :: "DeflateBitstream \<Rightarrow> bool list" where
  "dbs_pending s = map (bit (dbs_bits s)) [0..<dbs_number_of_bits s] @ bitmap_bits (drop (dbs_data_offset s) (dbs_data s))"

text \<open>The bits above the buffer are 0.\<close>

definition dbs_clean :: "DeflateBitstream \<Rightarrow> bool" where
  "dbs_clean s \<longleftrightarrow> (\<forall>i. dbs_number_of_bits s \<le> i \<longrightarrow> \<not> bit (dbs_bits s) i)"

text \<open>Between two reads the buffer has less than a byte.\<close>

definition dbs_ok :: "DeflateBitstream \<Rightarrow> bool" where
  "dbs_ok s \<longleftrightarrow> dbs_clean s \<and> dbs_number_of_bits s < 8 \<and> dbs_data_offset s \<le> dbs_data_size s"

lemma bitmap_bits_upt: "bitmap_bits data = concat (map (\<lambda>b. map (bit b) [0..<8]) data)"
proof -
  have "[0, 1, 2, 3, 4, 5, 6, 7] = [0..<8 :: nat]" by (simp add: upt_conv_Cons)
  then show ?thesis unfolding bitmap_bits_def by (simp only:)
qed

lemma bitmap_bits_simps [simp]:
  "bitmap_bits [] = []" "bitmap_bits (b # data) = map (bit b) [0..<8] @ bitmap_bits data"
  "bitmap_bits (data @ data') = bitmap_bits data @ bitmap_bits data'"
  by (simp_all add: bitmap_bits_upt)

lemma bitmap_bits_inject: "bitmap_bits xs = bitmap_bits ys \<longleftrightarrow> xs = ys"
proof (induction xs arbitrary: ys)
  case (Cons x xs)
  show ?case
  proof (cases ys)
    case Nil
    then show ?thesis by (simp add: upt_conv_Cons)
  next
    case (Cons y ys')
    have "map (bit x) [0..<8] = map (bit y) [0..<8] \<longleftrightarrow> x = y"
      by (auto intro!: bit_word_eqI)
    then show ?thesis using Cons.IH Cons by simp
  qed
qed (auto simp: bitmap_bits_upt)

lemma dbs_read_byte_pending:
  assumes "dbs_clean s" "dbs_number_of_bits s < 24"
  shows "dbs_clean (dbs_read_byte s)" "dbs_data (dbs_read_byte s) = dbs_data s"
    "dbs_data_offset s \<le> dbs_data_size s \<Longrightarrow> dbs_data_offset (dbs_read_byte s) \<le> dbs_data_size s"
    "dbs_data_offset s < dbs_data_size s \<Longrightarrow> dbs_pending (dbs_read_byte s) = dbs_pending s"
proof -
  let ?n = "dbs_number_of_bits s"
  show "dbs_clean (dbs_read_byte s)"
    using assms by (auto simp: dbs_clean_def dbs_read_byte_def Let_def bit_simps dest: bit_imp_le_length)
  show "dbs_data (dbs_read_byte s) = dbs_data s" by (simp add: dbs_read_byte_def Let_def)
  show "dbs_data_offset (dbs_read_byte s) \<le> dbs_data_size s" if "dbs_data_offset s \<le> dbs_data_size s"
    using that by (simp add: dbs_read_byte_def Let_def)
  assume lt: "dbs_data_offset s < dbs_data_size s"
  let ?b = "dbs_data s ! dbs_data_offset s"
  let ?w = "dbs_bits s OR push_bit ?n (ucast ?b) :: 32 word"
  have "map (bit ?w) [0..<?n + 8] = map (bit (dbs_bits s)) [0..<?n] @ map (bit ?b) [0..<8]"
  proof (rule nth_equalityI)
    fix i
    assume "i < length (map (bit ?w) [0..<?n + 8])"
    then have i: "i < ?n + 8" by simp
    then show "map (bit ?w) [0..<?n + 8] ! i = (map (bit (dbs_bits s)) [0..<?n] @ map (bit ?b) [0..<8]) ! i"
      using assms unfolding nth_append by (auto simp: dbs_clean_def bit_simps)
  qed simp
  moreover have "drop (dbs_data_offset s) (dbs_data s) = ?b # drop (Suc (dbs_data_offset s)) (dbs_data s)"
    using lt by (simp add: Cons_nth_drop_Suc dbs_data_size_def)
  ultimately show "dbs_pending (dbs_read_byte s) = dbs_pending s"
    using lt by (simp add: dbs_pending_def dbs_read_byte_def Let_def)
qed

lemma dbs_read_data_pending:
  assumes "dbs_clean s" "n \<le> 24"
  shows "dbs_clean (dbs_read_data n s)" "dbs_data (dbs_read_data n s) = dbs_data s"
    "dbs_data_offset s \<le> dbs_data_size s \<Longrightarrow> dbs_data_offset (dbs_read_data n s) \<le> dbs_data_size s"
    "n \<le> dbs_number_of_bits (dbs_read_data n s)" "dbs_number_of_bits s < n + 8 \<Longrightarrow> dbs_number_of_bits (dbs_read_data n s) < n + 8"
    "n \<le> length (dbs_pending s) \<Longrightarrow> dbs_pending (dbs_read_data n s) = dbs_pending s"
  using assms
proof (induction n s rule: dbs_read_data.induct)
  case (1 n s)
  {
    case 1
    then show ?case using "1.IH"(1) by (subst dbs_read_data.simps) (simp add: dbs_read_byte_pending)
  next
    case 2
    then show ?case using "1.IH"(2) by (subst dbs_read_data.simps) (simp add: dbs_read_byte_pending)
  next
    case 3
    then show ?case using "1.IH"(3) dbs_read_byte_pending(3) [of s]
      by (subst dbs_read_data.simps) (simp add: dbs_read_byte_pending dbs_data_size_def)
  next
    case 4
    then show ?case using "1.IH"(4) by (subst dbs_read_data.simps) (simp add: dbs_read_byte_pending)
  next
    case 5
    then show ?case using "1.IH"(5)
      by (subst dbs_read_data.simps, simp add: dbs_read_byte_pending) (simp add: dbs_read_byte_def Let_def)
  next
    case 6
    have "dbs_data_offset s < dbs_data_size s" if "dbs_number_of_bits s < n"
      using that 6 by (intro ccontr [of "_ < _"]) (simp add: dbs_pending_def dbs_data_size_def)
    then show ?case using 6 "1.IH"(6) by (subst dbs_read_data.simps) (simp add: dbs_read_byte_pending)
  }
qed

lemma dbs_fill_pending:
  assumes "dbs_ok s" "n \<le> 24"
  shows "dbs_clean (dbs_fill n s)" "dbs_data (dbs_fill n s) = dbs_data s" "dbs_data_offset (dbs_fill n s) \<le> dbs_data_size s"
    "n \<le> dbs_number_of_bits (dbs_fill n s)" "dbs_number_of_bits (dbs_fill n s) < n + 8"
    "n \<le> length (dbs_pending s) \<Longrightarrow> dbs_pending (dbs_fill n s) = dbs_pending s"
  using assms dbs_read_data_pending [of s n] by (auto simp: dbs_fill_def dbs_ok_def)

lemma dbs_consume_pending:
  assumes "dbs_clean s" "n \<le> 24" "n \<le> dbs_number_of_bits s" "dbs_number_of_bits s < n + 8" "dbs_data_offset s \<le> dbs_data_size s"
  shows "dbs_ok (dbs_consume n s)" "dbs_pending (dbs_consume n s) = drop n (dbs_pending s)" "dbs_data (dbs_consume n s) = dbs_data s"
proof -
  show "dbs_ok (dbs_consume n s)"
    using assms by (auto simp: dbs_ok_def dbs_clean_def dbs_consume_def bit_simps dbs_data_size_def)
  have "map (bit (drop_bit n (dbs_bits s))) [0..<dbs_number_of_bits s - n] = drop n (map (bit (dbs_bits s)) [0..<dbs_number_of_bits s])"
    by (rule nth_equalityI) (simp_all add: bit_simps)
  then show "dbs_pending (dbs_consume n s) = drop n (dbs_pending s)"
    using assms by (simp add: dbs_pending_def dbs_consume_def)
  show "dbs_data (dbs_consume n s) = dbs_data s" by (simp add: dbs_consume_def)
qed

text \<open>The bits a round takes are the lowest of the buffer.\<close>

lemma dbs_low_bits:
  assumes "n \<le> 24"
  shows "bit ((w :: 32 word) AND NOT (push_bit n 0xffffffff)) i \<longleftrightarrow> i < n \<and> bit w i"
proof -
  have m: "(0xffffffff :: 32 word) = mask 32" by (simp add: mask_eq_exp_minus_1)
  show ?thesis using assms unfolding m by (auto simp: bit_simps dest: bit_imp_le_length)
qed

lemma dbs_round:
  assumes "dbs_ok s" "n \<le> 24"
  defines "s' \<equiv> dbs_consume n (dbs_fill n s)"
  shows "dbs_ok s'" "dbs_data s' = dbs_data s" "n \<le> length (dbs_pending s) \<Longrightarrow> dbs_pending s' = drop n (dbs_pending s)"
    "n \<le> length (dbs_pending s) \<Longrightarrow> i < n \<Longrightarrow> bit (dbs_bits (dbs_fill n s)) i = dbs_pending s ! i"
proof -
  note f = dbs_fill_pending [OF assms(1,2)]
  note c = dbs_consume_pending [OF f(1) assms(2) f(4,5)]
  have off: "dbs_data_offset (dbs_fill n s) \<le> dbs_data_size (dbs_fill n s)" using f(2,3) by (simp add: dbs_data_size_def)
  show "dbs_ok s'" "dbs_data s' = dbs_data s" using c(1,3) [OF off] f(2) by (simp_all add: s'_def)
  assume n: "n \<le> length (dbs_pending s)"
  show "dbs_pending s' = drop n (dbs_pending s)" using c(2) [OF off] f(6) [OF n] by (simp add: s'_def)
  assume i: "i < n"
  have "dbs_pending (dbs_fill n s) ! i = bit (dbs_bits (dbs_fill n s)) i"
    using i f(4) by (simp add: dbs_pending_def nth_append)
  then show "bit (dbs_bits (dbs_fill n s)) i = dbs_pending s ! i" using f(6) [OF n] by simp
qed

lemma dbs_get_loop_step:
  assumes "k < n" and r_def: "r = min 24 (n - k)" and t_def: "t = dbs_fill r s"
    and v'_def: "v' = v OR push_bit k (dbs_bits t AND NOT (push_bit r 0xffffffff))"
  shows "dbs_get_loop n k v s = dbs_get_loop n (k + r) v' (dbs_consume r t)"
    "i < 32 \<Longrightarrow> bit v' i \<longleftrightarrow> bit v i \<or> k \<le> i \<and> i - k < r \<and> bit (dbs_bits t) (i - k)"
proof -
  have r: "r \<noteq> 32" "r \<le> 24" by (auto simp: r_def)
  show "dbs_get_loop n k v s = dbs_get_loop n (k + r) v' (dbs_consume r t)"
  proof -
    have "dbs_get_loop n k v s = (let read_size = r; s = dbs_fill read_size s;
        value_32bit = (if read_size = 32 then dbs_bits s else dbs_bits s AND NOT (push_bit read_size 0xffffffff));
        value_32bit = (if 0 < k then push_bit k value_32bit else value_32bit)
        in dbs_get_loop n (k + read_size) (v OR value_32bit) (dbs_consume read_size s))"
      using assms(1) unfolding r_def by (subst dbs_get_loop.simps) (simp only: if_True)
    then show ?thesis using r(1) by (cases "k = 0") (simp_all add: Let_def v'_def t_def)
  qed
  show "bit v' i \<longleftrightarrow> bit v i \<or> k \<le> i \<and> i - k < r \<and> bit (dbs_bits t) (i - k)" if "i < 32"
    using that by (simp only: v'_def bit_or_iff bit_push_bit_iff dbs_low_bits [OF r(2)]) auto
qed

lemma dbs_get_loop_bits:
  assumes "dbs_get_loop n k v s = (w, s')" "dbs_ok s" "n \<le> 32" "k \<le> n" "\<forall>i\<ge>k. \<not> bit v i"
  shows "dbs_ok s' \<and> dbs_data s' = dbs_data s \<and> (\<forall>i\<ge>n. \<not> bit w i) \<and>
    (n - k \<le> length (dbs_pending s) \<longrightarrow> dbs_pending s' = drop (n - k) (dbs_pending s) \<and>
       (\<forall>i<n. bit w i = (if i < k then bit v i else dbs_pending s ! (i - k))))"
  using assms
proof (induction "n - k" arbitrary: k v s rule: less_induct)
  case less
  show ?case
  proof (cases "k < n")
    case False
    then have "dbs_get_loop n k v s = (v, s)" by (subst dbs_get_loop.simps) simp
    with less.prems False show ?thesis by auto
  next
    case True
    define r where "r = min 24 (n - k)"
    define t where "t = dbs_fill r s"
    define v' where "v' = v OR push_bit k (dbs_bits t AND NOT (push_bit r 0xffffffff))"
    have r: "0 < r" "r \<le> 24" "k + r \<le> n" using True by (auto simp: r_def)
    note step = dbs_get_loop_step [OF True r_def t_def v'_def]
    have v': "\<forall>i\<ge>k + r. \<not> bit v' i"
    proof (intro allI impI)
      fix i
      assume i: "k + r \<le> i"
      show "\<not> bit v' i"
      proof (cases "i < 32")
        case True
        with i less.prems(5) step(2) [of i] show ?thesis by auto
      qed (auto dest: bit_imp_le_length)
    qed
    note round = dbs_round [OF less.prems(2) r(2), folded t_def]
    have rec: "dbs_ok s' \<and> dbs_data s' = dbs_data (dbs_consume r t) \<and> (\<forall>i\<ge>n. \<not> bit w i) \<and>
      (n - (k + r) \<le> length (dbs_pending (dbs_consume r t)) \<longrightarrow> dbs_pending s' = drop (n - (k + r)) (dbs_pending (dbs_consume r t)) \<and>
       (\<forall>i<n. bit w i = (if i < k + r then bit v' i else dbs_pending (dbs_consume r t) ! (i - (k + r)))))"
      using less.hyps [of "k + r" v' "dbs_consume r t"] True r less.prems(1,3) step(1) round(1) v' by simp
    have "dbs_pending s' = drop (n - k) (dbs_pending s) \<and>
       (\<forall>i<n. bit w i = (if i < k then bit v i else dbs_pending s ! (i - k)))" if len: "n - k \<le> length (dbs_pending s)"
    proof -
      have p: "dbs_pending (dbs_consume r t) = drop r (dbs_pending s)" using round(3) r len by simp
      then have "dbs_pending s' = drop (n - (k + r)) (drop r (dbs_pending s))"
        and w: "\<forall>i<n. bit w i = (if i < k + r then bit v' i else drop r (dbs_pending s) ! (i - (k + r)))"
        using rec len r by auto
      moreover have "bit w i = (if i < k then bit v i else dbs_pending s ! (i - k))" if i: "i < n" for i
      proof (cases "i < k + r")
        case True
        then have "bit w i = bit v' i" using w i by simp
        also have "\<dots> = (if i < k then bit v i else dbs_pending s ! (i - k))"
          using step(2) [of i] i less.prems(3,5) True round(4) [of "i - k"] r len by auto
        finally show ?thesis .
      next
        case False
        then have "drop r (dbs_pending s) ! (i - (k + r)) = dbs_pending s ! (i - k)" using i len r by simp
        with w i False show ?thesis by simp
      qed
      ultimately show ?thesis using r by simp
    qed
    with rec round(2) show ?thesis by auto
  qed
qed

lemma dbs_get_value_laws:
  assumes "dbs_get_value s n = (v, s')" "dbs_ok s" "n \<le> 32"
  shows "dbs_ok s'" "dbs_data s' = dbs_data s" "unat v < 2 ^ n"
    "n \<le> length (dbs_pending s) \<Longrightarrow> unat v = horner_sum of_bool 2 (take n (dbs_pending s)) \<and> dbs_pending s' = drop n (dbs_pending s)"
proof -
  note l = dbs_get_loop_bits [OF assms(1) [unfolded dbs_get_value_def] assms(2,3)]
  from l show "dbs_ok s'" "dbs_data s' = dbs_data s" by auto
  have "take_bit n v = v" using l by (intro bit_eqI) (auto simp: bit_simps not_less [symmetric])
  then have "take_bit n (unat v) = unat v" by (metis unsigned_take_bit_eq)
  then show "unat v < 2 ^ n" by (metis take_bit_nat_less_exp)
  assume n: "n \<le> length (dbs_pending s)"
  have "unat v = horner_sum of_bool 2 (take n (dbs_pending s))"
    using l n assms(3) by (intro bit_eqI) (fastforce simp: bit_simps not_less [symmetric])
  with l n show "unat v = horner_sum of_bool 2 (take n (dbs_pending s)) \<and> dbs_pending s' = drop n (dbs_pending s)" by simp
qed

interpretation dbs: lsb_bit_stream dbs_get_value dbs_pending dbs_ok
proof
  fix s b bs v s'
  assume "dbs_ok s" "dbs_pending s = b # bs" "dbs_get_value s 1 = (v, s')"
  then show "unat v = of_bool b \<and> dbs_pending s' = bs" using dbs_get_value_laws(4) [of s 1 v s'] by simp
next
  fix s v s'
  assume "dbs_ok s" "dbs_get_value s 1 = (v, s')"
  then show "unat v < 2" using dbs_get_value_laws(3) [of s 1 v s'] by simp
qed (auto dest: dbs_get_value_laws)

section \<open>Reading from the front\<close>

text \<open>The bits of a number, the lowest first.\<close>

definition bits_of :: "nat \<Rightarrow> nat \<Rightarrow> bool list" where
  "bits_of n k = map (bit k) [0..<n]"

lemma length_bits_of [simp]: "length (bits_of n k) = n"
  by (simp add: bits_of_def)

lemma bits_of_step: "bits_of 0 k = []" "bits_of (Suc n) k = odd k # bits_of n (k div 2)"
  "bits_of (numeral m) k = odd k # bits_of (pred_numeral m) (k div 2)"
proof -
  show step: "bits_of (Suc n) k = odd k # bits_of n (k div 2)" for n
    by (simp add: bits_of_def upt_conv_Cons map_Suc_upt [symmetric] bit_Suc bit_0 comp_def del: upt_Suc)
  then show "bits_of (numeral m) k = odd k # bits_of (pred_numeral m) (k div 2)" by (simp only: numeral_eq_Suc)
qed (simp add: bits_of_def)

lemma bits_of_value: "k < 2 ^ n \<Longrightarrow> horner_sum of_bool 2 (bits_of n k) = k"
  by (simp add: bits_of_def horner_sum_bit_eq_take_bit take_bit_eq_mod)

lemma bits_of_append:
  assumes "k < 2 ^ n"
  shows "bits_of n k @ bits_of m j = bits_of (n + m) (push_bit n j OR k)"
proof -
  have "k = take_bit n k" using assms by (simp add: take_bit_eq_mod)
  then have high: "\<not> bit k i" if "n \<le> i" for i using that by (metis bit_take_bit_iff not_le)
  show ?thesis by (rule nth_equalityI) (auto simp: bits_of_def nth_append bit_simps high not_less)
qed

context lsb_bit_stream
begin

lemma get_number:
  assumes "stream_ok s" "n \<le> 32" "k < 2 ^ n" "pending s = bits_of n k @ rest" "get_value s n = (v, s')"
  shows "unat v = k" "pending s' = rest" "stream_ok s'"
  using get_value_bits [OF assms(1,2) _ assms(5)] get_value_ok [OF assms(1,2,5)] assms(3,4) by (auto simp: bits_of_value)

end

lemma dbs_new_ok: "k \<le> length data \<Longrightarrow> dbs_ok (dbs_new data k)" "dbs_pending (dbs_new data k) = bitmap_bits (drop k data)"
  by (simp_all add: dbs_ok_def dbs_clean_def dbs_new_def dbs_pending_def dbs_data_size_def)

lemma dbs_aligned: "dbs_ok s \<Longrightarrow> dbs_number_of_bits s = length (dbs_pending s) mod 8"
  by (simp add: dbs_ok_def dbs_pending_def length_bitmap_bits)

lemma dbs_skip_bits_pending:
  assumes "dbs_ok s" "n \<le> 24"
  shows "dbs_ok (dbs_skip_bits n s)" "dbs_data (dbs_skip_bits n s) = dbs_data s"
    "n \<le> length (dbs_pending s) \<Longrightarrow> dbs_pending (dbs_skip_bits n s) = drop n (dbs_pending s)"
proof -
  have "dbs_skip_bits n s = (if n = 0 then s else dbs_consume n (dbs_fill n s))"
    using assms(2) by (simp add: dbs_skip_bits_def dbs_skip_loop.simps [of n 0] dbs_skip_loop.simps [of n n] Let_def)
  then show "dbs_ok (dbs_skip_bits n s)" "dbs_data (dbs_skip_bits n s) = dbs_data s"
    "n \<le> length (dbs_pending s) \<Longrightarrow> dbs_pending (dbs_skip_bits n s) = drop n (dbs_pending s)"
    using dbs_round [OF assms] assms(1) by auto
qed

lemma dbs_copy_bytes_pending:
  assumes "dbs_ok s" "dbs_pending s = bitmap_bits bs @ rest" "8 dvd length rest" "length bs \<le> length room"
  shows "\<exists>s'. dbs_copy_bytes (length bs) (out @ room) (length out) s = Ok (out @ bs @ drop (length bs) room, s')
    \<and> dbs_ok s' \<and> dbs_pending s' = rest \<and> dbs_data s' = dbs_data s"
proof -
  have "dbs_number_of_bits s = 0"
    using dbs_aligned [OF assms(1)] assms(2,3) by (simp add: length_bitmap_bits mod_0_imp_dvd) 
  then have p: "bitmap_bits (drop (dbs_data_offset s) (dbs_data s)) = bitmap_bits bs @ rest"
    using assms(2) by (simp add: dbs_pending_def)
  then have len: "length bs \<le> length (drop (dbs_data_offset s) (dbs_data s))"
    using arg_cong [OF p, of length] unfolding length_append length_bitmap_bits by linarith
  let ?d = "drop (dbs_data_offset s) (dbs_data s)"
  have "bitmap_bits (take (length bs) ?d) @ bitmap_bits (drop (length bs) ?d) = bitmap_bits bs @ rest"
    using p by (simp only: bitmap_bits_simps(3) [symmetric] append_take_drop_id)
  then have "bitmap_bits (take (length bs) ?d) = bitmap_bits bs" and rest: "bitmap_bits (drop (length bs) ?d) = rest"
    using len by (auto simp: length_bitmap_bits)
  then have bs: "take (length bs) ?d = bs" using bitmap_bits_inject len by simp
  show ?thesis
    using len bs rest assms(1,4)
    by (auto simp: dbs_copy_bytes_def Let_def dbs_data_size_def subslice_def write_slice_def dbs_ok_def dbs_clean_def dbs_pending_def add.commute)
qed

end
