(* ===== verification/Huffman.thy ===== *)
theory Huffman
  imports Bitstream
begin

text \<open>
  Huffman codes (\<open>keramics-compression/src/huffman.rs\<close>): a tree is built from the sizes of the codes of its
  symbols and decodes a symbol from any bit stream.  The codes are the canonical ones of RFC 1951.
\<close>

section \<open>The tree\<close>

text \<open>
  The callers' largest code sizes are at most 20, so that the \<open>isize\<close> values stay far below their limits;
  they are integers.  \<open>maximum_code_size\<close> is the largest code size and 1.
\<close>

record HuffmanTree =
  ht_largest_code_size :: nat
  ht_maximum_code_size :: nat
  ht_symbols :: "nat list"
  ht_code_size_counts :: "int list"

definition huffman_new :: "nat \<Rightarrow> nat \<Rightarrow> HuffmanTree" where
  "huffman_new number_of_symbols largest_code_size =
     (let maximum_code_size = largest_code_size + 1 in
      \<lparr>ht_largest_code_size = largest_code_size, ht_maximum_code_size = maximum_code_size,
       ht_symbols = replicate number_of_symbols 0, ht_code_size_counts = replicate maximum_code_size 0\<rparr>)"

text \<open>The frequencies of the code sizes; a size in the range is an index of the counts.\<close>

fun huffman_count :: "nat \<Rightarrow> byte list \<Rightarrow> int list \<Rightarrow> int list result" where
  "huffman_count largest [] counts = Ok counts"
| "huffman_count largest (code_size # code_sizes) counts =
     (if largest < unat code_size then Err (Compression_error Huffman_code_size)
      else if length counts \<le> unat code_size then Err (Panic Index_out_of_bounds)
      else huffman_count largest code_sizes (counts[unat code_size := counts ! unat code_size + 1]))"

text \<open>The codes that are left at each size; the argument are the counts from size 1 on.\<close>

fun huffman_check_left :: "int list \<Rightarrow> int \<Rightarrow> unit result" where
  "huffman_check_left [] left_value = Ok ()"
| "huffman_check_left (count # counts) left_value =
     (let left_value = push_bit 1 left_value - count in
      if left_value < 0 then Err (Compression_error Huffman_over_subscribed)
      else huffman_check_left counts left_value)"

fun huffman_offsets :: "int list \<Rightarrow> nat list \<Rightarrow> int list \<Rightarrow> int list" where
  "huffman_offsets counts [] symbol_offsets = symbol_offsets"
| "huffman_offsets counts (bit_index # bit_indices) symbol_offsets =
     huffman_offsets counts bit_indices (symbol_offsets @ [symbol_offsets ! bit_index + counts ! bit_index])"

fun huffman_fill :: "nat \<Rightarrow> nat \<Rightarrow> byte list \<Rightarrow> int list \<Rightarrow> nat list \<Rightarrow> nat list result" where
  "huffman_fill number_of_code_sizes symbol [] symbol_offsets symbols = Ok symbols"
| "huffman_fill number_of_code_sizes symbol (code_size # code_sizes) symbol_offsets symbols =
     (if 0 < unat code_size then
        if length symbol_offsets \<le> unat code_size then Err (Panic Index_out_of_bounds)
        else
          let code_offset = symbol_offsets ! unat code_size in
          if code_offset < 0 \<or> int number_of_code_sizes < code_offset then Err (Compression_error Huffman_code_offset)
          else if length symbols \<le> nat code_offset then Err (Panic Index_out_of_bounds)
          else huffman_fill number_of_code_sizes (symbol + 1) code_sizes
                 (symbol_offsets[unat code_size := code_offset + 1]) (symbols[nat code_offset := symbol])
      else huffman_fill number_of_code_sizes (symbol + 1) code_sizes symbol_offsets symbols)"

definition huffman_build :: "HuffmanTree \<Rightarrow> byte list \<Rightarrow> HuffmanTree result" where
  "huffman_build tree code_sizes =
     (let number_of_code_sizes = length code_sizes in
      if u16_limit - 1 < number_of_code_sizes then Err (Compression_error Huffman_number_of_code_sizes)
      else
        and_then (huffman_count (ht_largest_code_size tree) code_sizes (map (\<lambda>_. 0) (ht_code_size_counts tree))) (\<lambda>counts.
        if counts ! 0 = int number_of_code_sizes then Err (Compression_error Huffman_no_codes)
        else
          and_then (huffman_check_left (subslice 1 (ht_maximum_code_size tree - 1) counts) 1) (\<lambda>_.
          and_then (huffman_fill number_of_code_sizes 0 code_sizes
                      (huffman_offsets counts [1..<ht_largest_code_size tree] [0, 0]) (ht_symbols tree)) (\<lambda>symbols.
            Ok (tree\<lparr>ht_symbols := symbols, ht_code_size_counts := counts\<rparr>)))))"

text \<open>
  Decoding takes one bit at a time.  The list are the counts of the sizes that are left; a negative index
  is out of bounds once it is converted to \<open>usize\<close>.
\<close>

fun huffman_decode_loop :: "('s \<Rightarrow> nat \<Rightarrow> 32 word \<times> 's) \<Rightarrow> nat list \<Rightarrow> int list \<Rightarrow> int \<Rightarrow> int \<Rightarrow> int \<Rightarrow> 's
    \<Rightarrow> (nat \<times> 's) result" where
  "huffman_decode_loop get_value symbols [] huffman_code first_huffman_code first_index s =
     Err (Compression_error Huffman_invalid_code)"
| "huffman_decode_loop get_value symbols (code_size_count # counts) huffman_code first_huffman_code first_index s =
     (case get_value s 1 of (v, s) \<Rightarrow>
        let huffman_code = push_bit 1 huffman_code OR int (unat v) in
        if huffman_code - code_size_count < first_huffman_code then
          let symbol_index = first_index + (huffman_code - first_huffman_code) in
          if 0 \<le> symbol_index \<and> nat symbol_index < length symbols then Ok (symbols ! nat symbol_index, s)
          else Err (Panic Index_out_of_bounds)
        else huffman_decode_loop get_value symbols counts huffman_code
               (push_bit 1 (first_huffman_code + code_size_count)) (first_index + code_size_count) s)"

definition huffman_decode_symbol :: "('s \<Rightarrow> nat \<Rightarrow> 32 word \<times> 's) \<Rightarrow> HuffmanTree \<Rightarrow> 's \<Rightarrow> (nat \<times> 's) result" where
  "huffman_decode_symbol get_value tree s =
     huffman_decode_loop get_value (ht_symbols tree)
       (subslice 1 (ht_maximum_code_size tree - 1) (ht_code_size_counts tree)) 0 0 0 s"

section \<open>Canonical codes\<close>

text \<open>
  The first code of each size and the code of a symbol as RFC 1951 assigns them; \<open>ss\<close> are the sizes of the
  codes of the symbols, 0 for a symbol without a code.
\<close>

definition code_count :: "nat list \<Rightarrow> nat \<Rightarrow> nat" where
  "code_count ss k = (if k = 0 then 0 else count_list ss k)"

fun first_code :: "nat list \<Rightarrow> nat \<Rightarrow> nat" where
  "first_code ss 0 = 0"
| "first_code ss (Suc k) = 2 * (first_code ss k + code_count ss k)"

definition canonical_value :: "nat list \<Rightarrow> nat \<Rightarrow> nat" where
  "canonical_value ss n = first_code ss (ss ! n) + count_list (take n ss) (ss ! n)"

definition canonical_code :: "nat list \<Rightarrow> nat \<Rightarrow> bool list" where
  "canonical_code ss n = rev (bits_of (ss ! n) (canonical_value ss n))"

text \<open>The number of the codes that are shorter.\<close>

definition code_base :: "nat list \<Rightarrow> nat \<Rightarrow> nat" where
  "code_base ss k = sum_list (map (code_count ss) [0..<k])"

definition code_sizes_of :: "byte list \<Rightarrow> nat list" where
  "code_sizes_of code_sizes = map unat code_sizes"

section \<open>Building\<close>

lemma huffman_count_exact:
  assumes "largest < length counts"
  shows "huffman_count largest code_sizes counts =
    (if \<forall>c \<in> set code_sizes. unat c \<le> largest
     then Ok (map (\<lambda>k. counts ! k + int (count_list (map unat code_sizes) k)) [0..<length counts])
     else Err (Compression_error Huffman_code_size))"
  using assms
proof (induction code_sizes arbitrary: counts)
  case Nil
  then show ?case by (simp add: map_nth)
next
  case (Cons c code_sizes)
  then show ?case
    by (auto simp: not_less nth_list_update intro!: map_cong)
qed

lemma huffman_check_left_exact:
  assumes "counts = map (\<lambda>j. int (count_list ss j)) [Suc k..<Suc k + length counts]"
  shows "huffman_check_left counts (2 ^ k - int (first_code ss k + code_count ss k)) =
    (if \<forall>j. k < j \<and> j \<le> k + length counts \<longrightarrow> first_code ss j + code_count ss j \<le> 2 ^ j then Ok ()
     else Err (Compression_error Huffman_over_subscribed))"
  using assms
proof (induction counts arbitrary: k)
  case (Cons c counts)
  have c: "c = int (count_list ss (Suc k))"
    and cs: "counts = map (\<lambda>j. int (count_list ss j)) [Suc (Suc k)..<Suc (Suc k) + length counts]"
    using Cons.prems by (simp_all add: upt_conv_Cons del: upt_Suc)
  let ?left = "push_bit 1 (2 ^ k - int (first_code ss k + code_count ss k)) - c"
  have left: "?left = 2 ^ Suc k - int (first_code ss (Suc k) + code_count ss (Suc k))"
    by (simp add: push_bit_eq_mult c code_count_def)
  have neg: "?left < 0 \<longleftrightarrow> \<not> first_code ss (Suc k) + code_count ss (Suc k) \<le> 2 ^ Suc k"
    unfolding left by (simp add: not_le flip: of_nat_less_iff [where 'a = int])
  have all: "(\<forall>j. k < j \<and> j \<le> k + length (c # counts) \<longrightarrow> P j) \<longleftrightarrow>
      P (Suc k) \<and> (\<forall>j. Suc k < j \<and> j \<le> Suc k + length counts \<longrightarrow> P j)" for P
    by (auto simp: less_eq_Suc_le) (metis Suc_leI le_neq_implies_less)
  have "huffman_check_left (c # counts) (2 ^ k - int (first_code ss k + code_count ss k))
      = (if ?left < 0 then Err (Compression_error Huffman_over_subscribed) else huffman_check_left counts ?left)"
    by (simp only: huffman_check_left.simps Let_def)
  also have "\<dots> = (if \<forall>j. k < j \<and> j \<le> k + length (c # counts) \<longrightarrow> first_code ss j + code_count ss j \<le> 2 ^ j then Ok ()
     else Err (Compression_error Huffman_over_subscribed))"
    unfolding all neg using Cons.IH [OF cs] unfolding left by (simp only: if_not_P) (simp split: if_splits)
  finally show ?case .
qed simp

text \<open>The offset of the first symbol of each size.\<close>

lemma code_base_Suc: "code_base ss (Suc k) = code_base ss k + code_count ss k"
  by (simp add: code_base_def)

lemma code_base_1: "code_base ss (Suc 0) = 0"
  by (simp add: code_base_def code_count_def)

lemma code_base_mono: "j \<le> k \<Longrightarrow> code_base ss j \<le> code_base ss k"
  by (rule lift_Suc_mono_le) (simp_all add: code_base_Suc)

lemma code_base_le: "code_base ss k \<le> length ss"
proof -
  have "code_base ss k = sum (code_count ss) {0..<k}" by (simp add: code_base_def sum_list_distinct_conv_sum_set)
  also have "\<dots> \<le> sum (count_list ss) {0..<k}" by (rule sum_mono) (simp add: code_count_def)
  also have "\<dots> \<le> sum (count_list ss) ({0..<k} \<union> set ss)" by (rule sum_mono2) auto
  also have "\<dots> = length ss" by (rule sum_count_set) auto
  finally show ?thesis .
qed

lemma huffman_offsets_base:
  assumes "length offs = Suc m" "m \<le> n" "0 < m" "\<And>j. 0 < j \<Longrightarrow> j \<le> m \<Longrightarrow> offs ! j = int (code_base ss j)"
    and "\<And>j. 0 < j \<Longrightarrow> j < n \<Longrightarrow> counts ! j = int (count_list ss j)"
  shows "length (huffman_offsets counts [m..<n] offs) = Suc n \<and>
    (\<forall>j. 0 < j \<and> j \<le> n \<longrightarrow> huffman_offsets counts [m..<n] offs ! j = int (code_base ss j))"
  using assms(1-4)
proof (induction "n - m" arbitrary: m offs)
  case (Suc d)
  then have m: "m < n" by simp
  let ?offs = "offs @ [offs ! m + counts ! m]"
  have "?offs ! j = int (code_base ss j)" if j: "0 < j" "j \<le> Suc m" for j
  proof (cases "j = Suc m")
    case True
    then show ?thesis using Suc.prems m assms(5) by (simp add: nth_append code_base_Suc code_count_def)
  next
    case False
    then show ?thesis using Suc.prems j by (simp add: nth_append)
  qed
  with Suc.hyps(1) [of "Suc m" ?offs] Suc.hyps(2) Suc.prems m show ?case by (simp add: upt_conv_Cons)
qed auto

text \<open>The position of a symbol: sorted by the size of its code, then by its number.\<close>

definition symbol_position :: "nat list \<Rightarrow> nat \<Rightarrow> nat" where
  "symbol_position ss n = code_base ss (ss ! n) + count_list (take n ss) (ss ! n)"

lemma count_take_less: "n < length ss \<Longrightarrow> count_list (take n ss) (ss ! n) < count_list ss (ss ! n)"
proof -
  assume n: "n < length ss"
  have "ss = take n ss @ ss ! n # drop (Suc n) ss" using n by (simp add: id_take_nth_drop)
  then have "count_list ss (ss ! n) = count_list (take n ss @ ss ! n # drop (Suc n) ss) (ss ! n)" by simp
  then show ?thesis by simp
qed

lemma symbol_position_bound:
  assumes "n < length ss" "0 < ss ! n"
  shows "symbol_position ss n < code_base ss (Suc (ss ! n))"
  using count_take_less [OF assms(1)] assms(2) by (simp add: symbol_position_def code_base_Suc code_count_def)

lemma symbol_position_inject:
  assumes "n < m" "m < length ss" "0 < ss ! n" "0 < ss ! m"
  shows "symbol_position ss n \<noteq> symbol_position ss m"
proof -
  have n: "n < length ss" using assms by simp
  consider "ss ! n = ss ! m" | "ss ! n < ss ! m" | "ss ! m < ss ! n" by linarith
  then show ?thesis
  proof cases
    case 1
    have "take m ss = take n ss @ ss ! n # drop (Suc n) (take m ss)"
      using assms id_take_nth_drop [of n "take m ss"] by (simp add: min_def)
    then have "count_list (take m ss) (ss ! n) = count_list (take n ss @ ss ! n # drop (Suc n) (take m ss)) (ss ! n)" by simp
    then show ?thesis using 1 by (simp add: symbol_position_def)
  next
    case 2
    then have "code_base ss (Suc (ss ! n)) \<le> code_base ss (ss ! m)" by (intro code_base_mono) simp
    with symbol_position_bound [OF n assms(3)] show ?thesis by (simp add: symbol_position_def)
  next
    case 3
    then have "code_base ss (Suc (ss ! m)) \<le> code_base ss (ss ! n)" by (intro code_base_mono) simp
    with symbol_position_bound [OF assms(2,4)] show ?thesis by (simp add: symbol_position_def)
  qed
qed

lemma huffman_fill_exact:
  assumes "ss = pre @ map unat code_sizes" "length ss \<le> length symbols" "length ss \<le> N" "\<forall>c \<in> set code_sizes. unat c < length offs"
    and "\<And>c. 0 < c \<Longrightarrow> c < length offs \<Longrightarrow> offs ! c = int (code_base ss c + count_list pre c)"
    and "\<And>n. n < length pre \<Longrightarrow> 0 < ss ! n \<Longrightarrow> symbols ! symbol_position ss n = n"
  shows "\<exists>symbols'. huffman_fill N (length pre) code_sizes offs symbols = Ok symbols' \<and> length symbols' = length symbols
    \<and> set symbols' \<subseteq> set symbols \<union> {..<length ss}
    \<and> (\<forall>n. n < length ss \<and> 0 < ss ! n \<longrightarrow> symbols' ! symbol_position ss n = n)"
  using assms
proof (induction code_sizes arbitrary: pre offs symbols)
  case (Cons c code_sizes)
  let ?c = "unat c" and ?k = "length pre"
  have ss: "ss = (pre @ [?c]) @ map unat code_sizes" "?k < length ss" "ss ! ?k = ?c" "take ?k ss = pre"
    using Cons.prems(1) by simp_all
  show ?case
  proof (cases "?c = 0")
    case True
    have "\<exists>symbols'. huffman_fill N (length (pre @ [?c])) code_sizes offs symbols = Ok symbols' \<and> length symbols' = length symbols
      \<and> set symbols' \<subseteq> set symbols \<union> {..<length ss}
      \<and> (\<forall>n. n < length ss \<and> 0 < ss ! n \<longrightarrow> symbols' ! symbol_position ss n = n)"
    proof (rule Cons.IH [OF ss(1) Cons.prems(2,3)])
      fix n
      assume "n < length (pre @ [?c])" "0 < ss ! n"
      with True ss(3) show "symbols ! symbol_position ss n = n" by (intro Cons.prems(6)) (auto simp: less_Suc_eq)
    qed (use Cons.prems True in auto)
    then show ?thesis using True by simp
  next
    case False
    let ?p = "symbol_position ss ?k"
    have p: "?p < length ss"
      using symbol_position_bound [OF ss(2)] code_base_le [of ss "Suc ?c"] False by (simp add: ss(3))
    have off: "offs ! ?c = int ?p" using Cons.prems(4,5) False by (simp add: symbol_position_def ss(3,4))
    let ?symbols = "symbols[?p := ?k]" and ?offs = "offs[?c := int ?p + 1]"
    have step: "huffman_fill N ?k (c # code_sizes) offs symbols = huffman_fill N (length (pre @ [?c])) code_sizes ?offs ?symbols"
      using False Cons.prems(2-4) p off by (simp add: Let_def)
    have "\<exists>symbols'. huffman_fill N (length (pre @ [?c])) code_sizes ?offs ?symbols = Ok symbols' \<and> length symbols' = length ?symbols
      \<and> set symbols' \<subseteq> set ?symbols \<union> {..<length ss}
      \<and> (\<forall>n. n < length ss \<and> 0 < ss ! n \<longrightarrow> symbols' ! symbol_position ss n = n)"
    proof (rule Cons.IH [OF ss(1)])
      fix d
      assume "0 < d" "d < length ?offs"
      then show "?offs ! d = int (code_base ss d + count_list (pre @ [?c]) d)"
        using Cons.prems(5) [of d] by (auto simp: nth_list_update symbol_position_def ss(3,4))
    next
      fix n
      assume n: "n < length (pre @ [?c])" "0 < ss ! n"
      show "?symbols ! symbol_position ss n = n"
      proof (cases "n = ?k")
        case True
        then show ?thesis using p Cons.prems(2) by simp
      next
        case F: False
        then have "n < ?k" using n by simp
        then show ?thesis
          using symbol_position_inject [of n ?k ss] n(2) ss False Cons.prems(6) by simp
      qed
    qed (use Cons.prems in auto)
    then show ?thesis
      using ss(2) set_update_subset_insert [of symbols ?p ?k] unfolding step by fastforce
  qed
qed simp

text \<open>The sizes the tree accepts: in the range, not all 0, and not over-subscribed.\<close>

definition huffman_sizes_ok :: "nat \<Rightarrow> nat list \<Rightarrow> bool" where
  "huffman_sizes_ok largest ss \<longleftrightarrow> (\<forall>s \<in> set ss. s \<le> largest) \<and> (\<exists>s \<in> set ss. s \<noteq> 0) \<and>
     (\<forall>j \<in> {1..largest}. first_code ss j + code_count ss j \<le> 2 ^ j)"

definition huffman_tree :: "nat \<Rightarrow> nat list \<Rightarrow> HuffmanTree \<Rightarrow> bool" where
  "huffman_tree largest ss tree \<longleftrightarrow> huffman_sizes_ok largest ss \<and> ht_largest_code_size tree = largest \<and> ht_maximum_code_size tree = largest + 1 \<and>
     ht_code_size_counts tree = map (\<lambda>k. int (count_list ss k)) [0..<largest + 1] \<and> length ss \<le> length (ht_symbols tree) \<and>
     set (ht_symbols tree) \<subseteq> {..<length ss} \<and>
     (\<forall>n. n < length ss \<and> 0 < ss ! n \<longrightarrow> ht_symbols tree ! symbol_position ss n = n)"

lemma count_list_all: "count_list xs x = length xs \<longleftrightarrow> (\<forall>y \<in> set xs. y = x)"
proof (induction xs)
  case (Cons y xs)
  then show ?case using count_le_length [of xs x] by auto
qed simp

lemma huffman_build_exact:
  assumes len: "length code_sizes \<le> number_of_symbols" "length code_sizes < u16_limit" and pos: "0 < largest"
  shows "if huffman_sizes_ok largest (code_sizes_of code_sizes)
    then \<exists>tree. huffman_build (huffman_new number_of_symbols largest) code_sizes = Ok tree \<and>
      huffman_tree largest (code_sizes_of code_sizes) tree
    else \<exists>e. huffman_build (huffman_new number_of_symbols largest) code_sizes = Err (Compression_error e)"
proof -
  let ?ss = "code_sizes_of code_sizes" and ?t = "huffman_new number_of_symbols largest"
  define counts where "counts = map (\<lambda>k. int (count_list ?ss k)) [0..<largest + 1]"
  have count: "huffman_count largest code_sizes (map (\<lambda>_. 0) (ht_code_size_counts ?t)) =
      (if \<forall>s \<in> set ?ss. s \<le> largest then Ok counts else Err (Compression_error Huffman_code_size))"
    by (subst huffman_count_exact)
      (auto simp: huffman_new_def code_sizes_of_def counts_def Let_def nth_Cons' simp del: upt_Suc)
  have zero: "counts ! 0 = int (length code_sizes) \<longleftrightarrow> (\<forall>s \<in> set ?ss. s = 0)"
  proof -
    have "counts ! 0 = int (count_list ?ss 0)" by (simp add: counts_def nth_append del: upt_Suc)
    then show ?thesis using count_list_all [of ?ss 0] by (simp add: code_sizes_of_def)
  qed
  have sub: "subslice 1 (ht_maximum_code_size ?t - 1) counts = map (\<lambda>k. int (count_list ?ss k)) [Suc 0..<Suc 0 + largest]"
    by (simp add: huffman_new_def counts_def subslice_def drop_map take_map del: upt_Suc)
  have check: "huffman_check_left (subslice 1 (ht_maximum_code_size ?t - 1) counts) 1 =
      (if \<forall>j \<in> {1..largest}. first_code ?ss j + code_count ?ss j \<le> 2 ^ j then Ok () else Err (Compression_error Huffman_over_subscribed))"
    using huffman_check_left_exact [of "map (\<lambda>k. int (count_list ?ss k)) [Suc 0..<Suc 0 + largest]" ?ss 0]
    unfolding sub by (simp add: code_count_def Ball_def less_eq_Suc_le del: upt_Suc)
  have offs: "length (huffman_offsets counts [1..<largest] [0, 0]) = Suc largest \<and>
      (\<forall>j. 0 < j \<and> j \<le> largest \<longrightarrow> huffman_offsets counts [1..<largest] [0, 0] ! j = int (code_base ?ss j))"
    using pos by (intro huffman_offsets_base) (auto simp: le_Suc_eq code_base_def code_count_def counts_def nth_append simp del: upt_Suc)
  have fill: "\<exists>symbols. huffman_fill (length code_sizes) 0 code_sizes (huffman_offsets counts [1..<largest] [0, 0]) (ht_symbols ?t) = Ok symbols
      \<and> length symbols = number_of_symbols \<and> set symbols \<subseteq> {..<length ?ss}
      \<and> (\<forall>n. n < length ?ss \<and> 0 < ?ss ! n \<longrightarrow> symbols ! symbol_position ?ss n = n)"
    if ok: "\<forall>s \<in> set ?ss. s \<le> largest" "\<exists>s \<in> set ?ss. s \<noteq> 0"
  proof -
    have "\<exists>symbols. huffman_fill (length code_sizes) (length ([] :: nat list)) code_sizes (huffman_offsets counts [1..<largest] [0, 0]) (ht_symbols ?t) = Ok symbols
      \<and> length symbols = length (ht_symbols ?t) \<and> set symbols \<subseteq> set (ht_symbols ?t) \<union> {..<length ?ss}
      \<and> (\<forall>n. n < length ?ss \<and> 0 < ?ss ! n \<longrightarrow> symbols ! symbol_position ?ss n = n)"
    proof (rule huffman_fill_exact)
      show "\<forall>c \<in> set code_sizes. unat c < length (huffman_offsets counts [1..<largest] [0, 0])"
        using ok(1) offs by (auto simp: code_sizes_of_def less_Suc_eq_le)
    qed (use len offs in \<open>auto simp: code_sizes_of_def huffman_new_def Let_def\<close>)
    moreover have "0 < length ?ss" using ok(2) by auto
    then have "set (ht_symbols ?t) \<subseteq> {..<length ?ss}" by (auto simp: huffman_new_def Let_def)
    moreover have "length (ht_symbols ?t) = number_of_symbols" by (simp add: huffman_new_def Let_def)
    ultimately show ?thesis by (metis Un_absorb1 list.size(3))
  qed
  have new: "ht_largest_code_size ?t = largest" "ht_maximum_code_size ?t = largest + 1" by (simp_all add: huffman_new_def Let_def)
  show ?thesis
  proof (cases "huffman_sizes_ok largest ?ss")
    case True
    then obtain symbols where symbols: "huffman_fill (length code_sizes) 0 code_sizes (huffman_offsets counts [1..<largest] [0, 0]) (ht_symbols ?t) = Ok symbols"
      "length symbols = number_of_symbols" "set symbols \<subseteq> {..<length ?ss}"
      "\<forall>n. n < length ?ss \<and> 0 < ?ss ! n \<longrightarrow> symbols ! symbol_position ?ss n = n"
      using fill by (auto simp: huffman_sizes_ok_def)
    have "huffman_build ?t code_sizes = Ok (?t\<lparr>ht_symbols := symbols, ht_code_size_counts := counts\<rparr>)"
      using True len(2) count zero check symbols(1) new
      unfolding huffman_build_def Let_def huffman_sizes_ok_def by (simp del: upt_Suc)
    then show ?thesis using True symbols len new by (auto simp: huffman_tree_def counts_def code_sizes_of_def simp del: upt_Suc)
  next
    case False
    then show ?thesis
      using count zero check new len(2) fill unfolding huffman_build_def Let_def huffman_sizes_ok_def
      by (auto simp del: upt_Suc split: if_splits)
  qed
qed

section \<open>Decoding\<close>

lemma int_sum_list: "sum_list (map (\<lambda>j. int (f j)) xs) = int (sum_list (map f xs))"
  by (induction xs) simp_all

lemma append_bit: "b < 2 \<Longrightarrow> push_bit 1 c OR int b = 2 * c + int b"
  by (cases b) (auto simp: push_bit_eq_mult or_one_eq)

lemma first_code_le:
  assumes "k < l"
  shows "2 ^ (l - k) * (first_code ss k + code_count ss k) \<le> first_code ss l"
  using assms
proof (induction "l - k" arbitrary: l)
  case (Suc d)
  then obtain l' where l: "l = Suc l'" by (cases l) auto
  show ?case
  proof (cases "k = l'")
    case False
    then have "2 ^ (l' - k) * (first_code ss k + code_count ss k) \<le> first_code ss l'" using Suc l by simp
    moreover have "(2 :: nat) ^ (l - k) = 2 * 2 ^ (l' - k)" using l False Suc.prems by (simp add: Suc_diff_le)
    ultimately show ?thesis by (simp add: l)
  qed (simp add: l)
qed simp

lemma canonical_value_bounds:
  assumes "n < length ss" "0 < ss ! n"
  shows "first_code ss (ss ! n) \<le> canonical_value ss n" "canonical_value ss n < first_code ss (ss ! n) + code_count ss (ss ! n)"
  using count_take_less [OF assms(1)] assms(2) by (simp_all add: canonical_value_def code_count_def)

context bit_stream
begin

lemma decode_loop_canonical:
  assumes "stream_ok s" "pending s = rev (bits_of (l - k) v) @ rest" "k < l" "l \<le> largest"
    and v: "first_code ss l \<le> v" "v < first_code ss l + code_count ss l"
    and index: "code_base ss l + (v - first_code ss l) < length symbols"
  shows "\<exists>s'. huffman_decode_loop get_value symbols (map (\<lambda>j. int (count_list ss j)) [Suc k..<Suc largest])
      (int (v div 2 ^ (l - k))) (int (first_code ss (Suc k))) (int (code_base ss (Suc k))) s =
      Ok (symbols ! (code_base ss l + (v - first_code ss l)), s') \<and> stream_ok s' \<and> pending s' = rest"
  using assms(1-3)
proof (induction "l - Suc k" arbitrary: k s)
  case less: 0
  then have l: "l = Suc k" by simp
  obtain w s' where w: "get_value s 1 = (w, s')" by (cases "get_value s 1")
  have "bits_of 1 v = [odd v]" by (simp add: bits_of_def bit_0)
  then have "pending s = odd v # rest" using less.prems(2) by (simp add: l)
  note g = get_bit [OF less.prems(1) this w] get_value_ok [OF less.prems(1) _ w]
  have code: "push_bit 1 (int (v div 2 ^ (l - k))) OR int (unat w) = int v"
  proof -
    have "int v = 2 * int (v div 2) + of_bool (odd v)" by (cases "odd v") (auto elim!: oddE evenE)
    then show ?thesis using append_bit [of "unat w" "int (v div 2)"] g by (simp add: l)
  qed
  have upt: "[l..<Suc largest] = l # [Suc l..<Suc largest]" using assms(4) by (simp add: upt_conv_Cons)
  have hit: "int v - int (count_list ss l) < int (first_code ss l)" using v(2) l by (simp add: code_count_def)
  have i: "nat (int (code_base ss l) + (int v - int (first_code ss l))) = code_base ss l + (v - first_code ss l)"
    using v(1) by simp
  have bounds: "0 \<le> int (code_base ss l) + (int v - int (first_code ss l)) \<and>
      nat (int (code_base ss l) + (int v - int (first_code ss l))) < length symbols"
    unfolding i using v(1) index by simp
  show ?case
    unfolding l [symmetric] upt list.map huffman_decode_loop.simps w prod.case Let_def code if_P [OF hit] if_P [OF bounds] i
    using g v(1) index by auto
next
  case (Suc d)
  then have k: "Suc k < l" by simp
  obtain w s' where w: "get_value s 1 = (w, s')" by (cases "get_value s 1")
  have split: "rev (bits_of (l - k) v) = bit v (l - Suc k) # rev (bits_of (l - Suc k) v)"
  proof -
    have "l - k = Suc (l - Suc k)" using k by simp
    then show ?thesis by (simp add: bits_of_def)
  qed
  then have "pending s = bit v (l - Suc k) # rev (bits_of (l - Suc k) v) @ rest" using Suc.prems(2) by simp
  note g = get_bit [OF Suc.prems(1) this w] get_value_ok [OF Suc.prems(1) _ w]
  have code: "push_bit 1 (int (v div 2 ^ (l - k))) OR int (unat w) = int (v div 2 ^ (l - Suc k))"
  proof -
    have "(2 :: nat) ^ (l - k) = 2 ^ (l - Suc k) * 2" using k by (simp flip: power_Suc2 add: Suc_diff_Suc)
    then have "v div 2 ^ (l - k) = v div 2 ^ (l - Suc k) div 2" by (simp add: div_mult2_eq)
    moreover have "v div 2 ^ (l - Suc k) = 2 * (v div 2 ^ (l - Suc k) div 2) + of_bool (bit v (l - Suc k))"
      by (simp add: bit_iff_odd)
    ultimately have "v div 2 ^ (l - Suc k) = 2 * (v div 2 ^ (l - k)) + unat w" using g by simp
    then have "int (v div 2 ^ (l - Suc k)) = 2 * int (v div 2 ^ (l - k)) + int (unat w)"
      by (metis of_nat_add of_nat_mult of_nat_numeral)
    moreover have "unat w < 2" using g by simp
    ultimately show ?thesis using append_bit [of "unat w" "int (v div 2 ^ (l - k))"] by argo
  qed
  have upt: "[Suc k..<Suc largest] = Suc k # [Suc (Suc k)..<Suc largest]" using assms(4) k by (simp add: upt_conv_Cons)
  have "2 ^ (l - Suc k) * (first_code ss (Suc k) + code_count ss (Suc k)) \<le> v" using first_code_le [OF k, of ss] v(1) by linarith
  then have "first_code ss (Suc k) + code_count ss (Suc k) \<le> v div 2 ^ (l - Suc k)" by (simp add: less_eq_div_iff_mult_less_eq mult.commute)
  then have go: "\<not> int (v div 2 ^ (l - Suc k)) - int (count_list ss (Suc k)) < int (first_code ss (Suc k))" by (simp add: code_count_def)
  have first: "push_bit 1 (int (first_code ss (Suc k)) + int (count_list ss (Suc k))) = int (first_code ss (Suc (Suc k)))"
    "int (code_base ss (Suc k)) + int (count_list ss (Suc k)) = int (code_base ss (Suc (Suc k)))"
    by (simp_all add: push_bit_eq_mult code_count_def code_base_Suc)
  show ?case
    using Suc.hyps(1) [of "Suc k" s'] Suc.hyps(2) g k
    unfolding upt list.map huffman_decode_loop.simps w prod.case Let_def code if_not_P [OF go] first by simp
qed

lemma decode_loop_safe:
  assumes "stream_ok s" "first \<le> 2 * code" "0 \<le> index" "\<forall>c \<in> set counts. 0 \<le> c" "index + sum_list counts \<le> int (length symbols)"
  shows "huffman_decode_loop get_value symbols counts code first index s = Err (Compression_error Huffman_invalid_code) \<or>
    (\<exists>n s'. huffman_decode_loop get_value symbols counts code first index s = Ok (n, s') \<and> n \<in> set symbols \<and> stream_ok s')"
  using assms
proof (induction counts arbitrary: code first index s)
  case (Cons c counts)
  obtain w s' where w: "get_value s 1 = (w, s')" by (cases "get_value s 1")
  note g = get_bit_bound [OF Cons.prems(1) w] get_value_ok [OF Cons.prems(1) _ w]
  obtain m where m: "unat w = m" "m < 2" using g(1) by simp
  have code: "push_bit 1 code OR int (unat w) = 2 * code + int m" unfolding m(1) by (rule append_bit [OF m(2)])
  have sum: "0 \<le> sum_list counts" using Cons.prems(4) by (intro sum_list_nonneg) simp
  show ?case
  proof (cases "2 * code + int m - c < first")
    case True
    let ?i = "index + (2 * code + int m - first)"
    have "0 \<le> ?i" "nat ?i < length symbols" using Cons.prems(2,3,5) True sum by auto
    then show ?thesis using True g(2) unfolding huffman_decode_loop.simps w prod.case Let_def code by simp
  next
    case False
    have "huffman_decode_loop get_value symbols counts (2 * code + int m) (push_bit 1 (first + c)) (index + c) s' =
        Err (Compression_error Huffman_invalid_code) \<or>
      (\<exists>n s''. huffman_decode_loop get_value symbols counts (2 * code + int m) (push_bit 1 (first + c)) (index + c) s' = Ok (n, s'')
        \<and> n \<in> set symbols \<and> stream_ok s'')"
      using Cons.prems False g(2) by (intro Cons.IH) (auto simp: push_bit_eq_mult)
    then show ?thesis using False unfolding huffman_decode_loop.simps w prod.case Let_def code by simp
  qed
qed simp

lemma decode_symbol_canonical:
  assumes "huffman_tree largest ss tree" "n < length ss" "0 < ss ! n"
    and "stream_ok s" "pending s = canonical_code ss n @ rest"
  shows "\<exists>s'. huffman_decode_symbol get_value tree s = Ok (n, s') \<and> stream_ok s' \<and> pending s' = rest"
proof -
  let ?l = "ss ! n" and ?v = "canonical_value ss n"
  have counts: "subslice 1 (ht_maximum_code_size tree - 1) (ht_code_size_counts tree) =
      map (\<lambda>j. int (count_list ss j)) [Suc 0..<Suc largest]"
    using assms(1) by (simp add: huffman_tree_def subslice_def drop_map take_map del: upt_Suc)
  have p: "code_base ss ?l + (?v - first_code ss ?l) = symbol_position ss n" by (simp add: canonical_value_def symbol_position_def)
  have "symbol_position ss n < length (ht_symbols tree)"
    using symbol_position_bound [OF assms(2,3)] code_base_le [of ss "Suc ?l"] assms(1) by (simp add: huffman_tree_def)
  moreover have l: "?l \<le> largest" "first_code ss ?l + code_count ss ?l \<le> 2 ^ ?l"
    using assms(1-3) by (auto simp: huffman_tree_def huffman_sizes_ok_def)
  moreover note v = canonical_value_bounds [OF assms(2,3)]
  moreover have "?v < 2 ^ ?l" using v l by linarith
  moreover have "ht_symbols tree ! symbol_position ss n = n" using assms(1-3) by (simp add: huffman_tree_def)
  ultimately show ?thesis
    using decode_loop_canonical [of s ?l 0 ?v rest largest ss "ht_symbols tree"] assms(3,4,5)
    unfolding huffman_decode_symbol_def counts canonical_code_def p by (simp add: code_base_1 code_count_def del: upt_Suc)
qed

lemma decode_symbol_safe:
  assumes "huffman_tree largest ss tree" "stream_ok s"
  shows "huffman_decode_symbol get_value tree s = Err (Compression_error Huffman_invalid_code) \<or>
    (\<exists>n s'. huffman_decode_symbol get_value tree s = Ok (n, s') \<and> n < length ss \<and> stream_ok s')"
proof -
  have counts: "subslice 1 (ht_maximum_code_size tree - 1) (ht_code_size_counts tree) =
      map (\<lambda>j. int (count_list ss j)) [Suc 0..<Suc largest]"
    using assms(1) by (simp add: huffman_tree_def subslice_def drop_map take_map del: upt_Suc)
  have "(\<Sum>j\<leftarrow>[Suc 0..<Suc largest]. count_list ss j) = (\<Sum>j\<leftarrow>[Suc 0..<Suc largest]. code_count ss j)"
    by (rule arg_cong [where f = sum_list], rule map_cong) (auto simp: code_count_def)
  also have "\<dots> = code_base ss (Suc largest)"
    by (simp add: code_base_def upt_conv_Cons [of 0] code_count_def [of _ 0] del: upt_Suc)
  also have "\<dots> \<le> length (ht_symbols tree)" using code_base_le [of ss "Suc largest"] assms(1) by (simp add: huffman_tree_def)
  finally have "sum_list (map (\<lambda>j. int (count_list ss j)) [Suc 0..<Suc largest]) \<le> int (length (ht_symbols tree))"
    by (simp add: int_sum_list del: upt_Suc)
  then show ?thesis
    using decode_loop_safe [of s 0 0 0 "map (\<lambda>j. int (count_list ss j)) [Suc 0..<Suc largest]" "ht_symbols tree"] assms
    unfolding huffman_decode_symbol_def counts by (auto simp: huffman_tree_def simp del: upt_Suc)
qed

end

section \<open>Property\<close>

text \<open>
  (C24) A tree that is built from the sizes of codes decodes the canonical code of each symbol: it reads the
  bits of the code, the highest first, returns the symbol and leaves the bits that follow.
\<close>

theorem huffman_decode_canonical:
  assumes "length code_sizes \<le> number_of_symbols" "length code_sizes < u16_limit" "0 < largest"
    and "huffman_build (huffman_new number_of_symbols largest) code_sizes = Ok tree"
    and "symbol < length code_sizes" "code_sizes ! symbol \<noteq> 0"
    and "dbs_ok s" "dbs_pending s = canonical_code (code_sizes_of code_sizes) symbol @ rest"
  shows "\<exists>s'. huffman_decode_symbol dbs_get_value tree s = Ok (symbol, s') \<and> dbs_ok s' \<and> dbs_pending s' = rest"
proof -
  have "huffman_tree largest (code_sizes_of code_sizes) tree"
    using huffman_build_exact [OF assms(1-3)] assms(4) by (auto split: if_splits)
  moreover have "symbol < length (code_sizes_of code_sizes)" "0 < code_sizes_of code_sizes ! symbol"
    using assms(5,6) by (simp_all add: code_sizes_of_def unat_gt_0)
  ultimately show ?thesis using assms(7,8) by (rule dbs.decode_symbol_canonical)
qed

text \<open>The example of RFC 1951: the code of symbol 4 is 110.\<close>

lemma huffman_example:
  defines "ss \<equiv> [3, 3, 3, 3, 3, 2, 4, 4]"
  shows "huffman_sizes_ok 4 ss" "canonical_code ss 4 = [True, True, False]"
proof -
  have first: "first_code ss 1 = 0" "first_code ss 2 = 0" "first_code ss 3 = 2" "first_code ss 4 = 14"
    "code_count ss 1 = 0" "code_count ss 2 = 1" "code_count ss 3 = 5" "code_count ss 4 = 2"
    by (simp_all add: eval_nat_numeral ss_def code_count_def)
  have "{1..4} = {1, 2, 3, 4 :: nat}" by auto
  moreover have "first_code ss j + code_count ss j \<le> 2 ^ j" if "j = 1 \<or> j = 2 \<or> j = 3 \<or> j = 4" for j
    using that by (elim disjE) (simp_all only: first, simp_all)
  moreover have "\<forall>s \<in> set ss. s \<le> 4" "\<exists>s \<in> set ss. s \<noteq> 0" by (simp_all add: ss_def)
  ultimately show "huffman_sizes_ok 4 ss" unfolding huffman_sizes_ok_def by blast
  have "ss ! 4 = 3" "count_list (take 4 ss) 3 = 4" by (simp_all add: ss_def)
  then show "canonical_code ss 4 = [True, True, False]"
    using first by (simp add: canonical_code_def canonical_value_def bits_of_step)
qed

theorem huffman_decode_canonical_witness:
  "\<exists>tree s'. huffman_build (huffman_new 8 4) [3, 3, 3, 3, 3, 2, 4, 4] = Ok tree \<and>
    huffman_decode_symbol dbs_get_value tree (dbs_new [0xfb] 0) = Ok (4, s') \<and> dbs_pending s' = [True, True, True, True, True]"
proof -
  let ?sizes = "[3, 3, 3, 3, 3, 2, 4, 4] :: byte list"
  have ss: "code_sizes_of ?sizes = [3, 3, 3, 3, 3, 2, 4, 4]" by (simp add: code_sizes_of_def)
  have len: "length ?sizes \<le> 8" "length ?sizes < u16_limit" "(0 :: nat) < 4" by (simp_all add: u16_limit_def)
  obtain tree where tree: "huffman_build (huffman_new 8 4) ?sizes = Ok tree"
    using huffman_build_exact [OF len] huffman_example(1) unfolding ss by auto
  have "dbs_pending (dbs_new [0xfb] 0) = canonical_code (code_sizes_of ?sizes) 4 @ [True, True, True, True, True]"
    unfolding ss huffman_example(2) dbs_new_ok(2) by (simp add: bitmap_bits_def del: bitmap_bits_simps)
  from huffman_decode_canonical [OF len tree _ _ dbs_new_ok(1) this] tree show ?thesis by auto
qed

end
