(* ===== verification/Deflate.thy ===== *)
theory Deflate
  imports Huffman
begin

text \<open>
  Deflate decompression (\<open>keramics-compression/src/deflate.rs\<close>): stored blocks and blocks of literals and
  matches, encoded with the fixed Huffman codes or with codes that the block defines.
\<close>

section \<open>Tables\<close>

definition deflate_code_sizes_sequence :: "nat list" where
  "deflate_code_sizes_sequence = [16, 17, 18, 0, 8, 7, 9, 6, 10, 5, 11, 4, 12, 3, 13, 2, 14, 1, 15]"

definition deflate_literal_codes_base :: "nat list" where
  "deflate_literal_codes_base =
     [3, 4, 5, 6, 7, 8, 9, 10, 11, 13, 15, 17, 19, 23, 27, 31, 35, 43, 51, 59, 67, 83, 99, 115, 131, 163, 195, 227, 258]"

definition deflate_literal_codes_extra :: "nat list" where
  "deflate_literal_codes_extra = [0, 0, 0, 0, 0, 0, 0, 0, 1, 1, 1, 1, 2, 2, 2, 2, 3, 3, 3, 3, 4, 4, 4, 4, 5, 5, 5, 5, 0]"

definition deflate_distance_codes_base :: "nat list" where
  "deflate_distance_codes_base =
     [1, 2, 3, 4, 5, 7, 9, 13, 17, 25, 33, 49, 65, 97, 129, 193, 257, 385, 513, 769, 1025, 1537, 2049, 3073, 4097, 6145, 8193,
      12289, 16385, 24577]"

definition deflate_distance_codes_extra :: "nat list" where
  "deflate_distance_codes_extra =
     [0, 0, 0, 0, 1, 1, 2, 2, 3, 3, 4, 4, 5, 5, 6, 6, 7, 7, 8, 8, 9, 9, 10, 10, 11, 11, 12, 12, 13, 13]"

section \<open>Progress of the bit stream\<close>

text \<open>
  What ends the loop over the blocks: every read moves on in the data or takes bits from the buffer.  Once
  the data is used up the buffer may be filled with 0 bits, and the loop has ended.
\<close>

definition dbs_left :: "DeflateBitstream \<Rightarrow> nat" where
  "dbs_left s = 8 * (dbs_data_size s - dbs_data_offset s) + dbs_number_of_bits s"

definition dbs_progress :: "DeflateBitstream \<Rightarrow> DeflateBitstream \<Rightarrow> bool" where
  "dbs_progress s s' \<longleftrightarrow> dbs_data s' = dbs_data s \<and> dbs_data_offset s \<le> dbs_data_offset s' \<and>
     (dbs_data_size s \<le> dbs_data_offset s' \<or> dbs_left s' \<le> dbs_left s)"

lemma dbs_progress_refl [simp]: "dbs_progress s s"
  by (simp add: dbs_progress_def)

lemma dbs_progress_trans: "dbs_progress s s' \<Longrightarrow> dbs_progress s' s'' \<Longrightarrow> dbs_progress s s''"
  by (auto simp: dbs_progress_def dbs_data_size_def)

lemma dbs_read_byte_progress: "dbs_progress s (dbs_read_byte s)"
  by (auto simp: dbs_progress_def dbs_read_byte_def dbs_left_def dbs_data_size_def Let_def)

lemma dbs_read_data_progress: "dbs_progress s (dbs_read_data n s)" "n \<le> dbs_number_of_bits (dbs_read_data n s)"
proof (induction n s rule: dbs_read_data.induct)
  case (1 n s)
  {
    case 1
    then show ?case
      using "1.IH"(1) dbs_read_byte_progress [of s] dbs_progress_trans by (subst dbs_read_data.simps) auto
  next
    case 2
    then show ?case using "1.IH"(2) by (subst dbs_read_data.simps) simp
  }
qed

lemma dbs_fill_progress: "dbs_progress s (dbs_fill n s)" "n \<le> dbs_number_of_bits (dbs_fill n s)"
  using dbs_read_data_progress by (simp_all add: dbs_fill_def)

lemma dbs_consume_progress:
  "dbs_progress s (dbs_consume n s)" "n \<le> dbs_number_of_bits s \<Longrightarrow> dbs_left (dbs_consume n s) + n = dbs_left s"
  by (auto simp: dbs_progress_def dbs_consume_def dbs_left_def dbs_data_size_def)

lemma dbs_round_progress: "dbs_progress s (dbs_consume n (dbs_fill n s))"
  using dbs_fill_progress(1) dbs_consume_progress(1) by (rule dbs_progress_trans)

lemma dbs_get_loop_progress: "dbs_progress s (snd (dbs_get_loop n k v s))"
proof (induction "n - k" arbitrary: k v s rule: less_induct)
  case less
  show ?case
  proof (cases "k < n")
    case True
    define r where "r = min 24 (n - k)"
    obtain v' where step: "dbs_get_loop n k v s = dbs_get_loop n (k + r) v' (dbs_consume r (dbs_fill r s))"
      using dbs_get_loop_step(1) [OF True r_def refl refl] by blast
    have "dbs_progress (dbs_consume r (dbs_fill r s)) (snd (dbs_get_loop n (k + r) v' (dbs_consume r (dbs_fill r s))))"
      using True by (intro less) (simp add: r_def)
    with dbs_round_progress show ?thesis unfolding step by (rule dbs_progress_trans)
  qed (simp add: dbs_get_loop.simps)
qed

lemma dbs_skip_loop_progress: "dbs_progress s (dbs_skip_loop n k s)"
proof (induction "n - k" arbitrary: k s rule: less_induct)
  case less
  show ?case
  proof (cases "k < n")
    case True
    define r where "r = min 24 (n - k)"
    have step: "dbs_skip_loop n k s = dbs_skip_loop n (k + r) (dbs_consume r (dbs_fill r s))"
      using True by (simp add: dbs_skip_loop.simps [of n k] Let_def r_def)
    have "dbs_progress (dbs_consume r (dbs_fill r s)) (dbs_skip_loop n (k + r) (dbs_consume r (dbs_fill r s)))"
      using True by (intro less) (simp add: r_def)
    with dbs_round_progress show ?thesis unfolding step by (rule dbs_progress_trans)
  qed (simp add: dbs_skip_loop.simps)
qed

lemma dbs_get_value_progress: "dbs_get_value s n = (v, s') \<Longrightarrow> dbs_progress s s'"
  using dbs_get_loop_progress [of s n 0 0] by (simp add: dbs_get_value_def)

lemma dbs_skip_bits_progress: "dbs_progress s (dbs_skip_bits n s)"
  by (simp add: dbs_skip_bits_def dbs_skip_loop_progress)

lemma dbs_copy_bytes_progress: "dbs_copy_bytes n out off s = Ok (out', s') \<Longrightarrow> dbs_progress s s'"
  by (auto simp: dbs_copy_bytes_def dbs_progress_def dbs_left_def dbs_data_size_def Let_def split: if_splits)

text \<open>The header of a block takes bits, up to the end of the data.\<close>

lemma dbs_get_value_3:
  assumes "dbs_get_value s 3 = (v, s')" "dbs_data_offset s < dbs_data_size s"
  shows "dbs_data_size s' \<le> dbs_data_offset s' \<or> dbs_left s' < dbs_left s" "dbs_data s' = dbs_data s"
proof -
  have s': "s' = dbs_consume 3 (dbs_fill 3 s)"
    using assms(1) by (simp add: dbs_get_value_def dbs_get_loop.simps [of 3 0] dbs_get_loop.simps [of 3 3] Let_def)
  show "dbs_data s' = dbs_data s" using dbs_round_progress [of s 3] by (simp add: s' dbs_progress_def)
  have "dbs_left s' + 3 = dbs_left (dbs_fill 3 s)" "dbs_data_offset s' = dbs_data_offset (dbs_fill 3 s)" "dbs_data s' = dbs_data (dbs_fill 3 s)"
    using dbs_consume_progress(2) [OF dbs_fill_progress(2), of 3 s] by (simp_all add: s') (simp_all add: dbs_consume_def)
  then show "dbs_data_size s' \<le> dbs_data_offset s' \<or> dbs_left s' < dbs_left s"
    using dbs_fill_progress(1) [of s 3] by (auto simp: dbs_progress_def dbs_data_size_def)
qed

lemma huffman_decode_loop_progress:
  assumes "huffman_decode_loop get_value symbols counts code first index s = Ok (n, s')"
    and "\<And>s n v s'. get_value s n = (v, s') \<Longrightarrow> R s s'" "\<And>a b c. R a b \<Longrightarrow> R b c \<Longrightarrow> R a c"
  shows "R s s'"
  using assms(1)
proof (induction counts arbitrary: code first index s)
  case (Cons c counts)
  obtain v t where t: "get_value s 1 = (v, t)" by (cases "get_value s 1")
  from Cons.prems have "s' = t \<or> R t s'"
    unfolding huffman_decode_loop.simps t prod.case Let_def by (auto split: if_splits dest: Cons.IH)
  with assms(2) [OF t] assms(3) show ?case by blast
qed simp

lemma dbs_decode_progress: "huffman_decode_symbol dbs_get_value tree s = Ok (n, s') \<Longrightarrow> dbs_progress s s'"
  unfolding huffman_decode_symbol_def
  by (erule huffman_decode_loop_progress [where R = dbs_progress]) (blast intro: dbs_get_value_progress dbs_progress_trans)+

section \<open>Blocks\<close>

record DeflateBlockHeader =
  dbh_block_type :: nat
  dbh_last_block_flag :: nat

definition deflate_read_block_header :: "DeflateBitstream \<Rightarrow> DeflateBlockHeader \<times> DeflateBitstream" where
  "deflate_read_block_header bitstream =
     (case dbs_get_value bitstream 3 of (value_32bit, bitstream) \<Rightarrow>
        (\<lparr>dbh_block_type = unat (drop_bit 1 value_32bit), dbh_last_block_flag = unat (value_32bit AND 0x00000001)\<rparr>, bitstream))"

definition deflate_stored :: "DeflateBitstream \<Rightarrow> byte list \<Rightarrow> nat \<Rightarrow> (nat \<times> byte list \<times> DeflateBitstream) result" where
  "deflate_stored bitstream uncompressed_data uncompressed_data_offset =
     (let skip_bits = dbs_number_of_bits bitstream AND 0x07;
          bitstream = (if 0 < skip_bits then dbs_skip_bits skip_bits bitstream else bitstream)
      in case dbs_get_value bitstream 32 of (value_32bit, bitstream) \<Rightarrow>
        let block_size = unat (value_32bit AND 0x0000ffff);
            block_size_copy = unat (drop_bit 16 value_32bit XOR 0xffff) in
        if block_size \<noteq> block_size_copy then Err (Compression_error Deflate_block_size_mismatch)
        else if 0 < block_size then
          and_then (dbs_copy_bytes block_size uncompressed_data uncompressed_data_offset bitstream) (\<lambda>(uncompressed_data, bitstream).
            Ok (uncompressed_data_offset + block_size, uncompressed_data, bitstream))
        else Ok (uncompressed_data_offset, uncompressed_data, bitstream))"

text \<open>Code sizes, as the dynamic blocks store them.\<close>

fun deflate_read_sizes :: "nat list \<Rightarrow> byte list \<Rightarrow> DeflateBitstream \<Rightarrow> byte list \<times> DeflateBitstream" where
  "deflate_read_sizes [] code_sizes bitstream = (code_sizes, bitstream)"
| "deflate_read_sizes (code_size_index # code_size_indices) code_sizes bitstream =
     (case dbs_get_value bitstream 3 of (v, bitstream) \<Rightarrow>
        deflate_read_sizes code_size_indices (code_sizes[code_size_index := ucast v]) bitstream)"

fun deflate_clear_sizes :: "nat list \<Rightarrow> byte list \<Rightarrow> byte list" where
  "deflate_clear_sizes [] code_sizes = code_sizes"
| "deflate_clear_sizes (code_size_index # code_size_indices) code_sizes =
     deflate_clear_sizes code_size_indices (code_sizes[code_size_index := 0])"

fun deflate_repeat :: "nat \<Rightarrow> byte \<Rightarrow> nat \<Rightarrow> byte list \<Rightarrow> byte list result" where
  "deflate_repeat 0 code_size code_size_index code_sizes = Ok code_sizes"
| "deflate_repeat (Suc times_to_repeat) code_size code_size_index code_sizes =
     (if length code_sizes \<le> code_size_index then Err (Panic Index_out_of_bounds)
      else deflate_repeat times_to_repeat code_size (code_size_index + 1) (code_sizes[code_size_index := code_size]))"

text \<open>The number of times a code size is repeated, at least 3.\<close>

definition deflate_repeat_count :: "nat \<Rightarrow> DeflateBitstream \<Rightarrow> nat \<times> DeflateBitstream" where
  "deflate_repeat_count symbol bitstream =
     (if symbol = 16 then case dbs_get_value bitstream 2 of (v, bitstream) \<Rightarrow> (unat v + 3, bitstream)
      else if symbol = 17 then case dbs_get_value bitstream 3 of (v, bitstream) \<Rightarrow> (unat v + 3, bitstream)
      else case dbs_get_value bitstream 7 of (v, bitstream) \<Rightarrow> (unat v + 11, bitstream))"

lemma deflate_repeat_count_pos: "deflate_repeat_count symbol s = (n, s') \<Longrightarrow> 0 < n"
  by (auto simp: deflate_repeat_count_def split: if_splits prod.splits)

function deflate_codes_loop :: "HuffmanTree \<Rightarrow> nat \<Rightarrow> nat \<Rightarrow> byte list \<Rightarrow> DeflateBitstream
    \<Rightarrow> (byte list \<times> DeflateBitstream) result" where
  "deflate_codes_loop tree number_of_codes code_size_index code_sizes bitstream =
     (if code_size_index < number_of_codes then
        and_then (huffman_decode_symbol dbs_get_value tree bitstream) (\<lambda>(symbol, bitstream).
          if symbol < 16 then
            if length code_sizes \<le> code_size_index then Err (Panic Index_out_of_bounds)
            else deflate_codes_loop tree number_of_codes (code_size_index + 1) (code_sizes[code_size_index := of_nat symbol]) bitstream
          else if code_size_index = 0 \<and> symbol = 16 then Err (Compression_error Deflate_code_size_index)
          else if 18 < symbol then Err (Compression_error Deflate_code_size_symbol)
          else
            let code_size = (if symbol = 16 then code_sizes ! (code_size_index - 1) else 0) in
            case deflate_repeat_count symbol bitstream of (times_to_repeat, bitstream) \<Rightarrow>
              if number_of_codes < code_size_index + times_to_repeat then Err (Compression_error Deflate_times_to_repeat)
              else and_then (deflate_repeat times_to_repeat code_size code_size_index code_sizes) (\<lambda>code_sizes.
                deflate_codes_loop tree number_of_codes (code_size_index + times_to_repeat) code_sizes bitstream))
      else Ok (code_sizes, bitstream))"
  by pat_completeness auto
termination
  by (relation "measure (\<lambda>(_, n, i, _). n - i)") (auto dest: deflate_repeat_count_pos [OF sym] deflate_repeat_count_pos)

declare deflate_codes_loop.simps [simp del]

definition deflate_build_dynamic :: "DeflateBitstream \<Rightarrow> (HuffmanTree \<times> HuffmanTree \<times> DeflateBitstream) result" where
  "deflate_build_dynamic bitstream =
     (let code_sizes = replicate 316 0 in
      case dbs_get_value bitstream 14 of (value_32bit, bitstream) \<Rightarrow>
        let number_of_literal_codes = unat (value_32bit AND 0x0000001f) + 257 in
        if 286 < number_of_literal_codes then Err (Compression_error Deflate_number_of_literal_codes)
        else
          let value_32bit = drop_bit 5 value_32bit;
              number_of_distance_codes = unat (value_32bit AND 0x0000001f) + 1 in
          if 30 < number_of_distance_codes then Err (Compression_error Deflate_number_of_distance_codes)
          else
            let value_32bit = drop_bit 5 value_32bit; number_of_code_sizes = unat value_32bit + 4 in
            case deflate_read_sizes (take number_of_code_sizes deflate_code_sizes_sequence) code_sizes bitstream of
              (code_sizes, bitstream) \<Rightarrow>
                let code_sizes = deflate_clear_sizes (drop number_of_code_sizes deflate_code_sizes_sequence) code_sizes in
                and_then (huffman_build (huffman_new 19 15) (subslice 0 19 code_sizes)) (\<lambda>codes_huffman_tree.
                let number_of_codes = number_of_literal_codes + number_of_distance_codes in
                and_then (deflate_codes_loop codes_huffman_tree number_of_codes 0 code_sizes bitstream) (\<lambda>(code_sizes, bitstream).
                if code_sizes ! 256 = 0 then Err (Compression_error Deflate_end_of_block_missing)
                else
                  and_then (huffman_build (huffman_new 288 15) (subslice 0 number_of_literal_codes code_sizes)) (\<lambda>literals.
                  and_then (huffman_build (huffman_new 30 15)
                              (subslice number_of_literal_codes number_of_distance_codes code_sizes)) (\<lambda>distances.
                    Ok (literals, distances, bitstream))))))"

definition deflate_fixed_code_size :: "nat \<Rightarrow> byte" where
  "deflate_fixed_code_size symbol =
     (if symbol < 144 then 8 else if symbol < 256 then 9 else if symbol < 280 then 7 else if symbol < 288 then 8 else 5)"

record DeflateContext =
  dfc_fixed_literals_huffman_tree :: HuffmanTree
  dfc_fixed_distances_huffman_tree :: HuffmanTree
  dfc_build_fixed_huffman_trees :: bool
  dfc_uncompressed_data_size :: nat

definition deflate_new :: DeflateContext where
  "deflate_new = \<lparr>dfc_fixed_literals_huffman_tree = huffman_new 288 15, dfc_fixed_distances_huffman_tree = huffman_new 30 15,
     dfc_build_fixed_huffman_trees = False, dfc_uncompressed_data_size = 0\<rparr>"

definition deflate_build_fixed :: "DeflateContext \<Rightarrow> DeflateContext result" where
  "deflate_build_fixed context =
     (let code_sizes = map deflate_fixed_code_size [0..<318] in
      and_then (huffman_build (dfc_fixed_literals_huffman_tree context) (subslice 0 288 code_sizes)) (\<lambda>literals.
      and_then (huffman_build (dfc_fixed_distances_huffman_tree context) (subslice 288 30 code_sizes)) (\<lambda>distances.
        Ok (context\<lparr>dfc_fixed_literals_huffman_tree := literals, dfc_fixed_distances_huffman_tree := distances,
                    dfc_build_fixed_huffman_trees := True\<rparr>))))"

lemma deflate_literal_base_pos: "i < 29 \<Longrightarrow> 3 \<le> deflate_literal_codes_base ! i"
proof -
  assume i: "i < 29"
  have "length deflate_literal_codes_base = 29" "\<forall>x \<in> set deflate_literal_codes_base. 3 \<le> x"
    by (simp_all add: deflate_literal_codes_base_def)
  with i show ?thesis using nth_mem [of i deflate_literal_codes_base] by auto
qed

text \<open>The size and the distance of a match; a symbol that is no index of the tables panics.\<close>

definition deflate_match :: "HuffmanTree \<Rightarrow> nat \<Rightarrow> DeflateBitstream \<Rightarrow> (nat \<times> nat \<times> DeflateBitstream) result" where
  "deflate_match distances_huffman_tree symbol bitstream =
     (case dbs_get_value bitstream (deflate_literal_codes_extra ! symbol) of (extra_bits, bitstream) \<Rightarrow>
        let compression_size = deflate_literal_codes_base ! symbol + unat extra_bits in
        and_then (huffman_decode_symbol dbs_get_value distances_huffman_tree bitstream) (\<lambda>(symbol, bitstream).
          if length deflate_distance_codes_extra \<le> symbol then Err (Panic Index_out_of_bounds)
          else case dbs_get_value bitstream (deflate_distance_codes_extra ! symbol) of (extra_bits, bitstream) \<Rightarrow>
            Ok (compression_size, deflate_distance_codes_base ! symbol + unat extra_bits, bitstream)))"

lemma deflate_match_size: "deflate_match tree symbol s = Ok (n, d, s') \<Longrightarrow> symbol < 29 \<Longrightarrow> 0 < n"
  using deflate_literal_base_pos [of symbol]
  by (auto simp: deflate_match_def Let_def result_simps case_prod_unfold split: if_splits)

lemma copy_match_length: "copy_match n m u buf = Ok buf' \<Longrightarrow> length buf' = length buf"
  by (induction n m u buf rule: copy_match.induct) (auto split: if_splits)

function deflate_huffman_loop :: "HuffmanTree \<Rightarrow> HuffmanTree \<Rightarrow> nat \<Rightarrow> byte list \<Rightarrow> DeflateBitstream
    \<Rightarrow> (nat \<times> byte list \<times> DeflateBitstream) result" where
  "deflate_huffman_loop literals distances data_offset uncompressed_data bitstream =
     and_then (huffman_decode_symbol dbs_get_value literals bitstream) (\<lambda>(symbol, bitstream).
       if symbol = 256 then Ok (data_offset, uncompressed_data, bitstream)
       else if symbol < 256 then
         if length uncompressed_data \<le> data_offset then Err (Compression_error Uncompressed_data_too_small)
         else deflate_huffman_loop literals distances (data_offset + 1) (uncompressed_data[data_offset := of_nat symbol]) bitstream
       else if symbol < 286 then
         and_then (deflate_match distances (symbol - 257) bitstream) (\<lambda>(compression_size, compression_offset, bitstream).
           if data_offset < compression_offset then Err (Compression_error Deflate_compression_offset)
           else and_then (sub_u64 (length uncompressed_data) data_offset) (\<lambda>left.
             if left < compression_size then Err (Compression_error Deflate_compression_size)
             else and_then (copy_match compression_size (data_offset - compression_offset) data_offset uncompressed_data)
               (\<lambda>uncompressed_data.
                 deflate_huffman_loop literals distances (data_offset + compression_size) uncompressed_data bitstream)))
       else Err (Compression_error Deflate_symbol))"
  by pat_completeness auto
termination
  by (relation "measure (\<lambda>(_, _, u, out, _). length out - u)")
    (auto simp: result_simps dest!: deflate_match_size copy_match_length split: if_splits)

declare deflate_huffman_loop.simps [simp del]

text \<open>The trees of a fixed block are built once and kept in the context.\<close>

definition deflate_fixed :: "DeflateContext \<Rightarrow> DeflateContext result" where
  "deflate_fixed context = (if dfc_build_fixed_huffman_trees context then Ok context else deflate_build_fixed context)"

definition deflate_block :: "DeflateContext \<Rightarrow> nat \<Rightarrow> nat \<Rightarrow> byte list \<Rightarrow> DeflateBitstream
    \<Rightarrow> (DeflateContext \<times> nat \<times> byte list \<times> DeflateBitstream) result" where
  "deflate_block context block_type uncompressed_data_offset uncompressed_data bitstream =
     (if block_type = 0 then
        and_then (deflate_stored bitstream uncompressed_data uncompressed_data_offset) (\<lambda>r. Ok (context, r))
      else if block_type = 1 then
        and_then (deflate_fixed context) (\<lambda>context.
        and_then (deflate_huffman_loop (dfc_fixed_literals_huffman_tree context) (dfc_fixed_distances_huffman_tree context)
                    uncompressed_data_offset uncompressed_data bitstream) (\<lambda>r. Ok (context, r)))
      else if block_type = 2 then
        and_then (deflate_build_dynamic bitstream) (\<lambda>(literals, distances, bitstream).
        and_then (deflate_huffman_loop literals distances uncompressed_data_offset uncompressed_data bitstream) (\<lambda>r. Ok (context, r)))
      else Err (Compression_error Deflate_block_type))"

lemma deflate_stored_progress:
  assumes "deflate_stored s out u = Ok (u', out', s')"
  shows "dbs_progress s s'"
proof -
  define t where "t = (if 0 < dbs_number_of_bits s AND 0x07 then dbs_skip_bits (dbs_number_of_bits s AND 0x07) s else s)"
  have t: "dbs_progress s t" by (simp add: t_def dbs_skip_bits_progress)
  obtain v t' where t': "dbs_get_value t 32 = (v, t')" by (cases "dbs_get_value t 32")
  from assms have "s' = t' \<or> (\<exists>n. dbs_copy_bytes n out u t' = Ok (out', s'))"
    unfolding deflate_stored_def Let_def t_def [symmetric] t' prod.case by (auto simp: result_simps split: if_splits)
  then show ?thesis
    using t dbs_get_value_progress [OF t'] by (auto dest!: dbs_copy_bytes_progress intro: dbs_progress_trans)
qed

lemma deflate_read_sizes_progress: "deflate_read_sizes is cs s = (cs', s') \<Longrightarrow> dbs_progress s s'"
  by (induction "is" cs s rule: deflate_read_sizes.induct)
    (auto split: prod.split_asm dest: dbs_get_value_progress intro: dbs_progress_trans)

lemma deflate_repeat_count_progress: "deflate_repeat_count symbol s = (n, s') \<Longrightarrow> dbs_progress s s'"
  by (auto simp: deflate_repeat_count_def split: if_splits prod.split_asm dest: dbs_get_value_progress)

lemma deflate_codes_loop_progress: "deflate_codes_loop tree n i cs s = Ok (cs', s') \<Longrightarrow> dbs_progress s s'"
proof (induction "n - i" arbitrary: i cs s rule: less_induct)
  case less
  note unfold = deflate_codes_loop.simps [of tree n i cs s]
  show ?case
  proof (cases "i < n")
    case False
    with less.prems show ?thesis by (simp add: unfold)
  next
    case True
    with less.prems obtain symbol t where t: "huffman_decode_symbol dbs_get_value tree s = Ok (symbol, t)"
      by (auto simp: unfold result_simps)
    obtain k t' where t': "deflate_repeat_count symbol t = (k, t')" by (cases "deflate_repeat_count symbol t")
    from less.prems True t t' consider cs2 where "deflate_codes_loop tree n (i + 1) cs2 t = Ok (cs', s')"
      | cs2 where "deflate_codes_loop tree n (i + k) cs2 t' = Ok (cs', s')"
      by (auto simp: unfold result_simps Let_def split: if_splits)
    then have "dbs_progress t s'"
    proof cases
      case 1
      then show ?thesis using less.hyps [of "i + 1"] True by simp
    next
      case 2
      then have "dbs_progress t' s'" using less.hyps [of "i + k"] True deflate_repeat_count_pos [OF t'] by simp
      with deflate_repeat_count_progress [OF t'] show ?thesis by (rule dbs_progress_trans)
    qed
    with dbs_decode_progress [OF t] show ?thesis by (rule dbs_progress_trans)
  qed
qed

lemma deflate_match_progress: "deflate_match tree symbol s = Ok (n, d, s') \<Longrightarrow> dbs_progress s s'"
proof -
  assume m: "deflate_match tree symbol s = Ok (n, d, s')"
  obtain v t where t: "dbs_get_value s (deflate_literal_codes_extra ! symbol) = (v, t)"
    by (cases "dbs_get_value s (deflate_literal_codes_extra ! symbol)")
  from m obtain symbol' t' where t': "huffman_decode_symbol dbs_get_value tree t = Ok (symbol', t')"
    by (auto simp: deflate_match_def t result_simps Let_def)
  obtain v' t'' where t'': "dbs_get_value t' (deflate_distance_codes_extra ! symbol') = (v', t'')"
    by (cases "dbs_get_value t' (deflate_distance_codes_extra ! symbol')")
  from m have "s' = t''" by (auto simp: deflate_match_def t t' t'' Let_def split: if_splits)
  with dbs_get_value_progress [OF t] dbs_decode_progress [OF t'] dbs_get_value_progress [OF t''] show ?thesis
    by (blast intro: dbs_progress_trans)
qed

lemma deflate_huffman_loop_Ok:
  assumes "deflate_huffman_loop literals distances u out s = Ok r"
  obtains (stop) t where "huffman_decode_symbol dbs_get_value literals s = Ok (256, t)" "r = (u, out, t)"
  | (literal) symbol t where "huffman_decode_symbol dbs_get_value literals s = Ok (symbol, t)" "symbol < 256" "u < length out"
      "deflate_huffman_loop literals distances (u + 1) (out[u := of_nat symbol]) t = Ok r"
  | (match) symbol t n d t' out' where "huffman_decode_symbol dbs_get_value literals s = Ok (symbol, t)"
      "256 < symbol" "symbol < 286" "deflate_match distances (symbol - 257) t = Ok (n, d, t')" "d \<le> u" "u + n \<le> length out"
      "copy_match n (u - d) u out = Ok out'" "deflate_huffman_loop literals distances (u + n) out' t' = Ok r"
proof -
  from assms obtain symbol t where t: "huffman_decode_symbol dbs_get_value literals s = Ok (symbol, t)"
    by (auto simp: deflate_huffman_loop.simps [of literals distances u out s] result_simps)
  consider "symbol = 256" | "symbol < 256" | "256 < symbol" by linarith
  then show thesis
  proof cases
    case 1
    with assms t show ?thesis by (intro stop) (auto simp: deflate_huffman_loop.simps [of literals distances u out s])
  next
    case 2
    with assms t show ?thesis
      by (intro literal [OF t]) (auto simp: deflate_huffman_loop.simps [of literals distances u out s] split: if_splits)
  next
    case 3
    with assms t obtain n d t' out' where "symbol < 286" "deflate_match distances (symbol - 257) t = Ok (n, d, t')"
      "d \<le> u" "u + n \<le> length out" "copy_match n (u - d) u out = Ok out'" "deflate_huffman_loop literals distances (u + n) out' t' = Ok r"
      by (auto simp: deflate_huffman_loop.simps [of literals distances u out s] result_simps split: if_splits)
    with t 3 show ?thesis by (intro match)
  qed
qed

lemma deflate_huffman_loop_progress:
  "deflate_huffman_loop literals distances u out s = Ok (u', out', s') \<Longrightarrow> dbs_progress s s'"
proof (induction "length out - u" arbitrary: u out s rule: less_induct)
  case less
  from less.prems show ?case
  proof (cases rule: deflate_huffman_loop_Ok)
    case (stop t)
    then show ?thesis by (auto dest: dbs_decode_progress)
  next
    case (literal symbol t)
    then have "dbs_progress t s'" using less.hyps [of "out[u := of_nat symbol]" "u + 1" t] by simp
    with dbs_decode_progress [OF literal(1)] show ?thesis by (rule dbs_progress_trans)
  next
    case (match symbol t n d t' out2)
    have "0 < n" using match(2,3) by (intro deflate_match_size [OF match(4)]) linarith
    then have "dbs_progress t' s'"
      using less.hyps [of out2 "u + n" t'] match copy_match_length [OF match(7)] by simp
    with dbs_decode_progress [OF match(1)] deflate_match_progress [OF match(4)] show ?thesis
      by (blast intro: dbs_progress_trans)
  qed
qed

lemma deflate_build_dynamic_progress:
  assumes "deflate_build_dynamic s = Ok (literals, distances, s')"
  shows "dbs_progress s s'"
proof -
  obtain v t where t: "dbs_get_value s 14 = (v, t)" by (cases "dbs_get_value s 14")
  let ?is = "take (unat (drop_bit 5 (drop_bit 5 v)) + 4) deflate_code_sizes_sequence"
  obtain cs t' where t': "deflate_read_sizes ?is (replicate 316 0) t = (cs, t')"
    by (cases "deflate_read_sizes ?is (replicate 316 0) t")
  from assms obtain tree n cs2 cs' where "deflate_codes_loop tree n 0 cs2 t' = Ok (cs', s')"
    unfolding deflate_build_dynamic_def Let_def t prod.case t' by (auto simp: result_simps split: if_splits)
  with dbs_get_value_progress [OF t] deflate_read_sizes_progress [OF t'] show ?thesis
    by (blast intro: dbs_progress_trans dest: deflate_codes_loop_progress)
qed

lemma deflate_block_progress:
  "deflate_block context block_type u out s = Ok (context', u', out', s') \<Longrightarrow> dbs_progress s s'"
  by (auto simp: deflate_block_def result_simps split: if_splits
      dest!: deflate_stored_progress deflate_huffman_loop_progress deflate_build_dynamic_progress intro: dbs_progress_trans)

section \<open>DeflateContext\<close>

definition dbs_measure :: "DeflateBitstream \<Rightarrow> nat" where
  "dbs_measure s = (if dbs_data_offset s < dbs_data_size s then Suc (dbs_left s) else 0)"

lemma deflate_round_measure:
  assumes "deflate_read_block_header s = (header, t)" "dbs_data_offset s < dbs_data_size s" "dbs_progress t s'"
  shows "dbs_measure s' < dbs_measure s"
proof -
  obtain v where v: "dbs_get_value s 3 = (v, t)" using assms(1) by (auto simp: deflate_read_block_header_def split: prod.splits)
  from dbs_get_value_3 [OF v assms(2)] assms(2,3) show ?thesis
    by (auto simp: dbs_measure_def dbs_progress_def dbs_data_size_def)
qed

function deflate_loop :: "DeflateContext \<Rightarrow> nat \<Rightarrow> byte list \<Rightarrow> DeflateBitstream
    \<Rightarrow> (DeflateContext \<times> nat \<times> byte list \<times> DeflateBitstream) result" where
  "deflate_loop context uncompressed_data_offset uncompressed_data bitstream =
     (if dbs_data_offset bitstream < dbs_data_size bitstream then
        case deflate_read_block_header bitstream of (block_header, bitstream) \<Rightarrow>
          and_then (deflate_block context (dbh_block_type block_header) uncompressed_data_offset uncompressed_data bitstream)
            (\<lambda>(context, uncompressed_data_offset, uncompressed_data, bitstream).
              if dbh_last_block_flag block_header \<noteq> 0
              then Ok (context, uncompressed_data_offset, uncompressed_data, bitstream)
              else deflate_loop context uncompressed_data_offset uncompressed_data bitstream)
      else Ok (context, uncompressed_data_offset, uncompressed_data, bitstream))"
  by pat_completeness auto
termination
  by (relation "measure (\<lambda>(_, _, _, s). dbs_measure s)")
    (auto intro: deflate_round_measure [OF sym] dest: deflate_block_progress)

declare deflate_loop.simps [simp del]

definition deflate_decompress_bitstream :: "DeflateContext \<Rightarrow> DeflateBitstream \<Rightarrow> byte list
    \<Rightarrow> (DeflateContext \<times> byte list \<times> DeflateBitstream) result" where
  "deflate_decompress_bitstream context bitstream uncompressed_data =
     and_then (deflate_loop context 0 uncompressed_data bitstream)
       (\<lambda>(context, uncompressed_data_offset, uncompressed_data, bitstream).
         Ok (context\<lparr>dfc_uncompressed_data_size := uncompressed_data_offset\<rparr>, uncompressed_data, bitstream))"

definition deflate_decompress :: "DeflateContext \<Rightarrow> byte list \<Rightarrow> byte list \<Rightarrow> (DeflateContext \<times> byte list) result" where
  "deflate_decompress context compressed_data uncompressed_data =
     and_then (deflate_decompress_bitstream context (dbs_new compressed_data 0) uncompressed_data)
       (\<lambda>(context, uncompressed_data, bitstream). Ok (context, uncompressed_data))"

end
