(* ===== verification/Deflate_Format.thy ===== *)
theory Deflate_Format
  imports Deflate
begin

text \<open>
  The parts of the Deflate format (RFC 1951) as encoders into bits: literals and matches, the code sizes
  and the codes of a block, stored data.  The functions of theory \<open>Deflate\<close> undo each of them.
\<close>

section \<open>Literals and matches\<close>

text \<open>A match has a size code with its extra bits and a distance code with its extra bits.\<close>

datatype deflate_op = Op_literal byte | Op_match nat nat nat nat

fun op_token :: "deflate_op \<Rightarrow> lz_token" where
  "op_token (Op_literal b) = Lz_literal [b]"
| "op_token (Op_match l lx d dx) = Lz_match (deflate_distance_codes_base ! d + dx) (deflate_literal_codes_base ! l + lx)"

fun op_bits :: "nat list \<Rightarrow> nat list \<Rightarrow> deflate_op \<Rightarrow> bool list" where
  "op_bits ls ds (Op_literal b) = canonical_code ls (unat b)"
| "op_bits ls ds (Op_match l lx d dx) =
     canonical_code ls (257 + l) @ bits_of (deflate_literal_codes_extra ! l) lx
     @ canonical_code ds d @ bits_of (deflate_distance_codes_extra ! d) dx"

text \<open>The codes an operation uses exist, the extra bits fit and a match begins in the output.\<close>

definition has_code :: "nat list \<Rightarrow> nat \<Rightarrow> bool" where
  "has_code ss n \<longleftrightarrow> n < length ss \<and> 0 < ss ! n"

fun op_valid :: "nat list \<Rightarrow> nat list \<Rightarrow> nat \<Rightarrow> deflate_op \<Rightarrow> bool" where
  "op_valid ls ds u (Op_literal b) \<longleftrightarrow> has_code ls (unat b)"
| "op_valid ls ds u (Op_match l lx d dx) \<longleftrightarrow> l < 29 \<and> lx < 2 ^ (deflate_literal_codes_extra ! l) \<and> has_code ls (257 + l) \<and>
     d < 30 \<and> dx < 2 ^ (deflate_distance_codes_extra ! d) \<and> has_code ds d \<and> deflate_distance_codes_base ! d + dx \<le> u"

fun ops_valid :: "nat list \<Rightarrow> nat list \<Rightarrow> nat \<Rightarrow> deflate_op list \<Rightarrow> bool" where
  "ops_valid ls ds u [] \<longleftrightarrow> has_code ls 256"
| "ops_valid ls ds u (op # ops) \<longleftrightarrow> op_valid ls ds u op \<and> ops_valid ls ds (u + lz_size (op_token op)) ops"

definition ops_bits :: "nat list \<Rightarrow> nat list \<Rightarrow> deflate_op list \<Rightarrow> bool list" where
  "ops_bits ls ds ops = concat (map (op_bits ls ds) ops) @ canonical_code ls 256"

definition ops_tokens :: "deflate_op list \<Rightarrow> lz_token list" where
  "ops_tokens ops = map op_token ops"

lemma deflate_extra_bound:
  "l < 29 \<Longrightarrow> deflate_literal_codes_extra ! l \<le> 32" "d < 30 \<Longrightarrow> deflate_distance_codes_extra ! d \<le> 32"
  "d < 30 \<Longrightarrow> 1 \<le> deflate_distance_codes_base ! d"
proof -
  have l: "length deflate_literal_codes_extra = 29" "\<forall>x \<in> set deflate_literal_codes_extra. x \<le> 32"
    "length deflate_distance_codes_extra = 30" "\<forall>x \<in> set deflate_distance_codes_extra. x \<le> 32"
    "length deflate_distance_codes_base = 30" "\<forall>x \<in> set deflate_distance_codes_base. 1 \<le> x"
    by (simp_all add: deflate_literal_codes_extra_def deflate_distance_codes_extra_def deflate_distance_codes_base_def)
  show "l < 29 \<Longrightarrow> deflate_literal_codes_extra ! l \<le> 32" "d < 30 \<Longrightarrow> deflate_distance_codes_extra ! d \<le> 32"
    "d < 30 \<Longrightarrow> 1 \<le> deflate_distance_codes_base ! d"
    using l nth_mem [of l deflate_literal_codes_extra] nth_mem [of d deflate_distance_codes_extra]
      nth_mem [of d deflate_distance_codes_base] by auto
qed

lemma dbs_decode:
  assumes "huffman_tree 15 ss tree" "has_code ss n" "dbs_ok s" "dbs_pending s = canonical_code ss n @ rest"
  shows "\<exists>s'. huffman_decode_symbol dbs_get_value tree s = Ok (n, s') \<and> dbs_ok s' \<and> dbs_pending s' = rest"
  using dbs.decode_symbol_canonical [OF assms(1) _ _ assms(3,4)] assms(2) by (simp add: has_code_def)

lemma dbs_number:
  assumes "dbs_ok s" "n \<le> 32" "k < 2 ^ n" "dbs_pending s = bits_of n k @ rest"
  shows "\<exists>v s'. dbs_get_value s n = (v, s') \<and> unat v = k \<and> dbs_ok s' \<and> dbs_pending s' = rest"
  using dbs.get_number [OF assms] by (cases "dbs_get_value s n") auto

lemma deflate_match_round:
  assumes "huffman_tree 15 ds dt" "has_code ds d" "l < 29" "lx < 2 ^ (deflate_literal_codes_extra ! l)"
    and "d < 30" "dx < 2 ^ (deflate_distance_codes_extra ! d)" "dbs_ok s"
    and "dbs_pending s = bits_of (deflate_literal_codes_extra ! l) lx @ canonical_code ds d @ bits_of (deflate_distance_codes_extra ! d) dx @ rest"
  shows "\<exists>s'. deflate_match dt l s = Ok (deflate_literal_codes_base ! l + lx, deflate_distance_codes_base ! d + dx, s')
    \<and> dbs_ok s' \<and> dbs_pending s' = rest"
proof -
  obtain v t where t: "dbs_get_value s (deflate_literal_codes_extra ! l) = (v, t)" "unat v = lx" "dbs_ok t"
    "dbs_pending t = canonical_code ds d @ bits_of (deflate_distance_codes_extra ! d) dx @ rest"
    using dbs_number [OF assms(7) deflate_extra_bound(1) [OF assms(3)] assms(4,8)] by blast
  obtain t' where t': "huffman_decode_symbol dbs_get_value dt t = Ok (d, t')" "dbs_ok t'"
    "dbs_pending t' = bits_of (deflate_distance_codes_extra ! d) dx @ rest"
    using dbs_decode [OF assms(1,2) t(3,4)] by blast
  obtain v' t'' where t'': "dbs_get_value t' (deflate_distance_codes_extra ! d) = (v', t'')" "unat v' = dx" "dbs_ok t''"
    "dbs_pending t'' = rest"
    using dbs_number [OF t'(2) deflate_extra_bound(2) [OF assms(5)] assms(6) t'(3)] by blast
  have "length deflate_distance_codes_extra = 30" by (simp add: deflate_distance_codes_extra_def)
  then show ?thesis using t t' t'' assms(5) by (simp add: deflate_match_def)
qed

lemma deflate_huffman_loop_round:
  assumes trees: "huffman_tree 15 ls lt" "huffman_tree 15 ds dt"
    and "ops_valid ls ds (length out) ops" "lz_total (ops_tokens ops) \<le> length room"
    and "dbs_ok s" "dbs_pending s = ops_bits ls ds ops @ rest"
  shows "\<exists>s'. deflate_huffman_loop lt dt (length out) (out @ room) s =
      Ok (length out + lz_total (ops_tokens ops), lz_expand_all (ops_tokens ops) out @ drop (lz_total (ops_tokens ops)) room, s')
    \<and> dbs_ok s' \<and> dbs_pending s' = rest"
  using assms(3-)
proof (induction ops arbitrary: out room s)
  case Nil
  then obtain t where "huffman_decode_symbol dbs_get_value lt s = Ok (256, t)" "dbs_ok t" "dbs_pending t = rest"
    using dbs_decode [OF trees(1), of 256 s rest] by (auto simp: ops_bits_def)
  then show ?case by (simp add: deflate_huffman_loop.simps [of lt dt "length out" "out @ room" s] ops_tokens_def)
next
  case (Cons op ops)
  show ?case
  proof (cases op)
    case (Op_literal b)
    obtain t where t: "huffman_decode_symbol dbs_get_value lt s = Ok (unat b, t)" "dbs_ok t" "dbs_pending t = ops_bits ls ds ops @ rest"
      using dbs_decode [OF trees(1) _ Cons.prems(3), of "unat b"] Cons.prems(1,4) Op_literal by (auto simp: ops_bits_def)
    obtain r room' where room: "room = r # room'" using Cons.prems(2) Op_literal by (cases room) (auto simp: ops_tokens_def)
    have "deflate_huffman_loop lt dt (length out) (out @ room) s = deflate_huffman_loop lt dt (length (out @ [b])) ((out @ [b]) @ room') t"
      using unat_byte_lt [of b] unfolding room by (subst deflate_huffman_loop.simps) (simp add: t(1))
    then show ?thesis
      using Cons.IH [of "out @ [b]" room' t] Cons.prems(1,2) t Op_literal room by (simp add: ops_tokens_def)
  next
    case (Op_match l lx d dx)
    let ?n = "deflate_literal_codes_base ! l + lx" and ?d = "deflate_distance_codes_base ! d + dx"
    have v: "l < 29" "lx < 2 ^ (deflate_literal_codes_extra ! l)" "has_code ls (257 + l)" "d < 30"
      "dx < 2 ^ (deflate_distance_codes_extra ! d)" "has_code ds d" "?d \<le> length out" "?n \<le> length room"
      using Cons.prems(1,2) Op_match by (auto simp: ops_tokens_def)
    obtain t where t: "huffman_decode_symbol dbs_get_value lt s = Ok (257 + l, t)" "dbs_ok t"
      "dbs_pending t = bits_of (deflate_literal_codes_extra ! l) lx @ canonical_code ds d @ bits_of (deflate_distance_codes_extra ! d) dx
        @ ops_bits ls ds ops @ rest"
      using dbs_decode [OF trees(1) v(3) Cons.prems(3)] Cons.prems(4) Op_match by (auto simp: ops_bits_def)
    obtain t' where t': "deflate_match dt l t = Ok (?n, ?d, t')" "dbs_ok t'" "dbs_pending t' = ops_bits ls ds ops @ rest"
      using deflate_match_round [OF trees(2) v(6,1,2,4,5) t(2,3)] by blast
    have copy: "copy_match ?n (length out - ?d) (length out) (out @ room) = Ok (lz_copy ?n ?d out @ drop ?n room)"
      using v deflate_extra_bound(3) [of d] by (intro copy_match_eq) auto
    have "deflate_huffman_loop lt dt (length out) (out @ room) s =
        deflate_huffman_loop lt dt (length (lz_copy ?n ?d out)) (lz_copy ?n ?d out @ drop ?n room) t'"
      using v by (simp add: deflate_huffman_loop.simps [of lt dt "length out" "out @ room" s] t(1) t'(1) copy sub_u64_def)
    then show ?thesis
      using Cons.IH [of "lz_copy ?n ?d out" "drop ?n room" t'] Cons.prems(1,2) t' Op_match by (simp add: ops_tokens_def ac_simps)
  qed
qed

section \<open>Code sizes\<close>

text \<open>The operations that store the code sizes of a dynamic block.\<close>

datatype size_op = Size_of nat | Size_repeat nat | Size_zeros nat | Size_many_zeros nat

fun size_op_symbol :: "size_op \<Rightarrow> nat" where
  "size_op_symbol (Size_of k) = k"
| "size_op_symbol (Size_repeat x) = 16"
| "size_op_symbol (Size_zeros x) = 17"
| "size_op_symbol (Size_many_zeros x) = 18"

fun size_op_bits :: "nat list \<Rightarrow> size_op \<Rightarrow> bool list" where
  "size_op_bits cs (Size_of k) = canonical_code cs k"
| "size_op_bits cs (Size_repeat x) = canonical_code cs 16 @ bits_of 2 x"
| "size_op_bits cs (Size_zeros x) = canonical_code cs 17 @ bits_of 3 x"
| "size_op_bits cs (Size_many_zeros x) = canonical_code cs 18 @ bits_of 7 x"

fun size_op_expand :: "size_op \<Rightarrow> nat list \<Rightarrow> nat list" where
  "size_op_expand (Size_of k) acc = acc @ [k]"
| "size_op_expand (Size_repeat x) acc = acc @ replicate (x + 3) (last acc)"
| "size_op_expand (Size_zeros x) acc = acc @ replicate (x + 3) 0"
| "size_op_expand (Size_many_zeros x) acc = acc @ replicate (x + 11) 0"

fun size_op_valid :: "nat list \<Rightarrow> nat list \<Rightarrow> size_op \<Rightarrow> bool" where
  "size_op_valid cs acc (Size_of k) \<longleftrightarrow> k < 16 \<and> has_code cs k"
| "size_op_valid cs acc (Size_repeat x) \<longleftrightarrow> x < 4 \<and> has_code cs 16 \<and> acc \<noteq> []"
| "size_op_valid cs acc (Size_zeros x) \<longleftrightarrow> x < 8 \<and> has_code cs 17"
| "size_op_valid cs acc (Size_many_zeros x) \<longleftrightarrow> x < 128 \<and> has_code cs 18"

fun size_ops_valid :: "nat list \<Rightarrow> nat list \<Rightarrow> size_op list \<Rightarrow> bool" where
  "size_ops_valid cs acc [] \<longleftrightarrow> True"
| "size_ops_valid cs acc (op # ops) \<longleftrightarrow> size_op_valid cs acc op \<and> size_ops_valid cs (size_op_expand op acc) ops"

fun size_ops_expand :: "size_op list \<Rightarrow> nat list \<Rightarrow> nat list" where
  "size_ops_expand [] acc = acc"
| "size_ops_expand (op # ops) acc = size_ops_expand ops (size_op_expand op acc)"

definition size_ops_bits :: "nat list \<Rightarrow> size_op list \<Rightarrow> bool list" where
  "size_ops_bits cs ops = concat (map (size_op_bits cs) ops)"

lemma size_op_expand_prefix: "\<exists>bs. bs \<noteq> [] \<and> size_op_expand op acc = acc @ bs"
  by (cases op) simp_all

lemma size_ops_expand_length: "length acc \<le> length (size_ops_expand ops acc)"
proof (induction ops arbitrary: acc)
  case (Cons op ops)
  then show ?case using size_op_expand_prefix [of op acc] Cons.IH [of "size_op_expand op acc"] by force
qed simp

lemma deflate_repeat_eq:
  "n \<le> length room \<Longrightarrow> deflate_repeat n c (length acc) (acc @ room) = Ok (acc @ replicate n c @ drop n room)"
proof (induction n arbitrary: acc room)
  case (Suc n)
  then obtain r room' where "room = r # room'" by (cases room) auto
  with Suc.IH [of room' "acc @ [c]"] Suc.prems show ?case by (simp add: replicate_app_Cons_same)
qed simp

text \<open>The repeat count of an operation, after its code.\<close>

fun size_op_extra :: "size_op \<Rightarrow> (bool list \<times> nat \<times> byte list) option" where
  "size_op_extra (Size_of k) = None"
| "size_op_extra (Size_repeat x) = Some (bits_of 2 x, x + 3, [])"
| "size_op_extra (Size_zeros x) = Some (bits_of 3 x, x + 3, [0])"
| "size_op_extra (Size_many_zeros x) = Some (bits_of 7 x, x + 11, [0])"

lemma deflate_repeat_count_round:
  assumes "size_op_extra op = Some (bits, n, z)" "size_op_valid cs acc op" "dbs_ok s" "dbs_pending s = bits @ rest"
  shows "\<exists>s'. deflate_repeat_count (size_op_symbol op) s = (n, s') \<and> dbs_ok s' \<and> dbs_pending s' = rest"
  using assms dbs_number [of s 2 _ rest] dbs_number [of s 3 _ rest] dbs_number [of s 7 _ rest]
  by (cases op) (fastforce simp: deflate_repeat_count_def)+

lemma deflate_codes_loop_round:
  assumes tree: "huffman_tree 15 cs tree"
    and "size_ops_valid cs acc ops" "length (size_ops_expand ops acc) = n" "length acc + length room = 316" "n \<le> 316"
    and "dbs_ok s" "dbs_pending s = size_ops_bits cs ops @ rest"
  shows "\<exists>s'. deflate_codes_loop tree n (length acc) (map of_nat acc @ room) s =
      Ok (map of_nat (size_ops_expand ops acc) @ drop (n - length acc) room, s') \<and> dbs_ok s' \<and> dbs_pending s' = rest"
  using assms(2-)
proof (induction ops arbitrary: acc room s)
  case Nil
  then show ?case by (simp add: deflate_codes_loop.simps size_ops_bits_def)
next
  case (Cons op ops)
  obtain bs where bs: "bs \<noteq> []" "size_op_expand op acc = acc @ bs" using size_op_expand_prefix by blast
  have len: "length acc + length bs \<le> n" using size_ops_expand_length [of "acc @ bs" ops] Cons.prems(2) bs(2) by simp
  then have room: "length bs \<le> length room" and lt: "length acc < n" using Cons.prems(3,4) length_greater_0_conv [of bs] bs(1) by linarith+
  have IH: "\<exists>s'. deflate_codes_loop tree n (length (acc @ bs)) (map of_nat (acc @ bs) @ drop (length bs) room) t =
      Ok (map of_nat (size_ops_expand ops (acc @ bs)) @ drop (n - length (acc @ bs)) (drop (length bs) room), s') \<and> dbs_ok s' \<and> dbs_pending s' = rest"
    if "dbs_ok t" "dbs_pending t = size_ops_bits cs ops @ rest" for t
    using that Cons.prems room bs(2) by (intro Cons.IH) auto
  note unfold = deflate_codes_loop.simps [of tree n "length acc" "map of_nat acc @ room" s]
  have "\<exists>t. deflate_codes_loop tree n (length acc) (map of_nat acc @ room) s =
      deflate_codes_loop tree n (length (acc @ bs)) (map of_nat (acc @ bs) @ drop (length bs) room) t
      \<and> dbs_ok t \<and> dbs_pending t = size_ops_bits cs ops @ rest"
  proof (cases "size_op_extra op")
    case None
    then obtain k where op: "op = Size_of k" by (cases op) auto
    obtain r room' where r: "room = r # room'" using room bs(1) by (cases room) auto
    have k: "bs = [k]" "k < 16" using bs(2) Cons.prems(1) op by simp_all
    obtain t where t: "huffman_decode_symbol dbs_get_value tree s = Ok (k, t)" "dbs_ok t" "dbs_pending t = size_ops_bits cs ops @ rest"
      using dbs_decode [OF tree _ Cons.prems(5), of k] Cons.prems(1,6) op by (auto simp: size_ops_bits_def)
    have "deflate_codes_loop tree n (length acc) (map of_nat acc @ room) s =
      deflate_codes_loop tree n (length (acc @ bs)) (map of_nat (acc @ bs) @ drop (length bs) room) t"
      using lt k unfolding r by (subst deflate_codes_loop.simps) (simp add: t(1) list_update_append)
    with t show ?thesis by blast
  next
    case (Some e)
    then obtain bits m z where e: "size_op_extra op = Some (bits, m, z)" by (cases e) auto
    let ?c = "if size_op_symbol op = 16 then last acc else 0"
    have op: "\<not> size_op_symbol op < 16" "\<not> 18 < size_op_symbol op" "has_code cs (size_op_symbol op)"
      "size_op_symbol op = 16 \<Longrightarrow> acc \<noteq> []" "bs = replicate m ?c" "size_op_bits cs op = canonical_code cs (size_op_symbol op) @ bits"
      using e bs(2) Cons.prems(1) by (cases op; auto)+
    obtain t where t: "huffman_decode_symbol dbs_get_value tree s = Ok (size_op_symbol op, t)" "dbs_ok t"
      "dbs_pending t = bits @ size_ops_bits cs ops @ rest"
      using dbs_decode [OF tree op(3) Cons.prems(5)] Cons.prems(6) op(6) by (auto simp: size_ops_bits_def)
    obtain t' where t': "deflate_repeat_count (size_op_symbol op) t = (m, t')" "dbs_ok t'" "dbs_pending t' = size_ops_bits cs ops @ rest"
      using deflate_repeat_count_round [OF e _ t(2,3)] Cons.prems(1) by auto
    have c: "(if size_op_symbol op = 16 then (map of_nat acc @ room) ! (length acc - 1) else 0) = (of_nat ?c :: byte)"
      using op(4) by (auto simp: nth_append last_conv_nth)
    have m: "length bs = m" by (simp add: op(5))
    have "deflate_repeat m (of_nat ?c) (length acc) (map of_nat acc @ room) = Ok (map of_nat (acc @ bs) @ drop (length bs) room)"
      using deflate_repeat_eq [of m room "of_nat ?c" "map of_nat acc"] room m by (simp add: op(5))
    then have "deflate_codes_loop tree n (length acc) (map of_nat acc @ room) s =
      deflate_codes_loop tree n (length (acc @ bs)) (map of_nat (acc @ bs) @ drop (length bs) room) t'"
      using lt op(1,2,4) len m unfolding unfold t(1) by (auto simp only: if_True if_False t'(1) c Let_def and_then_Ok prod.case length_append length_0_conv split: if_split)
    with t' show ?thesis by blast
  qed
  then show ?case using IH len by (auto simp: bs(2)) 
qed

lemma code_sizes_of_nat: "\<forall>k \<in> set ss. k < 256 \<Longrightarrow> code_sizes_of (map of_nat ss) = ss"
  by (induction ss) (simp_all add: code_sizes_of_def unat_byte_of_nat)

lemma deflate_read_sizes_round:
  assumes "\<forall>i \<in> set is. i < length cs \<and> f i < 8" "dbs_ok s" "dbs_pending s = concat (map (\<lambda>i. bits_of 3 (f i)) is) @ rest" "distinct is"
  shows "\<exists>cs' s'. deflate_read_sizes is cs s = (cs', s') \<and> length cs' = length cs \<and> dbs_ok s' \<and> dbs_pending s' = rest \<and>
    (\<forall>i < length cs. cs' ! i = (if i \<in> set is then of_nat (f i) else cs ! i))"
  using assms
proof (induction "is" arbitrary: cs s)
  case (Cons i "is")
  obtain v t where t: "dbs_get_value s 3 = (v, t)" "unat v = f i" "dbs_ok t" "dbs_pending t = concat (map (\<lambda>i. bits_of 3 (f i)) is) @ rest"
    using dbs_number [OF Cons.prems(2), of 3 "f i"] Cons.prems(1,3) by auto
  have v: "ucast v = (of_nat (f i) :: byte)" unfolding t(2) [symmetric] by simp
  show ?case
    using Cons.IH [of "cs[i := of_nat (f i)]" t] Cons.prems t v by (auto simp: nth_list_update)
qed auto

lemma deflate_clear_sizes_nth:
  "length (deflate_clear_sizes is cs) = length cs \<and> (\<forall>i < length cs. deflate_clear_sizes is cs ! i = (if i \<in> set is then 0 else cs ! i))"
  by (induction "is" arbitrary: cs) (auto simp: nth_list_update)

text \<open>The definition of the codes of a dynamic block.\<close>

record deflate_codes =
  dc_number_of_literals :: nat
  dc_number_of_distances :: nat
  dc_number_of_sizes :: nat
  dc_sizes :: "nat list"
  dc_ops :: "size_op list"

definition dc_literals :: "deflate_codes \<Rightarrow> nat list" where
  "dc_literals c = take (dc_number_of_literals c) (size_ops_expand (dc_ops c) [])"

definition dc_distances :: "deflate_codes \<Rightarrow> nat list" where
  "dc_distances c = drop (dc_number_of_literals c) (size_ops_expand (dc_ops c) [])"

definition dc_valid :: "deflate_codes \<Rightarrow> bool" where
  "dc_valid c \<longleftrightarrow> 257 \<le> dc_number_of_literals c \<and> dc_number_of_literals c \<le> 286 \<and>
     1 \<le> dc_number_of_distances c \<and> dc_number_of_distances c \<le> 30 \<and>
     4 \<le> dc_number_of_sizes c \<and> dc_number_of_sizes c \<le> 19 \<and> length (dc_sizes c) = 19 \<and> (\<forall>k \<in> set (dc_sizes c). k < 8) \<and>
     (\<forall>i \<in> set (drop (dc_number_of_sizes c) deflate_code_sizes_sequence). dc_sizes c ! i = 0) \<and>
     huffman_sizes_ok 15 (dc_sizes c) \<and> size_ops_valid (dc_sizes c) [] (dc_ops c) \<and>
     length (size_ops_expand (dc_ops c) []) = dc_number_of_literals c + dc_number_of_distances c \<and>
     huffman_sizes_ok 15 (dc_literals c) \<and> 0 < dc_literals c ! 256 \<and> huffman_sizes_ok 15 (dc_distances c)"

definition dc_bits :: "deflate_codes \<Rightarrow> bool list" where
  "dc_bits c = bits_of 5 (dc_number_of_literals c - 257) @ bits_of 5 (dc_number_of_distances c - 1) @ bits_of 4 (dc_number_of_sizes c - 4)
     @ concat (map (\<lambda>i. bits_of 3 (dc_sizes c ! i)) (take (dc_number_of_sizes c) deflate_code_sizes_sequence))
     @ size_ops_bits (dc_sizes c) (dc_ops c)"

lemma deflate_sequence:
  "distinct deflate_code_sizes_sequence" "set deflate_code_sizes_sequence = {..<19}" "length deflate_code_sizes_sequence = 19"
proof -
  show d: "distinct deflate_code_sizes_sequence" and l: "length deflate_code_sizes_sequence = 19"
    by (simp_all add: deflate_code_sizes_sequence_def)
  have "set deflate_code_sizes_sequence \<subseteq> {..<19}" by (simp add: deflate_code_sizes_sequence_def)
  moreover have "card (set deflate_code_sizes_sequence) = 19" using distinct_card [OF d] l by simp
  ultimately show "set deflate_code_sizes_sequence = {..<19}" by (intro card_subset_eq) simp_all
qed

lemma huffman_build_of_nat:
  assumes "huffman_sizes_ok 15 ss" "length ss \<le> n" "length ss < u16_limit" "\<forall>k \<in> set ss. k < 256"
  shows "\<exists>tree. huffman_build (huffman_new n 15) (map of_nat ss) = Ok tree \<and> huffman_tree 15 ss tree"
  using huffman_build_exact [of "map of_nat ss" n 15] assms by (simp add: code_sizes_of_nat)

text \<open>The three numbers at the start.\<close>

definition three_numbers :: "nat \<Rightarrow> nat \<Rightarrow> nat \<Rightarrow> nat" where
  "three_numbers a b c = push_bit 5 (push_bit 5 c OR b) OR a"

lemma three_numbers:
  assumes "a < 32" "b < 32" "c < 16"
  shows "three_numbers a b c mod 32 = a" "three_numbers a b c div 32 mod 32 = b" "three_numbers a b c div 32 div 32 = c"
    "three_numbers a b c < 2 ^ 14" "bits_of 5 a @ bits_of 5 b @ bits_of 4 c = bits_of 14 (three_numbers a b c)"
proof -
  define x where "x = push_bit 5 c OR b"
  have x: "x = c * 32 + b" using assms(2) pack_nat [of b 5 c] by (simp add: x_def)
  have n: "three_numbers a b c = x * 32 + a" using assms(1) pack_nat [of a 5 x] by (simp add: three_numbers_def x_def [symmetric])
  have d: "three_numbers a b c div 32 = x" using assms(1) by (simp add: n)
  show "three_numbers a b c mod 32 = a" using assms(1) by (simp add: n)
  show "three_numbers a b c div 32 mod 32 = b" "three_numbers a b c div 32 div 32 = c" unfolding d x using assms(2) by simp_all
  have "x < 512" using assms(2,3) by (simp add: x)
  then show "three_numbers a b c < 2 ^ 14" using assms(1) by (simp add: n)
  have "bits_of 5 b @ bits_of 4 c = bits_of 9 x" using assms(2) bits_of_append [of b 5 4 c] by (simp add: x_def)
  then show "bits_of 5 a @ bits_of 5 b @ bits_of 4 c = bits_of 14 (three_numbers a b c)"
    using assms(1) bits_of_append [of a 5 9 x] by (simp add: three_numbers_def x_def [symmetric])
qed

lemma word_numbers:
  "unat ((w :: 32 word) AND 0x1f) = unat w mod 32" "unat (drop_bit 5 (w :: 32 word)) = unat w div 32"
proof -
  have "w AND 0x1f = take_bit 5 w" by (simp add: take_bit_eq_mask mask_eq_exp_minus_1)
  then have "unat (w AND 0x1f) = take_bit 5 (unat w)" by (simp only: unsigned_take_bit_eq)
  then show "unat (w AND 0x1f) = unat w mod 32" by (simp add: take_bit_eq_mod)
  show "unat (drop_bit 5 w) = unat w div 32" by (simp add: drop_bit_eq_div unat_div_distrib)
qed

lemma deflate_build_dynamic_round:
  assumes "dc_valid c" "dbs_ok s" "dbs_pending s = dc_bits c @ rest"
  shows "\<exists>lt dt s'. deflate_build_dynamic s = Ok (lt, dt, s') \<and> huffman_tree 15 (dc_literals c) lt \<and> huffman_tree 15 (dc_distances c) dt
    \<and> dbs_ok s' \<and> dbs_pending s' = rest"
proof -
  let ?nl = "dc_number_of_literals c" and ?nd = "dc_number_of_distances c" and ?ns = "dc_number_of_sizes c" and ?ss = "dc_sizes c"
  let ?sizes = "size_ops_expand (dc_ops c) []"
  define tail where "tail = concat (map (\<lambda>i. bits_of 3 (?ss ! i)) (take ?ns deflate_code_sizes_sequence)) @ size_ops_bits ?ss (dc_ops c) @ rest"
  note valid = assms(1) [unfolded dc_valid_def]
  have bounds: "?nl - 257 < 32" "?nd - 1 < 32" "?ns - 4 < 16" using valid by auto
  define v0 where "v0 = three_numbers (?nl - 257) (?nd - 1) (?ns - 4)"
  note three = three_numbers [OF bounds, folded v0_def]
  have p: "dbs_pending s = bits_of 14 v0 @ tail"
    using assms(3) by (simp add: dc_bits_def tail_def three(5) [symmetric])
  then obtain v t where t: "dbs_get_value s 14 = (v, t)" "unat v = v0" "dbs_ok t" "dbs_pending t = tail"
    using dbs_number [OF assms(2) _ three(4) p] by auto
  have nums: "unat (v AND 0x1f) + 257 = ?nl" "unat (drop_bit 5 v AND 0x1f) + 1 = ?nd" "unat (drop_bit 5 (drop_bit 5 v)) + 4 = ?ns"
    unfolding word_numbers t(2) three using valid by auto
  have seq: "distinct (take ?ns deflate_code_sizes_sequence)"
    "\<forall>i \<in> set (take ?ns deflate_code_sizes_sequence). i < length (replicate 316 (0 :: byte)) \<and> ?ss ! i < 8"
    using deflate_sequence valid by (auto dest!: in_set_takeD)
  obtain cs t' where t': "deflate_read_sizes (take ?ns deflate_code_sizes_sequence) (replicate 316 0) t = (cs, t')"
    "length cs = 316" "dbs_ok t'" "dbs_pending t' = size_ops_bits ?ss (dc_ops c) @ rest"
    "\<forall>i < 316. cs ! i = (if i \<in> set (take ?ns deflate_code_sizes_sequence) then of_nat (?ss ! i) else 0)"
    using deflate_read_sizes_round [OF seq(2) t(3) _ seq(1), of "size_ops_bits ?ss (dc_ops c) @ rest"] t(4) by (auto simp: tail_def)
  define cs2 where "cs2 = deflate_clear_sizes (drop ?ns deflate_code_sizes_sequence) cs"
  have cs2: "length cs2 = 316" "subslice 0 19 cs2 = map of_nat ?ss"
  proof -
    show "length cs2 = 316" using deflate_clear_sizes_nth t'(2) by (simp add: cs2_def)
    have "cs2 ! i = of_nat (?ss ! i)" if i: "i < 19" for i
    proof -
      have "i \<in> set (take ?ns deflate_code_sizes_sequence) \<union> set (drop ?ns deflate_code_sizes_sequence)"
        using i deflate_sequence(2) by (metis append_take_drop_id lessThan_iff set_append)
      then show ?thesis
        using deflate_clear_sizes_nth [of "drop ?ns deflate_code_sizes_sequence" cs] t'(2,5) i valid by (auto simp: cs2_def)
    qed
    then show "subslice 0 19 cs2 = map of_nat ?ss"
      using \<open>length cs2 = 316\<close> valid by (intro nth_equalityI) (simp_all add: slice_simps)
  qed
  obtain tree where tree: "huffman_build (huffman_new 19 15) (subslice 0 19 cs2) = Ok tree" "huffman_tree 15 ?ss tree"
    using huffman_build_of_nat [of ?ss 19] valid cs2(2) by (fastforce simp: u16_limit_def)
  obtain t'' where t'': "deflate_codes_loop tree (?nl + ?nd) 0 cs2 t' = Ok (map of_nat ?sizes @ drop (?nl + ?nd) cs2, t'')"
    "dbs_ok t''" "dbs_pending t'' = rest"
    using deflate_codes_loop_round [OF tree(2), of "[]" "dc_ops c" "?nl + ?nd" cs2 t' rest] valid cs2(1) t'(3,4) by auto
  let ?cs = "map of_nat ?sizes @ drop (?nl + ?nd) cs2 :: byte list"
  have len: "length ?sizes = ?nl + ?nd" using valid by blast
  have sub: "subslice 0 ?nl ?cs = map of_nat (dc_literals c)" "subslice ?nl ?nd ?cs = map of_nat (dc_distances c)"
    using len by (simp_all add: subslice_def dc_literals_def dc_distances_def take_map drop_map)
  have small: "\<forall>k \<in> set (dc_literals c). k < 256" "\<forall>k \<in> set (dc_distances c). k < 256"
    using valid by (auto simp: huffman_sizes_ok_def)
  obtain lt where lt: "huffman_build (huffman_new 288 15) (subslice 0 ?nl ?cs) = Ok lt" "huffman_tree 15 (dc_literals c) lt"
    using huffman_build_of_nat [of "dc_literals c" 288] valid small sub len by (auto simp: u16_limit_def dc_literals_def)
  obtain dt where dt: "huffman_build (huffman_new 30 15) (subslice ?nl ?nd ?cs) = Ok dt" "huffman_tree 15 (dc_distances c) dt"
    using huffman_build_of_nat [of "dc_distances c" 30] valid small sub len by (auto simp: u16_limit_def dc_distances_def)
  have "?cs ! 256 = of_nat (dc_literals c ! 256)" using len valid by (simp add: nth_append dc_literals_def)
  moreover have "dc_literals c ! 256 < 256" "0 < dc_literals c ! 256"
    using valid small(1) len nth_mem [of 256 "dc_literals c"] by (auto simp: dc_literals_def)
  ultimately have "?cs ! 256 \<noteq> 0" by (metis unat_byte_of_nat unat_0 less_irrefl)
  then show ?thesis
    using t t' t'' tree lt dt nums valid unfolding deflate_build_dynamic_def Let_def
    by (simp only: prod.case nums cs2_def [symmetric] and_then_Ok if_False) simp
qed

section \<open>Stored blocks\<close>

text \<open>The bits up to the next byte, the size and its complement, the bytes.\<close>

definition stored_bits :: "nat \<Rightarrow> byte list \<Rightarrow> bool list" where
  "stored_bits pad bs = replicate pad False @ bits_of 16 (length bs) @ bits_of 16 (length bs XOR 0xffff) @ bitmap_bits bs"

lemma stored_sizes:
  assumes "n < 65536"
  shows "bits_of 16 n @ bits_of 16 (n XOR 0xffff) = bits_of 32 (push_bit 16 (n XOR 0xffff) OR n)"
    "push_bit 16 (n XOR 0xffff) OR n < 2 ^ 32"
    "unat v = push_bit 16 (n XOR 0xffff) OR n \<Longrightarrow> unat ((v :: 32 word) AND 0xffff) = n"
    "unat v = push_bit 16 (n XOR 0xffff) OR n \<Longrightarrow> unat (drop_bit 16 (v :: 32 word) XOR 0xffff) = n"
proof -
  define c where "c = n XOR 0xffff"
  have "c = take_bit 16 c"
  proof -
    have "n = take_bit 16 n" using assms by (simp add: take_bit_eq_mod)
    moreover have "(0xffff :: nat) = take_bit 16 0xffff" by simp
    ultimately show ?thesis unfolding c_def by (metis take_bit_xor)
  qed
  then have c: "c < 65536" using take_bit_nat_less_exp [of 16 c] by simp
  have undo: "c XOR 0xffff = n" by (simp add: c_def xor.assoc)
  have e: "push_bit 16 c OR n = c * 65536 + n" using assms pack_nat [of n 16 c] by simp
  show "bits_of 16 n @ bits_of 16 (n XOR 0xffff) = bits_of 32 (push_bit 16 (n XOR 0xffff) OR n)"
    using assms bits_of_append [of n 16 16 c] by (simp add: c_def)
  show "push_bit 16 (n XOR 0xffff) OR n < 2 ^ 32" unfolding c_def [symmetric] e using c assms by simp
  assume v: "unat v = push_bit 16 (n XOR 0xffff) OR n"
  then have v: "unat v = c * 65536 + n" unfolding c_def [symmetric] e .
  have "v AND 0xffff = take_bit 16 v" by (simp add: take_bit_eq_mask mask_eq_exp_minus_1)
  then have "unat (v AND 0xffff) = take_bit 16 (unat v)" by (simp only: unsigned_take_bit_eq)
  then show "unat (v AND 0xffff) = n" using assms by (simp add: take_bit_eq_mod v)
  have "unat (drop_bit 16 v) = c" using assms by (simp add: drop_bit_eq_div unat_div_distrib v)
  then show "unat (drop_bit 16 v XOR 0xffff) = n" using undo by (simp add: unsigned_xor_eq)
qed

lemma deflate_stored_round:
  assumes "dbs_ok s" "dbs_pending s = stored_bits pad bs @ rest" "length bs < 65536" "length bs \<le> length room"
    and "pad < 8" "8 dvd length rest"
  shows "\<exists>s'. deflate_stored s (out @ room) (length out) = Ok (length out + length bs, (out @ bs) @ drop (length bs) room, s')
    \<and> dbs_ok s' \<and> dbs_pending s' = rest"
proof -
  obtain k where "length rest = 8 * k" using assms(6) by (elim dvdE)
  then have "length (dbs_pending s) = pad + 8 * (4 + length bs + k)"
    using assms(2) by (simp add: stored_bits_def length_bitmap_bits)
  then have pad: "dbs_number_of_bits s = pad" using dbs_aligned [OF assms(1)] assms(5) by (simp only: mod_mult_self2 mod_less)
  have and7: "k AND 7 = k mod 8" for k :: nat using and_exp_eq_0_iff_not_bit take_bit_eq_mask [of 3 k] by (simp add: take_bit_eq_mod mask_eq_exp_minus_1)
  let ?t = "if 0 < pad then dbs_skip_bits pad s else s"
  let ?n = "length bs" and ?v = "push_bit 16 (length bs XOR 0xffff) OR length bs"
  have t: "dbs_ok ?t" "dbs_pending ?t = bits_of 32 ?v @ bitmap_bits bs @ rest"
    using dbs_skip_bits_pending [OF assms(1), of pad] assms(1,2,5) stored_sizes(1) [OF assms(3)]
    by (auto simp: stored_bits_def)
  obtain v t' where t': "dbs_get_value ?t 32 = (v, t')" "unat v = ?v" "dbs_ok t'" "dbs_pending t' = bitmap_bits bs @ rest"
    using dbs_number [OF t(1) _ stored_sizes(2) [OF assms(3)] t(2)] by auto
  note sizes = stored_sizes(3,4) [OF assms(3) t'(2)]
  have start: "deflate_stored s (out @ room) (length out) = (if 0 < ?n then
      and_then (dbs_copy_bytes ?n (out @ room) (length out) t') (\<lambda>(out', s'). Ok (length out + ?n, out', s')) else Ok (length out, out @ room, t'))"
    using assms(5) by (simp add: deflate_stored_def Let_def pad and7 t'(1) sizes)
  show ?thesis
  proof (cases "bs = []")
    case True
    then show ?thesis using start t' by simp
  next
    case False
    obtain s' where "dbs_copy_bytes ?n (out @ room) (length out) t' = Ok (out @ bs @ drop ?n room, s')" "dbs_ok s'" "dbs_pending s' = rest"
      using dbs_copy_bytes_pending [OF t'(3,4) assms(6,4)] by blast
    then show ?thesis using start False by simp
  qed
qed

section \<open>Fixed codes\<close>

definition fixed_literals :: "nat list" where
  "fixed_literals = replicate 144 8 @ replicate 112 9 @ replicate 24 7 @ replicate 8 8"

definition fixed_distances :: "nat list" where
  "fixed_distances = replicate 30 5"

lemma upt_replicate: "(\<And>i. a \<le> i \<Longrightarrow> i < b \<Longrightarrow> f i = c) \<Longrightarrow> map f [a..<b] = replicate (b - a) c"
  by (rule nth_equalityI) simp_all

lemma deflate_fixed_code_sizes: "map deflate_fixed_code_size [0..<318] = map of_nat (fixed_literals @ fixed_distances)"
proof -
  have "[0..<318 :: nat] = [0..<144] @ [144..<256] @ [256..<280] @ [280..<288] @ [288..<318]"
    using upt_add_eq_append [of 0 144 174] upt_add_eq_append [of 144 256 62] upt_add_eq_append [of 256 280 38] upt_add_eq_append [of 280 288 30]
    by (simp del: upt_rec_numeral)
  moreover have "map deflate_fixed_code_size [0..<144] = replicate (144 - 0) 8" "map deflate_fixed_code_size [144..<256] = replicate (256 - 144) 9"
    "map deflate_fixed_code_size [256..<280] = replicate (280 - 256) 7" "map deflate_fixed_code_size [280..<288] = replicate (288 - 280) 8"
    "map deflate_fixed_code_size [288..<318] = replicate (318 - 288) 5"
    by (rule upt_replicate; simp add: deflate_fixed_code_size_def)+
  ultimately show ?thesis by (simp add: fixed_literals_def fixed_distances_def del: upt_rec_numeral)
qed

lemma count_list_replicate: "count_list (replicate n x) y = (if x = y then n else 0)"
  by (induction n) auto

lemma huffman_sizes_full:
  assumes "\<forall>s \<in> set ss. s \<le> m" "m \<le> largest" "\<exists>s \<in> set ss. s \<noteq> 0" "\<forall>j \<in> {1..m}. first_code ss j + code_count ss j \<le> 2 ^ j"
  shows "huffman_sizes_ok largest ss"
proof -
  have "first_code ss (m + k) + code_count ss (m + k) \<le> 2 ^ (m + k)" if "0 < m + k" for k
    using that
  proof (induction k)
    case 0
    then show ?case using assms(4) by simp
  next
    case (Suc k)
    have "Suc (m + k) \<notin> set ss" using assms(1) by auto
    then have "code_count ss (Suc (m + k)) = 0" by (simp add: code_count_def count_list_0_iff)
    moreover have "first_code ss (m + k) + code_count ss (m + k) \<le> 2 ^ (m + k)"
      using Suc.IH by (cases "m + k = 0") (simp_all add: code_count_def)
    ultimately show ?case by simp
  qed
  then have "first_code ss j + code_count ss j \<le> 2 ^ j" if "0 < j" "\<not> j \<le> m" for j
    using that le_add_diff_inverse [of m j] by (metis nat_le_linear)
  then have "first_code ss j + code_count ss j \<le> 2 ^ j" if "0 < j" for j
    using that assms(4) by (cases "j \<le> m") auto
  with assms(1-3) show ?thesis by (auto simp: huffman_sizes_ok_def)
qed

lemma fixed_counts:
  "code_count fixed_literals k = (if k = 7 then 24 else if k = 8 then 152 else if k = 9 then 112 else 0)"
  "code_count fixed_distances k = (if k = 5 then 30 else 0)"
  by (simp_all add: code_count_def fixed_literals_def fixed_distances_def count_list_replicate)

lemma fixed_sizes_ok: "huffman_sizes_ok 15 fixed_literals" "huffman_sizes_ok 15 fixed_distances"
proof -
  have zero: "k \<le> 7 \<Longrightarrow> first_code fixed_literals k = 0" "k \<le> 5 \<Longrightarrow> first_code fixed_distances k = 0" for k
    by (induction k) (auto simp: fixed_counts)
  have "first_code fixed_literals (Suc 7) = 48" by (simp only: first_code.simps) (simp add: fixed_counts zero)
  then have f8: "first_code fixed_literals 8 = 48" by simp
  have "first_code fixed_literals (Suc 8) = 400" by (simp only: first_code.simps f8) (simp add: fixed_counts)
  then have f9: "first_code fixed_literals 9 = 400" by simp
  have "first_code fixed_literals j + code_count fixed_literals j \<le> 2 ^ j" if "j \<in> {1..9}" for j
  proof -
    from that consider "j < 7" | "j = 7" | "j = 8" | "j = 9" by fastforce
    then show ?thesis by cases (auto simp: zero f8 f9 fixed_counts)
  qed
  moreover have "first_code fixed_distances j + code_count fixed_distances j \<le> 2 ^ j" if "j \<in> {1..5}" for j
    using that by (cases "j = 5") (auto simp: zero fixed_counts)
  moreover have "set fixed_literals = {7, 8, 9}" "set fixed_distances = {5}" by (auto simp: fixed_literals_def fixed_distances_def)
  ultimately show "huffman_sizes_ok 15 fixed_literals" "huffman_sizes_ok 15 fixed_distances"
    using huffman_sizes_full [of fixed_literals 9 15] huffman_sizes_full [of fixed_distances 5 15] by auto
qed

text \<open>The context has no fixed trees yet, or those of the fixed codes.\<close>

definition deflate_ok :: "DeflateContext \<Rightarrow> bool" where
  "deflate_ok context \<longleftrightarrow> (if dfc_build_fixed_huffman_trees context
     then huffman_tree 15 fixed_literals (dfc_fixed_literals_huffman_tree context) \<and>
       huffman_tree 15 fixed_distances (dfc_fixed_distances_huffman_tree context)
     else dfc_fixed_literals_huffman_tree context = huffman_new 288 15 \<and> dfc_fixed_distances_huffman_tree context = huffman_new 30 15)"

lemma deflate_fixed_Ok:
  assumes "deflate_ok context"
  shows "\<exists>context'. deflate_fixed context = Ok context' \<and> deflate_ok context' \<and> dfc_build_fixed_huffman_trees context'"
proof (cases "dfc_build_fixed_huffman_trees context")
  case True
  then show ?thesis using assms by (simp add: deflate_fixed_def)
next
  case False
  have len: "length fixed_literals = 288" "length fixed_distances = 30" by (simp_all add: fixed_literals_def fixed_distances_def)
  have sub: "subslice 0 288 (map deflate_fixed_code_size [0..<318]) = map of_nat fixed_literals"
    "subslice 288 30 (map deflate_fixed_code_size [0..<318]) = map of_nat fixed_distances"
    unfolding deflate_fixed_code_sizes by (simp_all add: subslice_def len)
  have small: "\<forall>k \<in> set fixed_literals. k < 256" "\<forall>k \<in> set fixed_distances. k < 256"
    by (simp_all add: fixed_literals_def fixed_distances_def)
  obtain lt dt where "huffman_build (huffman_new 288 15) (map of_nat fixed_literals) = Ok lt" "huffman_tree 15 fixed_literals lt"
    "huffman_build (huffman_new 30 15) (map of_nat fixed_distances) = Ok dt" "huffman_tree 15 fixed_distances dt"
    using huffman_build_of_nat [OF fixed_sizes_ok(1) _ _ small(1), of 288] huffman_build_of_nat [OF fixed_sizes_ok(2) _ _ small(2), of 30]
    by (auto simp: len u16_limit_def)
  then show ?thesis
    using assms False by (simp add: deflate_fixed_def deflate_build_fixed_def deflate_ok_def sub del: upt_rec_numeral)
qed

end
