(* ===== verification/Deflate_Blocks.thy ===== *)
theory Deflate_Blocks
  imports Deflate_Format
begin

text \<open>
  Sequences of Deflate blocks: stored blocks, blocks with the fixed codes and blocks with codes of their
  own, as an encoder into bits, and that the loop over the blocks undoes it.
\<close>

section \<open>Blocks\<close>

datatype deflate_content = Stored_block "byte list" | Fixed_block "deflate_op list" | Dynamic_block deflate_codes "deflate_op list"

fun block_type_of :: "deflate_content \<Rightarrow> nat" where
  "block_type_of (Stored_block bs) = 0"
| "block_type_of (Fixed_block ops) = 1"
| "block_type_of (Dynamic_block c ops) = 2"

fun block_tokens :: "deflate_content \<Rightarrow> lz_token list" where
  "block_tokens (Stored_block bs) = [Lz_literal bs]"
| "block_tokens (Fixed_block ops) = ops_tokens ops"
| "block_tokens (Dynamic_block c ops) = ops_tokens ops"

fun block_valid :: "nat \<Rightarrow> deflate_content \<Rightarrow> bool" where
  "block_valid u (Stored_block bs) \<longleftrightarrow> length bs < 65536"
| "block_valid u (Fixed_block ops) \<longleftrightarrow> ops_valid fixed_literals fixed_distances u ops"
| "block_valid u (Dynamic_block c ops) \<longleftrightarrow> dc_valid c \<and> ops_valid (dc_literals c) (dc_distances c) u ops"

text \<open>The bits after the header of a block; \<open>p\<close> is their position.\<close>

fun block_bits :: "nat \<Rightarrow> deflate_content \<Rightarrow> bool list" where
  "block_bits p (Stored_block bs) = stored_bits ((8 - p mod 8) mod 8) bs"
| "block_bits p (Fixed_block ops) = ops_bits fixed_literals fixed_distances ops"
| "block_bits p (Dynamic_block c ops) = dc_bits c @ ops_bits (dc_literals c) (dc_distances c) ops"

definition encode_block :: "nat \<Rightarrow> bool \<Rightarrow> deflate_content \<Rightarrow> bool list" where
  "encode_block p final b = bits_of 3 (of_bool final + 2 * block_type_of b) @ block_bits (p + 3) b"

fun deflate_bits :: "nat \<Rightarrow> deflate_content list \<Rightarrow> bool list" where
  "deflate_bits p [] = []"
| "deflate_bits p (b # bs) = encode_block p (bs = []) b @ deflate_bits (p + length (encode_block p (bs = []) b)) bs"

fun blocks_valid :: "nat \<Rightarrow> deflate_content list \<Rightarrow> bool" where
  "blocks_valid u [] \<longleftrightarrow> True"
| "blocks_valid u (b # bs) \<longleftrightarrow> block_valid u b \<and> blocks_valid (u + lz_total (block_tokens b)) bs"

definition blocks_tokens :: "deflate_content list \<Rightarrow> lz_token list" where
  "blocks_tokens bs = concat (map block_tokens bs)"

lemma padding:
  assumes "8 dvd p + n"
  shows "(8 - p mod 8) mod 8 = n mod (8 :: nat)"
proof -
  have "(p mod 8 + n mod 8) mod 8 = 0" using assms by (simp add: mod_add_eq)
  then obtain k where k: "p mod 8 + n mod 8 = 8 * k" by (metis dvd_def mod_0_imp_dvd)
  have lt: "p mod 8 < 8" "n mod 8 < 8" by simp_all
  with k have "k = 0 \<or> k = 1" by linarith
  then have "p mod 8 + n mod 8 = 0 \<or> p mod 8 + n mod 8 = 8" using k by auto
  then show ?thesis using lt by auto
qed

lemma deflate_block_round:
  assumes "deflate_ok ctx" "block_valid (length out) b" "lz_total (block_tokens b) \<le> length room"
    and "dbs_ok s" "dbs_pending s = block_bits p b @ rest" "8 dvd p + length (dbs_pending s)"
  shows "\<exists>ctx' s'. deflate_block ctx (block_type_of b) (length out) (out @ room) s =
      Ok (ctx', length out + lz_total (block_tokens b), lz_expand_all (block_tokens b) out @ drop (lz_total (block_tokens b)) room, s')
    \<and> deflate_ok ctx' \<and> dbs_ok s' \<and> dbs_pending s' = rest"
proof (cases b)
  case (Stored_block bs)
  let ?pad = "(8 - p mod 8) mod 8"
  have len: "length (dbs_pending s) = ?pad + 8 * (4 + length bs) + length rest"
    using assms(5) Stored_block by (simp add: stored_bits_def length_bitmap_bits)
  have "?pad = length (dbs_pending s) mod 8" by (rule padding [OF assms(6)])
  then have "8 dvd p + ?pad" using assms(6) by (simp only: mod_add_right_eq dvd_eq_mod_eq_0)
  moreover have "8 dvd (p + ?pad) + (8 * (4 + length bs) + length rest)" using assms(6) unfolding len by (simp only: add.assoc)
  ultimately have "8 dvd 8 * (4 + length bs) + length rest" by (simp only: dvd_add_right_iff)
  then have "8 dvd length rest" by (simp only: dvd_add_right_iff dvd_triv_left)
  then obtain s' where "deflate_stored s (out @ room) (length out) = Ok (length out + length bs, (out @ bs) @ drop (length bs) room, s')"
    "dbs_ok s'" "dbs_pending s' = rest"
    using deflate_stored_round [of s ?pad bs rest room out] assms Stored_block by auto
  then show ?thesis using assms(1) Stored_block by (auto simp: deflate_block_def)
next
  case (Fixed_block ops)
  obtain ctx' where ctx': "deflate_fixed ctx = Ok ctx'" "deflate_ok ctx'" "dfc_build_fixed_huffman_trees ctx'"
    using deflate_fixed_Ok [OF assms(1)] by blast
  then have "huffman_tree 15 fixed_literals (dfc_fixed_literals_huffman_tree ctx')"
    "huffman_tree 15 fixed_distances (dfc_fixed_distances_huffman_tree ctx')" by (auto simp: deflate_ok_def)
  from deflate_huffman_loop_round [OF this, of out ops room s rest] assms Fixed_block ctx' show ?thesis
    by (auto simp: deflate_block_def)
next
  case (Dynamic_block c ops)
  then obtain lt dt t where t: "deflate_build_dynamic s = Ok (lt, dt, t)" "huffman_tree 15 (dc_literals c) lt" "huffman_tree 15 (dc_distances c) dt"
    "dbs_ok t" "dbs_pending t = ops_bits (dc_literals c) (dc_distances c) ops @ rest"
    using deflate_build_dynamic_round [of c s "ops_bits (dc_literals c) (dc_distances c) ops @ rest"] assms(2,4,5) by auto
  from deflate_huffman_loop_round [OF t(2,3), of out ops room t rest] assms(1-3) Dynamic_block t show ?thesis
    by (auto simp: deflate_block_def)
qed

lemma encode_block_length:
  assumes "block_valid u b"
  shows "8 \<le> length (encode_block p final b)"
proof (cases b)
  case (Fixed_block ops)
  have "length (canonical_code fixed_literals 256) = 7" by (simp add: canonical_code_def fixed_literals_def nth_append)
  then show ?thesis using Fixed_block by (simp add: encode_block_def ops_bits_def)
qed (simp_all add: encode_block_def stored_bits_def dc_bits_def)

lemma deflate_header_round:
  assumes "dbs_ok s" "dbs_pending s = bits_of 3 (of_bool final + 2 * k) @ rest" "k < 4"
  shows "\<exists>header t. deflate_read_block_header s = (header, t) \<and> dbh_block_type header = k \<and> (dbh_last_block_flag header \<noteq> 0 \<longleftrightarrow> final)
    \<and> dbs_ok t \<and> dbs_pending t = rest"
proof -
  have "of_bool final + 2 * k < (2 :: nat) ^ 3" using assms(3) by (cases final) auto
  then obtain v t where t: "dbs_get_value s 3 = (v, t)" "unat v = of_bool final + 2 * k" "dbs_ok t" "dbs_pending t = rest"
    using dbs_number [OF assms(1) _ _ assms(2)] by auto
  have "unat (drop_bit 1 v) = k" using t(2) by (cases final) (simp_all add: drop_bit_eq_div unat_div_distrib)
  moreover have "unat (v AND 1) \<noteq> 0 \<longleftrightarrow> final"
  proof -
    have "unat (v AND 1) \<noteq> 0 \<longleftrightarrow> odd v" by (simp add: unsigned_eq_0_iff and_one_eq odd_iff_mod_2_eq_one)
    also have "\<dots> \<longleftrightarrow> odd (unat v)" by (simp flip: bit_0 add: bit_unsigned_iff)
    finally show ?thesis using t(2) by simp
  qed
  ultimately show ?thesis using t by (auto simp: deflate_read_block_header_def)
qed

lemma deflate_loop_round:
  assumes "bs \<noteq> []" "deflate_ok ctx" "blocks_valid (length out) bs" "lz_total (blocks_tokens bs) \<le> length room"
    and "dbs_ok s" "dbs_pending s = deflate_bits p bs @ rest" "8 dvd p + length (dbs_pending s)"
  shows "\<exists>ctx' s'. deflate_loop ctx (length out) (out @ room) s =
      Ok (ctx', length out + lz_total (blocks_tokens bs), lz_expand_all (blocks_tokens bs) out @ drop (lz_total (blocks_tokens bs)) room, s')
    \<and> deflate_ok ctx' \<and> dbs_ok s' \<and> dbs_pending s' = rest"
  using assms
proof (induction bs arbitrary: ctx out room s p)
  case (Cons b bs)
  let ?e = "encode_block p (bs = []) b" and ?n = "lz_total (block_tokens b)" and ?out = "lz_expand_all (block_tokens b) out"
  define tail where "tail = deflate_bits (p + length ?e) bs @ rest"
  have pend: "dbs_pending s = bits_of 3 (of_bool (bs = []) + 2 * block_type_of b) @ block_bits (p + 3) b @ tail"
    using Cons.prems(6) by (simp add: encode_block_def tail_def)
  have "8 \<le> length (dbs_pending s)"
    using encode_block_length [of "length out" b p "bs = []"] Cons.prems(3) by (simp add: pend encode_block_def)
  then have go: "dbs_data_offset s < dbs_data_size s"
    using Cons.prems(5) by (intro ccontr [of "_ < _"]) (simp add: dbs_pending_def dbs_ok_def dbs_data_size_def)
  have "block_type_of b < 4" by (cases b) simp_all
  then obtain header t where t: "deflate_read_block_header s = (header, t)" "dbh_block_type header = block_type_of b"
    "dbh_last_block_flag header \<noteq> 0 \<longleftrightarrow> bs = []" "dbs_ok t" "dbs_pending t = block_bits (p + 3) b @ tail"
    using deflate_header_round [OF Cons.prems(5) pend] by blast
  have "length (dbs_pending s) = 3 + length (dbs_pending t)" by (simp add: pend t(5))
  then have dvd: "8 dvd (p + 3) + length (dbs_pending t)" using Cons.prems(7) by (simp add: add.assoc)
  obtain ctx' s' where s': "deflate_block ctx (block_type_of b) (length out) (out @ room) t =
      Ok (ctx', length out + ?n, ?out @ drop ?n room, s')" "deflate_ok ctx'" "dbs_ok s'" "dbs_pending s' = tail"
    using deflate_block_round [OF Cons.prems(2) _ _ t(4,5) dvd, of out room] Cons.prems(3,4) by (auto simp: blocks_tokens_def)
  have step: "deflate_loop ctx (length out) (out @ room) s =
      (if bs = [] then Ok (ctx', length out + ?n, ?out @ drop ?n room, s')
       else deflate_loop ctx' (length out + ?n) (?out @ drop ?n room) s')"
    using go t(1-3) s'(1) by (simp add: deflate_loop.simps [of ctx "length out" "out @ room" s])
  show ?case
  proof (cases "bs = []")
    case True
    then show ?thesis using step s' by (simp add: blocks_tokens_def tail_def)
  next
    case False
    have "length (dbs_pending s) = length ?e + length (dbs_pending s')" by (simp add: pend s'(4) encode_block_def)
    then have "8 dvd (p + length ?e) + length (dbs_pending s')" using Cons.prems(7) by (simp add: add.assoc)
    then have "\<exists>ctx'' s''. deflate_loop ctx' (length ?out) (?out @ drop ?n room) s' =
        Ok (ctx'', length ?out + lz_total (blocks_tokens bs), lz_expand_all (blocks_tokens bs) ?out @ drop (lz_total (blocks_tokens bs)) (drop ?n room), s'')
      \<and> deflate_ok ctx'' \<and> dbs_ok s'' \<and> dbs_pending s'' = rest"
      using False Cons.prems(3,4) s' by (intro Cons.IH) (auto simp: tail_def blocks_tokens_def)
    then show ?thesis using step False by (simp add: blocks_tokens_def lz_expand_all_append ac_simps)
  qed
qed simp

lemma deflate_ok_new: "deflate_ok deflate_new"
  by (simp add: deflate_ok_def deflate_new_def)

section \<open>Properties\<close>

text \<open>
  (C22) The decompressor undoes the Deflate format: data that begins with the encoding of a sequence of stored
  blocks, blocks with the fixed codes and blocks with codes of their own decompresses to the expansion of
  their literals and matches, whatever follows, when the buffer is large enough; the rest of the buffer
  is kept.
\<close>

theorem deflate_round_trip:
  assumes "deflate_ok ctx" "bs \<noteq> []" "blocks_valid 0 bs" "lz_total (blocks_tokens bs) \<le> length buffer"
    and "bitmap_bits data = deflate_bits 0 bs @ rest"
  shows "\<exists>ctx'. deflate_decompress ctx data buffer =
      Ok (ctx', lz_expand_all (blocks_tokens bs) [] @ drop (lz_total (blocks_tokens bs)) buffer)
    \<and> deflate_ok ctx' \<and> dfc_uncompressed_data_size ctx' = lz_total (blocks_tokens bs)"
proof -
  have "dbs_pending (dbs_new data 0) = deflate_bits 0 bs @ rest" using assms(5) by (simp add: dbs_new_ok)
  moreover have "8 dvd 0 + length (dbs_pending (dbs_new data 0))" by (simp add: dbs_new_ok length_bitmap_bits)
  ultimately obtain ctx' s' where "deflate_loop ctx 0 buffer (dbs_new data 0) =
      Ok (ctx', lz_total (blocks_tokens bs), lz_expand_all (blocks_tokens bs) [] @ drop (lz_total (blocks_tokens bs)) buffer, s')" "deflate_ok ctx'"
    using deflate_loop_round [OF assms(2,1), of "[]" buffer "dbs_new data 0" 0 rest] assms(3,4) dbs_new_ok(1) [of 0 data] by auto
  then show ?thesis by (simp add: deflate_decompress_def deflate_decompress_bitstream_def deflate_ok_def)
qed

text \<open>A stored block with the letter A, then an empty block with the fixed codes.\<close>

definition deflate_sample :: "byte list" where
  "deflate_sample = [0x00, 0x01, 0x00, 0xfe, 0xff, 0x41, 0x03, 0x00]"

lemma fixed_end_of_block: "canonical_code fixed_literals 256 = [False, False, False, False, False, False, False]" "has_code fixed_literals 256"
proof -
  have e: "fixed_literals ! 256 = 7" "length fixed_literals = 288" by (simp_all add: fixed_literals_def nth_append)
  have "k \<le> 7 \<Longrightarrow> first_code fixed_literals k = 0" for k by (induction k) (auto simp: fixed_counts)
  moreover have "take 256 fixed_literals = replicate 144 8 @ replicate 112 9" by (simp add: fixed_literals_def)
  then have "count_list (take 256 fixed_literals) 7 = 0" by (simp add: count_list_replicate)
  ultimately have "canonical_value fixed_literals 256 = 0" by (simp add: canonical_value_def e)
  then show "canonical_code fixed_literals 256 = [False, False, False, False, False, False, False]"
    by (simp add: canonical_code_def e bits_of_def upt_rec)
  show "has_code fixed_literals 256" by (simp add: has_code_def e)
qed

lemma deflate_sample_bits: "bitmap_bits deflate_sample = deflate_bits 0 [Stored_block [0x41], Fixed_block []] @ replicate 6 False"
proof -
  have r: "replicate 5 False = [False, False, False, False, False]" "replicate 6 False = [False, False, False, False, False, False]"
    by (simp_all add: eval_nat_numeral)
  have "stored_bits 5 [0x41] = replicate 5 False @ bitmap_bits [1, 0, 0xfe, 0xff, 0x41]"
    by (simp add: stored_bits_def bits_of_step bitmap_bits_def del: bitmap_bits_simps)
  then have stored: "encode_block 0 False (Stored_block [0x41]) = bitmap_bits [0, 1, 0, 0xfe, 0xff, 0x41]"
    by (simp add: encode_block_def bits_of_step r bitmap_bits_def del: bitmap_bits_simps)
  have fixed: "encode_block p True (Fixed_block []) @ replicate 6 False = bitmap_bits [3, 0]" for p
    by (simp add: encode_block_def ops_bits_def fixed_end_of_block bits_of_step r bitmap_bits_def del: bitmap_bits_simps)
  have "deflate_sample = [0, 1, 0, 0xfe, 0xff, 0x41] @ [3, 0]" by (simp add: deflate_sample_def)
  then have "bitmap_bits deflate_sample = bitmap_bits [0, 1, 0, 0xfe, 0xff, 0x41] @ bitmap_bits [3, 0]"
    by (rule trans [OF arg_cong [of _ _ bitmap_bits] bitmap_bits_simps(3)])
  also have "\<dots> = deflate_bits 0 [Stored_block [0x41], Fixed_block []] @ replicate 6 False"
    unfolding stored [symmetric] fixed [of "length (encode_block 0 False (Stored_block [0x41]))", symmetric] by simp
  finally show ?thesis .
qed

theorem deflate_round_trip_witness:
  "\<exists>ctx'. deflate_decompress deflate_new deflate_sample [0, 0] = Ok (ctx', [0x41, 0])"
  using deflate_round_trip [OF deflate_ok_new _ _ _ deflate_sample_bits, of "[0, 0]"]
  by (auto simp: blocks_tokens_def ops_tokens_def fixed_end_of_block lz_total_def)

end
