(* ===== verification/Deflate_Safety.thy ===== *)
theory Deflate_Safety
  imports Deflate_Blocks
begin

text \<open>
  That no input makes the Deflate decompressor panic: every read of a code or of bits keeps the bit stream
  well formed, the trees that a block defines stay within their tables, and a match is copied within the
  buffer only after its distance and its size are checked.
\<close>

section \<open>Absence of panics\<close>

lemma huffman_build_safe:
  assumes "length code_sizes \<le> n" "length code_sizes < u16_limit"
  shows "no_panic (huffman_build (huffman_new n 15) code_sizes)"
    "huffman_build (huffman_new n 15) code_sizes = Ok tree \<Longrightarrow> huffman_tree 15 (code_sizes_of code_sizes) tree"
  using huffman_build_exact [OF assms, of 15] by (auto split: if_splits)

lemma dbs_decode_safe:
  assumes "huffman_tree 15 ss tree" "dbs_ok s"
  shows "no_panic (huffman_decode_symbol dbs_get_value tree s)"
    "huffman_decode_symbol dbs_get_value tree s = Ok (n, s') \<Longrightarrow> n < length ss \<and> dbs_ok s'"
  using dbs.decode_symbol_safe [OF assms] by auto

lemma dbs_get_ok: "dbs_get_value s n = (v, s') \<Longrightarrow> dbs_ok s \<Longrightarrow> n \<le> 32 \<Longrightarrow> dbs_ok s'"
  by (rule dbs_get_value_laws(1))

lemma deflate_repeat_safe:
  "i + k \<le> length cs \<Longrightarrow> \<exists>cs'. deflate_repeat k c i cs = Ok cs' \<and> length cs' = length cs"
  by (induction k c i cs rule: deflate_repeat.induct) auto

lemma deflate_repeat_count_ok: "deflate_repeat_count symbol s = (n, s') \<Longrightarrow> dbs_ok s \<Longrightarrow> dbs_ok s'"
  by (auto simp: deflate_repeat_count_def split: if_splits prod.split_asm dest: dbs_get_ok)

lemma deflate_codes_loop_safe:
  assumes "huffman_tree 15 ss tree" "n \<le> length cs" "dbs_ok s"
  shows "no_panic (deflate_codes_loop tree n i cs s) \<and>
    (\<forall>cs' s'. deflate_codes_loop tree n i cs s = Ok (cs', s') \<longrightarrow> length cs' = length cs \<and> dbs_ok s')"
  using assms(2,3)
proof (induction "n - i" arbitrary: i cs s rule: less_induct)
  case less
  note unfold = deflate_codes_loop.simps [of tree n i cs s]
  show ?case
  proof (cases "i < n \<and> (\<exists>symbol t. huffman_decode_symbol dbs_get_value tree s = Ok (symbol, t))")
    case False
    have "no_panic (huffman_decode_symbol dbs_get_value tree s)" by (rule dbs_decode_safe(1) [OF assms(1) less.prems(2)])
    with False less.prems show ?thesis
      by (cases "huffman_decode_symbol dbs_get_value tree s") (auto simp: unfold)
  next
    case True
    then obtain symbol t where t: "huffman_decode_symbol dbs_get_value tree s = Ok (symbol, t)" and i: "i < n" by blast
    have ok: "dbs_ok t" using dbs_decode_safe(2) [OF assms(1) less.prems(2) t] by simp
    obtain k t' where t': "deflate_repeat_count symbol t = (k, t')" by (cases "deflate_repeat_count symbol t")
    have IH1: "no_panic (deflate_codes_loop tree n (i + 1) cs2 t) \<and>
        (\<forall>cs' s'. deflate_codes_loop tree n (i + 1) cs2 t = Ok (cs', s') \<longrightarrow> length cs' = length cs \<and> dbs_ok s')"
      if "length cs2 = length cs" for cs2
      using less.hyps [of "i + 1" cs2 t] i less.prems(1) ok that by simp
    have IH2: "no_panic (deflate_codes_loop tree n (i + k) cs2 t') \<and>
        (\<forall>cs' s'. deflate_codes_loop tree n (i + k) cs2 t' = Ok (cs', s') \<longrightarrow> length cs' = length cs \<and> dbs_ok s')"
      if "length cs2 = length cs" for cs2
      using less.hyps [of "i + k" cs2 t'] i less.prems(1) deflate_repeat_count_ok [OF t' ok] deflate_repeat_count_pos [OF t'] that by simp
    show ?thesis
    proof (cases "symbol < 16")
      case small: True
      then have eq: "deflate_codes_loop tree n i cs s = deflate_codes_loop tree n (i + 1) (cs[i := of_nat symbol]) t"
        using i t less.prems(1) by (simp add: unfold)
      show ?thesis unfolding eq by (rule IH1) simp
    next
      case F: False
      define c where "c = (if symbol = 16 then cs ! (i - 1) else 0)"
      have eq: "deflate_codes_loop tree n i cs s = (if i = 0 \<and> symbol = 16 then Err (Compression_error Deflate_code_size_index)
          else if 18 < symbol then Err (Compression_error Deflate_code_size_symbol)
          else if n < i + k then Err (Compression_error Deflate_times_to_repeat)
          else and_then (deflate_repeat k c i cs) (\<lambda>cs. deflate_codes_loop tree n (i + k) cs t'))"
        using i t t' F by (simp add: unfold c_def Let_def)
      show ?thesis
      proof (cases "n < i + k")
        case False
        then obtain cs2 where "deflate_repeat k c i cs = Ok cs2" "length cs2 = length cs"
          using deflate_repeat_safe [of i k cs c] less.prems(1) by auto
        then have "deflate_codes_loop tree n i cs s = deflate_codes_loop tree n (i + k) cs2 t' \<or>
            (\<exists>e. deflate_codes_loop tree n i cs s = Err (Compression_error e))"
          unfolding eq by auto
        then show ?thesis using IH2 [OF \<open>length cs2 = length cs\<close>] by (elim disjE exE) (simp_all only: no_panic_Err, blast+)
      qed (simp add: eq)
    qed
  qed
qed

lemma deflate_read_sizes_safe:
  "deflate_read_sizes is cs s = (cs', s') \<Longrightarrow> dbs_ok s \<Longrightarrow> length cs' = length cs \<and> dbs_ok s'"
  by (induction "is" cs s rule: deflate_read_sizes.induct) (auto split: prod.split_asm dest: dbs_get_ok)

lemma deflate_build_dynamic_safe:
  assumes "dbs_ok s"
  shows "no_panic (deflate_build_dynamic s)"
    "deflate_build_dynamic s = Ok (lt, dt, s') \<Longrightarrow> dbs_ok s' \<and> (\<exists>ls. huffman_tree 15 ls lt) \<and> (\<exists>ds. huffman_tree 15 ds dt \<and> length ds \<le> 30)"
proof -
  obtain v t where t: "dbs_get_value s 14 = (v, t)" by (cases "dbs_get_value s 14")
  define nl where "nl = unat (v AND 0x1f) + 257"
  define nd where "nd = unat (drop_bit 5 v AND 0x1f) + 1"
  define ns where "ns = unat (drop_bit 5 (drop_bit 5 v)) + 4"
  obtain cs t' where t': "deflate_read_sizes (take ns deflate_code_sizes_sequence) (replicate 316 0) t = (cs, t')"
    by (cases "deflate_read_sizes (take ns deflate_code_sizes_sequence) (replicate 316 0) t")
  define cs2 where "cs2 = deflate_clear_sizes (drop ns deflate_code_sizes_sequence) cs"
  have ok: "dbs_ok t'" "length cs2 = 316"
    using deflate_read_sizes_safe [OF t' dbs_get_ok [OF t assms]] deflate_clear_sizes_nth [of "drop ns deflate_code_sizes_sequence" cs]
    by (simp_all add: cs2_def)
  have eq: "deflate_build_dynamic s = (if 286 < nl then Err (Compression_error Deflate_number_of_literal_codes)
      else if 30 < nd then Err (Compression_error Deflate_number_of_distance_codes)
      else and_then (huffman_build (huffman_new 19 15) (subslice 0 19 cs2)) (\<lambda>tree.
        and_then (deflate_codes_loop tree (nl + nd) 0 cs2 t') (\<lambda>(cs, s').
          if cs ! 256 = 0 then Err (Compression_error Deflate_end_of_block_missing)
          else and_then (huffman_build (huffman_new 288 15) (subslice 0 nl cs)) (\<lambda>lt.
            and_then (huffman_build (huffman_new 30 15) (subslice nl nd cs)) (\<lambda>dt. Ok (lt, dt, s'))))))"
    unfolding deflate_build_dynamic_def Let_def t prod.case nl_def [symmetric] nd_def [symmetric] ns_def [symmetric] t' cs2_def [symmetric] by simp
  have sub: "length (subslice 0 19 cs2) = 19" using ok(2) by (simp add: subslice_def)
  note codes = huffman_build_safe [of "subslice 0 19 cs2" 19, unfolded sub u16_limit_def]
  have loop: "no_panic (deflate_codes_loop tree (nl + nd) 0 cs2 t') \<and>
      (\<forall>cs' s'. deflate_codes_loop tree (nl + nd) 0 cs2 t' = Ok (cs', s') \<longrightarrow> length cs' = 316 \<and> dbs_ok s')"
    if "huffman_build (huffman_new 19 15) (subslice 0 19 cs2) = Ok tree" "nl \<le> 286" "nd \<le> 30" for tree
    using deflate_codes_loop_safe [of "code_sizes_of (subslice 0 19 cs2)" tree "nl + nd" cs2 t' 0] codes(2) [of tree] that ok by simp
  have build: "no_panic (huffman_build (huffman_new 288 15) (subslice 0 nl cs'))"
    "no_panic (huffman_build (huffman_new 30 15) (subslice nl nd cs'))"
    "huffman_build (huffman_new 288 15) (subslice 0 nl cs') = Ok lt \<Longrightarrow> \<exists>ls. huffman_tree 15 ls lt"
    "huffman_build (huffman_new 30 15) (subslice nl nd cs') = Ok dt \<Longrightarrow> \<exists>ds. huffman_tree 15 ds dt \<and> length ds \<le> 30"
    if "nl \<le> 286" "nd \<le> 30" for cs' lt dt
    using that huffman_build_safe [of "subslice 0 nl cs'" 288] huffman_build_safe [of "subslice nl nd cs'" 30]
    by (force simp: subslice_def u16_limit_def code_sizes_of_def)+
  show "no_panic (deflate_build_dynamic s)"
    unfolding eq using codes(1) loop build(1,2)
    by (auto intro!: no_panic_and_then)
  show "dbs_ok s' \<and> (\<exists>ls. huffman_tree 15 ls lt) \<and> (\<exists>ds. huffman_tree 15 ds dt \<and> length ds \<le> 30)"
    if "deflate_build_dynamic s = Ok (lt, dt, s')"
    using that loop build(3,4) unfolding eq by (auto simp: result_simps split: if_splits)
qed

lemma deflate_match_safe:
  assumes "huffman_tree 15 ds dt" "length ds \<le> 30" "symbol < 29" "dbs_ok s"
  shows "no_panic (deflate_match dt symbol s)" "deflate_match dt symbol s = Ok (n, d, s') \<Longrightarrow> dbs_ok s' \<and> 1 \<le> d"
proof -
  obtain v t where t: "dbs_get_value s (deflate_literal_codes_extra ! symbol) = (v, t)"
    by (cases "dbs_get_value s (deflate_literal_codes_extra ! symbol)")
  have ok: "dbs_ok t" using dbs_get_ok [OF t assms(4)] deflate_extra_bound(1) [OF assms(3)] by simp
  have len: "length deflate_distance_codes_extra = 30" by (simp add: deflate_distance_codes_extra_def)
  note decode = dbs_decode_safe [OF assms(1) ok]
  show "no_panic (deflate_match dt symbol s)"
    unfolding deflate_match_def t prod.case Let_def using decode assms(2)
    by (auto intro!: no_panic_and_then simp: len split: prod.splits)
  show "dbs_ok s' \<and> 1 \<le> d" if m: "deflate_match dt symbol s = Ok (n, d, s')"
  proof -
    from m obtain k t' where t': "huffman_decode_symbol dbs_get_value dt t = Ok (k, t')"
      by (auto simp: deflate_match_def t result_simps Let_def)
    obtain v' t'' where t'': "dbs_get_value t' (deflate_distance_codes_extra ! k) = (v', t'')"
      by (cases "dbs_get_value t' (deflate_distance_codes_extra ! k)")
    have k: "k < 30" "dbs_ok t'" using decode(2) [OF t'] assms(2) by auto
    from m have "s' = t''" "d = deflate_distance_codes_base ! k + unat v'" by (auto simp: deflate_match_def t t' t'' Let_def split: if_splits)
    then show ?thesis using dbs_get_ok [OF t'' k(2)] deflate_extra_bound(2,3) [OF k(1)] by simp
  qed
qed

lemma deflate_huffman_loop_safe:
  assumes trees: "huffman_tree 15 ls lt" "huffman_tree 15 ds dt" "length ds \<le> 30" and "u \<le> length out" "dbs_ok s"
  shows "no_panic (deflate_huffman_loop lt dt u out s) \<and> (\<forall>u' out' s'. deflate_huffman_loop lt dt u out s = Ok (u', out', s') \<longrightarrow>
    u' \<le> length out' \<and> length out' = length out \<and> dbs_ok s')"
  using assms(4,5)
proof (induction "length out - u" arbitrary: u out s rule: less_induct)
  case less
  note unfold = deflate_huffman_loop.simps [of lt dt u out s]
  note decode = dbs_decode_safe [OF trees(1) less.prems(2)]
  show ?case
  proof (cases "huffman_decode_symbol dbs_get_value lt s")
    case (Inl e)
    then show ?thesis using decode(1) by (simp add: unfold)
  next
    case (Inr r)
    then obtain symbol t where t: "huffman_decode_symbol dbs_get_value lt s = Ok (symbol, t)" by (cases r) auto
    have ok: "dbs_ok t" using decode(2) [OF t] by simp
    consider "symbol = 256 \<or> 286 \<le> symbol" | "symbol < 256" | "256 < symbol" "symbol < 286" by linarith
    then show ?thesis
    proof cases
      case 1
      then show ?thesis using t ok less.prems(1) by (auto simp: unfold)
    next
      case 2
      show ?thesis
      proof (cases "u < length out")
        case True
        then have eq: "deflate_huffman_loop lt dt u out s = deflate_huffman_loop lt dt (u + 1) (out[u := of_nat symbol]) t"
          using t 2 by (simp add: unfold)
        have "length (out[u := of_nat symbol :: byte]) - (u + 1) < length out - u" using True by simp
        moreover have "u + 1 \<le> length (out[u := of_nat symbol :: byte])" using True by simp
        ultimately show ?thesis unfolding eq using less.hyps [OF _ _ ok] by (metis length_list_update)
      qed (use t 2 in \<open>simp add: unfold\<close>)
    next
      case 3
      have i: "symbol - 257 < 29" using 3 by linarith
      note match = deflate_match_safe [OF trees(2,3) i ok]
      have sub: "sub_u64 (length out) u = Ok (length out - u)" using less.prems(1) by (simp add: sub_u64_def)
      have eq: "deflate_huffman_loop lt dt u out s = and_then (deflate_match dt (symbol - 257) t) (\<lambda>(n, d, t').
          if u < d then Err (Compression_error Deflate_compression_offset)
          else if length out - u < n then Err (Compression_error Deflate_compression_size)
          else and_then (copy_match n (u - d) u out) (\<lambda>out'. deflate_huffman_loop lt dt (u + n) out' t'))"
      proof -
        have "deflate_huffman_loop lt dt u out s = and_then (deflate_match dt (symbol - 257) t) (\<lambda>(n, d, t').
          if u < d then Err (Compression_error Deflate_compression_offset)
          else and_then (sub_u64 (length out) u) (\<lambda>left. if left < n then Err (Compression_error Deflate_compression_size)
            else and_then (copy_match n (u - d) u out) (\<lambda>out'. deflate_huffman_loop lt dt (u + n) out' t')))"
          using t 3 by (simp add: unfold)
        then show ?thesis unfolding sub and_then_Ok .
      qed
      have rec: "no_panic (deflate_huffman_loop lt dt (u + n) out2 t') \<and> (\<forall>u' out' s'. deflate_huffman_loop lt dt (u + n) out2 t' = Ok (u', out', s') \<longrightarrow>
          u' \<le> length out' \<and> length out' = length out \<and> dbs_ok s')"
        if "deflate_match dt (symbol - 257) t = Ok (n, d, t')" "\<not> length out - u < n" "copy_match n (u - d) u out = Ok out2" for n d t' out2
      proof -
        have len: "length out2 = length out" "0 < n" "dbs_ok t'"
          using match(2) [OF that(1)] deflate_match_size [OF that(1) i] copy_match_length [OF that(3)] by auto
        then have "length out2 - (u + n) < length out - u" "u + n \<le> length out2" using that(2) less.prems(1) by auto
        from less.hyps [OF this len(3)] show ?thesis unfolding len(1) .
      qed
      show ?thesis
      proof (cases "deflate_match dt (symbol - 257) t")
        case (Inl e)
        then show ?thesis unfolding eq using match(1) by simp
      next
        case (Inr r)
        then obtain n d t' where m: "deflate_match dt (symbol - 257) t = Ok (n, d, t')" by (cases r) auto
        have copy: "no_panic (copy_match n (u - d) u out)" if "\<not> length out - u < n"
          using that less.prems(1) by (intro copy_match_no_panic) auto
        show ?thesis
        proof (cases "u < d \<or> length out - u < n")
          case False
          show ?thesis
          proof (cases "copy_match n (u - d) u out")
            case (Inl e)
            then show ?thesis unfolding eq m using copy False by simp
          next
            case (Inr out2)
            then have "deflate_huffman_loop lt dt u out s = deflate_huffman_loop lt dt (u + n) out2 t'" unfolding eq m using False by simp
            then show ?thesis using rec [OF m _ Inr] False by metis
          qed
        qed (auto simp: eq m)
      qed
    qed
  qed
qed

lemma deflate_stored_safe:
  assumes "dbs_ok s" "u \<le> length out"
  shows "no_panic (deflate_stored s out u)"
    "deflate_stored s out u = Ok (u', out', s') \<Longrightarrow> u' \<le> length out' \<and> length out' = length out \<and> dbs_ok s'"
proof -
  have seven: "k AND 7 \<le> (24 :: nat)" for k using take_bit_nat_less_exp [of 3 k] take_bit_eq_mask [of 3 k] by (simp add: mask_eq_exp_minus_1)
  define t where "t = (if 0 < dbs_number_of_bits s AND 0x07 then dbs_skip_bits (dbs_number_of_bits s AND 0x07) s else s)"
  have t: "dbs_ok t" using assms(1) dbs_skip_bits_pending(1) [OF assms(1) seven] by (simp add: t_def)
  obtain v t' where t': "dbs_get_value t 32 = (v, t')" by (cases "dbs_get_value t 32")
  have ok: "dbs_ok t'" using dbs_get_ok [OF t' t] by simp
  have copy: "no_panic (dbs_copy_bytes n out u t')"
    "dbs_copy_bytes n out u t' = Ok (out', s') \<Longrightarrow> u + n \<le> length out' \<and> length out' = length out \<and> dbs_ok s'" for n out' s'
    using ok by (auto simp: dbs_copy_bytes_def Let_def write_slice_def subslice_def dbs_ok_def dbs_clean_def dbs_data_size_def split: if_splits)
  show "no_panic (deflate_stored s out u)"
    unfolding deflate_stored_def Let_def t_def [symmetric] t' prod.case using copy(1) by (auto intro!: no_panic_and_then)
  show "u' \<le> length out' \<and> length out' = length out \<and> dbs_ok s'" if "deflate_stored s out u = Ok (u', out', s')"
    using that copy(2) ok assms(2) unfolding deflate_stored_def Let_def t_def [symmetric] t' prod.case
    by (auto simp: result_simps split: if_splits)
qed

lemma deflate_block_safe:
  assumes "deflate_ok ctx" "u \<le> length out" "dbs_ok s"
  shows "no_panic (deflate_block ctx k u out s)"
    "deflate_block ctx k u out s = Ok (ctx', u', out', s') \<Longrightarrow>
      deflate_ok ctx' \<and> u' \<le> length out' \<and> length out' = length out \<and> dbs_ok s'"
proof -
  obtain ctx2 where ctx2: "deflate_fixed ctx = Ok ctx2" "deflate_ok ctx2" "dfc_build_fixed_huffman_trees ctx2"
    using deflate_fixed_Ok [OF assms(1)] by blast
  have "huffman_tree 15 fixed_literals (dfc_fixed_literals_huffman_tree ctx2)"
    "huffman_tree 15 fixed_distances (dfc_fixed_distances_huffman_tree ctx2)" "length fixed_distances \<le> 30"
    using ctx2 by (simp_all add: deflate_ok_def) (simp add: fixed_distances_def)
  note fixed = deflate_huffman_loop_safe [OF this assms(2,3)]
  note stored = deflate_stored_safe [OF assms(3,2)]
  note dynamic = deflate_build_dynamic_safe [OF assms(3)]
  have block: "no_panic (deflate_huffman_loop lt dt u out t) \<and> (\<forall>u' out' s'. deflate_huffman_loop lt dt u out t = Ok (u', out', s') \<longrightarrow>
      u' \<le> length out' \<and> length out' = length out \<and> dbs_ok s')" if d: "deflate_build_dynamic s = Ok (lt, dt, t)" for lt dt t
  proof -
    from dynamic(2) [OF d] obtain ls ds where "huffman_tree 15 ls lt" "huffman_tree 15 ds dt" "length ds \<le> 30" "dbs_ok t" by blast
    then show ?thesis using deflate_huffman_loop_safe [of ls lt ds dt u out t] assms(2) by blast
  qed
  have two: "no_panic (and_then (deflate_build_dynamic s) (\<lambda>(lt, dt, t). and_then (deflate_huffman_loop lt dt u out t) (\<lambda>r. Ok (ctx, r))))"
  proof (rule no_panic_and_then [OF dynamic(1)])
    fix x
    assume x: "deflate_build_dynamic s = Ok x"
    obtain lt dt t where "x = (lt, dt, t)" by (cases x) auto
    then show "no_panic (case x of (lt, dt, t) \<Rightarrow> and_then (deflate_huffman_loop lt dt u out t) (\<lambda>r. Ok (ctx, r)))"
      using block x by (simp add: no_panic_and_then)
  qed
  have one: "no_panic (and_then (deflate_huffman_loop (dfc_fixed_literals_huffman_tree ctx2) (dfc_fixed_distances_huffman_tree ctx2) u out s)
      (\<lambda>r. Ok (ctx2, r)))"
    using fixed by (intro no_panic_and_then) auto
  have zero: "no_panic (and_then (deflate_stored s out u) (\<lambda>r. Ok (ctx, r)))" using stored(1) by (intro no_panic_and_then) auto
  show "no_panic (deflate_block ctx k u out s)"
    unfolding deflate_block_def ctx2(1) and_then_Ok using zero one two by simp
  show "deflate_ok ctx' \<and> u' \<le> length out' \<and> length out' = length out \<and> dbs_ok s'"
    if b: "deflate_block ctx k u out s = Ok (ctx', u', out', s')"
  proof -
    consider "k = 0" | "k = 1" | "k = 2"
      using b by (cases "k = 0 \<or> k = 1 \<or> k = 2") (auto simp: deflate_block_def)
    then show ?thesis
    proof cases
      case 1
      with b have "deflate_stored s out u = Ok (u', out', s')" "ctx' = ctx" by (auto simp: deflate_block_def and_then_eq_Ok)
      then show ?thesis using stored(2) assms(1) by blast
    next
      case 2
      with b have "and_then (deflate_huffman_loop (dfc_fixed_literals_huffman_tree ctx2) (dfc_fixed_distances_huffman_tree ctx2) u out s)
          (\<lambda>r. Ok (ctx2, r)) = Ok (ctx', u', out', s')"
        by (simp add: deflate_block_def ctx2(1))
      then have "deflate_huffman_loop (dfc_fixed_literals_huffman_tree ctx2) (dfc_fixed_distances_huffman_tree ctx2) u out s = Ok (u', out', s')"
        "ctx' = ctx2" by (auto simp: and_then_eq_Ok)
      then show ?thesis using fixed ctx2(2) by blast
    next
      case 3
      with b obtain lt dt t where d: "deflate_build_dynamic s = Ok (lt, dt, t)"
        "deflate_huffman_loop lt dt u out t = Ok (u', out', s')" "ctx' = ctx"
        by (auto simp: deflate_block_def and_then_eq_Ok)
      then show ?thesis using block [OF d(1)] assms(1) by blast
    qed
  qed
qed

lemma deflate_loop_safe:
  assumes "deflate_ok ctx" "u \<le> length out" "dbs_ok s"
  shows "no_panic (deflate_loop ctx u out s) \<and> (\<forall>ctx' u' out' s'. deflate_loop ctx u out s = Ok (ctx', u', out', s') \<longrightarrow>
    deflate_ok ctx' \<and> u' \<le> length out' \<and> length out' = length out \<and> dbs_ok s')"
  using assms
proof (induction "dbs_measure s" arbitrary: ctx u out s rule: less_induct)
  case less
  obtain header t where t: "deflate_read_block_header s = (header, t)" by (cases "deflate_read_block_header s")
  have ok: "dbs_ok t" using t less.prems(3) dbs_get_ok [of s 3] by (auto simp: deflate_read_block_header_def split: prod.split_asm)
  note block = deflate_block_safe [OF less.prems(1,2) ok, of "dbh_block_type header"]
  note unfold = deflate_loop.simps [of ctx u out s]
  show ?case
  proof (cases "dbs_data_offset s < dbs_data_size s")
    case False
    then show ?thesis using less.prems by (auto simp: unfold)
  next
    case True
    show ?thesis
    proof (cases "deflate_block ctx (dbh_block_type header) u out t")
      case (Inl e)
      then show ?thesis using True t block(1) by (simp add: unfold)
    next
      case (Inr r)
      then obtain ctx2 u2 out2 t2 where r: "deflate_block ctx (dbh_block_type header) u out t = Ok (ctx2, u2, out2, t2)" by (cases r) auto
      note ok2 = block(2) [OF r]
      have "dbs_measure t2 < dbs_measure s" using deflate_round_measure [OF t True deflate_block_progress [OF r]] .
      then have IH: "no_panic (deflate_loop ctx2 u2 out2 t2) \<and> (\<forall>ctx' u' out' s'. deflate_loop ctx2 u2 out2 t2 = Ok (ctx', u', out', s') \<longrightarrow>
          deflate_ok ctx' \<and> u' \<le> length out' \<and> length out' = length out2 \<and> dbs_ok s')"
        using less.hyps ok2 by blast
      have eq: "deflate_loop ctx u out s = (if dbh_last_block_flag header \<noteq> 0 then Ok (ctx2, u2, out2, t2) else deflate_loop ctx2 u2 out2 t2)"
        using True t r by (simp add: unfold)
      show ?thesis
      proof (cases "dbh_last_block_flag header \<noteq> 0")
        case True
        then show ?thesis unfolding eq using ok2 by simp
      next
        case False
        then have "deflate_loop ctx u out s = deflate_loop ctx2 u2 out2 t2" unfolding eq by simp
        then show ?thesis using IH ok2 by metis
      qed
    qed
  qed
qed

section \<open>Properties\<close>

text \<open>
  (C23) No input makes the decompressor panic, whatever the size of the buffer.
\<close>

theorem deflate_decompress_no_panic: "no_panic (deflate_decompress deflate_new data buffer)"
proof -
  have "no_panic (deflate_loop deflate_new 0 buffer (dbs_new data 0))"
    using deflate_loop_safe [OF deflate_ok_new _ dbs_new_ok(1) [of 0 data], of 0 buffer] by simp
  then show ?thesis
    unfolding deflate_decompress_def deflate_decompress_bitstream_def by (auto intro!: no_panic_and_then)
qed

end
