(* ===== verification/Zlib.thy ===== *)
theory Zlib
  imports Deflate_Safety Adler32
begin

text \<open>
  ZLIB decompression (\<open>keramics-compression/src/zlib.rs\<close>): a header of 2 bytes, with 4 more for the
  identifier of a preset dictionary, Deflate compressed data and an Adler-32 checksum.  The debug trace of
  the header is left out.
\<close>

section \<open>ZlibDataHeader\<close>

record ZlibDataHeader =
  zdh_header_size :: nat

definition zlib_data_header_new :: ZlibDataHeader where
  "zlib_data_header_new = \<lparr>zdh_header_size = 0\<rparr>"

definition zlib_read_data :: "ZlibDataHeader \<Rightarrow> byte list \<Rightarrow> ZlibDataHeader result" where
  "zlib_read_data header data =
     (if length data < 2 then Err (Compression_error Zlib_data_size)
      else
        let compression_data = data ! 0; compression_method = compression_data AND 0x0f in
        if compression_method \<noteq> 8 then Err (Compression_error Zlib_compression_method)
        else
          let compression_window_bits = drop_bit 4 compression_data + 8;
              compression_window_size = push_bit (unat compression_window_bits) (1 :: u32) in
          if 32768 < compression_window_size then Err (Compression_error Zlib_window_size)
          else
            let header = header\<lparr>zdh_header_size := 2\<rparr>; flags = data ! 1 in
            if flags AND 0x20 \<noteq> 0 then
              if length data < 6 then Err (Compression_error Zlib_data_size)
              else Ok (header\<lparr>zdh_header_size := zdh_header_size header + 4\<rparr>)
            else Ok header)"

section \<open>ZlibContext\<close>

record ZlibContext =
  zlc_uncompressed_data_size :: nat

definition zlib_new :: ZlibContext where
  "zlib_new = \<lparr>zlc_uncompressed_data_size = 0\<rparr>"

text \<open>The checksum is read and compared only when more than 4 bytes are left; it covers the whole buffer.\<close>

definition zlib_check :: "byte list \<Rightarrow> byte list \<Rightarrow> DeflateBitstream \<Rightarrow> unit result" where
  "zlib_check compressed_data uncompressed_data bitstream =
     and_then (sub_u64 (dbs_data_size bitstream) (dbs_data_offset bitstream)) (\<lambda>remaining_size.
       if 4 < remaining_size then
         let adler32_context = adler32_update (adler32_new 1) uncompressed_data;
             calculated_checksum = fst (adler32_finalize adler32_context);
             stored_checksum = u32_be (dbs_data_offset bitstream) compressed_data in
         if stored_checksum \<noteq> unat calculated_checksum then Err (Compression_error Zlib_checksum) else Ok ()
       else Ok ())"

definition zlib_decompress :: "ZlibContext \<Rightarrow> byte list \<Rightarrow> byte list \<Rightarrow> (ZlibContext \<times> byte list) result" where
  "zlib_decompress context compressed_data uncompressed_data =
     (if length compressed_data < 2 then Err (Compression_error Zlib_data_size)
      else
        and_then (zlib_read_data zlib_data_header_new compressed_data) (\<lambda>data_header.
        let bitstream = dbs_new compressed_data (zdh_header_size data_header) in
        and_then (deflate_decompress_bitstream deflate_new bitstream uncompressed_data)
          (\<lambda>(deflate_context, uncompressed_data, bitstream).
        and_then (dbs_unread_data bitstream) (\<lambda>bitstream.
        and_then (zlib_check compressed_data uncompressed_data bitstream) (\<lambda>_.
          Ok (context\<lparr>zlc_uncompressed_data_size := dfc_uncompressed_data_size deflate_context\<rparr>, uncompressed_data))))))"

section \<open>The header\<close>

text \<open>The headers of RFC 1950 but for the check bits, which the code does not look at.\<close>

definition zlib_header :: "byte list \<Rightarrow> bool" where
  "zlib_header h \<longleftrightarrow> 2 \<le> length h \<and> h ! 0 AND 0x0f = 8 \<and> drop_bit 4 (h ! 0) \<le> 7 \<and>
     length h = (if h ! 1 AND 0x20 = 0 then 2 else 6)"

lemma zlib_window: "32768 < push_bit (unat (drop_bit 4 (b :: byte) + 8)) (1 :: u32) \<longleftrightarrow> 7 < drop_bit 4 b"
proof -
  have b: "unat (drop_bit 4 b) < 16"
    using unsigned_less [of b, where 'a = nat] unfolding unat_drop_bit_eq by (simp add: drop_bit_eq_div)
  then have sum: "unat (drop_bit 4 b + 8) = unat (drop_bit 4 b) + 8" by (simp add: unat_word_ariths)
  have "unat (push_bit k (1 :: u32)) = 2 ^ k" if "k < 32" for k
    using power_strict_increasing [OF that, of "2 :: nat"] unfolding unsigned_push_bit_eq by (simp add: push_bit_eq_mult take_bit_eq_mod)
  then have "32768 < push_bit (unat (drop_bit 4 b + 8)) (1 :: u32) \<longleftrightarrow> (2 :: nat) ^ 15 < 2 ^ (unat (drop_bit 4 b) + 8)"
    using b by (simp add: word_less_nat_alt sum)
  also have "\<dots> \<longleftrightarrow> 15 < unat (drop_bit 4 b) + 8" by (rule power_strict_increasing_iff) simp
  finally show ?thesis by (auto simp: word_less_nat_alt)
qed

lemma zlib_read_data_header:
  "zlib_header h \<Longrightarrow> zlib_read_data zlib_data_header_new (h @ data) = Ok \<lparr>zdh_header_size = length h\<rparr>"
  by (auto simp: zlib_read_data_def zlib_header_def zlib_data_header_new_def Let_def zlib_window [simplified] nth_append not_less split: if_splits)

lemma zlib_read_data_Ok:
  "zlib_read_data zlib_data_header_new data = Ok header \<Longrightarrow> zdh_header_size header \<le> length data"
  by (auto simp: zlib_read_data_def zlib_data_header_new_def Let_def split: if_splits)

lemma zlib_read_data_no_panic: "no_panic (zlib_read_data header data)"
  by (simp add: zlib_read_data_def Let_def)

section \<open>The rest of the bit stream\<close>

lemma deflate_loop_progress: "deflate_loop ctx u out s = Ok (ctx', u', out', s') \<Longrightarrow> dbs_progress s s'"
proof (induction "dbs_measure s" arbitrary: ctx u out s rule: less_induct)
  case less
  obtain header t where t: "deflate_read_block_header s = (header, t)" by (cases "deflate_read_block_header s")
  then have st: "dbs_progress s t" by (auto simp: deflate_read_block_header_def split: prod.split_asm dest: dbs_get_value_progress)
  note unfold = deflate_loop.simps [of ctx u out s]
  show ?case
  proof (cases "dbs_data_offset s < dbs_data_size s")
    case False
    with less.prems show ?thesis by (simp add: unfold)
  next
    case True
    with less.prems t obtain ctx2 u2 out2 t2 where b: "deflate_block ctx (dbh_block_type header) u out t = Ok (ctx2, u2, out2, t2)"
      and rest: "(ctx2, u2, out2, t2) = (ctx', u', out', s') \<or> deflate_loop ctx2 u2 out2 t2 = Ok (ctx', u', out', s')"
      by (auto simp: unfold and_then_eq_Ok split: if_splits)
    note p = deflate_block_progress [OF b]
    have "dbs_progress t2 s'" using rest less.hyps [OF deflate_round_measure [OF t True p]] by auto
    with st p show ?thesis by (blast intro: dbs_progress_trans)
  qed
qed

lemma dbs_unread_data_ok: "dbs_ok s \<Longrightarrow> dbs_unread_data s = Ok s"
  by (simp add: dbs_unread_data.simps [of s] dbs_ok_def)

text \<open>What is left of the data once the bits up to the end of a byte have been dropped.\<close>

lemma dbs_rest:
  assumes "dbs_ok s" "dbs_pending s = pad @ bitmap_bits tail" "length pad < 8"
  shows "drop (dbs_data_offset s) (dbs_data s) = tail"
proof -
  have "dbs_number_of_bits s = length pad"
    using dbs_aligned [OF assms(1)] assms(2,3) by (simp add: length_bitmap_bits)
  then have "bitmap_bits (drop (dbs_data_offset s) (dbs_data s)) = bitmap_bits tail"
    using assms(2) by (simp add: dbs_pending_def)
  then show ?thesis by (simp add: bitmap_bits_inject)
qed

lemma zlib_stream:
  assumes "zlib_header header" "bs \<noteq> []" "blocks_valid 0 bs" "lz_total (blocks_tokens bs) \<le> length buffer"
    and "bitmap_bits body = deflate_bits 0 bs @ pad" "length pad < 8"
  defines "out \<equiv> lz_expand_all (blocks_tokens bs) [] @ drop (lz_total (blocks_tokens bs)) buffer"
  shows "zlib_decompress ctx (header @ body @ tail) buffer =
    (if 4 < length tail \<and> u32_be 0 tail \<noteq> adler_checksum 1 out then Err (Compression_error Zlib_checksum)
     else Ok (ctx\<lparr>zlc_uncompressed_data_size := lz_total (blocks_tokens bs)\<rparr>, out))"
proof -
  let ?data = "header @ body @ tail" and ?n = "lz_total (blocks_tokens bs)"
  let ?s = "dbs_new ?data (length header)"
  have ok: "dbs_ok ?s" by (simp add: dbs_new_ok)
  have pend: "dbs_pending ?s = deflate_bits 0 bs @ (pad @ bitmap_bits tail)" by (simp add: dbs_new_ok assms(5))
  have "8 dvd 0 + length (dbs_pending ?s)" by (simp add: dbs_new_ok length_bitmap_bits)
  then obtain ctx' s' where s': "deflate_loop deflate_new 0 buffer ?s = Ok (ctx', ?n, out, s')"
    "dbs_ok s'" "dbs_pending s' = pad @ bitmap_bits tail"
    using deflate_loop_round [OF assms(2) deflate_ok_new, of "[]" buffer ?s 0 "pad @ bitmap_bits tail"] assms(3,4) ok pend
    by (auto simp: out_def)
  have data: "dbs_data s' = ?data" using deflate_loop_progress [OF s'(1)] by (simp add: dbs_progress_def dbs_new_def)
  have rest: "drop (dbs_data_offset s') ?data = tail" using dbs_rest [OF s'(2,3) assms(6)] unfolding data .
  have "dbs_data_size s' - dbs_data_offset s' = length tail" using arg_cong [OF rest, of length] by (simp add: dbs_data_size_def data)
  then have left: "sub_u64 (dbs_data_size s') (dbs_data_offset s') = Ok (length tail)"
    using s'(2) by (simp add: sub_u64_def dbs_ok_def)
  have stored: "u32_be (dbs_data_offset s') ?data = u32_be 0 tail" by (simp only: u32_be_def subslice_def rest drop_0)
  have sum: "unat (fst (adler32_finalize (adler32_update (adler32_new 1) out))) = adler_checksum 1 out"
    using adler32_updates [of "adler32_new 1" "[out]"] by (simp add: adler32_finalize_def adler32_new_def)
  have "2 \<le> length ?data" using assms(1) by (simp add: zlib_header_def)
  then show ?thesis
    by (simp add: zlib_decompress_def zlib_read_data_header [OF assms(1)] deflate_decompress_bitstream_def s'(1)
        dbs_unread_data_ok [OF s'(2)] zlib_check_def left stored sum)
qed

section \<open>Properties\<close>

text \<open>
  (C25) A ZLIB stream decompresses to the expansion of its blocks.  The Adler-32 checksum that follows them is
  compared only when at least 5 bytes are left: in a stream that ends with its 4 bytes any checksum is
  accepted.  With more bytes it is compared with the checksum of the whole buffer, the bytes after the
  decompressed data included.
\<close>

theorem zlib_stream_exact:
  assumes "zlib_header header" "bs \<noteq> []" "blocks_valid 0 bs" "lz_total (blocks_tokens bs) \<le> length buffer"
    and "bitmap_bits body = deflate_bits 0 bs @ pad" "length pad < 8"
  defines "out \<equiv> lz_expand_all (blocks_tokens bs) [] @ drop (lz_total (blocks_tokens bs)) buffer"
  shows "zlib_decompress ctx (header @ body @ tail) buffer =
    (if 4 < length tail \<and> u32_be 0 tail \<noteq> adler_checksum 1 out then Err (Compression_error Zlib_checksum)
     else Ok (ctx\<lparr>zlc_uncompressed_data_size := lz_total (blocks_tokens bs)\<rparr>, out))"
  unfolding out_def using zlib_stream [OF assms(1-6)] .

text \<open>A stored block with the letter A; no 0 is its checksum, and the second stream has a byte more.\<close>

theorem zlib_stream_exact_witness:
  "zlib_decompress zlib_new ([0x78, 0x9c] @ deflate_sample @ [0, 0, 0, 0]) [0] = Ok (\<lparr>zlc_uncompressed_data_size = 1\<rparr>, [0x41])
    \<and> zlib_decompress zlib_new ([0x78, 0x9c] @ deflate_sample @ [0, 0, 0, 0, 0]) [0] = Err (Compression_error Zlib_checksum)"
proof -
  have h: "zlib_header [0x78, 0x9c]" by (simp add: zlib_header_def)
  let ?bs = "[Stored_block [0x41], Fixed_block []]"
  have b: "blocks_valid 0 ?bs" "lz_total (blocks_tokens ?bs) \<le> length [0 :: byte]" "?bs \<noteq> []" "length (replicate 6 False) < 8"
    by (simp_all add: blocks_tokens_def ops_tokens_def fixed_end_of_block lz_total_def)
  have out: "lz_expand_all (blocks_tokens ?bs) [] = [0x41]" "lz_total (blocks_tokens ?bs) = 1"
    by (simp_all add: blocks_tokens_def ops_tokens_def lz_total_def)
  have sum: "adler_checksum 1 [0x41 :: byte] \<noteq> 0" by (simp add: adler_checksum_def)
  have zero: "u32_be 0 [0, 0, 0, 0, 0] = 0" by (simp add: u32_be_def subslice_def from_be_bytes_def)
  note exact = zlib_stream_exact [OF h b(3,1,2) deflate_sample_bits b(4), of zlib_new, unfolded out]
  show ?thesis using exact [of "[0, 0, 0, 0]"] exact [of "[0, 0, 0, 0, 0]"] sum zero by (simp add: zlib_new_def)
qed

text \<open>
  No input makes ZLIB decompression panic, whatever the size of the buffer.
\<close>

theorem zlib_decompress_no_panic: "no_panic (zlib_decompress ctx data buffer)"
proof -
  have rest: "no_panic (and_then (deflate_decompress_bitstream deflate_new (dbs_new data k) buffer) (\<lambda>(c, out, s).
      and_then (dbs_unread_data s) (\<lambda>s. and_then (zlib_check data out s) (\<lambda>_.
        Ok (ctx\<lparr>zlc_uncompressed_data_size := dfc_uncompressed_data_size c\<rparr>, out)))))" if "k \<le> length data" for k
  proof -
    note safe = deflate_loop_safe [OF deflate_ok_new le0 dbs_new_ok(1) [OF that], of buffer]
    show ?thesis
    proof (cases "deflate_loop deflate_new 0 buffer (dbs_new data k)")
      case (Inl e)
      then show ?thesis using safe by (simp add: deflate_decompress_bitstream_def)
    next
      case (Inr r)
      then obtain c u out s where r: "deflate_loop deflate_new 0 buffer (dbs_new data k) = Ok (c, u, out, s)" by (cases r) auto
      with safe have "dbs_ok s" by blast
      then show ?thesis
        by (auto simp: deflate_decompress_bitstream_def r dbs_unread_data_ok zlib_check_def sub_u64_def dbs_ok_def Let_def)
    qed
  qed
  show ?thesis
    unfolding zlib_decompress_def Let_def
    by (auto intro!: no_panic_and_then zlib_read_data_no_panic rest dest!: zlib_read_data_Ok)
qed

end
