(* ===== verification/Ewf.thy ===== *)
theory Ewf
  imports Zlib Resolver Uuid
begin

text \<open>
  The EWF (Expert Witness Compression Format) driver (\<open>image/ewf/mod.rs\<close>): the names of the segment
  files, the section headers of a segment, the sections with the volume, the chunk table and the hashes, and
  the media source, which keeps the chunks it has decompressed in a cache.  The cache is the state of a read;
  the resolver and the sources it opens are parameters.
\<close>

section \<open>Data\<close>

datatype EwfMediaType = EwfFixedDisk | EwfLogicalEvidence | EwfMemory | EwfOpticalDisk | EwfRemoveableDisk | EwfUnknownMedia

datatype EwfNamingSchema = E01Lower | E01Upper | S01Lower | S01Upper

datatype EwfSegmentContinuation = HasNext | Last | Unknown

record EwfSectionHeader =
  esh_file_offset :: nat
  esh_section_type :: "byte list"
  esh_next_offset :: nat
  esh_size :: nat

record EwfSegment =
  egs_file_name :: str
  egs_segment_number :: nat
  egs_source :: data_source
  egs_sections :: "EwfSectionHeader list"
  egs_continuation :: EwfSegmentContinuation

record EwfChunkDescriptor =
  ecd_segment_index :: nat
  ecd_logical_offset :: nat
  ecd_logical_size :: nat
  ecd_data_offset :: nat
  ecd_data_size :: nat
  ecd_compressed :: bool

record EwfRuntime =
  ewr_segments :: "EwfSegment list"
  ewr_chunks :: "EwfChunkDescriptor list"
  ewr_chunk_size :: nat
  ewr_media_size :: nat

record EwfBuilder =
  ewb_media_type :: EwfMediaType
  ewb_set_identifier :: Uuid
  ewb_number_of_chunks :: nat
  ewb_sectors_per_chunk :: nat
  ewb_bytes_per_sector :: nat
  ewb_number_of_sectors :: nat
  ewb_chunk_size :: nat
  ewb_media_size :: nat
  ewb_md5_hash :: "byte list option"
  ewb_sha1_hash :: "byte list option"
  ewb_chunks :: "EwfChunkDescriptor list"
  ewb_next_chunk_logical_offset :: nat
  ewb_saw_volume :: bool

record EwfVolumeInfo =
  evi_media_type :: EwfMediaType
  evi_set_identifier :: Uuid
  evi_number_of_chunks :: nat
  evi_sectors_per_chunk :: nat
  evi_bytes_per_sector :: nat
  evi_number_of_sectors :: nat
  evi_error_granularity :: nat

record EwfImage =
  ewi_runtime :: EwfRuntime
  ewi_media_type :: EwfMediaType
  ewi_set_identifier :: Uuid
  ewi_number_of_chunks :: nat
  ewi_sectors_per_chunk :: nat
  ewi_bytes_per_sector :: nat
  ewi_number_of_sectors :: nat
  ewi_media_size :: nat
  ewi_md5_hash :: "byte list option"
  ewi_sha1_hash :: "byte list option"

record EwfTable =
  ewt_base_offset :: nat
  ewt_entries :: "nat list"

definition uuid_nil :: Uuid where
  "uuid_nil = \<lparr>uuid_part1 = 0, uuid_part2 = 0, uuid_part3 = 0, uuid_part4 = 0, uuid_part5 = 0\<rparr>"

definition ewf_file_header_signature :: "byte list" where
  "ewf_file_header_signature = [0x45, 0x56, 0x46, 0x09, 0x0d, 0x0a, 0xff, 0x00]"

text \<open>The section types are padded with 0 to 16 bytes.\<close>

definition ewf_section_type :: "string \<Rightarrow> byte list" where
  "ewf_section_type name = lit name @ replicate (16 - length name) 0"

definition ewf_adler32 :: "byte list \<Rightarrow> nat" where
  "ewf_adler32 data = unat (fst (adler32_finalize (adler32_update (adler32_new 1) data)))"

section \<open>Names of segment files\<close>

text \<open>\<open>Path::file_stem\<close> and \<open>Path::extension\<close> of a file name: they divide it at its last dot, unless it is the first character.\<close>

definition path_file_stem :: "str \<Rightarrow> str" where
  "path_file_stem file_name = (case str_rfind (lit ''.'') file_name of None \<Rightarrow> file_name
     | Some i \<Rightarrow> if i = 0 then file_name else take i file_name)"

definition path_extension :: "str \<Rightarrow> str option" where
  "path_extension file_name = (case str_rfind (lit ''.'') file_name of None \<Rightarrow> None
     | Some i \<Rightarrow> if i = 0 then None else Some (drop (i + 1) file_name))"

definition ewf_segment_file_naming_schema :: "str \<Rightarrow> EwfNamingSchema result" where
  "ewf_segment_file_naming_schema file_name =
     and_then (ok_or (Ewf_error Ewf_missing_extension) (path_extension file_name)) (\<lambda>extension.
       if extension = lit ''E01'' then Ok E01Upper
       else if extension = lit ''S01'' then Ok S01Upper
       else if extension = lit ''e01'' then Ok E01Lower
       else if extension = lit ''s01'' then Ok S01Lower
       else Err (Ewf_error Ewf_unsupported_extension))"

fun ewf_first_character :: "EwfNamingSchema \<Rightarrow> nat" where
  "ewf_first_character E01Upper = 0x45"
| "ewf_first_character S01Upper = 0x53"
| "ewf_first_character E01Lower = 0x65"
| "ewf_first_character S01Lower = 0x73"

definition ewf_base_character :: "EwfNamingSchema \<Rightarrow> nat" where
  "ewf_base_character naming_schema = (if naming_schema = E01Upper \<or> naming_schema = S01Upper then 0x41 else 0x61)"

definition ewf_last_character :: "EwfNamingSchema \<Rightarrow> nat" where
  "ewf_last_character naming_schema = (if naming_schema = E01Upper \<or> naming_schema = S01Upper then 0x5a else 0x7a)"

text \<open>The code points of the extension are at most \<open>z\<close> here, so each is a character and one byte.\<close>

definition ewf_segment_file_extension :: "nat \<Rightarrow> EwfNamingSchema \<Rightarrow> str result" where
  "ewf_segment_file_extension segment_number naming_schema =
     (if segment_number = 0 then Err (Ewf_error Ewf_segment_number_zero)
      else
        let first_character = ewf_first_character naming_schema;
            last_character = ewf_last_character naming_schema;
            extension =
              (if segment_number < 100
               then [first_character, 0x30 + segment_number div 10, 0x30 + segment_number mod 10]
               else
                 let base_character = ewf_base_character naming_schema;
                     extension_segment_number = segment_number - 100;
                     last = base_character + extension_segment_number mod 26;
                     extension_segment_number = extension_segment_number div 26;
                     middle = base_character + extension_segment_number mod 26;
                     extension_segment_number = extension_segment_number div 26
                 in [first_character + extension_segment_number, middle, last])
        in if last_character < extension ! 0 then Err (Ewf_error Ewf_extension_limit)
           else Ok (map of_nat extension))"

definition ewf_segment_file_name :: "str \<Rightarrow> nat \<Rightarrow> EwfNamingSchema \<Rightarrow> str result" where
  "ewf_segment_file_name name segment_number naming_schema =
     and_then (ewf_segment_file_extension segment_number naming_schema) (\<lambda>extension. Ok (name @ lit ''.'' @ extension))"

section \<open>Section headers\<close>

definition ewf_read_file_header :: "data_source \<Rightarrow> nat result" where
  "ewf_read_file_header source =
     and_then (read_exact_at source 0 13) (\<lambda>data.
       if subslice 0 8 data \<noteq> ewf_file_header_signature then Err (Ewf_error Ewf_file_signature)
       else if data ! 8 \<noteq> 1 then Err (Ewf_error Ewf_start_of_fields)
       else if subslice 11 2 data \<noteq> [0, 0] then Err (Ewf_error Ewf_end_of_fields)
       else Ok (u16_le 9 data))"

definition ewf_section_header_read_at :: "data_source \<Rightarrow> nat \<Rightarrow> EwfSectionHeader result" where
  "ewf_section_header_read_at source file_offset =
     and_then (read_exact_at source file_offset 76) (\<lambda>data.
       if u32_le 72 data \<noteq> ewf_adler32 (subslice 0 72 data) then Err (Ewf_error Ewf_section_checksum)
       else Ok \<lparr>esh_file_offset = file_offset, esh_section_type = subslice 0 16 data,
                esh_next_offset = u64_le 16 data, esh_size = u64_le 24 data\<rparr>)"

definition ewf_is_type :: "EwfSectionHeader \<Rightarrow> string \<Rightarrow> bool" where
  "ewf_is_type section expected \<longleftrightarrow> esh_section_type section = ewf_section_type expected"

definition ewf_is_done_or_next :: "EwfSectionHeader \<Rightarrow> bool" where
  "ewf_is_done_or_next section \<longleftrightarrow> ewf_is_type section ''done'' \<or> ewf_is_type section ''next''"

text \<open>The size of a section, which may be missing in its header, and the checks of its offsets.\<close>

definition ewf_check_section :: "nat \<Rightarrow> EwfSectionHeader \<Rightarrow> EwfSectionHeader result" where
  "ewf_check_section file_offset section =
     (if ewf_is_done_or_next section then
        if esh_size section \<noteq> 0 \<and> esh_size section \<noteq> 76 then Err (Ewf_error Ewf_done_size)
        else if esh_next_offset section \<noteq> file_offset then Err (Ewf_error Ewf_done_next_offset)
        else Ok (section\<lparr>esh_size := 76\<rparr>)
      else if esh_next_offset section \<le> file_offset then Err (Ewf_error Ewf_section_next_offset)
      else
        let calculated_size = esh_next_offset section - file_offset in
        if esh_size section \<noteq> 0 \<and> esh_size section \<noteq> calculated_size then Err (Ewf_error Ewf_section_size)
        else if calculated_size < 76 then Err (Ewf_error Ewf_section_size_too_small)
        else Ok (section\<lparr>esh_size := calculated_size\<rparr>))"

lemma ewf_check_section_Ok:
  assumes "ewf_check_section file_offset section = Ok section'"
  shows "76 \<le> esh_size section'" "ewf_is_done_or_next section' = ewf_is_done_or_next section"
    "esh_file_offset section' = esh_file_offset section" "esh_section_type section' = esh_section_type section"
    "\<not> ewf_is_done_or_next section \<Longrightarrow> esh_next_offset section' = file_offset + esh_size section'"
  using assms
  by (auto simp: ewf_check_section_def ewf_is_done_or_next_def ewf_is_type_def Let_def split: if_splits)

function ewf_section_loop :: "data_source \<Rightarrow> nat \<Rightarrow> nat \<Rightarrow> EwfSectionHeader list \<Rightarrow> (nat \<times> EwfSectionHeader list) result" where
  "ewf_section_loop source file_size file_offset section_headers =
     (if file_offset < file_size then
        and_then (ewf_section_header_read_at source file_offset) (\<lambda>section_header.
        and_then (ewf_check_section file_offset section_header) (\<lambda>section_header.
        and_then (ok_or (Ewf_error Ewf_section_offset_overflow) (checked_add file_offset (esh_size section_header))) (\<lambda>file_offset.
          if ewf_is_done_or_next section_header then Ok (file_offset, section_headers @ [section_header])
          else ewf_section_loop source file_size file_offset (section_headers @ [section_header]))))
      else Ok (file_offset, section_headers))"
  by pat_completeness auto
termination
  by (relation "measure (\<lambda>(_, n, k, _). n - k)") (auto simp: result_simps dest!: ewf_check_section_Ok(1))

declare ewf_section_loop.simps [simp del]

definition ewf_read_section_headers :: "data_source \<Rightarrow> EwfSectionHeader list result" where
  "ewf_read_section_headers source =
     and_then (ds_size source) (\<lambda>file_size.
       if file_size < 13 then Err (Ewf_error Ewf_segment_size)
       else
         and_then (ewf_section_loop source file_size 13 []) (\<lambda>(file_offset, section_headers).
           if file_offset \<noteq> file_size then Err (Ewf_error Ewf_trailing_data) else Ok section_headers))"

definition ewf_segment_open :: "str \<Rightarrow> data_source \<Rightarrow> EwfSegment result" where
  "ewf_segment_open file_name source =
     and_then (ewf_read_file_header source) (\<lambda>segment_number.
     and_then (ewf_read_section_headers source) (\<lambda>sections.
       let continuation =
         (if sections = [] then Unknown
          else if ewf_is_type (last sections) ''done'' then Last
          else if ewf_is_type (last sections) ''next'' then HasNext
          else Unknown)
       in Ok \<lparr>egs_file_name = file_name, egs_segment_number = segment_number, egs_source = source,
              egs_sections = sections, egs_continuation = continuation\<rparr>))"

function ewf_open_segments_loop :: "resolver \<Rightarrow> str \<Rightarrow> EwfNamingSchema \<Rightarrow> nat \<Rightarrow> EwfSegment list \<Rightarrow> EwfSegment list result" where
  "ewf_open_segments_loop resolver name naming_schema segment_number segments =
     and_then (ewf_segment_file_name name segment_number naming_schema) (\<lambda>segment_file_name.
     and_then (resolver segment_file_name) (\<lambda>opened.
     and_then (ok_or (Ewf_error Ewf_missing_segment) opened) (\<lambda>source.
     and_then (ewf_segment_open segment_file_name source) (\<lambda>segment.
       if egs_segment_number segment \<noteq> segment_number then Err (Ewf_error Ewf_segment_number)
       else if egs_continuation segment = HasNext then
         if segment_number + 1 < u16_limit then
           ewf_open_segments_loop resolver name naming_schema (segment_number + 1) (segments @ [segment])
         else Err (Ewf_error Ewf_segment_number_overflow)
       else Ok (segments @ [segment])))))"
  by pat_completeness auto
termination
  by (relation "measure (\<lambda>(_, _, _, n, _). u16_limit - n)") auto

declare ewf_open_segments_loop.simps [simp del]

definition ewf_open_segments :: "resolver \<Rightarrow> str \<Rightarrow> EwfNamingSchema \<Rightarrow> EwfSegment list result" where
  "ewf_open_segments resolver name naming_schema = ewf_open_segments_loop resolver name naming_schema 1 []"

section \<open>Sections\<close>

definition ewf_read_section_data :: "data_source \<Rightarrow> EwfSectionHeader \<Rightarrow> byte list result" where
  "ewf_read_section_data source section =
     and_then (sub_u64 (esh_size section) 76) (\<lambda>size.
     and_then (ok_or (Ewf_error Ewf_section_data_size) (usize_try_from size)) (\<lambda>data_size.
     and_then (add_u64 (esh_file_offset section) 76) (\<lambda>data_offset.
       read_exact_at source data_offset data_size)))"

definition ewf_media_type_of :: "byte \<Rightarrow> EwfMediaType" where
  "ewf_media_type_of b =
     (if b = 0x00 then EwfRemoveableDisk else if b = 0x01 then EwfFixedDisk else if b = 0x03 then EwfOpticalDisk
      else if b = 0x0e then EwfLogicalEvidence else if b = 0x10 then EwfMemory else EwfUnknownMedia)"

definition ewf_read_e01_volume_section :: "byte list \<Rightarrow> EwfVolumeInfo result" where
  "ewf_read_e01_volume_section data =
     (let stored_checksum = u32_le 1048 data; calculated_checksum = ewf_adler32 (subslice 0 1048 data) in
      if stored_checksum \<noteq> 0 \<and> stored_checksum \<noteq> calculated_checksum then Err (Ewf_error Ewf_volume_checksum)
      else
        and_then (uuid_from_le_bytes (subslice 64 16 data)) (\<lambda>set_identifier.
          Ok \<lparr>evi_media_type = ewf_media_type_of (data ! 0), evi_set_identifier = set_identifier,
              evi_number_of_chunks = u32_le 4 data, evi_sectors_per_chunk = u32_le 8 data,
              evi_bytes_per_sector = u32_le 12 data, evi_number_of_sectors = u64_le 16 data,
              evi_error_granularity = u32_le 56 data\<rparr>))"

definition ewf_read_s01_volume_section :: "byte list \<Rightarrow> EwfVolumeInfo result" where
  "ewf_read_s01_volume_section data =
     (if u32_le 90 data \<noteq> ewf_adler32 (subslice 0 90 data) then Err (Ewf_error Ewf_s01_volume_checksum)
      else Ok \<lparr>evi_media_type = EwfLogicalEvidence, evi_set_identifier = uuid_nil,
               evi_number_of_chunks = u32_le 4 data, evi_sectors_per_chunk = u32_le 8 data,
               evi_bytes_per_sector = u32_le 12 data, evi_number_of_sectors = u32_le 16 data,
               evi_error_granularity = 0\<rparr>)"

definition ewf_read_volume_section :: "data_source \<Rightarrow> EwfSectionHeader \<Rightarrow> EwfVolumeInfo result" where
  "ewf_read_volume_section source section =
     and_then (ewf_read_section_data source section) (\<lambda>data.
       if length data = 1052 then ewf_read_e01_volume_section data
       else if length data = 94 then ewf_read_s01_volume_section data
       else Err (Ewf_error Ewf_volume_data_size))"

definition ewf_read_table_section :: "data_source \<Rightarrow> EwfSectionHeader \<Rightarrow> EwfTable result" where
  "ewf_read_table_section source section =
     and_then (ewf_read_section_data source section) (\<lambda>data.
       if length data < 28 \<or> 16777216 < length data then Err (Ewf_error Ewf_table_data_size)
       else if u32_le 20 data \<noteq> ewf_adler32 (subslice 0 20 data) then Err (Ewf_error Ewf_table_header_checksum)
       else
         let number_of_entries = u32_le 0 data; base_offset = u64_le 8 data in
         and_then (ok_or (Ewf_error Ewf_table_array_overflow) (checked_mul number_of_entries 4)) (\<lambda>array_size.
         and_then (ok_or (Ewf_error Ewf_table_size_overflow)
                     (case checked_add 24 array_size of None \<Rightarrow> None | Some value \<Rightarrow> checked_add value 4)) (\<lambda>expected_size.
           if expected_size \<noteq> length data then Err (Ewf_error Ewf_table_entries_size)
           else
             let footer_offset = 24 + number_of_entries * 4 in
             if u32_le footer_offset data \<noteq> ewf_adler32 (subslice 24 (footer_offset - 24) data)
             then Err (Ewf_error Ewf_table_checksum)
             else Ok \<lparr>ewt_base_offset = base_offset,
                      ewt_entries = map (\<lambda>entry_index. u32_le (24 + entry_index * 4) data) [0..<number_of_entries]\<rparr>)))"

definition ewf_read_hash_section :: "data_source \<Rightarrow> EwfSectionHeader \<Rightarrow> byte list result" where
  "ewf_read_hash_section source section =
     and_then (ewf_read_section_data source section) (\<lambda>data.
       if length data < 36 then Err (Ewf_error Ewf_hash_size)
       else if u32_le 32 data \<noteq> ewf_adler32 (subslice 0 32 data) then Err (Ewf_error Ewf_hash_checksum)
       else Ok (subslice 0 16 data))"

definition ewf_read_digest_section :: "data_source \<Rightarrow> EwfSectionHeader \<Rightarrow> (byte list \<times> byte list) result" where
  "ewf_read_digest_section source section =
     and_then (ewf_read_section_data source section) (\<lambda>data.
       if length data < 80 then Err (Ewf_error Ewf_digest_size)
       else if u32_le 76 data \<noteq> ewf_adler32 (subslice 0 76 data) then Err (Ewf_error Ewf_digest_checksum)
       else Ok (subslice 0 16 data, subslice 16 20 data))"

section \<open>EwfBuilder\<close>

definition ewf_builder_new :: EwfBuilder where
  "ewf_builder_new =
     \<lparr>ewb_media_type = EwfUnknownMedia, ewb_set_identifier = uuid_nil, ewb_number_of_chunks = 0, ewb_sectors_per_chunk = 0,
      ewb_bytes_per_sector = 0, ewb_number_of_sectors = 0, ewb_chunk_size = 0, ewb_media_size = 0, ewb_md5_hash = None,
      ewb_sha1_hash = None, ewb_chunks = [], ewb_next_chunk_logical_offset = 0, ewb_saw_volume = False\<rparr>"

definition ewf_builder_volume :: "EwfBuilder \<Rightarrow> EwfSegment \<Rightarrow> EwfSectionHeader \<Rightarrow> EwfBuilder result" where
  "ewf_builder_volume builder segment section =
     (if egs_segment_number segment \<noteq> 1 then Err (Ewf_error Ewf_volume_segment)
      else if ewb_saw_volume builder then Err (Ewf_error Ewf_multiple_volumes)
      else
        and_then (ewf_read_volume_section (egs_source segment) section) (\<lambda>volume.
          if evi_number_of_chunks volume = 0 \<or> evi_sectors_per_chunk volume = 0 \<or> evi_bytes_per_sector volume = 0
          then Err (Ewf_error Ewf_geometry)
          else
            and_then (ok_or (Ewf_error Ewf_chunk_size_overflow)
                        (checked_mul_u32 (evi_sectors_per_chunk volume) (evi_bytes_per_sector volume))) (\<lambda>chunk_size.
            and_then (ok_or (Ewf_error Ewf_media_size_overflow)
                        (checked_mul (evi_number_of_sectors volume) (evi_bytes_per_sector volume))) (\<lambda>media_size.
              Ok (builder\<lparr>ewb_media_type := evi_media_type volume, ewb_set_identifier := evi_set_identifier volume,
                          ewb_number_of_chunks := evi_number_of_chunks volume,
                          ewb_sectors_per_chunk := evi_sectors_per_chunk volume,
                          ewb_bytes_per_sector := evi_bytes_per_sector volume,
                          ewb_number_of_sectors := evi_number_of_sectors volume,
                          ewb_chunk_size := chunk_size, ewb_media_size := media_size, ewb_saw_volume := True\<rparr>)))))"

definition ewf_remaining_chunk_logical_size :: "EwfBuilder \<Rightarrow> nat result" where
  "ewf_remaining_chunk_logical_size builder =
     (if ewb_media_size builder \<le> ewb_next_chunk_logical_offset builder then Err (Ewf_error Ewf_too_many_chunks)
      else Ok (min (ewb_chunk_size builder) (ewb_media_size builder - ewb_next_chunk_logical_offset builder)))"

text \<open>One entry of the chunk table, with the end of its data.\<close>

definition ewf_add_chunk :: "nat \<Rightarrow> nat \<Rightarrow> nat \<Rightarrow> nat \<Rightarrow> EwfBuilder \<Rightarrow> EwfBuilder result" where
  "ewf_add_chunk segment_index table_entry data_offset data_end_offset builder =
     (if data_end_offset \<le> data_offset then Err (Ewf_error Ewf_table_entry)
      else
        let logical_offset = ewb_next_chunk_logical_offset builder in
        and_then (ewf_remaining_chunk_logical_size builder) (\<lambda>logical_size.
          let data_size = data_end_offset - data_offset in
          if u32_limit \<le> data_size then Err (Ewf_error Ewf_chunk_data_size)
          else
            let chunk = \<lparr>ecd_segment_index = segment_index, ecd_logical_offset = logical_offset,
                         ecd_logical_size = logical_size, ecd_data_offset = data_offset, ecd_data_size = data_size,
                         ecd_compressed = (table_entry AND 0x80000000 \<noteq> 0)\<rparr>
            in and_then (ok_or (Ewf_error Ewf_media_offset_overflow) (checked_add logical_offset logical_size)) (\<lambda>next_offset.
                 Ok (builder\<lparr>ewb_chunks := ewb_chunks builder @ [chunk], ewb_next_chunk_logical_offset := next_offset\<rparr>))))"

fun ewf_table_loop :: "nat \<Rightarrow> nat \<Rightarrow> nat \<Rightarrow> nat list \<Rightarrow> EwfBuilder \<Rightarrow> EwfBuilder result" where
  "ewf_table_loop segment_index base_offset end_offset [] builder = Ok builder"
| "ewf_table_loop segment_index base_offset end_offset (table_entry # table_entries) builder =
     and_then (ok_or (Ewf_error Ewf_chunk_offset_overflow) (checked_add base_offset (table_entry AND 0x7fffffff))) (\<lambda>data_offset.
     and_then (case table_entries of
                 next_table_entry # _ \<Rightarrow>
                   ok_or (Ewf_error Ewf_next_chunk_offset_overflow) (checked_add base_offset (next_table_entry AND 0x7fffffff))
               | [] \<Rightarrow> Ok end_offset) (\<lambda>data_end_offset.
     and_then (ewf_add_chunk segment_index table_entry data_offset data_end_offset builder) (\<lambda>builder.
       ewf_table_loop segment_index base_offset end_offset table_entries builder)))"

definition ewf_builder_table :: "EwfBuilder \<Rightarrow> nat \<Rightarrow> EwfSegment \<Rightarrow> EwfSectionHeader \<Rightarrow> EwfSectionHeader option \<Rightarrow> EwfBuilder result" where
  "ewf_builder_table builder segment_index segment section last_sectors_section =
     (if \<not> ewb_saw_volume builder then Err (Ewf_error Ewf_table_before_volume)
      else
        and_then (ewf_read_table_section (egs_source segment) section) (\<lambda>table.
          if ewt_entries table = [] then Err (Ewf_error Ewf_no_table_entries)
          else ewf_table_loop segment_index (ewt_base_offset table)
                 (esh_next_offset (case last_sectors_section of Some sectors_section \<Rightarrow> sectors_section | None \<Rightarrow> section))
                 (ewt_entries table) builder))"

fun ewf_read_sections :: "nat \<Rightarrow> EwfSegment \<Rightarrow> EwfSectionHeader option \<Rightarrow> EwfSectionHeader list \<Rightarrow> EwfBuilder \<Rightarrow> EwfBuilder result" where
  "ewf_read_sections segment_index segment last_sectors_section [] builder = Ok builder"
| "ewf_read_sections segment_index segment last_sectors_section (section # sections) builder =
     (if ewf_is_type section ''sectors'' then ewf_read_sections segment_index segment (Some section) sections builder
      else
        and_then
          (if ewf_is_type section ''disk'' \<or> ewf_is_type section ''volume'' then ewf_builder_volume builder segment section
           else if ewf_is_type section ''table'' then ewf_builder_table builder segment_index segment section last_sectors_section
           else if ewf_is_type section ''hash'' then
             and_then (ewf_read_hash_section (egs_source segment) section) (\<lambda>md5_hash. Ok (builder\<lparr>ewb_md5_hash := Some md5_hash\<rparr>))
           else if ewf_is_type section ''digest'' then
             and_then (ewf_read_digest_section (egs_source segment) section) (\<lambda>(md5_hash, sha1_hash).
               Ok (builder\<lparr>ewb_md5_hash := Some md5_hash, ewb_sha1_hash := Some sha1_hash\<rparr>))
           else Ok builder)
          (ewf_read_sections segment_index segment last_sectors_section sections))"

fun ewf_read_segments_loop :: "nat \<Rightarrow> EwfSegment list \<Rightarrow> EwfBuilder \<Rightarrow> EwfBuilder result" where
  "ewf_read_segments_loop segment_index [] builder = Ok builder"
| "ewf_read_segments_loop segment_index (segment # segments) builder =
     and_then (ewf_read_sections segment_index segment None (egs_sections segment) builder)
       (ewf_read_segments_loop (segment_index + 1) segments)"

text \<open>The number of chunks is compared after its conversion to 32 bits.\<close>

definition ewf_read_segments :: "EwfSegment list \<Rightarrow> EwfBuilder \<Rightarrow> EwfBuilder result" where
  "ewf_read_segments segments builder =
     and_then (ewf_read_segments_loop 0 segments builder) (\<lambda>builder.
       if \<not> ewb_saw_volume builder then Err (Ewf_error Ewf_missing_volume)
       else if length (ewb_chunks builder) mod u32_limit \<noteq> ewb_number_of_chunks builder then Err (Ewf_error Ewf_number_of_chunks)
       else if ewb_next_chunk_logical_offset builder \<noteq> ewb_media_size builder then Err (Ewf_error Ewf_media_size_mismatch)
       else Ok builder)"

section \<open>EwfImage\<close>

definition ewf_open :: "resolver \<Rightarrow> str option \<Rightarrow> EwfImage result" where
  "ewf_open resolver file_name =
     and_then (ok_or (Ewf_error Ewf_file_name) file_name) (\<lambda>file_name_string.
     let name = path_file_stem file_name_string in
     and_then (ewf_segment_file_naming_schema file_name_string) (\<lambda>naming_schema.
     and_then (ewf_open_segments resolver name naming_schema) (\<lambda>segments.
     and_then (ewf_read_segments segments ewf_builder_new) (\<lambda>builder.
       Ok \<lparr>ewi_runtime = \<lparr>ewr_segments = segments, ewr_chunks = ewb_chunks builder, ewr_chunk_size = ewb_chunk_size builder,
                           ewr_media_size = ewb_media_size builder\<rparr>,
           ewi_media_type = ewb_media_type builder, ewi_set_identifier = ewb_set_identifier builder,
           ewi_number_of_chunks = ewb_number_of_chunks builder, ewi_sectors_per_chunk = ewb_sectors_per_chunk builder,
           ewi_bytes_per_sector = ewb_bytes_per_sector builder, ewi_number_of_sectors = ewb_number_of_sectors builder,
           ewi_media_size = ewb_media_size builder, ewi_md5_hash = ewb_md5_hash builder,
           ewi_sha1_hash = ewb_sha1_hash builder\<rparr>))))"

section \<open>EwfDataSource\<close>

type_synonym ewf_cache = "nat \<rightharpoonup> byte list"

definition ewf_cache_chunk :: "nat \<Rightarrow> byte list \<Rightarrow> ewf_cache \<Rightarrow> byte list \<times> ewf_cache" where
  "ewf_cache_chunk chunk_index data cache =
     (case cache chunk_index of Some cached \<Rightarrow> (cached, cache) | None \<Rightarrow> (data, cache(chunk_index \<mapsto> data)))"

text \<open>The part of \<open>read_compressed_chunk\<close> after a miss of the cache.\<close>

definition ewf_decompress_chunk :: "EwfRuntime \<Rightarrow> EwfChunkDescriptor \<Rightarrow> byte list result" where
  "ewf_decompress_chunk runtime chunk =
     and_then (ok_or (Ewf_error Ewf_chunk_segment_missing) (get_index (ewr_segments runtime) (ecd_segment_index chunk))) (\<lambda>segment.
     and_then (read_exact_at (egs_source segment) (ecd_data_offset chunk) (ecd_data_size chunk)) (\<lambda>compressed_data.
     and_then (zlib_decompress zlib_new compressed_data (replicate (ewr_chunk_size runtime) 0)) (\<lambda>(zlib_context, decompressed_data).
       if zlc_uncompressed_data_size zlib_context < ecd_logical_size chunk then Err (Ewf_error Ewf_chunk_too_small)
       else if length decompressed_data < ecd_logical_size chunk then Err (Panic Index_out_of_bounds)
       else Ok (subslice 0 (ecd_logical_size chunk) decompressed_data))))"

definition ewf_read_compressed_chunk :: "EwfRuntime \<Rightarrow> nat \<Rightarrow> EwfChunkDescriptor \<Rightarrow> ewf_cache \<Rightarrow> byte list result \<times> ewf_cache" where
  "ewf_read_compressed_chunk runtime chunk_index chunk cache =
     (case cache chunk_index of
        Some chunk_data \<Rightarrow> (Ok chunk_data, cache)
      | None \<Rightarrow>
          (case ewf_decompress_chunk runtime chunk of
             Inl e \<Rightarrow> (Err e, cache)
           | Inr chunk_data \<Rightarrow> (case ewf_cache_chunk chunk_index chunk_data cache of (entry, cache) \<Rightarrow> (Ok entry, cache))))"

text \<open>The bytes that one round of \<open>read_at\<close> takes from a chunk; \<open>written\<close> bytes of the buffer are filled.\<close>

definition ewf_read_step :: "EwfRuntime \<Rightarrow> nat \<Rightarrow> nat \<Rightarrow> nat \<Rightarrow> ewf_cache \<Rightarrow> byte list result \<times> ewf_cache" where
  "ewf_read_step runtime n written current_offset cache =
     (if ewr_chunk_size runtime = 0 then (Err (Panic Divide_by_zero), cache)
      else
        case usize_try_from (current_offset div ewr_chunk_size runtime) of
          None \<Rightarrow> (Err (Ewf_error Ewf_chunk_index), cache)
        | Some chunk_index \<Rightarrow>
            (case get_index (ewr_chunks runtime) chunk_index of
               None \<Rightarrow> (Err (Ewf_error Ewf_chunk_missing), cache)
             | Some chunk \<Rightarrow>
                 (if current_offset < ecd_logical_offset chunk then (Err (Panic Arithmetic_overflow), cache)
                  else
                    let chunk_relative_offset = current_offset - ecd_logical_offset chunk in
                    if ecd_logical_size chunk < chunk_relative_offset then (Err (Panic Arithmetic_overflow), cache)
                    else
                      let chunk_available =
                        min (case usize_try_from (ecd_logical_size chunk - chunk_relative_offset) of
                               Some m \<Rightarrow> m | None \<Rightarrow> u64_limit - 1) (n - written) in
                      if ecd_compressed chunk then
                        case ewf_read_compressed_chunk runtime (chunk_index mod u32_limit) chunk cache of (r, cache) \<Rightarrow>
                          (and_then r (\<lambda>chunk_data.
                             if length chunk_data < chunk_relative_offset + chunk_available then Err (Panic Index_out_of_bounds)
                             else Ok (subslice chunk_relative_offset chunk_available chunk_data)), cache)
                      else
                        (and_then (ok_or (Ewf_error Ewf_chunk_segment_missing)
                                     (get_index (ewr_segments runtime) (ecd_segment_index chunk))) (\<lambda>segment.
                         and_then (ok_or (Ewf_error Ewf_data_offset_overflow)
                                     (checked_add (ecd_data_offset chunk) chunk_relative_offset)) (\<lambda>data_offset.
                           read_exact_at (egs_source segment) data_offset chunk_available)), cache))))"

text \<open>The loop; \<open>None\<close> stands for a loop that does not end.\<close>

partial_function (option) ewf_read_loop :: "EwfRuntime \<Rightarrow> nat \<Rightarrow> nat \<Rightarrow> byte list \<Rightarrow> ewf_cache \<Rightarrow> (byte list result \<times> ewf_cache) option" where
  "ewf_read_loop runtime n current_offset buf cache =
     (if length buf < n \<and> current_offset < ewr_media_size runtime then
        case ewf_read_step runtime n (length buf) current_offset cache of (r, cache) \<Rightarrow>
          (case r of
             Inl e \<Rightarrow> Some (Err e, cache)
           | Inr bytes \<Rightarrow>
               (case checked_add current_offset (length bytes) of
                  None \<Rightarrow> Some (Err (Ewf_error Ewf_read_offset_overflow), cache)
                | Some current_offset \<Rightarrow> ewf_read_loop runtime n current_offset (buf @ bytes) cache))
      else Some (Ok buf, cache))"

definition ewf_read_at :: "EwfRuntime \<Rightarrow> ewf_cache \<Rightarrow> nat \<Rightarrow> nat \<Rightarrow> (byte list result \<times> ewf_cache) option" where
  "ewf_read_at runtime cache offset n =
     (if ewr_media_size runtime \<le> offset \<or> n = 0 then Some (Ok [], cache) else ewf_read_loop runtime n offset [] cache)"

text \<open>The media source, with the state of the cache a read finds.\<close>

definition ewf_source :: "EwfRuntime \<Rightarrow> ewf_cache \<Rightarrow> data_source" where
  "ewf_source runtime cache =
     \<lparr>ds_read_at = \<lambda>offset n. fst (the (ewf_read_at runtime cache offset n)),
      ds_size = Ok (ewr_media_size runtime),
      ds_capabilities = with_preferred_chunk_size (capabilities_concurrent Expensive) (ewr_chunk_size runtime),
      ds_telemetry_name = ''ewf'',
      ds_origin_path = None\<rparr>"

definition ewf_open_source :: "EwfImage \<Rightarrow> ewf_cache \<Rightarrow> data_source" where
  "ewf_open_source img cache = ewf_source (ewi_runtime img) cache"

end
