(* ===== verification/Ewf_Media.thy ===== *)
theory Ewf_Media
  imports Ewf
begin

section \<open>The chunks tile the media\<close>

definition ewf_chunks_tile :: "nat \<Rightarrow> nat \<Rightarrow> EwfChunkDescriptor list \<Rightarrow> bool" where
  "ewf_chunks_tile chunk_size media_size chunks \<longleftrightarrow>
     (\<forall>i < length chunks. i * chunk_size < media_size \<and> ecd_logical_offset (chunks ! i) = i * chunk_size
        \<and> ecd_logical_size (chunks ! i) = min chunk_size (media_size - i * chunk_size))"

definition ewf_geometry :: "EwfBuilder \<Rightarrow> bool" where
  "ewf_geometry builder \<longleftrightarrow> ewb_chunk_size builder = ewb_sectors_per_chunk builder * ewb_bytes_per_sector builder
     \<and> ewb_media_size builder = ewb_number_of_sectors builder * ewb_bytes_per_sector builder"

lemma ewf_geometry_update [simp]:
  "ewf_geometry (b\<lparr>ewb_chunks := cs, ewb_next_chunk_logical_offset := k\<rparr>) = ewf_geometry b"
  "ewf_geometry (b\<lparr>ewb_md5_hash := h\<rparr>) = ewf_geometry b" "ewf_geometry (b\<lparr>ewb_sha1_hash := h'\<rparr>) = ewf_geometry b"
  by (simp_all add: ewf_geometry_def)

text \<open>What every section keeps of the builder; \<open>n\<close> is the number of the segments.\<close>

definition ewf_builder_ok :: "nat \<Rightarrow> EwfBuilder \<Rightarrow> bool" where
  "ewf_builder_ok n builder \<longleftrightarrow>
     (if ewb_saw_volume builder
      then 0 < ewb_chunk_size builder \<and> ewb_chunk_size builder < u32_limit \<and> ewb_media_size builder < u64_limit
        \<and> 0 < ewb_number_of_chunks builder \<and> ewf_geometry builder
        \<and> ewf_chunks_tile (ewb_chunk_size builder) (ewb_media_size builder) (ewb_chunks builder)
        \<and> ewb_next_chunk_logical_offset builder = min (length (ewb_chunks builder) * ewb_chunk_size builder) (ewb_media_size builder)
        \<and> (\<forall>c \<in> set (ewb_chunks builder). ecd_segment_index c < n \<and> ecd_data_offset c < u64_limit \<and> 0 < ecd_data_size c \<and> ecd_data_size c < u32_limit)
      else ewb_chunks builder = [] \<and> ewb_next_chunk_logical_offset builder = 0)"

lemma ewf_add_chunk_ok:
  assumes "ewf_add_chunk k e d d' b = Ok b'" "ewf_builder_ok n b" "ewb_saw_volume b" "k < n" "d < u64_limit"
  shows "ewf_builder_ok n b' \<and> ewb_saw_volume b'"
proof -
  let ?cs = "ewb_chunk_size b" and ?m = "ewb_media_size b" and ?c = "ewb_chunks b"
  from assms(1) obtain c where lt: "ewb_next_chunk_logical_offset b < ?m"
    and c: "ecd_logical_offset c = ewb_next_chunk_logical_offset b" "ecd_segment_index c = k" "ecd_data_offset c = d" "0 < ecd_data_size c" "ecd_data_size c < u32_limit"
      "ecd_logical_size c = min ?cs (?m - ewb_next_chunk_logical_offset b)"
    and b': "b' = b\<lparr>ewb_chunks := ?c @ [c], ewb_next_chunk_logical_offset := ewb_next_chunk_logical_offset b + ecd_logical_size c\<rparr>"
    by (force simp: ewf_add_chunk_def ewf_remaining_chunk_logical_size_def Let_def result_simps split: if_splits)
  have nx: "ewb_next_chunk_logical_offset b = length ?c * ?cs" "length ?c * ?cs < ?m"
    using lt assms(2,3) by (auto simp: ewf_builder_ok_def min_def split: if_splits)
  have "ewf_chunks_tile ?cs ?m (?c @ [c])"
    using assms(2,3) c nx by (auto simp: ewf_builder_ok_def ewf_chunks_tile_def nth_append less_Suc_eq)
  moreover have "length ?c * ?cs + min ?cs (?m - length ?c * ?cs) = min (length (?c @ [c]) * ?cs) ?m"
    using nx(2) by (auto simp: min_def)
  ultimately show ?thesis using assms(2-5) c nx b' by (simp add: ewf_builder_ok_def)
qed

lemma ewf_table_loop_ok:
  "ewf_table_loop k base end_offset es b = Ok b' \<Longrightarrow> ewf_builder_ok n b \<Longrightarrow> ewb_saw_volume b \<Longrightarrow> k < n
    \<Longrightarrow> ewf_builder_ok n b' \<and> ewb_saw_volume b'"
proof (induction es arbitrary: b)
  case (Cons e es)
  from Cons.prems(1) obtain d d' b2 where "ewf_add_chunk k e d d' b = Ok b2" "d < u64_limit" "ewf_table_loop k base end_offset es b2 = Ok b'"
    by (auto simp: and_then_eq_Ok ok_or_eq_Ok checked_add_eq_Some)
  with Cons.prems(2-) show ?case using ewf_add_chunk_ok [of k e d d' b b2 n] Cons.IH [of b2] by blast
qed simp

lemma ewf_builder_volume_ok:
  assumes "ewf_builder_volume b seg s = Ok b'" "ewf_builder_ok n b"
  shows "ewf_builder_ok n b'"
  using assms
  by (auto simp: ewf_builder_volume_def ewf_builder_ok_def ewf_geometry_def ewf_chunks_tile_def and_then_eq_Ok ok_or_eq_Ok
      checked_mul_eq_Some checked_mul_u32_eq_Some split: if_splits)

lemma ewf_read_sections_ok:
  "ewf_read_sections k seg ls ss b = Ok b' \<Longrightarrow> ewf_builder_ok n b \<Longrightarrow> k < n \<Longrightarrow> ewf_builder_ok n b'"
proof (induction k seg ls ss b rule: ewf_read_sections.induct)
  case (2 k seg ls s ss b)
  show ?case
  proof (cases "ewf_is_type s ''sectors''")
    case True
    with 2 show ?thesis by simp
  next
    case False
    with "2.prems"(1) obtain b2 where step: "(if ewf_is_type s ''disk'' \<or> ewf_is_type s ''volume'' then ewf_builder_volume b seg s
           else if ewf_is_type s ''table'' then ewf_builder_table b k seg s ls
           else if ewf_is_type s ''hash'' then
             and_then (ewf_read_hash_section (egs_source seg) s) (\<lambda>md5_hash. Ok (b\<lparr>ewb_md5_hash := Some md5_hash\<rparr>))
           else if ewf_is_type s ''digest'' then
             and_then (ewf_read_digest_section (egs_source seg) s) (\<lambda>(md5_hash, sha1_hash).
               Ok (b\<lparr>ewb_md5_hash := Some md5_hash, ewb_sha1_hash := Some sha1_hash\<rparr>))
           else Ok b) = Ok b2" and rest: "ewf_read_sections k seg ls ss b2 = Ok b'"
      by (auto simp: and_then_eq_Ok)
    have "ewf_builder_ok n b2"
    proof -
      have hash: "ewf_builder_ok n (b\<lparr>ewb_md5_hash := h\<rparr>)" "ewf_builder_ok n (b\<lparr>ewb_md5_hash := h, ewb_sha1_hash := h'\<rparr>)" for h h'
        using "2.prems"(2) by (simp_all add: ewf_builder_ok_def)
      have table: "ewf_builder_ok n b2" if "ewf_builder_table b k seg s ls = Ok b2"
        using that "2.prems"(2,3) ewf_table_loop_ok by (auto simp: ewf_builder_table_def and_then_eq_Ok split: if_splits)
      show ?thesis
        using step "2.prems"(2) hash table ewf_builder_volume_ok by (auto simp: and_then_eq_Ok split: if_splits)
    qed
    then show ?thesis using "2.IH"(2) [OF False step rest] rest "2.prems"(3) by blast
  qed
qed simp

lemma ewf_read_segments_loop_ok:
  "ewf_read_segments_loop k segs b = Ok b' \<Longrightarrow> ewf_builder_ok n b \<Longrightarrow> k + length segs \<le> n \<Longrightarrow> ewf_builder_ok n b'"
proof (induction segs arbitrary: k b)
  case (Cons seg segs)
  from Cons.prems(1) obtain b2 where "ewf_read_sections k seg None (egs_sections seg) b = Ok b2" "ewf_read_segments_loop (k + 1) segs b2 = Ok b'"
    by (auto simp: and_then_eq_Ok)
  with Cons.prems(2,3) show ?case using ewf_read_sections_ok [of k seg None "egs_sections seg" b b2 n] Cons.IH [of "k + 1" b2] by simp
qed simp

definition ewf_runtime_ok :: "EwfRuntime \<Rightarrow> bool" where
  "ewf_runtime_ok rt \<longleftrightarrow> 0 < ewr_chunk_size rt \<and> ewr_media_size rt < u64_limit \<and> ewr_chunks rt \<noteq> []
     \<and> ewr_media_size rt \<le> length (ewr_chunks rt) * ewr_chunk_size rt
     \<and> ewf_chunks_tile (ewr_chunk_size rt) (ewr_media_size rt) (ewr_chunks rt)
     \<and> (\<forall>c \<in> set (ewr_chunks rt). ecd_segment_index c < length (ewr_segments rt) \<and> ecd_data_offset c < u64_limit \<and> 0 < ecd_data_size c \<and> ecd_data_size c < u32_limit)"

lemma ewf_open_runtime:
  assumes "ewf_open resolver file_name = Ok img"
  shows "ewf_runtime_ok (ewi_runtime img)" "length (ewr_chunks (ewi_runtime img)) mod u32_limit = ewi_number_of_chunks img"
    "ewi_media_size img = ewr_media_size (ewi_runtime img)"
    "ewr_chunk_size (ewi_runtime img) = ewi_sectors_per_chunk img * ewi_bytes_per_sector img"
    "ewi_media_size img = ewi_number_of_sectors img * ewi_bytes_per_sector img"
proof -
  from assms obtain segs b where b: "ewf_read_segments segs ewf_builder_new = Ok b"
    and img: "ewi_runtime img = \<lparr>ewr_segments = segs, ewr_chunks = ewb_chunks b, ewr_chunk_size = ewb_chunk_size b, ewr_media_size = ewb_media_size b\<rparr>"
      "ewi_number_of_chunks img = ewb_number_of_chunks b" "ewi_media_size img = ewb_media_size b"
      "ewi_sectors_per_chunk img = ewb_sectors_per_chunk b" "ewi_bytes_per_sector img = ewb_bytes_per_sector b"
      "ewi_number_of_sectors img = ewb_number_of_sectors b"
    by (auto simp: ewf_open_def Let_def and_then_eq_Ok)
  from b have loop: "ewf_read_segments_loop 0 segs ewf_builder_new = Ok b" and saw: "ewb_saw_volume b"
    and number: "length (ewb_chunks b) mod u32_limit = ewb_number_of_chunks b" and nx: "ewb_next_chunk_logical_offset b = ewb_media_size b"
    by (auto simp: ewf_read_segments_def and_then_eq_Ok split: if_splits)
  have ok: "ewf_builder_ok (length segs) b"
    by (rule ewf_read_segments_loop_ok [OF loop]) (simp_all add: ewf_builder_ok_def ewf_builder_new_def)
  then have "0 < ewb_number_of_chunks b" using saw by (simp add: ewf_builder_ok_def)
  then have "ewb_chunks b \<noteq> []" using number by auto
  then show "ewf_runtime_ok (ewi_runtime img)"
    using ok saw nx by (auto simp: ewf_runtime_ok_def ewf_builder_ok_def img)
  show "length (ewr_chunks (ewi_runtime img)) mod u32_limit = ewi_number_of_chunks img" "ewi_media_size img = ewr_media_size (ewi_runtime img)"
    using number by (simp_all add: img)
  show "ewr_chunk_size (ewi_runtime img) = ewi_sectors_per_chunk img * ewi_bytes_per_sector img"
    "ewi_media_size img = ewi_number_of_sectors img * ewi_bytes_per_sector img"
    using ok saw by (simp_all add: img ewf_builder_ok_def ewf_geometry_def)
qed

section \<open>The contents of the media\<close>

text \<open>What a chunk holds; \<open>cs\<close> are the contents of the segment files.  A stored chunk is its bytes, a compressed one what ZLIB makes of them.\<close>

definition ewf_chunk_content :: "nat \<Rightarrow> byte list list \<Rightarrow> EwfChunkDescriptor \<Rightarrow> byte list option" where
  "ewf_chunk_content chunk_size cs chunk =
     (let content = cs ! ecd_segment_index chunk in
      if ecd_compressed chunk then
        if length content < ecd_data_offset chunk + ecd_data_size chunk then None
        else case zlib_decompress zlib_new (subslice (ecd_data_offset chunk) (ecd_data_size chunk) content) (replicate chunk_size 0) of
          Inl e \<Rightarrow> None
        | Inr (context, data) \<Rightarrow>
            if zlc_uncompressed_data_size context < ecd_logical_size chunk \<or> length data < ecd_logical_size chunk then None
            else Some (subslice 0 (ecd_logical_size chunk) data)
      else if ecd_data_offset chunk + ecd_logical_size chunk \<le> length content
      then Some (subslice (ecd_data_offset chunk) (ecd_logical_size chunk) content) else None)"

lemma ewf_chunk_content_length: "ewf_chunk_content chunk_size cs chunk = Some d \<Longrightarrow> length d = ecd_logical_size chunk"
  by (auto simp: ewf_chunk_content_def Let_def slice_simps split: if_splits sum.splits)

text \<open>The cached chunks are what decompression gives.\<close>

definition ewf_cache_ok :: "EwfRuntime \<Rightarrow> byte list list \<Rightarrow> ewf_cache \<Rightarrow> bool" where
  "ewf_cache_ok rt cs cache \<longleftrightarrow> (\<forall>i d. cache i = Some d \<longrightarrow> i < length (ewr_chunks rt)
     \<and> ewf_chunk_content (ewr_chunk_size rt) cs (ewr_chunks rt ! i) = Some d)"

lemma ewf_cache_ok_empty: "ewf_cache_ok rt cs Map.empty"
  by (simp add: ewf_cache_ok_def)

lemma concat_uniform:
  assumes "\<forall>i < length xs. i * c < m \<and> length (xs ! i) = min c (m - i * c)" "m \<le> length xs * c"
  shows "length (concat xs) = m"
    "off < m \<Longrightarrow> off + k \<le> off div c * c + length (xs ! (off div c)) \<Longrightarrow>
      subslice off k (concat xs) = subslice (off - off div c * c) k (xs ! (off div c))"
proof -
  have pre: "length (concat (take i xs)) = min (i * c) m" if "i \<le> length xs" for i
    using that
  proof (induction i)
    case (Suc i)
    then have i: "i < length xs" "i * c < m" "length (xs ! i) = min c (m - i * c)" using assms(1) by auto
    then have "length (concat (take (Suc i) xs)) = i * c + min c (m - i * c)"
      using Suc by (simp add: take_Suc_conv_app_nth)
    then show ?case using i(2) by (auto simp: min_def)
  qed simp
  show "length (concat xs) = m" using pre [of "length xs"] assms(2) by simp
  assume off: "off < m" and k: "off + k \<le> off div c * c + length (xs ! (off div c))"
  let ?i = "off div c"
  have "0 < c" using off assms(2) by (cases c) auto
  then have i: "?i < length xs" using off assms(2) by (simp add: div_less_iff_less_mult)
  have le: "?i * c \<le> off" by simp
  have "concat xs = concat (take ?i xs) @ xs ! ?i @ concat (drop (Suc ?i) xs)"
    using i by (metis append_take_drop_id concat.simps(2) concat_append Cons_nth_drop_Suc)
  moreover have "length (concat (take ?i xs)) = ?i * c" using pre [of ?i] i le off by simp
  ultimately show "subslice off k (concat xs) = subslice (off - ?i * c) k (xs ! ?i)"
    using le k by (simp add: slice_append_right slice_append_left)
qed

definition ewf_media_ok :: "EwfRuntime \<Rightarrow> byte list list \<Rightarrow> byte list list \<Rightarrow> bool" where
  "ewf_media_ok rt cs xs \<longleftrightarrow> ewf_runtime_ok rt \<and> length (ewr_chunks rt) < u32_limit
     \<and> list_all2 (\<lambda>s c. byte_source (egs_source s) c) (ewr_segments rt) cs
     \<and> list_all2 (\<lambda>chunk x. ewf_chunk_content (ewr_chunk_size rt) cs chunk = Some x) (ewr_chunks rt) xs"

lemma ewf_media_chunk:
  assumes "ewf_media_ok rt cs xs" "i < length (ewr_chunks rt)"
  shows "ewf_chunk_content (ewr_chunk_size rt) cs (ewr_chunks rt ! i) = Some (xs ! i)"
    "length (xs ! i) = min (ewr_chunk_size rt) (ewr_media_size rt - i * ewr_chunk_size rt)" "i * ewr_chunk_size rt < ewr_media_size rt"
    "ecd_logical_offset (ewr_chunks rt ! i) = i * ewr_chunk_size rt"
    "ecd_logical_size (ewr_chunks rt ! i) = length (xs ! i)"
    "ecd_segment_index (ewr_chunks rt ! i) < length (ewr_segments rt)"
    "byte_source (egs_source (ewr_segments rt ! ecd_segment_index (ewr_chunks rt ! i))) (cs ! ecd_segment_index (ewr_chunks rt ! i))"
proof -
  show c: "ewf_chunk_content (ewr_chunk_size rt) cs (ewr_chunks rt ! i) = Some (xs ! i)"
    using assms by (auto simp: ewf_media_ok_def dest: list_all2_nthD)
  show "i * ewr_chunk_size rt < ewr_media_size rt" "ecd_logical_offset (ewr_chunks rt ! i) = i * ewr_chunk_size rt"
    using assms by (simp_all add: ewf_media_ok_def ewf_runtime_ok_def ewf_chunks_tile_def)
  show "ecd_logical_size (ewr_chunks rt ! i) = length (xs ! i)" using ewf_chunk_content_length [OF c] by simp
  then show "length (xs ! i) = min (ewr_chunk_size rt) (ewr_media_size rt - i * ewr_chunk_size rt)"
    using assms by (simp add: ewf_media_ok_def ewf_runtime_ok_def ewf_chunks_tile_def)
  show k: "ecd_segment_index (ewr_chunks rt ! i) < length (ewr_segments rt)"
    using assms by (simp add: ewf_media_ok_def ewf_runtime_ok_def)
  then show "byte_source (egs_source (ewr_segments rt ! ecd_segment_index (ewr_chunks rt ! i))) (cs ! ecd_segment_index (ewr_chunks rt ! i))"
    using assms by (auto simp: ewf_media_ok_def dest: list_all2_nthD)
qed

lemma ewf_media_concat:
  assumes "ewf_media_ok rt cs xs"
  defines "c \<equiv> ewr_chunk_size rt"
  shows "length (concat xs) = ewr_media_size rt"
    "off < ewr_media_size rt \<Longrightarrow> off div c < length (ewr_chunks rt)"
    "off < ewr_media_size rt \<Longrightarrow> off - off div c * c < length (xs ! (off div c))"
    "off < ewr_media_size rt \<Longrightarrow> off + k \<le> off div c * c + length (xs ! (off div c)) \<Longrightarrow>
      subslice off k (concat xs) = subslice (off - off div c * c) k (xs ! (off div c))"
proof -
  have len: "length xs = length (ewr_chunks rt)" using assms(1) by (auto simp: ewf_media_ok_def dest: list_all2_lengthD)
  have le: "ewr_media_size rt \<le> length xs * c" "0 < c" using assms(1) len by (simp_all add: ewf_media_ok_def ewf_runtime_ok_def c_def)
  have xs: "\<forall>i < length xs. i * c < ewr_media_size rt \<and> length (xs ! i) = min c (ewr_media_size rt - i * c)"
    using ewf_media_chunk(2,3) [OF assms(1)] len by (simp add: c_def)
  note u = concat_uniform [OF xs le(1)]
  show "length (concat xs) = ewr_media_size rt" by (rule u(1))
  show "off < ewr_media_size rt \<Longrightarrow> off + k \<le> off div c * c + length (xs ! (off div c)) \<Longrightarrow>
      subslice off k (concat xs) = subslice (off - off div c * c) k (xs ! (off div c))" by (rule u(2))
  assume off: "off < ewr_media_size rt"
  then have i: "off div c < length xs" using le by (simp add: div_less_iff_less_mult)
  then show "off div c < length (ewr_chunks rt)" by (simp add: len)
  have "off - off div c * c = off mod c" by (simp add: minus_div_mult_eq_mod)
  moreover have "off mod c < c" "off div c * c + off mod c = off" using le(2) by simp_all
  ultimately show "off - off div c * c < length (xs ! (off div c))" using xs i off by (auto simp: min_def)
qed

lemma ewf_decompress_chunk_content:
  assumes "ewf_media_ok rt cs xs" "i < length (ewr_chunks rt)" "ecd_compressed (ewr_chunks rt ! i)"
  shows "ewf_decompress_chunk rt (ewr_chunks rt ! i) = Ok d \<Longrightarrow> d = xs ! i"
    "(\<forall>s \<in> set (ewr_segments rt). \<exists>c. total_source (egs_source s) c) \<Longrightarrow> ewf_decompress_chunk rt (ewr_chunks rt ! i) = Ok (xs ! i)"
proof -
  let ?c = "ewr_chunks rt ! i"
  let ?s = "egs_source (ewr_segments rt ! ecd_segment_index ?c)" and ?content = "cs ! ecd_segment_index ?c"
  note m = ewf_media_chunk [OF assms(1,2)]
  from m(1) assms(3) obtain ctx data where z: "zlib_decompress zlib_new (subslice (ecd_data_offset ?c) (ecd_data_size ?c) ?content)
      (replicate (ewr_chunk_size rt) 0) = Ok (ctx, data)" "\<not> zlc_uncompressed_data_size ctx < ecd_logical_size ?c"
      "\<not> length data < ecd_logical_size ?c" "xs ! i = subslice 0 (ecd_logical_size ?c) data"
      and inside: "ecd_data_offset ?c + ecd_data_size ?c \<le> length ?content"
    by (auto simp: ewf_chunk_content_def Let_def split: if_splits sum.splits)
  have get: "get_index (ewr_segments rt) (ecd_segment_index ?c) = Some (ewr_segments rt ! ecd_segment_index ?c)"
    using m(6) by (simp add: get_index_def)
  show "d = xs ! i" if "ewf_decompress_chunk rt ?c = Ok d"
  proof -
    from that get obtain data' where "read_exact_at ?s (ecd_data_offset ?c) (ecd_data_size ?c) = Ok data'"
      "and_then (zlib_decompress zlib_new data' (replicate (ewr_chunk_size rt) 0)) (\<lambda>(zlib_context, decompressed_data).
       if zlc_uncompressed_data_size zlib_context < ecd_logical_size ?c then Err (Ewf_error Ewf_chunk_too_small)
       else if length decompressed_data < ecd_logical_size ?c then Err (Panic Index_out_of_bounds)
       else Ok (subslice 0 (ecd_logical_size ?c) decompressed_data)) = Ok d"
      by (auto simp: ewf_decompress_chunk_def and_then_eq_Ok)
    then show ?thesis using byte_source.read_exact_at_sound [OF m(7)] z by auto
  qed
  assume total: "\<forall>s \<in> set (ewr_segments rt). \<exists>c. total_source (egs_source s) c"
  then obtain c where c: "total_source ?s c" using m(6) by (meson nth_mem)
  have "c = ?content" using byte_source.read_all_sound [OF m(7) total_source.read_all_total [OF c]] .
  then have "read_exact_at ?s (ecd_data_offset ?c) (ecd_data_size ?c) = Ok (subslice (ecd_data_offset ?c) (ecd_data_size ?c) ?content)"
    using total_source.read_exact_at_total [OF c, of "ecd_data_offset ?c" "ecd_data_size ?c"] inside byte_source.content_u64 [OF m(7)] by simp
  then show "ewf_decompress_chunk rt ?c = Ok (xs ! i)" using z get by (simp add: ewf_decompress_chunk_def)
qed

section \<open>Reading\<close>

text \<open>A round of a read of an opened image takes its bytes from the chunk that holds the offset.\<close>

lemma ewf_read_step_chunk:
  assumes rt: "ewf_runtime_ok rt" "length (ewr_chunks rt) < u32_limit" and off: "off < ewr_media_size rt"
  defines "i \<equiv> off div ewr_chunk_size rt"
  defines "chunk \<equiv> ewr_chunks rt ! i"
  defines "rel \<equiv> off - i * ewr_chunk_size rt"
  shows "i < length (ewr_chunks rt)" "rel < ecd_logical_size chunk" "off + (ecd_logical_size chunk - rel) \<le> ewr_media_size rt"
    "ecd_segment_index chunk < length (ewr_segments rt)" "ecd_logical_size chunk \<le> ewr_chunk_size rt"
    "i * ewr_chunk_size rt \<le> off"
    "k = min (ecd_logical_size chunk - rel) (n - written) \<Longrightarrow> ewf_read_step rt n written off cache =
      (if ecd_compressed chunk then
         case ewf_read_compressed_chunk rt i chunk cache of (r, cache) \<Rightarrow>
           (and_then r (\<lambda>data. if length data < rel + k then Err (Panic Index_out_of_bounds) else Ok (subslice rel k data)), cache)
       else (and_then (ok_or (Ewf_error Ewf_data_offset_overflow) (checked_add (ecd_data_offset chunk) rel)) (\<lambda>data_offset.
               read_exact_at (egs_source (ewr_segments rt ! ecd_segment_index chunk)) data_offset k), cache))"
proof -
  have c: "0 < ewr_chunk_size rt" "ewr_media_size rt < u64_limit" "ewr_media_size rt \<le> length (ewr_chunks rt) * ewr_chunk_size rt"
    using rt by (simp_all add: ewf_runtime_ok_def)
  then show i: "i < length (ewr_chunks rt)" using off by (simp add: i_def div_less_iff_less_mult)
  then have chunk: "i * ewr_chunk_size rt < ewr_media_size rt" "ecd_logical_offset chunk = i * ewr_chunk_size rt"
    "ecd_logical_size chunk = min (ewr_chunk_size rt) (ewr_media_size rt - i * ewr_chunk_size rt)"
    using rt(1) by (simp_all add: ewf_runtime_ok_def ewf_chunks_tile_def chunk_def)
  show seg: "ecd_segment_index chunk < length (ewr_segments rt)" using rt(1) i by (simp add: ewf_runtime_ok_def chunk_def)
  show le: "i * ewr_chunk_size rt \<le> off" by (simp add: i_def)
  have "rel = off mod ewr_chunk_size rt" by (simp add: rel_def i_def minus_div_mult_eq_mod)
  then have "rel < ewr_chunk_size rt" using c(1) by simp
  then show rel: "rel < ecd_logical_size chunk" using off le unfolding chunk(3) rel_def by linarith
  show "off + (ecd_logical_size chunk - rel) \<le> ewr_media_size rt" using rel le unfolding chunk(3) rel_def by linarith
  show "ecd_logical_size chunk \<le> ewr_chunk_size rt" by (simp add: chunk(3))
  assume k: "k = min (ecd_logical_size chunk - rel) (n - written)"
  have "ecd_logical_size chunk - rel < u64_limit" using chunk(3) c(2) by linarith
  moreover have "i < u64_limit" "i mod u32_limit = i" using i rt(2) u32_lt_u64 [of i] by simp_all
  ultimately have get: "usize_try_from (ecd_logical_size chunk - rel) = Some (ecd_logical_size chunk - rel)" "usize_try_from i = Some i"
    "get_index (ewr_chunks rt) i = Some chunk" "get_index (ewr_segments rt) (ecd_segment_index chunk) = Some (ewr_segments rt ! ecd_segment_index chunk)"
    using i seg by (simp_all add: usize_try_from_def get_index_def chunk_def)
  have "\<not> off < ecd_logical_offset chunk" "off - ecd_logical_offset chunk = rel" "\<not> ecd_logical_size chunk < rel"
    using chunk(2) le rel by (simp_all add: rel_def not_less)
  then show "ewf_read_step rt n written off cache =
      (if ecd_compressed chunk then
         case ewf_read_compressed_chunk rt i chunk cache of (r, cache) \<Rightarrow>
           (and_then r (\<lambda>data. if length data < rel + k then Err (Panic Index_out_of_bounds) else Ok (subslice rel k data)), cache)
       else (and_then (ok_or (Ewf_error Ewf_data_offset_overflow) (checked_add (ecd_data_offset chunk) rel)) (\<lambda>data_offset.
               read_exact_at (egs_source (ewr_segments rt ! ecd_segment_index chunk)) data_offset k), cache))"
    using c(1) get \<open>i mod u32_limit = i\<close> unfolding ewf_read_step_def Let_def i_def [symmetric]
    by (simp add: k case_prod_unfold cong: if_cong)
qed

text \<open>
  The loop, for what its rounds keep: \<open>I\<close> of the cache, \<open>R\<close> of the bytes read and \<open>E\<close> of an error.
  It ends, since every round reads a byte.
\<close>

lemma ewf_read_loop_rule:
  assumes step: "\<And>buf cache. R buf \<Longrightarrow> I cache \<Longrightarrow> length buf < n \<Longrightarrow> off + length buf < ewr_media_size rt \<Longrightarrow>
      \<exists>r cache'. ewf_read_step rt n (length buf) (off + length buf) cache = (r, cache') \<and> I cache' \<and>
        (case r of Inl e \<Rightarrow> E e | Inr bs \<Rightarrow> bs \<noteq> [] \<and> R (buf @ bs) \<and> length (buf @ bs) \<le> n \<and> off + length (buf @ bs) \<le> ewr_media_size rt)"
    and media: "ewr_media_size rt < u64_limit"
  shows "R buf \<Longrightarrow> I cache \<Longrightarrow> length buf \<le> n \<Longrightarrow> off + length buf \<le> ewr_media_size rt \<Longrightarrow>
    \<exists>r cache'. ewf_read_loop rt n (off + length buf) buf cache = Some (r, cache') \<and> I cache' \<and>
      (case r of Inl e \<Rightarrow> E e | Inr bs \<Rightarrow> R bs \<and> length bs \<le> n \<and> off + length bs \<le> ewr_media_size rt \<and> (length bs = n \<or> off + length bs = ewr_media_size rt))"
proof (induction "n - length buf" arbitrary: buf cache rule: less_induct)
  case less
  let ?cur = "off + length buf"
  note unfold = ewf_read_loop.simps [of rt n ?cur buf cache]
  show ?case
  proof (cases "length buf < n \<and> ?cur < ewr_media_size rt")
    case False
    then have "length buf = n \<or> ?cur = ewr_media_size rt" using less.prems(3,4) by auto
    moreover have "ewf_read_loop rt n ?cur buf cache = Some (Ok buf, cache)" unfolding unfold by (rule if_not_P [OF False])
    ultimately show ?thesis using less.prems by auto
  next
    case True
    obtain r cache' where r: "ewf_read_step rt n (length buf) ?cur cache = (r, cache')" "I cache'"
      "case r of Inl e \<Rightarrow> E e | Inr bs \<Rightarrow> bs \<noteq> [] \<and> R (buf @ bs) \<and> length (buf @ bs) \<le> n \<and> off + length (buf @ bs) \<le> ewr_media_size rt"
      using step [OF less.prems(1,2)] True by blast
    show ?thesis
    proof (cases r)
      case (Inl e)
      then show ?thesis using True r by (simp add: unfold)
    next
      case (Inr bs)
      then have bs: "bs \<noteq> []" "R (buf @ bs)" "length (buf @ bs) \<le> n" "off + length (buf @ bs) \<le> ewr_media_size rt" using r(3) by simp_all
      then have add: "checked_add ?cur (length bs) = Some (off + length (buf @ bs))" using media by (simp add: checked_add_def)
      have eq: "ewf_read_loop rt n ?cur buf cache = ewf_read_loop rt n (off + length (buf @ bs)) (buf @ bs) cache'"
        using True r(1) Inr add by (simp add: unfold del: length_append)
      have "n - length (buf @ bs) < n - length buf" using bs(1) True length_greater_0_conv [of bs] unfolding length_append by linarith
      then show ?thesis unfolding eq using less.hyps bs(2) r(2) bs(3,4) by blast
    qed
  qed
qed

text \<open>What a compressed chunk gives, from the cache or decompressed.\<close>

lemma ewf_read_compressed_chunk_rule:
  assumes "ewf_read_compressed_chunk rt i chunk cache = (r, cache')"
  shows "r = (case cache i of Some data \<Rightarrow> Ok data | None \<Rightarrow> ewf_decompress_chunk rt chunk)"
    "cache' = cache \<or> (\<exists>data. cache i = None \<and> r = Ok data \<and> cache' = cache(i \<mapsto> data))"
proof -
  consider data where "cache i = Some data" "r = Ok data" "cache' = cache"
    | e where "cache i = None" "ewf_decompress_chunk rt chunk = Err e" "r = Err e" "cache' = cache"
    | data where "cache i = None" "ewf_decompress_chunk rt chunk = Ok data" "r = Ok data" "cache' = cache(i \<mapsto> data)"
    using assms by (cases "cache i"; cases "ewf_decompress_chunk rt chunk") (auto simp: ewf_read_compressed_chunk_def ewf_cache_chunk_def)
  then show "r = (case cache i of Some data \<Rightarrow> Ok data | None \<Rightarrow> ewf_decompress_chunk rt chunk)"
    "cache' = cache \<or> (\<exists>data. cache i = None \<and> r = Ok data \<and> cache' = cache(i \<mapsto> data))"
    by (cases; simp)+
qed

lemma ewf_read_at_content:
  assumes m: "ewf_media_ok rt cs xs" and cache: "ewf_cache_ok rt cs cache"
  shows "\<exists>r cache'. ewf_read_at rt cache off n = Some (r, cache') \<and> ewf_cache_ok rt cs cache'
    \<and> (\<forall>bs. r = Ok bs \<longrightarrow> bs = subslice off n (concat xs))
    \<and> ((\<forall>s \<in> set (ewr_segments rt). \<exists>c. total_source (egs_source s) c) \<longrightarrow> r = Ok (subslice off n (concat xs)))"
proof (cases "ewr_media_size rt \<le> off \<or> n = 0")
  case True
  then have "subslice off n (concat xs) = []" using ewf_media_concat(1) [OF m] by auto
  with True cache show ?thesis by (auto simp: ewf_read_at_def)
next
  case False
  let ?total = "\<forall>s \<in> set (ewr_segments rt). \<exists>c. total_source (egs_source s) c"
  have rt: "ewf_runtime_ok rt" "length (ewr_chunks rt) < u32_limit" using m by (simp_all add: ewf_media_ok_def)
  note u = ewf_media_concat [OF m]
  have step: "\<exists>r cache'. ewf_read_step rt n (length buf) (off + length buf) cache = (r, cache') \<and> ewf_cache_ok rt cs cache' \<and>
      (case r of Inl e \<Rightarrow> \<not> ?total | Inr bs \<Rightarrow> bs \<noteq> [] \<and> buf @ bs = subslice off (length (buf @ bs)) (concat xs)
         \<and> length (buf @ bs) \<le> n \<and> off + length (buf @ bs) \<le> ewr_media_size rt)"
    if buf: "buf = subslice off (length buf) (concat xs)" and cache: "ewf_cache_ok rt cs cache"
      and n: "length buf < n" and cur: "off + length buf < ewr_media_size rt" for buf cache
  proof -
    let ?cur = "off + length buf"
    define i where i: "i = ?cur div ewr_chunk_size rt"
    define rel where rel: "rel = ?cur - i * ewr_chunk_size rt"
    let ?c = "ewr_chunks rt ! i" and ?x = "xs ! i"
    note s = ewf_read_step_chunk [OF rt cur, folded i, folded rel]
    note c = ewf_media_chunk [OF m s(1)]
    define k where "k = min (ecd_logical_size ?c - rel) (n - length buf)"
    have k: "0 < k" "k \<le> n - length buf" "rel + k \<le> length ?x" "?cur + k \<le> ewr_media_size rt"
      using s(2,3) n c(5) by (auto simp: k_def)
    have slice: "subslice ?cur k (concat xs) = subslice rel k ?x"
      using u(4) [OF cur, folded i, folded rel] k(3) s(6) unfolding rel by simp
    have good: "case Ok (subslice rel k ?x) of Inl e \<Rightarrow> \<not> ?total | Inr bs \<Rightarrow> bs \<noteq> [] \<and> buf @ bs = subslice off (length (buf @ bs)) (concat xs)
         \<and> length (buf @ bs) \<le> n \<and> off + length (buf @ bs) \<le> ewr_media_size rt"
    proof -
      have len: "length (subslice rel k ?x) = k" using k(3) by (simp add: length_slice)
      have "buf @ subslice rel k ?x = subslice off (length buf + k) (concat xs)"
        using slice_append [of off "length buf" "concat xs" k] buf slice by simp
      then have "buf @ subslice rel k ?x = subslice off (length (buf @ subslice rel k ?x)) (concat xs)" unfolding length_append len .
      moreover have "subslice rel k ?x \<noteq> []" using len k(1) by auto
      moreover have "length (buf @ subslice rel k ?x) \<le> n" "off + length (buf @ subslice rel k ?x) \<le> ewr_media_size rt" using k len n by simp_all
      ultimately show ?thesis unfolding sum.case by blast
    qed
    have fin: ?thesis if "ewf_read_step rt n (length buf) ?cur cache = (r, cache')" "ewf_cache_ok rt cs cache'"
      "(\<exists>e. r = Err e) \<and> \<not> ?total \<or> r = Ok (subslice rel k ?x)" for r cache'
    proof -
      have "case r of Inl e \<Rightarrow> \<not> ?total | Inr bs \<Rightarrow> bs \<noteq> [] \<and> buf @ bs = subslice off (length (buf @ bs)) (concat xs)
         \<and> length (buf @ bs) \<le> n \<and> off + length (buf @ bs) \<le> ewr_media_size rt"
        using that(3)
      proof (elim disjE conjE exE)
        fix e
        assume "r = Err e" "\<not> ?total"
        then show ?thesis by simp
      next
        assume "r = Ok (subslice rel k ?x)"
        then show ?thesis using good by (simp only:)
      qed
      then show ?thesis using that(1,2) by blast
    qed
    note eq = s(7) [OF k_def, of cache]
    show ?thesis
    proof (cases "ecd_compressed ?c")
      case True
      note d = ewf_decompress_chunk_content [OF m s(1) True]
      obtain r cache' where r: "ewf_read_compressed_chunk rt i ?c cache = (r, cache')" by (cases "ewf_read_compressed_chunk rt i ?c cache")
      note rule = ewf_read_compressed_chunk_rule [OF r]
      have "cache i = Some data \<Longrightarrow> data = ?x" for data using cache c(1) unfolding ewf_cache_ok_def by force
      then have "r = Ok ?x \<or> r = ewf_decompress_chunk rt ?c" using rule(1) by (cases "cache i") auto
      then have data: "\<forall>data. r = Ok data \<longrightarrow> data = ?x" "?total \<Longrightarrow> r = Ok ?x" using d by (metis sum.inject(2), metis)
      have "ewf_cache_ok rt cs (cache(i \<mapsto> ?x))" using cache c(1) s(1) by (simp add: ewf_cache_ok_def)
      then have "ewf_cache_ok rt cs cache'" using rule(2) cache data(1) by blast
      moreover have "ewf_read_step rt n (length buf) ?cur cache =
          (and_then r (\<lambda>data. if length data < rel + k then Err (Panic Index_out_of_bounds) else Ok (subslice rel k data)), cache')"
        using eq True r by simp
      moreover have "(\<exists>e. r = Err e) \<and> \<not> ?total \<or> r = Ok ?x" using data by (cases r) auto
      then have "(\<exists>e. and_then r (\<lambda>data. if length data < rel + k then Err (Panic Index_out_of_bounds) else Ok (subslice rel k data)) = Err e) \<and> \<not> ?total
          \<or> and_then r (\<lambda>data. if length data < rel + k then Err (Panic Index_out_of_bounds) else Ok (subslice rel k data)) = Ok (subslice rel k ?x)"
        using k(3) by auto
      ultimately show ?thesis by (intro fin)
    next
      case False
      let ?s = "egs_source (ewr_segments rt ! ecd_segment_index ?c)" and ?content = "cs ! ecd_segment_index ?c"
      from c(1) False have x: "?x = subslice (ecd_data_offset ?c) (length ?x) ?content" "ecd_data_offset ?c + length ?x \<le> length ?content"
        using c(5) by (auto simp: ewf_chunk_content_def Let_def split: if_splits)
      have part: "subslice (ecd_data_offset ?c + rel) k ?content = subslice rel k ?x"
        by (subst x(1)) (use k(3) in \<open>simp add: slice_slice min_def\<close>)
      have bound: "ecd_data_offset ?c + rel + k \<le> length ?content" "length ?content < u64_limit"
        using x(2) k(3) byte_source.content_u64 [OF c(7)] by linarith+
      have read: "ewf_read_step rt n (length buf) ?cur cache = (read_exact_at ?s (ecd_data_offset ?c + rel) k, cache)"
        using eq False bound by (simp add: checked_add_def)
      show ?thesis
      proof (cases "read_exact_at ?s (ecd_data_offset ?c + rel) k")
        case (Inr bs)
        then have "read_exact_at ?s (ecd_data_offset ?c + rel) k = Ok (subslice rel k ?x)"
          using byte_source.read_exact_at_sound [OF c(7)] part by auto
        with read cache show ?thesis by (intro fin) auto
      next
        case (Inl e)
        have "\<not> ?total"
        proof
          assume ?total
          then obtain c' where c': "total_source ?s c'" using c(6) by (meson nth_mem)
          have "c' = ?content" using byte_source.read_all_sound [OF c(7) total_source.read_all_total [OF c']] .
          then show False using total_source.read_exact_at_total [OF c', of "ecd_data_offset ?c + rel" k] bound Inl by simp
        qed
        with read cache Inl show ?thesis by (intro fin) auto
      qed
    qed
  qed
  have media: "ewr_media_size rt < u64_limit" using rt(1) by (simp add: ewf_runtime_ok_def)
  have "\<exists>r cache'. ewf_read_loop rt n (off + length ([] :: byte list)) [] cache = Some (r, cache') \<and> ewf_cache_ok rt cs cache' \<and>
    (case r of Inl e \<Rightarrow> \<not> ?total | Inr bs \<Rightarrow> bs = subslice off (length bs) (concat xs) \<and> length bs \<le> n \<and> off + length bs \<le> ewr_media_size rt
      \<and> (length bs = n \<or> off + length bs = ewr_media_size rt))"
    by (rule ewf_read_loop_rule [where R = "\<lambda>buf. buf = subslice off (length buf) (concat xs)" and I = "ewf_cache_ok rt cs" and E = "\<lambda>_. \<not> ?total", OF step media])
      (use cache False in simp_all)
  then obtain r cache' where r: "ewf_read_loop rt n off [] cache = Some (r, cache')" "ewf_cache_ok rt cs cache'"
    "case r of Inl e \<Rightarrow> \<not> ?total | Inr bs \<Rightarrow> bs = subslice off (length bs) (concat xs) \<and> length bs \<le> n \<and> off + length bs \<le> ewr_media_size rt
      \<and> (length bs = n \<or> off + length bs = ewr_media_size rt)"
    unfolding list.size add_0_right by blast
  have sound: "bs = subslice off n (concat xs)" if "r = Ok bs" for bs
  proof -
    from r(3) have bs: "bs = subslice off (length bs) (concat xs)" "length bs \<le> n" "length bs = n \<or> off + length bs = length (concat xs)"
      unfolding that sum.case u(1) by blast+
    then have "length bs = min n (length (concat xs) - off)" using arg_cong [OF bs(1), of length] unfolding length_slice by linarith
    then show ?thesis using bs(1) slice_min by metis
  qed
  have "r = Ok (subslice off n (concat xs))" if ?total proof (cases r)
    case (Inl e)
    then show ?thesis using r(3) that by simp
  next
    case (Inr bs)
    then show ?thesis using sound [OF Inr] by simp
  qed
  then have "ewf_read_at rt cache off n = Some (r, cache')" "ewf_cache_ok rt cs cache'" "\<forall>bs. r = Ok bs \<longrightarrow> bs = subslice off n (concat xs)"
    "?total \<longrightarrow> r = Ok (subslice off n (concat xs))"
    using False r(1,2) sound by (simp add: ewf_read_at_def, blast+)
  then show ?thesis by blast
qed

end
