(* ===== verification/Ewf_Sample.thy ===== *)
theory Ewf_Sample
  imports Ewf_Media Memory_Source
begin

text \<open>
  A small EWF image for the witnesses of its properties: one segment file with a medium of two bytes in two
  chunks, the first compressed and the second stored.
\<close>

section \<open>The segment file\<close>

definition ewf_sample_section :: "string \<Rightarrow> byte list \<Rightarrow> byte list \<Rightarrow> byte list \<Rightarrow> byte list" where
  "ewf_sample_section name next_offset section_size checksum =
     ewf_section_type name @ next_offset @ replicate 6 0 @ section_size @ replicate 47 0 @ checksum"

definition ewf_sample_volume :: "byte list" where
  "ewf_sample_volume = [0, 0, 0, 0, 2, 0, 0, 0, 1, 0, 0, 0, 1, 0, 0, 0, 2] @ replicate 73 0 @ [7, 0, 58, 2]"

definition ewf_sample_chunk :: "byte list" where
  "ewf_sample_chunk = [0x78, 0x9c] @ deflate_sample @ [0, 66, 0, 66]"

definition ewf_sample_table :: "byte list" where
  "ewf_sample_table = [2] @ replicate 19 0 @ [3, 0, 60, 0, 3, 1, 0, 128, 17, 1, 0, 0, 151, 0, 238, 2]"

definition ewf_sample_parts :: "byte list list" where
  "ewf_sample_parts =
     [[0x45, 0x56, 0x46, 0x09, 0x0d, 0x0a, 0xff, 0x00, 1, 1, 0, 0, 0],
      ewf_sample_section ''volume'' [183, 0] [170] [250, 3, 157, 252], ewf_sample_volume,
      ewf_sample_section ''sectors'' [22, 1] [95] [122, 3, 200, 230], ewf_sample_chunk, [66, 67, 0, 67, 0],
      ewf_sample_section ''table'' [134, 1] [112] [0, 3, 18, 193], ewf_sample_table,
      ewf_sample_section ''done'' [134, 1] [76] [122, 2, 69, 160]]"

definition ewf_sample :: "byte list" where
  "ewf_sample = concat ewf_sample_parts"

lemma ewf_sample_lengths:
  "map length ewf_sample_parts = [13, 76, 94, 76, 14, 5, 76, 36, 76]"
  by (simp add: ewf_sample_parts_def ewf_sample_section_def ewf_section_type_def lit_def ewf_sample_volume_def ewf_sample_chunk_def
      ewf_sample_table_def deflate_sample_def)

lemma subslice_part:
  assumes "i < length xs" "off = length (concat (take i xs))" "n \<le> length (xs ! i)"
  shows "subslice off n (concat xs) = take n (xs ! i)"
proof -
  have "concat xs = concat (take i xs) @ xs ! i @ concat (drop (Suc i) xs)"
    using id_take_nth_drop [OF assms(1)] by (metis concat.simps(2) concat_append)
  then show ?thesis using assms(2,3) by (simp add: subslice_def)
qed

lemma length_ewf_sample: "length ewf_sample = 466"
  by (simp add: ewf_sample_def length_concat ewf_sample_lengths)

definition ewf_sample_source :: data_source where
  "ewf_sample_source = memory_source (memory_new ewf_sample)"

lemma ewf_sample_sources:
  "total_source ewf_sample_source ewf_sample" "byte_source ewf_sample_source ewf_sample"
  by (simp_all add: ewf_sample_source_def memory_sources length_ewf_sample u64_limit_def)

lemma ewf_sample_slice:
  assumes "i < 9" "off = sum_list (take i [13, 76, 94, 76, 14, 5, 76, 36, 76])" "n \<le> [13, 76, 94, 76, 14, 5, 76, 36, 76] ! i"
  shows "subslice off n ewf_sample = take n (ewf_sample_parts ! i)"
proof -
  have len: "length ewf_sample_parts = 9" using arg_cong [OF ewf_sample_lengths, of length] by simp
  have "length (concat (take i ewf_sample_parts)) = sum_list (take i (map length ewf_sample_parts))"
    by (simp add: length_concat take_map)
  moreover have "length (ewf_sample_parts ! i) = map length ewf_sample_parts ! i" using len assms(1) by simp
  ultimately show ?thesis
    using assms unfolding ewf_sample_def ewf_sample_lengths by (intro subslice_part) (simp_all add: len)
qed

lemma ewf_sample_read:
  assumes "i < 9" "off = sum_list (take i [13, 76, 94, 76, 14, 5, 76, 36, 76])" "n = [13, 76, 94, 76, 14, 5, 76, 36, 76] ! i"
    "off + n \<le> 466"
  shows "read_exact_at ewf_sample_source off n = Ok (ewf_sample_parts ! i)"
proof -
  have len: "length ewf_sample_parts = 9" using arg_cong [OF ewf_sample_lengths, of length] by simp
  have "length (ewf_sample_parts ! i) = map length ewf_sample_parts ! i" using len assms(1) by simp
  then have "subslice off n ewf_sample = ewf_sample_parts ! i"
    using ewf_sample_slice [OF assms(1,2), of n] assms(3) by (simp add: ewf_sample_lengths)
  then show ?thesis
    using total_source.read_exact_at_total [OF ewf_sample_sources(1), of off n] assms(4) by (simp add: length_ewf_sample u64_limit_def)
qed

lemma ewf_adler32_spec: "ewf_adler32 data = adler_checksum 1 data"
  using adler32_updates [of "adler32_new 1" "[data]"] by (simp add: ewf_adler32_def adler32_finalize_def adler32_new_def)

lemma adler_spec_step:
  "adler_spec a b (x # xs) = adler_spec ((a + unat x) mod 65521) ((b + (a + unat x) mod 65521) mod 65521) xs"
  by (simp add: Let_def)

declare adler_spec.simps(2) [simp del]

lemma replicate_numeral: "replicate (numeral k) x = x # replicate (pred_numeral k) x"
  by (simp add: numeral_eq_Suc)

lemma adler_spec_zeros:
  "a < 65521 \<Longrightarrow> b < 65521 \<Longrightarrow> adler_spec a b (replicate n 0) = (a, (b + n * a) mod 65521)"
  by (induction n arbitrary: b) (simp_all add: adler_spec_step mod_simps algebra_simps)

text \<open>The header of a section, with the bytes of its type before the zeros.\<close>

lemma ewf_sample_section_data:
  fixes front :: "byte list"
  assumes "ewf_sample_section name next_offset section_size checksum = front @ replicate 40 0 @ checksum" "length front = 32" "length checksum = 4"
  shows "subslice 0 72 (ewf_sample_section name next_offset section_size checksum) = front @ replicate 40 0"
    "u32_le 72 (ewf_sample_section name next_offset section_size checksum) = from_le_bytes checksum"
    "subslice 0 16 (ewf_sample_section name next_offset section_size checksum) = take 16 front"
    "u64_le 16 (ewf_sample_section name next_offset section_size checksum) = from_le_bytes (take 8 (drop 16 front))"
    "u64_le 24 (ewf_sample_section name next_offset section_size checksum) = from_le_bytes (drop 24 front)"
  unfolding assms(1) using assms(2,3) by (simp_all add: subslice_def u32_le_def u64_le_def)

lemma ewf_sample_header:
  assumes "i < 9" "off = sum_list (take i [13, 76, 94, 76, 14, 5, 76, 36, 76])" "[13, 76, 94, 76, 14, 5, 76, 36, 76] ! i = (76 :: nat)" "off + 76 \<le> 466"
    and part: "ewf_sample_parts ! i = ewf_sample_section name next_offset section_size checksum"
    and front: "ewf_sample_section name next_offset section_size checksum = front @ replicate 40 0 @ checksum" "length front = 32" "length checksum = 4"
    and sum: "adler_spec 1 0 front = (a, b)" "a < 65521" "b < 65521" "from_le_bytes checksum = (b + 40 * a) mod 65521 * 65536 + a"
  shows "ewf_section_header_read_at ewf_sample_source off = Ok \<lparr>esh_file_offset = off, esh_section_type = take 16 front,
    esh_next_offset = from_le_bytes (take 8 (drop 16 front)), esh_size = from_le_bytes (drop 24 front)\<rparr>"
proof -
  have "read_exact_at ewf_sample_source off 76 = Ok (ewf_sample_section name next_offset section_size checksum)"
    using ewf_sample_read [OF assms(1,2) assms(3) [symmetric] assms(4)] part by simp
  moreover have "ewf_adler32 (front @ replicate 40 0) = from_le_bytes checksum"
    unfolding ewf_adler32_spec adler_checksum_def sum(4) by (simp add: adler_spec_append adler_spec_zeros sum(1) [simplified] sum(2,3))
  ultimately show ?thesis
    by (simp add: ewf_section_header_read_at_def ewf_sample_section_data [OF front])
qed

lemma ewf_sample_section_headers:
  "ewf_section_header_read_at ewf_sample_source 13 = Ok \<lparr>esh_file_offset = 13, esh_section_type = ewf_section_type ''volume'', esh_next_offset = 183, esh_size = 170\<rparr>"
  "ewf_section_header_read_at ewf_sample_source 183 = Ok \<lparr>esh_file_offset = 183, esh_section_type = ewf_section_type ''sectors'', esh_next_offset = 278, esh_size = 95\<rparr>"
  "ewf_section_header_read_at ewf_sample_source 278 = Ok \<lparr>esh_file_offset = 278, esh_section_type = ewf_section_type ''table'', esh_next_offset = 390, esh_size = 112\<rparr>"
  "ewf_section_header_read_at ewf_sample_source 390 = Ok \<lparr>esh_file_offset = 390, esh_section_type = ewf_section_type ''done'', esh_next_offset = 390, esh_size = 76\<rparr>"
  subgoal
    using ewf_sample_header [of 1 13 "''volume''" "[183, 0]" "[170]" "[250, 3, 157, 252]" "[118, 111, 108, 117, 109, 101, 0, 0, 0, 0, 0, 0, 0, 0, 0, 0, 183, 0, 0, 0, 0, 0, 0, 0, 170, 0, 0, 0, 0, 0, 0, 0]" 1018 23949]
    by (simp add: ewf_sample_parts_def ewf_sample_section_def ewf_section_type_def lit_def from_le_bytes_def from_be_bytes_def replicate_numeral adler_spec_step)
  subgoal
    using ewf_sample_header [of 3 183 "''sectors''" "[22, 1]" "[95]" "[122, 3, 200, 230]" "[115, 101, 99, 116, 111, 114, 115, 0, 0, 0, 0, 0, 0, 0, 0, 0, 22, 1, 0, 0, 0, 0, 0, 0, 95, 0, 0, 0, 0, 0, 0, 0]" 890 23480]
    by (simp add: ewf_sample_parts_def ewf_sample_section_def ewf_section_type_def lit_def from_le_bytes_def from_be_bytes_def replicate_numeral adler_spec_step)
  subgoal
    using ewf_sample_header [of 6 278 "''table''" "[134, 1]" "[112]" "[0, 3, 18, 193]" "[116, 97, 98, 108, 101, 0, 0, 0, 0, 0, 0, 0, 0, 0, 0, 0, 134, 1, 0, 0, 0, 0, 0, 0, 112, 0, 0, 0, 0, 0, 0, 0]" 768 18706]
    by (simp add: ewf_sample_parts_def ewf_sample_section_def ewf_section_type_def lit_def from_le_bytes_def from_be_bytes_def replicate_numeral adler_spec_step)
  subgoal
    using ewf_sample_header [of 8 390 "''done''" "[134, 1]" "[76]" "[122, 2, 69, 160]" "[100, 111, 110, 101, 0, 0, 0, 0, 0, 0, 0, 0, 0, 0, 0, 0, 134, 1, 0, 0, 0, 0, 0, 0, 76, 0, 0, 0, 0, 0, 0, 0]" 634 15669]
    by (simp add: ewf_sample_parts_def ewf_sample_section_def ewf_section_type_def lit_def from_le_bytes_def from_be_bytes_def replicate_numeral adler_spec_step)
  done

section \<open>The segment\<close>

definition ewf_sample_headers :: "EwfSectionHeader list" where
  "ewf_sample_headers =
     [\<lparr>esh_file_offset = 13, esh_section_type = ewf_section_type ''volume'', esh_next_offset = 183, esh_size = 170\<rparr>,
      \<lparr>esh_file_offset = 183, esh_section_type = ewf_section_type ''sectors'', esh_next_offset = 278, esh_size = 95\<rparr>,
      \<lparr>esh_file_offset = 278, esh_section_type = ewf_section_type ''table'', esh_next_offset = 390, esh_size = 112\<rparr>,
      \<lparr>esh_file_offset = 390, esh_section_type = ewf_section_type ''done'', esh_next_offset = 390, esh_size = 76\<rparr>]"

definition ewf_sample_segment :: EwfSegment where
  "ewf_sample_segment = \<lparr>egs_file_name = lit ''a.E01'', egs_segment_number = 1, egs_source = ewf_sample_source,
     egs_sections = ewf_sample_headers, egs_continuation = Last\<rparr>"

lemma ewf_section_types:
  "ewf_section_type ''volume'' = [118, 111, 108, 117, 109, 101, 0, 0, 0, 0, 0, 0, 0, 0, 0, 0]"
  "ewf_section_type ''disk'' = [100, 105, 115, 107, 0, 0, 0, 0, 0, 0, 0, 0, 0, 0, 0, 0]"
  "ewf_section_type ''sectors'' = [115, 101, 99, 116, 111, 114, 115, 0, 0, 0, 0, 0, 0, 0, 0, 0]"
  "ewf_section_type ''table'' = [116, 97, 98, 108, 101, 0, 0, 0, 0, 0, 0, 0, 0, 0, 0, 0]"
  "ewf_section_type ''done'' = [100, 111, 110, 101, 0, 0, 0, 0, 0, 0, 0, 0, 0, 0, 0, 0]"
  "ewf_section_type ''next'' = [110, 101, 120, 116, 0, 0, 0, 0, 0, 0, 0, 0, 0, 0, 0, 0]"
  by (simp_all add: ewf_section_type_def lit_def replicate_numeral)

lemma ewf_sample_loop: "ewf_section_loop ewf_sample_source 466 13 [] = Ok (466, ewf_sample_headers)"
  by (simp add: ewf_section_loop.simps [of ewf_sample_source 466] ewf_sample_section_headers ewf_check_section_def ewf_is_done_or_next_def
      ewf_is_type_def ewf_section_types checked_add_def u64_limit_def ewf_sample_headers_def)

lemma ewf_sample_open: "ewf_segment_open (lit ''a.E01'') ewf_sample_source = Ok ewf_sample_segment"
proof -
  have size: "ds_size ewf_sample_source = Ok 466"
    using byte_source.size_content [OF ewf_sample_sources(2)] by (simp add: length_ewf_sample)
  have "read_exact_at ewf_sample_source 0 13 = Ok (ewf_sample_parts ! 0)" using ewf_sample_read [of 0 0 13] by simp
  then have "ewf_read_file_header ewf_sample_source = Ok 1"
    by (simp add: ewf_read_file_header_def ewf_sample_parts_def subslice_def ewf_file_header_signature_def u16_le_def from_le_bytes_def
        from_be_bytes_def)
  then show ?thesis
    by (simp add: ewf_segment_open_def ewf_read_section_headers_def size ewf_sample_loop ewf_sample_segment_def)
      (simp add: ewf_sample_headers_def ewf_is_type_def)
qed

section \<open>The image\<close>

lemma ewf_sample_volume_info:
  "ewf_read_s01_volume_section ewf_sample_volume = Ok \<lparr>evi_media_type = EwfLogicalEvidence, evi_set_identifier = uuid_nil,
     evi_number_of_chunks = 2, evi_sectors_per_chunk = 1, evi_bytes_per_sector = 1, evi_number_of_sectors = 2, evi_error_granularity = 0\<rparr>"
proof -
  let ?front = "[0, 0, 0, 0, 2, 0, 0, 0, 1, 0, 0, 0, 1, 0, 0, 0, 2] :: byte list"
  have front: "subslice 0 90 ewf_sample_volume = ?front @ replicate 73 0" "u32_le 90 ewf_sample_volume = 37355527"
    by (simp_all add: ewf_sample_volume_def subslice_def u32_le_def from_le_bytes_def from_be_bytes_def)
  have "adler_spec 1 0 ?front = (7, 59)" by (simp add: adler_spec_step)
  then have sum: "ewf_adler32 (?front @ replicate 73 0) = 37355527"
    unfolding ewf_adler32_spec adler_checksum_def adler_spec_append by (simp add: adler_spec_zeros)
  have "u32_le 4 ewf_sample_volume = 2" "u32_le 8 ewf_sample_volume = 1" "u32_le 12 ewf_sample_volume = 1" "u32_le 16 ewf_sample_volume = 2"
    by (simp_all add: ewf_sample_volume_def subslice_def u32_le_def from_le_bytes_def from_be_bytes_def replicate_numeral)
  then show ?thesis unfolding ewf_read_s01_volume_section_def front sum by simp
qed

lemma ewf_sample_table_checksums:
  "ewf_adler32 (subslice 0 20 ewf_sample_table) = u32_le 20 ewf_sample_table"
  "ewf_adler32 (subslice 24 8 ewf_sample_table) = u32_le 32 ewf_sample_table"
proof -
  have front: "subslice 0 20 ewf_sample_table = [2] @ replicate 19 0" "u32_le 20 ewf_sample_table = 3932163"
    by (simp_all add: ewf_sample_table_def subslice_def u32_le_def from_le_bytes_def from_be_bytes_def)
  have "adler_spec 1 0 [2] = (3, 3)" by (simp add: adler_spec_step)
  then have "ewf_adler32 ([2] @ replicate 19 0) = 3932163"
    unfolding ewf_adler32_spec adler_checksum_def adler_spec_append by (simp add: adler_spec_zeros)
  then show "ewf_adler32 (subslice 0 20 ewf_sample_table) = u32_le 20 ewf_sample_table" by (simp add: front)
  show "ewf_adler32 (subslice 24 8 ewf_sample_table) = u32_le 32 ewf_sample_table"
    by (simp add: ewf_sample_table_def subslice_def u32_le_def from_le_bytes_def from_be_bytes_def ewf_adler32_spec adler_checksum_def adler_spec_step)
qed

lemma ewf_sample_section_data_read:
  "ewf_read_section_data ewf_sample_source (ewf_sample_headers ! 0) = Ok ewf_sample_volume"
  "ewf_read_section_data ewf_sample_source (ewf_sample_headers ! 2) = Ok ewf_sample_table"
  using ewf_sample_read [of 2 89 94] ewf_sample_read [of 7 354 36]
  by (simp_all add: ewf_read_section_data_def ewf_sample_headers_def sub_u64_def add_u64_def usize_try_from_def u64_limit_def ewf_sample_parts_def)

lemma ewf_sample_table_read:
  "ewf_read_table_section ewf_sample_source (ewf_sample_headers ! 2) = Ok \<lparr>ewt_base_offset = 0, ewt_entries = [2147483907, 273]\<rparr>"
proof -
  have "length ewf_sample_table = 36" "u32_le 0 ewf_sample_table = 2" "u64_le 8 ewf_sample_table = 0"
    "u32_le 24 ewf_sample_table = 2147483907" "u32_le 28 ewf_sample_table = 273"
    by (simp_all add: ewf_sample_table_def subslice_def u32_le_def u64_le_def from_le_bytes_def from_be_bytes_def replicate_numeral)
  then show ?thesis
    by (simp add: ewf_read_table_section_def ewf_sample_section_data_read ewf_sample_table_checksums checked_mul_def checked_add_def u64_limit_def
        upt_rec)
qed

definition ewf_sample_chunks :: "EwfChunkDescriptor list" where
  "ewf_sample_chunks =
     [\<lparr>ecd_segment_index = 0, ecd_logical_offset = 0, ecd_logical_size = 1, ecd_data_offset = 259, ecd_data_size = 14, ecd_compressed = True\<rparr>,
      \<lparr>ecd_segment_index = 0, ecd_logical_offset = 1, ecd_logical_size = 1, ecd_data_offset = 273, ecd_data_size = 5, ecd_compressed = False\<rparr>]"

definition ewf_sample_image :: EwfImage where
  "ewf_sample_image =
     \<lparr>ewi_runtime = \<lparr>ewr_segments = [ewf_sample_segment], ewr_chunks = ewf_sample_chunks, ewr_chunk_size = 1, ewr_media_size = 2\<rparr>,
      ewi_media_type = EwfLogicalEvidence, ewi_set_identifier = uuid_nil, ewi_number_of_chunks = 2, ewi_sectors_per_chunk = 1,
      ewi_bytes_per_sector = 1, ewi_number_of_sectors = 2, ewi_media_size = 2, ewi_md5_hash = None, ewi_sha1_hash = None\<rparr>"

definition ewf_sample_resolver :: resolver where
  "ewf_sample_resolver f = (if f = lit ''a.E01'' then Ok (Some ewf_sample_source) else Ok None)"

lemma ewf_sample_names:
  "ewf_segment_file_naming_schema (lit ''a.E01'') = Ok E01Upper" "path_file_stem (lit ''a.E01'') = lit ''a''"
  "ewf_segment_file_name (lit ''a'') 1 E01Upper = Ok (lit ''a.E01'')"
proof -
  have "str_rfind (lit ''.'') (lit ''a.E01'') = Some 1"
    by (simp add: str_rfind_def lit_def occurrences_Cons) (simp add: occurrences_def)
  then show "ewf_segment_file_naming_schema (lit ''a.E01'') = Ok E01Upper" "path_file_stem (lit ''a.E01'') = lit ''a''"
    by (simp_all add: ewf_segment_file_naming_schema_def path_extension_def path_file_stem_def lit_def)
  show "ewf_segment_file_name (lit ''a'') 1 E01Upper = Ok (lit ''a.E01'')"
    by (simp add: ewf_segment_file_name_def ewf_segment_file_extension_def ewf_last_character_def lit_def)
qed

lemma ewf_sample_image_open: "ewf_open ewf_sample_resolver (Some (lit ''a.E01'')) = Ok ewf_sample_image"
proof -
  have segments: "ewf_open_segments ewf_sample_resolver (lit ''a'') E01Upper = Ok [ewf_sample_segment]"
    unfolding ewf_open_segments_def ewf_open_segments_loop.simps [of ewf_sample_resolver "lit ''a''" E01Upper 1 "[]"] ewf_sample_names(3)
    by (simp add: ewf_sample_resolver_def ewf_sample_open) (simp add: ewf_sample_segment_def)
  let ?b = "ewf_builder_new\<lparr>ewb_media_type := EwfLogicalEvidence, ewb_number_of_chunks := 2, ewb_sectors_per_chunk := 1,
    ewb_bytes_per_sector := 1, ewb_number_of_sectors := 2, ewb_chunk_size := 1, ewb_media_size := 2, ewb_saw_volume := True\<rparr>"
  have volume: "ewf_builder_volume ewf_builder_new ewf_sample_segment (ewf_sample_headers ! 0) = Ok ?b"
    using ewf_sample_section_data_read(1)
    by (simp add: ewf_builder_volume_def ewf_sample_segment_def ewf_read_volume_section_def ewf_sample_volume_info checked_mul_u32_def
        checked_mul_def u32_limit_def u64_limit_def ewf_builder_new_def) (simp add: ewf_sample_volume_def ewf_sample_volume_info)
  have bits: "(2147483907 :: nat) AND 0x7fffffff = 259" "(273 :: nat) AND 0x7fffffff = 273" "(2147483907 :: nat) AND 0x80000000 \<noteq> 0"
    "(273 :: nat) AND 0x80000000 = 0" by simp_all
  have table: "ewf_builder_table ?b 0 ewf_sample_segment (ewf_sample_headers ! 2) (Some (ewf_sample_headers ! 1))
      = Ok (?b\<lparr>ewb_chunks := ewf_sample_chunks, ewb_next_chunk_logical_offset := 2\<rparr>)"
    using ewf_sample_table_read
    by (simp add: ewf_builder_table_def ewf_sample_segment_def checked_add_def u64_limit_def bits ewf_add_chunk_def
        ewf_remaining_chunk_logical_size_def u32_limit_def Let_def ewf_builder_new_def ewf_sample_chunks_def)
      (simp add: ewf_sample_headers_def)
  have headers: "ewf_sample_headers = [ewf_sample_headers ! 0, ewf_sample_headers ! 1, ewf_sample_headers ! 2, ewf_sample_headers ! 3]"
    by (simp add: ewf_sample_headers_def)
  have types: "ewf_is_type (ewf_sample_headers ! 0) ''volume''" "ewf_is_type (ewf_sample_headers ! 1) ''sectors''"
     "ewf_is_type (ewf_sample_headers ! 2) ''table''" "ewf_is_type (ewf_sample_headers ! 3) ''done''"
     "ewf_section_type ''hash'' \<noteq> ewf_section_type ''done''" "ewf_section_type ''digest'' \<noteq> ewf_section_type ''done''"
    by (simp_all add: ewf_sample_headers_def ewf_is_type_def) (simp_all add: ewf_section_type_def lit_def)
  have "ewf_read_sections 0 ewf_sample_segment None ewf_sample_headers ewf_builder_new
      = Ok (?b\<lparr>ewb_chunks := ewf_sample_chunks, ewb_next_chunk_logical_offset := 2\<rparr>)"
    by (subst headers) (use types volume table in \<open>simp add: ewf_is_type_def ewf_section_types\<close>)
  then show ?thesis
    using ewf_sample_names segments
    by (simp add: ewf_open_def ewf_read_segments_def u32_limit_def ewf_builder_new_def ewf_sample_chunks_def ewf_sample_image_def)
      (simp add: ewf_sample_segment_def u32_limit_def ewf_builder_new_def)
qed

section \<open>The chunks\<close>

lemma ewf_sample_compressed: "zlib_decompress zlib_new ewf_sample_chunk [0] = Ok (\<lparr>zlc_uncompressed_data_size = 1\<rparr>, [0x41])"
proof -
  have h: "zlib_header [0x78, 0x9c]" by (simp add: zlib_header_def)
  let ?bs = "[Stored_block [0x41], Fixed_block []]"
  have b: "blocks_valid 0 ?bs" "lz_total (blocks_tokens ?bs) \<le> length [0 :: byte]" "?bs \<noteq> []" "length (replicate 6 False) < 8"
    by (simp_all add: blocks_tokens_def ops_tokens_def fixed_end_of_block lz_total_def)
  have out: "lz_expand_all (blocks_tokens ?bs) [] = [0x41]" "lz_total (blocks_tokens ?bs) = 1"
    by (simp_all add: blocks_tokens_def ops_tokens_def lz_total_def)
  show ?thesis
    using zlib_stream [OF h b(3,1,2) deflate_sample_bits b(4), of zlib_new "[0, 66, 0, 66]", unfolded out]
    by (simp add: zlib_new_def ewf_sample_chunk_def)
qed

lemma ewf_sample_contents:
  "list_all2 (\<lambda>chunk x. ewf_chunk_content 1 [ewf_sample] chunk = Some x) ewf_sample_chunks [[0x41], [0x42]]"
proof -
  have "subslice 259 14 ewf_sample = take 14 ewf_sample_chunk" using ewf_sample_slice [of 4 259 14] by (simp add: ewf_sample_parts_def)
  then have "subslice 259 14 ewf_sample = ewf_sample_chunk" by (simp add: ewf_sample_chunk_def deflate_sample_def)
  moreover have "subslice 273 1 ewf_sample = [0x42]" using ewf_sample_slice [of 5 273 1] by (simp add: ewf_sample_parts_def)
  ultimately show ?thesis
    using ewf_sample_compressed by (simp add: ewf_sample_chunks_def ewf_chunk_content_def length_ewf_sample subslice_def)
qed

lemma ewf_sample_resolver_total: "ewf_sample_resolver f = Ok (Some s) \<Longrightarrow> total_source s ewf_sample" "no_panic (ewf_sample_resolver f)"
  using ewf_sample_sources(1) by (auto simp: ewf_sample_resolver_def split: if_splits)

end
