(* ===== verification/Ewf_Properties.thy ===== *)
theory Ewf_Properties
  imports Ewf_Sample Pieces
begin

text \<open>
  What holds of an EWF image: the segment files of an image and their names, the sections of a segment, the
  contents of the media source, and that no bytes make the driver panic.
\<close>

section \<open>Names of segment files\<close>

text \<open>The last number that a naming schema has an extension for.\<close>

fun ewf_last_segment :: "EwfNamingSchema \<Rightarrow> nat" where
  "ewf_last_segment E01Upper = 14971"
| "ewf_last_segment E01Lower = 14971"
| "ewf_last_segment S01Upper = 5507"
| "ewf_last_segment S01Lower = 5507"

lemma ewf_extension_Ok:
  assumes "ewf_segment_file_extension n schema = Ok e"
  shows "0 < n" "n \<le> ewf_last_segment schema"
    "map unat e = (if n < 100 then [ewf_first_character schema, 0x30 + n div 10, 0x30 + n mod 10]
      else [ewf_first_character schema + (n - 100) div 26 div 26, ewf_base_character schema + (n - 100) div 26 mod 26, ewf_base_character schema + (n - 100) mod 26])"
proof -
  show "0 < n" using assms by (simp add: ewf_segment_file_extension_def split: if_splits)
  let ?x = "if n < 100 then [ewf_first_character schema, 0x30 + n div 10, 0x30 + n mod 10]
      else [ewf_first_character schema + (n - 100) div 26 div 26, ewf_base_character schema + (n - 100) div 26 mod 26, ewf_base_character schema + (n - 100) mod 26]"
  have e: "e = map of_nat ?x" "?x ! 0 \<le> ewf_last_character schema"
    using assms by (auto simp: ewf_segment_file_extension_def Let_def split: if_splits)
  have "(n - 100) div 26 mod 26 < 26" "(n - 100) mod 26 < 26" "ewf_base_character schema \<le> 0x61" "ewf_last_character schema \<le> 0x7a" "n mod 10 < 10"
    by (simp_all add: ewf_base_character_def ewf_last_character_def)
  moreover have "n < 100 \<Longrightarrow> n div 10 < 10" by (simp add: div_less_iff_less_mult)
  ultimately have "\<forall>k \<in> set ?x. k < 256" using e(2) by (auto split: if_splits)
  then show "map unat e = ?x" unfolding e(1) by (simp add: unat_of_nat comp_def map_idI)
  show "n \<le> ewf_last_segment schema"
  proof (cases "n < 100")
    case False
    then have "ewf_first_character schema + (n - 100) div 676 \<le> ewf_last_character schema" using e(2) by (simp add: div_mult2_eq [symmetric])
    then have "(n - 100) div 676 \<le> ewf_last_character schema - ewf_first_character schema" by linarith
    then have "(n - 100) div 676 < Suc (ewf_last_character schema - ewf_first_character schema)" by simp
    then have "n - 100 < Suc (ewf_last_character schema - ewf_first_character schema) * 676" by (simp add: div_less_iff_less_mult)
    then show ?thesis by (cases schema) (simp_all add: ewf_last_character_def)
  qed (cases schema; simp)
qed

lemma ewf_extension_total:
  assumes "0 < n" "n \<le> ewf_last_segment schema"
  shows "\<exists>e. ewf_segment_file_extension n schema = Ok e"
proof (cases "n < 100")
  case True
  then show ?thesis using assms(1) by (cases schema) (simp_all add: ewf_segment_file_extension_def ewf_last_character_def)
next
  case False
  have "(n - 100) div 676 \<le> (ewf_last_segment schema - 100) div 676" using assms(2) by (intro div_le_mono) simp
  also have "\<dots> \<le> ewf_last_character schema - ewf_first_character schema" by (cases schema) (simp_all add: ewf_last_character_def)
  finally have "ewf_first_character schema + (n - 100) div 26 div 26 \<le> ewf_last_character schema"
    by (cases schema) (simp_all add: div_mult2_eq [symmetric] ewf_last_character_def)
  then show ?thesis using False by (simp add: ewf_segment_file_extension_def Let_def)
qed

lemma ewf_extension_inj:
  assumes "ewf_segment_file_extension n schema = Ok e" "ewf_segment_file_extension m schema = Ok e"
  shows "n = m"
proof -
  note n = ewf_extension_Ok(3) [OF assms(1)] and m = ewf_extension_Ok(3) [OF assms(2)]
  have mixed: False if "x < (100 :: nat)" "0x30 + x mod 10 = ewf_base_character schema + k" for x k
  proof -
    have "x mod 10 < 10" by simp
    moreover have "0x41 \<le> ewf_base_character schema" by (simp add: ewf_base_character_def)
    ultimately show False using that(2) by linarith
  qed
  consider "n < 100" "m < 100" | "\<not> n < 100" "\<not> m < 100" | "n < 100" "\<not> m < 100" | "\<not> n < 100" "m < 100" by blast
  then show ?thesis
  proof cases
    case 1
    then have "n div 10 = m div 10" "n mod 10 = m mod 10" using n m by simp_all
    then show ?thesis by (metis div_mult_mod_eq)
  next
    case 2
    then have eq: "(n - 100) div 26 div 26 = (m - 100) div 26 div 26" "(n - 100) div 26 mod 26 = (m - 100) div 26 mod 26" "(n - 100) mod 26 = (m - 100) mod 26"
      using n m by simp_all
    then have "(n - 100) div 26 = (m - 100) div 26" by (metis div_mult_mod_eq)
    then have "n - 100 = m - 100" using eq(3) by (metis div_mult_mod_eq)
    then show ?thesis using 2 by simp
  next
    case 3
    then show ?thesis using n m mixed [of n "(m - 100) mod 26"] by simp
  next
    case 4
    then show ?thesis using n m mixed [of m "(n - 100) mod 26"] by simp
  qed
qed

lemma ewf_names_inj:
  "ewf_segment_file_name name n schema = Ok s \<Longrightarrow> ewf_segment_file_name name m schema = Ok s \<Longrightarrow> n = m"
  by (auto simp: ewf_segment_file_name_def and_then_eq_Ok dest: ewf_extension_inj)

section \<open>The segments of an image\<close>

definition ewf_segments_from :: "resolver \<Rightarrow> str \<Rightarrow> EwfNamingSchema \<Rightarrow> EwfSegment list \<Rightarrow> bool" where
  "ewf_segments_from resolver name schema segments \<longleftrightarrow>
     (\<forall>i < length segments. ewf_segment_file_name name (i + 1) schema = Ok (egs_file_name (segments ! i))
        \<and> resolver (egs_file_name (segments ! i)) = Ok (Some (egs_source (segments ! i)))
        \<and> ewf_segment_open (egs_file_name (segments ! i)) (egs_source (segments ! i)) = Ok (segments ! i)
        \<and> egs_segment_number (segments ! i) = i + 1)"

lemma ewf_segment_open_fields: "ewf_segment_open f s = Ok seg \<Longrightarrow> egs_file_name seg = f \<and> egs_source seg = s"
  by (auto simp: ewf_segment_open_def and_then_eq_Ok Let_def)

lemma ewf_open_segments_loop_from:
  assumes "ewf_open_segments_loop resolver name schema n segs = Ok segs'"
    and "ewf_segments_from resolver name schema segs" "n = length segs + 1" "\<forall>s \<in> set segs. egs_continuation s = HasNext"
  shows "ewf_segments_from resolver name schema segs' \<and> segs' \<noteq> [] \<and> egs_continuation (last segs') \<noteq> HasNext
    \<and> (\<forall>s \<in> set (butlast segs'). egs_continuation s = HasNext)"
  using assms
proof (induction resolver name schema n segs rule: ewf_open_segments_loop.induct)
  case (1 resolver name schema n segs)
  from "1.prems"(1) obtain f s seg where f: "ewf_segment_file_name name n schema = Ok f" and s: "resolver f = Ok (Some s)"
    and seg: "ewf_segment_open f s = Ok seg"
    by (auto simp: ewf_open_segments_loop.simps [of resolver name schema n segs] and_then_eq_Ok ok_or_eq_Ok)
  note rest = "1.prems"(1) [unfolded ewf_open_segments_loop.simps [of resolver name schema n segs] f s seg and_then_Ok ok_or_simps]
  from rest have number: "egs_segment_number seg = n" by (auto split: if_splits)
  have from': "ewf_segments_from resolver name schema (segs @ [seg])"
    using "1.prems"(2,3) f s seg number ewf_segment_open_fields [OF seg]
    by (auto simp: ewf_segments_from_def nth_append less_Suc_eq)
  show ?case
  proof (cases "egs_continuation seg = HasNext")
    case True
    with rest number have lt: "n + 1 < u16_limit" and rec: "ewf_open_segments_loop resolver name schema (n + 1) (segs @ [seg]) = Ok segs'"
      by (auto split: if_splits)
    have eq: "\<not> egs_segment_number seg \<noteq> n" using number by simp
    show ?thesis
      by (rule "1.IH" [OF f s _ seg eq True lt rec from'])
        (use "1.prems"(3,4) True in auto)
  next
    case False
    with rest number from' "1.prems"(4) show ?thesis by auto
  qed
qed

section \<open>The sections of a segment\<close>

text \<open>A section of a segment file: its header is in the file, with the right checksum.\<close>

definition ewf_section_in :: "byte list \<Rightarrow> EwfSectionHeader \<Rightarrow> bool" where
  "ewf_section_in content s \<longleftrightarrow> 76 \<le> esh_size s \<and> esh_file_offset s + esh_size s < u64_limit
     \<and> esh_section_type s = subslice (esh_file_offset s) 16 content
     \<and> u32_le (esh_file_offset s + 72) content = ewf_adler32 (subslice (esh_file_offset s) 72 content)"

lemma ewf_section_header_in:
  assumes "byte_source ds content" "ewf_section_header_read_at ds off = Ok s" "ewf_check_section off s = Ok s'" "off + esh_size s' < u64_limit"
  shows "ewf_section_in content s'" "esh_file_offset s' = off"
proof -
  from assms(2) obtain data where data: "read_exact_at ds off 76 = Ok data" "u32_le 72 data = ewf_adler32 (subslice 0 72 data)"
    and s: "esh_file_offset s = off" "esh_section_type s = subslice 0 16 data"
    by (auto simp: ewf_section_header_read_at_def and_then_eq_Ok split: if_splits)
  have d: "data = subslice off 76 content" using byte_source.read_exact_at_sound [OF assms(1) data(1)] by simp
  note ok = ewf_check_section_Ok(1,3,4) [OF assms(3)]
  have "subslice 0 72 data = subslice off 72 content" "subslice 0 16 data = subslice off 16 content" "u32_le 72 data = u32_le (off + 72) content"
    by (simp_all add: d slice_slice u32_le_def)
  then show "ewf_section_in content s'" "esh_file_offset s' = off"
    using ok s data(2) assms(4) by (simp_all add: ewf_section_in_def)
qed

lemma ewf_section_loop_tiles:
  assumes "ewf_section_loop ds fsize off hs = Ok (off', hs')" "byte_source ds content"
    and "layout esh_file_offset esh_size 13 hs" "off = 13 + sum_list (map esh_size hs)" "\<forall>s \<in> set hs. ewf_section_in content s \<and> \<not> ewf_is_done_or_next s"
  shows "layout esh_file_offset esh_size 13 hs' \<and> off' = 13 + sum_list (map esh_size hs') \<and> (\<forall>s \<in> set hs'. ewf_section_in content s)
    \<and> (\<forall>s \<in> set (butlast hs'). \<not> ewf_is_done_or_next s)"
  using assms
proof (induction ds fsize off hs rule: ewf_section_loop.induct)
  case (1 ds fsize off hs)
  note unfold = ewf_section_loop.simps [of ds fsize off hs]
  show ?case
  proof (cases "off < fsize")
    case False
    with "1.prems"(1) have "hs' = hs" "off' = off" by (simp_all add: unfold)
    then show ?thesis using "1.prems"(3-) by (auto dest: in_set_butlastD)
  next
    case True
    with "1.prems"(1) obtain h s where h: "ewf_section_header_read_at ds off = Ok h" and s: "ewf_check_section off h = Ok s"
      and add: "checked_add off (esh_size s) = Some (off + esh_size s)"
      by (auto simp: unfold and_then_eq_Ok ok_or_eq_Ok checked_add_eq_Some)
    then have lt: "off + esh_size s < u64_limit" by (simp add: checked_add_eq_Some)
    note inn = ewf_section_header_in [OF "1.prems"(2) h s lt]
    have pos: "0 < esh_size s" using ewf_check_section_Ok(1) [OF s] by simp
    have lay: "layout esh_file_offset esh_size 13 (hs @ [s])" "off + esh_size s = 13 + sum_list (map esh_size (hs @ [s]))"
      using "1.prems"(3,4) inn(2) pos by (simp_all add: layout_append)
    show ?thesis
    proof (cases "ewf_is_done_or_next s")
      case True
      with "1.prems"(1) \<open>off < fsize\<close> h s add have "hs' = hs @ [s]" "off' = off + esh_size s" by (simp_all add: unfold)
      then show ?thesis using lay inn(1) "1.prems"(5) by simp
    next
      case F: False
      have rec: "ewf_section_loop ds fsize (off + esh_size s) (hs @ [s]) = Ok (off', hs')"
        using "1.prems"(1) True h s add F by (simp add: unfold)
      show ?thesis
        by (rule "1.IH" [OF True h s _ F rec "1.prems"(2) lay]) (use add inn(1) F "1.prems"(5) in auto)
    qed
  qed
qed

lemma ewf_segment_tiles:
  assumes "ewf_segment_open f ds = Ok seg" "byte_source ds content"
  shows "layout esh_file_offset esh_size 13 (egs_sections seg) \<and> 13 + sum_list (map esh_size (egs_sections seg)) = length content
    \<and> (\<forall>s \<in> set (egs_sections seg). ewf_section_in content s) \<and> (\<forall>s \<in> set (butlast (egs_sections seg)). \<not> ewf_is_done_or_next s)"
proof -
  from assms(1) have "ewf_read_section_headers ds = Ok (egs_sections seg)"
    by (auto simp: ewf_segment_open_def and_then_eq_Ok Let_def)
  then have "ewf_section_loop ds (length content) 13 [] = Ok (length content, egs_sections seg)"
    using byte_source.size_content [OF assms(2)] by (auto simp: ewf_read_section_headers_def and_then_eq_Ok split: if_splits)
  from ewf_section_loop_tiles [OF this assms(2)] show ?thesis by simp
qed

section \<open>Absence of panics\<close>

lemma zlib_decompress_length: "zlib_decompress ctx data buf = Ok (c, out) \<Longrightarrow> length out = length buf"
proof -
  assume z: "zlib_decompress ctx data buf = Ok (c, out)"
  then obtain h c' s where h: "zlib_read_data zlib_data_header_new data = Ok h"
    and d: "deflate_decompress_bitstream deflate_new (dbs_new data (zdh_header_size h)) buf = Ok (c', out, s)"
    by (auto simp: zlib_decompress_def Let_def and_then_eq_Ok split: if_splits)
  from d obtain c'' u where "deflate_loop deflate_new 0 buf (dbs_new data (zdh_header_size h)) = Ok (c'', u, out, s)"
    by (auto simp: deflate_decompress_bitstream_def and_then_eq_Ok)
  then show "length out = length buf"
    using deflate_loop_safe [OF deflate_ok_new le0 dbs_new_ok(1) [OF zlib_read_data_Ok [OF h]], of buf] by blast
qed

text \<open>A source with contents whose reads may be short or fail, but do not panic.\<close>

definition steady_source :: "data_source \<Rightarrow> byte list \<Rightarrow> bool" where
  "steady_source ds content \<longleftrightarrow> byte_source ds content \<and> (\<forall>off n. no_panic (ds_read_at ds off n))"

lemma total_is_steady: "total_source ds content \<Longrightarrow> steady_source ds content"
proof -
  assume total: "total_source ds content"
  have "no_panic (ds_read_at ds off n)" for off n
    using total_source.read_total [OF total, of off n] by auto
  with total show ?thesis by (simp add: steady_source_def total_source_def)
qed

lemma no_panic_gather:
  assumes "\<And>pos n. no_panic (step pos n)" "\<And>buf. no_panic (stop buf)"
  shows "no_panic (gather step stop len buf)"
  using assms
proof (induction step stop len buf rule: gather.induct)
  case (1 step stop len buf)
  show ?case
    unfolding gather.simps [of step stop len buf]
    by (auto intro!: no_panic_and_then "1.IH" "1.prems")
qed

lemma no_panic_read:
  assumes "steady_source ds content"
  shows "no_panic (read_exact_at ds off len)"
  using assms unfolding read_exact_at_def positioned_step_def steady_source_def
  by (intro no_panic_gather) (auto intro!: no_panic_and_then no_panic_ok_or)

lemma ewf_section_loop_no_panic:
  assumes "steady_source ds content" "fsize \<le> u64_limit"
  shows "no_panic (ewf_section_loop ds fsize off hs)"
  using assms
proof (induction ds fsize off hs rule: ewf_section_loop.induct)
  case (1 ds fsize off hs)
  note unfold = ewf_section_loop.simps [of ds fsize off hs]
  show ?case
  proof (cases "off < fsize")
    case True
    have header: "no_panic (ewf_section_header_read_at ds off)"
      using no_panic_read [OF "1.prems"(1), of off 76]
      by (auto simp: ewf_section_header_read_at_def intro!: no_panic_and_then)
    have check: "no_panic (ewf_check_section off h)" for h by (simp add: ewf_check_section_def Let_def)
    show ?thesis
      unfolding unfold using True
      by (auto intro!: no_panic_and_then header check no_panic_ok_or "1.IH" [OF True] "1.prems")
  qed (simp add: unfold)
qed

lemma steady_is_byte: "steady_source ds content \<Longrightarrow> byte_source ds content"
  by (simp add: steady_source_def)

lemma ewf_segment_open_no_panic:
  assumes "steady_source ds content"
  shows "no_panic (ewf_segment_open f ds)"
proof -
  note b = steady_is_byte [OF assms]
  have "no_panic (ewf_read_file_header ds)"
    using no_panic_read [OF assms, of 0 13] by (auto simp: ewf_read_file_header_def u64_limit_def intro!: no_panic_and_then)
  moreover have "no_panic (ewf_read_section_headers ds)"
    using ewf_section_loop_no_panic [OF assms, of "length content"] byte_source.content_u64 [OF b] byte_source.size_content [OF b]
    by (auto simp: ewf_read_section_headers_def intro!: no_panic_and_then)
  ultimately show ?thesis by (auto simp: ewf_segment_open_def Let_def intro!: no_panic_and_then)
qed

definition ewf_resolver_ok :: "resolver \<Rightarrow> bool" where
  "ewf_resolver_ok resolver \<longleftrightarrow> (\<forall>f. no_panic (resolver f) \<and> (\<forall>s. resolver f = Ok (Some s) \<longrightarrow> (\<exists>content. steady_source s content)))"

lemma ewf_open_segments_loop_no_panic:
  assumes "ewf_resolver_ok resolver"
  shows "no_panic (ewf_open_segments_loop resolver name schema n segs)"
  using assms
proof (induction resolver name schema n segs rule: ewf_open_segments_loop.induct)
  case (1 resolver name schema n segs)
  note unfold = ewf_open_segments_loop.simps [of resolver name schema n segs]
  have name: "no_panic (ewf_segment_file_name name n schema)"
    by (auto simp: ewf_segment_file_name_def ewf_segment_file_extension_def Let_def intro!: no_panic_and_then)
  have seg: "no_panic (ewf_segment_open f s)" if "resolver f' = Ok (Some s)" for f f' s
    using that "1.prems" ewf_segment_open_no_panic unfolding ewf_resolver_ok_def by blast
  have res: "no_panic (resolver f)" for f using "1.prems" by (simp add: ewf_resolver_ok_def)
  have rest: "no_panic (if egs_segment_number g \<noteq> n then Err (Ewf_error Ewf_segment_number)
       else if egs_continuation g = HasNext then
         if n + 1 < u16_limit then ewf_open_segments_loop resolver name schema (n + 1) (segs @ [g])
         else Err (Ewf_error Ewf_segment_number_overflow)
       else Ok (segs @ [g]))"
    if "ewf_segment_file_name name n schema = Ok f" "resolver f = Ok opened" "ok_or (Ewf_error Ewf_missing_segment) opened = Ok s"
      "ewf_segment_open f s = Ok g" for f opened s g
    using "1.IH" [OF that _ _ _ "1.prems"] by simp
  show ?case
    unfolding unfold
  proof (intro no_panic_and_then name res no_panic_ok_or rest)
    fix f opened s
    assume "resolver f = Ok opened" "ok_or (Ewf_error Ewf_missing_segment) opened = Ok s"
    then show "no_panic (ewf_segment_open f s)" by (intro seg) (simp add: ok_or_eq_Ok)
  qed simp_all
qed

definition ewf_segment_ok :: "EwfSegment \<Rightarrow> bool" where
  "ewf_segment_ok seg \<longleftrightarrow> (\<exists>content. steady_source (egs_source seg) content \<and> (\<forall>s \<in> set (egs_sections seg). ewf_section_in content s))"

lemma ewf_section_data:
  assumes "steady_source ds content" "ewf_section_in content s"
  shows "no_panic (ewf_read_section_data ds s)" "ewf_read_section_data ds s = Ok data \<Longrightarrow> length data = esh_size s - 76"
proof -
  have lim: "76 \<le> esh_size s" "esh_file_offset s + 76 < u64_limit" "esh_size s - 76 < u64_limit"
    using assms(2) by (auto simp: ewf_section_in_def)
  then have eq: "ewf_read_section_data ds s = read_exact_at ds (esh_file_offset s + 76) (esh_size s - 76)"
    by (simp add: ewf_read_section_data_def sub_u64_def usize_try_from_def add_u64_def)
  show "no_panic (ewf_read_section_data ds s)" unfolding eq by (rule no_panic_read [OF assms(1)])
  show "length data = esh_size s - 76" if "ewf_read_section_data ds s = Ok data"
    using byte_source.read_exact_at_sound [OF steady_is_byte [OF assms(1)]] that unfolding eq by blast
qed

lemma ewf_sections_no_panic:
  assumes "steady_source ds content" "ewf_section_in content s"
  shows "no_panic (ewf_read_volume_section ds s)" "no_panic (ewf_read_table_section ds s)"
    "no_panic (ewf_read_hash_section ds s)" "no_panic (ewf_read_digest_section ds s)"
proof -
  note data = ewf_section_data(1) [OF assms]
  have e01: "no_panic (ewf_read_e01_volume_section d)" if "length d = 1052" for d
    using that by (auto simp: ewf_read_e01_volume_section_def uuid_from_le_bytes_def Let_def slice_simps intro!: no_panic_and_then)
  show "no_panic (ewf_read_volume_section ds s)"
    using data e01 by (auto simp: ewf_read_volume_section_def ewf_read_s01_volume_section_def intro!: no_panic_and_then)
  show "no_panic (ewf_read_table_section ds s)"
    using data by (auto simp: ewf_read_table_section_def Let_def intro!: no_panic_and_then no_panic_ok_or)
  show "no_panic (ewf_read_hash_section ds s)" "no_panic (ewf_read_digest_section ds s)"
    using data by (auto simp: ewf_read_hash_section_def ewf_read_digest_section_def intro!: no_panic_and_then)
qed

lemma ewf_add_chunk_no_panic: "no_panic (ewf_add_chunk k e d d' b)"
  by (auto simp: ewf_add_chunk_def ewf_remaining_chunk_logical_size_def Let_def intro!: no_panic_and_then no_panic_ok_or)

lemma ewf_table_loop_no_panic: "no_panic (ewf_table_loop k base end_offset es b)"
proof (induction es arbitrary: b)
  case (Cons e es)
  then show ?case
    by (auto intro!: no_panic_and_then no_panic_ok_or ewf_add_chunk_no_panic split: list.split)
qed simp

lemma ewf_read_sections_no_panic:
  assumes "steady_source (egs_source seg) content"
  shows "(\<forall>s \<in> set ss. ewf_section_in content s) \<Longrightarrow> no_panic (ewf_read_sections k seg ls ss b)"
proof (induction ss arbitrary: ls b)
  case (Cons s ss)
  note no = ewf_sections_no_panic [OF assms, of s]
  have "no_panic (ewf_builder_volume b seg s)"
    using no(1) Cons.prems by (auto simp: ewf_builder_volume_def intro!: no_panic_and_then no_panic_ok_or)
  moreover have "no_panic (ewf_builder_table b k seg s ls)"
    using no(2) Cons.prems by (auto simp: ewf_builder_table_def intro!: no_panic_and_then ewf_table_loop_no_panic)
  ultimately show ?case
    using Cons no(3,4) by (auto intro!: no_panic_and_then)
qed simp

lemma ewf_segments_loop_no_panic: "(\<forall>s \<in> set segs. ewf_segment_ok s) \<Longrightarrow> no_panic (ewf_read_segments_loop k segs b)"
proof (induction segs arbitrary: k b)
  case (Cons seg segs)
  then obtain content where "steady_source (egs_source seg) content" "\<forall>s \<in> set (egs_sections seg). ewf_section_in content s"
    by (auto simp: ewf_segment_ok_def)
  from ewf_read_sections_no_panic [OF this] Cons show ?case by (auto intro!: no_panic_and_then)
qed simp

lemma ewf_segments_ok:
  assumes "ewf_resolver_ok resolver" "ewf_segments_from resolver name schema segs" "seg \<in> set segs"
  shows "ewf_segment_ok seg"
proof -
  from assms(2,3) obtain f where f: "resolver f = Ok (Some (egs_source seg))" "ewf_segment_open f (egs_source seg) = Ok seg"
    by (auto simp: ewf_segments_from_def in_set_conv_nth)
  with assms(1) obtain content where "steady_source (egs_source seg) content" unfolding ewf_resolver_ok_def by blast
  then show ?thesis using ewf_segment_tiles [OF f(2) steady_is_byte] unfolding ewf_segment_ok_def by blast
qed

lemma ewf_open_Ok:
  assumes "ewf_open resolver file_name = Ok img"
  obtains f schema where "file_name = Some f" "ewf_segment_file_naming_schema f = Ok schema"
    "ewf_segments_from resolver (path_file_stem f) schema (ewr_segments (ewi_runtime img))"
    "ewr_segments (ewi_runtime img) \<noteq> []" "egs_continuation (last (ewr_segments (ewi_runtime img))) \<noteq> HasNext"
    "\<forall>s \<in> set (butlast (ewr_segments (ewi_runtime img))). egs_continuation s = HasNext"
proof -
  from assms obtain f schema segs where f: "file_name = Some f" "ewf_segment_file_naming_schema f = Ok schema"
    and segs: "ewf_open_segments resolver (path_file_stem f) schema = Ok segs" "ewr_segments (ewi_runtime img) = segs"
    by (auto simp: ewf_open_def Let_def and_then_eq_Ok ok_or_eq_Ok)
  have "ewf_segments_from resolver (path_file_stem f) schema []" by (simp add: ewf_segments_from_def)
  from ewf_open_segments_loop_from [OF segs(1) [unfolded ewf_open_segments_def] this] f segs(2) show thesis by (intro that [of f schema]) auto
qed

lemma ewf_open_no_panic:
  assumes "ewf_resolver_ok resolver"
  shows "no_panic (ewf_open resolver file_name)"
proof -
  have "no_panic (ewf_segment_file_naming_schema f)" for f
    by (auto simp: ewf_segment_file_naming_schema_def intro!: no_panic_and_then no_panic_ok_or)
  moreover have "no_panic (ewf_open_segments resolver name schema)" for name schema
    by (simp add: ewf_open_segments_def ewf_open_segments_loop_no_panic [OF assms])
  moreover have "no_panic (ewf_read_segments segs b)" if "ewf_open_segments resolver name schema = Ok segs" for name schema segs b
  proof -
    have "ewf_segments_from resolver name schema segs"
      using ewf_open_segments_loop_from [OF that [unfolded ewf_open_segments_def]] by (simp add: ewf_segments_from_def)
    then have "\<forall>s \<in> set segs. ewf_segment_ok s" using ewf_segments_ok [OF assms] by blast
    then show ?thesis using ewf_segments_loop_no_panic by (auto simp: ewf_read_segments_def intro!: no_panic_and_then)
  qed
  ultimately show ?thesis by (auto simp: ewf_open_def Let_def intro!: no_panic_and_then no_panic_ok_or)
qed

text \<open>Reading: a cached chunk has its size.\<close>

definition ewf_cache_sizes :: "EwfRuntime \<Rightarrow> ewf_cache \<Rightarrow> bool" where
  "ewf_cache_sizes rt cache \<longleftrightarrow> (\<forall>i d. cache i = Some d \<longrightarrow> i < length (ewr_chunks rt) \<and> length d = ecd_logical_size (ewr_chunks rt ! i))"

lemma ewf_decompress_chunk_no_panic:
  assumes "steady_source (egs_source (ewr_segments rt ! ecd_segment_index chunk)) content"
    and "ecd_segment_index chunk < length (ewr_segments rt)" "ecd_data_offset chunk < u64_limit" "ecd_logical_size chunk \<le> ewr_chunk_size rt"
  shows "no_panic (ewf_decompress_chunk rt chunk)" "ewf_decompress_chunk rt chunk = Ok d \<Longrightarrow> length d = ecd_logical_size chunk"
proof -
  have get: "get_index (ewr_segments rt) (ecd_segment_index chunk) = Some (ewr_segments rt ! ecd_segment_index chunk)"
    using assms(2) by (simp add: get_index_def)
  show "no_panic (ewf_decompress_chunk rt chunk)"
    unfolding ewf_decompress_chunk_def get
    by (auto intro!: no_panic_and_then no_panic_read [OF assms(1)] zlib_decompress_no_panic
        dest!: zlib_decompress_length intro: order_trans [OF assms(4)])
      (use assms(4) in simp)
  show "ewf_decompress_chunk rt chunk = Ok d \<Longrightarrow> length d = ecd_logical_size chunk"
    by (auto simp: ewf_decompress_chunk_def and_then_eq_Ok slice_simps split: if_splits)
qed

lemma ewf_read_at_no_panic:
  assumes rt: "ewf_runtime_ok rt" "length (ewr_chunks rt) < u32_limit"
    and total: "\<forall>s \<in> set (ewr_segments rt). \<exists>c. steady_source (egs_source s) c" and cache: "ewf_cache_sizes rt cache"
  shows "\<exists>r cache'. ewf_read_at rt cache off n = Some (r, cache') \<and> no_panic r \<and> ewf_cache_sizes rt cache'"
proof (cases "ewr_media_size rt \<le> off \<or> n = 0")
  case True
  with cache show ?thesis by (auto simp: ewf_read_at_def)
next
  case False
  have step: "\<exists>r cache'. ewf_read_step rt n (length buf) (off + length buf) cache = (r, cache') \<and> ewf_cache_sizes rt cache' \<and>
      (case r of Inl e \<Rightarrow> \<forall>p. e \<noteq> Panic p | Inr bs \<Rightarrow> bs \<noteq> [] \<and> True \<and> length (buf @ bs) \<le> n \<and> off + length (buf @ bs) \<le> ewr_media_size rt)"
    if cache: "ewf_cache_sizes rt cache" and n: "length buf < n" and cur: "off + length buf < ewr_media_size rt" for buf cache
  proof -
    let ?cur = "off + length buf"
    define i where i: "i = ?cur div ewr_chunk_size rt"
    define rel where rel: "rel = ?cur - i * ewr_chunk_size rt"
    let ?c = "ewr_chunks rt ! i"
    note s = ewf_read_step_chunk [OF rt cur, folded i, folded rel]
    define k where "k = min (ecd_logical_size ?c - rel) (n - length buf)"
    have k: "0 < k" "k \<le> n - length buf" "rel + k \<le> ecd_logical_size ?c" "?cur + k \<le> ewr_media_size rt"
      using s(2,3) n by (auto simp: k_def)
    have size: "bs \<noteq> [] \<and> True \<and> length (buf @ bs) \<le> n \<and> off + length (buf @ bs) \<le> ewr_media_size rt" if "length bs = k" for bs
      using that k n by auto
    obtain content where content: "steady_source (egs_source (ewr_segments rt ! ecd_segment_index ?c)) content"
      using total s(4) by (meson nth_mem)
    have off: "ecd_data_offset ?c < u64_limit" using rt(1) s(1) by (simp add: ewf_runtime_ok_def)
    note eq = s(7) [OF k_def, of cache]
    show ?thesis
    proof (cases "ecd_compressed ?c")
      case True
      obtain r cache' where r: "ewf_read_compressed_chunk rt i ?c cache = (r, cache')" by (cases "ewf_read_compressed_chunk rt i ?c cache")
      note rule = ewf_read_compressed_chunk_rule [OF r]
      note d = ewf_decompress_chunk_no_panic [OF content s(4) off s(5)]
      have good: "no_panic r" "\<forall>data. r = Ok data \<longrightarrow> length data = ecd_logical_size ?c"
        using rule(1) cache d by (cases "cache i"; simp add: ewf_cache_sizes_def)+
      then have "ewf_cache_sizes rt cache'" using rule(2) cache s(1) by (auto simp: ewf_cache_sizes_def split: if_splits)
      moreover have "ewf_read_step rt n (length buf) ?cur cache =
          (and_then r (\<lambda>data. if length data < rel + k then Err (Panic Index_out_of_bounds) else Ok (subslice rel k data)), cache')"
        using eq True r by simp
      moreover have "case and_then r (\<lambda>data. if length data < rel + k then Err (Panic Index_out_of_bounds) else Ok (subslice rel k data)) of
          Inl e \<Rightarrow> \<forall>p. e \<noteq> Panic p | Inr bs \<Rightarrow> bs \<noteq> [] \<and> True \<and> length (buf @ bs) \<le> n \<and> off + length (buf @ bs) \<le> ewr_media_size rt"
      proof (cases r)
        case (Inl e)
        then show ?thesis using good(1) by (simp add: no_panic_def)
      next
        case (Inr data)
        then have "length data = ecd_logical_size ?c" using good(2) by simp
        then have "length (subslice rel k data) = k" "\<not> length data < rel + k" using k(3) by (simp_all add: length_slice)
        then show ?thesis using Inr size [of "subslice rel k data"] by simp
      qed
      ultimately show ?thesis by blast
    next
      case False
      let ?s = "egs_source (ewr_segments rt ! ecd_segment_index ?c)"
      have read: "ewf_read_step rt n (length buf) ?cur cache =
        (and_then (ok_or (Ewf_error Ewf_data_offset_overflow) (checked_add (ecd_data_offset ?c) rel)) (\<lambda>data_offset. read_exact_at ?s data_offset k), cache)"
        using eq False by simp
      let ?r = "and_then (ok_or (Ewf_error Ewf_data_offset_overflow) (checked_add (ecd_data_offset ?c) rel)) (\<lambda>data_offset. read_exact_at ?s data_offset k)"
      have "no_panic ?r"
        by (auto simp: ok_or_eq_Ok checked_add_eq_Some intro!: no_panic_and_then no_panic_ok_or no_panic_read [OF content])
      moreover have "length bs = k" if "?r = Ok bs" for bs
        using that byte_source.read_exact_at_sound [OF steady_is_byte [OF content]] by (auto simp: and_then_eq_Ok)
      ultimately have "case ?r of Inl e \<Rightarrow> \<forall>p. e \<noteq> Panic p
          | Inr bs \<Rightarrow> bs \<noteq> [] \<and> True \<and> length (buf @ bs) \<le> n \<and> off + length (buf @ bs) \<le> ewr_media_size rt"
        using size by (cases ?r) (auto simp: no_panic_def)
      then show ?thesis using read cache by blast
    qed
  qed
  have media: "ewr_media_size rt < u64_limit" using rt(1) by (simp add: ewf_runtime_ok_def)
  have "\<exists>r cache'. ewf_read_loop rt n (off + length ([] :: byte list)) [] cache = Some (r, cache') \<and> ewf_cache_sizes rt cache' \<and>
    (case r of Inl e \<Rightarrow> \<forall>p. e \<noteq> Panic p | Inr bs \<Rightarrow> True \<and> length bs \<le> n \<and> off + length bs \<le> ewr_media_size rt
      \<and> (length bs = n \<or> off + length bs = ewr_media_size rt))"
    by (rule ewf_read_loop_rule [where R = "\<lambda>_. True" and I = "ewf_cache_sizes rt" and E = "\<lambda>e. \<forall>p. e \<noteq> Panic p", OF step media])
      (use cache False in simp_all)
  then obtain r cache' where "ewf_read_loop rt n off [] cache = Some (r, cache')" "ewf_cache_sizes rt cache'"
    "case r of Inl e \<Rightarrow> \<forall>p. e \<noteq> Panic p | Inr bs \<Rightarrow> True \<and> length bs \<le> n \<and> off + length bs \<le> ewr_media_size rt
      \<and> (length bs = n \<or> off + length bs = ewr_media_size rt)"
    unfolding list.size add_0_right by blast
  then show ?thesis using False by (cases r) (auto simp: ewf_read_at_def)
qed

section \<open>Properties\<close>

lemma ewf_source_contract:
  assumes m: "ewf_media_ok rt cs xs" and cache: "ewf_cache_ok rt cs cache"
  shows "byte_source (ewf_source rt cache) (concat xs)"
    "(\<forall>s \<in> set (ewr_segments rt). \<exists>c. total_source (egs_source s) c) \<Longrightarrow> exact_source (ewf_source rt cache) (concat xs)"
proof -
  have size: "ds_size (ewf_source rt cache) = Ok (length (concat xs))" "length (concat xs) < u64_limit"
    using ewf_media_concat(1) [OF m] m by (simp_all add: ewf_source_def ewf_media_ok_def ewf_runtime_ok_def)
  have read: "bs = subslice off n (concat xs)" if "ds_read_at (ewf_source rt cache) off n = Ok bs" for off n bs
    using ewf_read_at_content [OF m cache, of off n] that by (auto simp: ewf_source_def)
  show "byte_source (ewf_source rt cache) (concat xs)"
  proof unfold_locales
    fix off n bs
    assume bs: "ds_read_at (ewf_source rt cache) off n = Ok bs"
    show "length bs \<le> n \<and> bs = subslice off (length bs) (concat xs)"
      unfolding read [OF bs] by (simp add: length_slice slice_min)
    assume "0 < n" "off < length (concat xs)"
    then show "bs \<noteq> []" unfolding read [OF bs] by (auto simp: slice_eq_Nil_iff)
  qed (use size in simp_all)
  assume total: "\<forall>s \<in> set (ewr_segments rt). \<exists>c. total_source (egs_source s) c"
  show "exact_source (ewf_source rt cache) (concat xs)"
  proof unfold_locales
    fix off n
    show "ds_read_at (ewf_source rt cache) off n = Ok (subslice off n (concat xs))"
      using ewf_read_at_content [OF m cache, of off n] total by (auto simp: ewf_source_def)
  qed (use size in simp_all)
qed

text \<open>
  (C13) The media source of an opened EWF image with fewer than \<open>2 ^ 32\<close> chunks, the range of the format's chunk
  count, is the concatenation of its chunks, of the declared size:
  a read returns bytes of the media, a compressed chunk the bytes that ZLIB makes of its data, whatever the
  chunks that earlier reads have left in the cache, and leaves a cache of the same kind.  When the segment
  files can be read, no read of an intact image fails.
\<close>

theorem ewf_media_content:
  assumes "ewf_open resolver file_name = Ok img" "length (ewr_chunks (ewi_runtime img)) < u32_limit"
    and "list_all2 (\<lambda>s c. byte_source (egs_source s) c) (ewr_segments (ewi_runtime img)) cs"
    and "list_all2 (\<lambda>chunk x. ewf_chunk_content (ewr_chunk_size (ewi_runtime img)) cs chunk = Some x) (ewr_chunks (ewi_runtime img)) xs"
    and "ewf_cache_ok (ewi_runtime img) cs cache"
  shows "byte_source (ewf_open_source img cache) (concat xs) \<and> length (concat xs) = ewi_media_size img
    \<and> (\<exists>r cache'. ewf_read_at (ewi_runtime img) cache off n = Some (r, cache') \<and> ewf_cache_ok (ewi_runtime img) cs cache'
         \<and> (\<forall>bs. r = Ok bs \<longrightarrow> bs = subslice off n (concat xs)))
    \<and> ((\<forall>s \<in> set (ewr_segments (ewi_runtime img)). \<exists>c. total_source (egs_source s) c) \<longrightarrow> exact_source (ewf_open_source img cache) (concat xs))"
proof -
  have m: "ewf_media_ok (ewi_runtime img) cs xs"
    using ewf_open_runtime(1) [OF assms(1)] assms(2-4) by (simp add: ewf_media_ok_def)
  show ?thesis
    using ewf_source_contract [OF m assms(5)] ewf_media_concat(1) [OF m] ewf_open_runtime(3) [OF assms(1)] ewf_read_at_content [OF m assms(5), of off n]
    unfolding ewf_open_source_def by auto
qed

theorem ewf_media_content_witness:
  "exact_source (ewf_open_source ewf_sample_image Map.empty) [0x41, 0x42]
    \<and> (\<exists>cache'. ewf_read_at (ewi_runtime ewf_sample_image) Map.empty 0 2 = Some (Ok [0x41, 0x42], cache'))"
proof -
  have segments: "ewr_segments (ewi_runtime ewf_sample_image) = [ewf_sample_segment]" "egs_source ewf_sample_segment = ewf_sample_source"
    "ewr_chunk_size (ewi_runtime ewf_sample_image) = 1" "ewr_chunks (ewi_runtime ewf_sample_image) = ewf_sample_chunks"
    by (simp_all add: ewf_sample_image_def ewf_sample_segment_def)
  have srcs: "list_all2 (\<lambda>s c. byte_source (egs_source s) c) (ewr_segments (ewi_runtime ewf_sample_image)) [ewf_sample]"
    using ewf_sample_sources(2) by (simp add: segments)
  have contents: "list_all2 (\<lambda>chunk x. ewf_chunk_content (ewr_chunk_size (ewi_runtime ewf_sample_image)) [ewf_sample] chunk = Some x)
      (ewr_chunks (ewi_runtime ewf_sample_image)) [[0x41], [0x42]]"
    using ewf_sample_contents by (simp add: segments)
  have few: "length (ewr_chunks (ewi_runtime ewf_sample_image)) < u32_limit" by (simp add: segments ewf_sample_chunks_def u32_limit_def)
  have all: "\<forall>s \<in> set (ewr_segments (ewi_runtime ewf_sample_image)). \<exists>c. total_source (egs_source s) c"
    using ewf_sample_sources(1) by (auto simp: segments)
  note m = ewf_media_content [OF ewf_sample_image_open few srcs contents ewf_cache_ok_empty, of 0 2]
  from m all have exact: "exact_source (ewf_open_source ewf_sample_image Map.empty) [0x41, 0x42]" by simp
  obtain r cache' where r: "ewf_read_at (ewi_runtime ewf_sample_image) Map.empty 0 2 = Some (r, cache')" using m by blast
  have "ds_read_at (ewf_open_source ewf_sample_image Map.empty) 0 2 = Ok [0x41, 0x42]"
    using exact_source.exact_read [OF exact, of 0 2] by (simp add: subslice_def)
  then show ?thesis using exact r by (simp add: ewf_open_source_def ewf_source_def)
qed

text \<open>
  (C14) The segment files of an opened EWF image are the files with the names of the numbers 1, 2 and so on in
  the naming schema of the first, each says its number in its header, and all but the last say that there is
  a next one.  A schema has a name for exactly the numbers up to its last one, \<open>ZZZ\<close>, and the names differ.
\<close>

theorem ewf_segments_in_order:
  assumes "ewf_open resolver (Some file_name) = Ok img"
  shows "\<exists>schema. ewf_segment_file_naming_schema file_name = Ok schema
    \<and> ewf_segments_from resolver (path_file_stem file_name) schema (ewr_segments (ewi_runtime img))
    \<and> ewr_segments (ewi_runtime img) \<noteq> [] \<and> length (ewr_segments (ewi_runtime img)) \<le> ewf_last_segment schema
    \<and> (\<forall>s \<in> set (butlast (ewr_segments (ewi_runtime img))). egs_continuation s = HasNext)
    \<and> (\<forall>n. (\<exists>e. ewf_segment_file_name (path_file_stem file_name) n schema = Ok e) \<longleftrightarrow> 0 < n \<and> n \<le> ewf_last_segment schema)
    \<and> distinct (map egs_file_name (ewr_segments (ewi_runtime img)))"
proof -
  obtain f schema where f: "Some file_name = Some f" "ewf_segment_file_naming_schema f = Ok schema"
    "ewf_segments_from resolver (path_file_stem f) schema (ewr_segments (ewi_runtime img))"
    "ewr_segments (ewi_runtime img) \<noteq> []" "egs_continuation (last (ewr_segments (ewi_runtime img))) \<noteq> HasNext"
    "\<forall>s \<in> set (butlast (ewr_segments (ewi_runtime img))). egs_continuation s = HasNext"
    by (rule ewf_open_Ok [OF assms])
  let ?segs = "ewr_segments (ewi_runtime img)" and ?name = "path_file_stem f"
  have names: "\<forall>i < length ?segs. ewf_segment_file_name ?name (i + 1) schema = Ok (egs_file_name (?segs ! i))"
    using f(3) by (simp add: ewf_segments_from_def)
  then have "distinct (map egs_file_name ?segs)"
    unfolding distinct_conv_nth by (auto dest!: ewf_names_inj simp: all_conj_distrib)
      (metis Suc_inject ewf_names_inj)
  moreover have exact: "(\<exists>e. ewf_segment_file_name ?name n schema = Ok e) \<longleftrightarrow> 0 < n \<and> n \<le> ewf_last_segment schema" for n
    using ewf_extension_Ok(1,2) ewf_extension_total by (auto simp: ewf_segment_file_name_def and_then_eq_Ok)
  moreover have "length ?segs \<le> ewf_last_segment schema"
    using names [rule_format, of "length ?segs - 1"] exact [of "length ?segs"] f(4) by auto
  ultimately show ?thesis using f by auto
qed

theorem ewf_segments_in_order_witness:
  "ewf_segments_from ewf_sample_resolver (lit ''a'') E01Upper [ewf_sample_segment]
    \<and> ewf_segment_file_name (lit ''a'') 14971 E01Upper = Ok (lit ''a.ZZZ'')
    \<and> (\<forall>e. ewf_segment_file_name (lit ''a'') 14972 E01Upper \<noteq> Ok e)"
proof -
  have segments: "ewr_segments (ewi_runtime ewf_sample_image) = [ewf_sample_segment]" by (simp add: ewf_sample_image_def)
  have "ewf_segment_file_name (lit ''a'') 14971 E01Upper = Ok (lit ''a.ZZZ'')"
    by (simp add: ewf_segment_file_name_def ewf_segment_file_extension_def ewf_base_character_def ewf_last_character_def lit_def)
  moreover obtain schema where schema: "ewf_segment_file_naming_schema (lit ''a.E01'') = Ok schema"
    "ewf_segments_from ewf_sample_resolver (path_file_stem (lit ''a.E01'')) schema [ewf_sample_segment]"
    "\<forall>n. (\<exists>e. ewf_segment_file_name (path_file_stem (lit ''a.E01'')) n schema = Ok e) \<longleftrightarrow> 0 < n \<and> n \<le> ewf_last_segment schema"
    using ewf_segments_in_order [OF ewf_sample_image_open] unfolding segments by blast
  moreover have "schema = E01Upper" using schema(1) ewf_sample_names(1) by simp
  moreover have "\<forall>e. ewf_segment_file_name (lit ''a'') 14972 E01Upper \<noteq> Ok e"
    using schema(3) [rule_format, of 14972] \<open>schema = E01Upper\<close> ewf_sample_names(2) by simp
  ultimately show ?thesis using ewf_sample_names(2) by simp
qed

text \<open>
  (C15) The sections of a segment file follow each other from the end of the file header to the end of the
  file; each section header is in the file with its Adler-32 checksum, and only the last section can be the
  one that ends a segment.
\<close>

theorem ewf_sections_tile_segment:
  assumes "ewf_segment_open file_name ds = Ok segment" "byte_source ds content"
  shows "layout esh_file_offset esh_size 13 (egs_sections segment) \<and> 13 + sum_list (map esh_size (egs_sections segment)) = length content
    \<and> (\<forall>s \<in> set (egs_sections segment). 76 \<le> esh_size s \<and> esh_section_type s = subslice (esh_file_offset s) 16 content
         \<and> u32_le (esh_file_offset s + 72) content = adler_checksum 1 (subslice (esh_file_offset s) 72 content))
    \<and> (\<forall>s \<in> set (butlast (egs_sections segment)). \<not> ewf_is_done_or_next s)"
proof -
  have "ewf_adler32 data = adler_checksum 1 data" for data
    using adler32_updates [of "adler32_new 1" "[data]"] by (simp add: ewf_adler32_def adler32_finalize_def adler32_new_def)
  then show ?thesis using ewf_segment_tiles [OF assms] by (simp add: ewf_section_in_def)
qed

theorem ewf_sections_tile_segment_witness:
  "map esh_file_offset ewf_sample_headers = [13, 183, 278, 390] \<and> layout esh_file_offset esh_size 13 ewf_sample_headers
    \<and> 13 + sum_list (map esh_size ewf_sample_headers) = length ewf_sample"
  using ewf_sections_tile_segment [OF ewf_sample_open ewf_sample_sources(2)]
  by (simp add: ewf_sample_segment_def) (simp add: ewf_sample_headers_def)

text \<open>
  (C16) No bytes of the segment files make the EWF driver panic when it opens an image, and none when it reads the
  media of an image of fewer than \<open>2 ^ 32\<close> chunks; every such read ends.  The reads of the segment files may
  be short or fail, but do not themselves panic.  The bound is needed for the reads: the driver compares the number of
  chunks with the declared one modulo \<open>2 ^ 32\<close> only, and beyond it chunks of different sizes would share their
  places in the cache.
\<close>

theorem ewf_no_panic:
  assumes "ewf_resolver_ok resolver"
  shows "no_panic (ewf_open resolver file_name)
    \<and> (\<forall>img cache off n. ewf_open resolver file_name = Ok img \<and> length (ewr_chunks (ewi_runtime img)) < u32_limit
         \<and> ewf_cache_sizes (ewi_runtime img) cache \<longrightarrow>
       (\<exists>r cache'. ewf_read_at (ewi_runtime img) cache off n = Some (r, cache') \<and> no_panic r \<and> ewf_cache_sizes (ewi_runtime img) cache'))"
proof (intro conjI allI impI)
  show "no_panic (ewf_open resolver file_name)" by (rule ewf_open_no_panic [OF assms])
next
  fix img cache off n
  assume img: "ewf_open resolver file_name = Ok img \<and> length (ewr_chunks (ewi_runtime img)) < u32_limit \<and> ewf_cache_sizes (ewi_runtime img) cache"
  then obtain f schema where "ewf_segments_from resolver (path_file_stem f) schema (ewr_segments (ewi_runtime img))"
    by (blast elim: ewf_open_Ok)
  then have "\<forall>s \<in> set (ewr_segments (ewi_runtime img)). \<exists>c. steady_source (egs_source s) c"
    using ewf_segments_ok [OF assms] unfolding ewf_segment_ok_def by blast
  then show "\<exists>r cache'. ewf_read_at (ewi_runtime img) cache off n = Some (r, cache') \<and> no_panic r \<and> ewf_cache_sizes (ewi_runtime img) cache'"
    using img ewf_open_runtime(1) by (intro ewf_read_at_no_panic) auto
qed

theorem ewf_no_panic_witness:
  "no_panic (ewf_open ewf_sample_resolver (Some (lit ''a.E01'')))
    \<and> (\<exists>r cache'. ewf_read_at (ewi_runtime ewf_sample_image) Map.empty 1 7 = Some (r, cache') \<and> no_panic r)"
proof -
  have "ewf_resolver_ok ewf_sample_resolver" 
    using ewf_sample_resolver_total total_is_steady unfolding ewf_resolver_ok_def by blast
  moreover have "length (ewr_chunks (ewi_runtime ewf_sample_image)) < u32_limit" "ewf_cache_sizes (ewi_runtime ewf_sample_image) Map.empty"
    by (simp_all add: ewf_sample_image_def ewf_sample_chunks_def u32_limit_def ewf_cache_sizes_def)
  ultimately show ?thesis using ewf_no_panic [of ewf_sample_resolver "Some (lit ''a.E01'')"] ewf_sample_image_open by blast
qed

end
