(* ===== verification/Fat_Names.thy ===== *)
theory Fat_Names
  imports Unicode_Text
begin

text \<open>
  The directory entries of the FAT file system (\<open>filesystem/fat/mod.rs\<close>): short names, VFAT long
  names, and the loop that reads the entries of a directory into a table indexed by the names in
  lower case.  A directory written entry by entry, with the long name of an entry spread over the
  records before it, is read back as it was written.
\<close>

section \<open>Data\<close>

datatype FatFormat = Fat12 | Fat16 | Fat32

record FatLongNameDirectoryEntry =
  fln_sequence_number :: byte
  fln_name :: "nat list"

record FatShortNameDirectoryEntry =
  fsn_name :: str
  fsn_file_attribute_flags :: byte
  fsn_data_start_cluster :: nat
  fsn_data_size :: nat

record FatDirectoryEntry =
  fde_identifier :: nat
  fde_short_name :: str
  fde_file_attribute_flags :: byte
  fde_data_start_cluster :: nat
  fde_data_size :: nat
  fde_long_name :: "str option"

record FatDirectoryEntries =
  fds_entries :: "str \<rightharpoonup> FatDirectoryEntry"
  fds_volume_label :: "str option"

definition fat_directory_entries_default :: FatDirectoryEntries where
  "fat_directory_entries_default = \<lparr>fds_entries = Map.empty, fds_volume_label = None\<rparr>"

definition fat_entry_name :: "FatDirectoryEntry \<Rightarrow> str" where
  "fat_entry_name e = (case fde_long_name e of Some long_name \<Rightarrow> long_name | None \<Rightarrow> fde_short_name e)"

section \<open>Names\<close>

definition normalize_lookup_name :: "str \<Rightarrow> str" where
  "normalize_lookup_name name = ascii_lowercase name"

definition trim_ascii_end_spaces :: "byte list \<Rightarrow> str" where
  "trim_ascii_end_spaces data = from_utf8_lossy (rev (dropWhile (\<lambda>b. b = 0x20) (rev data)))"

fun read_ucs2_segments :: "byte list \<Rightarrow> nat list" where
  "read_ucs2_segments (a # b # bs) =
     (let value = from_le_bytes [a, b]
      in if value = 0 \<or> value = 0xffff then [] else value # read_ucs2_segments bs)"
| "read_ucs2_segments _ = []"

definition read_long_name_directory_entry :: "byte list \<Rightarrow> FatLongNameDirectoryEntry result" where
  "read_long_name_directory_entry data =
     (if length data < 32 then Err (Fat_error Fat_long_name_entry_size)
      else
        let name = read_ucs2_segments (subslice 1 10 data);
            name = (if length name = 5 \<or> subslice 14 2 data \<noteq> [0xff, 0xff]
                    then name @ read_ucs2_segments (subslice 14 12 data) else name);
            name = (if length name = 11 \<or> subslice 28 2 data \<noteq> [0xff, 0xff]
                    then name @ read_ucs2_segments (subslice 28 4 data) else name)
        in Ok \<lparr>fln_sequence_number = data ! 0, fln_name = name\<rparr>)"

definition read_short_name_directory_entry :: "byte list \<Rightarrow> FatFormat \<Rightarrow> FatShortNameDirectoryEntry result" where
  "read_short_name_directory_entry data format =
     (if length data < 32 then Err (Fat_error Fat_short_name_entry_size)
      else
        let file_attribute_flags = data ! 11;
            flags = data ! 12;
            name = trim_ascii_end_spaces (subslice 0 8 data);
            name = (if flags AND 0x08 \<noteq> 0 then ascii_lowercase name else name);
            extension = trim_ascii_end_spaces (subslice 8 3 data);
            name = (if extension \<noteq> [] then
                      name @ (if file_attribute_flags AND 0x58 \<noteq> 0x08 then lit ''.'' else [])
                           @ (if flags AND 0x10 \<noteq> 0 then ascii_lowercase extension else extension)
                    else name);
            data_start_cluster =
              (case format of
                 Fat32 \<Rightarrow> push_bit 16 (u16_le 20 data) OR u16_le 26 data
               | _ \<Rightarrow> u16_le 26 data)
        in Ok \<lparr>fsn_name = name, fsn_file_attribute_flags = file_attribute_flags,
               fsn_data_start_cluster = data_start_cluster, fsn_data_size = u32_le 28 data\<rparr>)"

text \<open>The entries of a long name are stored from the last part to the first.\<close>

definition build_long_name :: "FatLongNameDirectoryEntry list \<Rightarrow> str result" where
  "build_long_name long_name_entries =
     ok_or (Fat_error Fat_long_name_encoding) (from_utf16 (concat (map fln_name (rev long_name_entries))))"

section \<open>The entries of a directory\<close>

datatype FatDirectoryEntryType = LongName | ShortName | Terminator | Unallocated

definition classify_directory_entry :: "byte list \<Rightarrow> FatDirectoryEntryType" where
  "classify_directory_entry data =
     (if data ! 0 = 0xe5 then Unallocated
      else if subslice 11 2 data = [0x0f, 0x00] \<and> subslice 26 2 data = [0x00, 0x00]
           \<and> ((0x01 \<le> data ! 0 \<and> data ! 0 \<le> 0x13) \<or> (0x41 \<le> data ! 0 \<and> data ! 0 \<le> 0x54))
      then LongName
      else if subslice 0 32 data = replicate 32 0 then Terminator
      else ShortName)"

text \<open>
  An entry with a short name: a volume label, one of the two entries of every directory for itself
  and its parent, or an entry of the table.  The second component is what is left of the long name
  entries, which are used up only by an entry of the table.
\<close>

definition fat_add_short_entry :: "FatDirectoryEntries \<Rightarrow> FatShortNameDirectoryEntry \<Rightarrow> nat
    \<Rightarrow> FatLongNameDirectoryEntry list \<Rightarrow> (FatDirectoryEntries \<times> FatLongNameDirectoryEntry list) result" where
  "fat_add_short_entry entries short_name directory_entry_offset long_name_entries =
     (if fsn_file_attribute_flags short_name AND 0x58 = 0x08
      then Ok (entries\<lparr>fds_volume_label := Some (fsn_name short_name)\<rparr>, long_name_entries)
      else if fsn_name short_name \<noteq> lit ''.'' \<and> fsn_name short_name \<noteq> lit ''..'' then
        and_then (if long_name_entries = [] then Ok None
                  else and_then (build_long_name long_name_entries) (\<lambda>s. Ok (Some s))) (\<lambda>long_name.
          let directory_entry =
                \<lparr>fde_identifier = directory_entry_offset mod u32_limit,
                 fde_short_name = fsn_name short_name,
                 fde_file_attribute_flags = fsn_file_attribute_flags short_name,
                 fde_data_start_cluster = fsn_data_start_cluster short_name,
                 fde_data_size = fsn_data_size short_name, fde_long_name = long_name\<rparr>;
              lookup_name = normalize_lookup_name (fat_entry_name directory_entry)
          in Ok (entries\<lparr>fds_entries := (fds_entries entries)(lookup_name \<mapsto> directory_entry)\<rparr>, []))
      else Ok (entries, long_name_entries))"

text \<open>
  One record of the directory, \<open>None\<close> at the terminator: the table, the long name entries collected
  so far and the sequence number of the last one.
\<close>

definition fat_directory_step :: "FatFormat \<Rightarrow> byte list \<Rightarrow> nat
    \<Rightarrow> FatDirectoryEntries \<times> FatLongNameDirectoryEntry list \<times> byte
    \<Rightarrow> (FatDirectoryEntries \<times> FatLongNameDirectoryEntry list \<times> byte) option result" where
  "fat_directory_step format entry_data directory_entry_offset = (\<lambda>(entries, long_name_entries, last_vfat_sequence_number).
     (case classify_directory_entry entry_data of
        LongName \<Rightarrow>
          and_then (read_long_name_directory_entry entry_data) (\<lambda>entry.
            let vfat_sequence_number = fln_sequence_number entry AND 0x1f in
            if fln_sequence_number entry AND 0x40 \<noteq> 0 then Ok (Some (entries, [entry], vfat_sequence_number))
            else if last_vfat_sequence_number \<noteq> 0 \<and> vfat_sequence_number + 1 \<noteq> last_vfat_sequence_number
            then Err (Fat_error Fat_long_name_sequence)
            else Ok (Some (entries, long_name_entries @ [entry], vfat_sequence_number)))
      | ShortName \<Rightarrow>
          and_then (read_short_name_directory_entry entry_data format) (\<lambda>short_name.
          and_then (fat_add_short_entry entries short_name directory_entry_offset long_name_entries)
            (\<lambda>(entries, long_name_entries). Ok (Some (entries, long_name_entries, 0))))
      | Terminator \<Rightarrow> Ok None
      | Unallocated \<Rightarrow> Ok (Some (entries, [], 0))))"

function fat_directory_loop :: "FatFormat \<Rightarrow> byte list \<Rightarrow> nat
    \<Rightarrow> FatDirectoryEntries \<times> FatLongNameDirectoryEntry list \<times> byte \<Rightarrow> FatDirectoryEntries result" where
  "fat_directory_loop format data directory_entry_offset state =
     (if 32 \<le> length data then
        and_then (fat_directory_step format (subslice 0 32 data) directory_entry_offset state) (\<lambda>next_state.
          case next_state of
            None \<Rightarrow> Ok (fst state)
          | Some state \<Rightarrow>
              and_then (add_u64 directory_entry_offset 32) (\<lambda>directory_entry_offset.
                fat_directory_loop format (drop 32 data) directory_entry_offset state))
      else Ok (fst state))"
  by pat_completeness auto
termination
  by (relation "measure (\<lambda>(_, data, _). length data)") auto

declare fat_directory_loop.simps [simp del]

definition read_directory_entries_from_data :: "FatDirectoryEntries \<Rightarrow> byte list \<Rightarrow> nat \<Rightarrow> FatFormat
    \<Rightarrow> FatDirectoryEntries result" where
  "read_directory_entries_from_data entries data directory_entry_offset format =
     fat_directory_loop format data directory_entry_offset (entries, [], 0)"

section \<open>Reading the records one by one\<close>

lemma fat_directory_loop_end: "length data < 32 \<Longrightarrow> fat_directory_loop format data off st = Ok (fst st)"
  by (simp add: fat_directory_loop.simps [of format data])

lemma fat_directory_loop_record:
  assumes "length r = 32" "off + 32 < u64_limit"
  shows "fat_directory_loop format (r @ rest) off st =
    and_then (fat_directory_step format r off st) (\<lambda>st'.
      case st' of None \<Rightarrow> Ok (fst st) | Some st' \<Rightarrow> fat_directory_loop format rest (off + 32) st')"
proof -
  have "subslice 0 32 (r @ rest) = r" "drop 32 (r @ rest) = rest" "32 \<le> length (r @ rest)"
    using assms(1) by (simp_all add: subslice_def)
  then show ?thesis
    using assms(2) by (subst fat_directory_loop.simps)
      (simp add: add_u64_def cong: option.case_cong)
qed

section \<open>Writing a directory\<close>

text \<open>
  The records of a long name as they are stored: the name in parts of 13 units, the last part
  first and marked, each part in three fields of its record and padded after a terminator.  These
  definitions are the format the reader is compared with.
\<close>

definition unit_bytes :: "nat \<Rightarrow> byte list" where
  "unit_bytes u = [of_nat (u mod 256), of_nat (u div 256)]"

definition vfat_padded :: "nat list \<Rightarrow> nat list" where
  "vfat_padded part = (if length part < 13 then part @ 0 # replicate (12 - length part) 0xffff else part)"

definition vfat_record :: "byte \<Rightarrow> byte \<Rightarrow> nat list \<Rightarrow> byte list" where
  "vfat_record sequence_number checksum part =
     (let us = vfat_padded part in
      [sequence_number] @ concat (map unit_bytes (take 5 us)) @ [0x0f, 0, checksum]
      @ concat (map unit_bytes (take 6 (drop 5 us))) @ [0, 0] @ concat (map unit_bytes (drop 11 us)))"

definition vfat_part :: "nat list \<Rightarrow> nat \<Rightarrow> nat list" where
  "vfat_part name k = take 13 (drop (13 * (k - 1)) name)"

definition vfat_parts :: "nat list \<Rightarrow> nat" where
  "vfat_parts name = div_ceil (length name) 13"

definition vfat_number :: "nat \<Rightarrow> nat \<Rightarrow> byte" where
  "vfat_number n k = (if k = n then 0x40 + of_nat k else of_nat k)"

definition vfat_records :: "byte \<Rightarrow> nat list \<Rightarrow> byte list list" where
  "vfat_records checksum name =
     map (\<lambda>k. vfat_record (vfat_number (vfat_parts name) k) checksum (vfat_part name k)) (rev [1..<Suc (vfat_parts name)])"

definition vfat_unit :: "nat \<Rightarrow> bool" where
  "vfat_unit u \<longleftrightarrow> 0 < u \<and> u < 0xffff"

subsection \<open>One record\<close>

lemma from_le_unit_bytes: "u < 65536 \<Longrightarrow> from_le_bytes (unit_bytes u) = u"
  by (simp add: unit_bytes_def from_le_bytes_def from_be_bytes_def unat_of_nat)

lemma read_ucs2_units:
  "\<forall>u \<in> set us. u < 65536 \<Longrightarrow>
     read_ucs2_segments (concat (map unit_bytes us)) = takeWhile (\<lambda>u. u \<noteq> 0 \<and> u \<noteq> 0xffff) us"
proof (induction us)
  case (Cons u us)
  have "read_ucs2_segments (unit_bytes u @ bs) = (if u = 0 \<or> u = 0xffff then [] else u # read_ucs2_segments bs)" for bs
    using Cons.prems from_le_unit_bytes [of u] by (simp add: unit_bytes_def)
  with Cons show ?case by simp
qed simp

lemma length_concat_unit_bytes: "length (concat (map unit_bytes us)) = 2 * length us"
  by (induction us) (simp_all add: unit_bytes_def)

lemma length_vfat_padded: "length part \<le> 13 \<Longrightarrow> length (vfat_padded part) = 13"
  by (simp add: vfat_padded_def)

lemma vfat_record_fields:
  fixes s ck :: byte
  assumes "length part \<le> 13"
  defines "us \<equiv> vfat_padded part" and "r \<equiv> vfat_record s ck part"
  shows "length r = 32" "r ! 0 = s" "subslice 11 2 r = [0x0f, 0]" "subslice 26 2 r = [0, 0]"
    "subslice 1 10 r = concat (map unit_bytes (take 5 us))"
    "subslice 14 12 r = concat (map unit_bytes (take 6 (drop 5 us)))"
    "subslice 28 4 r = concat (map unit_bytes (drop 11 us))"
    "subslice 14 2 r = unit_bytes (us ! 5)" "subslice 28 2 r = unit_bytes (us ! 11)"
proof -
  have len: "length us = 13" unfolding us_def by (rule length_vfat_padded [OF assms(1)])
  then obtain a b c d e f g h i j k l m where us: "us = [a, b, c, d, e, f, g, h, i, j, k, l, m]"
    by (auto simp: length_Suc_conv eval_nat_numeral)
  have r: "r = [s] @ concat (map unit_bytes [a, b, c, d, e]) @ [0x0f, 0, ck]
      @ concat (map unit_bytes [f, g, h, i, j, k]) @ [0, 0] @ concat (map unit_bytes [l, m])"
    by (simp add: r_def vfat_record_def us us_def [symmetric])
  show "length r = 32" "r ! 0 = s" "subslice 11 2 r = [0x0f, 0]" "subslice 26 2 r = [0, 0]"
    "subslice 1 10 r = concat (map unit_bytes (take 5 us))"
    "subslice 14 12 r = concat (map unit_bytes (take 6 (drop 5 us)))"
    "subslice 28 4 r = concat (map unit_bytes (drop 11 us))"
    "subslice 14 2 r = unit_bytes (us ! 5)" "subslice 28 2 r = unit_bytes (us ! 11)"
    unfolding r us by (simp_all add: unit_bytes_def subslice_def)
qed

lemma vfat_padded_nth:
  assumes "length part \<le> 13" "i < 13"
  shows "vfat_padded part ! i = (if i < length part then part ! i else if i = length part then 0 else 0xffff)"
  using assms by (auto simp: vfat_padded_def nth_append nth_Cons')

lemma vfat_padded_units: "\<forall>u \<in> set part. vfat_unit u \<Longrightarrow> \<forall>u \<in> set (vfat_padded part). u < 65536"
  by (auto simp: vfat_padded_def vfat_unit_def)

lemma takeWhile_padded:
  assumes part: "length part \<le> 13" "\<forall>u \<in> set part. vfat_unit u"
    and "lo + n \<le> 13" "lo \<le> length part"
  shows "takeWhile (\<lambda>u. u \<noteq> 0 \<and> u \<noteq> 0xffff) (take n (drop lo (vfat_padded part))) = take n (drop lo part)"
proof (cases "length part < lo + n")
  case True
  then have "take n (drop lo (vfat_padded part)) = drop lo part @ take (n - (length part - lo)) (0 # replicate (12 - length part) 0xffff)"
    using assms by (auto simp: vfat_padded_def)
  moreover have "n - (length part - lo) = Suc (n - (length part - lo) - 1)" using True assms(4) by simp
  then obtain m where "n - (length part - lo) = Suc m" by blast
  moreover have "\<forall>u \<in> set (drop lo part). u \<noteq> 0 \<and> u \<noteq> 0xffff"
    using part(2) in_set_dropD by (fastforce simp: vfat_unit_def)
  ultimately show ?thesis using True by simp
next
  case False
  then have "take n (drop lo (vfat_padded part)) = take n (drop lo part)"
    using assms by (auto simp: vfat_padded_def)
  moreover have "\<forall>u \<in> set (take n (drop lo part)). vfat_unit u"
    using part(2) by (meson in_set_dropD in_set_takeD)
  then have "\<forall>u \<in> set (take n (drop lo part)). u \<noteq> 0 \<and> u \<noteq> 0xffff" by (auto simp: vfat_unit_def)
  ultimately show ?thesis by simp
qed

lemma unit_bytes_max: "unit_bytes 0xffff = [0xff, 0xff]" "unit_bytes u = [0xff, 0xff] \<Longrightarrow> u < 65536 \<Longrightarrow> u = 0xffff"
  using from_le_unit_bytes [of u] by (auto simp: unit_bytes_def from_le_bytes_def from_be_bytes_def)

text \<open>The reader gets the part of the name out of a record.\<close>

lemma read_vfat_record:
  assumes part: "length part \<le> 13" "\<forall>u \<in> set part. vfat_unit u"
  shows "read_long_name_directory_entry (vfat_record s ck part) = Ok \<lparr>fln_sequence_number = s, fln_name = part\<rparr>"
proof -
  note fields = vfat_record_fields [OF part(1), of s ck]
  note units = vfat_padded_units [OF part(2)]
  let ?us = "vfat_padded part"
  have read: "read_ucs2_segments (concat (map unit_bytes (take n (drop lo ?us))))
      = takeWhile (\<lambda>u. u \<noteq> 0 \<and> u \<noteq> 0xffff) (take n (drop lo ?us))" for lo n
    using units in_set_takeD in_set_dropD by (intro read_ucs2_units) fast
  have drop: "drop 11 ?us = take 2 (drop 11 ?us)" using length_vfat_padded [OF part(1)] by simp
  note first = read [of 5 0] takeWhile_padded [OF part, of 0 5]
    and second = read [of 6 5] takeWhile_padded [OF part, of 5 6]
    and third = read [of 2 11, folded drop] takeWhile_padded [OF part, of 11 2, folded drop]
  have nth: "?us ! 5 = (if 5 < length part then part ! 5 else if 5 = length part then 0 else 0xffff)"
    "?us ! 11 = (if 11 < length part then part ! 11 else if 11 = length part then 0 else 0xffff)"
    by (simp_all add: vfat_padded_nth part(1))
  have split: "take 5 part @ take 6 (drop 5 part) = take 11 part" "take 11 part @ drop 11 part = part"
    using take_add [of 5 6 part] append_take_drop_id [of 11 part] by simp_all
  consider "length part < 5" | "5 \<le> length part" "length part < 11" | "11 \<le> length part" by linarith
  then show ?thesis
  proof cases
    case 1
    with fields first nth unit_bytes_max(1) show ?thesis
      by (simp add: read_long_name_directory_entry_def Let_def)
  next
    case 2
    with fields first second nth unit_bytes_max(1) split show ?thesis
      by (simp add: read_long_name_directory_entry_def Let_def)
  next
    case 3
    with fields first second third nth split part(1) show ?thesis
      by (simp add: read_long_name_directory_entry_def Let_def)
  qed
qed

subsection \<open>The records of a name\<close>

lemma vfat_number_bits:
  assumes "1 \<le> k" "k \<le> 20"
  shows "(of_nat k :: byte) AND 0x1f = of_nat k" "(0x40 + of_nat k :: byte) AND 0x1f = of_nat k"
    "(of_nat k :: byte) AND 0x40 = 0" "(0x40 + of_nat k :: byte) AND 0x40 \<noteq> 0"
    "(of_nat k :: byte) \<noteq> 0" "0x41 \<le> (0x40 + of_nat k :: byte) \<and> (0x40 + of_nat k :: byte) \<le> 0x54"
    "k < 20 \<Longrightarrow> 0x01 \<le> (of_nat k :: byte) \<and> (of_nat k :: byte) \<le> 0x13"
proof -
  have "\<forall>k \<in> set [1..<21]. (of_nat k :: byte) AND 0x1f = of_nat k \<and> (0x40 + of_nat k :: byte) AND 0x1f = of_nat k
      \<and> (of_nat k :: byte) AND 0x40 = 0 \<and> (0x40 + of_nat k :: byte) AND 0x40 \<noteq> 0 \<and> (of_nat k :: byte) \<noteq> 0
      \<and> 0x41 \<le> (0x40 + of_nat k :: byte) \<and> (0x40 + of_nat k :: byte) \<le> 0x54
      \<and> (k < 20 \<longrightarrow> 0x01 \<le> (of_nat k :: byte) \<and> (of_nat k :: byte) \<le> 0x13)"
    by code_simp
  with assms show "(of_nat k :: byte) AND 0x1f = of_nat k" "(0x40 + of_nat k :: byte) AND 0x1f = of_nat k"
    "(of_nat k :: byte) AND 0x40 = 0" "(0x40 + of_nat k :: byte) AND 0x40 \<noteq> 0"
    "(of_nat k :: byte) \<noteq> 0" "0x41 \<le> (0x40 + of_nat k :: byte) \<and> (0x40 + of_nat k :: byte) \<le> 0x54"
    "k < 20 \<Longrightarrow> 0x01 \<le> (of_nat k :: byte) \<and> (of_nat k :: byte) \<le> 0x13"
    by simp_all
qed

lemma vfat_part_units:
  assumes "\<forall>u \<in> set name. vfat_unit u"
  shows "length (vfat_part name k) \<le> 13" "\<forall>u \<in> set (vfat_part name k). vfat_unit u"
  using assms by (auto simp: vfat_part_def dest: in_set_takeD in_set_dropD)

lemma classify_vfat_record:
  assumes "length part \<le> 13" "1 \<le> k" "k \<le> n" "n \<le> 20"
  shows "classify_directory_entry (vfat_record (vfat_number n k) ck part) = LongName"
proof -
  note fields = vfat_record_fields [OF assms(1), of "vfat_number n k" ck]
  have "(0x01 \<le> vfat_number n k \<and> vfat_number n k \<le> 0x13) \<or> (0x41 \<le> vfat_number n k \<and> vfat_number n k \<le> 0x54)"
    using vfat_number_bits [of k] assms by (cases "k = n") (simp_all add: vfat_number_def)
  moreover from this have "vfat_number n k \<noteq> 0xe5" by (auto simp: word_le_nat_alt)
  ultimately show ?thesis using fields by (simp add: classify_directory_entry_def)
qed

text \<open>Steps over the records of a name: the marked one starts over, the others are added in turn.\<close>

lemma vfat_step_first:
  assumes "\<forall>u \<in> set name. vfat_unit u" "1 \<le> n" "n \<le> 20"
  shows "fat_directory_step format (vfat_record (vfat_number n n) ck (vfat_part name n)) off (entries, ls, m) =
    Ok (Some (entries, [\<lparr>fln_sequence_number = vfat_number n n, fln_name = vfat_part name n\<rparr>], of_nat n))"
proof -
  have "vfat_number n n AND 0x1f = of_nat n" "vfat_number n n AND 0x40 \<noteq> 0"
    using assms(2,3) by (simp_all add: vfat_number_def vfat_number_bits)
  with assms show ?thesis
    by (simp add: fat_directory_step_def classify_vfat_record vfat_part_units read_vfat_record)
qed

lemma vfat_step_next:
  assumes "\<forall>u \<in> set name. vfat_unit u" "1 \<le> k" "k < n" "n \<le> 20" "m = 0 \<or> m = of_nat (Suc k)"
  shows "fat_directory_step format (vfat_record (vfat_number n k) ck (vfat_part name k)) off (entries, ls, m) =
    Ok (Some (entries, ls @ [\<lparr>fln_sequence_number = vfat_number n k, fln_name = vfat_part name k\<rparr>], of_nat k))"
proof -
  have "vfat_number n k AND 0x1f = of_nat k" "vfat_number n k AND 0x40 = 0"
    using assms(2-4) by (simp_all add: vfat_number_def vfat_number_bits)
  with assms show ?thesis
    by (auto simp: fat_directory_step_def classify_vfat_record vfat_part_units read_vfat_record Let_def)
qed

definition vfat_entry :: "nat list \<Rightarrow> nat \<Rightarrow> FatLongNameDirectoryEntry" where
  "vfat_entry name k = \<lparr>fln_sequence_number = vfat_number (vfat_parts name) k, fln_name = vfat_part name k\<rparr>"

lemma vfat_run:
  assumes "\<forall>u \<in> set name. vfat_unit u" "j < n" "n \<le> 20" "n = vfat_parts name" "off + 32 * j < u64_limit"
  shows "fat_directory_loop format
      (concat (map (\<lambda>k. vfat_record (vfat_number n k) ck (vfat_part name k)) (rev [1..<Suc j])) @ rest) off
      (entries, ls, of_nat (Suc j))
    = fat_directory_loop format rest (off + 32 * j) (entries, ls @ map (vfat_entry name) (rev [1..<Suc j]), 1)"
  using assms(2,5)
proof (induction j arbitrary: off ls)
  case (Suc j)
  let ?r = "\<lambda>k. vfat_record (vfat_number n k) ck (vfat_part name k)"
  have upt: "rev [1..<Suc (Suc j)] = Suc j # rev [1..<Suc j]" by simp
  have "length (?r (Suc j)) = 32" using vfat_part_units [OF assms(1)] by (intro vfat_record_fields)
  moreover have "off + 32 < u64_limit" using Suc.prems by simp
  ultimately have "fat_directory_loop format (concat (map ?r (rev [1..<Suc (Suc j)])) @ rest) off (entries, ls, of_nat (Suc (Suc j)))
      = fat_directory_loop format (concat (map ?r (rev [1..<Suc j])) @ rest) (off + 32)
          (entries, ls @ [vfat_entry name (Suc j)], of_nat (Suc j))"
    using vfat_step_next [OF assms(1), of "Suc j" n "of_nat (Suc (Suc j))"] Suc.prems assms(3,4)
    unfolding upt by (simp add: fat_directory_loop_record vfat_entry_def del: upt_Suc)
  also have "\<dots> = fat_directory_loop format rest (off + 32 + 32 * j)
      (entries, (ls @ [vfat_entry name (Suc j)]) @ map (vfat_entry name) (rev [1..<Suc j]), 1)"
    using Suc.prems by (intro Suc.IH) simp_all
  finally show ?case unfolding upt by (simp add: ac_simps del: upt_Suc)
qed simp

lemma vfat_parts_concat: "concat (map (vfat_part name) [1..<Suc (vfat_parts name)]) = name"
proof -
  have "concat (map (vfat_part name) [1..<Suc n]) = take (13 * n) name" for n
  proof (induction n)
    case (Suc n)
    have "take (13 * Suc n) name = take (13 * n) name @ take 13 (drop (13 * n) name)"
      by (simp only: take_add [symmetric] mult_Suc_right add.commute)
    moreover have "[1..<Suc (Suc n)] = [1..<Suc n] @ [Suc n]" by simp
    ultimately show ?case using Suc by (simp add: vfat_part_def del: upt_Suc)
  qed simp
  moreover have "length name \<le> 13 * vfat_parts name"
    using div_ceil_bounds(1) [of 13 "length name"] by (simp add: vfat_parts_def mult.commute)
  ultimately show ?thesis by simp
qed

lemma vfat_parts_bounds: "length name \<le> 255 \<Longrightarrow> vfat_parts name \<le> 20" "name \<noteq> [] \<longleftrightarrow> 1 \<le> vfat_parts name"
proof -
  show "vfat_parts name \<le> 20" if "length name \<le> 255"
    using div_le_mono [OF that, of 13] that by (cases "length name div 13 = 19") (auto simp: vfat_parts_def div_ceil_def)
  show "name \<noteq> [] \<longleftrightarrow> 1 \<le> vfat_parts name"
    by (cases name) (auto simp: vfat_parts_def div_ceil_def Suc_le_eq intro!: div_greater_zero_iff [THEN iffD2])
qed

text \<open>All the records of a name, whatever was collected before.\<close>

lemma vfat_records_run:
  assumes "\<forall>u \<in> set name. vfat_unit u" "name \<noteq> []" "length name \<le> 255" "off + 32 * vfat_parts name < u64_limit"
  shows "fat_directory_loop format (concat (vfat_records ck name) @ rest) off (entries, ls, m) =
    fat_directory_loop format rest (off + 32 * vfat_parts name)
      (entries, map (vfat_entry name) (rev [1..<Suc (vfat_parts name)]), 1)"
proof -
  let ?r = "\<lambda>k. vfat_record (vfat_number (vfat_parts name) k) ck (vfat_part name k)"
  obtain j where j: "vfat_parts name = Suc j" "j < 20"
    using vfat_parts_bounds [of name] assms(2,3) by (cases "vfat_parts name") auto
  have recs: "vfat_records ck name = ?r (Suc j) # map ?r (rev [1..<Suc j])"
    by (simp add: vfat_records_def j(1))
  have "length (?r (Suc j)) = 32" using vfat_part_units [OF assms(1)] by (intro vfat_record_fields)
  then have "fat_directory_loop format (concat (vfat_records ck name) @ rest) off (entries, ls, m) =
      fat_directory_loop format (concat (map ?r (rev [1..<Suc j])) @ rest) (off + 32)
        (entries, [vfat_entry name (Suc j)], of_nat (Suc j))"
    using vfat_step_first [OF assms(1), of "Suc j"] j assms(4)
    unfolding recs by (simp add: fat_directory_loop_record vfat_entry_def del: upt_Suc)
  also have "\<dots> = fat_directory_loop format rest (off + 32 + 32 * j)
      (entries, [vfat_entry name (Suc j)] @ map (vfat_entry name) (rev [1..<Suc j]), 1)"
    using j assms(4) by (intro vfat_run [OF assms(1)]) simp_all
  finally show ?thesis using j by (simp add: ac_simps)
qed

lemma build_vfat_name:
  assumes "from_utf16 name = Some s"
  shows "build_long_name (map (vfat_entry name) (rev [1..<Suc (vfat_parts name)])) = Ok s"
proof -
  have "concat (map fln_name (rev (map (vfat_entry name) (rev [1..<Suc (vfat_parts name)])))) = name"
    using vfat_parts_concat [of name] by (simp add: rev_map [symmetric] vfat_entry_def o_def del: upt_Suc)
  with assms show ?thesis by (simp only: build_long_name_def ok_or_simps)
qed

subsection \<open>A directory\<close>

text \<open>
  An entry as it is written: the UTF-16 units of its long name, none for an entry without one, and
  its record with the short name.
\<close>

type_synonym written_entry = "nat list \<times> byte list"

definition fat_written :: "byte \<Rightarrow> written_entry \<Rightarrow> byte list" where
  "fat_written checksum w = concat (vfat_records checksum (fst w)) @ snd w"

definition fat_writable :: "FatFormat \<Rightarrow> written_entry \<Rightarrow> bool" where
  "fat_writable format w \<longleftrightarrow>
     length (fst w) \<le> 255 \<and> (\<forall>u \<in> set (fst w). vfat_unit u) \<and> from_utf16 (fst w) \<noteq> None
     \<and> length (snd w) = 32 \<and> classify_directory_entry (snd w) = ShortName
     \<and> (case read_short_name_directory_entry (snd w) format of
          Inl e \<Rightarrow> False
        | Inr short_name \<Rightarrow> fsn_file_attribute_flags short_name AND 0x58 \<noteq> 0x08
            \<and> fsn_name short_name \<noteq> lit ''.'' \<and> fsn_name short_name \<noteq> lit ''..'')"

text \<open>What such an entry is in the table, when its record is at the offset.\<close>

definition fat_listed :: "FatFormat \<Rightarrow> nat \<Rightarrow> written_entry \<Rightarrow> FatDirectoryEntry" where
  "fat_listed format off w =
     (case read_short_name_directory_entry (snd w) format of
        Inr short_name \<Rightarrow>
          \<lparr>fde_identifier = off mod u32_limit, fde_short_name = fsn_name short_name,
           fde_file_attribute_flags = fsn_file_attribute_flags short_name,
           fde_data_start_cluster = fsn_data_start_cluster short_name,
           fde_data_size = fsn_data_size short_name,
           fde_long_name = (if fst w = [] then None else from_utf16 (fst w))\<rparr>)"

fun fat_listing :: "FatFormat \<Rightarrow> byte \<Rightarrow> nat \<Rightarrow> written_entry list \<Rightarrow> (str \<times> FatDirectoryEntry) list" where
  "fat_listing format checksum off [] = []"
| "fat_listing format checksum off (w # ws) =
     (let e = fat_listed format (off + 32 * vfat_parts (fst w)) w
      in (normalize_lookup_name (fat_entry_name e), e)
         # fat_listing format checksum (off + length (fat_written checksum w)) ws)"

lemma length_vfat_records:
  assumes "\<forall>u \<in> set name. vfat_unit u"
  shows "length (concat (vfat_records ck name)) = 32 * vfat_parts name"
proof -
  have "map length (vfat_records ck name) = replicate (vfat_parts name) 32"
    using vfat_record_fields(1) [OF vfat_part_units(1) [OF assms]]
    by (intro nth_equalityI) (simp_all add: vfat_records_def del: upt_Suc)
  then show ?thesis by (simp add: length_concat sum_list_replicate)
qed

lemma fat_add_writable:
  assumes "fat_writable format w"
    and "ls = map (vfat_entry (fst w)) (rev [1..<Suc (vfat_parts (fst w))])"
  shows "and_then (read_short_name_directory_entry (snd w) format) (\<lambda>short_name.
      fat_add_short_entry entries short_name off ls)
    = Ok (entries\<lparr>fds_entries := (fds_entries entries)
        (normalize_lookup_name (fat_entry_name (fat_listed format off w)) \<mapsto> fat_listed format off w)\<rparr>, [])"
proof -
  obtain short s where short: "read_short_name_directory_entry (snd w) format = Ok short"
      "fsn_file_attribute_flags short AND 0x58 \<noteq> 0x08" "fsn_name short \<noteq> lit ''.''" "fsn_name short \<noteq> lit ''..''"
    and s: "from_utf16 (fst w) = Some s"
    using assms(1) by (auto simp: fat_writable_def split: sum.splits)
  have "ls = [] \<longleftrightarrow> fst w = []" using vfat_parts_bounds(2) [of "fst w"] by (auto simp: assms(2))
  then have "(if ls = [] then Ok None else and_then (build_long_name ls) (\<lambda>s. Ok (Some s)))
      = Ok (if fst w = [] then None else from_utf16 (fst w))"
    using build_vfat_name [OF s] by (simp add: assms(2) s del: upt_Suc)
  with short show ?thesis by (simp add: fat_add_short_entry_def fat_listed_def Let_def)
qed

lemma fat_written_run:
  assumes w: "fat_writable format w" and off: "off + length (fat_written ck w) < u64_limit"
  shows "fat_directory_loop format (fat_written ck w @ rest) off (entries, [], 0) =
    fat_directory_loop format rest (off + length (fat_written ck w))
      (entries\<lparr>fds_entries := (fds_entries entries)
         (normalize_lookup_name (fat_entry_name (fat_listed format (off + 32 * vfat_parts (fst w)) w))
            \<mapsto> fat_listed format (off + 32 * vfat_parts (fst w)) w)\<rparr>, [], 0)"
proof -
  let ?ls = "map (vfat_entry (fst w)) (rev [1..<Suc (vfat_parts (fst w))])"
  let ?off = "off + 32 * vfat_parts (fst w)"
  have name: "\<forall>u \<in> set (fst w). vfat_unit u" "length (fst w) \<le> 255"
    and short: "length (snd w) = 32" "classify_directory_entry (snd w) = ShortName"
    using w by (simp_all add: fat_writable_def)
  have len: "length (fat_written ck w) = 32 * vfat_parts (fst w) + 32"
    using length_vfat_records [OF name(1)] short(1) by (simp add: fat_written_def)
  have "\<exists>m. fat_directory_loop format (fat_written ck w @ rest) off (entries, [], 0)
      = fat_directory_loop format (snd w @ rest) ?off (entries, ?ls, m)"
  proof (cases "fst w = []")
    case True
    then have "vfat_parts (fst w) = 0" by (simp add: vfat_parts_def div_ceil_def)
    with True show ?thesis by (auto simp: fat_written_def vfat_records_def)
  next
    case False
    with vfat_records_run [OF name(1) False name(2), of off] off len show ?thesis
      by (auto simp: fat_written_def)
  qed
  then obtain m where "fat_directory_loop format (fat_written ck w @ rest) off (entries, [], 0)
      = fat_directory_loop format (snd w @ rest) ?off (entries, ?ls, m)" by blast
  moreover have "fat_directory_step format (snd w) ?off (entries, ?ls, m) =
      Ok (Some (entries\<lparr>fds_entries := (fds_entries entries)
         (normalize_lookup_name (fat_entry_name (fat_listed format ?off w)) \<mapsto> fat_listed format ?off w)\<rparr>, [], 0))"
    using fat_add_writable [OF w refl, of entries ?off] w
    by (auto simp: fat_directory_step_def short(2) fat_writable_def split: sum.splits)
  ultimately show ?thesis
    using off len by (simp add: fat_directory_loop_record short(1) ac_simps)
qed

lemma map_add_map_of_snoc: "m ++ map_of (xs @ [(k, v)]) = m(k \<mapsto> v) ++ map_of xs"
  by (rule ext) (simp add: map_add_def split: option.splits)

lemma fat_directory_run:
  assumes "\<forall>w \<in> set ws. fat_writable format w" "off + length (concat (map (fat_written ck) ws)) < u64_limit"
  shows "fat_directory_loop format (concat (map (fat_written ck) ws) @ rest) off (entries, [], 0) =
    fat_directory_loop format rest (off + length (concat (map (fat_written ck) ws)))
      (entries\<lparr>fds_entries := fds_entries entries ++ map_of (rev (fat_listing format ck off ws))\<rparr>, [], 0)"
  using assms
proof (induction ws arbitrary: off entries)
  case (Cons w ws)
  have w: "fat_writable format w" "off + length (fat_written ck w) < u64_limit" using Cons.prems by simp_all
  have ws: "\<forall>w \<in> set ws. fat_writable format w"
    "off + length (fat_written ck w) + length (concat (map (fat_written ck) ws)) < u64_limit"
    using Cons.prems by simp_all
  show ?case
    using fat_written_run [OF w] Cons.IH [OF ws]
    by (simp add: Let_def map_add_map_of_snoc add.assoc fun_upd_def del: map_of_append)
qed simp

lemma fat_read_written:
  assumes "\<forall>w \<in> set ws. fat_writable format w" "off + length (concat (map (fat_written ck) ws)) + 32 < u64_limit"
  shows "read_directory_entries_from_data fat_directory_entries_default
      (concat (map (fat_written ck) ws) @ replicate 32 0 @ rest) off format =
    Ok \<lparr>fds_entries = map_of (rev (fat_listing format ck off ws)), fds_volume_label = None\<rparr>"
proof -
  have "fat_directory_step format (replicate 32 0) off' st = Ok None" for off' st
    by (cases st) (simp add: fat_directory_step_def classify_directory_entry_def subslice_def)
  with assms show ?thesis
    by (simp add: read_directory_entries_from_data_def fat_directory_run fat_directory_loop_record
        fat_directory_entries_default_def)
qed

section \<open>Properties\<close>


definition fat_sample_short :: "byte list" where
  "fat_sample_short = lit ''README~1TXT'' @ [0x20, 0] @ replicate 13 0 @ [5, 0, 7, 0, 0, 0]"

definition fat_sample_name :: "nat list" where
  "fat_sample_name = map unat (lit ''Readme first.txt'')"

lemma fat_sample_entry:
  "length fat_sample_short = 32" "classify_directory_entry fat_sample_short = ShortName"
  "read_short_name_directory_entry fat_sample_short Fat16 =
     Ok \<lparr>fsn_name = lit ''README~1.TXT'', fsn_file_attribute_flags = 0x20, fsn_data_start_cluster = 5, fsn_data_size = 7\<rparr>"
  "normalize_lookup_name (lit ''Readme first.txt'') = lit ''readme first.txt''"
  by code_simp+

lemma fat_sample_units:
  "fat_sample_name = [82, 101, 97, 100, 109, 101, 32, 102, 105, 114, 115, 116, 46, 116, 120, 116]"
  by (simp add: fat_sample_name_def lit_def)

lemma fat_sample_long_name: "from_utf16 fat_sample_name = Some (lit ''Readme first.txt'')" "vfat_parts fat_sample_name = 2"
  by (simp_all add: fat_sample_units from_utf16_def utf8_encode_def lit_def vfat_parts_def div_ceil_def)

lemma fat_sample_writable: "fat_writable Fat16 (fat_sample_name, fat_sample_short)"
proof -
  have "length fat_sample_name = 16" "\<forall>u \<in> set fat_sample_name. vfat_unit u"
    by (simp_all add: fat_sample_units vfat_unit_def)
  moreover have "lit ''README~1.TXT'' \<noteq> lit ''.''" "lit ''README~1.TXT'' \<noteq> lit ''..''" by (simp_all add: lit_def)
  ultimately show ?thesis by (simp add: fat_writable_def fat_sample_entry fat_sample_long_name)
qed


text \<open>
  A long name whose records are split between two clusters of a directory is not read as it was
  written: the records are collected anew for every cluster, so that the part of the name in the
  first cluster is lost and the file is listed under the rest of its name.
\<close>

theorem fat_split_long_name_truncated:
  "let records = fat_written 0x5a (fat_sample_name, fat_sample_short)
   in and_then (read_directory_entries_from_data fat_directory_entries_default (take 32 records) 0 Fat16) (\<lambda>entries.
        read_directory_entries_from_data entries (drop 32 records @ replicate 32 0) 512 Fat16) =
      Ok \<lparr>fds_entries = [lit ''readme first.'' \<mapsto>
            \<lparr>fde_identifier = 544, fde_short_name = lit ''README~1.TXT'', fde_file_attribute_flags = 0x20,
             fde_data_start_cluster = 5, fde_data_size = 7, fde_long_name = Some (lit ''Readme first.'')\<rparr>],
          fds_volume_label = None\<rparr>"
proof -
  let ?r = "\<lambda>k. vfat_record (vfat_number 2 k) 0x5a (vfat_part fat_sample_name k)"
  have units: "\<forall>u \<in> set fat_sample_name. vfat_unit u" by (simp add: fat_sample_units vfat_unit_def)
  have len: "length (?r k) = 32" for k using vfat_part_units [OF units] by (intro vfat_record_fields)
  have records: "fat_written 0x5a (fat_sample_name, fat_sample_short) = ?r 2 @ ?r 1 @ fat_sample_short"
    by (simp add: fat_written_def vfat_records_def fat_sample_long_name numeral_2_eq_2)
  have zero: "fat_directory_step Fat16 (replicate 32 0) off st = Ok None" for off st
    by (cases st) (simp add: fat_directory_step_def classify_directory_entry_def subslice_def)
  have part: "vfat_part fat_sample_name (Suc 0) = [82, 101, 97, 100, 109, 101, 32, 102, 105, 114, 115, 116, 46]"
    by (simp add: vfat_part_def fat_sample_units)
  then have name: "build_long_name [\<lparr>fln_sequence_number = s, fln_name = vfat_part fat_sample_name (Suc 0)\<rparr>] = Ok (lit ''Readme first.'')" for s
    by (simp add: build_long_name_def from_utf16_def utf8_encode_def lit_def)
  have lower: "normalize_lookup_name (lit ''Readme first.'') = lit ''readme first.''"
    and flags: "(0x20 :: byte) AND 0x58 = 0" by code_simp+
  have short: "lit ''README~1.TXT'' \<noteq> lit ''.''" "lit ''README~1.TXT'' \<noteq> lit ''..''" by (simp_all add: lit_def)
  have "read_directory_entries_from_data fat_directory_entries_default (?r 2) 0 Fat16 = Ok fat_directory_entries_default"
    using fat_directory_loop_record [OF len, of 0 Fat16 2 "[]"] vfat_step_first [OF units, of 2]
    by (simp add: read_directory_entries_from_data_def u64_limit_def fat_directory_loop_end)
  moreover have "read_directory_entries_from_data fat_directory_entries_default (?r 1 @ fat_sample_short @ replicate 32 0) 512 Fat16 =
      Ok \<lparr>fds_entries = [lit ''readme first.'' \<mapsto>
            \<lparr>fde_identifier = 544, fde_short_name = lit ''README~1.TXT'', fde_file_attribute_flags = 0x20,
             fde_data_start_cluster = 5, fde_data_size = 7, fde_long_name = Some (lit ''Readme first.'')\<rparr>],
          fds_volume_label = None\<rparr>"
    using vfat_step_next [OF units, of 1 2 0] fat_directory_loop_record [of "replicate 32 0" 576 Fat16 "[]"] zero
    by (simp add: read_directory_entries_from_data_def fat_directory_loop_record len u64_limit_def u32_limit_def fat_sample_entry
        fat_directory_step_def [of _ fat_sample_short] fat_add_short_entry_def name short flags fat_entry_name_def lower
        fat_directory_entries_default_def Let_def)
  ultimately show ?thesis by (simp add: records len)
qed

end
