(* ===== verification/Fat.thy ===== *)
theory Fat
  imports Extent_Map Fat_Names
begin

text \<open>
  The FAT file system (\<open>filesystem/fat/mod.rs\<close>): the boot record, the block allocation table with
  its entries of 12, 16 or 32 bits, chains of clusters, directories, the lookup of a path and the
  source of a file.
\<close>

section \<open>Boot record\<close>

record FatBootRecord =
  fbr_bytes_per_sector :: nat
  fbr_sectors_per_cluster_block :: nat
  fbr_number_of_reserved_sectors :: nat
  fbr_number_of_allocation_tables :: nat
  fbr_number_of_root_directory_entries :: nat
  fbr_allocation_table_size :: nat
  fbr_number_of_sectors :: nat
  fbr_root_directory_cluster_block_number :: nat
  fbr_volume_serial_number :: nat
  fbr_volume_label :: "str option"

definition fat_label :: "byte list \<Rightarrow> nat \<Rightarrow> nat \<Rightarrow> str option" where
  "fat_label data signature_offset label_offset =
     (if data ! signature_offset = 0x29 then
        let label = trim_ascii_end_spaces (subslice label_offset 11 data)
        in if label = [] then None else Some label
      else None)"

definition read_fat12_boot_record :: "byte list \<Rightarrow> FatBootRecord result" where
  "read_fat12_boot_record data =
     (if length data < 512 then Err (Fat_error Fat_boot_record_size)
      else if subslice 510 2 data \<noteq> [0x55, 0xaa] then Err (Fat_error Fat_boot_signature)
      else if u16_le 11 data \<notin> {512, 1024, 2048, 4096} then Err (Fat_error Fat_bytes_per_sector)
      else if data ! 13 \<notin> {1, 2, 4, 8, 16, 32, 64, 128} then Err (Fat_error Fat_sectors_per_cluster_block)
      else
        Ok \<lparr>fbr_bytes_per_sector = u16_le 11 data,
            fbr_sectors_per_cluster_block = unat (data ! 13),
            fbr_number_of_reserved_sectors = u16_le 14 data,
            fbr_number_of_allocation_tables = unat (data ! 16),
            fbr_number_of_root_directory_entries = u16_le 17 data,
            fbr_allocation_table_size = u16_le 22 data,
            fbr_number_of_sectors = (if u32_le 32 data \<noteq> 0 then u32_le 32 data else u16_le 19 data),
            fbr_root_directory_cluster_block_number = 0,
            fbr_volume_serial_number = (if data ! 38 = 0x29 then u32_le 39 data else 0),
            fbr_volume_label = fat_label data 38 43\<rparr>)"

definition read_fat32_boot_record :: "byte list \<Rightarrow> FatBootRecord result" where
  "read_fat32_boot_record data =
     (if length data < 512 then Err (Fat_error Fat_boot_record_size)
      else if subslice 510 2 data \<noteq> [0x55, 0xaa] then Err (Fat_error Fat_boot_signature)
      else if u16_le 11 data \<notin> {512, 1024, 2048, 4096} then Err (Fat_error Fat_bytes_per_sector)
      else if data ! 13 \<notin> {1, 2, 4, 8, 16, 32, 64, 128} then Err (Fat_error Fat_sectors_per_cluster_block)
      else if u16_le 17 data \<noteq> 0 then Err (Fat_error Fat32_root_directory_entries)
      else if u16_le 19 data \<noteq> 0 then Err (Fat_error Fat32_number_of_sectors)
      else if u16_le 22 data \<noteq> 0 then Err (Fat_error Fat32_allocation_table_size)
      else if u32_le 44 data < 2 then Err (Fat_error Fat32_root_directory_cluster)
      else
        Ok \<lparr>fbr_bytes_per_sector = u16_le 11 data,
            fbr_sectors_per_cluster_block = unat (data ! 13),
            fbr_number_of_reserved_sectors = u16_le 14 data,
            fbr_number_of_allocation_tables = unat (data ! 16),
            fbr_number_of_root_directory_entries = 0,
            fbr_allocation_table_size = u32_le 36 data,
            fbr_number_of_sectors = u32_le 32 data,
            fbr_root_directory_cluster_block_number = u32_le 44 data,
            fbr_volume_serial_number = (if data ! 66 = 0x29 then u32_le 67 data else 0),
            fbr_volume_label = fat_label data 66 71\<rparr>)"

definition fat_boot_record_read_at :: "data_source \<Rightarrow> FatBootRecord result" where
  "fat_boot_record_read_at source =
     and_then (read_exact_at source 0 512) (\<lambda>data.
       if subslice 17 4 data = replicate 4 0 \<and> subslice 22 2 data = replicate 2 0
       then read_fat32_boot_record data else read_fat12_boot_record data)"

definition determine_number_of_clusters :: "FatBootRecord \<Rightarrow> nat" where
  "determine_number_of_clusters boot_record =
     saturating_sub
       (saturating_sub (fbr_number_of_sectors boot_record) (fbr_number_of_reserved_sectors boot_record))
       (fbr_number_of_allocation_tables boot_record * fbr_allocation_table_size boot_record)
     div fbr_sectors_per_cluster_block boot_record"

section \<open>Block allocation table\<close>

record FatBlockAllocationTable =
  fat_format :: FatFormat
  fat_offset :: nat
  fat_number_of_entries :: nat
  fat_first_cluster_offset :: nat
  fat_cluster_block_size :: nat

definition largest_cluster_block_number :: "FatBlockAllocationTable \<Rightarrow> nat" where
  "largest_cluster_block_number table =
     (case fat_format table of Fat12 \<Rightarrow> 0xff0 | Fat16 \<Rightarrow> 0xfff0 | Fat32 \<Rightarrow> 0xffffff0)"

definition fat_entry_position :: "FatFormat \<Rightarrow> nat \<Rightarrow> nat \<times> nat" where
  "fat_entry_position format entry_index =
     (case format of
        Fat12 \<Rightarrow> (entry_index div 2 * 3, 3) | Fat16 \<Rightarrow> (entry_index * 2, 2) | Fat32 \<Rightarrow> (entry_index * 4, 4))"

definition fat_entry_value :: "FatFormat \<Rightarrow> nat \<Rightarrow> byte list \<Rightarrow> nat" where
  "fat_entry_value format entry_index data =
     (case format of
        Fat12 \<Rightarrow> if even entry_index then u16_le 0 data AND 0x0fff else drop_bit 4 (u16_le 1 data)
      | Fat16 \<Rightarrow> u16_le 0 data
      | Fat32 \<Rightarrow> u32_le 0 data)"

definition fat_read_entry :: "FatBlockAllocationTable \<Rightarrow> data_source \<Rightarrow> nat \<Rightarrow> nat result" where
  "fat_read_entry table source entry_index =
     (if fat_number_of_entries table \<le> entry_index then Err (Fat_error Fat_entry_index)
      else
        let (entry_offset, entry_size) = fat_entry_position (fat_format table) entry_index
        in and_then (add_u64 (fat_offset table) entry_offset) (\<lambda>offset.
           and_then (read_exact_at source offset entry_size) (\<lambda>data.
             Ok (fat_entry_value (fat_format table) entry_index data))))"

text \<open>The offset of a cluster, computed without checks wherever a cluster is read.\<close>

definition fat_cluster_offset :: "nat \<Rightarrow> nat \<Rightarrow> nat \<Rightarrow> nat result" where
  "fat_cluster_offset first_cluster_offset cluster_block_size cluster_block_number =
     and_then (sub_u64 cluster_block_number 2) (\<lambda>index.
     and_then (mul_u64 index cluster_block_size) (\<lambda>relative_offset.
       add_u64 first_cluster_offset relative_offset))"

section \<open>Chains of clusters\<close>

definition fat_in_chain :: "FatBlockAllocationTable \<Rightarrow> nat \<Rightarrow> bool" where
  "fat_in_chain table c \<longleftrightarrow> 2 \<le> c \<and> c < largest_cluster_block_number table"

lemma fat_visited_decreases:
  assumes "fat_in_chain table c" "c \<notin> set visited"
  shows "card ({2..<largest_cluster_block_number table} - set (c # visited))
    < card ({2..<largest_cluster_block_number table} - set visited)"
proof -
  let ?A = "{2..<largest_cluster_block_number table} - set visited"
  have "c \<in> ?A" using assms by (simp add: fat_in_chain_def)
  then have "card (?A - {c}) < card ?A" by (intro card_Diff1_less) simp_all
  moreover have "{2..<largest_cluster_block_number table} - set (c # visited) = ?A - {c}" by auto
  ultimately show ?thesis by simp
qed

function fat_chain_loop :: "FatBlockAllocationTable \<Rightarrow> data_source \<Rightarrow> nat list \<Rightarrow> nat list \<Rightarrow> nat \<Rightarrow> nat list result" where
  "fat_chain_loop table source visited cluster_chain cluster_block_number =
     (if fat_in_chain table cluster_block_number then
        if cluster_block_number \<in> set visited then Err (Fat_error Fat_cluster_already_read)
        else
          and_then (fat_read_entry table source cluster_block_number) (\<lambda>next_cluster_block_number.
            fat_chain_loop table source (cluster_block_number # visited)
              (cluster_chain @ [cluster_block_number]) next_cluster_block_number)
      else Ok cluster_chain)"
  by pat_completeness auto
termination
  by (relation "measure (\<lambda>(table, _, visited, _). card ({2..<largest_cluster_block_number table} - set visited))")
    (simp_all add: fat_visited_decreases del: set_simps)

declare fat_chain_loop.simps [simp del]

definition fat_read_cluster_chain :: "FatBlockAllocationTable \<Rightarrow> data_source \<Rightarrow> nat \<Rightarrow> nat list result" where
  "fat_read_cluster_chain table source cluster_block_number = fat_chain_loop table source [] [] cluster_block_number"

section \<open>Directories\<close>

definition read_directory_entries_at_offset :: "data_source \<Rightarrow> nat \<Rightarrow> nat \<Rightarrow> FatFormat \<Rightarrow> FatDirectoryEntries result" where
  "read_directory_entries_at_offset source offset dir_size format =
     (if \<not> (32 \<le> dir_size \<and> dir_size \<le> 2097152) then Err (Fat_error Fat_directory_size)
      else
        and_then (read_exact_at source offset dir_size) (\<lambda>data.
          read_directory_entries_from_data fat_directory_entries_default data offset format))"

function fat_directory_clusters :: "data_source \<Rightarrow> FatBlockAllocationTable \<Rightarrow> nat list \<Rightarrow> FatDirectoryEntries \<Rightarrow> nat
    \<Rightarrow> FatDirectoryEntries result" where
  "fat_directory_clusters source table visited entries cluster_block_number =
     (if fat_in_chain table cluster_block_number then
        if cluster_block_number \<in> set visited then Err (Fat_error Fat_cluster_already_read)
        else
          and_then (fat_cluster_offset (fat_first_cluster_offset table) (fat_cluster_block_size table)
                     cluster_block_number) (\<lambda>offset.
          and_then (read_exact_at source offset (fat_cluster_block_size table)) (\<lambda>data.
          and_then (read_directory_entries_from_data entries data offset (fat_format table)) (\<lambda>entries.
          and_then (fat_read_entry table source cluster_block_number) (\<lambda>next_cluster_block_number.
            fat_directory_clusters source table (cluster_block_number # visited) entries
              next_cluster_block_number))))
      else Ok entries)"
  by pat_completeness auto
termination
  by (relation "measure (\<lambda>(_, table, visited, _). card ({2..<largest_cluster_block_number table} - set visited))")
    (simp_all add: fat_visited_decreases del: set_simps)

declare fat_directory_clusters.simps [simp del]

definition read_directory_entries_at_cluster :: "data_source \<Rightarrow> FatBlockAllocationTable \<Rightarrow> nat \<Rightarrow> FatDirectoryEntries result" where
  "read_directory_entries_at_cluster source table cluster_block_number =
     fat_directory_clusters source table [] fat_directory_entries_default cluster_block_number"

definition read_root_directory :: "data_source \<Rightarrow> FatBlockAllocationTable \<Rightarrow> nat \<Rightarrow> nat \<Rightarrow> nat \<Rightarrow> FatDirectoryEntries result" where
  "read_root_directory source table root_directory_offset root_directory_size root_directory_cluster_block_number =
     (if 0 < root_directory_size
      then read_directory_entries_at_offset source root_directory_offset root_directory_size (fat_format table)
      else read_directory_entries_at_cluster source table root_directory_cluster_block_number)"

section \<open>The file system\<close>

record FatRuntime =
  frt_source :: data_source
  frt_bytes_per_sector :: nat
  frt_cluster_block_size :: nat
  frt_first_cluster_offset :: nat
  frt_root_directory_offset :: nat
  frt_root_directory_size :: nat
  frt_root_directory_cluster_block_number :: nat
  frt_format :: FatFormat
  frt_block_allocation_table :: FatBlockAllocationTable
  frt_volume_serial_number :: nat
  frt_volume_label :: "str option"
  frt_root_directory_volume_label :: "str option"

record FatFileEntry =
  ffe_runtime :: FatRuntime
  ffe_identifier :: nat
  ffe_directory_entry :: "FatDirectoryEntry option"

definition fat_determine_format :: "FatBootRecord \<Rightarrow> nat \<Rightarrow> FatFormat" where
  "fat_determine_format boot_record number_of_clusters =
     (if fbr_root_directory_cluster_block_number boot_record \<noteq> 0 \<or> 65525 \<le> number_of_clusters then Fat32
      else if 4085 \<le> number_of_clusters then Fat16 else Fat12)"

definition fat_open_with :: "data_source \<Rightarrow> FatBootRecord \<Rightarrow> FatRuntime result" where
  "fat_open_with source boot_record =
     (let number_of_clusters = determine_number_of_clusters boot_record;
         format = fat_determine_format boot_record number_of_clusters;
         root_cluster = fbr_root_directory_cluster_block_number boot_record
     in and_then (ok_or (Fat_error Fat_allocation_table_offset_overflow)
          (checked_mul (fbr_number_of_reserved_sectors boot_record) (fbr_bytes_per_sector boot_record)))
          (\<lambda>allocation_table_offset.
        and_then (ok_or (Fat_error Fat_allocation_table_size_overflow)
          (checked_mul (fbr_allocation_table_size boot_record) (fbr_bytes_per_sector boot_record)))
          (\<lambda>allocation_table_size.
        and_then (mul_u64 (fbr_number_of_allocation_tables boot_record) allocation_table_size) (\<lambda>tables_size.
        and_then (add_u64 allocation_table_offset tables_size) (\<lambda>tables_end.
        and_then (ok_or (Fat_error Fat_cluster_block_size_overflow)
          (checked_mul_u32 (fbr_bytes_per_sector boot_record) (fbr_sectors_per_cluster_block boot_record)))
          (\<lambda>cluster_block_size.
        and_then
          (if root_cluster = 0 then
             and_then (ok_or (Fat_error Fat_root_directory_size_overflow)
               (checked_mul_u32 (fbr_number_of_root_directory_entries boot_record) 32)) (\<lambda>root_directory_size.
             and_then (add_u64 tables_end root_directory_size) (\<lambda>first_cluster_offset.
               Ok (tables_end, root_directory_size, first_cluster_offset)))
           else Ok (0, 0, tables_end))
          (\<lambda>(root_directory_offset, root_directory_size, first_cluster_offset).
        let table =
              \<lparr>fat_format = format, fat_offset = allocation_table_offset,
               fat_number_of_entries = number_of_clusters,
               fat_first_cluster_offset = first_cluster_offset,
               fat_cluster_block_size = cluster_block_size\<rparr>
        in and_then (read_root_directory source table root_directory_offset root_directory_size root_cluster)
             (\<lambda>root_directory_entries.
           Ok \<lparr>frt_source = source,
               frt_bytes_per_sector = fbr_bytes_per_sector boot_record,
               frt_cluster_block_size = cluster_block_size,
               frt_first_cluster_offset = first_cluster_offset,
               frt_root_directory_offset = root_directory_offset,
               frt_root_directory_size = root_directory_size,
               frt_root_directory_cluster_block_number = root_cluster,
               frt_format = format,
               frt_block_allocation_table = table,
               frt_volume_serial_number = fbr_volume_serial_number boot_record,
               frt_volume_label = fbr_volume_label boot_record,
               frt_root_directory_volume_label = fds_volume_label root_directory_entries\<rparr>))))))))"

definition fat_open :: "data_source \<Rightarrow> FatRuntime result" where
  "fat_open source = and_then (fat_boot_record_read_at source) (fat_open_with source)"

definition fat_volume_label :: "FatRuntime \<Rightarrow> str option" where
  "fat_volume_label fs =
     (case frt_root_directory_volume_label fs of Some label \<Rightarrow> Some label | None \<Rightarrow> frt_volume_label fs)"

definition fat_root_identifier :: "FatRuntime \<Rightarrow> nat result" where
  "fat_root_identifier fs =
     (if 0 < frt_root_directory_size fs then Ok (frt_root_directory_offset fs mod u32_limit)
      else
        and_then (fat_cluster_offset (frt_first_cluster_offset fs) (frt_cluster_block_size fs)
                   (frt_root_directory_cluster_block_number fs)) (\<lambda>offset. Ok (offset mod u32_limit)))"

definition fat_root_directory :: "FatRuntime \<Rightarrow> FatFileEntry result" where
  "fat_root_directory fs =
     and_then (fat_root_identifier fs) (\<lambda>identifier.
       Ok \<lparr>ffe_runtime = fs, ffe_identifier = identifier, ffe_directory_entry = None\<rparr>)"

section \<open>File entries\<close>

definition fat_entry_size :: "FatFileEntry \<Rightarrow> nat" where
  "fat_entry_size e = (case ffe_directory_entry e of None \<Rightarrow> 0 | Some entry \<Rightarrow> fde_data_size entry)"

definition fat_is_directory :: "FatFileEntry \<Rightarrow> bool" where
  "fat_is_directory e =
     (case ffe_directory_entry e of
        Some directory_entry \<Rightarrow> fde_file_attribute_flags directory_entry AND 0x58 = 0x10
      | None \<Rightarrow> True)"

definition fat_is_root_directory :: "FatFileEntry \<Rightarrow> bool" where
  "fat_is_root_directory e \<longleftrightarrow> ffe_directory_entry e = None"

definition fat_read_sub_directory_entries :: "FatFileEntry \<Rightarrow> FatDirectoryEntries result" where
  "fat_read_sub_directory_entries e =
     (let fs = ffe_runtime e in
      if \<not> fat_is_directory e then Ok fat_directory_entries_default
      else if fat_is_root_directory e then
        read_root_directory (frt_source fs) (frt_block_allocation_table fs) (frt_root_directory_offset fs)
          (frt_root_directory_size fs) (frt_root_directory_cluster_block_number fs)
      else
        and_then (ok_or (Fat_error Fat_missing_directory_entry) (ffe_directory_entry e)) (\<lambda>directory_entry.
          read_directory_entries_at_cluster (frt_source fs) (frt_block_allocation_table fs)
            (fde_data_start_cluster directory_entry)))"

definition fat_number_of_sub_file_entries :: "FatFileEntry \<Rightarrow> nat result" where
  "fat_number_of_sub_file_entries e =
     and_then (fat_read_sub_directory_entries e) (\<lambda>entries. Ok (card (dom (fds_entries entries))))"

definition fat_sub_file_entry_by_name :: "FatFileEntry \<Rightarrow> str \<Rightarrow> FatFileEntry option result" where
  "fat_sub_file_entry_by_name e name =
     and_then (fat_read_sub_directory_entries e) (\<lambda>directory_entries.
       case fds_entries directory_entries (normalize_lookup_name name) of
         None \<Rightarrow> Ok None
       | Some directory_entry \<Rightarrow>
           Ok (Some \<lparr>ffe_runtime = ffe_runtime e, ffe_identifier = fde_identifier directory_entry,
                     ffe_directory_entry = Some directory_entry\<rparr>))"

text \<open>\<open>str::split\<close> at a byte that is an ASCII character.\<close>

fun str_split :: "byte \<Rightarrow> str \<Rightarrow> str list" where
  "str_split c [] = [[]]"
| "str_split c (b # bs) = (if b = c then [] # str_split c bs
     else (case str_split c bs of [] \<Rightarrow> [[b]] | p # ps \<Rightarrow> (b # p) # ps))"

fun fat_walk_path :: "FatFileEntry \<Rightarrow> str list \<Rightarrow> FatFileEntry option result" where
  "fat_walk_path file_entry [] = Ok (Some file_entry)"
| "fat_walk_path file_entry (path_component # path_components) =
     and_then (fat_sub_file_entry_by_name file_entry path_component) (\<lambda>found.
       case found of
         Some file_entry \<Rightarrow> fat_walk_path file_entry path_components
       | None \<Rightarrow> Ok None)"

definition fat_file_entry_by_path :: "FatRuntime \<Rightarrow> str \<Rightarrow> FatFileEntry option result" where
  "fat_file_entry_by_path fs path =
     (if path = [] \<or> path ! 0 \<noteq> 0x2f then Ok None
      else if path = lit ''/'' then and_then (fat_root_directory fs) (\<lambda>e. Ok (Some e))
      else
        and_then (fat_root_directory fs) (\<lambda>file_entry.
          fat_walk_path file_entry (filter (\<lambda>c. c \<noteq> []) (str_split 0x2f path))))"

section \<open>The source of a file\<close>

text \<open>
  \<open>merge_extent\<close>.  All the extents of a file are in the source of the file system, so that the
  references to their sources are the same.
\<close>

definition fat_can_merge :: "ExtentMapEntry \<Rightarrow> ExtentMapEntry \<Rightarrow> bool result" where
  "fat_can_merge current next_extent =
     (case (ext_target current, ext_target next_extent) of
        (ExtentData _ current_source_offset, ExtentData _ next_source_offset) \<Rightarrow>
          and_then (add_u64 (ext_logical_offset current) (ext_size current)) (\<lambda>current_end.
            if current_end = ext_logical_offset next_extent then
              and_then (add_u64 current_source_offset (ext_size current)) (\<lambda>current_source_end.
                Ok (current_source_end = next_source_offset))
            else Ok False)
      | _ \<Rightarrow> Ok False)"

definition fat_merge_extent :: "ExtentMapEntry list \<Rightarrow> ExtentMapEntry option \<Rightarrow> ExtentMapEntry
    \<Rightarrow> (ExtentMapEntry list \<times> ExtentMapEntry option) result" where
  "fat_merge_extent extents current_extent next_extent =
     (case current_extent of
        None \<Rightarrow> Ok (extents, Some next_extent)
      | Some current \<Rightarrow>
          and_then (fat_can_merge current next_extent) (\<lambda>can_merge.
            if can_merge then
              and_then (add_u64 (ext_size current) (ext_size next_extent)) (\<lambda>merged_size.
                Ok (extents, Some (current\<lparr>ext_size := merged_size\<rparr>)))
            else Ok (extents @ [current], Some next_extent)))"

fun fat_file_extents :: "data_source \<Rightarrow> nat \<Rightarrow> nat \<Rightarrow> nat list \<Rightarrow> nat \<Rightarrow> nat
    \<Rightarrow> ExtentMapEntry list \<Rightarrow> ExtentMapEntry option \<Rightarrow> (ExtentMapEntry list \<times> nat) result" where
  "fat_file_extents source first_cluster_offset cluster_block_size [] logical_offset remaining_size extents current_extent =
     Ok (extents @ (case current_extent of None \<Rightarrow> [] | Some e \<Rightarrow> [e]), remaining_size)"
| "fat_file_extents source first_cluster_offset cluster_block_size (cluster_block_number # cluster_chain) logical_offset remaining_size
       extents current_extent =
     (let ext_len = min cluster_block_size remaining_size in
      and_then (fat_cluster_offset first_cluster_offset cluster_block_size cluster_block_number) (\<lambda>physical_offset.
      let next_extent = \<lparr>ext_logical_offset = logical_offset, ext_size = ext_len,
                         ext_target = ExtentData source physical_offset\<rparr> in
      and_then (fat_merge_extent extents current_extent next_extent) (\<lambda>(extents, current_extent).
      and_then (add_u64 logical_offset ext_len) (\<lambda>logical_offset.
      let remaining_size = remaining_size - ext_len in
      if remaining_size = 0
      then Ok (extents @ (case current_extent of None \<Rightarrow> [] | Some e \<Rightarrow> [e]), remaining_size)
      else fat_file_extents source first_cluster_offset cluster_block_size cluster_chain logical_offset remaining_size extents current_extent))))"

definition fat_open_source :: "FatFileEntry \<Rightarrow> data_source option result" where
  "fat_open_source e =
     (let fs = ffe_runtime e in
      if fat_is_directory e then Ok None
      else
        case ffe_directory_entry e of
          None \<Rightarrow> Ok None
        | Some directory_entry \<Rightarrow>
            if fde_data_size directory_entry = 0 then Ok (Some (memory_source (memory_new [])))
            else
              and_then (fat_read_cluster_chain (frt_block_allocation_table fs) (frt_source fs)
                         (fde_data_start_cluster directory_entry)) (\<lambda>cluster_chain.
              and_then (fat_file_extents (frt_source fs) (frt_first_cluster_offset fs) (frt_cluster_block_size fs)
                         cluster_chain 0 (fde_data_size directory_entry) [] None) (\<lambda>(extents, remaining_size).
                if remaining_size \<noteq> 0 then Err (Fat_error Fat_chain_too_short)
                else and_then (extent_map_new extents) (\<lambda>em. Ok (Some (extent_map_source em))))))"

section \<open>The entries of the table\<close>

text \<open>A list of bytes as one number in little-endian order.\<close>

lemma from_be_bytes_append: "from_be_bytes (xs @ ys) = from_be_bytes xs * 256 ^ length ys + from_be_bytes ys"
proof -
  have "foldl (\<lambda>acc b. acc * 256 + unat (b :: byte)) a ys
      = a * 256 ^ length ys + foldl (\<lambda>acc b. acc * 256 + unat b) 0 ys" for a
    by (induction ys rule: rev_induct) (simp_all add: distrib_right mult.assoc mult.commute [of 256])
  from this [of "foldl (\<lambda>acc b. acc * 256 + unat b) 0 xs"] show ?thesis by (simp add: from_be_bytes_def)
qed

lemma from_le_bytes_append: "from_le_bytes (xs @ ys) = from_le_bytes xs + 256 ^ length xs * from_le_bytes ys"
  by (simp add: from_le_bytes_def from_be_bytes_append)

lemma from_le_bytes_drop: "k \<le> length bs \<Longrightarrow> from_le_bytes bs div 256 ^ k = from_le_bytes (drop k bs)"
proof -
  assume k: "k \<le> length bs"
  have "from_le_bytes bs = from_le_bytes (take k bs) + 256 ^ k * from_le_bytes (drop k bs)"
    using from_le_bytes_append [of "take k bs" "drop k bs"] k by (simp add: min_def)
  moreover have "from_le_bytes (take k bs) < 256 ^ k" using bytes_bound_le(2) [of "take k bs" k] by simp
  ultimately show ?thesis by simp
qed

lemma from_le_bytes_take: "k \<le> length bs \<Longrightarrow> from_le_bytes bs mod 256 ^ k = from_le_bytes (take k bs)"
proof -
  assume k: "k \<le> length bs"
  have "from_le_bytes bs = from_le_bytes (take k bs) + 256 ^ k * from_le_bytes (drop k bs)"
    using from_le_bytes_append [of "take k bs" "drop k bs"] k by (simp add: min_def)
  moreover have "from_le_bytes (take k bs) < 256 ^ k" using bytes_bound_le(2) [of "take k bs" k] by simp
  ultimately show ?thesis by simp
qed

lemma from_le_bytes_subslice:
  "off + n \<le> length bs \<Longrightarrow> from_le_bytes (subslice off n bs) = from_le_bytes bs div 256 ^ off mod 256 ^ n"
  by (simp add: subslice_def from_le_bytes_drop from_le_bytes_take)

definition fat_entry_width :: "FatFormat \<Rightarrow> nat" where
  "fat_entry_width format = (case format of Fat12 \<Rightarrow> 12 | Fat16 \<Rightarrow> 16 | Fat32 \<Rightarrow> 32)"

lemma fat12_pair:
  fixes N :: nat
  shows "(N mod 65536) AND 0xfff = N mod 4096" "drop_bit 4 (N div 256 mod 65536) = N div 4096 mod 4096"
proof -
  have "(0xfff :: nat) = mask 12" by (simp add: mask_eq_exp_minus_1)
  then show "(N mod 65536) AND 0xfff = N mod 4096"
    using take_bit_eq_mask [of 12 "N mod 65536"] by (simp add: take_bit_eq_mod mod_mod_cancel)
  have "N div 256 mod 65536 div 16 = N div 256 div 16 mod 4096"
    using mod_mult2_eq [of "N div 256" 16 4096] by simp
  then show "drop_bit 4 (N div 256 mod 65536) = N div 4096 mod 4096"
    by (simp add: drop_bit_eq_div div_mult2_eq [symmetric])
qed

lemma fat_entry_value_packed:
  assumes "fat_entry_position format i = (off, n)" "off + n \<le> length bs"
  shows "fat_entry_value format i (subslice off n bs)
    = from_le_bytes bs div 2 ^ (fat_entry_width format * i) mod 2 ^ fat_entry_width format"
proof (cases format)
  case Fat12
  define N where "N = from_le_bytes bs div 256 ^ off"
  from assms Fat12 have off: "off = i div 2 * 3" "n = 3" by (auto simp: fat_entry_position_def)
  have fields: "u16_le 0 (subslice off n bs) = N mod 65536" "u16_le 1 (subslice off n bs) = N div 256 mod 65536"
    using assms(2) off(2)
    by (simp_all add: u16_le_def slice_slice min_def from_le_bytes_subslice N_def div_mult2_eq [symmetric] mult.commute)
  have eight: "(256 :: nat) ^ off = 2 ^ (8 * off)" by (simp add: power_mult)
  have "from_le_bytes bs div 2 ^ (12 * i) = (if even i then N else N div 4096)"
  proof (cases "even i")
    case True
    then have "12 * i = 8 * off" using off(1) by presburger
    then show ?thesis using True by (simp only: N_def eight if_True)
  next
    case False
    then have "12 * i = 8 * off + 12" using off(1) by presburger
    then have "from_le_bytes bs div 2 ^ (12 * i) = from_le_bytes bs div 2 ^ (8 * off) div 2 ^ 12"
      by (simp only: power_add div_mult2_eq)
    then show ?thesis using False by (simp add: N_def eight)
  qed
  with Fat12 fields fat12_pair [of N] show ?thesis by (simp add: fat_entry_value_def fat_entry_width_def)
next
  case Fat16
  from assms Fat16 have off: "off = i * 2" "n = 2" by (auto simp: fat_entry_position_def)
  have "(256 :: nat) ^ off = (256 ^ 2) ^ i" by (simp only: off(1) power_mult [symmetric] mult.commute)
  also have "\<dots> = 2 ^ (16 * i)" by (simp add: power_mult)
  finally have "(256 :: nat) ^ off = 2 ^ (16 * i)" .
  then show ?thesis
    using assms(2) off(2) Fat16
    by (simp add: fat_entry_value_def fat_entry_width_def u16_le_def slice_slice min_def from_le_bytes_subslice)
next
  case Fat32
  from assms Fat32 have off: "off = i * 4" "n = 4" by (auto simp: fat_entry_position_def)
  have "(256 :: nat) ^ off = (256 ^ 4) ^ i" by (simp only: off(1) power_mult [symmetric] mult.commute)
  also have "\<dots> = 2 ^ (32 * i)" by (simp add: power_mult)
  finally have "(256 :: nat) ^ off = 2 ^ (32 * i)" .
  then show ?thesis
    using assms(2) off(2) Fat32
    by (simp add: fat_entry_value_def fat_entry_width_def u32_le_def slice_slice min_def from_le_bytes_subslice)
qed

lemma fat_read_entry_packed:
  assumes "byte_source ds content" "fat_read_entry table ds i = Ok v"
  shows "v = from_le_bytes (drop (fat_offset table) content) div 2 ^ (fat_entry_width (fat_format table) * i)
    mod 2 ^ fat_entry_width (fat_format table)"
proof -
  obtain off n where pos: "fat_entry_position (fat_format table) i = (off, n)" by fastforce
  with assms(2) obtain data where data: "read_exact_at ds (fat_offset table + off) n = Ok data"
    and v: "v = fat_entry_value (fat_format table) i data"
    by (auto simp: fat_read_entry_def result_simps split: if_splits)
  have bytes: "data = subslice (fat_offset table + off) n content" "length data = n"
    using byte_source.read_exact_at_sound [OF assms(1) data] by auto
  have "0 < n" using pos by (auto simp: fat_entry_position_def split: FatFormat.splits)
  with bytes have inside: "off + n \<le> length (drop (fat_offset table) content)"
    by (simp add: length_slice)
  have "data = subslice off n (drop (fat_offset table) content)"
    by (simp add: bytes(1) subslice_def add.commute)
  with v fat_entry_value_packed [OF pos inside] show ?thesis by simp
qed

section \<open>Chains of clusters\<close>

text \<open>The chain from a cluster on, as the table links it.\<close>

inductive fat_chain :: "FatBlockAllocationTable \<Rightarrow> data_source \<Rightarrow> nat \<Rightarrow> nat list \<Rightarrow> bool" for table ds where
  chain_stop: "\<not> fat_in_chain table c \<Longrightarrow> fat_chain table ds c []"
| chain_next: "fat_in_chain table c \<Longrightarrow> fat_read_entry table ds c = Ok c' \<Longrightarrow> fat_chain table ds c' cs
    \<Longrightarrow> fat_chain table ds c (c # cs)"

inductive_simps fat_chain_Nil: "fat_chain table ds c []"
inductive_simps fat_chain_Cons: "fat_chain table ds c (d # cs)"
inductive_cases fat_chain_elim: "fat_chain table ds c cs"

lemma fat_chain_unique: "fat_chain table ds c cs \<Longrightarrow> fat_chain table ds c cs' \<Longrightarrow> cs = cs'"
proof (induction arbitrary: cs' rule: fat_chain.induct)
  case (chain_stop c)
  from chain_stop.prems chain_stop.hyps show ?case by cases simp_all
next
  case (chain_next c c' cs)
  from chain_next.prems chain_next.hyps obtain cs'' where "cs' = c # cs''" "fat_chain table ds c' cs''"
    by cases simp_all
  with chain_next.IH show ?case by simp
qed

lemma fat_chain_loop_Ok:
  "fat_chain_loop table ds visited acc c = Ok result \<longleftrightarrow>
     (\<exists>cs. fat_chain table ds c cs \<and> distinct cs \<and> set cs \<inter> set visited = {} \<and> result = acc @ cs)"
proof (induction table ds visited acc c arbitrary: result rule: fat_chain_loop.induct)
  case (1 table ds visited acc c)
  show ?case
  proof (cases "fat_in_chain table c \<and> c \<notin> set visited")
    case False
    then show ?thesis
      by (subst fat_chain_loop.simps) (auto simp: fat_chain_Nil intro: chain_stop elim: fat_chain_elim)
  next
    case True
    show ?thesis
    proof (cases "fat_read_entry table ds c")
      case (Inl e)
      with True show ?thesis
        by (subst fat_chain_loop.simps) (auto elim: fat_chain_elim)
    next
      case (Inr c')
      have "fat_chain table ds c cs \<longleftrightarrow> (\<exists>ds'. cs = c # ds' \<and> fat_chain table ds c' ds')" for cs
        using True Inr by (auto intro: chain_next elim: fat_chain_elim)
      with True Inr "1.IH" show ?thesis
        by (subst fat_chain_loop.simps) auto
    qed
  qed
qed

lemma fat_read_cluster_chain_Ok:
  "fat_read_cluster_chain table ds c = Ok cs \<longleftrightarrow> fat_chain table ds c cs \<and> distinct cs"
  by (simp add: fat_read_cluster_chain_def fat_chain_loop_Ok)

lemma fat_chain_in: "fat_chain table ds c cs \<Longrightarrow> d \<in> set cs \<Longrightarrow> fat_in_chain table d"
  by (induction rule: fat_chain.induct) auto

lemma fat_chain_loop_Err:
  assumes "fat_chain_loop table ds visited acc c = Err e" "\<And>d. fat_in_chain table d \<Longrightarrow> \<exists>v. fat_read_entry table ds d = Ok v"
  shows "e = Fat_error Fat_cluster_already_read"
  using assms
proof (induction table ds visited acc c rule: fat_chain_loop.induct)
  case (1 table ds visited acc c)
  show ?case
  proof (cases "fat_in_chain table c \<and> c \<notin> set visited")
    case True
    with "1.prems"(2) obtain v where "fat_read_entry table ds c = Ok v" by blast
    with True "1.prems" "1.IH" show ?thesis by (subst (asm) fat_chain_loop.simps) auto
  qed (use "1.prems" in \<open>subst (asm) fat_chain_loop.simps, auto split: if_splits\<close>)
qed

end
