(* ===== verification/Fat_Files.thy ===== *)
theory Fat_Files
  imports Fat
begin

text \<open>
  What the FAT driver does with the model of theory \<open>Fat\<close>: the bytes of a file are those of the
  clusters of its chain, paths are resolved component by component, and opening a file system
  never panics.
\<close>

section \<open>The bytes of a file\<close>

lemma nth_concat_uniform:
  assumes "\<forall>l \<in> set ls. length l = m" "i < length ls" "r < m"
  shows "concat ls ! (i * m + r) = ls ! i ! r"
  using assms
proof (induction ls arbitrary: i)
  case (Cons l ls)
  then show ?case by (cases i) (simp_all add: nth_append add.assoc)
qed simp

lemma length_concat_uniform: "\<forall>l \<in> set ls. length l = m \<Longrightarrow> length (concat ls) = length ls * m"
  by (induction ls) simp_all

definition fat_cluster :: "nat \<Rightarrow> nat \<Rightarrow> byte list \<Rightarrow> nat \<Rightarrow> byte list" where
  "fat_cluster first cbs c k = subslice (first + (k - 2) * cbs) cbs c"

definition fat_clusters_inside :: "nat \<Rightarrow> nat \<Rightarrow> nat \<Rightarrow> nat list \<Rightarrow> bool" where
  "fat_clusters_inside first cbs n chain \<longleftrightarrow> (\<forall>k \<in> set chain. first + (k - 2) * cbs + cbs \<le> n)"

definition fat_file_bytes :: "nat \<Rightarrow> nat \<Rightarrow> nat list \<Rightarrow> byte list \<Rightarrow> byte list" where
  "fat_file_bytes first cbs chain c = concat (map (fat_cluster first cbs c) chain)"

lemma fat_file_bytes_nth:
  assumes "fat_clusters_inside first cbs (length c) chain" "i < length chain" "r < cbs"
  shows "fat_file_bytes first cbs chain c ! (i * cbs + r) = c ! (first + (chain ! i - 2) * cbs + r)"
    and "length (fat_file_bytes first cbs chain c) = length chain * cbs"
proof -
  have inside: "first + (k - 2) * cbs + cbs \<le> length c" if "k \<in> set chain" for k
    using assms(1) that by (simp add: fat_clusters_inside_def)
  then have len: "\<forall>l \<in> set (map (fat_cluster first cbs c) chain). length l = cbs"
    by (auto simp: fat_cluster_def length_slice_exact)
  then show "length (fat_file_bytes first cbs chain c) = length chain * cbs"
    using length_concat_uniform [OF len] by (simp add: fat_file_bytes_def)
  show "fat_file_bytes first cbs chain c ! (i * cbs + r) = c ! (first + (chain ! i - 2) * cbs + r)"
    using nth_concat_uniform [OF len, of i r] assms(2,3) inside [of "chain ! i"]
    by (simp add: fat_file_bytes_def fat_cluster_def nth_slice)
qed

subsection \<open>Merging\<close>

lemma fat_can_merge_mergeable: "fat_can_merge a b = Ok True \<Longrightarrow> mergeable a b"
  by (auto simp: fat_can_merge_def mergeable_def result_simps split: ExtentMapTarget.splits if_splits)

lemma fat_merge_covers:
  assumes "fat_merge_extent es cur e = Ok (es', cur')"
    and "covers ds n lo mid byte (with_current es cur)" "covers ds n mid hi byte [e]"
  shows "covers ds n lo hi byte (with_current es' cur')"
proof (cases cur)
  case None
  with assms covers_append show ?thesis by (fastforce simp: fat_merge_extent_def with_current_def)
next
  case (Some a)
  from covers_append [OF assms(2,3)] Some have both: "covers ds n lo hi byte (es @ [a, e])"
    by (simp add: with_current_def)
  from assms(1) Some obtain m where m: "fat_can_merge a e = Ok m"
    by (auto simp: fat_merge_extent_def result_simps)
  show ?thesis
  proof (cases m)
    case True
    with assms(1) Some m have "es' = es" "cur' = Some (a\<lparr>ext_size := ext_size a + ext_size e\<rparr>)"
      by (auto simp: fat_merge_extent_def result_simps)
    with covers_merge [OF both] fat_can_merge_mergeable m True show ?thesis
      by (simp add: with_current_def)
  next
    case False
    with assms(1) Some m both show ?thesis by (auto simp: fat_merge_extent_def with_current_def)
  qed
qed

text \<open>Merging and placing the extents of clusters inside the source do not fail.\<close>

lemma covers_last:
  assumes "covers ds n lo hi byte (with_current es (Some a))"
  shows "ext_logical_offset a + ext_size a = hi" "ext_target a = ExtentData s off \<Longrightarrow> off + ext_size a \<le> n"
  using assms by (auto simp: covers_def fills_def with_current_def layout_append over_source_def)

lemma fat_merge_extent_Ok:
  assumes cov: "covers ds n 0 mid byte (with_current es cur)" and u64: "mid + ext_size e < u64_limit" "n < u64_limit"
  shows "\<exists>r. fat_merge_extent es cur e = Ok r"
proof (cases cur)
  case (Some a)
  note a = covers_last [OF cov [unfolded Some]]
  have "mid < u64_limit" using u64(1) by simp
  moreover have "ext_size a \<le> mid" using a(1) by simp
  ultimately have "\<exists>b. fat_can_merge a e = Ok b"
    using a u64(2) by (auto simp: fat_can_merge_def add_u64_def split: ExtentMapTarget.splits)
  then show ?thesis
    using \<open>ext_size a \<le> mid\<close> u64(1) by (auto simp: Some fat_merge_extent_def add_u64_def)
qed (simp add: fat_merge_extent_def)

subsection \<open>The extents\<close>

lemma fat_file_extents_step:
  assumes "fat_cluster_offset first cbs k = Ok off" "lo + min cbs rem < u64_limit"
    and "fat_merge_extent es cur (data_extent lo (min cbs rem) ds off) = Ok (es1, cur1)"
  shows "fat_file_extents ds first cbs (k # ks) lo rem es cur =
    (if rem \<le> cbs then Ok (with_current es1 cur1, 0)
     else fat_file_extents ds first cbs ks (lo + cbs) (rem - cbs) es1 cur1)"
proof (cases "rem \<le> cbs")
  case True
  then have "min cbs rem = rem" by simp
  with assms True show ?thesis by (simp add: Let_def data_extent_def with_current_def add_u64_def)
next
  case False
  then have "min cbs rem = cbs" by simp
  with assms False show ?thesis by (simp add: Let_def data_extent_def add_u64_def)
qed

text \<open>
  The loop consumes the chain until the size is reached and reports how much of the size is left;
  the extents it has made then cover the file.
\<close>

lemma fat_file_extents_result:
  assumes inside: "fat_clusters_inside first cbs n chain" "\<forall>k \<in> set chain. 2 \<le> k"
    and u64: "n < u64_limit" "fsize < u64_limit" and "0 < cbs"
    and "covers ds n 0 (i * cbs) (\<lambda>c x. fat_file_bytes first cbs chain c ! x) (with_current es cur)"
    and "i * cbs < fsize" "i \<le> length chain"
  shows "\<exists>es'. fat_file_extents ds first cbs (drop i chain) (i * cbs) (fsize - i * cbs) es cur
      = Ok (es', fsize - length chain * cbs)
    \<and> (fsize \<le> length chain * cbs \<longrightarrow> covers ds n 0 fsize (\<lambda>c x. fat_file_bytes first cbs chain c ! x) es')"
  using assms(6-8)
proof (induction "length chain - i" arbitrary: i es cur)
  case 0
  then show ?case by simp
next
  case (Suc d)
  let ?byte = "\<lambda>c x. fat_file_bytes first cbs chain c ! x"
  let ?len = "min cbs (fsize - i * cbs)" and ?off = "first + (chain ! i - 2) * cbs"
  have i: "i < length chain" using Suc.hyps(2) by simp
  then have drop: "drop i chain = chain ! i # drop (Suc i) chain" by (simp add: Cons_nth_drop_Suc)
  have fits: "?off + cbs \<le> n" "2 \<le> chain ! i" using inside i by (simp_all add: fat_clusters_inside_def)
  then have off: "fat_cluster_offset first cbs (chain ! i) = Ok ?off"
    using u64(1) by (simp add: fat_cluster_offset_def sub_u64_def mul_u64_def add_u64_def)
  have len: "i * cbs + ?len < u64_limit" "0 < ?len" using u64(2) assms(5) Suc.prems(2) by simp_all
  obtain es1 cur1 where merge: "fat_merge_extent es cur (data_extent (i * cbs) ?len ds ?off) = Ok (es1, cur1)"
    using fat_merge_extent_Ok [OF Suc.prems(1), of "data_extent (i * cbs) ?len ds ?off"] len(1) u64(1)
    by (auto simp: data_extent_def)
  have "covers ds n (i * cbs) (i * cbs + ?len) ?byte [data_extent (i * cbs) ?len ds ?off]"
  proof (rule covers_data [OF len(2)])
    show "?off + ?len \<le> n" using fits(1) by simp
    show "?byte c x = c ! (?off + (x - i * cbs))"
      if "byte_source ds c" "length c = n" "i * cbs \<le> x" "x < i * cbs + ?len" for c x
      using fat_file_bytes_nth(1) [of first cbs c chain i "x - i * cbs"] inside i that by simp
  qed
  from fat_merge_covers [OF merge Suc.prems(1) this]
  have cov: "covers ds n 0 (i * cbs + ?len) ?byte (with_current es1 cur1)" .
  note step = fat_file_extents_step [OF off len(1) merge]
  have "Suc i * cbs \<le> length chain * cbs" using i by (intro mult_le_mono1) simp
  show ?case
  proof (cases "fsize - i * cbs \<le> cbs")
    case True
    then have "i * cbs + ?len = fsize" using Suc.prems(2) by simp
    with cov step True \<open>Suc i * cbs \<le> length chain * cbs\<close> show ?thesis by (auto simp: drop)
  next
    case False
    then have "?len = cbs" "i * cbs + cbs = Suc i * cbs" by simp_all
    with Suc.hyps(1) [of "Suc i" es1 cur1] Suc.hyps(2) cov False step show ?thesis
      by (simp add: drop add.commute)
  qed
qed

lemma fat_chain_distinct: "fat_chain table ds c cs \<Longrightarrow> distinct cs"
proof (induction rule: fat_chain.induct)
  case (chain_next c c' cs)
  have suffix: "fat_chain table ds b (us @ v # vs) \<Longrightarrow> fat_chain table ds v (v # vs)" for b us v vs
    by (induction us arbitrary: b) (auto simp: fat_chain_Cons)
  have "c \<notin> set cs"
  proof
    assume "c \<in> set cs"
    then obtain us vs where cs: "cs = us @ c # vs" by (meson split_list)
    with chain_next.hyps have "fat_chain table ds c (c # us @ c # vs)" by (auto intro: fat_chain.intros)
    moreover from cs suffix chain_next.hyps(3) have "fat_chain table ds c (c # vs)" by blast
    ultimately have "c # us @ c # vs = c # vs" by (rule fat_chain_unique)
    then have "length (us @ c # vs) = length vs" by (metis list.inject)
    then show False by simp
  qed
  with chain_next.IH show ?case by simp
qed simp

section \<open>The chains of a table\<close>

text \<open>
  The entry of a cluster as \<open>docs/formats/src/fat.md\<close> has it: the field of 12, 16 or 32 bits at its index in the table,
  of which FAT-32 uses the lower 28 bits, and the numbers that mean a used cluster.
\<close>

definition fat_documented_link :: "FatFormat \<Rightarrow> byte list \<Rightarrow> nat \<Rightarrow> nat" where
  "fat_documented_link format table_data i =
     (case format of
        Fat12 \<Rightarrow> from_le_bytes table_data div 2 ^ (12 * i) mod 2 ^ 12
      | Fat16 \<Rightarrow> from_le_bytes table_data div 2 ^ (16 * i) mod 2 ^ 16
      | Fat32 \<Rightarrow> from_le_bytes table_data div 2 ^ (32 * i) mod 2 ^ 28)"

definition fat_documented_used :: "FatFormat \<Rightarrow> nat \<Rightarrow> bool" where
  "fat_documented_used format n \<longleftrightarrow>
     2 \<le> n \<and> n \<le> (case format of Fat12 \<Rightarrow> 0xfef | Fat16 \<Rightarrow> 0xffef | Fat32 \<Rightarrow> 0x0fffffef)"

text \<open>The used clusters from one cluster number to another, and the upper bits of an entry of FAT-32.\<close>

primrec fat_documented_path :: "FatFormat \<Rightarrow> byte list \<Rightarrow> nat \<Rightarrow> nat list \<Rightarrow> nat \<Rightarrow> bool" where
  "fat_documented_path format table_data c [] end_mark \<longleftrightarrow> c = end_mark"
| "fat_documented_path format table_data c (d # ds) end_mark \<longleftrightarrow>
     c = d \<and> fat_documented_used format d \<and> fat_documented_path format table_data (fat_documented_link format table_data d) ds end_mark"

definition fat_documented_upper :: "FatFormat \<Rightarrow> byte list \<Rightarrow> nat \<Rightarrow> nat" where
  "fat_documented_upper format table_data i =
     (case format of Fat32 \<Rightarrow> from_le_bytes table_data div 2 ^ (32 * i + 28) mod 2 ^ 4 | _ \<Rightarrow> 0)"

lemma fat_in_chain_used: "fat_in_chain table c \<longleftrightarrow> fat_documented_used (fat_format table) c"
  by (auto simp: fat_in_chain_def fat_documented_used_def largest_cluster_block_number_def split: FatFormat.splits)

lemma fat_entry_link:
  assumes "byte_source ds content" "fat_read_entry table ds i = Ok v"
    and "fat_documented_upper (fat_format table) (drop (fat_offset table) content) i = 0"
  shows "v = fat_documented_link (fat_format table) (drop (fat_offset table) content) i"
proof -
  have v: "v = from_le_bytes (drop (fat_offset table) content)
      div 2 ^ (fat_entry_width (fat_format table) * i) mod 2 ^ fat_entry_width (fat_format table)"
    using assms(1,2) by (rule fat_read_entry_packed)
  show ?thesis
  proof (cases "fat_format table")
    case Fat32
    define N where "N = from_le_bytes (drop (fat_offset table) content) div 2 ^ (32 * i)"
    have "N div 2 ^ 28 mod 2 ^ 4 = 0"
      using assms(3) Fat32 by (simp only: fat_documented_upper_def N_def FatFormat.case power_add div_mult2_eq)
    moreover have "N mod 2 ^ 32 = N mod 2 ^ 28 + 2 ^ 28 * (N div 2 ^ 28 mod 2 ^ 4)"
      using mod_mult2_eq [of N "2 ^ 28" "2 ^ 4"] by simp
    ultimately have "N mod 2 ^ 32 = N mod 2 ^ 28" by simp
    then show ?thesis by (simp add: v Fat32 fat_entry_width_def fat_documented_link_def N_def)
  qed (simp_all add: v fat_entry_width_def fat_documented_link_def)
qed

text \<open>A table that lies in the source: all its entries can be read.\<close>

lemma fat_read_entry_inside:
  assumes "total_source ds content" "i < fat_number_of_entries table"
    and "fat_offset table + fat_number_of_entries table * fat_entry_width (fat_format table) div 8 + 3 \<le> length content"
  shows "\<exists>v. fat_read_entry table ds i = Ok v"
proof -
  obtain off n where pos: "fat_entry_position (fat_format table) i = (off, n)" by force
  have "off + n \<le> fat_number_of_entries table * fat_entry_width (fat_format table) div 8 + 3"
    using pos assms(2) by (auto simp: fat_entry_position_def fat_entry_width_def split: FatFormat.splits)
  with assms(3) have inside: "fat_offset table + off + n \<le> length content" by linarith
  then have u64: "fat_offset table + off < u64_limit"
    using byte_source.content_u64 [OF total_source.axioms(1) [OF assms(1)]] by linarith
  from total_source.read_exact_at_total [OF assms(1) u64, of n] inside u64 assms(2) pos show ?thesis
    by (simp add: fat_read_entry_def add_u64_def)
qed

lemma fat_chain_documented:
  assumes "total_source ds content"
    and "fat_offset table + fat_number_of_entries table * fat_entry_width (fat_format table) div 8 + 3 \<le> length content"
    and "\<forall>i < fat_number_of_entries table. fat_documented_upper (fat_format table) (drop (fat_offset table) content) i = 0"
  shows "fat_chain table ds c cs \<longleftrightarrow>
    (\<exists>end_mark. fat_documented_path (fat_format table) (drop (fat_offset table) content) c cs end_mark
       \<and> \<not> fat_documented_used (fat_format table) end_mark) \<and> (\<forall>d \<in> set cs. d < fat_number_of_entries table)"
proof (induction cs arbitrary: c)
  case Nil
  then show ?case by (simp add: fat_chain_Nil fat_in_chain_used)
next
  case (Cons d cs)
  have "(\<exists>c'. fat_read_entry table ds d = Ok c' \<and> fat_chain table ds c' cs) \<longleftrightarrow>
    d < fat_number_of_entries table \<and> fat_chain table ds (fat_documented_link (fat_format table) (drop (fat_offset table) content) d) cs"
  proof (cases "d < fat_number_of_entries table")
    case True
    with fat_read_entry_inside [OF assms(1) True assms(2)] show ?thesis
      using fat_entry_link [OF total_source.axioms(1) [OF assms(1)]] assms(3) by auto
  next
    case False
    then show ?thesis by (simp add: fat_read_entry_def)
  qed
  then show ?case by (auto simp: fat_chain_Cons fat_in_chain_used Cons.IH)
qed

text \<open>What the loop over a chain ends with when it does not return a chain.\<close>

lemma fat_chain_loop_error:
  assumes "total_source ds content"
    and "fat_offset table + fat_number_of_entries table * fat_entry_width (fat_format table) div 8 + 3 \<le> length content"
    and "fat_chain_loop table ds visited acc c = Err e"
  shows "e = Fat_error Fat_cluster_already_read \<or> e = Fat_error Fat_entry_index"
  using assms
proof (induction table ds visited acc c rule: fat_chain_loop.induct)
  case (1 table ds visited acc c)
  note step = "1.prems"(3) [unfolded fat_chain_loop.simps [of table ds visited acc c]]
  show ?case
  proof (cases "fat_in_chain table c \<and> c \<notin> set visited")
    case False
    with step show ?thesis by (auto split: if_splits)
  next
    case True
    show ?thesis
    proof (cases "c < fat_number_of_entries table")
      case False
      with step True show ?thesis by (auto simp: fat_read_entry_def)
    next
      case inside: True
      with fat_read_entry_inside [OF "1.prems"(1) _ "1.prems"(2)] obtain c' where c': "fat_read_entry table ds c = Ok c'" by blast
      with step True have "fat_chain_loop table ds (c # visited) (acc @ [c]) c' = Err e" by simp
      with "1.IH" True c' "1.prems"(1,2) show ?thesis by blast
    qed
  qed
qed

section \<open>An opened file system\<close>

definition fat_geometry :: "FatBootRecord \<Rightarrow> bool" where
  "fat_geometry br \<longleftrightarrow>
     fbr_bytes_per_sector br \<in> {512, 1024, 2048, 4096}
     \<and> fbr_sectors_per_cluster_block br \<in> {1, 2, 4, 8, 16, 32, 64, 128}
     \<and> fbr_number_of_reserved_sectors br < u16_limit \<and> fbr_number_of_allocation_tables br < 256
     \<and> fbr_number_of_root_directory_entries br < u16_limit \<and> fbr_allocation_table_size br < u32_limit
     \<and> fbr_number_of_sectors br < u32_limit
     \<and> (fbr_root_directory_cluster_block_number br = 0 \<or> 2 \<le> fbr_root_directory_cluster_block_number br)
     \<and> fbr_root_directory_cluster_block_number br < u32_limit"

lemma unat_sectors_per_cluster:
  "(b :: byte) \<in> {1, 2, 4, 8, 16, 32, 64, 128} \<Longrightarrow> unat b \<in> {1, 2, 4, 8, 16, 32, 64, 128}"
  by (elim insertE) simp_all

lemma u16_lt_u32: "n < u16_limit \<Longrightarrow> n < u32_limit"
  by (simp add: u16_limit_def u32_limit_def)

lemma limit_pos: "0 < u16_limit" "0 < u32_limit"
  by (simp_all add: u16_limit_def u32_limit_def)

lemma read_fat12_geometry: "read_fat12_boot_record data = Ok br \<Longrightarrow> fat_geometry br"
proof -
  assume "read_fat12_boot_record data = Ok br"
  then have "u16_le 11 data \<in> {512, 1024, 2048, 4096}" "data ! 13 \<in> {1, 2, 4, 8, 16, 32, 64, 128}"
    and br: "fbr_bytes_per_sector br = u16_le 11 data" "fbr_sectors_per_cluster_block br = unat (data ! 13)"
      "fbr_number_of_reserved_sectors br = u16_le 14 data" "fbr_number_of_allocation_tables br = unat (data ! 16)"
      "fbr_number_of_root_directory_entries br = u16_le 17 data" "fbr_allocation_table_size br = u16_le 22 data"
      "fbr_number_of_sectors br = (if u32_le 32 data \<noteq> 0 then u32_le 32 data else u16_le 19 data)"
      "fbr_root_directory_cluster_block_number br = 0"
    unfolding read_fat12_boot_record_def if_Err_eq_Ok by (auto simp del: insert_iff)
  with unat_sectors_per_cluster show ?thesis
    by (simp add: fat_geometry_def field_bounds u16_lt_u32 unat_byte_lt limit_pos)
qed

lemma read_fat32_geometry: "read_fat32_boot_record data = Ok br \<Longrightarrow> fat_geometry br"
proof -
  assume "read_fat32_boot_record data = Ok br"
  then have "u16_le 11 data \<in> {512, 1024, 2048, 4096}" "data ! 13 \<in> {1, 2, 4, 8, 16, 32, 64, 128}" "\<not> u32_le 44 data < 2"
    and br: "fbr_bytes_per_sector br = u16_le 11 data" "fbr_sectors_per_cluster_block br = unat (data ! 13)"
      "fbr_number_of_reserved_sectors br = u16_le 14 data" "fbr_number_of_allocation_tables br = unat (data ! 16)"
      "fbr_number_of_root_directory_entries br = 0" "fbr_allocation_table_size br = u32_le 36 data"
      "fbr_number_of_sectors br = u32_le 32 data" "fbr_root_directory_cluster_block_number br = u32_le 44 data"
    unfolding read_fat32_boot_record_def if_Err_eq_Ok by (auto simp del: insert_iff)
  with unat_sectors_per_cluster show ?thesis
    by (simp add: fat_geometry_def field_bounds unat_byte_lt limit_pos)
qed

lemma fat_boot_record_geometry: "fat_boot_record_read_at ds = Ok br \<Longrightarrow> fat_geometry br"
  using read_fat12_geometry read_fat32_geometry
  by (auto simp: fat_boot_record_read_at_def result_simps split: if_splits)

lemma fat_open_Ok:
  assumes "fat_open ds = Ok fs"
  obtains br where "fat_boot_record_read_at ds = Ok br" "frt_source fs = ds"
    "frt_cluster_block_size fs = fbr_bytes_per_sector br * fbr_sectors_per_cluster_block br"
    "fat_cluster_block_size (frt_block_allocation_table fs) = frt_cluster_block_size fs"
    "fat_first_cluster_offset (frt_block_allocation_table fs) = frt_first_cluster_offset fs"
    "fat_format (frt_block_allocation_table fs) = frt_format fs"
    "frt_root_directory_cluster_block_number fs = fbr_root_directory_cluster_block_number br"
    "frt_root_directory_size fs = (if fbr_root_directory_cluster_block_number br = 0
       then fbr_number_of_root_directory_entries br * 32 else 0)"
proof -
  from assms obtain br where br: "fat_boot_record_read_at ds = Ok br"
    by (auto simp: fat_open_def fat_open_with_def result_simps)
  with assms show thesis
    by (intro that [OF br]) (auto simp: fat_open_def fat_open_with_def result_simps Let_def split: if_splits)
qed

lemma fat_open_cluster_size:
  assumes "fat_open ds = Ok fs"
  shows "512 \<le> frt_cluster_block_size fs \<and> frt_cluster_block_size fs \<le> 524288"
proof -
  from assms obtain br where br: "fat_boot_record_read_at ds = Ok br"
    "frt_cluster_block_size fs = fbr_bytes_per_sector br * fbr_sectors_per_cluster_block br"
    by (rule fat_open_Ok)
  from fat_boot_record_geometry [OF br(1)] br(2) show ?thesis by (auto simp: fat_geometry_def)
qed

section \<open>Files\<close>

lemma fat_open_source_file:
  assumes fs: "fat_open ds = Ok fs" "ffe_runtime e = fs" and e: "ffe_directory_entry e = Some d" "\<not> fat_is_directory e"
    and chain: "fat_chain (frt_block_allocation_table fs) ds (fde_data_start_cluster d) chain"
    and inside: "fat_clusters_inside (frt_first_cluster_offset fs) (frt_cluster_block_size fs) n chain"
    and n: "ds_size ds = Ok n" "n < u64_limit" "fde_data_size d < u64_limit"
  shows "if fde_data_size d \<le> length chain * frt_cluster_block_size fs
    then \<exists>s. fat_open_source e = Ok (Some s)
      \<and> (\<forall>c. byte_source ds c \<longrightarrow> byte_source s (take (fde_data_size d)
            (fat_file_bytes (frt_first_cluster_offset fs) (frt_cluster_block_size fs) chain c)))
      \<and> (\<forall>c. total_source ds c \<longrightarrow> exact_source s (take (fde_data_size d)
            (fat_file_bytes (frt_first_cluster_offset fs) (frt_cluster_block_size fs) chain c)))
    else fat_open_source e = Err (Fat_error Fat_chain_too_short)"
proof (cases "fde_data_size d = 0")
  case True
  then have "fat_open_source e = Ok (Some (memory_source (memory_new [])))"
    using e by (simp add: fat_open_source_def)
  with True show ?thesis using memory_sources [of "[]"] by (simp add: u64_limit_def)
next
  case False
  let ?first = "frt_first_cluster_offset fs" and ?cbs = "frt_cluster_block_size fs" and ?size = "fde_data_size d"
  let ?byte = "\<lambda>c x. fat_file_bytes ?first ?cbs chain c ! x"
  have ds: "frt_source fs = ds" using fs(1) by (rule fat_open_Ok)
  have walk: "fat_read_cluster_chain (frt_block_allocation_table fs) ds (fde_data_start_cluster d) = Ok chain"
    using chain fat_chain_distinct by (simp add: fat_read_cluster_chain_Ok)
  have two: "\<forall>k \<in> set chain. 2 \<le> k" using fat_chain_in [OF chain] by (simp add: fat_in_chain_def)
  from fat_file_extents_result [OF inside two n(2,3), of ds 0 "[]" None] False fat_open_cluster_size [OF fs(1)]
  obtain es where es: "fat_file_extents ds ?first ?cbs chain 0 ?size [] None = Ok (es, ?size - length chain * ?cbs)"
    and cov: "?size \<le> length chain * ?cbs \<longrightarrow> covers ds n 0 ?size ?byte es"
    by (auto simp: with_current_def)
  have opened: "fat_open_source e = (if ?size - length chain * ?cbs \<noteq> 0 then Err (Fat_error Fat_chain_too_short)
      else and_then (extent_map_new es) (\<lambda>em. Ok (Some (extent_map_source em))))"
    using e False by (simp add: fat_open_source_def fs(2) ds walk es)
  show ?thesis
  proof (cases "?size \<le> length chain * ?cbs")
    case True
    have bytes: "map (?byte c) [0..<?size] = take ?size (fat_file_bytes ?first ?cbs chain c)" if "byte_source ds c" for c
    proof -
      have "n = length c" using byte_source.size_content [OF that] n(1) by simp
      have "chain \<noteq> []" using True False by auto
      then have "length (fat_file_bytes ?first ?cbs chain c) = length chain * ?cbs"
        using fat_file_bytes_nth(2) [of ?first ?cbs c chain 0 0] inside fat_open_cluster_size [OF fs(1)]
        by (simp add: \<open>n = length c\<close>)
      with True show ?thesis by (intro nth_equalityI) simp_all
    qed
    from covers_map [OF mp [OF cov True] n(3,1)] obtain em where "extent_map_new es = Ok em"
      "\<forall>c. byte_source ds c \<longrightarrow> byte_source (extent_map_source em) (map (?byte c) [0..<?size])"
      "\<forall>c. total_source ds c \<longrightarrow> exact_source (extent_map_source em) (map (?byte c) [0..<?size])" by blast
    with True opened bytes total_source.axioms(1) show ?thesis by auto
  qed (simp add: opened)
qed

section \<open>Paths\<close>

lemma str_split_append: "str_split c (xs @ c # ys) = str_split c xs @ str_split c ys"
proof (induction xs)
  case (Cons x xs)
  have "str_split c zs \<noteq> []" for zs by (cases zs) (auto split: list.splits)
  with Cons show ?case by (auto split: list.splits)
qed simp

lemma str_split_single: "c \<notin> set ys \<Longrightarrow> str_split c ys = [ys]"
  by (induction ys) auto

lemma fat_walk_path_snoc:
  "fat_walk_path e (cs @ [name]) = and_then (fat_walk_path e cs) (\<lambda>found.
     case found of None \<Rightarrow> Ok None | Some e' \<Rightarrow> fat_sub_file_entry_by_name e' name)"
proof (induction cs arbitrary: e)
  case Nil
  show ?case
    by (cases "fat_sub_file_entry_by_name e name") (auto split: option.splits)
next
  case (Cons c cs)
  then show ?case
    by (cases "fat_sub_file_entry_by_name e c") (auto split: option.splits)
qed

lemma fat_by_path_walk:
  assumes "path \<noteq> []" "path ! 0 = 0x2f"
  shows "fat_file_entry_by_path fs path = and_then (fat_root_directory fs) (\<lambda>e.
    fat_walk_path e (filter (\<lambda>c. c \<noteq> []) (str_split 0x2f path)))"
  using assms by (cases "path = lit ''/''") (simp_all add: fat_file_entry_by_path_def lit_def)

lemma fat_by_path_step:
  assumes "path \<noteq> []" "path ! 0 = 0x2f" "name \<noteq> []" "0x2f \<notin> set name"
  shows "fat_file_entry_by_path fs (path @ lit ''/'' @ name) =
    and_then (fat_file_entry_by_path fs path) (\<lambda>found.
      case found of None \<Rightarrow> Ok None | Some e \<Rightarrow> fat_sub_file_entry_by_name e name)"
proof -
  have slash: "lit ''/'' = [0x2f]" by (simp add: lit_def)
  have "fat_file_entry_by_path fs (path @ lit ''/'' @ name) = and_then (fat_root_directory fs) (\<lambda>e.
      fat_walk_path e (filter (\<lambda>c. c \<noteq> []) (str_split 0x2f path) @ [name]))"
    using assms by (subst fat_by_path_walk) (simp_all add: slash str_split_append str_split_single nth_append)
  also have "\<dots> = and_then (and_then (fat_root_directory fs) (\<lambda>e.
      fat_walk_path e (filter (\<lambda>c. c \<noteq> []) (str_split 0x2f path)))) (\<lambda>found.
        case found of None \<Rightarrow> Ok None | Some e \<Rightarrow> fat_sub_file_entry_by_name e name)"
    by (cases "fat_root_directory fs") (simp_all add: fat_walk_path_snoc)
  finally show ?thesis using assms by (simp add: fat_by_path_walk)
qed

lemma fat_lookup_ignores_case:
  "ascii_lowercase name' = ascii_lowercase name \<Longrightarrow> fat_sub_file_entry_by_name e name' = fat_sub_file_entry_by_name e name"
  by (simp add: fat_sub_file_entry_by_name_def normalize_lookup_name_def)

section \<open>Absence of panics\<close>

context total_source
begin

lemma read_exact_at_no_panic: "off < u64_limit \<Longrightarrow> no_panic (read_exact_at ds off len)"
  using read_exact_at_total [of off len] by (auto simp: no_panic_def)

end

lemma fat_directory_step_no_panic: "no_panic (fat_directory_step format r off st)"
proof -
  obtain entries ls m where st: "st = (entries, ls, m)" by (cases st)
  have long: "no_panic (read_long_name_directory_entry r)" and short: "no_panic (read_short_name_directory_entry r format)"
    by (simp_all add: read_long_name_directory_entry_def read_short_name_directory_entry_def Let_def)
  have add: "no_panic (fat_add_short_entry entries s off ls)" for s
    by (auto simp: fat_add_short_entry_def build_long_name_def Let_def intro!: no_panic_intros)
  show ?thesis
    using long short add
    by (auto simp: st fat_directory_step_def Let_def split: FatDirectoryEntryType.splits
        intro!: no_panic_and_then)
qed

lemma fat_directory_loop_no_panic:
  "off + length data < u64_limit \<Longrightarrow> no_panic (fat_directory_loop format data off st)"
proof (induction format data off st rule: fat_directory_loop.induct)
  case (1 format data off st)
  show ?case
  proof (subst fat_directory_loop.simps, auto intro!: no_panic_and_then fat_directory_step_no_panic split: option.splits)
    assume "32 \<le> length data"
    then show "no_panic (add_u64 off 32)" using "1.prems" by (intro no_panic_arith) simp
  next
    fix a b c off'
    assume "32 \<le> length data" "fat_directory_step format (subslice 0 32 data) off st = Ok (Some (a, b, c))" "add_u64 off 32 = Ok off'"
    with "1.prems" show "no_panic (fat_directory_loop format (drop 32 data) off' (a, b, c))"
      by (intro "1.IH") (auto simp: result_simps)
  qed
qed

definition fat_table_small :: "FatBlockAllocationTable \<Rightarrow> bool" where
  "fat_table_small table \<longleftrightarrow>
     fat_offset table < 2 ^ 60 \<and> fat_first_cluster_offset table < 2 ^ 60 \<and> fat_cluster_block_size table \<le> 2 ^ 19"

lemma fat_in_chain_bound: "fat_in_chain table c \<Longrightarrow> 2 \<le> c \<and> c < 2 ^ 28"
  by (auto simp: fat_in_chain_def largest_cluster_block_number_def split: FatFormat.splits)

lemma fat_cluster_offset_small:
  assumes "fat_table_small table" "fat_in_chain table c"
  shows "fat_cluster_offset (fat_first_cluster_offset table) (fat_cluster_block_size table) c
    = Ok (fat_first_cluster_offset table + (c - 2) * fat_cluster_block_size table)"
    and "fat_first_cluster_offset table + (c - 2) * fat_cluster_block_size table < u64_limit"
proof -
  have c: "2 \<le> c" "c - 2 \<le> 2 ^ 28" using fat_in_chain_bound [OF assms(2)] by auto
  have "(c - 2) * fat_cluster_block_size table \<le> 2 ^ 28 * 2 ^ 19"
    using c(2) assms(1) by (intro mult_le_mono) (simp_all add: fat_table_small_def)
  then have "(c - 2) * fat_cluster_block_size table < u64_limit"
    "fat_first_cluster_offset table + (c - 2) * fat_cluster_block_size table < u64_limit"
    using assms(1) by (simp_all add: fat_table_small_def u64_limit_def)
  with c(1) show "fat_cluster_offset (fat_first_cluster_offset table) (fat_cluster_block_size table) c
      = Ok (fat_first_cluster_offset table + (c - 2) * fat_cluster_block_size table)"
    "fat_first_cluster_offset table + (c - 2) * fat_cluster_block_size table < u64_limit"
    by (simp_all add: fat_cluster_offset_def sub_u64_def mul_u64_def add_u64_def)
qed

context total_source
begin

lemma read_exact_at_bound:
  assumes "read_exact_at ds off len = Ok data" "0 < len"
  shows "off + len < u64_limit \<and> length data = len"
  using read_exact_at_sound [OF assms(1)] assms(2) content_u64 by (auto simp: length_slice)

lemma fat_read_entry_no_panic:
  assumes "fat_table_small table" "fat_in_chain table c"
  shows "no_panic (fat_read_entry table ds c)"
proof -
  obtain off n where pos: "fat_entry_position (fat_format table) c = (off, n)" by fastforce
  have "c < 2 ^ 28" using fat_in_chain_bound [OF assms(2)] by simp
  with pos have "off < 2 ^ 30" by (auto simp: fat_entry_position_def split: FatFormat.splits)
  with assms(1) have "fat_offset table + off < u64_limit" by (simp add: fat_table_small_def u64_limit_def)
  then show ?thesis
    using pos by (auto simp: fat_read_entry_def result_simps intro!: no_panic_intros read_exact_at_no_panic)
qed

lemma fat_directory_clusters_no_panic:
  assumes table: "fat_table_small table" "0 < fat_cluster_block_size table"
  shows "no_panic (fat_directory_clusters ds table visited entries c)"
proof (induction "card ({2..<largest_cluster_block_number table} - set visited)" arbitrary: visited entries c
    rule: less_induct)
  case less
  show ?case
  proof (cases "fat_in_chain table c \<and> c \<notin> set visited")
    case True
    let ?off = "fat_first_cluster_offset table + (c - 2) * fat_cluster_block_size table"
    note off = fat_cluster_offset_small [OF table(1) conjunct1 [OF True]]
    have rec: "no_panic (fat_directory_clusters ds table (c # visited) es c')" for es c'
      using True by (intro less fat_visited_decreases) auto
    have "no_panic (read_directory_entries_from_data es data ?off (fat_format table))"
      if "read_exact_at ds ?off (fat_cluster_block_size table) = Ok data" for es data
      using read_exact_at_bound [OF that table(2)]
      by (simp add: read_directory_entries_from_data_def fat_directory_loop_no_panic)
    with True off rec show ?thesis
      by (subst fat_directory_clusters.simps)
        (auto intro!: no_panic_and_then read_exact_at_no_panic fat_read_entry_no_panic table(1))
  qed (subst fat_directory_clusters.simps, auto)
qed

lemma read_root_directory_no_panic:
  assumes "fat_table_small table" "0 < fat_cluster_block_size table" "off < u64_limit"
  shows "no_panic (read_root_directory ds table off dir_size c)"
proof -
  have "no_panic (read_directory_entries_from_data es data off format)"
    if "read_exact_at ds off dir_size = Ok data" "0 < dir_size" for es data format
    using read_exact_at_bound [OF that]
    by (simp add: read_directory_entries_from_data_def fat_directory_loop_no_panic)
  with assms fat_directory_clusters_no_panic show ?thesis
    by (auto simp: read_root_directory_def read_directory_entries_at_offset_def
        read_directory_entries_at_cluster_def intro!: no_panic_and_then read_exact_at_no_panic)
qed

lemma fat_boot_record_no_panic: "no_panic (fat_boot_record_read_at ds)"
  by (auto simp: fat_boot_record_read_at_def read_fat32_boot_record_def read_fat12_boot_record_def u64_limit_def
      intro!: no_panic_and_then read_exact_at_no_panic)

end

lemma fat_geometry_bounds:
  assumes "fat_geometry br"
  defines "bps \<equiv> fbr_bytes_per_sector br"
  shows "fbr_number_of_reserved_sectors br * bps \<le> 2 ^ 28" "fbr_allocation_table_size br * bps \<le> 2 ^ 44"
    "fbr_number_of_allocation_tables br * (fbr_allocation_table_size br * bps) \<le> 2 ^ 52"
    "bps * fbr_sectors_per_cluster_block br \<le> 2 ^ 19" "0 < bps * fbr_sectors_per_cluster_block br"
    "fbr_number_of_root_directory_entries br * 32 \<le> 2 ^ 21"
proof -
  note g = assms(1) [unfolded fat_geometry_def u16_limit_def u32_limit_def]
  have bps: "bps \<le> 2 ^ 12" "0 < bps" using g by (auto simp: bps_def)
  have spc: "fbr_sectors_per_cluster_block br \<le> 2 ^ 7" "0 < fbr_sectors_per_cluster_block br" using g by auto
  have "fbr_number_of_reserved_sectors br * bps \<le> 2 ^ 16 * 2 ^ 12" using g bps by (intro mult_le_mono) simp_all
  then show "fbr_number_of_reserved_sectors br * bps \<le> 2 ^ 28" by simp
  have "fbr_allocation_table_size br * bps \<le> 2 ^ 32 * 2 ^ 12" using g bps by (intro mult_le_mono) simp_all
  then show size: "fbr_allocation_table_size br * bps \<le> 2 ^ 44" by simp
  have "fbr_number_of_allocation_tables br * (fbr_allocation_table_size br * bps) \<le> 2 ^ 8 * 2 ^ 44"
    using g size by (intro mult_le_mono) simp_all
  then show "fbr_number_of_allocation_tables br * (fbr_allocation_table_size br * bps) \<le> 2 ^ 52" by simp
  have "bps * fbr_sectors_per_cluster_block br \<le> 2 ^ 12 * 2 ^ 7" using bps spc by (intro mult_le_mono) simp_all
  then show "bps * fbr_sectors_per_cluster_block br \<le> 2 ^ 19" by simp
  show "0 < bps * fbr_sectors_per_cluster_block br" using bps spc by simp
  show "fbr_number_of_root_directory_entries br * 32 \<le> 2 ^ 21" using g by simp
qed

context total_source
begin

lemma fat_open_with_no_panic:
  assumes "fat_geometry br"
  shows "no_panic (fat_open_with ds br)"
proof -
  note b = fat_geometry_bounds [OF assms]
  let ?bps = "fbr_bytes_per_sector br" and ?res = "fbr_number_of_reserved_sectors br"
  let ?tables = "fbr_number_of_allocation_tables br * (fbr_allocation_table_size br * fbr_bytes_per_sector br)"
  have sums: "?tables < u64_limit" "?res * ?bps + ?tables < 2 ^ 60"
    "?res * ?bps + ?tables + fbr_number_of_root_directory_entries br * 32 < 2 ^ 60" "?res * ?bps < 2 ^ 60"
    using b(1-3,6) by (simp_all add: u64_limit_def)
  then have u64: "?res * ?bps + ?tables < u64_limit"
    "?res * ?bps + ?tables + fbr_number_of_root_directory_entries br * 32 < u64_limit"
    by (simp_all add: u64_limit_def)
  have root: "no_panic (read_root_directory ds
      \<lparr>fat_format = fmt, fat_offset = ?res * ?bps, fat_number_of_entries = k, fat_first_cluster_offset = first,
       fat_cluster_block_size = ?bps * fbr_sectors_per_cluster_block br\<rparr> off dir_size cl)"
    if "first < 2 ^ 60" "off < 2 ^ 60" for fmt k first off dir_size cl
    using that sums(4) b(4,5) by (intro read_root_directory_no_panic) (simp_all add: fat_table_small_def u64_limit_def)
  show ?thesis
    using root sums u64
    by (auto simp: fat_open_with_def Let_def result_simps intro!: no_panic_intros split: if_splits)
qed

lemma fat_open_no_panic: "no_panic (fat_open ds)"
  unfolding fat_open_def
  by (rule no_panic_and_then [OF fat_boot_record_no_panic])
    (rule fat_open_with_no_panic [OF fat_boot_record_geometry])

end

section \<open>A file system with one file\<close>

text \<open>
  A FAT-12 file system with the file \<open>DATA.BIN\<close> of 600 bytes in the clusters 2 and 4; the root
  directory has one sector and so have the clusters.
\<close>

definition fat_sample_boot :: "byte list" where
  "fat_sample_boot =
     replicate 11 0 @ [0, 2, 1, 1, 0, 1, 16, 0, 8, 0, 0xf8, 1, 0] @ replicate 486 0 @ [0x55, 0xaa]"

definition fat_sample_record :: "byte list" where
  "fat_sample_record = lit ''DATA    BIN'' @ [0x20, 0] @ replicate 13 0 @ [2, 0, 0x58, 2, 0, 0]"

definition fat_sample_disk :: "byte list" where
  "fat_sample_disk =
     fat_sample_boot @ ([0xf8, 0xff, 0xff, 4, 0, 0, 0xff, 0x0f, 0] @ replicate 503 0)
     @ (fat_sample_record @ replicate 480 0) @ replicate 512 1 @ replicate 512 2 @ replicate 512 3"

abbreviation fat_sample_source :: data_source where
  "fat_sample_source \<equiv> memory_source (memory_new fat_sample_disk)"

definition fat_sample_table :: FatBlockAllocationTable where
  "fat_sample_table = \<lparr>fat_format = Fat12, fat_offset = 512, fat_number_of_entries = 6,
     fat_first_cluster_offset = 1536, fat_cluster_block_size = 512\<rparr>"

definition fat_sample_fs :: FatRuntime where
  "fat_sample_fs =
     \<lparr>frt_source = fat_sample_source, frt_bytes_per_sector = 512, frt_cluster_block_size = 512,
      frt_first_cluster_offset = 1536, frt_root_directory_offset = 1024, frt_root_directory_size = 512,
      frt_root_directory_cluster_block_number = 0, frt_format = Fat12,
      frt_block_allocation_table = fat_sample_table, frt_volume_serial_number = 0, frt_volume_label = None,
      frt_root_directory_volume_label = None\<rparr>"

definition fat_sample_entry_data :: FatDirectoryEntry where
  "fat_sample_entry_data =
     \<lparr>fde_identifier = 1024, fde_short_name = lit ''DATA.BIN'', fde_file_attribute_flags = 0x20,
      fde_data_start_cluster = 2, fde_data_size = 600, fde_long_name = None\<rparr>"

definition fat_sample_root :: FatFileEntry where
  "fat_sample_root = \<lparr>ffe_runtime = fat_sample_fs, ffe_identifier = 1024, ffe_directory_entry = None\<rparr>"

definition fat_sample_file :: FatFileEntry where
  "fat_sample_file =
     \<lparr>ffe_runtime = fat_sample_fs, ffe_identifier = 1024, ffe_directory_entry = Some fat_sample_entry_data\<rparr>"

lemma length_fat_sample: "length fat_sample_boot = 512" "length fat_sample_record = 32" "length fat_sample_disk = 3072"
  by (simp_all add: fat_sample_boot_def fat_sample_record_def fat_sample_disk_def lit_def)

lemma fat_sample_disk_u64: "length fat_sample_disk < u64_limit"
  by (simp add: length_fat_sample u64_limit_def)

lemma fat_sample_total: "total_source fat_sample_source fat_sample_disk"
  by (rule memory_total [OF fat_sample_disk_u64])

lemma fat_sample_read:
  "off + n \<le> 3072 \<Longrightarrow> read_exact_at fat_sample_source off n = Ok (subslice off n fat_sample_disk)"
  by (rule memory_read_exact [OF fat_sample_disk_u64]) (simp add: length_fat_sample)

lemma fat_sample_parts:
  "subslice 0 512 fat_sample_disk = fat_sample_boot" "subslice 1024 512 fat_sample_disk = fat_sample_record @ replicate 480 0"
  "subslice 515 3 fat_sample_disk = [4, 0, 0]" "subslice 518 3 fat_sample_disk = [0xff, 0x0f, 0]"
  "subslice 1536 512 fat_sample_disk = replicate 512 1" "subslice 2560 512 fat_sample_disk = replicate 512 3"
  using length_fat_sample(1,2) by (simp_all add: fat_sample_disk_def subslice_def)

lemma fat_sample_fields:
  "subslice 510 2 fat_sample_boot = [0x55, 0xaa]" "u16_le 11 fat_sample_boot = 512" "fat_sample_boot ! 13 = 1"
  "u16_le 14 fat_sample_boot = 1" "fat_sample_boot ! 16 = 1" "u16_le 17 fat_sample_boot = 16"
  "u16_le 19 fat_sample_boot = 8" "u16_le 22 fat_sample_boot = 1" "u32_le 32 fat_sample_boot = 0"
  "fat_sample_boot ! 38 = 0" "subslice 22 2 fat_sample_boot \<noteq> replicate 2 0"
proof -
  have "subslice 32 4 fat_sample_boot = replicate 4 0" "subslice 22 2 fat_sample_boot = [1, 0]"
    by (simp_all add: fat_sample_boot_def subslice_def)
  then show "u32_le 32 fat_sample_boot = 0" "subslice 22 2 fat_sample_boot \<noteq> replicate 2 0"
    by (simp_all add: u32_le_def numeral_2_eq_2)
qed (simp_all add: fat_sample_boot_def subslice_def u16_le_def from_le_bytes_def from_be_bytes_def nth_append)

lemma fat_sample_boot_record:
  "fat_boot_record_read_at fat_sample_source =
     Ok \<lparr>fbr_bytes_per_sector = 512, fbr_sectors_per_cluster_block = 1, fbr_number_of_reserved_sectors = 1,
         fbr_number_of_allocation_tables = 1, fbr_number_of_root_directory_entries = 16,
         fbr_allocation_table_size = 1, fbr_number_of_sectors = 8,
         fbr_root_directory_cluster_block_number = 0, fbr_volume_serial_number = 0, fbr_volume_label = None\<rparr>"
  using fat_sample_fields
  by (simp add: fat_boot_record_read_at_def fat_sample_read fat_sample_parts read_fat12_boot_record_def
      length_fat_sample fat_label_def)

lemma fat_sample_short_name:
  "classify_directory_entry fat_sample_record = ShortName"
  "trim_ascii_end_spaces (subslice 0 8 fat_sample_record) = lit ''DATA''"
  "trim_ascii_end_spaces (subslice 8 3 fat_sample_record) = lit ''BIN''"
  "fat_sample_record ! 11 = 0x20" "fat_sample_record ! 12 = 0"
  "(0x20 :: byte) AND 0x58 = 0" "normalize_lookup_name (lit ''DATA.BIN'') = lit ''data.bin''"
  "lit ''DATA'' @ lit ''.'' @ lit ''BIN'' = lit ''DATA.BIN''"
  by code_simp+

lemma fat_sample_short_entry:
  "read_short_name_directory_entry fat_sample_record Fat12 =
     Ok \<lparr>fsn_name = lit ''DATA.BIN'', fsn_file_attribute_flags = 0x20, fsn_data_start_cluster = 2, fsn_data_size = 600\<rparr>"
proof -
  have "u16_le 26 fat_sample_record = 2" "u32_le 28 fat_sample_record = 600" "lit ''BIN'' \<noteq> []"
    by (simp_all add: fat_sample_record_def lit_def u16_le_def u32_le_def subslice_def from_le_bytes_def from_be_bytes_def)
  with fat_sample_short_name show ?thesis
    by (simp add: read_short_name_directory_entry_def length_fat_sample)
qed

lemma fat_sample_root_directory:
  "read_root_directory fat_sample_source fat_sample_table 1024 512 0 =
     Ok \<lparr>fds_entries = [lit ''data.bin'' \<mapsto> fat_sample_entry_data], fds_volume_label = None\<rparr>"
proof -
  let ?w = "([] :: nat list, fat_sample_record)"
  have "lit ''DATA.BIN'' \<noteq> lit ''.''" "lit ''DATA.BIN'' \<noteq> lit ''..''" by (simp_all add: lit_def)
  then have w: "fat_writable Fat12 ?w"
    using fat_sample_short_name(6) by (simp add: fat_writable_def length_fat_sample fat_sample_short_name(1) fat_sample_short_entry from_utf16_def)
  have written: "fat_written 0 ?w = fat_sample_record"
    by (simp add: fat_written_def vfat_records_def vfat_parts_def div_ceil_def)
  have zeros: "replicate 480 (0 :: byte) = replicate 32 0 @ replicate 448 0" by (simp flip: replicate_add)
  have "fat_listing Fat12 0 1024 [?w] = [(lit ''data.bin'', fat_sample_entry_data)]"
    by (simp add: fat_listed_def fat_sample_short_entry fat_entry_name_def fat_sample_short_name(7) vfat_parts_def
        div_ceil_def fat_sample_entry_data_def u32_limit_def)
  with fat_read_written [of "[?w]" Fat12 1024 0 "replicate 448 0"] w
  have "read_directory_entries_from_data fat_directory_entries_default (fat_sample_record @ replicate 480 0) 1024 Fat12 =
      Ok \<lparr>fds_entries = [lit ''data.bin'' \<mapsto> fat_sample_entry_data], fds_volume_label = None\<rparr>"
    by (simp add: written zeros u64_limit_def length_fat_sample)
  then show ?thesis
    by (simp add: read_root_directory_def read_directory_entries_at_offset_def fat_sample_read fat_sample_parts
        fat_sample_table_def)
qed

lemma fat_sample_open: "fat_open fat_sample_source = Ok fat_sample_fs"
  using fat_sample_root_directory
  by (simp add: fat_open_def fat_sample_boot_record fat_open_with_def determine_number_of_clusters_def
      saturating_sub_def fat_determine_format_def checked_mul_def checked_mul_u32_def mul_u64_def add_u64_def
      u64_limit_def u32_limit_def fat_sample_fs_def fat_sample_table_def)

lemma fat_sample_links:
  "fat_read_entry fat_sample_table fat_sample_source 2 = Ok 4" "fat_read_entry fat_sample_table fat_sample_source 4 = Ok 4095"
proof -
  have "u16_le 0 [4, 0, 0] AND 0x0fff = 4" "u16_le 0 [0xff, 0x0f, 0] AND 0x0fff = 4095"
    by (simp_all add: u16_le_def subslice_def from_le_bytes_def from_be_bytes_def)
  then show "fat_read_entry fat_sample_table fat_sample_source 2 = Ok 4" "fat_read_entry fat_sample_table fat_sample_source 4 = Ok 4095"
    by (simp_all add: fat_read_entry_def fat_sample_table_def fat_entry_position_def add_u64_def u64_limit_def
        fat_sample_read fat_sample_parts fat_entry_value_def)
qed

lemma fat_sample_chain: "fat_chain fat_sample_table fat_sample_source 2 [2, 4]"
  using fat_sample_links
  by (simp add: fat_chain_Cons fat_chain_Nil fat_in_chain_def largest_cluster_block_number_def fat_sample_table_def)

lemma fat_sample_inside: "fat_clusters_inside 1536 512 3072 [2, 4]"
  by (simp add: fat_clusters_inside_def)

lemma fat_sample_bytes: "fat_file_bytes 1536 512 [2, 4] fat_sample_disk = replicate 512 1 @ replicate 512 3"
  by (simp add: fat_file_bytes_def fat_cluster_def fat_sample_parts)

lemma fat_sample_lookup: "fat_file_entry_by_path fat_sample_fs (lit ''/'') = Ok (Some fat_sample_root)"
  "fat_sub_file_entry_by_name fat_sample_root (lit ''Data.bin'') = Ok (Some fat_sample_file)"
proof -
  show "fat_file_entry_by_path fat_sample_fs (lit ''/'') = Ok (Some fat_sample_root)"
    by (simp add: fat_file_entry_by_path_def lit_def fat_root_directory_def fat_root_identifier_def fat_sample_fs_def
        fat_sample_root_def u32_limit_def)
  have "normalize_lookup_name (lit ''Data.bin'') = lit ''data.bin''" by code_simp
  with fat_sample_root_directory show "fat_sub_file_entry_by_name fat_sample_root (lit ''Data.bin'') = Ok (Some fat_sample_file)"
    by (simp add: fat_sub_file_entry_by_name_def fat_read_sub_directory_entries_def fat_sample_root_def
        fat_is_directory_def fat_is_root_directory_def fat_sample_fs_def fat_sample_file_def fat_sample_entry_data_def)
qed

lemma fat_open_first:
  assumes "fat_open ds = Ok fs"
  shows "frt_first_cluster_offset fs < 2 ^ 60" "frt_cluster_block_size fs \<le> 2 ^ 19"
    "frt_root_directory_cluster_block_number fs = 0 \<or> 2 \<le> frt_root_directory_cluster_block_number fs"
    "frt_root_directory_cluster_block_number fs < 2 ^ 32"
proof -
  from assms obtain br where br: "fat_boot_record_read_at ds = Ok br" and w: "fat_open_with ds br = Ok fs"
    by (auto simp: fat_open_def result_simps)
  note g = fat_boot_record_geometry [OF br]
  note b = fat_geometry_bounds [OF g]
  from w b(1,3,6) show "frt_first_cluster_offset fs < 2 ^ 60"
    by (auto simp: fat_open_with_def result_simps Let_def split: if_splits)
  from w b(4) show "frt_cluster_block_size fs \<le> 2 ^ 19"
    by (auto simp: fat_open_with_def result_simps Let_def split: if_splits)
  from w have "frt_root_directory_cluster_block_number fs = fbr_root_directory_cluster_block_number br"
    by (auto simp: fat_open_with_def result_simps Let_def split: if_splits)
  with g show "frt_root_directory_cluster_block_number fs = 0 \<or> 2 \<le> frt_root_directory_cluster_block_number fs"
    "frt_root_directory_cluster_block_number fs < 2 ^ 32"
    by (simp_all add: fat_geometry_def u32_limit_def)
qed

lemma fat_root_directory_panics_iff:
  assumes "fat_open ds = Ok fs"
  shows "(\<exists>p. fat_root_directory fs = Err (Panic p)) \<longleftrightarrow>
    frt_root_directory_size fs = 0 \<and> frt_root_directory_cluster_block_number fs = 0"
proof -
  let ?k = "frt_root_directory_cluster_block_number fs"
  note b = fat_open_first [OF assms]
  have "fat_cluster_offset (frt_first_cluster_offset fs) (frt_cluster_block_size fs) ?k
      = Ok (frt_first_cluster_offset fs + (?k - 2) * frt_cluster_block_size fs)" if "?k \<noteq> 0"
  proof -
    have "(?k - 2) * frt_cluster_block_size fs \<le> 2 ^ 32 * 2 ^ 19" using b(2,4) by (intro mult_le_mono) simp_all
    with that b show ?thesis
      by (simp add: fat_cluster_offset_def sub_u64_def mul_u64_def add_u64_def u64_limit_def)
  qed
  moreover have "fat_cluster_offset (frt_first_cluster_offset fs) (frt_cluster_block_size fs) 0 = Err (Panic Arithmetic_overflow)"
    by (simp add: fat_cluster_offset_def sub_u64_def)
  ultimately show ?thesis
    by (cases "?k = 0") (auto simp: fat_root_directory_def fat_root_identifier_def)
qed

section \<open>Properties\<close>

text \<open>
  (C19) The loop over a chain of clusters ends for every allocation table, cyclic ones included.  It returns a list of
  clusters exactly when this is the path of used clusters that the table of \<open>docs/formats/src/fat.md\<close> links from the first
  cluster to a number that marks no used cluster, all within the number of entries the driver allows (the number of clusters,
  so that the last two cluster numbers are refused); otherwise it fails because a cluster comes up a second time or has no
  entry.  The table lies in a source that does not fail, and the upper four bits of the entries of a FAT-32 table, which
  the document ignores and the driver reads, are clear.
\<close>

theorem fat_chain_walk_exact:
  assumes "total_source ds content"
    and "fat_offset table + fat_number_of_entries table * fat_entry_width (fat_format table) div 8 + 3 \<le> length content"
    and "\<forall>i < fat_number_of_entries table. fat_documented_upper (fat_format table) (drop (fat_offset table) content) i = 0"
  shows "(fat_read_cluster_chain table ds c = Ok cs \<longleftrightarrow>
      (\<exists>end_mark. fat_documented_path (fat_format table) (drop (fat_offset table) content) c cs end_mark
         \<and> \<not> fat_documented_used (fat_format table) end_mark) \<and> (\<forall>d \<in> set cs. d < fat_number_of_entries table))
    \<and> (fat_read_cluster_chain table ds c \<in> range Ok \<union> {Err (Fat_error Fat_cluster_already_read), Err (Fat_error Fat_entry_index)})"
proof
  show "fat_read_cluster_chain table ds c = Ok cs \<longleftrightarrow>
      (\<exists>end_mark. fat_documented_path (fat_format table) (drop (fat_offset table) content) c cs end_mark
         \<and> \<not> fat_documented_used (fat_format table) end_mark) \<and> (\<forall>d \<in> set cs. d < fat_number_of_entries table)"
    unfolding fat_chain_documented [OF assms, symmetric] fat_read_cluster_chain_Ok using fat_chain_distinct by blast
  show "fat_read_cluster_chain table ds c \<in> range Ok \<union> {Err (Fat_error Fat_cluster_already_read), Err (Fat_error Fat_entry_index)}"
    using fat_chain_loop_error [OF assms(1,2), of "[]" "[]" c]
    by (cases "fat_read_cluster_chain table ds c") (auto simp: fat_read_cluster_chain_def)
qed

theorem fat_chain_walk_exact_witness:
  "fat_documented_path Fat12 (drop 512 fat_sample_disk) 2 [2, 4] 4095
   \<and> fat_read_cluster_chain fat_sample_table fat_sample_source 2 = Ok [2, 4]"
proof -
  have table: "fat_offset fat_sample_table + fat_number_of_entries fat_sample_table * fat_entry_width (fat_format fat_sample_table) div 8 + 3
      \<le> length fat_sample_disk"
    by (simp add: fat_sample_table_def fat_entry_width_def length_fat_sample)
  have upper: "\<forall>i < fat_number_of_entries fat_sample_table.
      fat_documented_upper (fat_format fat_sample_table) (drop (fat_offset fat_sample_table) fat_sample_disk) i = 0"
    by (simp add: fat_sample_table_def fat_documented_upper_def)
  have links: "fat_documented_link Fat12 (drop 512 fat_sample_disk) 2 = 4" "fat_documented_link Fat12 (drop 512 fat_sample_disk) 4 = 4095"
    using fat_entry_link [OF total_source.axioms(1) [OF fat_sample_total] fat_sample_links(1)]
      fat_entry_link [OF total_source.axioms(1) [OF fat_sample_total] fat_sample_links(2)]
    by (simp_all add: fat_sample_table_def fat_documented_upper_def)
  then have path: "fat_documented_path Fat12 (drop 512 fat_sample_disk) 2 [2, 4] 4095" "\<not> fat_documented_used Fat12 4095"
    by (simp_all add: fat_documented_used_def)
  have "fat_format fat_sample_table = Fat12" "fat_offset fat_sample_table = 512" "\<forall>d \<in> set [2, 4]. d < fat_number_of_entries fat_sample_table"
    by (simp_all add: fat_sample_table_def)
  with fat_chain_walk_exact [OF fat_sample_total table upper, of 2 "[2, 4]"] path show ?thesis by auto
qed

text \<open>
  An entry of the block allocation table is read as the field of 12, 16 or 32 bits at its index
  in the table, taken as a packed array in little-endian order.
\<close>

theorem fat_table_entries_packed:
  assumes "byte_source ds content" "fat_read_entry table ds i = Ok v"
  shows "v = from_le_bytes (drop (fat_offset table) content)
    div 2 ^ (fat_entry_width (fat_format table) * i) mod 2 ^ fat_entry_width (fat_format table)"
  using assms by (rule fat_read_entry_packed)

theorem fat_table_entries_packed_witness:
  "fat_read_entry fat_sample_table fat_sample_source 2 = Ok 4
   \<and> from_le_bytes (drop 512 fat_sample_disk) div 2 ^ 24 mod 2 ^ 12 = 4"
proof -
  have "fat_read_entry fat_sample_table fat_sample_source 2 = Ok 4" by (rule fat_sample_links)
  with fat_table_entries_packed [OF total_source.axioms(1) [OF fat_sample_total] this] show ?thesis
    by (simp add: fat_sample_table_def fat_entry_width_def)
qed

text \<open>
  (C17) The source of a file has the bytes of the clusters of its chain one after the other, cut off
  at the size in the directory entry, and reads over a source that does not fail never fall short;
  when the chain is too short for the size, opening the file is an error.
\<close>

theorem fat_file_content:
  assumes "byte_source ds c" "fat_open ds = Ok fs" "ffe_runtime e = fs"
    and "ffe_directory_entry e = Some d" "\<not> fat_is_directory e" "fde_data_size d < u32_limit"
    and "fat_chain (frt_block_allocation_table fs) ds (fde_data_start_cluster d) chain"
    and "fat_clusters_inside (frt_first_cluster_offset fs) (frt_cluster_block_size fs) (length c) chain"
  defines "bytes \<equiv> take (fde_data_size d)
    (fat_file_bytes (frt_first_cluster_offset fs) (frt_cluster_block_size fs) chain c)"
  shows "if fde_data_size d \<le> length chain * frt_cluster_block_size fs
    then \<exists>s. fat_open_source e = Ok (Some s) \<and> byte_source s bytes \<and> (total_source ds c \<longrightarrow> exact_source s bytes)
    else fat_open_source e = Err (Fat_error Fat_chain_too_short)"
  using fat_open_source_file [OF assms(2-5,7,8) byte_source.size_content [OF assms(1)]
      byte_source.content_u64 [OF assms(1)] u32_lt_u64 [OF assms(6)]] assms(1)
  by (auto simp: bytes_def split: if_splits)

theorem fat_file_content_witness:
  "fat_open fat_sample_source = Ok fat_sample_fs
   \<and> (\<exists>s. fat_open_source fat_sample_file = Ok (Some s) \<and> exact_source s (replicate 512 1 @ replicate 88 3))"
proof -
  have fs: "frt_block_allocation_table fat_sample_fs = fat_sample_table" "frt_first_cluster_offset fat_sample_fs = 1536"
    "frt_cluster_block_size fat_sample_fs = 512"
    by (simp_all add: fat_sample_fs_def)
  have d: "fde_data_start_cluster fat_sample_entry_data = 2" "fde_data_size fat_sample_entry_data = 600"
    "fde_data_size fat_sample_entry_data < u32_limit"
    by (simp_all add: fat_sample_entry_data_def u32_limit_def)
  have e: "ffe_runtime fat_sample_file = fat_sample_fs" "ffe_directory_entry fat_sample_file = Some fat_sample_entry_data"
    "\<not> fat_is_directory fat_sample_file"
    by (simp_all add: fat_sample_file_def fat_is_directory_def fat_sample_entry_data_def)
  have chain: "fat_chain (frt_block_allocation_table fat_sample_fs) fat_sample_source
      (fde_data_start_cluster fat_sample_entry_data) [2, 4]"
    using fat_sample_chain by (simp add: fs d)
  have inside: "fat_clusters_inside (frt_first_cluster_offset fat_sample_fs) (frt_cluster_block_size fat_sample_fs)
      (length fat_sample_disk) [2, 4]"
    using fat_sample_inside by (simp add: fs length_fat_sample)
  from fat_file_content [OF total_source.axioms(1) [OF fat_sample_total] fat_sample_open e d(3) chain inside]
    fat_sample_total fat_sample_open
  show ?thesis by (auto simp: fs d fat_sample_bytes)
qed

text \<open>
  (C21) A path is resolved component by component, whatever slashes it has between them: the path
  with one more component is the entry of that name in the directory the path leads to, errors and
  missing entries included.  Names that differ only in the case of ASCII letters are the same.
\<close>

theorem fat_path_resolution:
  assumes "path \<noteq> []" "path ! 0 = 0x2f" "name \<noteq> []" "0x2f \<notin> set name"
  shows "fat_file_entry_by_path fs (path @ lit ''/'' @ name) =
      and_then (fat_file_entry_by_path fs path) (\<lambda>found.
        case found of None \<Rightarrow> Ok None | Some e \<Rightarrow> fat_sub_file_entry_by_name e name)
    \<and> (ascii_lowercase name' = ascii_lowercase name
        \<longrightarrow> fat_sub_file_entry_by_name e name' = fat_sub_file_entry_by_name e name)"
  by (intro conjI impI fat_by_path_step [OF assms] fat_lookup_ignores_case)

theorem fat_path_resolution_witness:
  "fat_file_entry_by_path fat_sample_fs (lit ''/'' @ lit ''/'' @ lit ''Data.bin'') = Ok (Some fat_sample_file)
   \<and> fat_sub_file_entry_by_name fat_sample_root (lit ''DATA.BIN'') = Ok (Some fat_sample_file)"
proof -
  have "ascii_lowercase (lit ''DATA.BIN'') = ascii_lowercase (lit ''Data.bin'')" by code_simp
  with fat_path_resolution [of "lit ''/''" "lit ''Data.bin''" fat_sample_fs "lit ''DATA.BIN''" fat_sample_root] fat_sample_lookup
  show ?thesis by (simp add: lit_def)
qed

text \<open>
  (C20) Opening a file system never panics, whatever the bytes of the source are.  The root directory
  of an opened file system panics in one case only: when the boot record has neither entries nor a
  cluster for it, which opening does not refuse.
\<close>

theorem fat_open_does_not_panic:
  assumes "total_source ds content"
  shows "(\<forall>p. fat_open ds \<noteq> Err (Panic p))
    \<and> (\<forall>fs. fat_open ds = Ok fs \<longrightarrow>
        ((\<exists>p. fat_root_directory fs = Err (Panic p)) \<longleftrightarrow>
         frt_root_directory_size fs = 0 \<and> frt_root_directory_cluster_block_number fs = 0))"
  using total_source.fat_open_no_panic [OF assms] fat_root_directory_panics_iff by (simp add: no_panic_def)

theorem fat_open_does_not_panic_witness:
  "fat_open fat_sample_source = Ok fat_sample_fs \<and> (\<forall>p. fat_root_directory fat_sample_fs \<noteq> Err (Panic p))"
  using fat_open_does_not_panic [OF fat_sample_total] fat_sample_open by (simp add: fat_sample_fs_def)

end
