(* ===== verification/Calendar.thy ===== *)
theory Calendar
  imports Unicode_Text
begin

text \<open>
  Dates and times (\<open>keramics-datetime/src\<close>): the conversion of a number of days since an epoch to a
  date and of a number of seconds to a time of day (\<open>util.rs\<close>), and the timestamps that use them.
  Days before the epoch, counted backwards, and days after it go through the same loops.
  The conversion is compared with the proleptic Gregorian calendar.
\<close>

section \<open>Calendar arithmetic (util.rs)\<close>

record Epoch =
  ep_year :: int
  ep_month :: int
  ep_day_of_month :: int

text \<open>Additions on \<open>i16\<close> and \<open>i64\<close> panic when they overflow.\<close>

definition add_i16 :: "int \<Rightarrow> int \<Rightarrow> int result" where
  "add_i16 a b = (if - 32768 \<le> a + b \<and> a + b \<le> 32767 then Ok (a + b) else Err (Panic Arithmetic_overflow))"

definition add_i64 :: "int \<Rightarrow> int \<Rightarrow> int result" where
  "add_i64 a b = (if - (2 ^ 63) \<le> a + b \<and> a + b < 2 ^ 63 then Ok (a + b) else Err (Panic Arithmetic_overflow))"

definition is_leap_year :: "int \<Rightarrow> bool" where
  "is_leap_year year \<longleftrightarrow> (4 dvd year \<and> \<not> 100 dvd year) \<or> 400 dvd year"

definition get_days_in_month :: "int \<Rightarrow> int \<Rightarrow> int result" where
  "get_days_in_month year month =
     (if month \<in> {1, 3, 5, 7, 8, 10, 12} then Ok 31
      else if month = 2 then Ok (if is_leap_year year then 29 else 28)
      else if month \<in> {4, 6, 9, 11} then Ok 30
      else Err (Panic Explicit_panic))"

definition days_in_year_table :: "int list" where
  "days_in_year_table = map (\<lambda>year. if is_leap_year year then 366 else 365) [0..9999]"

definition get_days_in_year :: "int \<Rightarrow> int result" where
  "get_days_in_year year =
     (if 0 \<le> year \<and> year \<le> 10000 then ok_or (Panic Index_out_of_bounds) (get_index days_in_year_table (nat year))
      else Ok (if is_leap_year year then 366 else 365))"

definition days_in_century_table :: "int list" where
  "days_in_century_table = map (\<lambda>century. if is_leap_year (100 * century) then 36525 else 36524) [0..99]"

definition get_days_in_century :: "int \<Rightarrow> int result" where
  "get_days_in_century year =
     (if 0 \<le> year \<and> year \<le> 10000
      then ok_or (Panic Index_out_of_bounds) (get_index days_in_century_table (nat (year div 100)))
      else Ok (if is_leap_year year then 36525 else 36524))"

text \<open>
  The loops of \<open>get_date_values\<close>, in their order; each takes the year, the month where it changes
  it, and the days that are left.
\<close>

lemma days_in_month_pos: "get_days_in_month year month = Ok d \<Longrightarrow> 0 < d"
  by (auto simp: get_days_in_month_def split: if_splits)

lemma days_in_year_pos: "get_days_in_year year = Ok d \<Longrightarrow> 0 < d"
  by (auto simp: get_days_in_year_def days_in_year_table_def get_index_def ok_or_def split: if_splits)

lemma days_in_century_pos: "get_days_in_century year = Ok d \<Longrightarrow> 0 < d"
  by (auto simp: get_days_in_century_def days_in_century_table_def get_index_def ok_or_def split: if_splits)

function align_year_start :: "bool \<Rightarrow> int \<Rightarrow> int \<Rightarrow> int \<Rightarrow> (int \<times> int \<times> int) result" where
  "align_year_start before_epoch year month number_of_days =
     (if 1 < month then
        and_then (get_days_in_month year month) (\<lambda>days_in_month.
          if number_of_days < days_in_month then Ok (year, month, number_of_days)
          else
            let month = (if before_epoch then month - 1 else month + 1) in
            if 12 < month
            then and_then (add_i16 year 1) (\<lambda>year. align_year_start before_epoch year 1 (number_of_days - days_in_month))
            else align_year_start before_epoch year month (number_of_days - days_in_month))
      else Ok (year, month, number_of_days))"
  by pat_completeness auto
termination
  by (relation "measure (\<lambda>(_, _, _, days). nat days)") (auto dest: days_in_month_pos)

definition step_year :: "bool \<Rightarrow> int \<Rightarrow> int \<Rightarrow> int result" where
  "step_year before_epoch years year = add_i16 year (if before_epoch then - years else years)"

fun align_century :: "nat \<Rightarrow> bool \<Rightarrow> int \<Rightarrow> int \<Rightarrow> (int \<times> int) result" where
  "align_century 0 before_epoch year number_of_days = Ok (year, number_of_days)"
| "align_century (Suc k) before_epoch year number_of_days =
     and_then (get_days_in_year year) (\<lambda>days_in_year.
       if number_of_days < days_in_year then Ok (year, number_of_days)
       else and_then (step_year before_epoch 1 year) (\<lambda>year.
              align_century k before_epoch year (number_of_days - days_in_year)))"

function skip_centuries :: "bool \<Rightarrow> int \<Rightarrow> int \<Rightarrow> (int \<times> int) result" where
  "skip_centuries before_epoch year number_of_days =
     and_then (get_days_in_century year) (\<lambda>days_in_century.
       if days_in_century < number_of_days
       then and_then (step_year before_epoch 100 year) (\<lambda>year.
              skip_centuries before_epoch year (number_of_days - days_in_century))
       else Ok (year, number_of_days))"
  by pat_completeness auto
termination
  by (relation "measure (\<lambda>(_, _, days). nat days)") (auto dest: days_in_century_pos)

function skip_years :: "bool \<Rightarrow> int \<Rightarrow> int \<Rightarrow> (int \<times> int) result" where
  "skip_years before_epoch year number_of_days =
     and_then (get_days_in_year year) (\<lambda>days_in_year.
       if days_in_year < number_of_days
       then and_then (step_year before_epoch 1 year) (\<lambda>year.
              skip_years before_epoch year (number_of_days - days_in_year))
       else Ok (year, number_of_days))"
  by pat_completeness auto
termination
  by (relation "measure (\<lambda>(_, _, days). nat days)") (auto dest: days_in_year_pos)

definition step_month :: "bool \<Rightarrow> int \<Rightarrow> int \<Rightarrow> (int \<times> int) result" where
  "step_month before_epoch year month =
     (let month = (if before_epoch then month - 1 else month + 1) in
      if month = 0 then and_then (add_i16 year (- 1)) (\<lambda>year. Ok (year, 12))
      else if 12 < month then and_then (add_i16 year 1) (\<lambda>year. Ok (year, 1))
      else Ok (year, month))"

function skip_months :: "bool \<Rightarrow> int \<Rightarrow> int \<Rightarrow> int \<Rightarrow> (int \<times> int \<times> int) result" where
  "skip_months before_epoch year month number_of_days =
     and_then (get_days_in_month year month) (\<lambda>days_in_month.
       if days_in_month < number_of_days
       then and_then (step_month before_epoch year month) (\<lambda>(year, month).
              skip_months before_epoch year month (number_of_days - days_in_month))
       else Ok (year, month, number_of_days))"
  by pat_completeness auto
termination
  by (relation "measure (\<lambda>(_, _, _, days). nat days)") (auto dest: days_in_month_pos)

declare align_year_start.simps [simp del] skip_centuries.simps [simp del] skip_years.simps [simp del]
  skip_months.simps [simp del]

text \<open>The \<open>% 100\<close> is taken of the year as a \<open>usize\<close>.\<close>

definition get_date_values :: "int \<Rightarrow> Epoch \<Rightarrow> (int \<times> int \<times> int) result" where
  "get_date_values number_of_days epoch =
     (let before_epoch = number_of_days < 0 in
      and_then (add_i64 number_of_days (ep_day_of_month epoch)) (\<lambda>number_of_days.
      and_then (if before_epoch then
                  (if ep_month epoch = 0 then Err (Panic Arithmetic_overflow)
                   else if ep_month epoch - 1 = 0
                   then and_then (add_i16 (ep_year epoch) (- 1)) (\<lambda>year. Ok (year, 12, - number_of_days))
                   else Ok (ep_year epoch, ep_month epoch - 1, - number_of_days))
                else Ok (ep_year epoch, ep_month epoch, number_of_days)) (\<lambda>(year, month, number_of_days).
      and_then (align_year_start before_epoch year month number_of_days) (\<lambda>(year, month, number_of_days).
      let remaining_years = year mod 2 ^ 64 mod 100 in
      and_then (align_century (nat (100 - remaining_years)) before_epoch year number_of_days) (\<lambda>(year, number_of_days).
      and_then (skip_centuries before_epoch year number_of_days) (\<lambda>(year, number_of_days).
      and_then (skip_years before_epoch year number_of_days) (\<lambda>(year, number_of_days).
      and_then (skip_months before_epoch year month number_of_days) (\<lambda>(year, month, number_of_days).
        if before_epoch then
          and_then (get_days_in_month year month) (\<lambda>days_in_month.
            Ok (year, month, (days_in_month - number_of_days) mod 256))
        else if number_of_days = 0 then
          and_then (add_i16 year (- 1)) (\<lambda>year. Ok (year, 12, 31))
        else Ok (year, month, number_of_days mod 256)))))))))"

definition get_time_values :: "int \<Rightarrow> int \<times> int \<times> int \<times> int" where
  "get_time_values number_of_seconds =
     (let seconds = number_of_seconds mod 60; number_of_minutes = number_of_seconds div 60;
          minutes = number_of_minutes mod 60; number_of_hours = number_of_minutes div 60;
          hours = number_of_hours mod 24; number_of_days = number_of_hours div 24
      in (number_of_days, hours, minutes, seconds))"


section \<open>The calendar\<close>

text \<open>
  The proleptic Gregorian calendar, as the date that follows a date. \<open>ordinal\<close> numbers the days: it
  increases by one from a date to the next one and is injective on the valid dates.
\<close>

definition month_length :: "int \<Rightarrow> int \<Rightarrow> int" where
  "month_length y m = (if m = 2 then (if is_leap_year y then 29 else 28) else if m \<in> {4, 6, 9, 11} then 30 else 31)"

definition next_date :: "int \<times> int \<times> int \<Rightarrow> int \<times> int \<times> int" where
  "next_date = (\<lambda>(y, m, d).
     if d < month_length y m then (y, m, d + 1) else if m < 12 then (y, m + 1, 1) else (y + 1, 1, 1))"

definition valid_date :: "int \<times> int \<times> int \<Rightarrow> bool" where
  "valid_date = (\<lambda>(y, m, d). 1 \<le> m \<and> m \<le> 12 \<and> 1 \<le> d \<and> d \<le> month_length y m)"

definition year_length :: "int \<Rightarrow> int" where
  "year_length y = (if is_leap_year y then 366 else 365)"

definition div_up :: "int \<Rightarrow> int \<Rightarrow> int" where
  "div_up y k = - ((- y) div k)"

definition before_year :: "int \<Rightarrow> int" where
  "before_year y = 365 * y + div_up y 4 - div_up y 100 + div_up y 400"

definition before_month :: "int \<Rightarrow> int \<Rightarrow> int" where
  "before_month y m =
     [0, 31, 59, 90, 120, 151, 181, 212, 243, 273, 304, 334] ! nat (m - 1) + (if is_leap_year y \<and> 2 < m then 1 else 0)"

definition ordinal :: "int \<times> int \<times> int \<Rightarrow> int" where
  "ordinal = (\<lambda>(y, m, d). before_year y + before_month y m + d)"

lemma div_up_Suc:
  assumes "0 < k"
  shows "div_up (y + 1) k = div_up y k + (if k dvd y then 1 else 0)"
proof -
  define q r where "q = (- y) div k" and "r = (- y) mod k"
  have r: "0 \<le> r" "r < k" and y: "- y = k * q + r" using assms by (simp_all add: q_def r_def)
  have d: "k dvd y \<longleftrightarrow> r = 0" by (metis dvd_eq_mod_eq_0 dvd_minus_iff r_def)
  show ?thesis
  proof (cases "r = 0")
    case True
    have "- (y + 1) = k * (q - 1) + (k - 1)" using y True by (simp add: algebra_simps)
    then have "(- (y + 1)) div k = q - 1" by (rule int_div_pos_eq) (use assms in auto)
    then show ?thesis using True d by (simp add: div_up_def q_def)
  next
    case False
    have "- (y + 1) = k * q + (r - 1)" using y by (simp add: algebra_simps)
    then have "(- (y + 1)) div k = q" by (rule int_div_pos_eq) (use r False in auto)
    then show ?thesis using False d by (simp add: div_up_def q_def)
  qed
qed

lemma div_up_add: "0 < k \<Longrightarrow> div_up (y + k * c) k = div_up y k + c"
  unfolding div_up_def using div_mult_self1[of k "- y" "- c"] by (simp add: algebra_simps)

lemma div_up_mult: "0 < c \<Longrightarrow> div_up (c * y) (c * k) = div_up y k"
  unfolding div_up_def using div_mult_mult1[of c "- y" k] by simp

lemma before_year_Suc: "before_year (y + 1) = before_year y + year_length y"
proof -
  have "100 dvd y \<Longrightarrow> 4 dvd y" "400 dvd y \<Longrightarrow> 100 dvd y" by (auto elim: dvd_trans[rotated])
  then show ?thesis by (auto simp: before_year_def year_length_def is_leap_year_def div_up_Suc)
qed

lemma before_year_century:
  assumes "100 dvd y"
  shows "before_year (y + 100) = before_year y + (if is_leap_year y then 36525 else 36524)"
proof -
  obtain q where q: "y = 100 * q" using assms by blast
  have four: "div_up (y + 100) 4 = div_up y 4 + 25" using div_up_add[of 4 y 25] by simp
  have hundred: "div_up (y + 100) 100 = div_up y 100 + 1" using div_up_add[of 100 y 1] by simp
  have "div_up (y + 100) 400 = div_up (q + 1) 4" "div_up y 400 = div_up q 4"
    using div_up_mult[of 100 "q + 1" 4] div_up_mult[of 100 q 4] by (simp_all add: q)
  moreover have "400 dvd y \<longleftrightarrow> 4 dvd q" using dvd_mult_cancel_left[of 100 4 q] by (simp add: q)
  ultimately show ?thesis using div_up_Suc[of 4 q] by (simp add: before_year_def four hundred is_leap_year_def assms)
qed

lemma month_cases:
  assumes "1 \<le> m" "m \<le> (12 :: int)"
  obtains "m = 1" | "m = 2" | "m = 3" | "m = 4" | "m = 5" | "m = 6"
    | "m = 7" | "m = 8" | "m = 9" | "m = 10" | "m = 11" | "m = 12"
proof -
  have "m \<in> set [1..12]" using assms by simp
  moreover have "[1..12] = [1, 2, 3, 4, 5, 6, 7, 8, 9, 10, 11, 12 :: int]" by (simp add: upto.simps)
  ultimately show ?thesis using that by auto
qed

lemma before_month_Suc: "1 \<le> m \<Longrightarrow> m < 12 \<Longrightarrow> before_month y (m + 1) = before_month y m + month_length y m"
  by (cases m rule: month_cases) (simp_all add: before_month_def month_length_def)

lemma before_month_12: "before_month y 12 + 31 = year_length y"
  by (simp add: before_month_def year_length_def)

lemma before_month_1 [simp]: "before_month y 1 = 0"
  by (simp add: before_month_def)

lemma month_length_pos: "28 \<le> month_length y m" "month_length y m \<le> 31"
  by (simp_all add: month_length_def)

lemma year_length_bounds: "365 \<le> year_length y" "year_length y \<le> 366"
  by (simp_all add: year_length_def)

lemma ordinal_next: "valid_date x \<Longrightarrow> ordinal (next_date x) = ordinal x + 1"
proof -
  assume "valid_date x"
  moreover obtain y m d where x: "x = (y, m, d)" by (cases x)
  ultimately have v: "1 \<le> m" "m \<le> 12" "d \<le> month_length y m" "1 \<le> d" by (simp_all add: valid_date_def)
  consider "d < month_length y m" | "d = month_length y m" "m < 12" | "d = month_length y m" "m = 12" using v by linarith
  then show ?thesis
  proof cases
    case 2
    then show ?thesis using v before_month_Suc[of m y] by (simp add: x next_date_def ordinal_def)
  next
    case 3
    then show ?thesis using before_month_12[of y] by (simp add: x next_date_def ordinal_def before_year_Suc month_length_def)
  qed (simp add: x next_date_def ordinal_def)
qed

lemma valid_next: "valid_date x \<Longrightarrow> valid_date (next_date x)"
  using month_length_pos by (force simp: valid_date_def next_date_def month_length_def split: if_splits)

lemma ordinal_iterate:
  assumes "valid_date x"
  shows "valid_date ((next_date ^^ n) x) \<and> ordinal ((next_date ^^ n) x) = ordinal x + int n"
  using assms by (induction n) (auto simp: valid_next ordinal_next)

lemma before_month_mono: "1 \<le> m \<Longrightarrow> m < m' \<Longrightarrow> m' \<le> 12 \<Longrightarrow> before_month y m + month_length y m \<le> before_month y m'"
proof (induction "nat (m' - m)" arbitrary: m' rule: less_induct)
  case less
  show ?case
  proof (cases "m' = m + 1")
    case False
    then have "before_month y m + month_length y m \<le> before_month y (m' - 1)" using less by simp
    then show ?thesis using before_month_Suc[of "m' - 1" y] less.prems month_length_pos(1)[of y "m' - 1"] by simp
  qed (use less.prems before_month_Suc in simp)
qed

lemma before_year_mono: "y < y' \<Longrightarrow> before_year y + year_length y \<le> before_year y'"
proof (induction "nat (y' - y)" arbitrary: y' rule: less_induct)
  case less
  show ?case
  proof (cases "y' = y + 1")
    case False
    then have "before_year y + year_length y \<le> before_year (y' - 1)" using less by simp
    then show ?thesis using before_year_Suc[of "y' - 1"] year_length_bounds(1)[of "y' - 1"] by simp
  qed (simp add: before_year_Suc)
qed

lemma day_in_year: "valid_date (y, m, d) \<Longrightarrow> 1 \<le> before_month y m + d \<and> before_month y m + d \<le> year_length y"
proof -
  assume "valid_date (y, m, d)"
  then have v: "1 \<le> m" "m \<le> 12" "1 \<le> d" "d \<le> month_length y m" by (simp_all add: valid_date_def)
  have "0 \<le> before_month y m" using v by (cases m rule: month_cases) (simp_all add: before_month_def)
  moreover have "before_month y m + month_length y m \<le> year_length y"
  proof (cases "m = 12")
    case True
    then show ?thesis using before_month_12[of y] by (simp add: month_length_def)
  next
    case False
    then show ?thesis using before_month_mono[of m 12 y] before_month_12[of y] v by simp
  qed
  ultimately show ?thesis using v by simp
qed

lemma ordinal_inj:
  assumes v: "valid_date (y, m, d)" "valid_date (y', m', d')" and o: "ordinal (y, m, d) = ordinal (y', m', d')"
  shows "(y, m, d) = (y', m', d')"
proof -
  have y: "y = y'"
    using before_year_mono[of y y'] before_year_mono[of y' y] day_in_year[OF v(1)] day_in_year[OF v(2)] o
    by (cases y y' rule: linorder_cases) (simp_all add: ordinal_def)
  moreover have "m = m'"
    using before_month_mono[of m m' y] before_month_mono[of m' m y] v o
    by (cases m m' rule: linorder_cases) (simp_all add: ordinal_def valid_date_def y)
  ultimately show ?thesis using o by (simp add: ordinal_def)
qed

lemma next_date_iterate_eq:
  assumes "valid_date x" "valid_date y" "ordinal y = ordinal x + int n"
  shows "(next_date ^^ n) x = y"
  using ordinal_iterate[OF assms(1), of n] assms ordinal_inj
  by (cases "(next_date ^^ n) x"; cases y) auto

section \<open>The loops count the calendar\<close>

lemma get_days_in_month_eq: "1 \<le> m \<Longrightarrow> m \<le> 12 \<Longrightarrow> get_days_in_month y m = Ok (month_length y m)"
  by (cases m rule: month_cases) (simp_all add: get_days_in_month_def month_length_def)

lemma get_days_in_year_eq: "0 \<le> y \<Longrightarrow> y < 10000 \<Longrightarrow> get_days_in_year y = Ok (year_length y)"
  by (simp add: get_days_in_year_def days_in_year_table_def get_index_def ok_or_def year_length_def)

lemma get_days_in_century_eq:
  assumes "0 \<le> y" "y < 10000" "100 dvd y"
  shows "get_days_in_century y = Ok (before_year (y + 100) - before_year y)"
proof -
  have i: "[0..99] ! nat (y div 100) = y div 100" "nat (y div 100) < 100" "100 * (y div 100) = y"
    using assms by (auto simp: nat_less_iff)
  show ?thesis using assms
    by (simp add: i get_days_in_century_def days_in_century_table_def get_index_def ok_or_def before_year_century)
qed

lemma get_days_in_century_ge:
  assumes "0 \<le> y" "y < 10000"
  shows "\<exists>c. get_days_in_century y = Ok c \<and> 36524 \<le> c"
proof -
  have "nat (y div 100) < length [0..99]" using assms by auto
  then show ?thesis using assms
    by (auto simp: get_days_in_century_def days_in_century_table_def get_index_def ok_or_def)
qed

lemma get_days_in_century_10000: "get_days_in_century 10000 = Err (Panic Index_out_of_bounds)"
  by (simp add: get_days_in_century_def days_in_century_table_def get_index_def ok_or_def)

lemma step_year_forward: "- 32768 \<le> y + k \<Longrightarrow> y + k \<le> 32767 \<Longrightarrow> step_year False k y = Ok (y + k)"
  by (simp add: step_year_def add_i16_def)

lemma align_century_forward:
  assumes "0 \<le> y" "y + int k \<le> 10000" "0 \<le> d"
  shows "\<exists>y' d'. align_century k False y d = Ok (y', d') \<and> before_year y' + d' = before_year y + d \<and> 0 \<le> d' \<and>
    y \<le> y' \<and> y' \<le> y + int k \<and> (d' < year_length y' \<and> y' < 10000 \<or> y' = y + int k)"
  using assms
proof (induction k arbitrary: y d)
  case (Suc k)
  show ?case
  proof (cases "d < year_length y")
    case True
    then show ?thesis using Suc.prems by (simp add: get_days_in_year_eq)
  next
    case False
    then obtain y' d' where
      "align_century k False (y + 1) (d - year_length y) = Ok (y', d')"
      "before_year y' + d' = before_year (y + 1) + (d - year_length y)" "0 \<le> d'" "y + 1 \<le> y'" "y' \<le> y + 1 + int k"
      "d' < year_length y' \<and> y' < 10000 \<or> y' = y + 1 + int k"
      using Suc.IH[of "y + 1" "d - year_length y"] Suc.prems by auto
    then show ?thesis using False Suc.prems
      by (auto simp: get_days_in_year_eq step_year_forward before_year_Suc)
  qed
qed simp

lemma skip_centuries_forward:
  assumes "0 \<le> y" "y < 10000" "100 dvd y" "0 \<le> d" "before_year y + d \<le> before_year 10000"
  shows "\<exists>y' d'. skip_centuries False y d = Ok (y', d') \<and> before_year y' + d' = before_year y + d \<and>
    0 \<le> d' \<and> y \<le> y' \<and> y' < 10000"
  using assms
proof (induction "False" y d rule: skip_centuries.induct)
  case (1 y d)
  let ?c = "before_year (y + 100) - before_year y"
  show ?case
  proof (cases "?c < d")
    case True
    have y: "y + 100 < 10000"
      using True "1.prems" before_year_mono[of 10000 "y + 100"] year_length_bounds(1)[of 10000]
      by (cases "y + 100 = 10000"; cases "y + 100 < 10000") auto
    obtain y' d' where
      "skip_centuries False (y + 100) (d - ?c) = Ok (y', d')" "before_year y' + d' = before_year y + d" "0 \<le> d'"
      "y + 100 \<le> y'" "y' < 10000"
      using "1.hyps"[OF get_days_in_century_eq True step_year_forward] "1.prems" True y by auto
    then show ?thesis
      using "1.prems" True y by (simp add: skip_centuries.simps[of False y] get_days_in_century_eq step_year_forward)
  next
    case False
    then show ?thesis using "1.prems" by (simp add: skip_centuries.simps[of False y] get_days_in_century_eq)
  qed
qed

lemma skip_centuries_end:
  assumes "0 \<le> y" "y \<le> 10000" "100 dvd y" "before_year 10000 < before_year y + d"
  shows "skip_centuries False y d = Err (Panic Index_out_of_bounds)"
  using assms
proof (induction "False" y d rule: skip_centuries.induct)
  case (1 y d)
  let ?c = "before_year (y + 100) - before_year y"
  show ?case
  proof (cases "y = 10000")
    case True
    then show ?thesis by (simp add: skip_centuries.simps[of False 10000] get_days_in_century_10000)
  next
    case False
    then have y: "y < 10000" "y + 100 \<le> 10000" using "1.prems" by presburger+
    then have "before_year (y + 100) \<le> before_year 10000"
      using before_year_mono[of "y + 100" 10000] year_length_bounds(1)[of "y + 100"] by (cases "y + 100 = 10000") auto
    then have c: "?c < d" using "1.prems" by simp
    have "skip_centuries False (y + 100) (d - ?c) = Err (Panic Index_out_of_bounds)"
      using "1.hyps"[OF get_days_in_century_eq c step_year_forward] "1.prems" y by simp
    then show ?thesis
      using "1.prems" y c by (simp add: skip_centuries.simps[of False y] get_days_in_century_eq step_year_forward)
  qed
qed

lemma skip_years_forward:
  assumes "0 \<le> y" "y < 10000" "0 \<le> d" "before_year y + d \<le> before_year 10000"
  shows "\<exists>y' d'. skip_years False y d = Ok (y', d') \<and> before_year y' + d' = before_year y + d \<and>
    0 \<le> d' \<and> d' \<le> year_length y' \<and> y \<le> y' \<and> y' < 10000"
  using assms
proof (induction "False" y d rule: skip_years.induct)
  case (1 y d)
  show ?case
  proof (cases "year_length y < d")
    case True
    have y: "y + 1 < 10000"
      using True "1.prems" before_year_Suc[of y] by (cases "y + 1 = 10000") auto
    obtain y' d' where
      "skip_years False (y + 1) (d - year_length y) = Ok (y', d')" "before_year y' + d' = before_year y + d" "0 \<le> d'"
      "d' \<le> year_length y'" "y + 1 \<le> y'" "y' < 10000"
      using "1.hyps"[OF get_days_in_year_eq True step_year_forward] "1.prems" True y by (auto simp: before_year_Suc)
    then show ?thesis
      using "1.prems" True y by (simp add: skip_years.simps[of False y] get_days_in_year_eq step_year_forward)
  next
    case False
    then show ?thesis using "1.prems" by (simp add: skip_years.simps[of False y] get_days_in_year_eq)
  qed
qed

lemma skip_months_forward:
  assumes "1 \<le> m" "m \<le> 12" "0 \<le> d" "before_month y m + d \<le> year_length y"
  shows "\<exists>m' d'. skip_months False y m d = Ok (y, m', d') \<and> before_month y m' + d' = before_month y m + d \<and>
    1 \<le> m' \<and> m' \<le> 12 \<and> d' \<le> month_length y m' \<and> (d = 0 \<and> m' = m \<or> 1 \<le> d')"
  using assms
proof (induction "False" y m d rule: skip_months.induct)
  case (1 y m d)
  show ?case
  proof (cases "month_length y m < d")
    case True
    have m: "m < 12" using True "1.prems" before_month_12[of y] by (cases "m = 12") (auto simp: month_length_def)
    then have step: "step_month False y m = Ok (y, m + 1)" using "1.prems" by (simp add: step_month_def)
    obtain m' d' where
      "skip_months False y (m + 1) (d - month_length y m) = Ok (y, m', d')" "before_month y m' + d' = before_month y m + d"
      "1 \<le> m'" "m' \<le> 12" "d' \<le> month_length y m'" "1 \<le> d'"
      using "1.hyps"[OF get_days_in_month_eq True step] "1.prems" True m by (auto simp: before_month_Suc)
    then show ?thesis
      using "1.prems" True step by (simp add: skip_months.simps[of False y m] get_days_in_month_eq)
  next
    case False
    then show ?thesis using "1.prems" by (auto simp: skip_months.simps[of False y m] get_days_in_month_eq)
  qed
qed


lemma mod_century: "0 \<le> y \<Longrightarrow> y < 2 ^ 64 \<Longrightarrow> y mod 2 ^ 64 mod 100 = y mod (100 :: int)"
  by simp

definition after_date :: "nat \<Rightarrow> int \<times> int \<times> int \<Rightarrow> int \<times> int \<times> int" where
  "after_date n x = (next_date ^^ n) x"

lemma align_forward:
  assumes y: "0 \<le> y" "y < 9900" and d: "0 \<le> d"
  obtains y' d' where "align_century (nat (100 - y mod 100)) False y d = Ok (y', d')"
    "before_year y' + d' = before_year y + d" "0 \<le> d'" "0 \<le> y'" "y' \<le> 9900" "d' < year_length y' \<or> 100 dvd y'"
proof -
  have k: "int (nat (100 - y mod 100)) = 100 - y mod 100" by simp
  have c: "100 dvd y + (100 - y mod 100)" by presburger
  have "y + (100 - y mod 100) \<le> 9900" using y by presburger
  then show thesis
    using that align_century_forward[of y "nat (100 - y mod 100)" d] y d c unfolding k by force
qed

lemma skip_centuries_near:
  assumes "0 \<le> y" "y < 10000" "d < year_length y"
  shows "skip_centuries False y d = Ok (y, d)"
proof -
  obtain c where "get_days_in_century y = Ok c" "36524 \<le> c" using get_days_in_century_ge assms by blast
  then show ?thesis using assms year_length_bounds(2)[of y] by (simp add: skip_centuries.simps[of False y])
qed

lemma skip_centuries_within:
  assumes "0 \<le> y" "y < 10000" "d < year_length y \<or> 100 dvd y" "0 \<le> d" "before_year y + d \<le> before_year 10000"
  shows "\<exists>y' d'. skip_centuries False y d = Ok (y', d') \<and> before_year y' + d' = before_year y + d \<and>
    0 \<le> d' \<and> 0 \<le> y' \<and> y' < 10000"
  using assms skip_centuries_near[of y d] skip_centuries_forward[of y d] by fastforce

lemma year_start_within: "y < 10000 \<Longrightarrow> d < year_length y \<Longrightarrow> before_year y + d \<le> before_year 10000"
  using before_year_mono[of y 10000] by simp

lemma date_values_forward:
  assumes y: "0 \<le> y" "y < 9900" and d: "0 \<le> n" "n < 2 ^ 63 - 1"
  shows "if before_year y + (n + 1) \<le> before_year 10000
    then \<exists>x. get_date_values n \<lparr>ep_year = y, ep_month = 1, ep_day_of_month = 1\<rparr> = Ok x \<and> valid_date x \<and>
           ordinal x = before_year y + (n + 1)
    else get_date_values n \<lparr>ep_year = y, ep_month = 1, ep_day_of_month = 1\<rparr> = Err (Panic Index_out_of_bounds)"
proof -
  obtain y1 d1 where al: "align_century (nat (100 - y mod 100)) False y (n + 1) = Ok (y1, d1)"
    "before_year y1 + d1 = before_year y + (n + 1)" "0 \<le> d1" "0 \<le> y1" "y1 \<le> 9900" "d1 < year_length y1 \<or> 100 dvd y1"
    using align_forward[of y "n + 1"] y d by auto
  note unf = get_date_values_def add_i64_def align_year_start.simps[of False y 1] mod_century
  show ?thesis
  proof (cases "before_year y + (n + 1) \<le> before_year 10000")
    case True
    obtain y2 d2 where sc: "skip_centuries False y1 d1 = Ok (y2, d2)" "before_year y2 + d2 = before_year y + (n + 1)"
      "0 \<le> d2" "0 \<le> y2" "y2 < 10000"
      using skip_centuries_within[of y1 d1] al True by auto
    obtain y3 d3 where sy: "skip_years False y2 d2 = Ok (y3, d3)" "before_year y3 + d3 = before_year y + (n + 1)"
      "0 \<le> d3" "d3 \<le> year_length y3" "0 \<le> y3" "y3 < 10000"
      using skip_years_forward[of y2 d2] sc True by auto
    obtain m d4 where sm: "skip_months False y3 1 d3 = Ok (y3, m, d4)" "before_month y3 m + d4 = d3"
      "1 \<le> m" "m \<le> 12" "d4 \<le> month_length y3 m" "d3 = 0 \<and> m = 1 \<or> 1 \<le> d4"
      using skip_months_forward[of 1 d3 y3] sy by auto
    have ml: "d4 < 256" using sm(5) month_length_pos(2)[of y3 m] by simp
    show ?thesis
    proof (cases "d4 = 0")
      case True': True
      then have d3: "d3 = 0" "m = 1" using sm by auto
      have "get_date_values n \<lparr>ep_year = y, ep_month = 1, ep_day_of_month = 1\<rparr> = Ok (y3 - 1, 12, 31)"
        using d y al sc sy sm True' by (simp add: unf add_i16_def)
      moreover have "ordinal (y3 - 1, 12, 31) = before_year y3"
        using before_year_Suc[of "y3 - 1"] before_month_12[of "y3 - 1"] by (simp add: ordinal_def)
      ultimately show ?thesis using True d3 sy(2) by (simp add: valid_date_def month_length_def)
    next
      case False
      then have d4: "1 \<le> d4" using sm by auto
      have "get_date_values n \<lparr>ep_year = y, ep_month = 1, ep_day_of_month = 1\<rparr> = Ok (y3, m, d4)"
        using d y al sc sy sm False d4 ml by (simp add: unf)
      then show ?thesis using True sy(2) sm d4 by (simp add: valid_date_def ordinal_def)
    qed
  next
    case False
    then have "100 dvd y1" using al year_start_within[of y1 d1] by auto
    then have "skip_centuries False y1 d1 = Err (Panic Index_out_of_bounds)"
      using skip_centuries_end[of y1 d1] al False by simp
    then show ?thesis using d y al(1) False by (simp add: unf)
  qed
qed

lemma date_values_year:
  assumes y: "0 \<le> y" "y < 9900" and n: "int n < 2 ^ 63 - 1"
  shows "get_date_values (int n) \<lparr>ep_year = y, ep_month = 1, ep_day_of_month = 1\<rparr> =
    (if before_year y + int n < before_year 10000 then Ok (after_date n (y, 1, 1)) else Err (Panic Index_out_of_bounds))"
proof -
  have v: "valid_date (y, 1, 1)" by (simp add: valid_date_def month_length_def)
  have eq: "x = after_date n (y, 1, 1)" if "valid_date x" "ordinal x = before_year y + (int n + 1)" for x
    using next_date_iterate_eq[OF v that(1), of n] that(2) by (simp add: after_date_def ordinal_def)
  show ?thesis using date_values_forward[of y "int n"] y n eq by (auto split: if_splits)
qed

lemma year_below: "valid_date (y, m, d) \<Longrightarrow> y < 10000 \<longleftrightarrow> ordinal (y, m, d) \<le> before_year 10000"
  using day_in_year[of y m d] before_year_mono[of y 10000] before_year_mono[of 10000 y]
  year_length_bounds(1)[of 10000]
  by (cases y "10000 :: int" rule: linorder_cases) (auto simp: ordinal_def)

text \<open>
  (C28) From an epoch on the first of January of a year \<open>y\<close> from 0 to 9899, the date of a number of days that is not
  negative and below \<open>2 ^ 63 - 1\<close> is the date reached by that many steps of the Gregorian calendar when its year
  is below 10000; for every later day the conversion panics, on the lookup tables that end at year 9999.  From an epoch
  year of 9900 on, which the claim leaves out, the table of centuries already panics on dates before the year 10000.
\<close>

theorem date_values_exact:
  assumes "0 \<le> y" "y < 9900" "int n < 2 ^ 63 - 1"
  shows "get_date_values (int n) \<lparr>ep_year = y, ep_month = 1, ep_day_of_month = 1\<rparr> =
    (if fst (after_date n (y, 1, 1)) < 10000 then Ok (after_date n (y, 1, 1)) else Err (Panic Index_out_of_bounds))"
proof -
  have v: "valid_date (y, 1, 1)" by (simp add: valid_date_def month_length_def)
  obtain y' m' d' where a: "after_date n (y, 1, 1) = (y', m', d')" by (cases "after_date n (y, 1, 1)")
  then have "valid_date (y', m', d')" "ordinal (y', m', d') = before_year y + int n + 1"
    using ordinal_iterate[OF v, of n] by (simp_all add: after_date_def ordinal_def)
  then show ?thesis using date_values_year[OF assms] year_below[of y' m' d'] by (simp add: a)
qed

theorem date_values_exact_witness:
  "get_date_values (int 100) \<lparr>ep_year = 2000, ep_month = 1, ep_day_of_month = 1\<rparr> = Ok (2000, 4, 10)"
proof -
  have "after_date 100 (2000, 1, 1) = (2000, 4, 10)" by (code_simp)
  then show ?thesis using date_values_exact[of 2000 100] by simp
qed

end
