(* ===== verification/Timestamps.thy ===== *)
theory Timestamps
  imports Calendar
begin

text \<open>
  The timestamps of \<open>keramics-datetime/src\<close> (FILETIME, HFS, POSIX and FAT) with their ISO 8601 strings,
  and the timestamps of a bodyfile (\<open>keramics-tools/src/bodyfile.rs\<close>).  A FILETIME or HFS timestamp is shown
  to be the date of the calendar; the FAT dates are converted to seconds with a constant error for
  each month.
\<close>

section \<open>Timestamps\<close>

text \<open>\<open>format!\<close> with \<open>{:0w}\<close>: the sign counts for the width.\<close>

definition format_dec :: "nat \<Rightarrow> int \<Rightarrow> str" where
  "format_dec w n =
     (let digits = decimal_digits (nat \<bar>n\<bar>); sign = (if n < 0 then lit ''-'' else [])
      in sign @ replicate (w - length sign - length digits) 48 @ digits)"

definition iso_date :: "int \<times> int \<times> int \<Rightarrow> str" where
  "iso_date = (\<lambda>(year, month, day_of_month).
     format_dec 4 year @ lit ''-'' @ format_dec 2 month @ lit ''-'' @ format_dec 2 day_of_month)"

definition iso_time :: "int \<times> int \<times> int \<Rightarrow> str" where
  "iso_time = (\<lambda>(hours, minutes, seconds).
     lit ''T'' @ format_dec 2 hours @ lit '':'' @ format_dec 2 minutes @ lit '':'' @ format_dec 2 seconds)"

text \<open>\<open>bytes_to_i32_le!\<close> and \<open>bytes_to_i32_be!\<close> read the two's complement of the unsigned value.\<close>

definition i32_of :: "nat \<Rightarrow> int" where
  "i32_of n = (if n < 2 ^ 31 then int n else int n - 2 ^ 32)"

subsection \<open>Dates since an epoch (filetime.rs, hfs.rs, posix.rs)\<close>

record Filetime =
  ft_timestamp :: nat

definition filetime_epoch :: Epoch where
  "filetime_epoch = \<lparr>ep_year = 1601, ep_month = 1, ep_day_of_month = 1\<rparr>"

definition filetime_from_bytes :: "byte list \<Rightarrow> Filetime result" where
  "filetime_from_bytes data =
     (if length data < 8 then Err (Panic Index_out_of_bounds)
      else Ok \<lparr>ft_timestamp = (push_bit 32 (u32_le 4 data)) OR u32_le 0 data\<rparr>)"

definition filetime_to_iso8601_string :: "Filetime \<Rightarrow> str result" where
  "filetime_to_iso8601_string t =
     (let fraction = ft_timestamp t mod 10000000; number_of_seconds = ft_timestamp t div 10000000;
          (days, hours, minutes, seconds) = get_time_values (int number_of_seconds)
      in and_then (get_date_values days filetime_epoch) (\<lambda>date.
           Ok (iso_date date @ iso_time (hours, minutes, seconds) @ lit ''.'' @ format_dec 7 (int fraction))))"

definition filetime_display :: "Filetime \<Rightarrow> str result" where
  "filetime_display t =
     and_then (filetime_to_iso8601_string t) (\<lambda>s.
       Ok (s @ lit '' (0x'' @ format_hex 8 (drop_bit 32 (ft_timestamp t)) @ lit '':0x'' @
           format_hex 8 (ft_timestamp t AND 0xffffffff) @ lit '')''))"

record HfsTime =
  hfs_timestamp :: nat

definition hfs_epoch :: Epoch where
  "hfs_epoch = \<lparr>ep_year = 1904, ep_month = 1, ep_day_of_month = 1\<rparr>"

definition hfs_from_be_bytes :: "byte list \<Rightarrow> HfsTime result" where
  "hfs_from_be_bytes data =
     (if length data < 4 then Err (Panic Index_out_of_bounds) else Ok \<lparr>hfs_timestamp = u32_be 0 data\<rparr>)"

definition hfs_from_le_bytes :: "byte list \<Rightarrow> HfsTime result" where
  "hfs_from_le_bytes data =
     (if length data < 4 then Err (Panic Index_out_of_bounds) else Ok \<lparr>hfs_timestamp = u32_le 0 data\<rparr>)"

definition hfs_to_iso8601_string :: "HfsTime \<Rightarrow> str result" where
  "hfs_to_iso8601_string t =
     (let (days, hours, minutes, seconds) = get_time_values (int (hfs_timestamp t))
      in and_then (get_date_values days hfs_epoch) (\<lambda>date. Ok (iso_date date @ iso_time (hours, minutes, seconds))))"

definition hfs_display :: "HfsTime \<Rightarrow> str result" where
  "hfs_display t =
     and_then (hfs_to_iso8601_string t) (\<lambda>s. Ok (s @ lit '' ('' @ format_dec 0 (int (hfs_timestamp t)) @ lit '')''))"

record PosixTime32 =
  p32_timestamp :: int

record PosixTime64Ns =
  p64_timestamp :: int
  p64_fraction :: nat

definition posix_epoch :: Epoch where
  "posix_epoch = \<lparr>ep_year = 1970, ep_month = 1, ep_day_of_month = 1\<rparr>"

definition posix32_from_be_bytes :: "byte list \<Rightarrow> PosixTime32 result" where
  "posix32_from_be_bytes data =
     (if length data < 4 then Err (Panic Index_out_of_bounds) else Ok \<lparr>p32_timestamp = i32_of (u32_be 0 data)\<rparr>)"

definition posix32_from_le_bytes :: "byte list \<Rightarrow> PosixTime32 result" where
  "posix32_from_le_bytes data =
     (if length data < 4 then Err (Panic Index_out_of_bounds) else Ok \<lparr>p32_timestamp = i32_of (u32_le 0 data)\<rparr>)"

definition posix32_to_iso8601_string :: "PosixTime32 \<Rightarrow> str result" where
  "posix32_to_iso8601_string t =
     (let (days, hours, minutes, seconds) = get_time_values (p32_timestamp t)
      in and_then (get_date_values days posix_epoch) (\<lambda>date. Ok (iso_date date @ iso_time (hours, minutes, seconds))))"

definition posix32_display :: "PosixTime32 \<Rightarrow> str result" where
  "posix32_display t =
     and_then (posix32_to_iso8601_string t) (\<lambda>s. Ok (s @ lit '' ('' @ format_dec 0 (p32_timestamp t) @ lit '')''))"

definition posix64_to_iso8601_string :: "PosixTime64Ns \<Rightarrow> str result" where
  "posix64_to_iso8601_string t =
     (let (days, hours, minutes, seconds) = get_time_values (p64_timestamp t)
      in and_then (get_date_values days posix_epoch) (\<lambda>date.
           Ok (iso_date date @ iso_time (hours, minutes, seconds) @ lit ''.'' @ format_dec 9 (int (p64_fraction t)))))"

definition posix64_display :: "PosixTime64Ns \<Rightarrow> str result" where
  "posix64_display t =
     and_then (posix64_to_iso8601_string t) (\<lambda>s.
       Ok (s @ lit '' ('' @ format_dec 0 (p64_timestamp t) @ lit ''.'' @ format_dec 0 (int (p64_fraction t)) @ lit '')''))"

subsection \<open>Packed dates (fat.rs)\<close>

definition fat_get_date_values :: "nat \<Rightarrow> int \<times> int \<times> int" where
  "fat_get_date_values date =
     (1980 + int (drop_bit 9 date AND 0x007f), int (drop_bit 5 date AND 0x000f), int (date AND 0x001f))"

definition fat_get_time_values :: "nat \<Rightarrow> int \<times> int \<times> int" where
  "fat_get_time_values time =
     (int (drop_bit 11 time AND 0x001f), int (drop_bit 5 time AND 0x003f), int ((time AND 0x001f) * 2))"

definition fat_get_time_values_with_fraction :: "nat \<Rightarrow> nat \<Rightarrow> int \<times> int \<times> int \<times> int" where
  "fat_get_time_values_with_fraction time fraction =
     (let (hours, minutes, seconds) = fat_get_time_values time;
          milliseconds = seconds * 100 + int fraction
      in (hours, minutes, milliseconds div 100, milliseconds mod 100))"

definition mul_u32 :: "nat \<Rightarrow> nat \<Rightarrow> nat result" where
  "mul_u32 a b = ok_or (Panic Arithmetic_overflow) (checked_mul_u32 a b)"

text \<open>The two loops of \<open>fat_get_number_of_seconds\<close>: the months down to January, the years down to 1981.\<close>

fun fat_add_months :: "int \<Rightarrow> nat \<Rightarrow> nat \<Rightarrow> nat result" where
  "fat_add_months year 0 number_of_seconds = Ok number_of_seconds"
| "fat_add_months year (Suc m) number_of_seconds =
     and_then (get_days_in_month year (int (Suc m))) (\<lambda>days.
     and_then (add_u32 number_of_seconds (nat days)) (\<lambda>number_of_seconds.
       fat_add_months year m number_of_seconds))"

fun fat_add_years :: "nat \<Rightarrow> nat \<Rightarrow> nat result" where
  "fat_add_years 0 number_of_seconds = Ok number_of_seconds"
| "fat_add_years (Suc k) number_of_seconds =
     and_then (get_days_in_year (1980 + int (Suc k))) (\<lambda>days.
     and_then (add_u32 number_of_seconds (nat days)) (\<lambda>number_of_seconds.
       fat_add_years k number_of_seconds))"

definition fat_get_number_of_seconds :: "nat \<Rightarrow> nat \<Rightarrow> nat result" where
  "fat_get_number_of_seconds date time =
     (let (year, month, day_of_month) = fat_get_date_values date;
          (hours, minutes, seconds) = fat_get_time_values time
      in and_then (fat_add_months year (nat month) (nat day_of_month)) (\<lambda>number_of_seconds.
         and_then (fat_add_years (nat (year - 1980)) number_of_seconds) (\<lambda>number_of_seconds.
         and_then (mul_u32 number_of_seconds 24) (\<lambda>n.
         and_then (add_u32 n (nat hours)) (\<lambda>number_of_seconds.
         and_then (mul_u32 number_of_seconds 60) (\<lambda>n.
         and_then (add_u32 n (nat minutes)) (\<lambda>number_of_seconds.
         and_then (mul_u32 number_of_seconds 60) (\<lambda>n.
           add_u32 n (nat seconds)))))))))"

definition fat_get_number_of_seconds_with_fraction :: "nat \<Rightarrow> nat \<Rightarrow> nat \<Rightarrow> (nat \<times> nat) result" where
  "fat_get_number_of_seconds_with_fraction date time fraction =
     and_then (fat_get_number_of_seconds date time) (\<lambda>seconds.
       let milliseconds = seconds * 100 + fraction
       in Ok (milliseconds div 100 mod u32_limit, milliseconds mod 100))"

record FatDate =
  fd_date :: nat

record FatTimeDate =
  ftd_date :: nat
  ftd_time :: nat

record FatTimeDate10Ms =
  ftm_date :: nat
  ftm_time :: nat
  ftm_fraction :: nat

definition fat_date_from_bytes :: "byte list \<Rightarrow> FatDate result" where
  "fat_date_from_bytes data =
     (if length data < 2 then Err (Panic Index_out_of_bounds) else Ok \<lparr>fd_date = u16_le 0 data\<rparr>)"

definition fat_time_date_from_bytes :: "byte list \<Rightarrow> FatTimeDate result" where
  "fat_time_date_from_bytes data =
     (if length data < 4 then Err (Panic Index_out_of_bounds)
      else Ok \<lparr>ftd_date = u16_le 2 data, ftd_time = u16_le 0 data\<rparr>)"

definition fat_time_date_10ms_from_bytes :: "byte list \<Rightarrow> FatTimeDate10Ms result" where
  "fat_time_date_10ms_from_bytes data =
     (if length data < 5 then Err (Panic Index_out_of_bounds)
      else Ok \<lparr>ftm_date = u16_le 3 data, ftm_time = u16_le 1 data, ftm_fraction = unat (data ! 0)\<rparr>)"

definition fat_date_get_number_of_seconds :: "FatDate \<Rightarrow> nat result" where
  "fat_date_get_number_of_seconds t = fat_get_number_of_seconds (fd_date t) 0"

definition fat_time_date_get_number_of_seconds :: "FatTimeDate \<Rightarrow> nat result" where
  "fat_time_date_get_number_of_seconds t = fat_get_number_of_seconds (ftd_date t) (ftd_time t)"

definition fat_time_date_10ms_get_number_of_seconds :: "FatTimeDate10Ms \<Rightarrow> (nat \<times> nat) result" where
  "fat_time_date_10ms_get_number_of_seconds t =
     fat_get_number_of_seconds_with_fraction (ftm_date t) (ftm_time t) (ftm_fraction t)"

definition fat_date_to_iso8601_string :: "FatDate \<Rightarrow> str" where
  "fat_date_to_iso8601_string t = iso_date (fat_get_date_values (fd_date t))"

definition fat_time_date_to_iso8601_string :: "FatTimeDate \<Rightarrow> str" where
  "fat_time_date_to_iso8601_string t =
     iso_date (fat_get_date_values (ftd_date t)) @ iso_time (fat_get_time_values (ftd_time t))"

definition fat_time_date_10ms_to_iso8601_string :: "FatTimeDate10Ms \<Rightarrow> str" where
  "fat_time_date_10ms_to_iso8601_string t =
     (let (hours, minutes, seconds, fraction) = fat_get_time_values_with_fraction (ftm_time t) (ftm_fraction t)
      in iso_date (fat_get_date_values (ftm_date t)) @ iso_time (hours, minutes, seconds) @ lit ''.'' @ format_dec 2 fraction)"

definition fat_date_display :: "FatDate \<Rightarrow> str" where
  "fat_date_display t = fat_date_to_iso8601_string t @ lit '' (0x'' @ format_hex 4 (fd_date t) @ lit '')''"

definition fat_time_date_display :: "FatTimeDate \<Rightarrow> str" where
  "fat_time_date_display t =
     fat_time_date_to_iso8601_string t @ lit '' (0x'' @ format_hex 4 (ftd_date t) @ lit '':0x'' @
     format_hex 4 (ftd_time t) @ lit '')''"

definition fat_time_date_10ms_display :: "FatTimeDate10Ms \<Rightarrow> str" where
  "fat_time_date_10ms_display t =
     fat_time_date_10ms_to_iso8601_string t @ lit '' (0x'' @ format_hex 4 (ftm_date t) @ lit '':0x'' @
     format_hex 4 (ftm_time t) @ lit '':0x'' @ format_hex 2 (ftm_fraction t) @ lit '')''"

section \<open>Timestamps of a bodyfile (keramics-tools/src/bodyfile.rs)\<close>

text \<open>\<open>FakeTime\<close> holds a time of the system clock, which no formatter supports.\<close>

datatype DateTime =
    FakeTime int
  | FatDate FatDate
  | FatTimeDate FatTimeDate
  | FatTimeDate10Ms FatTimeDate10Ms
  | Filetime Filetime
  | HfsTime HfsTime
  | NotSet
  | PosixTime32 PosixTime32
  | PosixTime64Ns PosixTime64Ns

definition posix_timestamp_1601 :: int where
  "posix_timestamp_1601 = - 11644473600"

definition posix_timestamp_1904 :: int where
  "posix_timestamp_1904 = - 2082844800"

definition posix_timestamp_1980 :: nat where
  "posix_timestamp_1980 = 315532800"

definition filetime_as_posix :: "nat \<Rightarrow> int \<times> nat" where
  "filetime_as_posix timestamp =
     (let number_of_seconds = timestamp div 10000000; fraction = timestamp mod 10000000;
          (number_of_seconds, fraction) =
            (if number_of_seconds < 11644473600 \<and> 0 < fraction then (number_of_seconds + 1, 10000000 - fraction)
             else (number_of_seconds, fraction))
      in (posix_timestamp_1601 + int number_of_seconds, fraction))"

definition format_as_timestamp :: "DateTime option \<Rightarrow> str result" where
  "format_as_timestamp date_time =
     (case date_time of
        None \<Rightarrow> Ok []
      | Some (FatDate t) \<Rightarrow>
          and_then (fat_date_get_number_of_seconds t) (\<lambda>n.
          and_then (add_u32 posix_timestamp_1980 n) (\<lambda>n. Ok (format_dec 0 (int n))))
      | Some (FatTimeDate t) \<Rightarrow>
          and_then (fat_time_date_get_number_of_seconds t) (\<lambda>n.
          and_then (add_u32 posix_timestamp_1980 n) (\<lambda>n. Ok (format_dec 0 (int n))))
      | Some (FatTimeDate10Ms t) \<Rightarrow>
          and_then (fat_time_date_10ms_get_number_of_seconds t) (\<lambda>(n, fraction).
          and_then (add_u32 posix_timestamp_1980 n) (\<lambda>n.
            Ok (format_dec 0 (int n) @ lit ''.'' @ format_dec 2 (int fraction))))
      | Some (Filetime t) \<Rightarrow>
          (let (posix_time, fraction) = filetime_as_posix (ft_timestamp t)
           in Ok (format_dec 0 posix_time @ lit ''.'' @ format_dec 7 (int fraction)))
      | Some (HfsTime t) \<Rightarrow> Ok (format_dec 0 (posix_timestamp_1904 + int (hfs_timestamp t)))
      | Some NotSet \<Rightarrow> Ok []
      | Some (PosixTime32 t) \<Rightarrow> Ok (format_dec 0 (p32_timestamp t))
      | Some (PosixTime64Ns t) \<Rightarrow>
          Ok (format_dec 0 (p64_timestamp t) @ lit ''.'' @ format_dec 9 (int (p64_fraction t)))
      | Some (FakeTime _) \<Rightarrow> Err (Tool_error Unsupported_date_time))"

section \<open>The timestamps show the calendar\<close>

lemma time_values_split:
  assumes "get_time_values n = (days, hours, minutes, seconds)"
  shows "n = ((days * 24 + hours) * 60 + minutes) * 60 + seconds \<and>
    0 \<le> hours \<and> hours < 24 \<and> 0 \<le> minutes \<and> minutes < 60 \<and> 0 \<le> seconds \<and> seconds < 60"
proof -
  define a where "a = n div 60"
  define b where "b = a div 60"
  have v: "seconds = n mod 60" "minutes = a mod 60" "hours = b mod 24" "days = b div 24"
    using assms by (simp_all add: get_time_values_def Let_def a_def b_def)
  have "n = a * 60 + seconds" "a = b * 60 + minutes" "b = days * 24 + hours"
    by (simp_all only: a_def b_def v div_mult_mod_eq)
  moreover have "0 \<le> hours" "hours < 24" "0 \<le> minutes" "minutes < 60" "0 \<le> seconds" "seconds < 60" by (simp_all add: v)
  ultimately show ?thesis by simp
qed

lemmas ordinal_simps = valid_date_def ordinal_def before_year_def div_up_def before_month_def month_length_def
  is_leap_year_def

lemma before_year_values:
  "before_year 10000 = 3652425" "before_year 1601 = 584754" "before_year 1904 = 695421" "before_year 1970 = 719528"
  "before_year 1981 = 723546" "before_year 2108 = 769931"
  by (simp_all add: before_year_def div_up_def)

definition day_time :: "nat \<Rightarrow> int \<times> int \<times> int" where
  "day_time s = (int (s div 3600 mod 24), int (s div 60 mod 60), int (s mod 60))"

lemma time_values_day_time: "get_time_values (int s) = (int (s div 86400), day_time s)"
proof -
  have d: "int s div 60 = int (s div 60)" "int (s div 60) div 60 = int (s div 60 div 60)"
    "int (s div 3600) div 24 = int (s div 86400)"
    by (simp_all add: zdiv_int zdiv_zmult2_eq [symmetric])
  have m: "int s mod 60 = int (s mod 60)" "int (s div 60) mod 60 = int (s div 60 mod 60)"
    "int (s div 3600) mod 24 = int (s div 3600 mod 24)" by (simp_all add: zmod_int)
  have h: "s div 60 div 60 = s div 3600" by (simp add: div_mult2_eq [symmetric])
  show ?thesis by (simp only: get_time_values_def day_time_def Let_def d m h)
qed

text \<open>
  (C29) A FILETIME shows the Gregorian date and the time of day that many 100 nanoseconds after
  1601-01-01; every value from 10000-01-01 on panics, among them the largest positive
  value, which stands for \<open>never\<close>.
\<close>

theorem filetime_iso_exact:
  "ft_timestamp t < 2 ^ 64 \<Longrightarrow>
   filetime_to_iso8601_string t =
     (if ft_timestamp t < 2650467744000000000
      then Ok (iso_date (after_date (ft_timestamp t div 864000000000) (1601, 1, 1)) @
               iso_time (day_time (ft_timestamp t div 10000000)) @ lit ''.'' @
               format_dec 7 (int (ft_timestamp t mod 10000000)))
      else Err (Panic Index_out_of_bounds))"
proof -
  assume t: "ft_timestamp t < 2 ^ 64"
  define n where "n = ft_timestamp t div 864000000000"
  have n: "ft_timestamp t div 10000000 div 86400 = n" by (simp add: n_def div_mult2_eq [symmetric])
  have "n < 3067671 \<longleftrightarrow> ft_timestamp t < 2650467744000000000" by (auto simp: n_def div_less_iff_less_mult)
  moreover have "int n < 2 ^ 63 - 1" using t by (simp add: n_def div_less_iff_less_mult)
  ultimately have "get_date_values (int n) filetime_epoch =
    (if ft_timestamp t < 2650467744000000000 then Ok (after_date n (1601, 1, 1)) else Err (Panic Index_out_of_bounds))"
    using date_values_year[of 1601 n] by (auto simp: filetime_epoch_def before_year_values)
  then show ?thesis
    by (simp add: filetime_to_iso8601_string_def time_values_day_time n Let_def case_prod_beta n_def [symmetric])
qed

theorem filetime_iso_exact_witness:
  "filetime_to_iso8601_string \<lparr>ft_timestamp = 0x7fffffffffffffff\<rparr> = Err (Panic Index_out_of_bounds)"
  using filetime_iso_exact[of "\<lparr>ft_timestamp = 0x7fffffffffffffff\<rparr>"] by simp

text \<open>
  Every HFS timestamp shows the Gregorian date and the time of day that many seconds after 1904-01-01.
\<close>

theorem hfs_iso_exact:
  assumes "hfs_timestamp t < u32_limit"
  shows "hfs_to_iso8601_string t =
    Ok (iso_date (after_date (hfs_timestamp t div 86400) (1904, 1, 1)) @ iso_time (day_time (hfs_timestamp t)))"
proof -
  have "hfs_timestamp t div 86400 < 49711" using assms by (simp add: u32_limit_def div_less_iff_less_mult)
  then show ?thesis
    using date_values_year[of 1904 "hfs_timestamp t div 86400"]
    by (simp add: hfs_to_iso8601_string_def hfs_epoch_def time_values_day_time Let_def case_prod_beta before_year_values)
qed

theorem hfs_iso_exact_witness:
  "hfs_to_iso8601_string \<lparr>hfs_timestamp = 2 ^ 32 - 1\<rparr> = Ok (lit ''2040-02-06T06:28:15'')"
proof -
  have "after_date 49710 (1904, 1, 1) = (2040, 2, 6)"
    unfolding after_date_def by (rule next_date_iterate_eq; simp add: ordinal_simps)
  moreover have "day_time 4294967295 = (6, 28, 15)" by (simp add: day_time_def)
  moreover have "iso_date (2040, 2, 6) @ iso_time (6, 28, 15) = lit ''2040-02-06T06:28:15''" by code_simp
  ultimately show ?thesis using hfs_iso_exact[of "\<lparr>hfs_timestamp = 2 ^ 32 - 1\<rparr>"] by (simp add: u32_limit_def)
qed

lemma get_days_in_year_code [code]:
  "get_days_in_year y = (if y = 10000 then Err (Panic Index_out_of_bounds) else Ok (year_length y))"
  by (auto simp: get_days_in_year_def days_in_year_table_def get_index_def ok_or_def year_length_def)

text \<open>
  Days before the epoch: the loops that count backwards do not arrive at the dates of the calendar.
  The last day of 1968 becomes the day 0 of January 1969, and the last day of January 1968 the day before it.
\<close>

theorem date_values_before_epoch:
  "get_date_values (- 366) posix_epoch = Ok (1969, 1, 0) \<and> after_date 366 (1968, 12, 31) = (1970, 1, 1) \<and>
   get_date_values (- 701) posix_epoch = Ok (1968, 1, 30) \<and> after_date 701 (1968, 1, 31) = (1970, 1, 1)"
proof (intro conjI)
  show "after_date 366 (1968, 12, 31) = (1970, 1, 1)" "after_date 701 (1968, 1, 31) = (1970, 1, 1)"
    unfolding after_date_def by (rule next_date_iterate_eq; simp add: ordinal_simps)+
  show "get_date_values (- 366) posix_epoch = Ok (1969, 1, 0)" by code_simp
  show "get_date_values (- 701) posix_epoch = Ok (1968, 1, 30)" by code_simp
qed


subsection \<open>FAT dates\<close>

lemma field_mod:
  "x AND 0x1f = x mod 32" "x AND 0x3f = x mod 64" "x AND 0x7f = x mod 128" "x AND 0x0f = x mod (16 :: nat)"
  using take_bit_eq_mask[of 5 x] take_bit_eq_mask[of 6 x] take_bit_eq_mask[of 7 x] take_bit_eq_mask[of 4 x]
  by (simp_all add: mask_eq_exp_minus_1 take_bit_eq_mod)

lemma fat_date_bounds:
  assumes "fat_get_date_values date = (y, m, d)"
  shows "1980 \<le> y" "y \<le> 2107"
proof -
  have "y = 1980 + int (drop_bit 9 date mod 128)" using assms by (simp add: fat_get_date_values_def field_mod)
  then show "1980 \<le> y" "y \<le> 2107" using mod_less_divisor[of 128 "drop_bit 9 date"] by linarith+
qed

lemma fat_time_bounds:
  assumes "fat_get_time_values time = (hours, minutes, seconds)"
  shows "0 \<le> hours" "hours \<le> 31" "0 \<le> minutes" "minutes \<le> 63" "0 \<le> seconds" "seconds \<le> 62"
proof -
  have "hours = int (drop_bit 11 time mod 32)" "minutes = int (drop_bit 5 time mod 64)" "seconds = int (time mod 32) * 2"
    using assms by (simp_all add: fat_get_time_values_def field_mod)
  then show "0 \<le> hours" "hours \<le> 31" "0 \<le> minutes" "minutes \<le> 63" "0 \<le> seconds" "seconds \<le> 62"
    using mod_less_divisor[of 32 "drop_bit 11 time"] mod_less_divisor[of 64 "drop_bit 5 time"] mod_less_divisor[of 32 time]
    by linarith+
qed

definition through_month :: "int \<Rightarrow> nat \<Rightarrow> int" where
  "through_month y m = (if m = 0 then 0 else before_month y (int m) + month_length y (int m))"

lemma through_month_Suc: "m < 12 \<Longrightarrow> through_month y (Suc m) = through_month y m + month_length y (int (Suc m))"
  using before_month_Suc[of "int m" y] by (auto simp: through_month_def add.commute[of 1])

lemma through_month_nonneg: "m \<le> 12 \<Longrightarrow> 0 \<le> through_month y m"
proof (induction m)
  case (Suc m)
  then show ?case using month_length_pos(1)[of y "int (Suc m)"] by (simp add: through_month_Suc)
qed (simp add: through_month_def)

lemma fat_add_months_eq:
  assumes "m \<le> 12" "n + 31 * m < u32_limit"
  shows "fat_add_months y m n = Ok (n + nat (through_month y m))"
  using assms
proof (induction m arbitrary: n)
  case (Suc m)
  let ?l = "month_length y (int (Suc m))"
  have l: "nat ?l \<le> 31" using month_length_pos(2)[of y "int (Suc m)"] by simp
  have "fat_add_months y m (n + nat ?l) = Ok (n + nat ?l + nat (through_month y m))" using Suc l by simp
  moreover have "n + nat ?l + nat (through_month y m) = n + nat (through_month y (Suc m))"
    using Suc.prems month_length_pos(1)[of y "int (Suc m)"] through_month_nonneg[of m y] by (simp add: through_month_Suc)
  ultimately show ?case
    using Suc.prems l by (simp add: get_days_in_month_eq add_u32_def del: of_nat_Suc)
qed (simp add: through_month_def)

lemma fat_add_years_eq:
  assumes "k \<le> 127" "n + 366 * k < u32_limit"
  shows "fat_add_years k n = Ok (n + nat (before_year (1981 + int k) - before_year 1981))"
  using assms
proof (induction k arbitrary: n)
  case (Suc k)
  let ?l = "year_length (1981 + int k)"
  have l: "365 \<le> ?l" "nat ?l \<le> 366" using year_length_bounds[of "1981 + int k"] by simp_all
  have "before_year 1981 \<le> before_year (1981 + int k)"
    using before_year_mono[of 1981 "1981 + int k"] year_length_bounds(1)[of 1981] by (cases "k = 0") auto
  then have "n + nat ?l + nat (before_year (1981 + int k) - before_year 1981) =
      n + nat (before_year (1981 + int (Suc k)) - before_year 1981)"
    using before_year_Suc[of "1981 + int k"] l by (simp add: add.commute)
  moreover have "fat_add_years k (n + nat ?l) = Ok (n + nat ?l + nat (before_year (1981 + int k) - before_year 1981))"
    using Suc l by simp
  ultimately show ?case using Suc.prems l by (simp add: get_days_in_year_eq add_u32_def)
qed simp

text \<open>
  (C30) The number of seconds of a FAT date: where the documentation promises the seconds since
  1980-01-01, the days of the current month are counted as if it were over, the day of the month
  from 1, and the length of the current year in place of that of 1980.  For every valid date the result
  is too large by the length of its month, and by one day more in a leap year.
\<close>

theorem fat_seconds_offset:
  assumes "date < u16_limit" "time < u16_limit" "fat_get_date_values date = (y, m, d)"
    "fat_get_time_values time = (hours, minutes, seconds)" "valid_date (y, m, d)"
  shows "fat_get_number_of_seconds date time =
    Ok (nat ((ordinal (y, m, d) - ordinal (1980, 1, 1)) * 86400 + hours * 3600 + minutes * 60 + seconds +
             86400 * (month_length y m + year_length y - 365)))"
proof -
  have y: "1980 \<le> y" "y \<le> 2107" using fat_date_bounds[OF assms(3)] .
  have m: "1 \<le> m" "m \<le> 12" and d: "1 \<le> d" "d \<le> 31"
    using assms(5) month_length_pos(2)[of y m] by (simp_all add: valid_date_def)
  note t = fat_time_bounds[OF assms(4)]
  define M where "M = before_month y m + month_length y m"
  define Y where "Y = before_year (y + 1) - before_year 1981"
  have M: "0 \<le> M" "M \<le> 366"
    using day_in_year[of y m "month_length y m"] m month_length_pos(1)[of y m] year_length_bounds(2)[of y]
    by (simp_all add: M_def valid_date_def)
  have Y: "0 \<le> Y" "Y \<le> 46600"
    using before_year_mono[of 1981 "y + 1"] before_year_mono[of "y + 1" 2108] y
      year_length_bounds(1)[of 1981] year_length_bounds(1)[of "y + 1"] before_year_values(5,6)
    by (cases "y = 1980"; cases "y = 2107"; simp add: Y_def)+
  have S: "d + M + Y = ordinal (y, m, d) - ordinal (1980, 1, 1) + month_length y m + year_length y - 365"
    using before_year_Suc[of y] before_year_Suc[of 1980]
    by (simp add: M_def Y_def ordinal_def year_length_def[of 1980] is_leap_year_def[of 1980])
  obtain n where n: "d + M + Y = int n" using M Y d zero_le_imp_eq_int[of "d + M + Y"] by auto
  then have "n \<le> 46997" using M Y d by linarith
  note n = n this
  have "fat_add_months y (nat m) (nat d) = Ok (nat (d + M))"
    using fat_add_months_eq[of "nat m" "nat d" y] m d M
    by (simp add: u32_limit_def through_month_def M_def nat_add_distrib)
  moreover have "fat_add_years (nat (y - 1980)) (nat (d + M)) = Ok n"
  proof -
    have k: "1981 + int (nat (y - 1980)) = y + 1" and n': "nat (d + M) + nat Y = n" using y d M Y n by linarith+
    have "nat (y - 1980) \<le> 127" "nat (d + M) + 366 * nat (y - 1980) < u32_limit"
      using y d M by (simp_all add: u32_limit_def)
    then show ?thesis
      using fat_add_years_eq[of "nat (y - 1980)" "nat (d + M)"] n' unfolding k Y_def [symmetric] by simp
  qed
  moreover obtain h mi s where "hours = int h" "minutes = int mi" "seconds = int s"
    using t(1,3,5) zero_le_imp_eq_int by meson
  ultimately show ?thesis
    using t n S
    by (simp add: fat_get_number_of_seconds_def assms(3,4) mul_u32_def checked_mul_u32_def ok_or_def add_u32_def u32_limit_def)
qed


theorem fat_seconds_offset_witness:
  "fat_get_number_of_seconds 0x21 0 = Ok (32 * 86400) \<and> fat_get_date_values 0x21 = (1980, 1, 1)"
  using fat_seconds_offset[of "0x21" 0 1980 1 1 0 0 0]
  by (simp add: fat_get_date_values_def fat_get_time_values_def valid_date_def month_length_def year_length_def
      is_leap_year_def u16_limit_def drop_bit_eq_div field_mod)

subsection \<open>Bodyfile timestamps\<close>

text \<open>
  The POSIX time of a FILETIME in a bodyfile, a number of seconds and a fraction of ten million
  written after the sign of the seconds, is the time relative to 1970-01-01, except within the last second
  before 1970, where it has lost its sign.
\<close>

theorem filetime_posix_exact:
  "case filetime_as_posix timestamp of (seconds, fraction) \<Rightarrow>
     fraction < 10000000 \<and>
     (if seconds < 0 then seconds * 10000000 - int fraction = int timestamp - 116444736000000000
      else if 116444736000000000 \<le> timestamp then seconds * 10000000 + int fraction = int timestamp - 116444736000000000
      else seconds = 0 \<and> int fraction = 116444736000000000 - int timestamp)"
proof -
  define q r where "q = timestamp div 10000000" and "r = timestamp mod 10000000"
  have t: "timestamp = q * 10000000 + r" "r < 10000000" by (simp_all add: q_def r_def)
  show ?thesis
    unfolding filetime_as_posix_def Let_def q_def [symmetric] r_def [symmetric]
    using t(2) by (auto simp: posix_timestamp_1601_def t(1))
qed

end
