(* ===== verification/Adc.thy ===== *)
theory Adc
  imports Lz_Copy
begin

text \<open>
  ADC decompression (\<open>keramics-compression/src/adc.rs\<close>).  An operation is a run of literals, a match of 2
  bytes or a match of 3 bytes.  The decompressor accepts exactly the encodings of operations whose
  matches lie in the output, and writes their expansion.
\<close>

section \<open>The decompressor\<close>

text \<open>One round of the loop of \<open>AdcContext::decompress\<close>: the offsets and the buffer after an operation.\<close>

definition adc_match :: "byte list \<Rightarrow> nat \<Rightarrow> byte \<Rightarrow> (nat \<times> nat \<times> nat) result" where
  "adc_match data c oppcode =
     (if oppcode AND 0x40 \<noteq> 0 then
        and_then (sub_u64 (length data) c) (\<lambda>left.
          if left < 2 then Err (Compression_error Compressed_data_too_small)
          else Ok (unat ((oppcode AND 0x3f) + 4), u16_be c data, c + 2))
      else if length data \<le> c then Err (Compression_error Compressed_data_too_small)
      else Ok (unat (drop_bit 2 (oppcode AND 0x3f) + 3),
               push_bit 8 (unat (oppcode AND 0x03)) OR unat (data ! c), c + 1))"

definition adc_step :: "byte list \<Rightarrow> nat \<Rightarrow> nat \<Rightarrow> byte list \<Rightarrow> (nat \<times> nat \<times> byte list) result" where
  "adc_step data c u out =
     (if length data \<le> c then Err (Compression_error Compressed_data_too_small)
      else
        let oppcode = data ! c; c = c + 1 in
        if oppcode AND 0x80 \<noteq> 0 then
          let literal_size = unat ((oppcode AND 0x7f) + 1) in
          and_then (sub_u64 (length data) c) (\<lambda>left.
            if left < literal_size then Err (Compression_error Literal_exceeds_compressed_data)
            else and_then (sub_u64 (length out) u) (\<lambda>left.
              if left < literal_size then Err (Compression_error Literal_exceeds_uncompressed_data)
              else Ok (c + literal_size, u + literal_size, write_slice u (subslice c literal_size data) out)))
        else
          and_then (adc_match data c oppcode) (\<lambda>(match_size, distance, c).
            if u < 1 then Err (Compression_error Uncompressed_offset_out_of_bounds)
            else if u \<le> distance then Err (Compression_error Distance_exceeds_uncompressed_offset)
            else and_then (sub_u64 (length out) u) (\<lambda>left.
              if left < match_size then Err (Compression_error Match_exceeds_uncompressed_data)
              else and_then (copy_match match_size (u - distance - 1) u out) (\<lambda>out.
                Ok (c, u + match_size, out)))))"

lemma adc_match_progress: "adc_match data c oppcode = Ok (n, d, c') \<Longrightarrow> c < c' \<and> c' \<le> length data"
  by (auto simp: adc_match_def result_simps split: if_splits)

lemma adc_step_progress: "adc_step data c u out = Ok (c', u', out') \<Longrightarrow> c < c' \<and> c' \<le> length data"
  by (auto simp: adc_step_def result_simps Let_def dest!: adc_match_progress split: if_splits)

function adc_loop :: "byte list \<Rightarrow> nat \<Rightarrow> nat \<Rightarrow> byte list \<Rightarrow> (nat \<times> byte list) result" where
  "adc_loop data c u out =
     (if c < length data then
        if length out \<le> u then Ok (u, out)
        else and_then (adc_step data c u out) (\<lambda>(c, u, out). adc_loop data c u out)
      else Ok (u, out))"
  by pat_completeness auto
termination
  by (relation "measure (\<lambda>(data, c, _, _). length data - c)") (auto dest!: adc_step_progress)

declare adc_loop.simps [simp del]

record AdcContext =
  adc_uncompressed_data_size :: nat

definition adc_new :: AdcContext where
  "adc_new = \<lparr>adc_uncompressed_data_size = 0\<rparr>"

text \<open>The context after the call and the contents of the buffer; an error leaves the size of the context as it was.\<close>

definition adc_decompress :: "AdcContext \<Rightarrow> byte list \<Rightarrow> byte list \<Rightarrow> (AdcContext \<times> byte list) result" where
  "adc_decompress context compressed_data uncompressed_data =
     and_then (adc_loop compressed_data 0 0 uncompressed_data) (\<lambda>(uncompressed_data_offset, uncompressed_data).
       Ok (context\<lparr>adc_uncompressed_data_size := uncompressed_data_offset\<rparr>, uncompressed_data))"

section \<open>The format\<close>

datatype adc_op = Adc_literal "byte list" | Adc_short nat nat | Adc_long nat nat

fun adc_token :: "adc_op \<Rightarrow> lz_token" where
  "adc_token (Adc_literal bs) = Lz_literal bs"
| "adc_token (Adc_short d n) = Lz_match d n"
| "adc_token (Adc_long d n) = Lz_match d n"

text \<open>The sizes and distances an operation can have after an output of a given size.\<close>

fun adc_valid :: "nat \<Rightarrow> adc_op \<Rightarrow> bool" where
  "adc_valid size_so_far (Adc_literal bs) \<longleftrightarrow> 1 \<le> length bs \<and> length bs \<le> 128"
| "adc_valid size_so_far (Adc_short d n) \<longleftrightarrow> 1 \<le> d \<and> d \<le> 1024 \<and> d \<le> size_so_far \<and> 3 \<le> n \<and> n \<le> 18"
| "adc_valid size_so_far (Adc_long d n) \<longleftrightarrow> 1 \<le> d \<and> d \<le> 65536 \<and> d \<le> size_so_far \<and> 4 \<le> n \<and> n \<le> 67"

fun adc_encode :: "adc_op \<Rightarrow> byte list" where
  "adc_encode (Adc_literal bs) = of_nat (128 + (length bs - 1)) # bs"
| "adc_encode (Adc_short d n) = [of_nat ((n - 3) * 4 + (d - 1) div 256), of_nat ((d - 1) mod 256)]"
| "adc_encode (Adc_long d n) = [of_nat (64 + (n - 4)), of_nat ((d - 1) div 256), of_nat ((d - 1) mod 256)]"

fun adc_well_formed :: "nat \<Rightarrow> adc_op list \<Rightarrow> bool" where
  "adc_well_formed k [] \<longleftrightarrow> True"
| "adc_well_formed k (op # ops) \<longleftrightarrow> adc_valid k op \<and> adc_well_formed (k + lz_size (adc_token op)) ops"

section \<open>The decompressor against the format\<close>

lemma adc_opcode:
  "unat ((b AND 0x7f) + 1 :: byte) = unat b mod 128 + 1" "unat ((b AND 0x3f) + 4 :: byte) = unat b mod 64 + 4"
  "unat (drop_bit 2 (b AND 0x3f) + 3 :: byte) = unat b mod 64 div 4 + 3"
proof -
  have d: "unat (drop_bit 2 (b AND 0x3f)) = unat b mod 64 div 4"
    unfolding unsigned_drop_bit_eq byte_masks by (simp add: drop_bit_eq_div take_bit_eq_mod mod_mod_cancel)
  have "unat b mod 128 < 128" "unat b mod 64 < 64" by simp_all
  moreover from this have "unat b mod 64 div 4 < 16" by (simp add: less_mult_imp_div_less)
  ultimately show "unat ((b AND 0x7f) + 1 :: byte) = unat b mod 128 + 1" "unat ((b AND 0x3f) + 4 :: byte) = unat b mod 64 + 4"
    "unat (drop_bit 2 (b AND 0x3f) + 3 :: byte) = unat b mod 64 div 4 + 3"
    using unat_add_small [of "b AND 0x7f" 1] unat_add_small [of "b AND 0x3f" 4]
      unat_add_small [of "drop_bit 2 (b AND 0x3f)" 3, unfolded d]
    by (simp_all only: byte_masks) simp_all
qed

lemma adc_encode_nonempty: "0 < length (adc_encode op)"
  by (cases op) simp_all

lemma adc_step_match:
  assumes "c < length data" "unat (data ! c) < 128" "adc_match data (Suc c) (data ! c) = Ok (n, d - 1, c')"
    "1 \<le> d" "d \<le> length out" "n \<le> length rest"
  shows "adc_step data c (length out) (out @ rest) = Ok (c', length out + n, lz_copy n d out @ drop n rest)"
proof -
  have "\<not> length out \<le> d - 1" "out \<noteq> []" using assms by auto
  then show ?thesis
    using assms byte_bits(1) [of "data ! c"] copy_match_eq [of d out n rest] by (simp add: adc_step_def Let_def sub_u64_def)
qed

text \<open>A round of the loop on the encoding of an operation expands it.\<close>

lemma adc_step_encoded:
  assumes v: "adc_valid (length out) op" and r: "lz_size (adc_token op) \<le> length rest"
  shows "adc_step (pre @ adc_encode op @ post) (length pre) (length out) (out @ rest) =
    Ok (length pre + length (adc_encode op), length out + lz_size (adc_token op),
        lz_expand (adc_token op) out @ drop (lz_size (adc_token op)) rest)"
proof (cases op)
  case (Adc_literal bs)
  define b :: byte where "b = of_nat (128 + (length bs - 1))"
  have b: "unat b = 128 + (length bs - 1)" unfolding b_def by (rule unat_byte_of_nat) (use v Adc_literal in simp)
  have "(128 + k) mod 128 = k" if "k < 128" for k :: nat using that by simp
  from this [of "length bs - 1"] have e: "(128 + (length bs - 1)) mod 128 = length bs - 1" using v Adc_literal by fastforce
  have n: "unat ((b AND 0x7f) + 1) = length bs" unfolding adc_opcode b e using v Adc_literal by (cases bs) simp_all
  have "subslice (Suc (length pre)) (length bs) (pre @ b # bs @ post) = bs" by (simp add: subslice_def)
  moreover have e: "adc_encode op = b # bs" by (simp only: Adc_literal adc_encode.simps b_def)
  ultimately show ?thesis
    unfolding e using r byte_bits(1) [of b] n b
    by (simp add: Adc_literal adc_step_def nth_append sub_u64_def write_slice_eq Let_def)
next
  case (Adc_short d n)
  define b :: byte where "b = of_nat ((n - 3) * 4 + (d - 1) div 256)"
  define lo :: byte where "lo = of_nat ((d - 1) mod 256)"
  have d: "(d - 1) div 256 < 4" "1 \<le> d" "d \<le> length out" "3 \<le> n" "n \<le> 18" using v Adc_short by (auto intro: less_mult_imp_div_less)
  have b: "unat b = (n - 3) * 4 + (d - 1) div 256" unfolding b_def by (rule unat_byte_of_nat) (use d in simp)
  have lo: "unat lo = (d - 1) mod 256" by (simp add: lo_def unat_of_nat)
  have n: "unat (drop_bit 2 (b AND 0x3f) + 3) = n" unfolding adc_opcode using d by (simp add: b div_add1_eq)
  have "unat b < 64" using b d by linarith
  then have bit: "\<not> b AND 0x40 \<noteq> 0" using byte_bits(2) [of b] by simp
  have "unat (b AND 3) = (d - 1) div 256" unfolding byte_masks using d by (simp add: b)
  then have dist: "push_bit 8 (unat (b AND 3)) OR unat lo = d - 1" by (simp add: pack_nat lo)
  have "adc_match (pre @ b # lo # post) (Suc (length pre)) b = Ok (n, d - 1, length pre + 2)"
    using bit n dist d by (simp add: adc_match_def nth_append)
  moreover have e: "adc_encode op = [b, lo]" by (simp only: Adc_short adc_encode.simps b_def lo_def)
  ultimately show ?thesis
    unfolding e using r \<open>unat b < 64\<close> d adc_step_match [of "length pre" "pre @ b # lo # post" n d "length pre + 2" out rest]
    by (simp add: Adc_short)
next
  case (Adc_long d n)
  define b :: byte where "b = of_nat (64 + (n - 4))"
  define hi lo :: byte where "hi = of_nat ((d - 1) div 256)" and "lo = of_nat ((d - 1) mod 256)"
  have d: "(d - 1) div 256 < 256" "1 \<le> d" "d \<le> length out" "4 \<le> n" "n \<le> 67" using v Adc_long by (auto intro: less_mult_imp_div_less)
  have b: "unat b = 64 + (n - 4)" unfolding b_def by (rule unat_byte_of_nat) (use d in simp)
  have hl: "unat hi * 256 + unat lo = d - 1" using d by (simp add: hi_def lo_def unat_of_nat)
  have "(64 + k) mod 64 + 4 = k + 4" if "k < 64" for k :: nat using that by simp
  from this [of "n - 4"] have n: "unat ((b AND 0x3f) + 4) = n" unfolding adc_opcode b using d by simp
  have "u16_be (Suc (length pre)) (pre @ b # hi # lo # post) = d - 1" using u16_be_two [of "pre @ [b]" hi lo post] hl by simp
  moreover have "64 \<le> unat b mod 128" using b d by simp
  then have bit: "b AND 0x40 \<noteq> 0" using byte_bits(2) [of b] by simp
  ultimately have "adc_match (pre @ b # hi # lo # post) (Suc (length pre)) b = Ok (n, d - 1, length pre + 3)"
    using n d by (simp add: adc_match_def sub_u64_def)
  moreover have e: "adc_encode op = [b, hi, lo]" by (simp only: Adc_long adc_encode.simps b_def hi_def lo_def)
  ultimately show ?thesis
    unfolding e using r b d adc_step_match [of "length pre" "pre @ b # hi # lo # post" n d "length pre + 3" out rest]
    by (simp add: Adc_long)
qed

lemma adc_match_decoded:
  assumes m: "adc_match data (Suc c) (data ! c) = Ok (n, dist, c')" and c: "c < length data" and b: "unat (data ! c) < 128"
  shows "\<exists>op. adc_token op = Lz_match (dist + 1) n \<and> drop c data = adc_encode op @ drop c' data \<and>
    (dist < k \<longrightarrow> adc_valid k op)"
proof -
  let ?b = "data ! c"
  have head: "drop c data = ?b # drop (Suc c) data" using c by (simp add: Cons_nth_drop_Suc)
  show ?thesis
  proof (cases "64 \<le> unat ?b")
    case True
    then have "?b AND 0x40 \<noteq> 0" using b byte_bits(2) [of ?b] by simp
    with m have m': "n = unat ?b mod 64 + 4" "dist = u16_be (Suc c) data" "c' = c + 3" "c + 3 \<le> length data"
      by (auto simp: adc_match_def sub_u64_def adc_opcode split: if_splits)
    then obtain hi lo where hl: "drop (Suc c) data = hi # lo # drop c' data"
      using that [of "data ! (c + 1)" "data ! (c + 2)"] drop_two [of "c + 1" data] by (simp add: numeral_3_eq_3)
    have "dist = unat hi * 256 + unat lo"
      using m'(2) hl by (simp add: u16_be_def subslice_def from_be_bytes_def)
    then have "dist div 256 = unat hi" "dist mod 256 = unat lo" "dist < 65536" using unat_byte_lt [of lo] unat_byte_lt [of hi] by simp_all
    moreover have "64 + unat ?b mod 64 = unat ?b" using True b by (simp add: le_mod_geq)
    ultimately show ?thesis
      using head hl m' b by (intro exI [of _ "Adc_long (dist + 1) n"]) simp
  next
    case False
    then have "\<not> ?b AND 0x40 \<noteq> 0" using b byte_bits(2) [of ?b] by simp
    with m [unfolded adc_match_def adc_opcode] have m': "n = unat ?b mod 64 div 4 + 3" "dist = push_bit 8 (unat (?b AND 3)) OR unat (data ! Suc c)"
      "c' = c + 2" "Suc c < length data"
      by (auto split: if_splits)
    have dist: "dist = unat ?b mod 4 * 256 + unat (data ! Suc c)"
      using m'(2) unat_byte_lt [of "data ! Suc c"] by (simp add: pack_nat byte_masks)
    have tl: "drop (Suc c) data = data ! Suc c # drop c' data" using m' by (simp add: Cons_nth_drop_Suc)
    have "dist div 256 = unat ?b mod 4" "dist mod 256 = unat (data ! Suc c)" "dist < 1024"
      using dist unat_byte_lt [of "data ! Suc c"] mod_less_divisor [of 4 "unat ?b"] by simp_all
    moreover have "unat ?b mod 64 = unat ?b" using False by simp
    moreover have "unat ?b div 4 * 4 + unat ?b mod 4 = unat ?b" by simp
    moreover have "unat ?b div 4 < 16" using False by (simp add: div_less_iff_less_mult)
    ultimately show ?thesis
      using head tl m' by (intro exI [of _ "Adc_short (dist + 1) n"]) (simp del: mod_less)
  qed
qed


lemma adc_step_decoded:
  assumes s: "adc_step data c (length out) (out @ rest) = Ok (c', u', buf)"
  obtains op where "adc_valid (length out) op" "lz_size (adc_token op) \<le> length rest"
    "drop c data = adc_encode op @ drop c' data" "u' = length out + lz_size (adc_token op)"
    "buf = lz_expand (adc_token op) out @ drop (lz_size (adc_token op)) rest"
proof -
  let ?b = "data ! c"
  have c: "c < length data" using s by (auto simp: adc_step_def split: if_splits)
  show thesis
  proof (cases "128 \<le> unat ?b")
    case True
    define n where "n = unat ?b mod 128 + 1"
    have "?b AND 0x80 \<noteq> 0" using True byte_bits(1) by blast
    with s have s': "n \<le> length data - Suc c" "n \<le> length rest" "c' = c + 1 + n" "u' = length out + n"
      "buf = write_slice (length out) (subslice (Suc c) n data) (out @ rest)"
      by (auto simp: adc_step_def sub_u64_def adc_opcode n_def Let_def split: if_splits)
    let ?op = "Adc_literal (subslice (Suc c) n data)"
    have len: "length (subslice (Suc c) n data) = n" using s'(1) by (simp add: subslice_def)
    have "128 + unat ?b mod 128 = unat ?b" using True unat_byte_lt [of ?b] by (simp add: le_mod_geq)
    then have "of_nat (128 + (n - 1)) = ?b" by (simp only: n_def add_diff_cancel_right' of_nat_unat ucast_id)
    moreover have "drop (Suc c) data = subslice (Suc c) n data @ drop c' data"
      using s'(3) append_take_drop_id [of n "drop (Suc c) data"] by (simp add: subslice_def add.commute)
    ultimately have "drop c data = adc_encode ?op @ drop c' data"
      using c by (simp only: adc_encode.simps len append_Cons Cons_nth_drop_Suc [symmetric])
    moreover have "buf = lz_expand (adc_token ?op) out @ drop (lz_size (adc_token ?op)) rest"
      using s'(2,5) write_slice_eq [of "subslice (Suc c) n data" rest out] len by simp
    moreover have "n \<le> 128" unfolding n_def using mod_less_divisor [of 128 "unat ?b"] by linarith
    ultimately show thesis using that [of ?op] s' len by (simp add: n_def)
  next
    case False
    then have "\<not> ?b AND 0x80 \<noteq> 0" using byte_bits(1) by blast
    with s obtain n dist where m: "adc_match data (Suc c) ?b = Ok (n, dist, c')"
      and s': "dist < length out" "n \<le> length rest" "u' = length out + n"
        "copy_match n (length out - dist - 1) (length out) (out @ rest) = Ok buf"
      by (auto simp: adc_step_def sub_u64_def result_simps split: if_splits)
    obtain op where op: "adc_token op = Lz_match (dist + 1) n" "drop c data = adc_encode op @ drop c' data" "adc_valid (length out) op"
      using adc_match_decoded [OF m c, of "length out"] False s'(1) by auto
    have "buf = lz_expand (adc_token op) out @ drop (lz_size (adc_token op)) rest"
      using s' copy_match_eq [of "dist + 1" out n rest] op(1) by simp
    then show thesis using that [of op] op s' by simp
  qed
qed


definition adc_bytes :: "adc_op list \<Rightarrow> byte list" where
  "adc_bytes ops = concat (map adc_encode ops)"

lemma adc_valid_size: "adc_valid k op \<Longrightarrow> 0 < lz_size (adc_token op)"
  by (cases op) auto

lemma adc_bytes_Cons [simp]: "adc_bytes (op # ops) = adc_encode op @ adc_bytes ops" "adc_bytes [] = []"
  by (simp_all add: adc_bytes_def)

lemma adc_loop_encoded:
  assumes "adc_well_formed (length out) ops" "lz_total (map adc_token ops) \<le> length rest" "tail = [] \<or> lz_total (map adc_token ops) = length rest"
  shows "adc_loop (pre @ adc_bytes ops @ tail) (length pre) (length out) (out @ rest) =
    Ok (length out + lz_total (map adc_token ops), lz_expand_all (map adc_token ops) out @ drop (lz_total (map adc_token ops)) rest)"
  using assms
proof (induction ops arbitrary: pre out rest)
  case Nil
  then show ?case by (auto simp: adc_loop.simps [of "pre @ tail"])
next
  case (Cons op ops)
  let ?n = "lz_size (adc_token op)" and ?out = "lz_expand (adc_token op) out"
  have n: "0 < ?n" "?n \<le> length rest" "rest \<noteq> []" using Cons.prems adc_valid_size [of "length out" op] by auto
  have "adc_loop ((pre @ adc_encode op) @ adc_bytes ops @ tail) (length (pre @ adc_encode op)) (length ?out) (?out @ drop ?n rest) =
      Ok (length ?out + lz_total (map adc_token ops), lz_expand_all (map adc_token ops) ?out @ drop (lz_total (map adc_token ops)) (drop ?n rest))"
    using Cons.prems n by (intro Cons.IH) auto
  moreover have "adc_loop (pre @ adc_encode op @ adc_bytes ops @ tail) (length pre) (length out) (out @ rest) =
      adc_loop (pre @ adc_encode op @ adc_bytes ops @ tail) (length pre + length (adc_encode op)) (length out + ?n) (?out @ drop ?n rest)"
    using n adc_encode_nonempty [of op] Cons.prems adc_step_encoded [of out op rest pre "adc_bytes ops @ tail"]
    by (subst adc_loop.simps) simp
  ultimately show ?case by (simp add: add.commute add.left_commute)
qed

lemma adc_loop_decoded:
  assumes "adc_loop data c u buf = Ok (u', buf')" "buf = out @ rest" "u = length out"
  shows "\<exists>ops tail. adc_well_formed (length out) ops \<and> drop c data = adc_bytes ops @ tail \<and>
    (tail = [] \<or> lz_total (map adc_token ops) = length rest) \<and> lz_total (map adc_token ops) \<le> length rest"
  using assms
proof (induction data c u buf arbitrary: out rest rule: adc_loop.induct)
  case (1 data c u buf)
  show ?case
  proof (cases "c < length data \<and> u < length buf")
    case True
    with 1(2) obtain c1 u1 buf1 where step: "adc_step data c u buf = Ok (c1, u1, buf1)"
      and rec: "adc_loop data c1 u1 buf1 = Ok (u', buf')"
      by (auto simp: adc_loop.simps [of data c u buf] result_simps)
    obtain op where op: "adc_valid (length out) op" "lz_size (adc_token op) \<le> length rest"
      "drop c data = adc_encode op @ drop c1 data" "u1 = length out + lz_size (adc_token op)"
      "buf1 = lz_expand (adc_token op) out @ drop (lz_size (adc_token op)) rest"
      using adc_step_decoded [of data c out rest c1 u1 buf1] step 1(3,4) by blast
    obtain ops tail where "adc_well_formed u1 ops" "drop c1 data = adc_bytes ops @ tail"
      "tail = [] \<or> lz_total (map adc_token ops) = length rest - lz_size (adc_token op)" "lz_total (map adc_token ops) \<le> length rest - lz_size (adc_token op)"
      using 1(1) [OF _ _ step refl refl rec op(5)] True op(4) by auto
    then show ?thesis using op by (intro exI [of _ "op # ops"] exI [of _ tail]) auto
  next
    case False
    then show ?thesis using 1(3,4) by (intro exI [of _ "[]"] exI [of _ "drop c data"]) auto
  qed
qed

text \<open>
  (C26) ADC decompression succeeds exactly on the encodings of operations whose matches lie in the output
  and whose expansion fits the buffer; it may be followed by other bytes only where it fills the
  buffer.  The buffer then starts with the expansion, and the rest of it is unchanged.
\<close>

theorem adc_decompress_exact:
  "adc_decompress context data buf = Ok (context', buf') \<longleftrightarrow>
   (\<exists>ops tail. adc_well_formed 0 ops \<and> data = adc_bytes ops @ tail \<and> lz_total (map adc_token ops) \<le> length buf \<and>
     (tail = [] \<or> lz_total (map adc_token ops) = length buf) \<and>
     context' = context\<lparr>adc_uncompressed_data_size := lz_total (map adc_token ops)\<rparr> \<and>
     buf' = lz_expand_all (map adc_token ops) [] @ drop (lz_total (map adc_token ops)) buf)" (is "?l \<longleftrightarrow> ?r")
proof
  assume l: ?l
  then obtain u where "adc_loop data 0 0 buf = Ok (u, buf')" "context' = context\<lparr>adc_uncompressed_data_size := u\<rparr>"
    by (auto simp: adc_decompress_def result_simps)
  moreover from this obtain ops tail where o: "adc_well_formed 0 ops" "data = adc_bytes ops @ tail"
    "tail = [] \<or> lz_total (map adc_token ops) = length buf" "lz_total (map adc_token ops) \<le> length buf"
    using adc_loop_decoded [of data 0 0 buf u buf' "[]" buf] by auto
  ultimately show ?r using adc_loop_encoded [of "[]" ops buf tail "[]"] by auto
next
  assume ?r
  then obtain ops tail where o: "adc_well_formed 0 ops" "data = adc_bytes ops @ tail" "lz_total (map adc_token ops) \<le> length buf"
    "tail = [] \<or> lz_total (map adc_token ops) = length buf" "context' = context\<lparr>adc_uncompressed_data_size := lz_total (map adc_token ops)\<rparr>"
    "buf' = lz_expand_all (map adc_token ops) [] @ drop (lz_total (map adc_token ops)) buf" by blast
  then show ?l using adc_loop_encoded [of "[]" ops buf tail "[]"] by (simp add: adc_decompress_def)
qed

lemma adc_step_no_panic: "u \<le> length buf \<Longrightarrow> no_panic (adc_step data c u buf)"
  by (auto simp: adc_step_def adc_match_def sub_u64_def Let_def intro!: no_panic_and_then copy_match_no_panic split: if_splits)

lemma adc_step_bounds:
  assumes "adc_step data c u buf = Ok (c', u', buf')" "u \<le> length buf"
  shows "u' \<le> length buf'"
proof -
  have "adc_step data c (length (take u buf)) (take u buf @ drop u buf) = Ok (c', u', buf')" using assms by simp
  then show ?thesis by (rule adc_step_decoded) simp
qed

text \<open>Whatever the compressed data and the size of the buffer, ADC decompression does not panic.\<close>

theorem adc_decompress_no_panic: "no_panic (adc_decompress context data buf)"
proof -
  have "u \<le> length buf \<Longrightarrow> no_panic (adc_loop data c u buf)" for c u
  proof (induction data c u buf rule: adc_loop.induct)
    case (1 data c u buf)
    show ?case
      by (subst adc_loop.simps) (auto intro!: no_panic_and_then 1 adc_step_no_panic simp: adc_step_bounds 1 split: if_splits)
  qed
  then show ?thesis unfolding adc_decompress_def by (intro no_panic_and_then) auto
qed

end
