(* ===== verification/Lznt1.thy ===== *)
theory Lznt1
  imports Lz_Copy
begin

text \<open>
  LZNT1 decompression (\<open>keramics-compression/src/lznt1.rs\<close>).  The data is a sequence of blocks, stored as
  they are or compressed; in a compressed block the split of a tuple into distance and size moves
  with the number of bytes the block has expanded to.
\<close>

section \<open>The decompressor\<close>

record Lznt1BlockHeader =
  lbh_block_size :: nat
  lbh_is_compressed :: bool

definition lznt1_header_read_data :: "byte list \<Rightarrow> Lznt1BlockHeader result" where
  "lznt1_header_read_data data =
     (if length data < 2 then Err (Compression_error Lznt1_block_header_size)
      else let bit_fields1 = u16_le 0 data
           in Ok \<lparr>lbh_block_size = (bit_fields1 AND 0x0fff) + 1, lbh_is_compressed = bit_fields1 AND 0x8000 \<noteq> 0\<rparr>)"

text \<open>
  The variables of \<open>decompress_block\<close>.  The offsets are bounded by the size of a slice and a few
  thousand bytes, so that the sums of \<open>usize\<close> values do not overflow; those of \<open>u16\<close> values are checked.
\<close>

record Lznt1Block =
  lb_compressed_offset :: nat
  lb_uncompressed_offset :: nat
  lb_uncompressed_data :: "byte list"
  lb_threshold :: nat
  lb_distance_shift :: nat
  lb_match_size_mask :: nat
  lb_block_offset :: nat

definition add_u16 :: "nat \<Rightarrow> nat \<Rightarrow> nat result" where
  "add_u16 a b = (if a + b < u16_limit then Ok (a + b) else Err (Panic Arithmetic_overflow))"

definition lznt1_match :: "byte list \<Rightarrow> Lznt1Block \<Rightarrow> Lznt1Block result" where
  "lznt1_match data b =
     and_then (sub_u64 (length data) (lb_compressed_offset b)) (\<lambda>left.
       if left < 2 then Err (Compression_error Compressed_data_too_small)
       else
         let tuple = u16_le (lb_compressed_offset b) data; u = lb_uncompressed_offset b in
         and_then (add_u16 (drop_bit (lb_distance_shift b) tuple) 1) (\<lambda>distance.
         and_then (add_u16 (tuple AND lb_match_size_mask b) 3) (\<lambda>match_size.
           if u < distance then Err (Compression_error Distance_exceeds_uncompressed_offset)
           else and_then (sub_u64 (length (lb_uncompressed_data b)) u) (\<lambda>left.
             if left < match_size then Err (Compression_error Match_exceeds_uncompressed_data)
             else and_then (copy_match match_size (u - distance) u (lb_uncompressed_data b)) (\<lambda>out.
               Ok (b\<lparr>lb_compressed_offset := lb_compressed_offset b + 2, lb_uncompressed_offset := u + match_size,
                     lb_uncompressed_data := out, lb_block_offset := lb_block_offset b + match_size\<rparr>))))))"

definition lznt1_literal :: "byte list \<Rightarrow> Lznt1Block \<Rightarrow> Lznt1Block result" where
  "lznt1_literal data b =
     (let c = lb_compressed_offset b; u = lb_uncompressed_offset b in
      if length data \<le> c then Err (Compression_error Compressed_data_too_small)
      else if length (lb_uncompressed_data b) \<le> u then Err (Compression_error Uncompressed_data_too_small)
      else Ok (b\<lparr>lb_compressed_offset := c + 1, lb_uncompressed_offset := u + 1,
                 lb_uncompressed_data := (lb_uncompressed_data b)[u := data ! c],
                 lb_block_offset := lb_block_offset b + 1\<rparr>))"

definition lznt1_element :: "bool \<Rightarrow> byte list \<Rightarrow> Lznt1Block \<Rightarrow> Lznt1Block result" where
  "lznt1_element is_tuple data b = (if is_tuple then lznt1_match data b else lznt1_literal data b)"

function lznt1_adjust :: "Lznt1Block \<Rightarrow> Lznt1Block result" where
  "lznt1_adjust b =
     (if lb_threshold b < lb_block_offset b then
        if lb_distance_shift b = 0 then Err (Compression_error Lznt1_tuple_shift_out_of_bounds)
        else lznt1_adjust (b\<lparr>lb_distance_shift := lb_distance_shift b - 1,
               lb_match_size_mask := drop_bit 1 (lb_match_size_mask b), lb_threshold := push_bit 1 (lb_threshold b)\<rparr>)
      else Ok b)"
  by pat_completeness auto
termination
  by (relation "measure lb_distance_shift") auto

declare lznt1_adjust.simps [simp del]

text \<open>The loop over the bits of the flags, which ends early at the end of the block.\<close>

fun lznt1_group :: "byte list \<Rightarrow> nat \<Rightarrow> nat \<Rightarrow> byte \<Rightarrow> Lznt1Block \<Rightarrow> Lznt1Block result" where
  "lznt1_group data end_offset 0 compression_flags b = Ok b"
| "lznt1_group data end_offset (Suc k) compression_flags b =
     and_then (lznt1_element (compression_flags AND 0x01 \<noteq> 0) data b) (\<lambda>b.
       if end_offset \<le> lb_compressed_offset b then Ok b
       else and_then (lznt1_adjust b) (\<lambda>b. lznt1_group data end_offset k (drop_bit 1 compression_flags) b))"

lemma lznt1_adjust_offsets:
  "lznt1_adjust b = Ok b' \<Longrightarrow> lb_compressed_offset b' = lb_compressed_offset b \<and>
     lb_uncompressed_offset b' = lb_uncompressed_offset b \<and> lb_uncompressed_data b' = lb_uncompressed_data b \<and>
     lb_block_offset b' = lb_block_offset b"
proof (induction b rule: lznt1_adjust.induct)
  case (1 b)
  then show ?case by (subst (asm) lznt1_adjust.simps) (auto split: if_splits)
qed

lemma lznt1_element_progress:
  "lznt1_element f data b = Ok b' \<Longrightarrow> lb_compressed_offset b < lb_compressed_offset b'"
  by (auto simp: lznt1_element_def lznt1_match_def lznt1_literal_def Let_def result_simps split: if_splits)

lemma lznt1_group_progress: "lznt1_group data e k flags b = Ok b' \<Longrightarrow> lb_compressed_offset b \<le> lb_compressed_offset b'"
proof (induction k arbitrary: flags b)
  case (Suc k)
  then obtain b1 where b1: "lznt1_element (flags AND 0x01 \<noteq> 0) data b = Ok b1"
    "(if e \<le> lb_compressed_offset b1 then Ok b1
      else and_then (lznt1_adjust b1) (\<lambda>b. lznt1_group data e k (drop_bit 1 flags) b)) = Ok b'"
    by (auto simp: result_simps)
  then show ?case
    using lznt1_element_progress [OF b1(1)]
    by (auto simp: result_simps dest!: Suc.IH lznt1_adjust_offsets split: if_splits)
qed simp

function lznt1_block_loop :: "byte list \<Rightarrow> nat \<Rightarrow> Lznt1Block \<Rightarrow> Lznt1Block result" where
  "lznt1_block_loop data end_offset b =
     (if lb_compressed_offset b < end_offset then
        if length data \<le> lb_compressed_offset b then Ok b
        else and_then (lznt1_group data end_offset 8 (data ! lb_compressed_offset b)
                         (b\<lparr>lb_compressed_offset := lb_compressed_offset b + 1\<rparr>)) (\<lambda>b.
               lznt1_block_loop data end_offset b)
      else Ok b)"
  by pat_completeness auto
termination
  by (relation "measure (\<lambda>(_, e, b). e - lb_compressed_offset b)") (auto dest!: lznt1_group_progress)

declare lznt1_block_loop.simps [simp del]

definition lznt1_decompress_block :: "nat \<Rightarrow> byte list \<Rightarrow> nat \<Rightarrow> nat \<Rightarrow> byte list \<Rightarrow> (nat \<times> nat \<times> byte list) result" where
  "lznt1_decompress_block block_size data c u out =
     and_then (lznt1_block_loop data (c + block_size)
        \<lparr>lb_compressed_offset = c, lb_uncompressed_offset = u, lb_uncompressed_data = out, lb_threshold = 16,
         lb_distance_shift = 12, lb_match_size_mask = 0x0fff, lb_block_offset = 0\<rparr>) (\<lambda>b.
       Ok (c + block_size, lb_uncompressed_offset b, lb_uncompressed_data b))"

text \<open>The part of the loop of \<open>decompress\<close> after the header of a block.\<close>

definition lznt1_block :: "Lznt1BlockHeader \<Rightarrow> byte list \<Rightarrow> nat \<Rightarrow> nat \<Rightarrow> byte list \<Rightarrow> (nat \<times> nat \<times> byte list) result" where
  "lznt1_block header data c u out =
     (if lbh_is_compressed header then lznt1_decompress_block (lbh_block_size header) data c u out
      else
        let n = lbh_block_size header in
        if length data < c + n then Err (Compression_error Compressed_data_too_small)
        else if length out < u + n then Err (Compression_error Uncompressed_data_too_small)
        else Ok (c + n, u + n, write_slice u (subslice c n data) out))"

lemma lznt1_block_progress: "lznt1_block header data c u out = Ok (c', u', out') \<Longrightarrow> c \<le> c'"
  by (auto simp: lznt1_block_def lznt1_decompress_block_def Let_def result_simps split: if_splits)

function lznt1_loop :: "byte list \<Rightarrow> nat \<Rightarrow> nat \<Rightarrow> byte list \<Rightarrow> (nat \<times> byte list) result" where
  "lznt1_loop data c u out =
     (if c < length data then
        if length out \<le> u then Ok (u, out)
        else and_then (sub_u64 (length data) c) (\<lambda>left.
          if left < 2 then Err (Compression_error Compressed_data_too_small)
          else if subslice c 2 data = [0, 0] then Ok (u, out)
          else and_then (lznt1_header_read_data (drop c data)) (\<lambda>header.
            and_then (lznt1_block header data (c + 2) u out) (\<lambda>(c, u, out). lznt1_loop data c u out)))
      else Ok (u, out))"
  by pat_completeness auto
termination
  by (relation "measure (\<lambda>(data, c, _, _). length data - c)") (auto simp: sub_u64_def dest!: lznt1_block_progress split: if_splits)

declare lznt1_loop.simps [simp del]

record Lznt1Context =
  lznt1_uncompressed_data_size :: nat

definition lznt1_new :: Lznt1Context where
  "lznt1_new = \<lparr>lznt1_uncompressed_data_size = 0\<rparr>"

definition lznt1_decompress :: "Lznt1Context \<Rightarrow> byte list \<Rightarrow> byte list \<Rightarrow> (Lznt1Context \<times> byte list) result" where
  "lznt1_decompress context compressed_data uncompressed_data =
     and_then (lznt1_loop compressed_data 0 0 uncompressed_data) (\<lambda>(uncompressed_data_offset, uncompressed_data).
       Ok (context\<lparr>lznt1_uncompressed_data_size := uncompressed_data_offset\<rparr>, uncompressed_data))"

section \<open>The split of a tuple\<close>

text \<open>
  The number of bits of the distance after a number of bytes of the block: the least number, from 4 on,
  whose power of two is not below it.
\<close>

function bits_from :: "nat \<Rightarrow> nat \<Rightarrow> nat" where
  "bits_from m n = (if n \<le> 2 ^ m then m else bits_from (Suc m) n)"
  by pat_completeness auto
termination
proof (relation "measure (\<lambda>(m, n). n - m)")
  fix m n :: nat
  assume "\<not> n \<le> 2 ^ m"
  then have "m < n" using less_exp [of m] by linarith
  then show "((Suc m, n), m, n) \<in> measure (\<lambda>(m, n). n - m)" by auto
qed simp

declare bits_from.simps [simp del]

definition lznt1_bits :: "nat \<Rightarrow> nat" where
  "lznt1_bits n = bits_from 4 n"

lemma bits_from_props: "m \<le> bits_from m n \<and> n \<le> 2 ^ bits_from m n \<and> (bits_from m n = m \<or> 2 ^ (bits_from m n - 1) < n)"
proof (induction m n rule: bits_from.induct)
  case (1 m n)
  then show ?case by (cases "n \<le> 2 ^ m") (auto simp: bits_from.simps [of m n])
qed

lemma bits_from_le: "n \<le> 2 ^ k \<Longrightarrow> m \<le> k \<Longrightarrow> bits_from m n \<le> k"
proof (induction m n rule: bits_from.induct)
  case (1 m n)
  show ?case
  proof (cases "n \<le> 2 ^ m")
    case False
    then have "m < k" using 1(2,3) by (metis le_neq_implies_less)
    then show ?thesis using False 1 by (simp add: bits_from.simps [of m n])
  qed (use 1 in \<open>simp add: bits_from.simps [of m n]\<close>)
qed

lemma bits_from_step: "n \<le> n' \<Longrightarrow> bits_from (bits_from m n) n' = bits_from m n'"
proof (induction m n rule: bits_from.induct)
  case (1 m n)
  then show ?case by (cases "n \<le> 2 ^ m") (auto simp: bits_from.simps [of m n] bits_from.simps [of m n'])
qed

definition with_bits :: "nat \<Rightarrow> Lznt1Block \<Rightarrow> Lznt1Block" where
  "with_bits m b = b\<lparr>lb_threshold := 2 ^ m, lb_distance_shift := 16 - m, lb_match_size_mask := 2 ^ (16 - m) - 1\<rparr>"

lemma with_bits_simps [simp]:
  "lb_compressed_offset (with_bits m b) = lb_compressed_offset b" "lb_uncompressed_offset (with_bits m b) = lb_uncompressed_offset b"
  "lb_uncompressed_data (with_bits m b) = lb_uncompressed_data b" "lb_block_offset (with_bits m b) = lb_block_offset b"
  "lb_threshold (with_bits m b) = 2 ^ m" "lb_distance_shift (with_bits m b) = 16 - m"
  "lb_match_size_mask (with_bits m b) = 2 ^ (16 - m) - 1" "with_bits m (with_bits m' b) = with_bits m b"
  by (simp_all add: with_bits_def)

definition has_bits :: "nat \<Rightarrow> Lznt1Block \<Rightarrow> bool" where
  "has_bits m b \<longleftrightarrow> lb_threshold b = 2 ^ m \<and> lb_distance_shift b = 16 - m \<and> lb_match_size_mask b = 2 ^ (16 - m) - Suc 0"

lemma has_bits_with_bits [simp]: "has_bits m (with_bits m b)"
  by (simp add: has_bits_def)

lemma with_bits_same: "has_bits m b \<Longrightarrow> with_bits m b = b"
  by (cases b) (simp add: has_bits_def with_bits_def)

lemma half_mask: "drop_bit 1 (2 ^ Suc k - 1 :: nat) = 2 ^ k - 1"
  using drop_bit_mask_eq [of 1 "Suc k", where 'a = nat] by (simp only: mask_eq_exp_minus_1 diff_Suc_1)

lemma lznt1_adjust_eq:
  "bits_from m (lb_block_offset b) \<le> 16 \<Longrightarrow>
     lznt1_adjust (with_bits m b) = Ok (with_bits (bits_from m (lb_block_offset b)) b)"
proof (induction m "lb_block_offset b" rule: bits_from.induct)
  case (1 m)
  show ?case
  proof (cases "lb_block_offset b \<le> 2 ^ m")
    case False
    then have m: "bits_from m (lb_block_offset b) = bits_from (Suc m) (lb_block_offset b)" by (simp add: bits_from.simps)
    then have "Suc m \<le> 16" using bits_from_props [of "Suc m" "lb_block_offset b"] 1(2) by simp
    then have k: "16 - m = Suc (15 - m)" by simp
    have "(with_bits m b)\<lparr>lb_distance_shift := 16 - m - 1, lb_match_size_mask := drop_bit 1 (2 ^ (16 - m) - 1),
        lb_threshold := push_bit 1 (2 ^ m)\<rparr> = with_bits (Suc m) b"
      unfolding k half_mask by (simp add: with_bits_def push_bit_eq_mult mult.commute)
    then show ?thesis
      using False 1 m k by (subst lznt1_adjust.simps) simp
  qed (simp add: lznt1_adjust.simps [of "with_bits m b"] bits_from.simps [of m])
qed

section \<open>No input makes the decompressor panic\<close>

lemma mask_mod: "(n :: nat) AND (2 ^ k - Suc 0) = n mod 2 ^ k"
  using take_bit_eq_mask [of k n] by (simp add: mask_eq_exp_minus_1 take_bit_eq_mod)

text \<open>
  The bytes of a block grow by at most two for each byte of compressed data once there are more than
  16384 of them, so that a block of 4096 bytes does not reach 32768, where the shift would be 0.
\<close>

definition lznt1_inv :: "byte list \<Rightarrow> nat \<Rightarrow> nat \<Rightarrow> Lznt1Block \<Rightarrow> bool" where
  "lznt1_inv data start m b \<longleftrightarrow> has_bits m b \<and> 4 \<le> m \<and> m \<le> 15 \<and> start \<le> lb_compressed_offset b \<and>
     lb_compressed_offset b \<le> length data \<and> lb_uncompressed_offset b \<le> length (lb_uncompressed_data b) \<and>
     lb_block_offset b \<le> 16390 + 2 * (lb_compressed_offset b - start)"

lemma length_copy_match: "copy_match n m u buf = Ok buf' \<Longrightarrow> length buf' = length buf"
  by (induction n arbitrary: m u buf) (auto split: if_splits)

lemma mod_power_less: "4 \<le> m \<Longrightarrow> (t :: nat) mod 2 ^ (16 - m) < 4096"
proof -
  assume "4 \<le> m"
  then have "(2 :: nat) ^ (16 - m) \<le> 2 ^ 12" by (intro power_increasing) auto
  then show ?thesis using order_less_le_trans [of "t mod 2 ^ (16 - m)" "2 ^ (16 - m)" "2 ^ 12"] by simp
qed

lemma match_size_bound:
  assumes "4 \<le> m" "b \<le> 2 ^ m" "b \<le> 16390 + d" "m \<le> 15"
  shows "b + (t mod 2 ^ (16 - m) + 3) \<le> 16390 + d + (4 :: nat)"
proof -
  have t: "t mod 2 ^ (16 - m) < 2 ^ (16 - m)" by simp
  consider "m = 15" | "m = 14" | "m \<le> 13" using assms(4) by linarith
  then show ?thesis
  proof cases
    case 3
    then have "(2 :: nat) ^ m \<le> 2 ^ 13" by (intro power_increasing) auto
    moreover have "t mod 2 ^ (16 - m) < 4096" using assms(1) by (rule mod_power_less)
    ultimately show ?thesis using assms(2) by simp
  qed (use t assms in auto)
qed

text \<open>A tuple is read as the distance and the size its bits give; the sums on \<open>u16\<close> do not overflow.\<close>

lemma lznt1_match_eq:
  assumes m: "4 \<le> m" "m \<le> 15" "has_bits m b" and c: "lb_compressed_offset b \<le> length data"
    and u: "lb_uncompressed_offset b \<le> length (lb_uncompressed_data b)"
  shows "lznt1_match data b =
    (if length data < lb_compressed_offset b + 2 then Err (Compression_error Compressed_data_too_small)
     else
       let t = u16_le (lb_compressed_offset b) data; d = t div 2 ^ (16 - m) + 1; n = t mod 2 ^ (16 - m) + 3;
           u = lb_uncompressed_offset b in
       if u < d then Err (Compression_error Distance_exceeds_uncompressed_offset)
       else if length (lb_uncompressed_data b) < u + n then Err (Compression_error Match_exceeds_uncompressed_data)
       else and_then (copy_match n (u - d) u (lb_uncompressed_data b)) (\<lambda>out.
         Ok (b\<lparr>lb_compressed_offset := lb_compressed_offset b + 2, lb_uncompressed_offset := u + n,
               lb_uncompressed_data := out, lb_block_offset := lb_block_offset b + n\<rparr>)))"
proof -
  let ?t = "u16_le (lb_compressed_offset b) data"
  have f: "lb_distance_shift b = 16 - m" "lb_match_size_mask b = 2 ^ (16 - m) - Suc 0"
    using m by (simp_all add: has_bits_def)
  have t: "?t < 2 ^ 16" using u16_bounds(2) [of "lb_compressed_offset b" data] by (simp add: u16_limit_def)
  have "(2 :: nat) ^ 1 \<le> 2 ^ (16 - m)" using m by (intro power_increasing) auto
  then have "?t div 2 ^ (16 - m) \<le> ?t div 2" by (intro div_le_mono2) auto
  then have dist: "add_u16 (?t div 2 ^ (16 - m)) (Suc 0) = Ok (?t div 2 ^ (16 - m) + 1)"
    using t by (simp add: add_u16_def u16_limit_def)
  have sz: "add_u16 (?t mod 2 ^ (16 - m)) 3 = Ok (?t mod 2 ^ (16 - m) + 3)"
    using mod_power_less [of m ?t] m by (simp add: u16_limit_def add_u16_def)
  show ?thesis
    using c u unfolding lznt1_match_def f mask_mod drop_bit_eq_div
    by (auto simp: dist sz sub_u64_def Let_def)
qed

lemma lznt1_element_inv:
  assumes i: "lznt1_inv data start m b" and a: "lb_block_offset b \<le> 2 ^ m"
  shows "no_panic (lznt1_element f data b)" (is ?np)
    and "lznt1_element f data b = Ok b' \<Longrightarrow> lznt1_inv data start m b' \<and> lb_compressed_offset b' \<le> lb_compressed_offset b + 2"
proof -
  let ?t = "u16_le (lb_compressed_offset b) data"
  note eq = lznt1_match_eq [of m b data]
  have pre: "4 \<le> m" "m \<le> 15" "has_bits m b" "lb_compressed_offset b \<le> length data"
    "lb_uncompressed_offset b \<le> length (lb_uncompressed_data b)" using i by (simp_all add: lznt1_inv_def)
  show ?np
    by (auto simp: lznt1_element_def lznt1_literal_def Let_def eq [OF pre]
        intro!: no_panic_and_then copy_match_no_panic)
  assume ok: "lznt1_element f data b = Ok b'"
  show "lznt1_inv data start m b' \<and> lb_compressed_offset b' \<le> lb_compressed_offset b + 2"
  proof (cases f)
    case True
    have "lb_block_offset b + (?t mod 2 ^ (16 - m) + 3) \<le> 16390 + 2 * (lb_compressed_offset b - start) + 4"
      using i a by (intro match_size_bound) (auto simp: lznt1_inv_def)
    moreover have "start \<le> lb_compressed_offset b" using i by (simp add: lznt1_inv_def)
    ultimately have "lb_block_offset b + ?t mod 2 ^ (16 - m) \<le> 16387 + 2 * (Suc (Suc (lb_compressed_offset b)) - start)"
      by linarith
    then show ?thesis
      using i ok True
      by (auto simp: lznt1_element_def eq [OF pre] Let_def lznt1_inv_def result_simps
          has_bits_def dest!: length_copy_match split: if_splits)
  next
    case False
    then show ?thesis
      using i ok by (auto simp: lznt1_element_def lznt1_literal_def Let_def lznt1_inv_def has_bits_def split: if_splits)
  qed
qed


lemma lznt1_adjust_inv:
  assumes "lznt1_inv data start m b" "lb_compressed_offset b \<le> start + 4098"
  shows "\<exists>m'. lznt1_adjust b = Ok (with_bits m' b) \<and> lznt1_inv data start m' (with_bits m' b) \<and> lb_block_offset b \<le> 2 ^ m'"
proof -
  let ?m = "bits_from m (lb_block_offset b)"
  have i: "has_bits m b" "4 \<le> m" "m \<le> 15" "lb_block_offset b \<le> 16390 + 2 * (lb_compressed_offset b - start)"
    using assms(1) by (simp_all add: lznt1_inv_def)
  have "lb_block_offset b \<le> 2 ^ 15" using i(4) assms(2) by simp
  then have m: "?m \<le> 15" using i(3) bits_from_le by blast
  then have "lznt1_adjust b = Ok (with_bits ?m b)" using lznt1_adjust_eq [of m b] with_bits_same [OF i(1)] by simp
  moreover have "4 \<le> ?m" "lb_block_offset b \<le> 2 ^ ?m" using bits_from_props [of m "lb_block_offset b"] i(2) by simp_all
  ultimately show ?thesis using assms(1) m by (intro exI [of _ ?m]) (simp add: lznt1_inv_def)
qed

lemma lznt1_group_inv:
  assumes "lznt1_inv data start m b" "lb_block_offset b \<le> 2 ^ m" "lb_compressed_offset b \<le> e" "e \<le> start + 4096"
  shows "no_panic (lznt1_group data e k flags b) \<and>
    (\<forall>b'. lznt1_group data e k flags b = Ok b' \<longrightarrow>
      (\<exists>m'. lznt1_inv data start m' b' \<and> (lb_compressed_offset b' < e \<longrightarrow> lb_block_offset b' \<le> 2 ^ m')))"
  using assms
proof (induction k arbitrary: flags b m)
  case (Suc k)
  let ?f = "flags AND 0x01 \<noteq> 0"
  note el = lznt1_element_inv [OF Suc.prems(1,2), of ?f]
  show ?case
  proof (cases "lznt1_element ?f data b")
    case (Inl err)
    then show ?thesis using el(1) by simp
  next
    case (Inr b1)
    then have b1: "lznt1_inv data start m b1" "lb_compressed_offset b1 \<le> lb_compressed_offset b + 2" using el(2) by auto
    show ?thesis
    proof (cases "e \<le> lb_compressed_offset b1")
      case True
      then show ?thesis using Inr b1 by auto
    next
      case False
      obtain m' where m': "lznt1_adjust b1 = Ok (with_bits m' b1)" "lznt1_inv data start m' (with_bits m' b1)"
        "lb_block_offset b1 \<le> 2 ^ m'"
        using lznt1_adjust_inv [OF b1(1)] b1(2) Suc.prems(3,4) by auto
      then show ?thesis
        using Suc.IH [OF m'(2), of "drop_bit 1 flags"] Suc.prems(4) False Inr by simp
    qed
  qed
qed auto

lemma lznt1_block_loop_inv:
  assumes "lznt1_inv data start m b" "lb_compressed_offset b < e \<longrightarrow> lb_block_offset b \<le> 2 ^ m" "e \<le> start + 4096"
  shows "no_panic (lznt1_block_loop data e b) \<and>
    (\<forall>b'. lznt1_block_loop data e b = Ok b' \<longrightarrow> lb_uncompressed_offset b' \<le> length (lb_uncompressed_data b'))"
  using assms
proof (induction data e b arbitrary: m rule: lznt1_block_loop.induct)
  case (1 data e b)
  show ?case
  proof (cases "lb_compressed_offset b < e \<and> lb_compressed_offset b < length data")
    case True
    let ?b = "b\<lparr>lb_compressed_offset := lb_compressed_offset b + 1\<rparr>" and ?f = "data ! lb_compressed_offset b"
    have "lznt1_inv data start m ?b" using 1(2) True by (auto simp: lznt1_inv_def has_bits_def)
    then have g: "no_panic (lznt1_group data e 8 ?f ?b)"
      "\<forall>b'. lznt1_group data e 8 ?f ?b = Ok b' \<longrightarrow>
        (\<exists>m'. lznt1_inv data start m' b' \<and> (lb_compressed_offset b' < e \<longrightarrow> lb_block_offset b' \<le> 2 ^ m'))"
      using lznt1_group_inv [of data start m ?b e 8 ?f] 1(3,4) True by auto
    show ?thesis
    proof (cases "lznt1_group data e 8 ?f ?b")
      case (Inl err)
      then show ?thesis using g(1) True by (simp add: lznt1_block_loop.simps [of data e b])
    next
      case (Inr b')
      then obtain m' where "lznt1_inv data start m' b'" "lb_compressed_offset b' < e \<longrightarrow> lb_block_offset b' \<le> 2 ^ m'"
        using g(2) by blast
      then show ?thesis using 1(1) [OF _ _ Inr] 1(4) True Inr by (simp add: lznt1_block_loop.simps [of data e b])
    qed
  next
    case False
    then show ?thesis using 1(2) by (auto simp: lznt1_block_loop.simps [of data e b] lznt1_inv_def)
  qed
qed

lemma lznt1_block_no_panic:
  assumes "lbh_block_size header \<le> 4096" "c \<le> length data" "u \<le> length buf"
  shows "no_panic (lznt1_block header data c u buf) \<and>
    (\<forall>c' u' buf'. lznt1_block header data c u buf = Ok (c', u', buf') \<longrightarrow> u' \<le> length buf')"
proof (cases "lbh_is_compressed header")
  case True
  let ?b = "\<lparr>lb_compressed_offset = c, lb_uncompressed_offset = u, lb_uncompressed_data = buf, lb_threshold = 16,
         lb_distance_shift = 12, lb_match_size_mask = 0x0fff, lb_block_offset = 0\<rparr>"
  have "lznt1_inv data c 4 ?b" using assms by (simp add: lznt1_inv_def has_bits_def)
  then show ?thesis
    using lznt1_block_loop_inv [of data c 4 ?b "c + lbh_block_size header"] assms True
    by (auto simp: lznt1_block_def lznt1_decompress_block_def result_simps intro!: no_panic_and_then)
next
  case False
  then show ?thesis using assms by (auto simp: lznt1_block_def Let_def write_slice_def length_slice)
qed

lemma lznt1_header_size: "lznt1_header_read_data data = Ok header \<Longrightarrow> lbh_block_size header \<le> 4096"
  using mask_mod [of "u16_le 0 data" 12] mod_less_divisor [of 4096 "u16_le 0 data"]
  by (auto simp: lznt1_header_read_data_def Let_def simp del: mod_less_divisor split: if_splits)

text \<open>Whatever the compressed data and the size of the buffer, LZNT1 decompression does not panic.\<close>

theorem lznt1_decompress_no_panic: "no_panic (lznt1_decompress context data buf)"
proof -
  have "u \<le> length buf \<Longrightarrow> no_panic (lznt1_loop data c u buf)" for c u
  proof (induction data c u buf rule: lznt1_loop.induct)
    case (1 data c u buf)
    show ?case
    proof (cases "c < length data \<and> u < length buf \<and> 2 \<le> length data - c \<and> subslice c 2 data \<noteq> [0, 0]")
      case True
      then obtain header where h: "lznt1_header_read_data (drop c data) = Ok header"
        by (auto simp: lznt1_header_read_data_def Let_def)
      have nb: "no_panic (lznt1_block header data (c + 2) u buf)"
        "\<And>c' u' buf'. lznt1_block header data (c + 2) u buf = Ok (c', u', buf') \<Longrightarrow> u' \<le> length buf'"
        using lznt1_block_no_panic [of header "c + 2" data u buf] lznt1_header_size [OF h] True by auto
      show ?thesis
        using True h nb by (subst lznt1_loop.simps) (auto simp: sub_u64_def intro!: no_panic_and_then 1(1) [OF _ _ _ _ _ h])
    next
      case False
      then show ?thesis by (subst lznt1_loop.simps) (auto simp: sub_u64_def)
    qed
  qed
  then show ?thesis unfolding lznt1_decompress_def by (intro no_panic_and_then) auto
qed

end
