(* ===== verification/Lznt1_Format.thy ===== *)
theory Lznt1_Format
  imports Lznt1
begin

text \<open>
  The LZNT1 format, as an encoder from blocks of literals and matches to bytes, and that the decompressor
  of theory \<open>Lznt1\<close> inverts it.
\<close>

section \<open>The format\<close>

definition le16 :: "nat \<Rightarrow> byte list" where
  "le16 v = [of_nat (v mod 256), of_nat (v div 256)]"

text \<open>
  A token of a block, after the block has expanded to \<open>p\<close> bytes and the whole output to \<open>n\<close> bytes: a single
  literal, or a match whose distance and size fit the split of the tuple at that point.
\<close>

fun lznt1_token_valid :: "nat \<Rightarrow> nat \<Rightarrow> lz_token \<Rightarrow> bool" where
  "lznt1_token_valid p n (Lz_literal bs) \<longleftrightarrow> length bs = 1"
| "lznt1_token_valid p n (Lz_match d k) \<longleftrightarrow>
     1 \<le> d \<and> d \<le> n \<and> d \<le> 2 ^ lznt1_bits p \<and> 3 \<le> k \<and> k < 2 ^ (16 - lznt1_bits p) + 3"

fun lznt1_token_bytes :: "nat \<Rightarrow> lz_token \<Rightarrow> byte list" where
  "lznt1_token_bytes p (Lz_literal bs) = bs"
| "lznt1_token_bytes p (Lz_match d k) = le16 ((d - 1) * 2 ^ (16 - lznt1_bits p) + (k - 3))"

fun lznt1_tokens_valid :: "nat \<Rightarrow> nat \<Rightarrow> lz_token list \<Rightarrow> bool" where
  "lznt1_tokens_valid p n [] \<longleftrightarrow> True"
| "lznt1_tokens_valid p n (t # ts) \<longleftrightarrow>
     lznt1_token_valid p n t \<and> p + lz_size t \<le> 4096 \<and> lznt1_tokens_valid (p + lz_size t) (n + lz_size t) ts"

fun lznt1_tokens_bytes :: "nat \<Rightarrow> lz_token list \<Rightarrow> byte list" where
  "lznt1_tokens_bytes p [] = []"
| "lznt1_tokens_bytes p (t # ts) = lznt1_token_bytes p t @ lznt1_tokens_bytes (p + lz_size t) ts"

fun is_match :: "lz_token \<Rightarrow> bool" where
  "is_match (Lz_literal bs) \<longleftrightarrow> False"
| "is_match (Lz_match d k) \<longleftrightarrow> True"

fun lznt1_flags :: "lz_token list \<Rightarrow> nat" where
  "lznt1_flags [] = 0"
| "lznt1_flags (t # ts) = of_bool (is_match t) + 2 * lznt1_flags ts"

function lznt1_payload :: "nat \<Rightarrow> lz_token list \<Rightarrow> byte list" where
  "lznt1_payload p ts =
     (if ts = [] then []
      else of_nat (lznt1_flags (take 8 ts)) # lznt1_tokens_bytes p (take 8 ts) @
           lznt1_payload (p + lz_total (take 8 ts)) (drop 8 ts))"
  by pat_completeness auto
termination
  by (relation "measure (\<lambda>(_, ts). length ts)") auto

declare lznt1_payload.simps [simp del]

section \<open>Decompressing what the format encodes\<close>

lemma u16_le_le16: "v < 65536 \<Longrightarrow> u16_le (length pre) (pre @ le16 v @ post) = v"
  by (simp add: u16_le_def subslice_def le16_def from_le_bytes_def from_be_bytes_def unat_of_nat)

lemma lznt1_bits_bounds: "4 \<le> lznt1_bits p" "p \<le> 2 ^ lznt1_bits p" "p \<le> 4096 \<Longrightarrow> lznt1_bits p \<le> 12"
  using bits_from_props [of 4 p] bits_from_le [of p 12 4] by (simp_all add: lznt1_bits_def)

text \<open>The state of the loop after the output \<open>out\<close>, of which \<open>p\<close> bytes belong to the block.\<close>

definition block_state :: "nat \<Rightarrow> byte list \<Rightarrow> byte list \<Rightarrow> nat \<Rightarrow> nat \<Rightarrow> Lznt1Block" where
  "block_state c out rest m p =
     \<lparr>lb_compressed_offset = c, lb_uncompressed_offset = length out, lb_uncompressed_data = out @ rest, lb_threshold = 2 ^ m,
      lb_distance_shift = 16 - m, lb_match_size_mask = 2 ^ (16 - m) - 1, lb_block_offset = p\<rparr>"

lemma block_state_simps [simp]:
  "lb_compressed_offset (block_state c out rest m p) = c" "lb_uncompressed_offset (block_state c out rest m p) = length out"
  "lb_uncompressed_data (block_state c out rest m p) = out @ rest" "lb_block_offset (block_state c out rest m p) = p"
  "has_bits m (block_state c out rest m p)" "with_bits m' (block_state c out rest m p) = block_state c out rest m' p"
  by (simp_all add: block_state_def has_bits_def with_bits_def)

lemma block_state_update:
  "length out' = u \<Longrightarrow>
   (block_state c out rest m p)\<lparr>lb_compressed_offset := c', lb_uncompressed_offset := u, lb_uncompressed_data := out' @ rest',
      lb_block_offset := p'\<rparr> = block_state c' out' rest' m p'"
  by (simp add: block_state_def)

lemma block_state_adjust:
  assumes "p \<le> p'" "p' \<le> 4096"
  shows "lznt1_adjust (block_state c out rest (lznt1_bits p) p') = Ok (block_state c out rest (lznt1_bits p') p')"
proof -
  have "bits_from (lznt1_bits p) p' = lznt1_bits p'" unfolding lznt1_bits_def by (rule bits_from_step [OF assms(1)])
  then show ?thesis
    using lznt1_adjust_eq [of "lznt1_bits p" "block_state c out rest (lznt1_bits p) p'"] lznt1_bits_bounds(3) [OF assms(2)]
    by simp
qed

lemma lznt1_match_encoded:
  assumes m: "4 \<le> m" "m \<le> 12" and v: "v < 65536" and d: "v div 2 ^ (16 - m) = d - 1" "1 \<le> d" "d \<le> length out"
    and k: "v mod 2 ^ (16 - m) = k - 3" "3 \<le> k" "k \<le> length rest"
  shows "lznt1_match (pre @ le16 v @ post) (block_state (length pre) out rest m p) =
    Ok (block_state (length pre + 2) (lz_copy k d out) (drop k rest) m (p + k))"
proof -
  have "length (le16 v) = 2" by (simp add: le16_def)
  then show ?thesis
    using lznt1_match_eq [of m "block_state (length pre) out rest m p" "pre @ le16 v @ post"] m d(2,3) k(2,3)
      copy_match_eq [of d out k rest] u16_le_le16 [OF v, of pre post]
    by (simp add: d(1) k(1) Let_def block_state_update)
qed

lemma lznt1_element_token:
  assumes v: "lznt1_token_valid p (length out) t" and p: "p \<le> 4096" and r: "lz_size t \<le> length rest"
  shows "lznt1_element (is_match t) (pre @ lznt1_token_bytes p t @ post) (block_state (length pre) out rest (lznt1_bits p) p) =
    Ok (block_state (length pre + length (lznt1_token_bytes p t)) (lz_expand t out) (drop (lz_size t) rest) (lznt1_bits p) (p + lz_size t))"
proof (cases t)
  case (Lz_literal bs)
  then obtain x where x: "bs = [x]" using v by (cases bs) auto
  obtain y rest' where rest: "rest = y # rest'" using r Lz_literal x by (cases rest) auto
  have "(out @ y # rest')[length out := x] = (out @ [x]) @ rest'" by simp
  then show ?thesis
    using Lz_literal x rest block_state_update [where out' = "out @ [x]" and u = "Suc (length out)" and rest' = rest']
    by (simp add: lznt1_element_def lznt1_literal_def Let_def)
next
  case (Lz_match d k)
  define v where "v = (d - 1) * 2 ^ (16 - lznt1_bits p) + (k - 3)"
  let ?m = "lznt1_bits p"
  have m: "4 \<le> ?m" "?m \<le> 12" using lznt1_bits_bounds [of p] p by auto
  have d: "1 \<le> d" "d \<le> length out" "d \<le> 2 ^ ?m" "3 \<le> k" "k - 3 < 2 ^ (16 - ?m)" "k \<le> length rest"
    using assms Lz_match by auto
  have "v < d * 2 ^ (16 - ?m)" using d(1,5) by (cases d) (simp_all add: add.commute v_def)
  also have "\<dots> \<le> 2 ^ ?m * 2 ^ (16 - ?m)" using d by (intro mult_right_mono) auto
  also have "\<dots> = 65536" using m by (simp add: power_add [symmetric])
  finally have v: "v < 65536" .
  have "v div 2 ^ (16 - ?m) = d - 1" "v mod 2 ^ (16 - ?m) = k - 3" using d(5) by (simp_all add: v_def)
  then have "lznt1_match (pre @ le16 v @ post) (block_state (length pre) out rest ?m p) =
      Ok (block_state (length pre + 2) (lz_copy k d out) (drop k rest) ?m (p + k))"
    using m v d by (intro lznt1_match_encoded) auto
  moreover have tb: "lznt1_token_bytes p t = le16 v" by (simp only: Lz_match lznt1_token_bytes.simps v_def)
  moreover have "length (le16 v) = 2" by (simp add: le16_def)
  ultimately show ?thesis unfolding tb by (simp add: Lz_match lznt1_element_def)
qed


lemma flags_bits:
  assumes "lznt1_flags (t # ts) < 256"
  shows "(of_nat (lznt1_flags (t # ts)) :: byte) AND 0x01 \<noteq> 0 \<longleftrightarrow> is_match t"
    "drop_bit 1 (of_nat (lznt1_flags (t # ts)) :: byte) = of_nat (lznt1_flags ts)"
proof -
  let ?b = "of_nat (lznt1_flags (t # ts)) :: byte"
  have u: "unat ?b = of_bool (is_match t) + 2 * lznt1_flags ts" using unat_byte_of_nat [OF assms] by (simp only: lznt1_flags.simps)
  show "?b AND 0x01 \<noteq> 0 \<longleftrightarrow> is_match t" using byte_bit [of ?b 0] unfolding u by simp
  have "unat (drop_bit 1 ?b) = lznt1_flags ts"
    unfolding unsigned_drop_bit_eq u using assms by (simp add: drop_bit_eq_div take_bit_eq_mod)
  then show "drop_bit 1 ?b = of_nat (lznt1_flags ts)" by (metis of_nat_unat ucast_id)
qed

lemma lznt1_flags_bound: "lznt1_flags ts < 2 ^ length ts"
  by (induction ts) auto

lemma token_bytes_nonempty: "lznt1_token_valid p n t \<Longrightarrow> 0 < length (lznt1_token_bytes p t)"
  by (cases t) (auto simp: le16_def)

lemma tokens_bytes_nonempty: "lznt1_tokens_valid p n (t # ts) \<Longrightarrow> 0 < length (lznt1_tokens_bytes p (t # ts))"
  using token_bytes_nonempty by fastforce

text \<open>
  A group of tokens: either the group is full, or it ends the block.  The state after it has the split of
  the next token unless the block ends.
\<close>

lemma lznt1_group_encoded:
  assumes "ts \<noteq> []" "lznt1_tokens_valid p (length out) ts" "p \<le> 4096" "lz_total ts \<le> length rest" "length ts \<le> k" "k \<le> 8"
    "length pre + length (lznt1_tokens_bytes p ts) \<le> e" "length ts = k \<or> length pre + length (lznt1_tokens_bytes p ts) = e"
  shows "\<exists>m. lznt1_group (pre @ lznt1_tokens_bytes p ts @ post) e k (of_nat (lznt1_flags ts)) (block_state (length pre) out rest (lznt1_bits p) p) =
    Ok (block_state (length pre + length (lznt1_tokens_bytes p ts)) (lz_expand_all ts out) (drop (lz_total ts) rest) m (p + lz_total ts)) \<and>
    (length pre + length (lznt1_tokens_bytes p ts) < e \<longrightarrow> m = lznt1_bits (p + lz_total ts))"
  using assms
proof (induction ts arbitrary: p out rest k pre)
  case (Cons t ts)
  obtain k' where k': "k = Suc k'" using Cons.prems by (cases k) auto
  have "lznt1_flags (t # ts) < 2 ^ length (t # ts)" by (rule lznt1_flags_bound)
  also have "\<dots> \<le> 2 ^ 8" using Cons.prems by (intro power_increasing) auto
  finally have fl: "lznt1_flags (t # ts) < 256" by simp
  let ?t = "lznt1_token_bytes p t" and ?ts = "lznt1_tokens_bytes (p + lz_size t) ts" and ?p = "p + lz_size t"
  have v: "lznt1_token_valid p (length out) t" "lznt1_tokens_valid ?p (length (lz_expand t out)) ts" "?p \<le> 4096"
    using Cons.prems by auto
  have el: "lznt1_element (is_match t) (pre @ ?t @ ?ts @ post) (block_state (length pre) out rest (lznt1_bits p) p) =
      Ok (block_state (length pre + length ?t) (lz_expand t out) (drop (lz_size t) rest) (lznt1_bits p) ?p)"
    using v(1) Cons.prems by (intro lznt1_element_token) auto
  have st: "lznt1_group (pre @ lznt1_tokens_bytes p (t # ts) @ post) e k (of_nat (lznt1_flags (t # ts))) (block_state (length pre) out rest (lznt1_bits p) p) =
      (if e \<le> length pre + length ?t
       then Ok (block_state (length pre + length ?t) (lz_expand t out) (drop (lz_size t) rest) (lznt1_bits p) ?p)
       else and_then (lznt1_adjust (block_state (length pre + length ?t) (lz_expand t out) (drop (lz_size t) rest) (lznt1_bits p) ?p))
              (lznt1_group (pre @ ?t @ ?ts @ post) e k' (of_nat (lznt1_flags ts))))"
    unfolding k' lznt1_group.simps flags_bits [OF fl] using el by simp
  show ?case
  proof (cases "length pre + length ?t < e")
    case False
    then have "length ?ts = 0" using Cons.prems(7) unfolding lznt1_tokens_bytes.simps length_append by linarith
    then have "ts = []" using tokens_bytes_nonempty [of ?p "length (lz_expand t out)" "hd ts" "tl ts"] v(2) by (cases ts) auto
    then show ?thesis unfolding st using False Cons.prems(7) by (intro exI [of _ "lznt1_bits p"]) simp
  next
    case True
    have ad: "lznt1_adjust (block_state (length pre + length ?t) (lz_expand t out) (drop (lz_size t) rest) (lznt1_bits p) ?p) =
        Ok (block_state (length pre + length ?t) (lz_expand t out) (drop (lz_size t) rest) (lznt1_bits ?p) ?p)"
      using v(3) by (intro block_state_adjust) auto
    show ?thesis
    proof (cases "ts = []")
      case True': True
      then have "k' = 0" using Cons.prems(8) True k' by auto
      then show ?thesis unfolding st using True True' by (intro exI [of _ "lznt1_bits ?p"]) (simp add: ad)
    next
      case False
      have r: "lz_total ts \<le> length (drop (lz_size t) rest)" using Cons.prems(4) by simp
      have l: "length ts \<le> k'" "k' \<le> 8" "length (pre @ ?t) + length ?ts \<le> e" "length ts = k' \<or> length (pre @ ?t) + length ?ts = e"
        using Cons.prems(5-8) k' by auto
      obtain m where
        "lznt1_group ((pre @ ?t) @ ?ts @ post) e k' (of_nat (lznt1_flags ts)) (block_state (length (pre @ ?t)) (lz_expand t out) (drop (lz_size t) rest) (lznt1_bits ?p) ?p) =
         Ok (block_state (length (pre @ ?t) + length ?ts) (lz_expand_all ts (lz_expand t out)) (drop (lz_total ts) (drop (lz_size t) rest)) m (?p + lz_total ts))"
        "length (pre @ ?t) + length ?ts < e \<longrightarrow> m = lznt1_bits (?p + lz_total ts)"
        using Cons.IH [OF False v(2,3) r l] by blast
      then show ?thesis
        unfolding st using True by (intro exI [of _ m]) (simp add: ad add.assoc add.commute [of "lz_size t"])
    qed
  qed
qed simp

lemma tokens_valid_append:
  "lznt1_tokens_valid p n (ts @ ts') \<longleftrightarrow> lznt1_tokens_valid p n ts \<and> lznt1_tokens_valid (p + lz_total ts) (n + lz_total ts) ts'"
  by (induction ts arbitrary: p n) (auto simp: add.assoc)

lemma tokens_valid_total: "lznt1_tokens_valid p n ts \<Longrightarrow> p \<le> 4096 \<Longrightarrow> p + lz_total ts \<le> 4096"
proof (induction ts arbitrary: p n)
  case (Cons t ts)
  then show ?case using Cons.IH [of "p + lz_size t" "n + lz_size t"] by (simp add: add.assoc)
qed simp

lemma payload_nonempty: "ts \<noteq> [] \<Longrightarrow> 0 < length (lznt1_payload p ts)"
  by (simp add: lznt1_payload.simps [of p ts])

lemma lznt1_block_loop_encoded:
  assumes "lznt1_tokens_valid p (length out) ts" "p \<le> 4096" "lz_total ts \<le> length rest" "e = length pre + length (lznt1_payload p ts)"
  shows "\<exists>m. lznt1_block_loop (pre @ lznt1_payload p ts @ post) e (block_state (length pre) out rest (lznt1_bits p) p) =
    Ok (block_state e (lz_expand_all ts out) (drop (lz_total ts) rest) m (p + lz_total ts))"
  using assms
proof (induction p ts arbitrary: out rest pre rule: lznt1_payload.induct)
  case (1 p ts)
  show ?case
  proof (cases "ts = []")
    case True
    then show ?thesis using 1(5) by (simp add: lznt1_payload.simps lznt1_block_loop.simps) blast
  next
    case False
    let ?g = "take 8 ts" and ?ts = "drop 8 ts"
    let ?f = "of_nat (lznt1_flags (take 8 ts)) :: byte" and ?p = "p + lz_total (take 8 ts)"
    let ?gb = "lznt1_tokens_bytes p ?g" and ?out = "lz_expand_all ?g out" and ?rest = "drop (lz_total ?g) rest"
    let ?pre = "pre @ [?f]"
    have pay: "lznt1_payload p ts = ?f # ?gb @ lznt1_payload ?p ?ts" using False by (simp add: lznt1_payload.simps [of p ts])
    have split: "ts = ?g @ ?ts" by simp
    have v: "lznt1_tokens_valid p (length out) ?g" "lznt1_tokens_valid ?p (length ?out) ?ts"
      using 1(2) tokens_valid_append [of p "length out" ?g ?ts] by simp_all
    have tot: "lz_total ?g + lz_total ?ts = lz_total ts" using lz_total_append [of ?g ?ts] by simp
    have ex: "lz_expand_all ?ts ?out = lz_expand_all ts out" using lz_expand_all_append [of ?g ?ts out] by simp
    have full: "length ?g = 8 \<or> length ?pre + length ?gb = e"
    proof (cases "?ts = []")
      case True
      then show ?thesis using 1(5) pay by (simp add: lznt1_payload.simps)
    qed auto
    have data: "pre @ lznt1_payload p ts @ post = ?pre @ ?gb @ lznt1_payload ?p ?ts @ post" by (simp add: pay)
    obtain m where g: "lznt1_group (pre @ lznt1_payload p ts @ post) e 8 ?f (block_state (length ?pre) out rest (lznt1_bits p) p) =
        Ok (block_state (length ?pre + length ?gb) ?out ?rest m ?p)" and m: "length ?pre + length ?gb < e \<longrightarrow> m = lznt1_bits ?p"
      unfolding data
      using lznt1_group_encoded [of ?g p out rest 8 ?pre e "lznt1_payload ?p ?ts @ post"] False v(1) 1(3,4,5) tot full pay by auto
    have nth: "(pre @ lznt1_payload p ts @ post) ! length pre = ?f" by (simp add: pay nth_append)
    have lt: "length pre < e" "lznt1_payload p ts \<noteq> []" using 1(5) by (simp_all add: pay)
    have upd: "(block_state (length pre) out rest (lznt1_bits p) p)\<lparr>lb_compressed_offset := Suc (length pre)\<rparr> =
        block_state (length ?pre) out rest (lznt1_bits p) p" by (simp add: block_state_def)
    have step: "lznt1_block_loop (pre @ lznt1_payload p ts @ post) e (block_state (length pre) out rest (lznt1_bits p) p) =
        lznt1_block_loop (pre @ lznt1_payload p ts @ post) e (block_state (length ?pre + length ?gb) ?out ?rest m ?p)"
      using lt nth upd g by (subst lznt1_block_loop.simps) simp
    show ?thesis
    proof (cases "?ts = []")
      case True
      then have "length ?pre + length ?gb = e" using 1(5) pay by (simp add: lznt1_payload.simps)
      then show ?thesis using step True tot ex by (simp add: lznt1_block_loop.simps) blast
    next
      case False': False
      then have m': "m = lznt1_bits ?p" using m 1(5) pay payload_nonempty [of ?ts ?p] by simp
      have "\<exists>m. lznt1_block_loop ((?pre @ ?gb) @ lznt1_payload ?p ?ts @ post) e (block_state (length (?pre @ ?gb)) ?out ?rest (lznt1_bits ?p) ?p) =
          Ok (block_state e (lz_expand_all ?ts ?out) (drop (lz_total ?ts) ?rest) m (?p + lz_total ?ts))"
        using False v(2) tokens_valid_total [OF v(1) 1(3)] 1(4,5) tot pay by (intro 1(1)) auto
      moreover have "?p + lz_total ?ts = p + lz_total ts" "lz_total ?ts + lz_total ?g = lz_total ts" using tot by simp_all
      ultimately show ?thesis using step m' ex by (simp add: data)
    qed
  qed
qed

subsection \<open>Blocks\<close>

datatype lznt1_stored = Lz_raw "byte list" | Lz_packed "lz_token list"

fun lznt1_tokens :: "lznt1_stored \<Rightarrow> lz_token list" where
  "lznt1_tokens (Lz_raw bs) = [Lz_literal bs]"
| "lznt1_tokens (Lz_packed ts) = ts"

fun lznt1_stored_valid :: "nat \<Rightarrow> lznt1_stored \<Rightarrow> bool" where
  "lznt1_stored_valid n (Lz_raw bs) \<longleftrightarrow> 1 \<le> length bs \<and> length bs \<le> 4096"
| "lznt1_stored_valid n (Lz_packed ts) \<longleftrightarrow> ts \<noteq> [] \<and> lznt1_tokens_valid 0 n ts \<and> length (lznt1_payload 0 ts) \<le> 4096"

fun lznt1_stored_bytes :: "lznt1_stored \<Rightarrow> byte list" where
  "lznt1_stored_bytes (Lz_raw bs) = le16 (0x3000 + (length bs - 1)) @ bs"
| "lznt1_stored_bytes (Lz_packed ts) = le16 (0xb000 + (length (lznt1_payload 0 ts) - 1)) @ lznt1_payload 0 ts"

fun lznt1_well_formed :: "nat \<Rightarrow> lznt1_stored list \<Rightarrow> bool" where
  "lznt1_well_formed n [] \<longleftrightarrow> True"
| "lznt1_well_formed n (x # xs) \<longleftrightarrow> lznt1_stored_valid n x \<and> lznt1_well_formed (n + lz_total (lznt1_tokens x)) xs"

definition lznt1_bytes :: "lznt1_stored list \<Rightarrow> byte list" where
  "lznt1_bytes xs = concat (map lznt1_stored_bytes xs)"

definition lznt1_all_tokens :: "lznt1_stored list \<Rightarrow> lz_token list" where
  "lznt1_all_tokens xs = concat (map lznt1_tokens xs)"

lemma lznt1_header_encoded:
  assumes "k < 4096" "v = 0x3000 + k \<or> v = 0xb000 + k"
  shows "lznt1_header_read_data (le16 v @ post) = Ok \<lparr>lbh_block_size = k + 1, lbh_is_compressed = (v = 0xb000 + k)\<rparr>"
    "le16 v \<noteq> [0, 0]"
proof -
  have "(c * 4096 + k) mod 4096 = k" for c using assms(1) by simp
  from this [of 3] this [of 11] have v: "v < 65536" "v mod 4096 = k" using assms by auto
  have "v AND 0xfff = k" using mask_mod [of v 12] v(2) by simp
  moreover have "v AND 0x8000 \<noteq> 0 \<longleftrightarrow> odd (v div 32768)"
    using and_exp_eq_0_iff_not_bit [of v 15] by (simp add: bit_iff_odd)
  moreover have "odd (v div 32768) \<longleftrightarrow> v = 0xb000 + k"
  proof -
    have "(0xb000 + k) div 32768 = 1" "(0x3000 + k) div 32768 = 0" using assms(1) by (auto intro: div_nat_eqI)
    then show ?thesis using assms(2) by auto
  qed
  ultimately show "lznt1_header_read_data (le16 v @ post) = Ok \<lparr>lbh_block_size = k + 1, lbh_is_compressed = (v = 0xb000 + k)\<rparr>"
    using u16_le_le16 [OF v(1), of "[]" post] by (simp add: lznt1_header_read_data_def Let_def) (simp add: le16_def)
  have "48 \<le> v div 256" "v div 256 < 256" using assms by (auto simp: less_eq_div_iff_mult_less_eq div_less_iff_less_mult)
  then have "unat (of_nat (v div 256) :: byte) \<noteq> 0" using unat_byte_of_nat [of "v div 256"] by simp
  then show "le16 v \<noteq> [0, 0]" by (auto simp: le16_def)
qed

lemma token_size_pos: "lznt1_token_valid p n t \<Longrightarrow> 0 < lz_size t"
  by (cases t) auto

lemma stored_total_pos:
  assumes "lznt1_stored_valid n x"
  shows "0 < lz_total (lznt1_tokens x)"
proof (cases x)
  case (Lz_packed ts)
  then show ?thesis using assms by (cases ts) (auto dest: token_size_pos)
qed (use assms in auto)

lemma lznt1_stored_header:
  assumes "lznt1_stored_valid n x"
  obtains header w where "lznt1_stored_bytes x = w @ drop 2 (lznt1_stored_bytes x)" "length w = 2" "w \<noteq> [0, 0]"
    "lznt1_header_read_data (lznt1_stored_bytes x @ post) = Ok header"
proof -
  have "\<exists>k v bs. lznt1_stored_bytes x = le16 v @ bs \<and> k < 4096 \<and> (v = 0x3000 + k \<or> v = 0xb000 + k)"
  proof (cases x)
    case (Lz_raw bs)
    then show ?thesis
      using assms by (intro exI [of _ "length bs - 1"] exI [of _ "0x3000 + (length bs - 1)"] exI [of _ bs]) auto
  next
    case (Lz_packed ts)
    then show ?thesis
      using assms by (intro exI [of _ "length (lznt1_payload 0 ts) - 1"] exI [of _ "0xb000 + (length (lznt1_payload 0 ts) - 1)"]
          exI [of _ "lznt1_payload 0 ts"]) auto
  qed
  then obtain k v bs where k: "lznt1_stored_bytes x = le16 v @ bs" "k < 4096" "v = 0x3000 + k \<or> v = 0xb000 + k" by blast
  have "length (le16 v) = 2" by (simp add: le16_def)
  then show thesis using that [where w = "le16 v"] lznt1_header_encoded(1) [OF k(2,3), of "bs @ post"] lznt1_header_encoded(2) [OF k(2,3)] k(1) by simp
qed

lemma lznt1_block_encoded:
  assumes v: "lznt1_stored_valid (length out) x" and r: "lz_total (lznt1_tokens x) \<le> length rest"
    and h: "lznt1_header_read_data (lznt1_stored_bytes x @ post) = Ok header"
  shows "lznt1_block header (pre @ lznt1_stored_bytes x @ post) (length pre + 2) (length out) (out @ rest) =
    Ok (length pre + length (lznt1_stored_bytes x), length (lz_expand_all (lznt1_tokens x) out),
        lz_expand_all (lznt1_tokens x) out @ drop (lz_total (lznt1_tokens x)) rest)"
proof (cases x)
  case (Lz_raw bs)
  define w where "w = le16 (0x3000 + (length bs - 1))"
  have w: "length w = 2" by (simp add: w_def le16_def)
  have "header = \<lparr>lbh_block_size = length bs, lbh_is_compressed = False\<rparr>"
    using h v lznt1_header_encoded(1) [of "length bs - 1" "0x3000 + (length bs - 1)" "bs @ post"] Lz_raw by auto
  moreover have "subslice (length pre + 2) (length bs) (pre @ w @ bs @ post) = bs" using w by (simp add: subslice_def)
  moreover have e: "lznt1_stored_bytes x = w @ bs" by (simp only: Lz_raw lznt1_stored_bytes.simps w_def)
  ultimately show ?thesis
    unfolding e using r w write_slice_eq [of bs rest out] by (simp add: Lz_raw lznt1_block_def Let_def)
next
  case (Lz_packed ts)
  let ?p = "lznt1_payload 0 ts"
  define w where "w = le16 (0xb000 + (length ?p - 1))"
  have w: "length w = 2" by (simp add: w_def le16_def)
  have p: "0 < length ?p" "length ?p \<le> 4096" using v Lz_packed payload_nonempty by auto
  have hd: "header = \<lparr>lbh_block_size = length ?p, lbh_is_compressed = True\<rparr>"
  proof -
    obtain k where k: "length ?p = Suc k" "k < 4096" using p by (cases "length ?p") auto
    then show ?thesis using h lznt1_header_encoded(1) [of k "0xb000 + k" "?p @ post"] Lz_packed by simp
  qed
  have b0: "\<lparr>lb_compressed_offset = length pre + 2, lb_uncompressed_offset = length out, lb_uncompressed_data = out @ rest, lb_threshold = 16,
         lb_distance_shift = 12, lb_match_size_mask = 0x0fff, lb_block_offset = 0\<rparr> = block_state (length (pre @ w)) out rest (lznt1_bits 0) 0"
    by (simp add: block_state_def lznt1_bits_def bits_from.simps w)
  obtain m where "lznt1_block_loop ((pre @ w) @ ?p @ post) (length (pre @ w) + length ?p) (block_state (length (pre @ w)) out rest (lznt1_bits 0) 0) =
      Ok (block_state (length (pre @ w) + length ?p) (lz_expand_all ts out) (drop (lz_total ts) rest) m (0 + lz_total ts))"
    using lznt1_block_loop_encoded [of 0 out ts rest "length (pre @ w) + length ?p" "pre @ w" post] v r Lz_packed by auto
  moreover have e: "lznt1_stored_bytes x = w @ ?p" by (simp only: Lz_packed lznt1_stored_bytes.simps w_def)
  ultimately show ?thesis
    unfolding e using w b0 by (simp add: Lz_packed lznt1_block_def lznt1_decompress_block_def hd)
qed

lemma lznt1_loop_encoded:
  assumes "lznt1_well_formed (length out) xs" "lz_total (lznt1_all_tokens xs) \<le> length rest"
    "tail = [] \<or> take 2 tail = [0, 0] \<or> lz_total (lznt1_all_tokens xs) = length rest"
  shows "lznt1_loop (pre @ lznt1_bytes xs @ tail) (length pre) (length out) (out @ rest) =
    Ok (length out + lz_total (lznt1_all_tokens xs), lz_expand_all (lznt1_all_tokens xs) out @ drop (lz_total (lznt1_all_tokens xs)) rest)"
  using assms
proof (induction xs arbitrary: pre out rest)
  case Nil
  have "2 \<le> length tail" if "take 2 tail = [0, 0]" using arg_cong [OF that, of length] by simp
  then show ?case
    using Nil by (auto simp: lznt1_loop.simps [of "pre @ tail"] lznt1_bytes_def lznt1_all_tokens_def sub_u64_def subslice_def)
next
  case (Cons x xs)
  let ?ts = "lznt1_tokens x" and ?b = "lznt1_stored_bytes x"
  let ?out = "lz_expand_all ?ts out" and ?rest = "drop (lz_total ?ts) rest" and ?post = "lznt1_bytes xs @ tail"
  have tot: "lz_total (lznt1_all_tokens (x # xs)) = lz_total ?ts + lz_total (lznt1_all_tokens xs)"
    and ex: "lz_expand_all (lznt1_all_tokens (x # xs)) out = lz_expand_all (lznt1_all_tokens xs) ?out"
    by (simp_all add: lznt1_all_tokens_def lz_total_append lz_expand_all_append)
  have v: "lznt1_stored_valid (length out) x" "0 < lz_total ?ts" "lz_total ?ts \<le> length rest"
    using Cons.prems stored_total_pos tot by auto
  obtain k w where w: "?b = w @ drop 2 ?b" "length w = 2" "w \<noteq> [0, 0]" "lznt1_header_read_data (?b @ ?post) = Ok k"
    using lznt1_stored_header [OF v(1)] by blast
  have step: "lznt1_loop (pre @ ?b @ ?post) (length pre) (length out) (out @ rest) =
      lznt1_loop (pre @ ?b @ ?post) (length pre + length ?b) (length ?out) (?out @ ?rest)"
  proof -
    have "subslice (length pre) 2 (pre @ ?b @ ?post) = w" using w(1,2) by (metis (no_types, lifting) append_assoc append_eq_conv_conj subslice_def)
    moreover have "2 \<le> length ?b" using w(1,2) by (metis length_append le_add1)
    moreover have "rest \<noteq> []" using v by auto
    ultimately show ?thesis
      using w(3,4) lznt1_block_encoded [OF v(1,3) w(4), of pre]
      by (subst lznt1_loop.simps) (auto simp: sub_u64_def)
  qed
  have "lznt1_loop ((pre @ ?b) @ ?post) (length (pre @ ?b)) (length ?out) (?out @ ?rest) =
      Ok (length ?out + lz_total (lznt1_all_tokens xs), lz_expand_all (lznt1_all_tokens xs) ?out @ drop (lz_total (lznt1_all_tokens xs)) ?rest)"
    using Cons.prems tot v by (intro Cons.IH) auto
  then show ?case using step tot ex by (simp add: lznt1_bytes_def add.assoc add.commute [of "lz_total (lznt1_all_tokens xs)"])
qed

text \<open>
  (C27) LZNT1: decompressing the encoding of blocks, stored as they are or as tokens of literals and matches,
  gives their expansion, when the buffer is large enough; what follows the blocks is ignored where
  it starts with an empty header or the buffer is full.
\<close>

theorem lznt1_round_trip:
  assumes "lznt1_well_formed 0 xs" "lz_total (lznt1_all_tokens xs) \<le> length buf"
    "tail = [] \<or> take 2 tail = [0, 0] \<or> lz_total (lznt1_all_tokens xs) = length buf"
  shows "lznt1_decompress context (lznt1_bytes xs @ tail) buf =
    Ok (context\<lparr>lznt1_uncompressed_data_size := lz_total (lznt1_all_tokens xs)\<rparr>,
        lz_expand_all (lznt1_all_tokens xs) [] @ drop (lz_total (lznt1_all_tokens xs)) buf)"
  using lznt1_loop_encoded [of "[]" xs buf tail "[]"] assms by (simp add: lznt1_decompress_def)

theorem lznt1_round_trip_witness:
  "lznt1_decompress lznt1_new [0x03, 0xb0, 2, 0x61, 1, 0, 0, 0x30, 0x62] (replicate 8 0) =
   Ok (\<lparr>lznt1_uncompressed_data_size = 6\<rparr>, [0x61, 0x61, 0x61, 0x61, 0x61, 0x62, 0, 0])"
proof -
  let ?xs = "[Lz_packed [Lz_literal [0x61], Lz_match (Suc 0) 4], Lz_raw [0x62]]"
  have b: "lznt1_bits 0 = 4" "lznt1_bits (Suc 0) = 4" by (simp_all add: lznt1_bits_def bits_from.simps)
  have p: "lznt1_payload 0 [Lz_literal [0x61], Lz_match (Suc 0) 4] = [2, 0x61, 1, 0]"
    using b by (simp add: lznt1_payload.simps le16_def)
  have "lznt1_bytes ?xs = [0x03, 0xb0, 2, 0x61, 1, 0, 0, 0x30, 0x62]" by (simp add: lznt1_bytes_def p le16_def)
  moreover have "lznt1_well_formed 0 ?xs" using b by (simp add: p)
  moreover have "lz_total (lznt1_all_tokens ?xs) = 6" by (simp add: lznt1_all_tokens_def)
  moreover have "lz_expand_all (lznt1_all_tokens ?xs) [] = [0x61, 0x61, 0x61, 0x61, 0x61, 0x62]"
    by (simp add: lznt1_all_tokens_def eval_nat_numeral)
  ultimately show ?thesis
    using lznt1_round_trip [of ?xs "replicate 8 0" "[]" lznt1_new] by (simp add: lznt1_new_def eval_nat_numeral)
qed

end
