(* ===== verification/Spec2Isabelle.thy ===== *)
theory Spec2Isabelle
  imports Cursor Probe_Cache Observed_Source Adler32 Mbr Apm Gpt Sparse_Image Qcow Split_Raw Sparse_Bundle Vhd Vhdx_Disk Ewf_Properties Fat_Files Timestamps Adc Lznt1_Format
begin

text \<open>
  \<^bold>\<open>Keramics: sources, volume systems, disk images, a file system, and what they compute with\<close>

  Keramics reads storage media formats for digital forensics.  This development models, function by function,
  the sources, the volume systems, seven of the image drivers and the FAT driver of the crate
  \<open>keramics-drivers\<close> (\<open>src/keramics-drivers/src\<close>, the paths below that name no crate) and what they and the
  tools compute with: checksums (\<open>keramics-checksums\<close>), the ADC, LZNT1, Deflate and ZLIB decompressors
  (\<open>keramics-compression\<close>), dates and times (\<open>keramics-datetime\<close>) and identifiers and text (\<open>keramics-types\<close>).
  The parts of these crates that it leaves out are listed at the end.

  \<^bold>\<open>The parts of the program and how they interact.\<close>  A \<^emph>\<open>data source\<close> is a random access view of
  bytes: it has a size and reads into a buffer at an offset, possibly less than asked for, possibly
  failing.  Sources are built from sources: a slice of one, segments of several one after the other,
  extents that are stored in some source or are zeros.  A \<^emph>\<open>volume system\<close> (MBR, APM, GPT) parses
  the partition tables of a source and opens each partition as a slice.  An \<^emph>\<open>image driver\<close> parses the
  metadata of an image file, or of several files that a \<^emph>\<open>resolver\<close> opens by name, and presents the
  disk the image holds as a segmented source, an extent map, or, for EWF, a source of its own that
  decompresses chunks.  A \<^emph>\<open>file system driver\<close> (FAT) finds the directories and files in a source and opens
  the contents of a file as an extent map.  Cursors, the probe cache and the observing source are layers a
  client puts on top of a source.

  \<^bold>\<open>Conventions.\<close>  Bytes are \<open>8 word\<close>; the checksums and the bit streams compute on \<open>32 word\<close>.  Sizes and
  offsets, which the code keeps in \<open>u64\<close>, \<open>u32\<close>, \<open>u16\<close> or \<open>usize\<close> (64 bits), are natural numbers, and every
  addition, multiplication and shift that can leave its type is written with the \<open>checked_\<close> or panicking
  operation of theory \<open>Prelude\<close> that the code uses there: an unchecked operation that overflows is the error
  \<open>Panic Arithmetic_overflow\<close>, as in a build with overflow checks.  Where a number is narrowed with \<open>as\<close>, the
  model takes it modulo the size of the type.  A \<open>Result\<close> is the type \<open>result\<close>
  of theory \<open>Errors\<close>, whose error type has a constructor per error message of the code and one for
  panics.  A function that fills a buffer returns the bytes it wrote, of which there are at most as
  many as the buffer is long; a decompressor, which leaves the rest of its buffer as it was, returns the
  buffer.  Memory allocation does not fail in the model.  A shared reference to a source is the
  source: sources are values, and the only mutable state behind a reference, that of the probe cache,
  of the observing source and of the EWF chunk cache, is passed explicitly.

  \<^bold>\<open>Theories.\<close>
  \<^item> \<open>Errors\<close>, \<open>Prelude\<close>: results, the named collections, integers in their width, slices of byte
    lists, the byte order readers (\<open>keramics-types/src/macros.rs\<close>).
  \<^item> \<open>Capabilities\<close> (\<open>source/capabilities.rs\<close>, \<open>source/util.rs\<close>): what a source says about itself, and
    that a composed source is as capable as its worst part.
  \<^item> \<open>Gather\<close>, \<open>Data_Source\<close> (\<open>source/data_source.rs\<close>): the trait, the loops of \<open>read_exact_at\<close> and
    \<open>read_all\<close>, and the contracts of a source as locales: \<open>byte_source\<close> (successful reads return bytes
    of a fixed content, and no bytes only at the end), \<open>total_source\<close> (reads do not fail),
    \<open>exact_source\<close> (reads are not short either).
  \<^item> \<open>Memory_Source\<close> (\<open>source/memory.rs\<close>, \<open>source/slice.rs\<close>), \<open>Pieces\<close>, \<open>Segmented_Source\<close>
    (\<open>source/segmented.rs\<close>), \<open>Extent_Map\<close> (\<open>source/extent_map.rs\<close>): the sources, each interpreted in
    the contracts.  \<open>Pieces\<close> has the loop that segmented and extent map sources share, with a
    binary search for the first piece, as a locale that both interpret.  \<open>Extent_Spans\<close>: lists of extents
    that are built piece by piece.
  \<^item> \<open>Cursor\<close>, \<open>Probe_Cache\<close>, \<open>Observed_Source\<close> (\<open>source/cursor.rs\<close>, \<open>source/probe_cache.rs\<close>,
    \<open>source/observed.rs\<close>): the layers with state.  The readers of a shared probe cache are a
    step relation over the lock sections of \<open>read_window\<close>.
  \<^item> \<open>Crc32\<close>, \<open>Adler32\<close> (\<open>keramics-checksums\<close>), \<open>Unicode_Text\<close>, \<open>Uuid\<close> (\<open>keramics-types\<close>): checksums
    against their bitwise or direct definitions, text decoding, identifiers.
  \<^item> \<open>Volume_System\<close>, \<open>Mbr\<close>, \<open>Apm\<close>, \<open>Gpt\<close> (\<open>volume/\<close>): the contract of a volume system (partitions
    that share no byte, and lie in the source) and the three systems that keep it.  The chain of
    extended boot records has a declarative specification, an inductive predicate.
  \<^item> \<open>Resolver\<close> (\<open>resolver/source_resolver.rs\<close>), \<open>Sparse_Image\<close>, \<open>Qcow\<close>, \<open>Split_Raw\<close>,
    \<open>Sparse_Bundle\<close>, \<open>Vhd\<close>, \<open>Vhdx\<close> and \<open>Vhdx_Disk\<close> (\<open>image/\<close>): the image drivers, each with a function that
    gives the byte of the disk at an offset directly from the tables of the format, which the composed source is
    proved to return.
  \<^item> \<open>Ewf\<close>, \<open>Ewf_Media\<close>, \<open>Ewf_Sample\<close>, \<open>Ewf_Properties\<close> (\<open>image/ewf/mod.rs\<close>): the EWF driver with its segment
    files, sections and chunk cache; the media is the concatenation of the contents of the chunks, whatever
    the cache holds, and no bytes make the driver panic.
  \<^item> \<open>Fat_Names\<close>, \<open>Fat\<close>, \<open>Fat_Files\<close> (\<open>filesystem/fat/mod.rs\<close>): the FAT file system: directory records with
    long names against a writer of such records, the allocation table and its chains, the contents of files
    and the lookup of paths.
  \<^item> \<open>Calendar\<close>, \<open>Timestamps\<close> (\<open>keramics-datetime\<close>, and \<open>bodyfile.rs\<close> of \<open>keramics-tools\<close>): the conversion of
    days to dates against the Gregorian calendar defined by its next day, and the timestamp types.
  \<^item> \<open>Lz_Copy\<close>, \<open>Adc\<close>, \<open>Lznt1\<close>, \<open>Lznt1_Format\<close>, \<open>Bitstream\<close>, \<open>Huffman\<close>, \<open>Deflate\<close>, \<open>Deflate_Format\<close>,
    \<open>Deflate_Blocks\<close>, \<open>Deflate_Safety\<close>, \<open>Zlib\<close> (\<open>keramics-compression\<close>): the decompressors, each against the
    token or block lists of its format that an encoder written here turns into bytes; and that no
    input makes them panic.
  \<^item> This theory: a read in a partition of a disk whose image is stored in several files.

  \<^bold>\<open>Loops and bounds.\<close>  Every loop but one is a total function: loops over tables recurse on the list of
  the indices, the loops of the sources on the number of bytes still wanted, the chain of boot
  records on the number of records that \<open>MAX_LOGICAL_PARTITIONS\<close> still allows, the segments of a
  split or EWF image on the 16-bit segment number, a chain of clusters on the entries of the table that have not been
  visited, the date loops on the days that are left, the decompressors on the data that is left or the
  buffer that is not yet filled, the walk over the sections of an EWF segment on the file offset.  No definition takes
  fuel.  The exception is the read loop of the EWF driver, which ends only for the chunk tables that its \<open>open\<close> builds: it
  is a partial function, and the theorems on it show that it has a value.  The provided \<open>read_exact_at\<close>
  of the trait ends because a read that returns no byte is an error.

  \<^bold>\<open>Not modelled.\<close>  \<open>source/local.rs\<close> and \<open>resolver/local.rs\<close> only call the operating system; a
  source or a resolver that is not modelled is a parameter, with the contracts above as hypotheses.
  Of the image drivers, \<open>image/udif/mod.rs\<close> is left out because it needs the bzip2 and LZFSE decompressors and the
  Base64 reader of \<open>keramics-encodings\<close>, none of them modelled, \<open>image/pdi/mod.rs\<close> and \<open>image/vmdk/mod.rs\<close>
  because most of them takes apart a text descriptor (XML and lines of keys), behind which the disk is built from extents the way
  the modelled drivers do.  Of the file systems, FAT is the one that is modelled; \<open>filesystem/ext\<close>,
  \<open>filesystem/hfs\<close>, \<open>filesystem/ntfs\<close> and \<open>filesystem/xfs\<close> are out of scope.  \<open>scanner.rs\<close> only runs the
  signature scanner \<open>keramics-sigscan\<close> over a source, with the identifiers of \<open>format_identifier.rs\<close>.  The other methods of
  \<open>keramics-compression\<close> (bzip2, LZFSE, LZVN, LZX, LZXPRESS) have no caller among the modelled parts.
  \<open>keramics-formats\<close> and \<open>keramics-vfs\<close> hold the older readers of the same formats and the dispatch over them,
  \<open>keramics-encodings\<close> generated code page tables, \<open>keramics-hashes\<close> wrappers of digests of other packages,
  \<open>keramics-layout-map\<close> procedural macros, and \<open>keramics-python\<close> and \<open>keramics-tools\<close> (but for the
  timestamps of \<open>bodyfile.rs\<close>) bindings, printing and arguments.
  Poisoning of a lock is not modelled: no code panics while it holds one.  Error traces are reduced to the message that
  creates them: their frames are only for display.
\<close>

section \<open>A partition of a disk that is stored in pieces\<close>

text \<open>
  A disk image whose files a resolver opens, the disk it holds, a partition of that disk and a
  read in the partition: the composition of the resolver, \<open>Split_Raw\<close>, \<open>Segmented_Source\<close>,
  \<open>Mbr\<close>, the slice view and the provided read method.
\<close>

lemma total_partition_read:
  assumes "total_source ds content" "mbr_open ds = Ok v" "p \<in> set (mbr_partitions v)" "off + len \<le> mbr_size p"
  shows "read_exact_at (mbr_open_source p ds) off len = Ok (subslice (mbr_offset p + off) len content)"
proof -
  have r: "(mbr_offset p, mbr_size p) \<in> set (mbr_ranges v)" using assms(3) by (simp add: mbr_ranges_def)
  note part = mbr.partition_source_total [OF assms(1,2) r, unfolded fst_conv snd_conv]
  have "mbr_offset p + mbr_size p \<le> length content" "length content < u64_limit"
    using mbr.open_inside [OF assms(2) _ r] byte_source.size_content [OF total_source.axioms(1) [OF assms(1)]]
      byte_source.content_u64 [OF total_source.axioms(1) [OF assms(1)]]
    by (simp_all add: range_inside_def)
  then have "off < u64_limit" "length (subslice (mbr_offset p) (mbr_size p) content) = mbr_size p"
    using assms(4) by (simp_all add: length_slice)
  with total_source.read_exact_at_total [OF part, of off len] assms(4) show ?thesis
    by (simp add: mbr_open_source_def slice_slice)
qed

definition mbr_halves :: resolver where
  "mbr_halves name =
     Ok (if name = lit ''a.1'' then Some (memory_source (memory_new (take 1024 mbr_sample)))
         else if name = lit ''a.2'' then Some (memory_source (memory_new (drop 1024 mbr_sample))) else None)"

definition mbr_halves_image :: SplitRawImage where
  "mbr_halves_image =
     \<lparr>sri_segment_size = 1024,
      sri_segments =
        [\<lparr>srs_file_name = lit ''a.1'', srs_logical_offset = 0, srs_size = 1024,
          srs_source = memory_source (memory_new (take 1024 mbr_sample))\<rparr>,
         \<lparr>srs_file_name = lit ''a.2'', srs_logical_offset = 1024, srs_size = 1024,
          srs_source = memory_source (memory_new (drop 1024 mbr_sample))\<rparr>],
      sri_media_size = 2048\<rparr>"

lemma mbr_halves_open: "splitraw_open mbr_halves (Some (lit ''a.1'')) = Ok mbr_halves_image"
proof -
  define naming where "naming = (\<lambda>k. splitraw_segment_file_name (lit ''a.'') k 0 Numeric 1 1)"
  have "naming (Suc 0) = Ok (lit ''a.1'')" "naming (Suc (Suc 0)) = Ok (lit ''a.2'')" "naming (Suc (Suc (Suc 0))) = Ok (lit ''a.3'')"
    using numeric_name [of 0 "lit ''a.''"] numeric_name [of 1 "lit ''a.''"] numeric_name [of 2 "lit ''a.''"]
    by (simp_all add: naming_def lit_def numeral_eq_Suc)
  moreover have "lit ''a.2'' \<noteq> lit ''a.1''" "lit ''a.3'' \<noteq> lit ''a.1''" "lit ''a.3'' \<noteq> lit ''a.2''"
    by (simp_all add: lit_def)
  ultimately have "splitraw_read_segments mbr_halves naming 0 (Suc 0) 0 0 0 [] = Ok (1024, 2048, sri_segments mbr_halves_image)"
    by (simp add: splitraw_read_next splitraw_read_end mbr_halves_def memory_size u64_limit_def u16_limit_def
        mbr_halves_image_def length_mbr_sample)
  then show ?thesis
    by (simp add: splitraw_open_def split_sample_naming naming_def mbr_halves_image_def)
qed

lemma mbr_halves_contents:
  "list_all2 (\<lambda>s c. total_source (srs_source s) c) (sri_segments mbr_halves_image) [take 1024 mbr_sample, drop 1024 mbr_sample]"
  by (simp add: mbr_halves_image_def memory_sources u64_limit_def length_mbr_sample)

text \<open>
  (C1) A read inside a partition of an MBR disk that is stored as a split raw image returns exactly
  the bytes of the concatenated segment files at the offset of the partition, across the
  boundaries of the files, whatever the segment sources return per read as long as they do not
  fail.
\<close>

theorem split_image_partition_read:
  assumes "splitraw_open resolver f = Ok img"
    and "list_all2 (\<lambda>s c. total_source (srs_source s) c) (sri_segments img) contents"
    and "splitraw_open_source img = Ok disk" "mbr_open disk = Ok v"
    and "p \<in> set (mbr_partitions v)" "off + len \<le> mbr_size p"
  shows "read_exact_at (mbr_open_source p disk) off len = Ok (subslice (mbr_offset p + off) len (concat contents))"
proof -
  have "list_all2 (\<lambda>s c. byte_source (srs_source s) c) (sri_segments img) contents"
    using assms(2) by (rule list_all2_mono) (rule total_source.axioms(1))
  from splitraw_open_source_Ok [OF assms(1) this] assms(2,3) have "exact_source disk (concat contents)" by auto
  from total_partition_read [OF exact_source.is_total_source [OF this] assms(4-6)] show ?thesis .
qed

theorem split_image_partition_read_witness:
  "\<exists>disk. splitraw_open_source mbr_halves_image = Ok disk
     \<and> mbr_open disk = Ok mbr_sample_volume
     \<and> read_exact_at (mbr_open_source (mbr_partition_new 0 512 512 0x83 0) disk) 10 20 = Ok (subslice 522 20 mbr_sample)"
proof -
  have bytes: "list_all2 (\<lambda>s c. byte_source (srs_source s) c) (sri_segments mbr_halves_image)
      [take 1024 mbr_sample, drop 1024 mbr_sample]"
    using mbr_halves_contents by (rule list_all2_mono) (rule total_source.axioms(1))
  from splitraw_open_source_Ok [OF mbr_halves_open this] mbr_halves_contents obtain disk
    where disk: "splitraw_open_source mbr_halves_image = Ok disk" "exact_source disk mbr_sample" by auto
  have v: "mbr_open disk = Ok mbr_sample_volume"
    by (rule mbr_sample_open_total) (rule exact_source.is_total_source [OF disk(2)])
  have p: "mbr_partition_new 0 512 512 0x83 0 \<in> set (mbr_partitions mbr_sample_volume)"
    "10 + 20 \<le> mbr_size (mbr_partition_new 0 512 512 0x83 0)"
    by (simp_all add: mbr_sample_volume_def mbr_partition_new_def)
  from split_image_partition_read [OF mbr_halves_open mbr_halves_contents disk(1) v p] disk(1) v
  show ?thesis by (simp add: mbr_partition_new_def)
qed

end
